(* ===== verification/Prelude.thy ===== *)
theory Prelude
  imports Main "HOL-Library.Word"
begin

text \<open>
  Shared vocabulary of the development: the machine types of the Rust sources, the
  \<^verbatim>\<open>Result<T, &'static str>\<close> type, the library operations the sources use on slices
  (\<^verbatim>\<open>position\<close>, index loops that return early, little-endian conversions, string
  literals as bytes), and the lemmas about them that the component theories rely on.

  Machine integers are words, so that \<^verbatim>\<open>+\<close>, \<^verbatim>\<open>-\<close> and \<^verbatim>\<open>*\<close> wrap around as they do
  in the release profile in which \<^verbatim>\<open>build.sh\<close> builds the system. Array indices and
  lengths that the code keeps inside an array are natural numbers.
\<close>

unbundle bit_operations_syntax

type_synonym u8 = "8 word"
type_synonym u16 = "16 word"
type_synonym i16 = "16 word"
type_synonym u32 = "32 word"
type_synonym i32 = "32 word"
type_synonym u64 = "64 word"
type_synonym i64 = "64 word"
type_synonym bytes = "8 word list"

text \<open>\<^verbatim>\<open>Result<T, &'static str>\<close>: \<open>Inl\<close> carries the error message.\<close>

type_synonym 'a result = "string + 'a"

named_theorems wf_intros \<open>every operation keeps its component well formed\<close>
named_theorems frame_simps \<open>what an operation leaves unchanged\<close>

section \<open>Index loops\<close>

text \<open>
  A loop \<^verbatim>\<open>for i in a..b { if c(i) { ...; return } }\<close> acts at the first index that
  satisfies the condition: \<open>find c [a..<b]\<close>.
\<close>

lemma find_upt_Some_iff:
  "find P [a..<b] = Some i \<longleftrightarrow> a \<le> i \<and> i < b \<and> P i \<and> (\<forall>j. a \<le> j \<and> j < i \<longrightarrow> \<not> P j)"
proof
  assume "find P [a..<b] = Some i"
  then obtain k where k: "k < length [a..<b]" "P ([a..<b] ! k)" "i = [a..<b] ! k"
      "\<forall>j<k. \<not> P ([a..<b] ! j)"
    by (auto simp: find_Some_iff)
  have "\<not> P j" if "a \<le> j" "j < i" for j
    using k(3,4)[simplified] k(1) that by (auto dest!: spec [of _ "j - a"])
  with k show "a \<le> i \<and> i < b \<and> P i \<and> (\<forall>j. a \<le> j \<and> j < i \<longrightarrow> \<not> P j)" by auto
next
  assume r: "a \<le> i \<and> i < b \<and> P i \<and> (\<forall>j. a \<le> j \<and> j < i \<longrightarrow> \<not> P j)"
  then show "find P [a..<b] = Some i"
    by (auto simp: find_Some_iff intro!: exI [of _ "i - a"])
qed

lemma find_upt_None_iff: "find P [a..<b] = None \<longleftrightarrow> (\<forall>i. a \<le> i \<and> i < b \<longrightarrow> \<not> P i)"
  by (auto simp: find_None_iff)

lemma find_upt_cong:
  "(\<And>i. a \<le> i \<Longrightarrow> i < b \<Longrightarrow> P i = Q i) \<Longrightarrow> find P [a..<b] = find Q [a..<b]"
  by (rule find_cong) auto

text \<open>\<^verbatim>\<open>iter().position(p)\<close>: the index of the first element that satisfies \<open>p\<close>.\<close>

definition position :: "('a \<Rightarrow> bool) \<Rightarrow> 'a list \<Rightarrow> nat option" where
  "position P xs = find (\<lambda>i. P (xs ! i)) [0..<length xs]"

lemma position_Some_iff:
  "position P xs = Some i \<longleftrightarrow> i < length xs \<and> P (xs ! i) \<and> (\<forall>j<i. \<not> P (xs ! j))"
  by (auto simp: position_def find_upt_Some_iff)

lemma position_None_iff: "position P xs = None \<longleftrightarrow> (\<forall>x \<in> set xs. \<not> P x)"
  by (auto simp: position_def find_upt_None_iff all_set_conv_all_nth)

text \<open>With pairwise different keys the position of a key is the only index that holds it.\<close>

lemma position_key:
  assumes "i < length xs" "f (xs ! i) = k"
    and "\<And>j. j < length xs \<Longrightarrow> f (xs ! j) = k \<Longrightarrow> j = i"
  shows "position (\<lambda>x. f x = k) xs = Some i"
proof -
  have "f (xs ! j) \<noteq> k" if "j < i" for j
    using assms(1) assms(3) [of j] that by fastforce
  with assms(1,2) show ?thesis by (simp add: position_Some_iff)
qed

lemma card_full: "A \<subseteq> {..<n} \<Longrightarrow> card A = n \<longleftrightarrow> A = {..<n::nat}"
proof
  assume "A \<subseteq> {..<n}" "card A = n"
  then show "A = {..<n}" by (intro card_subset_eq) simp_all
qed simp

section \<open>Byte strings\<close>

text \<open>\<^verbatim>\<open>str::as_bytes\<close> and its inverse; a \<^typ>\<open>string\<close> is the byte sequence of the
  Rust string.\<close>

definition as_bytes :: "string \<Rightarrow> bytes" where
  "as_bytes s = map of_char s"

definition of_bytes :: "bytes \<Rightarrow> string" where
  "of_bytes b = map (\<lambda>x. char_of (unat x)) b"

lemma unat_of_char [simp]: "unat (of_char c :: u8) = of_char c"
  by (rule of_nat_inverse) (simp_all only: of_nat_of_char, simp)

lemma of_bytes_as_bytes [simp]: "of_bytes (as_bytes s) = s"
  by (simp add: of_bytes_def as_bytes_def comp_def)

lemma length_as_bytes [simp]: "length (as_bytes s) = length s"
  by (simp add: as_bytes_def)

lemma length_of_bytes [simp]: "length (of_bytes b) = length b"
  by (simp add: of_bytes_def)

text \<open>\<^verbatim>\<open>core::str::from_utf8\<close> accepts well-formed UTF-8 only.\<close>

definition cont :: "u8 \<Rightarrow> bool" where "cont b \<longleftrightarrow> 0x80 \<le> b \<and> b \<le> 0xBF"

fun utf8_valid :: "bytes \<Rightarrow> bool" where
  "utf8_valid [] = True"
| "utf8_valid (a # r) =
     (if a < 0x80 then utf8_valid r
      else if 0xC2 \<le> a \<and> a \<le> 0xDF then (case r of b # r' \<Rightarrow> cont b \<and> utf8_valid r' | _ \<Rightarrow> False)
      else if 0xE0 \<le> a \<and> a \<le> 0xEF then
        (case r of b # c # r' \<Rightarrow> (if a = 0xE0 then 0xA0 \<le> b \<and> b \<le> 0xBF else if a = 0xED then 0x80 \<le> b \<and> b \<le> 0x9F else cont b)
             \<and> cont c \<and> utf8_valid r' | _ \<Rightarrow> False)
      else if 0xF0 \<le> a \<and> a \<le> 0xF4 then
        (case r of b # c # e # r' \<Rightarrow> (if a = 0xF0 then 0x90 \<le> b \<and> b \<le> 0xBF else if a = 0xF4 then 0x80 \<le> b \<and> b \<le> 0x8F else cont b)
             \<and> cont c \<and> cont e \<and> utf8_valid r' | _ \<Rightarrow> False)
      else False)"

definition str_or_empty :: "bytes \<Rightarrow> bytes" where
  "str_or_empty b = (if utf8_valid b then b else [])"

lemma utf8_ascii: "\<forall>b \<in> set bs. b < 0x80 \<Longrightarrow> utf8_valid bs"
  by (induction bs rule: utf8_valid.induct) auto

section \<open>Little-endian integers\<close>

text \<open>\<^verbatim>\<open>uN::from_le_bytes\<close> and \<^verbatim>\<open>uN::to_le_bytes\<close>.\<close>

fun from_le :: "bytes \<Rightarrow> 'a::len word" where
  "from_le [] = 0"
| "from_le (b # bs) = ucast b OR push_bit 8 (from_le bs)"

definition to_le :: "nat \<Rightarrow> 'a::len word \<Rightarrow> bytes" where
  "to_le n w = map (\<lambda>i. ucast (drop_bit (8 * i) w)) [0..<n]"

lemma length_to_le [simp]: "length (to_le n w) = n"
  by (simp add: to_le_def)

lemma bit_from_le:
  "bit (from_le bs :: 'a::len word) i \<longleftrightarrow>
     i < LENGTH('a) \<and> i div 8 < length bs \<and> bit (bs ! (i div 8)) (i mod 8)"
proof (induction bs arbitrary: i)
  case Nil
  then show ?case by simp
next
  case (Cons b bs)
  show ?case
  proof (cases "i < 8")
    case True
    then show ?thesis by (auto simp: bit_simps)
  next
    case False
    then have d: "i div 8 = Suc ((i - 8) div 8)" "i mod 8 = (i - 8) mod 8"
      by (simp_all add: le_div_geq le_mod_geq)
    have "\<not> bit b i" using False bit_imp_le_length [of b i] by auto
    then show ?thesis using False by (auto simp: bit_simps Cons.IH d)
  qed
qed

lemma bit_to_le:
  "k < n \<Longrightarrow> bit (to_le n w ! k) j \<longleftrightarrow> j < 8 \<and> bit w (8 * k + j)"
  by (auto simp: to_le_def bit_simps)

lemma from_le_to_le:
  "LENGTH('a) \<le> 8 * n \<Longrightarrow> from_le (to_le n (w :: 'a::len word)) = w"
  by (rule bit_word_eqI) (auto simp: bit_from_le bit_to_le)

lemma to_le_from_le:
  assumes "8 * length bs \<le> LENGTH('a)"
  shows "to_le (length bs) (from_le bs :: 'a::len word) = bs"
proof (rule nth_equalityI)
  fix k assume k: "k < length (to_le (length bs) (from_le bs :: 'a word))"
  show "to_le (length bs) (from_le bs :: 'a word) ! k = bs ! k"
  proof (rule bit_word_eqI)
    fix j assume "j < LENGTH(8)"
    with k assms show "bit (to_le (length bs) (from_le bs :: 'a word) ! k) j \<longleftrightarrow> bit (bs ! k) j"
      by (simp add: bit_to_le bit_from_le)
  qed
qed simp

section \<open>Aligning words\<close>

lemma unat_take_bit_mod: "unat (take_bit n w) = unat w mod 2 ^ n"
  by (simp only: unsigned_take_bit_eq) (simp add: take_bit_eq_mod)

lemma and_not_mask_eq: "w AND NOT (mask n) = w - take_bit n (w :: 'a::len word)"
proof -
  have "w - take_bit n w = w AND NOT (take_bit n w)"
    by (rule disjunctive_diff) (auto simp: bit_simps)
  also have "\<dots> = w AND NOT (mask n)" by (rule bit_word_eqI) (auto simp: bit_simps)
  finally show ?thesis by simp
qed

lemma unat_and_not_mask: "unat (w AND NOT (mask n)) = unat w div 2 ^ n * 2 ^ n"
proof -
  have "take_bit n w \<le> w" by (simp add: word_le_nat_alt unat_take_bit_mod)
  then show ?thesis 
    by (simp add: and_not_mask_eq unat_sub_if' word_le_nat_alt unat_take_bit_mod minus_mod_eq_div_mult)
qed

lemma unat_ucast_up: "LENGTH('a) \<le> LENGTH('b) \<Longrightarrow> unat (ucast (x :: 'a::len word) :: 'b::len word) = unat x"
proof -
  assume "LENGTH('a) \<le> LENGTH('b)"
  then have "unat x < 2 ^ LENGTH('b)"
    using unsigned_less [of x] by (meson less_le_trans power_increasing one_le_numeral)
  then show ?thesis by (simp add: unsigned_ucast_eq take_bit_nat_eq_self)
qed

lemma word_less_succ: "(w :: 'a::len word) + 1 \<noteq> 0 \<Longrightarrow> w < w + 1"
  using unatSuc [of w] by (simp add: word_less_nat_alt add.commute)

section \<open>Slices\<close>

text \<open>\<^verbatim>\<open>dst[off..off + src.len()].copy_from_slice(src)\<close>, for a range inside \<open>dst\<close>.\<close>

definition splice :: "nat \<Rightarrow> 'a list \<Rightarrow> 'a list \<Rightarrow> 'a list" where
  "splice off src dst = take off dst @ src @ drop (off + length src) dst"

lemma length_splice [simp]: "off + length src \<le> length dst \<Longrightarrow> length (splice off src dst) = length dst"
  by (simp add: splice_def)

lemma nth_splice:
  "off + length src \<le> length dst \<Longrightarrow> i < length dst \<Longrightarrow>
   splice off src dst ! i = (if off \<le> i \<and> i < off + length src then src ! (i - off) else dst ! i)"
  by (auto simp: splice_def nth_append)

text \<open>\<^verbatim>\<open>buf[a..b]\<close>, for \<open>a \<le> b \<le> buf.len()\<close>.\<close>

definition slice :: "nat \<Rightarrow> nat \<Rightarrow> 'a list \<Rightarrow> 'a list" where
  "slice a b xs = take (b - a) (drop a xs)"

lemma length_slice [simp]: "length (slice a b xs) = min (b - a) (length xs - a)"
  by (simp add: slice_def)

lemma nth_slice: "i < b - a \<Longrightarrow> a + i < length xs \<Longrightarrow> slice a b xs ! i = xs ! (a + i)"
  by (simp add: slice_def)

lemma slice_splice_same:
  "off + length src \<le> length dst \<Longrightarrow> slice off (off + length src) (splice off src dst) = src"
  by (simp add: slice_def splice_def)

lemma slice_splice_other:
  assumes "off + length src \<le> length dst" "b \<le> off \<or> off + length src \<le> a"
  shows "slice a b (splice off src dst) = slice a b dst"
  by (rule nth_equalityI) (use assms in \<open>auto simp: nth_slice nth_splice\<close>)

text \<open>Blocks of equal length, one after the other.\<close>

lemma length_concat_const: "(\<And>x. x \<in> set xs \<Longrightarrow> length x = k) \<Longrightarrow> length (concat xs) = k * length xs"
  by (induction xs) simp_all

lemma slice_concat:
  "(\<And>x. x \<in> set xs \<Longrightarrow> length x = k) \<Longrightarrow> i < length xs \<Longrightarrow> slice (k * i) (k * i + k) (concat xs) = xs ! i"
proof (induction xs arbitrary: i)
  case (Cons x xs)
  then show ?case by (cases i) (auto simp: slice_def)
qed simp

section \<open>Loops that may fail\<close>

text \<open>\<^verbatim>\<open>for x in xs { body?; }\<close> over an explicit state, which keeps the changes made
  before an error.\<close>

fun for_each :: "('i \<Rightarrow> 's \<Rightarrow> 's \<times> unit result) \<Rightarrow> 'i list \<Rightarrow> 's \<Rightarrow> 's \<times> unit result" where
  "for_each f [] s = (s, Inr ())"
| "for_each f (x # xs) s = (case f x s of (s', Inl e) \<Rightarrow> (s', Inl e) | (s', Inr _) \<Rightarrow> for_each f xs s')"

lemma for_each_append:
  "for_each f (xs @ ys) s = (case for_each f xs s of (s', Inl e) \<Rightarrow> (s', Inl e) | (s', Inr _) \<Rightarrow> for_each f ys s')"
  by (induction xs arbitrary: s) (auto split: sum.splits prod.splits)

text \<open>A property every round keeps holds at the end, also when a round fails.\<close>

lemma for_each_invariant:
  "(\<And>x s. x \<in> set xs \<Longrightarrow> P s \<Longrightarrow> P (fst (f x s))) \<Longrightarrow> P s \<Longrightarrow> P (fst (for_each f xs s))"
proof (induction xs arbitrary: s)
  case (Cons x xs)
  have "P (fst (f x s))" using Cons.prems by simp
  then show ?case using Cons.IH [of "fst (f x s)"] Cons.prems(1)
    by (auto split: prod.splits sum.splits)
qed simp

lemma for_each_skip:
  "(\<And>x. x \<in> set xs \<Longrightarrow> f x s = (s, Inr ())) \<Longrightarrow> for_each f xs s = (s, Inr ())"
  by (induction xs) auto

end
