(* ===== verification/Interfaces.thy ===== *)
theory Interfaces
  imports Prelude
begin

text \<open>
  The contracts between components, as locales. Each fixes the operations a client calls
  and assumes the laws the provider promises; the lemmas a client needs are proved once
  here. The providers interpret them on the model's own definitions: the descriptor,
  process and window tables are \<open>handle_table\<close>s, the scan-code ring is a
  \<open>bounded_queue\<close>, the frame allocator is a \<open>resource_pool\<close>.
\<close>

section \<open>Tables that hand out handles\<close>

text \<open>
  \<open>ins a t\<close> stores an entry and returns its handle (or nothing when the table is full),
  \<open>del k t\<close> removes the entry of a handle, \<open>look t\<close> is the table as a finite map.
  \<open>room t\<close> says that the next handle is still a new one; \<open>owned k\<close> that the handle
  is one the table gives out.
\<close>

locale handle_table =
  fixes inv :: "'t \<Rightarrow> bool"
    and room :: "'t \<Rightarrow> bool"
    and owned :: "'k \<Rightarrow> bool"
    and valid :: "'a \<Rightarrow> bool"
    and look :: "'t \<Rightarrow> 'k \<Rightarrow> 'v option"
    and ins :: "'a \<Rightarrow> 't \<Rightarrow> 't \<times> 'k option"
    and entry :: "'t \<Rightarrow> 'a \<Rightarrow> 'v"
    and del :: "'k \<Rightarrow> 't \<Rightarrow> 't \<times> bool"
    and capacity :: nat
  assumes ins_Some: "inv t \<Longrightarrow> room t \<Longrightarrow> valid a \<Longrightarrow> ins a t = (t', Some k) \<Longrightarrow>
      inv t' \<and> owned k \<and> look t k = None \<and> look t' = (look t)(k \<mapsto> entry t a)"
    and ins_None: "inv t \<Longrightarrow> ins a t = (t', None) \<Longrightarrow> t' = t"
    and ins_full: "inv t \<Longrightarrow> snd (ins a t) = None \<longleftrightarrow> card (dom (look t)) = capacity"
    and del_True: "inv t \<Longrightarrow> owned k \<Longrightarrow> del k t = (t', True) \<Longrightarrow>
      inv t' \<and> look t k \<noteq> None \<and> look t' = (look t)(k := None)"
    and del_False: "inv t \<Longrightarrow> owned k \<Longrightarrow> del k t = (t', False) \<Longrightarrow> t' = t \<and> look t k = None"
    and look_bound: "inv t \<Longrightarrow> finite (dom (look t)) \<and> card (dom (look t)) \<le> capacity"
begin

text \<open>A session of the table: any interleaving of insertions and removals.\<close>

inductive session :: "'t \<Rightarrow> 'k set \<Rightarrow> 't \<Rightarrow> bool" where
  session_start: "session t {} t"
| session_ins: "session t D t1 \<Longrightarrow> room t1 \<Longrightarrow> valid a \<Longrightarrow> ins a t1 = (t2, r) \<Longrightarrow> session t D t2"
| session_del: "session t D t1 \<Longrightarrow> owned k \<Longrightarrow> del k t1 = (t2, b) \<Longrightarrow> session t (insert k D) t2"

lemma ins_inv: "inv t \<Longrightarrow> room t \<Longrightarrow> valid a \<Longrightarrow> ins a t = (t', r) \<Longrightarrow> inv t'"
  by (cases r) (auto dest: ins_Some ins_None)

lemma del_inv: "inv t \<Longrightarrow> owned k \<Longrightarrow> del k t = (t', b) \<Longrightarrow> inv t'"
  by (cases b) (auto dest: del_True del_False)

lemma session_inv: "session t D t' \<Longrightarrow> inv t \<Longrightarrow> inv t'"
  by (induction rule: session.induct) (blast intro: ins_inv del_inv)+

text \<open>A handle keeps naming the same entry until it is removed: no insertion takes it over.\<close>

lemma ins_keeps:
  "inv t \<Longrightarrow> room t \<Longrightarrow> valid a \<Longrightarrow> ins a t = (t', r) \<Longrightarrow> look t k = Some v \<Longrightarrow> look t' k = Some v"
proof (cases r)
  case (Some k')
  assume a: "inv t" "room t" "valid a" "ins a t = (t', r)" and k: "look t k = Some v"
  from ins_Some [of t a t' k'] a Some have "look t k' = None" "look t' = (look t)(k' \<mapsto> entry t a)"
    by simp_all
  with k show ?thesis by auto
qed (auto dest: ins_None)

lemma del_keeps:
  "inv t \<Longrightarrow> owned k' \<Longrightarrow> del k' t = (t', b) \<Longrightarrow> k \<noteq> k' \<Longrightarrow> look t' k = look t k"
  by (cases b) (auto dest: del_True del_False)

lemma session_stable:
  "session t D t' \<Longrightarrow> inv t \<Longrightarrow> look t k = Some v \<Longrightarrow> k \<notin> D \<Longrightarrow> look t' k = Some v"
proof (induction rule: session.induct)
  case (session_ins t D t1 a t2 r)
  then show ?case by (blast intro: ins_keeps session_inv)
next
  case (session_del t D t1 k' t2 b)
  then show ?case using del_keeps [of t1 k' t2 b k] session_inv [of t D t1] by auto
qed auto

lemma ins_del:
  assumes "inv t" "room t" "valid a" "ins a t = (t1, Some k)" "del k t1 = (t2, b)"
  shows "b \<and> look t2 = look t"
proof -
  from assms(1-4) have i: "inv t1" "owned k" "look t k = None" "look t1 = (look t)(k \<mapsto> entry t a)"
    by (auto dest: ins_Some)
  have b using del_False [of t1 k t2] i assms(5) by (cases b) auto
  with del_True [of t1 k t2] i assms(5) show ?thesis by auto
qed

end

section \<open>Bounded first-in first-out queues\<close>

text \<open>
  \<open>push\<close> drops its argument when the queue is full, \<open>pop\<close> returns nothing when it is
  empty, \<open>items\<close> is the queue as a list.
\<close>

locale bounded_queue =
  fixes inv :: "'q \<Rightarrow> bool"
    and items :: "'q \<Rightarrow> 'a list"
    and push :: "'a \<Rightarrow> 'q \<Rightarrow> 'q"
    and pop :: "'q \<Rightarrow> 'q \<times> 'a option"
    and capacity :: nat
  assumes push_inv: "inv q \<Longrightarrow> inv (push x q)"
    and push_items: "inv q \<Longrightarrow> items (push x q) =
      (if length (items q) < capacity then items q @ [x] else items q)"
    and pop_empty: "inv q \<Longrightarrow> items q = [] \<Longrightarrow> pop q = (q, None)"
    and pop_items: "inv q \<Longrightarrow> items q = x # xs \<Longrightarrow>
      \<exists>q'. pop q = (q', Some x) \<and> inv q' \<and> items q' = xs"
    and items_bound: "inv q \<Longrightarrow> length (items q) \<le> capacity"
begin

definition push_all :: "'a list \<Rightarrow> 'q \<Rightarrow> 'q" where
  "push_all xs q = fold push xs q"

text \<open>Pushing a burst keeps a prefix of it: what fits, in order.\<close>

lemma push_all_spec:
  "inv q \<Longrightarrow> inv (push_all xs q) \<and>
     items (push_all xs q) = items q @ take (capacity - length (items q)) xs"
proof (induction xs arbitrary: q)
  case Nil
  then show ?case by (simp add: push_all_def)
next
  case (Cons x xs)
  from Cons.prems have i: "inv (push x q)" by (rule push_inv)
  from Cons.IH [OF i] have "items (push_all (x # xs) q) =
      items (push x q) @ take (capacity - length (items (push x q))) xs"
    and "inv (push_all (x # xs) q)"
    by (auto simp: push_all_def)
  with items_bound [OF Cons.prems] show ?case
    by (auto simp: push_items [OF Cons.prems] take_Cons' le_less)
qed

lemma pop_inv: "inv q \<Longrightarrow> pop q = (q', r) \<Longrightarrow> inv q'"
  using pop_empty pop_items by (cases "items q") fastforce+

lemma pop_Some: "inv q \<Longrightarrow> pop q = (q', Some x) \<Longrightarrow> items q = x # items q'"
  using pop_empty pop_items by (cases "items q") fastforce+

lemma pop_None: "inv q \<Longrightarrow> pop q = (q', None) \<longleftrightarrow> items q = [] \<and> q' = q"
  using pop_empty pop_items by (cases "items q") fastforce+

end

section \<open>Pools of resources\<close>

text \<open>
  A pool owns a multiset of free resources; \<open>take_one\<close> gives one out, \<open>give_back\<close>
  returns one. The client's lemma: what is handed out is never handed out again before it
  comes back.
\<close>

locale resource_pool =
  fixes inv :: "'p \<Rightarrow> bool"
    and free :: "'p \<Rightarrow> 'r list"
    and take_one :: "'p \<Rightarrow> 'p \<times> 'r option"
    and give_back :: "'r \<Rightarrow> 'p \<Rightarrow> 'p"
    and capacity :: nat
  assumes take_empty: "inv p \<Longrightarrow> free p = [] \<Longrightarrow> take_one p = (p, None)"
    and take_cons: "inv p \<Longrightarrow> free p = r # rs \<Longrightarrow>
      \<exists>p'. take_one p = (p', Some r) \<and> inv p' \<and> free p' = rs"
    and give_free: "inv p \<Longrightarrow> length (free p) < capacity \<Longrightarrow>
      inv (give_back r p) \<and> free (give_back r p) = r # free p"
    and free_bound: "inv p \<Longrightarrow> length (free p) \<le> capacity"
begin

fun take_many :: "nat \<Rightarrow> 'p \<Rightarrow> 'p \<times> 'r list" where
  "take_many 0 p = (p, [])"
| "take_many (Suc n) p = (case take_one p of (p', None) \<Rightarrow> (p', [])
     | (p', Some r) \<Rightarrow> (let (p'', rs) = take_many n p' in (p'', r # rs)))"

lemma take_many_spec:
  "inv p \<Longrightarrow> take_many n p = (p', rs) \<Longrightarrow>
     inv p' \<and> free p = rs @ free p' \<and> length rs = min n (length (free p))"
proof (induction n arbitrary: p rs)
  case 0
  then show ?case by simp
next
  case (Suc n)
  show ?case
  proof (cases "free p")
    case Nil
    with Suc.prems take_empty [OF Suc.prems(1)] show ?thesis by auto
  next
    case (Cons r rs0)
    then obtain p1 where p1: "take_one p = (p1, Some r)" "inv p1" "free p1 = rs0"
      using take_cons [OF Suc.prems(1)] by blast
    with Suc.prems(2) obtain rs1 where rs1: "take_many n p1 = (p', rs1)" "rs = r # rs1"
      by (auto split: prod.splits)
    from Suc.IH [OF p1(2) rs1(1)] show ?thesis
      by (metis Cons append_Cons length_Cons min_Suc_Suc p1(3) rs1(2))
  qed
qed

lemma take_many_distinct:
  "inv p \<Longrightarrow> distinct (free p) \<Longrightarrow> take_many n p = (p', rs) \<Longrightarrow>
     distinct rs \<and> set rs \<inter> set (free p') = {}"
  by (drule (1) take_many_spec) auto

end

end
