(* ===== verification/Fd_Table.thy ===== *)
theory Fd_Table
  imports Interfaces
begin

text \<open>
  The file descriptor table of \<^verbatim>\<open>kernel/src/syscalls/fd.rs\<close>: its entries, its
  operations in the order of the source, the invariant that the three standard streams
  stay in place, and the table as a finite map from descriptors to what they name.
\<close>

section \<open>Data\<close>

definition MAX_FDS :: nat where "MAX_FDS = 128"

datatype FdKind =
    Stream
  | File (sector: u64) (file_offset: u64) (file_size: u64)
  | VfsFile (mount_idx: nat) (inode_id: u64) (vfs_offset: u64)
  | Framebuffer
  | Free

record FdEntry =
  kind :: FdKind

record FdTable =
  entries :: "FdEntry list"

section \<open>Operations\<close>

definition fd_new :: FdTable where
  "fd_new = \<lparr>entries = (replicate MAX_FDS \<lparr>kind = Free\<rparr>)
     [0 := \<lparr>kind = Stream\<rparr>, 1 := \<lparr>kind = Stream\<rparr>, 2 := \<lparr>kind = Stream\<rparr>]\<rparr>"

definition fd_alloc :: "FdKind \<Rightarrow> FdTable \<Rightarrow> FdTable \<times> nat option" where
  "fd_alloc k t =
     (case find (\<lambda>i. kind (entries t ! i) = Free) [3..<MAX_FDS] of
        Some i \<Rightarrow> (t\<lparr>entries := (entries t)[i := \<lparr>kind = k\<rparr>]\<rparr>, Some i)
      | None \<Rightarrow> (t, None))"

definition fd_get :: "FdTable \<Rightarrow> nat \<Rightarrow> FdEntry option" where
  "fd_get t fd =
     (if fd < MAX_FDS \<and> kind (entries t ! fd) \<noteq> Free then Some (entries t ! fd) else None)"

definition fd_close :: "nat \<Rightarrow> FdTable \<Rightarrow> FdTable \<times> bool" where
  "fd_close fd t =
     (if 3 \<le> fd \<and> fd < MAX_FDS \<and> kind (entries t ! fd) \<noteq> Free
      then (t\<lparr>entries := (entries t)[fd := \<lparr>kind = Free\<rparr>]\<rparr>, True)
      else (t, False))"

definition open_count :: "FdTable \<Rightarrow> nat" where
  "open_count t = length (filter (\<lambda>e. kind e \<noteq> Free) (drop 3 (entries t)))"

definition fd_clear :: "FdTable \<Rightarrow> FdTable" where
  "fd_clear t = t\<lparr>entries :=
     fold (\<lambda>i es. es[i := \<lparr>kind = Free\<rparr>]) [3..<MAX_FDS] (entries t)\<rparr>"

definition update_vfs_offset :: "nat \<Rightarrow> u64 \<Rightarrow> FdTable \<Rightarrow> FdTable" where
  "update_vfs_offset fd new_offset t =
     (if fd < MAX_FDS then
        (case kind (entries t ! fd) of
           VfsFile m i off \<Rightarrow> t\<lparr>entries := (entries t)[fd := \<lparr>kind = VfsFile m i new_offset\<rparr>]\<rparr>
         | _ \<Rightarrow> t)
      else t)"

section \<open>The table as a map\<close>

definition fd_map :: "FdTable \<Rightarrow> nat \<Rightarrow> FdKind option" where
  "fd_map t fd = map_option kind (fd_get t fd)"

definition fd_wf :: "FdTable \<Rightarrow> bool" where
  "fd_wf t \<longleftrightarrow> length (entries t) = MAX_FDS \<and> (\<forall>i<3. kind (entries t ! i) = Stream)"

lemma fd_map_eq:
  "fd_map t fd = (if fd < MAX_FDS \<and> kind (entries t ! fd) \<noteq> Free
                  then Some (kind (entries t ! fd)) else None)"
  by (simp add: fd_map_def fd_get_def)

lemma fd_wf_length [simp]: "fd_wf t \<Longrightarrow> length (entries t) = MAX_FDS"
  by (simp add: fd_wf_def)

lemma fd_wf_std: "fd_wf t \<Longrightarrow> fd < 3 \<Longrightarrow> fd_map t fd = Some Stream"
  by (simp add: fd_wf_def fd_map_eq MAX_FDS_def)

lemma fd_new_nth: "i < MAX_FDS \<Longrightarrow> kind (entries fd_new ! i) = (if i < 3 then Stream else Free)"
  by (auto simp: fd_new_def nth_list_update MAX_FDS_def)

lemma fd_new_wf [wf_intros]: "fd_wf fd_new"
  by (simp add: fd_wf_def fd_new_nth MAX_FDS_def) (simp add: fd_new_def MAX_FDS_def)

lemma fd_map_new: "fd_map fd_new = (\<lambda>fd. if fd < 3 then Some Stream else None)"
  by (rule ext) (auto simp: fd_map_eq fd_new_nth MAX_FDS_def split: if_splits)

text \<open>Storing one entry, in the table and in the map.\<close>

lemma fd_map_upd:
  "length (entries t) = MAX_FDS \<Longrightarrow> i < MAX_FDS \<Longrightarrow>
   fd_map (t\<lparr>entries := (entries t)[i := \<lparr>kind = k\<rparr>]\<rparr>) =
     (if k = Free then (fd_map t)(i := None) else (fd_map t)(i \<mapsto> k))"
  by (auto simp: fd_map_eq nth_list_update)

lemma fd_wf_upd:
  "fd_wf t \<Longrightarrow> 3 \<le> i \<Longrightarrow> fd_wf (t\<lparr>entries := (entries t)[i := \<lparr>kind = k\<rparr>]\<rparr>)"
  by (auto simp: fd_wf_def nth_list_update)

lemma fold_upd_length [simp]: "length (fold (\<lambda>i es. es[i := x]) is es) = length es"
  by (induction "is" arbitrary: es) auto

lemma fold_free_nth:
  "i < length es \<Longrightarrow> n \<le> length es \<Longrightarrow>
   fold (\<lambda>i es. es[i := x]) [m..<n] es ! i = (if m \<le> i \<and> i < n then x else es ! i)"
  by (induction n) (auto simp: nth_list_update)

lemma fd_alloc_wf [wf_intros]: "fd_wf t \<Longrightarrow> fd_wf (fst (fd_alloc k t))"
  by (auto simp: fd_alloc_def find_upt_Some_iff intro: fd_wf_upd split: option.splits)

lemma fd_close_wf [wf_intros]: "fd_wf t \<Longrightarrow> fd_wf (fst (fd_close fd t))"
  by (auto simp: fd_close_def intro: fd_wf_upd)

lemma fd_clear_nth:
  "fd_wf t \<Longrightarrow> i < MAX_FDS \<Longrightarrow>
   entries (fd_clear t) ! i = (if 3 \<le> i then \<lparr>kind = Free\<rparr> else entries t ! i)"
  by (simp add: fd_clear_def fold_free_nth)

lemma fd_clear_wf [wf_intros]: "fd_wf t \<Longrightarrow> fd_wf (fd_clear t)"
  by (auto simp: fd_wf_def fd_clear_nth MAX_FDS_def) (simp add: fd_clear_def fold_upd_length)

lemma update_vfs_offset_wf [wf_intros]: "fd_wf t \<Longrightarrow> fd_wf (update_vfs_offset fd n t)"
  by (auto simp: update_vfs_offset_def fd_wf_def nth_list_update split: FdKind.splits)

section \<open>The interface the system calls use\<close>

lemma fd_dom_bound: "dom (fd_map t) \<subseteq> {..<MAX_FDS}"
  by (auto simp: fd_map_eq split: if_splits)

lemma fd_dom_card: "fd_wf t \<Longrightarrow> card (dom (fd_map t)) = MAX_FDS \<longleftrightarrow>
    (\<forall>i<MAX_FDS. kind (entries t ! i) \<noteq> Free)"
proof -
  have "card (dom (fd_map t)) = MAX_FDS \<longleftrightarrow> dom (fd_map t) = {..<MAX_FDS}"
    by (rule card_full [OF fd_dom_bound])
  also have "\<dots> \<longleftrightarrow> (\<forall>i<MAX_FDS. kind (entries t ! i) \<noteq> Free)"
    by (auto simp: fd_map_eq dom_def split: if_splits)
  finally show ?thesis .
qed

interpretation fds: handle_table fd_wf "\<lambda>_. True" "\<lambda>fd. 3 \<le> fd" "\<lambda>k. k \<noteq> Free"
  fd_map fd_alloc "\<lambda>_ k. k" fd_close MAX_FDS
proof (unfold_locales, goal_cases)
  case (1 t a t' k)
  then show ?case
    by (auto simp: fd_alloc_def find_upt_Some_iff fd_map_upd fd_map_eq intro: fd_wf_upd
        split: option.splits)
next
  case (3 t a)
  have "(\<forall>i<3. kind (entries t ! i) \<noteq> Free)" using 3 by (simp add: fd_wf_def)
  then have "(\<forall>i. 3 \<le> i \<and> i < MAX_FDS \<longrightarrow> kind (entries t ! i) \<noteq> Free) \<longleftrightarrow>
      (\<forall>i<MAX_FDS. kind (entries t ! i) \<noteq> Free)"
    using not_less by blast
  then show ?case
    by (auto simp: fd_alloc_def fd_dom_card [OF 3] find_upt_None_iff find_upt_Some_iff
        split: option.splits)
next
  case (4 t k t')
  then show ?case by (auto simp: fd_close_def fd_map_upd fd_map_eq intro: fd_wf_upd split: if_splits)
next
  case (6 t)
  show ?case using card_mono [OF _ fd_dom_bound [of t]] finite_subset [OF fd_dom_bound [of t]] by auto
qed (auto simp: fd_alloc_def fd_close_def fd_map_eq split: option.splits if_splits)

lemma fd_map_clear: "fd_wf t \<Longrightarrow> fd_map (fd_clear t) = (fd_map t) |` {..<3}"
  by (rule ext) (auto simp: fd_map_eq restrict_map_def fd_clear_nth split: if_splits)

lemma fd_map_update_vfs_offset:
  "fd_wf t \<Longrightarrow> fd_map (update_vfs_offset fd n t) =
     (case fd_map t fd of Some (VfsFile m i off) \<Rightarrow> (fd_map t)(fd \<mapsto> VfsFile m i n) | _ \<Rightarrow> fd_map t)"
  by (auto simp: update_vfs_offset_def fd_map_upd split: FdKind.splits)
     (auto simp: fd_map_eq)

section \<open>Properties\<close>

text \<open>
  Allocating a descriptor returns the lowest free number from 3 on, stores the entry
  there and touches no other descriptor; it fails, and changes nothing, only when every
  number from 3 to 127 is taken. The standard streams are never handed out.
\<close>

theorem fd_alloc_lowest:
  assumes "fd_wf t" and "k \<noteq> Free"
  shows "case fd_alloc k t of
           (t', Some fd) \<Rightarrow> 3 \<le> fd \<and> fd < MAX_FDS \<and> fd_map t fd = None \<and>
              (\<forall>j. 3 \<le> j \<and> j < fd \<longrightarrow> fd_map t j \<noteq> None) \<and>
              fd_map t' = (fd_map t)(fd \<mapsto> k) \<and> fd_wf t'
         | (t', None) \<Rightarrow> t' = t \<and> (\<forall>j<MAX_FDS. fd_map t j \<noteq> None)"
proof (cases "fd_alloc k t")
  case (Pair t' r)
  show ?thesis
  proof (cases r)
    case None
    with Pair have "card (dom (fd_map t)) = MAX_FDS" using fds.ins_full [OF assms(1), of k] by simp
    with None Pair show ?thesis
      using fds.ins_None [OF assms(1), of k t'] by (simp add: fd_dom_card [OF assms(1)] fd_map_eq)
  next
    case (Some fd)
    have "3 \<le> fd \<and> fd < MAX_FDS \<and> (\<forall>j. 3 \<le> j \<and> j < fd \<longrightarrow> fd_map t j \<noteq> None)"
      using Pair Some by (auto simp: fd_alloc_def find_upt_Some_iff fd_map_eq split: option.splits)
    with fds.ins_Some [OF assms(1) _ assms(2), of t' fd] Pair Some show ?thesis by simp
  qed
qed

theorem fd_alloc_lowest_witness:
  "fd_wf fd_new \<and> fd_map (fst (fd_alloc (VfsFile 0 7 0) fd_new)) 3 = Some (VfsFile 0 7 0)"
proof -
  have "find (\<lambda>i. kind (entries fd_new ! i) = Free) [3..<MAX_FDS] = Some 3"
    by (simp add: find_upt_Some_iff fd_new_nth MAX_FDS_def)
  then have "snd (fd_alloc (VfsFile 0 7 0) fd_new) = Some 3" by (simp add: fd_alloc_def)
  with fd_alloc_lowest [OF fd_new_wf, of "VfsFile 0 7 0"] fd_new_wf show ?thesis
    by (auto split: prod.splits)
qed

text \<open>
  C19. Refinement: through its map view the table is an ordinary finite map. Closing a
  descriptor from 3 on deletes its key (and reports whether it was there), closing a
  standard stream is refused, clearing keeps exactly the standard streams, moving an
  offset rewrites the offset of a VFS descriptor only.
\<close>

theorem fd_table_refines_map:
  assumes "fd_wf t"
  shows "fd_map (fst (fd_close fd t)) = (if fd < 3 then fd_map t else (fd_map t)(fd := None)) \<and>
    (snd (fd_close fd t) \<longleftrightarrow> 3 \<le> fd \<and> fd_map t fd \<noteq> None) \<and>
    fd_map (fd_clear t) = (\<lambda>i. if i < 3 then Some Stream else None) \<and>
    fd_map (update_vfs_offset fd off t) =
      (case fd_map t fd of
         Some (VfsFile m i _) \<Rightarrow> (fd_map t)(fd \<mapsto> VfsFile m i off)
       | _ \<Rightarrow> fd_map t)"
proof (intro conjI)
  show "fd_map (fst (fd_close fd t)) = (if fd < 3 then fd_map t else (fd_map t)(fd := None))"
    using assms by (auto simp: fd_close_def fd_map_upd fun_eq_iff) (auto simp: fd_map_eq)
  show "snd (fd_close fd t) \<longleftrightarrow> 3 \<le> fd \<and> fd_map t fd \<noteq> None"
    by (simp add: fd_close_def fd_map_eq)
  show "fd_map (fd_clear t) = (\<lambda>i. if i < 3 then Some Stream else None)"
    using assms by (auto simp: fd_map_clear fun_eq_iff restrict_map_def fd_wf_std)
  show "fd_map (update_vfs_offset fd off t) =
      (case fd_map t fd of Some (VfsFile m i _) \<Rightarrow> (fd_map t)(fd \<mapsto> VfsFile m i off)
       | _ \<Rightarrow> fd_map t)"
    using assms by (rule fd_map_update_vfs_offset)
qed

theorem fd_table_refines_map_witness:
  "fd_wf fd_new \<and> fd_map (fd_clear fd_new) 2 = Some Stream \<and> \<not> snd (fd_close 1 fd_new)"
  using fd_table_refines_map [OF fd_new_wf, of 1] fd_new_wf by simp

end
