(* ===== verification/Frames.thy ===== *)
theory Frames
  imports Interfaces
begin

text \<open>
  The physical frame allocator of \<^verbatim>\<open>kernel/src/memory/frame_allocator.rs\<close>: a stack of
  free 4 KiB frames filled from the bootloader's memory map. Allocation clears the frame,
  so the state is the allocator together with the physical memory.
\<close>

section \<open>Data\<close>

definition MAX_FRAMES :: nat where "MAX_FRAMES = 32768"

datatype MemoryRegionKind = Usable | NotUsable

text \<open>A region of the bootloader's memory map; of its kinds the code only tells
  \<^verbatim>\<open>Usable\<close> from the others.\<close>

record MemoryRegion =
  region_start :: u64
  region_end :: u64
  region_kind :: MemoryRegionKind

record BootInfoFrameAllocator =
  free_stack :: "u64 list"
  top :: nat

text \<open>Physical memory, by byte address.\<close>

type_synonym ram = "u64 \<Rightarrow> u8"

record memory =
  frame_alloc :: BootInfoFrameAllocator
  ram :: ram

section \<open>Operations\<close>

definition fa_new :: BootInfoFrameAllocator where
  "fa_new = \<lparr>free_stack = replicate MAX_FRAMES 0, top = 0\<rparr>"

text \<open>
  The inner loop of \<^verbatim>\<open>init\<close>. Writing past the stack's array panics (\<open>None\<close>); the
  count bounds the loop even where \<open>addr + 4096\<close> wraps around.
\<close>

function push_region :: "u64 \<Rightarrow> u64 \<Rightarrow> nat \<Rightarrow> BootInfoFrameAllocator
    \<Rightarrow> (nat \<times> BootInfoFrameAllocator) option" where
  "push_region addr end count fa =
     (if addr + 4096 \<le> end \<and> count < MAX_FRAMES then
        if top fa < length (free_stack fa) then
          push_region (addr + 4096) end (count + 1)
            (fa\<lparr>free_stack := (free_stack fa)[top fa := addr], top := top fa + 1\<rparr>)
        else None
      else Some (count, fa))"
  by pat_completeness auto
termination
  by (relation "measure (\<lambda>(addr, end, count, fa). MAX_FRAMES - count)") auto

declare push_region.simps [simp del]

fun init_regions :: "MemoryRegion list \<Rightarrow> nat \<Rightarrow> BootInfoFrameAllocator
    \<Rightarrow> BootInfoFrameAllocator option" where
  "init_regions [] count fa = Some fa"
| "init_regions (r # rs) count fa =
     (if region_kind r \<noteq> Usable then init_regions rs count fa
      else case push_region ((region_start r + 4095) AND NOT 4095) (region_end r) count fa of
             None \<Rightarrow> None
           | Some (count', fa') \<Rightarrow>
               if MAX_FRAMES \<le> count' then Some fa' else init_regions rs count' fa')"

definition fa_init :: "MemoryRegion list \<Rightarrow> BootInfoFrameAllocator
    \<Rightarrow> BootInfoFrameAllocator option" where
  "fa_init regions fa = init_regions regions 0 fa"

definition zero_frame :: "u64 \<Rightarrow> ram \<Rightarrow> ram" where
  "zero_frame pa m = (\<lambda>a. if a - pa < 4096 then 0 else m a)"

definition allocate_frame :: "memory \<Rightarrow> memory \<times> u64 option" where
  "allocate_frame m =
     (let fa = frame_alloc m in
      if top fa = 0 then (m, None)
      else let t = top fa - 1; pa = free_stack fa ! t in
           (m\<lparr>frame_alloc := fa\<lparr>top := t\<rparr>, ram := zero_frame pa (ram m)\<rparr>, Some pa))"

definition deallocate_frame :: "u64 \<Rightarrow> memory \<Rightarrow> memory" where
  "deallocate_frame frame m =
     (let fa = frame_alloc m in
      if MAX_FRAMES \<le> top fa then m
      else m\<lparr>frame_alloc := fa\<lparr>free_stack := (free_stack fa)[top fa := frame],
                               top := top fa + 1\<rparr>\<rparr>)"

definition free_count :: "BootInfoFrameAllocator \<Rightarrow> nat" where
  "free_count fa = top fa"

section \<open>The free frames\<close>

definition fa_wf :: "BootInfoFrameAllocator \<Rightarrow> bool" where
  "fa_wf fa \<longleftrightarrow> length (free_stack fa) = MAX_FRAMES \<and> top fa \<le> MAX_FRAMES"

text \<open>The free frames, the next one to be allocated first.\<close>

definition free_frames :: "BootInfoFrameAllocator \<Rightarrow> u64 list" where
  "free_frames fa = rev (take (top fa) (free_stack fa))"

lemma length_free_frames [simp]: "fa_wf fa \<Longrightarrow> length (free_frames fa) = top fa"
  by (simp add: free_frames_def fa_wf_def)

lemma free_frames_top:
  "fa_wf fa \<Longrightarrow> 0 < top fa \<Longrightarrow>
   free_frames fa = free_stack fa ! (top fa - 1) # free_frames (fa\<lparr>top := top fa - 1\<rparr>)"
  by (cases "top fa") (auto simp: free_frames_def fa_wf_def take_Suc_conv_app_nth)

lemma free_frames_push:
  "fa_wf fa \<Longrightarrow> top fa < MAX_FRAMES \<Longrightarrow>
   free_frames (fa\<lparr>free_stack := (free_stack fa)[top fa := a], top := Suc (top fa)\<rparr>) =
     a # free_frames fa"
  by (simp add: free_frames_def fa_wf_def take_Suc_conv_app_nth)

lemma fa_new_wf [wf_intros]: "fa_wf fa_new"
  by (simp add: fa_wf_def fa_new_def)

lemma fa_push_wf:
  "fa_wf fa \<Longrightarrow> top fa < MAX_FRAMES \<Longrightarrow>
   fa_wf (fa\<lparr>free_stack := (free_stack fa)[top fa := a], top := Suc (top fa)\<rparr>)"
  by (simp add: fa_wf_def)

interpretation frames: resource_pool "\<lambda>m. fa_wf (frame_alloc m)"
  "\<lambda>m. free_frames (frame_alloc m)" allocate_frame deallocate_frame MAX_FRAMES
proof (unfold_locales, goal_cases)
  case (1 p)
  then have "top (frame_alloc p) = 0" using length_free_frames [OF 1(1)] by simp
  then show ?case by (simp add: allocate_frame_def)
next
  case (2 p r rs)
  then have "0 < top (frame_alloc p)" using length_free_frames [OF 2(1)] by auto
  with 2 free_frames_top [OF 2(1)] show ?case
    by (auto simp: allocate_frame_def Let_def fa_wf_def)
next
  case (3 p r)
  then show ?case by (simp add: deallocate_frame_def Let_def free_frames_push fa_push_wf)
next
  case (4 p)
  then show ?case by (simp add: fa_wf_def)
qed

section \<open>Filling the allocator\<close>

text \<open>What the bootloader promises of its memory map: regions end below the 52-bit limit
  of physical addresses and usable regions do not overlap.\<close>

definition region_ok :: "MemoryRegion \<Rightarrow> bool" where
  "region_ok r \<longleftrightarrow> region_start r \<le> region_end r \<and> unat (region_end r) \<le> 2 ^ 52"

definition regions_apart :: "MemoryRegion \<Rightarrow> MemoryRegion \<Rightarrow> bool" where
  "regions_apart r r' \<longleftrightarrow> region_end r \<le> region_start r' \<or> region_end r' \<le> region_start r"

definition memory_map_ok :: "MemoryRegion list \<Rightarrow> bool" where
  "memory_map_ok rs \<longleftrightarrow> list_all region_ok rs \<and>
     sorted_wrt regions_apart (filter (\<lambda>r. region_kind r = Usable) rs)"

text \<open>The whole frames of a region.\<close>

definition region_frames :: "MemoryRegion \<Rightarrow> u64 set" where
  "region_frames r = {a. region_kind r = Usable \<and> 4096 dvd unat a \<and>
     unat (region_start r) \<le> unat a \<and> unat a + 4096 \<le> unat (region_end r)}"

definition usable_frames :: "MemoryRegion list \<Rightarrow> u64 set" where
  "usable_frames rs = (\<Union>r \<in> set rs. region_frames r)"

lemma align_up_unat:
  fixes s :: u64
  assumes "unat s \<le> 2 ^ 52"
  shows "unat ((s + 4095) AND NOT 4095) = (unat s + 4095) div 4096 * 4096"
proof -
  have u: "unat (s + 4095) = unat s + 4095"
    using assms by (subst unat_add_lem [THEN iffD1]) (auto simp: unat_numeral)
  have m: "(4095::u64) = mask 12" by (simp add: mask_eq_exp_minus_1)
  show ?thesis by (subst (2) m) (simp add: unat_and_not_mask u)
qed
lemma push_region_spec:
  "fa_wf fa \<Longrightarrow> top fa = count \<Longrightarrow> unat end \<le> 2 ^ 52 \<Longrightarrow> unat addr \<le> 2 ^ 52 + 4096 \<Longrightarrow> 
   n = min (MAX_FRAMES - count) ((unat end - unat addr) div 4096) \<Longrightarrow>
   \<exists>fa'. push_region addr end count fa = Some (count + n, fa') \<and> fa_wf fa' \<and> top fa' = count + n \<and>
     free_frames fa' = rev (map (\<lambda>i. addr + 4096 * of_nat i) [0..<n]) @ free_frames fa"
proof (induction addr "end" count fa arbitrary: n rule: push_region.induct)
  case (1 addr "end" count fa)
  have u: "unat (addr + 4096) = unat addr + 4096"
    using "1.prems" by (subst unat_add_lem [THEN iffD1]) auto
  have le: "addr + 4096 \<le> end \<longleftrightarrow> unat addr + 4096 \<le> unat end" by (simp add: word_le_nat_alt u)
  show ?case
  proof (cases "addr + 4096 \<le> end \<and> count < MAX_FRAMES")
    case False
    then have "n = 0" using "1.prems" le by auto
    with False "1.prems" show ?thesis by (subst push_region.simps) auto
  next
    case True
    then have t: "top fa < length (free_stack fa)" using "1.prems" by (simp add: fa_wf_def)
    define fa1 where "fa1 = fa\<lparr>free_stack := (free_stack fa)[top fa := addr], top := top fa + 1\<rparr>"
    have d: "(unat end - unat addr) div 4096 = Suc ((unat end - unat (addr + 4096)) div 4096)"
    proof -
      have "4096 \<le> unat end - unat addr" using True le by linarith
      then show ?thesis using le_div_geq [of 4096 "unat end - unat addr"] u by simp
    qed
    define k where "k = min (MAX_FRAMES - (count + 1)) ((unat end - unat (addr + 4096)) div 4096)"
    have nk: "n = Suc k" using True d unfolding "1.prems"(5) k_def by linarith
    have w: "fa_wf fa1" "top fa1 = count + 1" "free_frames fa1 = addr # free_frames fa"
      using "1.prems" True fa_push_wf [of fa addr] free_frames_push [of fa addr] by (simp_all add: fa1_def)
    have "unat (addr + 4096) \<le> 2 ^ 52 + 4096" using u True le "1.prems" by simp
    from "1.IH" [OF True t, folded fa1_def, OF w(1,2) "1.prems"(3) this k_def] obtain fa' where
      fa': "push_region (addr + 4096) end (count + 1) fa1 = Some (count + 1 + k, fa')"
        "fa_wf fa'" "top fa' = count + 1 + k"
        "free_frames fa' = rev (map (\<lambda>i. addr + 4096 + 4096 * of_nat i) [0..<k]) @ free_frames fa1"
      by blast
    have "map (\<lambda>i. addr + 4096 * of_nat i) [0..<n] = addr # map (\<lambda>i. addr + 4096 + 4096 * of_nat i) [0..<k]"
      unfolding nk upt_conv_Cons [OF zero_less_Suc] map_Suc_upt [symmetric]
      by (simp add: algebra_simps comp_def)
    with fa' w True t show ?thesis by (subst push_region.simps) (simp add: fa1_def nk)
  qed
qed

lemma region_addr_unat:
  fixes addr :: u64
  assumes "unat addr + 4096 * i \<le> 2 ^ 52"
  shows "unat (addr + 4096 * of_nat i) = unat addr + 4096 * i"
proof -
  have "unat (4096 * of_nat i :: u64) = 4096 * i"
    using assms of_nat_inverse [of "4096 * i" "4096 * of_nat i :: u64"] by simp
  with assms show ?thesis by (subst unat_add_lem [THEN iffD1]) auto
qed

text \<open>The addresses \<open>push_region\<close> walks over are the whole frames of the region.\<close>

lemma region_walk:
  fixes r :: MemoryRegion
  defines "addr \<equiv> (region_start r + 4095) AND NOT 4095"
  defines "K \<equiv> (unat (region_end r) - unat addr) div 4096"
  assumes ok: "region_ok r" and us: "region_kind r = Usable"
  shows "inj_on (\<lambda>i. addr + 4096 * of_nat i) {..<K}" (is ?A)
    and "(\<lambda>i. addr + 4096 * of_nat i) ` {..<K} = region_frames r" (is ?B)
    and "unat addr \<le> 2 ^ 52 + 4096" (is ?C)
proof -
  let ?f = "\<lambda>i. addr + 4096 * of_nat i"
  let ?s = "unat (region_start r)" and ?e = "unat (region_end r)"
  have le: "?s \<le> ?e" "?e \<le> 2 ^ 52" using ok by (simp_all add: region_ok_def word_le_nat_alt)
  have ua: "unat addr = (?s + 4095) div 4096 * 4096" unfolding addr_def
    using le by (intro align_up_unat) simp
  have as: "?s \<le> unat addr" "unat addr < ?s + 4096" "4096 dvd unat addr"
    using div_mult_mod_eq [of "?s + 4095" 4096] mod_less_divisor [of 4096 "?s + 4095"] ua
    by simp_all
  show ?C using as le by simp
  have in_range: "unat (?f i) = unat addr + 4096 * i \<and> unat addr + 4096 * i + 4096 \<le> ?e" if "i < K" for i
  proof -
    have "4096 * i + 4096 \<le> ?e - unat addr" using that by (simp add: K_def)
    then have "unat addr + 4096 * i + 4096 \<le> ?e" by simp
    with le show ?thesis by (simp add: region_addr_unat)
  qed
  show ?A
  proof (rule inj_onI)
    fix i j assume "i \<in> {..<K}" "j \<in> {..<K}" "?f i = ?f j"
    then have "unat (?f i) = unat (?f j)" "i < K" "j < K" by auto
    then show "i = j" using in_range [of i] in_range [of j] by linarith
  qed
  show ?B
  proof (intro set_eqI iffI)
    fix a assume "a \<in> ?f ` {..<K}"
    then obtain i where i: "i < K" "a = ?f i" by auto
    have u: "unat a = unat addr + 4096 * i" "unat a + 4096 \<le> ?e" using in_range [OF i(1)] i(2) by simp_all
    have "4096 dvd unat a" using u(1) as(3) by (metis dvd_add dvd_triv_left)
    moreover have "?s \<le> unat a" using u(1) as(1) by linarith
    ultimately show "a \<in> region_frames r" using u(2) us unfolding region_frames_def by blast
  next
    fix a assume "a \<in> region_frames r"
    then have a: "4096 dvd unat a" "?s \<le> unat a" "unat a + 4096 \<le> ?e" by (auto simp: region_frames_def)
    obtain q where q: "unat a = 4096 * q" using a(1) by blast
    obtain p where p: "unat addr = 4096 * p" using as(3) by blast
    have pq: "p \<le> q" using q p a as by simp
    define i where "i = q - p"
    have ui: "unat a = unat addr + 4096 * i" using q p pq by (simp add: i_def algebra_simps)
    have "i < K" unfolding K_def using ui a(3) by simp
    moreover have "a = ?f i" using in_range [OF \<open>i < K\<close>] ui by (simp add: word_unat_eq_iff)
    ultimately show "a \<in> ?f ` {..<K}" by blast
  qed
qed

lemma region_frames_apart:
  "regions_apart r r' \<Longrightarrow> region_frames r \<inter> region_frames r' = {}"
  by (auto simp: regions_apart_def region_frames_def word_le_nat_alt)

lemma usable_frames_Cons: "usable_frames (r # rs) = region_frames r \<union> usable_frames rs"
  by (simp add: usable_frames_def)

lemma init_regions_spec:
  "memory_map_ok rs \<Longrightarrow> fa_wf fa \<Longrightarrow> top fa = count \<Longrightarrow>
   \<exists>fa' xs. init_regions rs count fa = Some fa' \<and> fa_wf fa' \<and> free_frames fa' = xs @ free_frames fa \<and>
     distinct xs \<and> set xs \<subseteq> usable_frames rs \<and> (top fa' < MAX_FRAMES \<longrightarrow> set xs = usable_frames rs)"
proof (induction rs arbitrary: count fa)
  case Nil
  then show ?case by (simp add: usable_frames_def)
next
  case (Cons r rs)
  have ok: "region_ok r" "memory_map_ok rs" using Cons.prems(1) by (auto simp: memory_map_ok_def split: if_splits)
  show ?case
  proof (cases "region_kind r = Usable")
    case False
    then have "region_frames r = {}" by (simp add: region_frames_def)
    with False Cons.IH [OF ok(2) Cons.prems(2,3)] show ?thesis by (simp add: usable_frames_Cons)
  next
    case True
    have disj: "region_frames r \<inter> usable_frames rs = {}"
      using Cons.prems(1) True region_frames_apart
      by (fastforce simp: memory_map_ok_def usable_frames_def region_frames_def)
    define addr where "addr = (region_start r + 4095) AND NOT 4095"
    define K where "K = (unat (region_end r) - unat addr) div 4096"
    define n where "n = min (MAX_FRAMES - count) K"
    define ys where "ys = rev (map (\<lambda>i. addr + 4096 * of_nat i) [0..<n])"
    note walk = region_walk [OF ok(1) True, folded addr_def, folded K_def]
    have "unat (region_end r) \<le> 2 ^ 52" using ok(1) by (simp add: region_ok_def)
    from push_region_spec [OF Cons.prems(2,3) this walk(3) n_def [unfolded K_def]] obtain fa1 where
      fa1: "push_region addr (region_end r) count fa = Some (count + n, fa1)" "fa_wf fa1"
        "top fa1 = count + n" "free_frames fa1 = ys @ free_frames fa"
      unfolding ys_def by blast
    have ys: "distinct ys" "set ys \<subseteq> region_frames r" "n = K \<Longrightarrow> set ys = region_frames r"
      unfolding ys_def walk(2) [symmetric] using walk(1)
      by (auto simp: n_def distinct_map lessThan_atLeast0 intro: inj_on_subset)
    show ?thesis
    proof (cases "MAX_FRAMES \<le> count + n")
      case full: True
      then show ?thesis using fa1 ys True Cons.prems
        by (auto simp: usable_frames_Cons addr_def intro!: exI [of _ ys])
    next
      case False
      then have nK: "n = K" by (auto simp: n_def)
      from Cons.IH [OF ok(2) fa1(2,3)] obtain fa' xs where
        fa': "init_regions rs (count + n) fa1 = Some fa'" "fa_wf fa'" "free_frames fa' = xs @ free_frames fa1"
          "distinct xs" "set xs \<subseteq> usable_frames rs" "top fa' < MAX_FRAMES \<longrightarrow> set xs = usable_frames rs"
        by blast
      with False fa1 ys(1) ys(3) [OF nK] True disj show ?thesis
        by (intro exI [of _ fa'] exI [of _ "xs @ ys"]) (auto simp: usable_frames_Cons addr_def)
    qed
  qed
qed

lemma fa_init_spec:
  "memory_map_ok rs \<Longrightarrow>
   \<exists>fa. fa_init rs fa_new = Some fa \<and> fa_wf fa \<and> distinct (free_frames fa) \<and>
     set (free_frames fa) \<subseteq> usable_frames rs \<and>
     (top fa < MAX_FRAMES \<longrightarrow> set (free_frames fa) = usable_frames rs)"
  using init_regions_spec [OF _ fa_new_wf, of rs 0]
  by (auto simp: fa_init_def fa_new_def free_frames_def)

lemma zero_frame_apply: "zero_frame pa m a = (if a - pa < 4096 then 0 else m a)"
  by (simp add: zero_frame_def)

lemma allocate_frame_ram:
  "allocate_frame m = (m', Some pa) \<Longrightarrow> ram m' = zero_frame pa (ram m)"
  by (auto simp: allocate_frame_def Let_def split: if_splits)

lemma allocate_frame_free:
  "fa_wf (frame_alloc m) \<Longrightarrow> allocate_frame m = (m', Some pa) \<Longrightarrow>
   fa_wf (frame_alloc m') \<and> free_frames (frame_alloc m) = pa # free_frames (frame_alloc m')"
  using frames.take_empty [of m] frames.take_cons [of m]
  by (cases "free_frames (frame_alloc m)") auto

lemma allocate_frame_None:
  "fa_wf (frame_alloc m) \<Longrightarrow> allocate_frame m = (m', None) \<longleftrightarrow> free_frames (frame_alloc m) = [] \<and> m' = m"
  using frames.take_empty [of m] frames.take_cons [of m]
  by (cases "free_frames (frame_alloc m)") auto

lemma deallocate_frame_ram [simp]: "ram (deallocate_frame f m) = ram m"
  by (simp add: deallocate_frame_def Let_def)

section \<open>Properties\<close>

text \<open>
  From a well-formed memory map the allocator is filled without a panic: its free
  frames are pairwise different, each a whole 4 KiB frame inside a usable region, and they
  are all of them unless the 32768-entry stack is full.
\<close>

theorem fa_init_correct:
  assumes "memory_map_ok rs"
  shows "\<exists>fa. fa_init rs fa_new = Some fa \<and> fa_wf fa \<and> distinct (free_frames fa) \<and>
     set (free_frames fa) \<subseteq> usable_frames rs \<and>
     (free_count fa < MAX_FRAMES \<longrightarrow> set (free_frames fa) = usable_frames rs)"
  using fa_init_spec [OF assms] by (simp add: free_count_def)

theorem fa_init_correct_witness:
  "\<exists>fa. fa_init [\<lparr>region_start = 0x500, region_end = 0x3000, region_kind = Usable\<rparr>] fa_new = Some fa \<and>
        distinct (free_frames fa) \<and> 0x500 \<notin> set (free_frames fa)"
proof -
  let ?r = "\<lparr>region_start = 0x500, region_end = 0x3000, region_kind = Usable\<rparr>"
  have "memory_map_ok [?r]" by (simp add: memory_map_ok_def region_ok_def)
  from fa_init_correct [OF this] show ?thesis
    by (auto simp: usable_frames_def region_frames_def)
qed

text \<open>
  C6. No frame has two owners: the frames of any number of successive allocations are
  pairwise different and none of them is still free; an allocated frame reads as zero and
  no other byte of memory has changed; returning it makes it the next to be given out.
\<close>

theorem allocate_frame_exclusive:
  assumes "fa_wf (frame_alloc m)" "distinct (free_frames (frame_alloc m))"
    and "frames.take_many n m = (m', fs)" "allocate_frame m' = (m'', Some pa)"
  shows "distinct (pa # fs) \<and> set (pa # fs) \<inter> set (free_frames (frame_alloc m'')) = {} \<and>
     (\<forall>a. ram m'' a = (if a - pa < 4096 then 0 else ram m' a)) \<and>
     snd (allocate_frame (deallocate_frame pa m'')) = Some pa"
proof -
  from frames.take_many_spec [OF assms(1,3)]
  have s: "fa_wf (frame_alloc m')" "free_frames (frame_alloc m) = fs @ free_frames (frame_alloc m')"
    by simp_all
  note a = allocate_frame_free [OF s(1) assms(4)]
  then have room: "length (free_frames (frame_alloc m'')) < MAX_FRAMES"
    using frames.free_bound [OF s(1)] by simp
  have g: "fa_wf (frame_alloc (deallocate_frame pa m''))"
     "free_frames (frame_alloc (deallocate_frame pa m'')) = pa # free_frames (frame_alloc m'')"
    using frames.give_free [OF _ room, of pa] a by simp_all
  have "snd (allocate_frame (deallocate_frame pa m'')) = Some pa"
    using frames.take_cons [OF g] by auto
  with assms(2) s a show ?thesis by (auto simp: allocate_frame_ram [OF assms(4)] zero_frame_apply)
qed

theorem allocate_frame_exclusive_witness:
  "\<exists>m m' m'' :: memory. frames.take_many 1 m = (m', [0x2000]) \<and>
     allocate_frame m' = (m'', Some 0x1000) \<and> ram m'' 0x1fff = 0 \<and> ram m'' 0x3000 = ram m' 0x3000"
proof -
  define m where "m = \<lparr>frame_alloc = \<lparr>free_stack = (replicate MAX_FRAMES 0)[0 := 0x1000, 1 := 0x2000], top = 2\<rparr>,
    ram = (\<lambda>_. 7)\<rparr>"
  have M: "0 < MAX_FRAMES" "Suc 0 < MAX_FRAMES" "2 \<le> MAX_FRAMES" by (simp_all add: MAX_FRAMES_def)
  have f: "free_frames (frame_alloc m) = [0x2000, 0x1000]"
    using M by (simp add: free_frames_def m_def numeral_2_eq_2 take_Suc_conv_app_nth)
  have w: "fa_wf (frame_alloc m)" "distinct (free_frames (frame_alloc m))"
    using M by (simp add: fa_wf_def m_def, simp add: f)
  obtain m' where m': "allocate_frame m = (m', Some 0x2000)"
    using frames.take_cons [OF w(1) f] by blast
  have m1: "fa_wf (frame_alloc m')" "free_frames (frame_alloc m') = [0x1000]"
    using allocate_frame_free [OF w(1) m'] f by simp_all
  obtain m'' where m'': "allocate_frame m' = (m'', Some 0x1000)"
    using frames.take_cons [OF m1] by blast
  have t: "frames.take_many 1 m = (m', [0x2000])" by (simp add: m')
  have "ram m'' 0x1fff = 0 \<and> ram m'' 0x3000 = ram m' 0x3000"
    using allocate_frame_exclusive [OF w t m''] by simp
  with t m'' show ?thesis by blast
qed
end
