(* ===== verification/Paging.thy ===== *)
theory Paging
  imports Frames
begin

text \<open>
  Four-level paging, \<^verbatim>\<open>kernel/src/memory/page_table.rs\<close>: creation, cloning, translation
  and release of user address spaces, as functions on physical memory. The code reaches
  physical address \<open>p\<close> through the window at \<^verbatim>\<open>PHYSICAL_OFFSET + p\<close>; the model reads
  and writes \<open>p\<close> directly. The entry layout is the one of the x86-64 architecture. The
  mapping primitives of the \<^verbatim>\<open>x86_64\<close> crate (\<^verbatim>\<open>map_to\<close>, \<^verbatim>\<open>unmap\<close>,
  \<^verbatim>\<open>translate_addr\<close>) are parameters.
\<close>

section \<open>Page table entries\<close>

definition rd64 :: "ram \<Rightarrow> u64 \<Rightarrow> u64" where
  "rd64 r a = from_le (map (\<lambda>i. r (a + of_nat i)) [0..<8])"

definition wr64 :: "u64 \<Rightarrow> u64 \<Rightarrow> ram \<Rightarrow> ram" where
  "wr64 a v r = (\<lambda>x. if x - a < 8 then to_le 8 v ! unat (x - a) else r x)"

definition entry_at :: "ram \<Rightarrow> u64 \<Rightarrow> nat \<Rightarrow> u64" where
  "entry_at r table i = rd64 r (table + 8 * of_nat i)"

definition set_entry :: "u64 \<Rightarrow> nat \<Rightarrow> u64 \<Rightarrow> ram \<Rightarrow> ram" where
  "set_entry table i e r = wr64 (table + 8 * of_nat i) e r"

definition present :: "u64 \<Rightarrow> bool" where "present e \<longleftrightarrow> bit e 0"
definition user_accessible :: "u64 \<Rightarrow> bool" where "user_accessible e \<longleftrightarrow> bit e 2"
definition huge_page :: "u64 \<Rightarrow> bool" where "huge_page e \<longleftrightarrow> bit e 7"

definition entry_addr :: "u64 \<Rightarrow> u64" where "entry_addr e = e AND 0x000ffffffffff000"
definition entry_flags :: "u64 \<Rightarrow> u64" where "entry_flags e = e AND 0xfff0000000000fff"

text \<open>\<^verbatim>\<open>PageTableEntry::frame\<close>: no frame without the present flag or for a huge page.\<close>

definition entry_frame :: "u64 \<Rightarrow> u64 option" where
  "entry_frame e = (if present e \<and> \<not> huge_page e then Some (entry_addr e) else None)"

text \<open>\<^verbatim>\<open>VirtAddr::new\<close> accepts the addresses whose upper bits repeat bit 47 and panics on the
  others.\<close>

definition canonical :: "u64 \<Rightarrow> bool" where
  "canonical v \<longleftrightarrow> drop_bit 47 v = 0 \<or> drop_bit 47 v = 0x1ffff"

section \<open>The kernel's own table\<close>

text \<open>The parameters: \<open>map_to pml4 page frame flags\<close> maps a page and says whether it did;
  it allocates missing tables through the frame allocator.\<close>

type_synonym mapper = "u64 \<Rightarrow> u64 \<Rightarrow> u64 \<Rightarrow> u64 \<Rightarrow> memory \<Rightarrow> memory \<times> bool"

definition kernel_map_to :: "mapper \<Rightarrow> u64 option \<Rightarrow> u64 \<Rightarrow> u64 \<Rightarrow> u64 \<Rightarrow> memory
    \<Rightarrow> memory \<times> unit result" where
  "kernel_map_to map_to kernel_pt page frame flags m =
     (case kernel_pt of
        None \<Rightarrow> (m, Inl ''page table not initialised'')
      | Some pt \<Rightarrow> (case map_to pt page frame flags m of
            (m', True) \<Rightarrow> (m', Inr ())
          | (m', False) \<Rightarrow> (m', Inl ''map_to failed'')))"

definition map_page_alloc :: "mapper \<Rightarrow> u64 option \<Rightarrow> u64 \<Rightarrow> u64 \<Rightarrow> memory
    \<Rightarrow> memory \<times> u64 result" where
  "map_page_alloc map_to kernel_pt page flags m =
     (case allocate_frame m of
        (m', None) \<Rightarrow> (m', Inl ''out of physical frames'')
      | (m', Some frame) \<Rightarrow> (case kernel_map_to map_to kernel_pt page frame flags m' of
            (m'', Inl e) \<Rightarrow> (m'', Inl e)
          | (m'', Inr _) \<Rightarrow> (m'', Inr frame)))"

definition kernel_unmap :: "(u64 \<Rightarrow> u64 \<Rightarrow> memory \<Rightarrow> memory \<times> u64 option) \<Rightarrow> u64 option \<Rightarrow> u64
    \<Rightarrow> memory \<Rightarrow> memory \<times> u64 result" where
  "kernel_unmap unmap_page kernel_pt page m =
     (case kernel_pt of
        None \<Rightarrow> (m, Inl ''page table not initialised'')
      | Some pt \<Rightarrow> (case unmap_page pt page m of
            (m', Some frame) \<Rightarrow> (m', Inr frame)
          | (m', None) \<Rightarrow> (m', Inl ''unmap failed'')))"

section \<open>User address spaces\<close>

text \<open>An address space is the physical address of its PML4 frame.\<close>

definition copy_kernel_entry :: "u64 \<Rightarrow> u64 \<Rightarrow> nat \<Rightarrow> ram \<Rightarrow> ram" where
  "copy_kernel_entry kernel_pml4 new_pml4 i r =
     (let e = entry_at r kernel_pml4 i in
      if \<not> present e then r
      else if user_accessible e then r
      else set_entry new_pml4 i e r)"

text \<open>\<open>cr3\<close> is the register: the active PML4.\<close>

definition new_user :: "u64 \<Rightarrow> memory \<Rightarrow> memory \<times> u64 result" where
  "new_user cr3 m =
     (case allocate_frame m of
        (m', None) \<Rightarrow> (m', Inl ''out of frames for PML4'')
      | (m', Some pml4) \<Rightarrow>
          (m'\<lparr>ram := fold (copy_kernel_entry cr3 pml4) [1..<512] (zero_frame pml4 (ram m'))\<rparr>,
           Inr pml4))"

text \<open>The values of \<open>cr3\<close> are start addresses of frames, inside the 52 bits that
  \<^verbatim>\<open>PhysAddr::new\<close> accepts.\<close>

definition from_cr3 :: "u64 \<Rightarrow> u64 option" where
  "from_cr3 cr3 = (if cr3 = 0 then None else if cr3 AND 0xfff = 0 then Some cr3 else None)"

definition map_user_page :: "mapper \<Rightarrow> u64 \<Rightarrow> u64 \<Rightarrow> u64 \<Rightarrow> u64 \<Rightarrow> memory
    \<Rightarrow> memory \<times> unit result" where
  "map_user_page map_to pml4 page frame flags m =
     (case map_to pml4 page frame flags m of
        (m', True) \<Rightarrow> (m', Inr ())
      | (m', False) \<Rightarrow> (m', Inl ''user map_to failed''))"

definition map_user_page_alloc :: "mapper \<Rightarrow> u64 \<Rightarrow> u64 \<Rightarrow> u64 \<Rightarrow> memory
    \<Rightarrow> memory \<times> u64 result" where
  "map_user_page_alloc map_to pml4 page flags m =
     (case allocate_frame m of
        (m', None) \<Rightarrow> (m', Inl ''out of physical frames'')
      | (m', Some frame) \<Rightarrow> (case map_user_page map_to pml4 page frame flags m' of
            (m'', Inl e) \<Rightarrow> (m'', Inl e)
          | (m'', Inr _) \<Rightarrow> (m'', Inr frame)))"

definition copy_frame :: "u64 \<Rightarrow> u64 \<Rightarrow> ram \<Rightarrow> ram" where
  "copy_frame src dst r = (\<lambda>a. if a - dst < 4096 then r (src + (a - dst)) else r a)"

text \<open>The four nested loops of \<^verbatim>\<open>clone_user_space\<close>, innermost first.\<close>

definition clone_l1 :: "mapper \<Rightarrow> u64 \<Rightarrow> nat \<Rightarrow> nat \<Rightarrow> nat \<Rightarrow> u64 \<Rightarrow> nat \<Rightarrow> memory
    \<Rightarrow> memory \<times> unit result" where
  "clone_l1 map_to new pml4_idx pdpt_idx pd_idx pt pt_idx m =
     (let l1 = entry_at (ram m) pt pt_idx in
      if \<not> present l1 \<or> \<not> user_accessible l1 then (m, Inr ())
      else case entry_frame l1 of
        None \<Rightarrow> (m, Inl ''l1 entry without frame'')
      | Some src_frame \<Rightarrow>
          let vaddr = push_bit 39 (of_nat pml4_idx) OR push_bit 30 (of_nat pdpt_idx)
                 OR push_bit 21 (of_nat pd_idx) OR push_bit 12 (of_nat pt_idx)
          in if \<not> canonical vaddr then (m, Inl ''panic'')
             else case map_user_page_alloc map_to new vaddr (entry_flags l1) m of
               (m', Inl e) \<Rightarrow> (m', Inl e)
             | (m', Inr dst_frame) \<Rightarrow> (m'\<lparr>ram := copy_frame src_frame dst_frame (ram m')\<rparr>, Inr ()))"

definition clone_l2 :: "mapper \<Rightarrow> u64 \<Rightarrow> nat \<Rightarrow> nat \<Rightarrow> u64 \<Rightarrow> nat \<Rightarrow> memory
    \<Rightarrow> memory \<times> unit result" where
  "clone_l2 map_to new pml4_idx pdpt_idx pd pd_idx m =
     (let l2 = entry_at (ram m) pd pd_idx in
      if \<not> present l2 then (m, Inr ())
      else if huge_page l2 then (m, Inl ''2MiB huge page in user space'')
      else case entry_frame l2 of
        None \<Rightarrow> (m, Inl ''l2 entry without frame'')
      | Some pt \<Rightarrow> for_each (clone_l1 map_to new pml4_idx pdpt_idx pd_idx pt) [0..<512] m)"

definition clone_l3 :: "mapper \<Rightarrow> u64 \<Rightarrow> nat \<Rightarrow> u64 \<Rightarrow> nat \<Rightarrow> memory
    \<Rightarrow> memory \<times> unit result" where
  "clone_l3 map_to new pml4_idx pdpt pdpt_idx m =
     (let l3 = entry_at (ram m) pdpt pdpt_idx in
      if \<not> present l3 then (m, Inr ())
      else if huge_page l3 then (m, Inl ''1GiB huge page in user space'')
      else case entry_frame l3 of
        None \<Rightarrow> (m, Inl ''l3 entry without frame'')
      | Some pd \<Rightarrow> for_each (clone_l2 map_to new pml4_idx pdpt_idx pd) [0..<512] m)"

definition clone_l4 :: "mapper \<Rightarrow> u64 \<Rightarrow> u64 \<Rightarrow> nat \<Rightarrow> memory \<Rightarrow> memory \<times> unit result" where
  "clone_l4 map_to new src_pml4 pml4_idx m =
     (let l4 = entry_at (ram m) src_pml4 pml4_idx in
      if \<not> present l4 then (m, Inr ())
      else if \<not> user_accessible l4 then (m, Inr ())
      else if huge_page l4 then (m, Inl ''1GiB huge page in user space'')
      else case entry_frame l4 of
        None \<Rightarrow> (m, Inl ''l4 entry without frame'')
      | Some pdpt \<Rightarrow> for_each (clone_l3 map_to new pml4_idx pdpt) [0..<512] m)"

definition clone_user_space :: "mapper \<Rightarrow> u64 \<Rightarrow> u64 \<Rightarrow> memory \<Rightarrow> memory \<times> u64 result" where
  "clone_user_space map_to cr3 src_pml4 m =
     (case new_user cr3 m of
        (m1, Inl e) \<Rightarrow> (m1, Inl e)
      | (m1, Inr new) \<Rightarrow> (case for_each (clone_l4 map_to new src_pml4) [0..<512] m1 of
            (m2, Inl e) \<Rightarrow> (m2, Inl e)
          | (m2, Inr _) \<Rightarrow> (m2, Inr new)))"

definition translate :: "ram \<Rightarrow> u64 \<Rightarrow> u64 \<Rightarrow> u64 option" where
  "translate r pml4 vaddr =
     (let l4i = unat (drop_bit 39 vaddr AND 0x1ff);
          l3i = unat (drop_bit 30 vaddr AND 0x1ff);
          l2i = unat (drop_bit 21 vaddr AND 0x1ff);
          l1i = unat (drop_bit 12 vaddr AND 0x1ff);
          e4 = entry_at r pml4 l4i
      in if \<not> present e4 then None
         else let e3 = entry_at r (entry_addr e4) l3i
      in if \<not> present e3 then None
         else if huge_page e3 then Some (entry_addr e3 + (vaddr AND 0x3fffffff))
         else let e2 = entry_at r (entry_addr e3) l2i
      in if \<not> present e2 then None
         else if huge_page e2 then Some (entry_addr e2 + (vaddr AND 0x1fffff))
         else let e1 = entry_at r (entry_addr e2) l1i
      in if \<not> present e1 then None
         else Some (entry_addr e1 + (vaddr AND 0xfff)))"

text \<open>\<^verbatim>\<open>dealloc_user\<close>: the closure \<open>dealloc\<close>, the loops over the page tables of
  PML4 entry 0, and the whole.\<close>

definition dealloc :: "u64 \<Rightarrow> memory \<Rightarrow> memory" where
  "dealloc pa m = (if pa AND 0xfff = 0 then deallocate_frame pa m else m)"

definition dealloc_l1 :: "u64 \<Rightarrow> nat \<Rightarrow> memory \<Rightarrow> memory" where
  "dealloc_l1 pt l1i m =
     (let e1 = entry_at (ram m) pt l1i in if present e1 then dealloc (entry_addr e1) m else m)"

definition dealloc_l2 :: "u64 \<Rightarrow> nat \<Rightarrow> memory \<Rightarrow> memory" where
  "dealloc_l2 pd l2i m =
     (let e2 = entry_at (ram m) pd l2i in
      if \<not> present e2 then m
      else if huge_page e2 then m
      else dealloc (entry_addr e2) (fold (dealloc_l1 (entry_addr e2)) [0..<512] m))"

definition dealloc_l3 :: "u64 \<Rightarrow> nat \<Rightarrow> memory \<Rightarrow> memory" where
  "dealloc_l3 pdpt l3i m =
     (let e3 = entry_at (ram m) pdpt l3i in
      if \<not> present e3 then m
      else if huge_page e3 then m
      else dealloc (entry_addr e3) (fold (dealloc_l2 (entry_addr e3)) [0..<512] m))"

definition dealloc_user :: "u64 \<Rightarrow> memory \<Rightarrow> memory" where
  "dealloc_user pml4 m =
     (let e4 = entry_at (ram m) pml4 0 in
      if \<not> present e4 then dealloc pml4 m
      else dealloc pml4 (dealloc (entry_addr e4)
             (fold (dealloc_l3 (entry_addr e4)) [0..<512] m)))"

section \<open>Reading and writing entries\<close>

lemma word_near:
  fixes a b :: u64
  assumes "8 \<le> b - a" "8 \<le> a - b" "i < 8"
  shows "8 \<le> b + of_nat i - a"
proof -
  define d where "d = b - a"
  have n: "a - b = - d" by (simp add: d_def)
  have d8: "8 \<le> unat d" using assms(1) by (simp add: word_le_nat_alt d_def)
  then have "unat (- d) = 2 ^ 64 - unat d" using unat_sub_if' [of 0 d] by simp
  moreover have "8 \<le> unat (- d)" using assms(2) unfolding n by (simp add: word_le_nat_alt)
  ultimately have "unat d + 8 \<le> 2 ^ 64" by linarith
  moreover have ui: "unat (of_nat i :: u64) = i" using assms(3) by (intro of_nat_inverse [OF refl]) simp
  ultimately have "unat (d + of_nat i) = unat d + i" using assms(3) unat_add_lem [of d "of_nat i"] by simp
  then have "8 \<le> d + of_nat i" using d8 by (simp add: word_le_nat_alt)
  then show ?thesis by (simp add: d_def algebra_simps)
qed

lemma rd64_wr64_same: "rd64 (wr64 a v r) a = v"
proof -
  have u: "unat (of_nat i :: u64) = i" if "i < 8" for i using that by (intro of_nat_inverse [OF refl]) simp
  have "map (\<lambda>i. wr64 a v r (a + of_nat i)) [0..<8] = to_le 8 v"
    by (rule nth_equalityI) (auto simp: wr64_def u word_less_nat_alt)
  then show ?thesis by (simp add: rd64_def from_le_to_le)
qed

lemma rd64_wr64_other:
  "8 \<le> b - a \<Longrightarrow> 8 \<le> a - b \<Longrightarrow> rd64 (wr64 a v r) b = rd64 r b"
  unfolding rd64_def wr64_def
  by (intro arg_cong [where f = from_le] map_cong refl) (auto dest: word_near leD)

definition aligned :: "u64 \<Rightarrow> bool" where "aligned a \<longleftrightarrow> a AND 0xfff = 0"

lemma aligned_iff: "aligned a \<longleftrightarrow> 4096 dvd unat a"
proof -
  have "a AND 0xfff = take_bit 12 a" by (simp add: take_bit_eq_mask mask_eq_exp_minus_1)
  then show ?thesis by (simp add: aligned_def word_unat_eq_iff unat_take_bit_mod dvd_eq_mod_eq_0)
qed

lemma aligned_entry_addr [simp]: "aligned (entry_addr e)"
  by (simp add: aligned_def entry_addr_def and.assoc)

text \<open>Where the bytes of a table are, relative to another frame.\<close>

lemma in_frame_iff:
  fixes p q k :: u64
  assumes "aligned p" "aligned q" "k < 4096"
  shows "q + k - p < 4096 \<longleftrightarrow> p = q"
proof
  assume l: "q + k - p < 4096"
  have p: "4096 dvd unat p" "4096 dvd unat q" using assms by (simp_all add: aligned_iff)
  have d: "4096 dvd unat (q - p)"
  proof (cases "unat p \<le> unat q")
    case True
    then show ?thesis using p by (simp add: unat_sub_if')
  next
    case False
    have "(4096 :: nat) dvd 2 ^ 64" by simp
    then have "4096 dvd unat q + 2 ^ 64 - unat p" using p by (intro dvd_diff_nat dvd_add)
    with False show ?thesis by (simp add: unat_sub_if')
  qed
  then obtain c where c: "unat (q - p) = 4096 * c" by blast
  have k: "unat k < 4096" using assms(3) by (simp add: word_less_nat_alt)
  have "unat (q - p) < 2 ^ LENGTH(64)" by (rule unsigned_less)
  then have "unat (q - p) + unat k < 2 ^ 64" using c k by simp
  then have "unat (q - p + k) = unat (q - p) + unat k" using unat_add_lem [of "q - p" k] by simp
  moreover have "q - p + k < 4096" using l by (simp add: algebra_simps)
  ultimately have "unat (q - p) + unat k < 4096" by (simp add: word_less_nat_alt)
  then have "unat (q - p) = 0" using c by simp
  then show "p = q" by (simp add: unat_eq_0)
qed (use assms in simp)

lemma entry_addr_offset:
  "i < 512 \<Longrightarrow> unat (8 * of_nat i :: u64) = 8 * i"
  using of_nat_inverse [of "8 * i" "8 * of_nat i :: u64"] by simp

lemma entry_offset_less: "i < 512 \<Longrightarrow> k < 8 \<Longrightarrow> (8 * of_nat i + of_nat k :: u64) < 4096"
proof -
  assume "i < 512" "k < 8"
  then have "unat (8 * of_nat i + of_nat k :: u64) = 8 * i + k"
    using of_nat_inverse [of "8 * i + k" "8 * of_nat i + of_nat k :: u64"] by simp
  with \<open>i < 512\<close> \<open>k < 8\<close> show ?thesis by (simp add: word_less_nat_alt)
qed

text \<open>An entry is unaffected by changes outside the frame of its table.\<close>

lemma entry_at_cong:
  assumes "aligned t" "i < 512" "\<And>a. a - t < 4096 \<Longrightarrow> r' a = r a"
  shows "entry_at r' t i = entry_at r t i"
proof -
  have "r' (t + 8 * of_nat i + of_nat k) = r (t + 8 * of_nat i + of_nat k)" if "k < 8" for k
    using entry_offset_less [OF assms(2) that] by (intro assms(3)) (simp add: algebra_simps)
  then show ?thesis unfolding entry_at_def rd64_def
    by (intro arg_cong [where f = from_le] map_cong refl) auto
qed

lemma entry_at_zero: "aligned t \<Longrightarrow> i < 512 \<Longrightarrow> entry_at (zero_frame t r) t i = 0"
proof -
  assume a: "aligned t" "i < 512"
  then have "entry_at (zero_frame t r) t i = entry_at (\<lambda>_. 0) t i"
    by (intro entry_at_cong) (auto simp: zero_frame_def)
  also have "\<dots> = 0" by (simp add: entry_at_def rd64_def numeral_eq_Suc)
  finally show ?thesis .
qed

lemma zero_frame_outside: "aligned p \<Longrightarrow> aligned q \<Longrightarrow> p \<noteq> q \<Longrightarrow> a - q < 4096 \<Longrightarrow> zero_frame p r a = r a"
  using in_frame_iff [of p q "a - q"] by (simp add: zero_frame_def)

lemma set_entry_outside:
  assumes "i < 512" "\<not> a - t < 4096"
  shows "set_entry t i e r a = r a"
proof -
  have "\<not> a - (t + 8 * of_nat i) < 8"
  proof
    assume l: "a - (t + 8 * of_nat i) < 8"
    define k where "k = unat (a - (t + 8 * of_nat i))"
    have "k < 8" using l by (simp add: k_def word_less_nat_alt)
    moreover have "a - t = 8 * of_nat i + of_nat k" by (simp add: k_def)
    ultimately show False using assms entry_offset_less [OF assms(1)] by simp
  qed
  then show ?thesis by (simp add: set_entry_def wr64_def)
qed

lemma entry_at_set_entry_same: "entry_at (set_entry t i e r) t i = e"
  by (simp add: entry_at_def set_entry_def rd64_wr64_same)

lemma entry_at_set_entry_other:
  assumes "i < 512" "j < 512" "i \<noteq> j"
  shows "entry_at (set_entry t i e r) t j = entry_at r t j"
proof -
  have d: "8 \<le> 8 * of_nat x - (8 * of_nat y :: u64)" if "x < 512" "y < 512" "x \<noteq> y" for x y
    using that unat_sub_if' [of "8 * of_nat x" "8 * of_nat y :: u64"]
    by (auto simp: word_le_nat_alt entry_addr_offset)
  have "8 \<le> t + 8 * of_nat j - (t + 8 * of_nat i)" "8 \<le> t + 8 * of_nat i - (t + 8 * of_nat j)"
    using d [of i j] d [of j i] assms by simp_all
  then show ?thesis by (simp add: entry_at_def set_entry_def rd64_wr64_other)
qed

lemma entry_at_set_entry_table:
  assumes "aligned t" "aligned q" "t \<noteq> q" "i < 512" "j < 512"
  shows "entry_at (set_entry t i e r) q j = entry_at r q j"
proof (rule entry_at_cong [OF assms(2,5)])
  fix a assume "a - q < 4096"
  then have "\<not> a - t < 4096" using in_frame_iff [OF assms(1,2), of "a - q"] assms(3) by simp
  with assms(4) show "set_entry t i e r a = r a" by (rule set_entry_outside)
qed
section \<open>What a new address space contains\<close>

text \<open>The kernel's share of a PML4: present entries that user code cannot reach.\<close>

definition kernel_entry :: "u64 \<Rightarrow> bool" where
  "kernel_entry e \<longleftrightarrow> present e \<and> \<not> user_accessible e"

lemma copy_kernel_entry_outside:
  "i < 512 \<Longrightarrow> \<not> a - p < 4096 \<Longrightarrow> copy_kernel_entry c p i r a = r a"
  by (simp add: copy_kernel_entry_def Let_def set_entry_outside)

lemma copy_kernel_entries_outside:
  "n \<le> 512 \<Longrightarrow> \<not> a - p < 4096 \<Longrightarrow> fold (copy_kernel_entry c p) [Suc 0..<n] r a = r a"
  by (induction n) (auto simp: copy_kernel_entry_outside)

lemma entry_at_outside:
  assumes "aligned p" "aligned q" "p \<noteq> q" "j < 512" "\<And>a. \<not> a - p < 4096 \<Longrightarrow> r' a = r a"
  shows "entry_at r' q j = entry_at r q j"
proof (rule entry_at_cong [OF assms(2,4)])
  fix a assume "a - q < 4096"
  then show "r' a = r a" using in_frame_iff [OF assms(1,2), of "a - q"] assms(3,5) by auto
qed

lemma copy_kernel_entries_at:
  assumes "aligned p" "aligned c" "c \<noteq> p" "j < 512" "n \<le> 512"
  shows "entry_at (fold (copy_kernel_entry c p) [1..<n] r) p j =
    (if 1 \<le> j \<and> j < n \<and> kernel_entry (entry_at r c j) then entry_at r c j else entry_at r p j)"
  using assms(5)
proof (induction n)
  case 0
  then show ?case by simp
next
  case (Suc n)
  show ?case
  proof (cases "n = 0")
    case False
    let ?r = "fold (copy_kernel_entry c p) [1..<n] r"
    have c: "entry_at ?r c n = entry_at r c n"
      by (rule entry_at_outside [of p]) (use assms Suc.prems in \<open>auto simp: copy_kernel_entries_outside\<close>)
    have "fold (copy_kernel_entry c p) [1..<Suc n] r = copy_kernel_entry c p n ?r" using False by simp
    moreover have "entry_at (copy_kernel_entry c p n ?r) p j =
        (if j = n \<and> kernel_entry (entry_at r c n) then entry_at r c n else entry_at ?r p j)"
      using Suc.prems assms(4) c
      by (auto simp: copy_kernel_entry_def Let_def kernel_entry_def entry_at_set_entry_same
          entry_at_set_entry_other)
    ultimately show ?thesis using Suc False by (cases "j = n") auto
  qed auto
qed

lemma new_user_spec:
  assumes "new_user cr3 m = (m', Inr p)" "aligned p" "aligned cr3" "cr3 \<noteq> p" "i < 512"
  shows "entry_at (ram m') p i = (if 1 \<le> i \<and> kernel_entry (entry_at (ram m) cr3 i)
      then entry_at (ram m) cr3 i else 0)"
    and "\<And>a. \<not> a - p < 4096 \<Longrightarrow> ram m' a = ram m a"
proof -
  from assms(1) obtain m1 where m1: "allocate_frame m = (m1, Some p)"
      "ram m' = fold (copy_kernel_entry cr3 p) [1..<512] (zero_frame p (ram m1))"
    by (auto simp: new_user_def split: prod.splits option.splits)
  have z: "ram m1 = zero_frame p (ram m)" using allocate_frame_ram [OF m1(1)] .
  show o: "ram m' a = ram m a" if "\<not> a - p < 4096" for a
    using that by (simp add: m1(2) copy_kernel_entries_outside z zero_frame_apply)
  have "entry_at (zero_frame p (ram m1)) cr3 i = entry_at (ram m) cr3 i"
    by (rule entry_at_outside [OF assms(2,3)]) (use assms in \<open>auto simp: z zero_frame_apply\<close>)
  then show "entry_at (ram m') p i = (if 1 \<le> i \<and> kernel_entry (entry_at (ram m) cr3 i)
      then entry_at (ram m) cr3 i else 0)"
    using copy_kernel_entries_at [OF assms(2,3,4,5) order_refl, of "zero_frame p (ram m1)"] assms(5)
    by (simp add: m1(2) entry_at_zero assms(2))
qed

text \<open>The tables reached from a PML4, the PML4 apart.\<close>

definition l3_tables :: "ram \<Rightarrow> u64 \<Rightarrow> u64 set" where
  "l3_tables r p = {entry_addr (entry_at r p i) |i. i < 512 \<and> present (entry_at r p i)}"

definition lower_tables :: "ram \<Rightarrow> u64 set \<Rightarrow> u64 set" where
  "lower_tables r ts = {entry_addr (entry_at r t i) |t i. t \<in> ts \<and> i < 512 \<and>
     present (entry_at r t i) \<and> \<not> huge_page (entry_at r t i)}"

definition tables_below :: "ram \<Rightarrow> u64 \<Rightarrow> u64 set" where
  "tables_below r p = l3_tables r p \<union> lower_tables r (l3_tables r p) \<union>
     lower_tables r (lower_tables r (l3_tables r p))"

definition l4_index :: "u64 \<Rightarrow> nat" where "l4_index v = unat (drop_bit 39 v AND 0x1ff)"

lemma index_less [simp]: "unat (v AND 0x1ff :: u64) < 512"
proof -
  have "v AND 0x1ff = take_bit 9 v" by (simp add: take_bit_eq_mask mask_eq_exp_minus_1)
  then show ?thesis by (simp add: unat_take_bit_mod)
qed

lemma present_0 [simp]: "\<not> present 0" by (simp add: present_def)

lemma translate_absent: "\<not> present (entry_at r p (l4_index v)) \<Longrightarrow> translate r p v = None"
  by (simp add: translate_def l4_index_def Let_def)

text \<open>A translation depends only on the PML4 entry it starts from and the tables below.\<close>

lemma translate_cong:
  assumes e: "entry_at r' p' (l4_index v) = entry_at r p (l4_index v)"
    and t: "\<And>t j. t \<in> tables_below r p \<Longrightarrow> j < 512 \<Longrightarrow> entry_at r' t j = entry_at r t j"
  shows "translate r' p' v = translate r p v"
proof (cases "present (entry_at r p (l4_index v))")
  case False
  then show ?thesis using e by (simp add: translate_absent)
next
  case True
  define i3 where "i3 = unat (drop_bit 30 v AND 0x1ff)"
  define i2 where "i2 = unat (drop_bit 21 v AND 0x1ff)"
  define i1 where "i1 = unat (drop_bit 12 v AND 0x1ff)"
  define t3 where "t3 = entry_addr (entry_at r p (l4_index v))"
  define e3 where "e3 = entry_at r t3 i3"
  define e2 where "e2 = entry_at r (entry_addr e3) i2"
  have lt: "l4_index v < 512" "i3 < 512" "i2 < 512" "i1 < 512"
    by (simp_all add: l4_index_def i3_def i2_def i1_def)
  have m3: "t3 \<in> l3_tables r p" using True lt by (auto simp: l3_tables_def t3_def)
  then have r3: "entry_at r' t3 i3 = e3" using t lt by (simp add: e3_def tables_below_def)
  have m2: "entry_addr e3 \<in> lower_tables r (l3_tables r p)" if "present e3" "\<not> huge_page e3"
    using that m3 lt by (auto simp: lower_tables_def e3_def)
  have r2: "entry_at r' (entry_addr e3) i2 = e2" if "present e3" "\<not> huge_page e3"
    using t m2 [OF that] lt by (simp add: e2_def tables_below_def)
  have r1: "entry_at r' (entry_addr e2) i1 = entry_at r (entry_addr e2) i1"
    if "present e3" "\<not> huge_page e3" "present e2" "\<not> huge_page e2"
  proof -
    have "entry_addr e2 \<in> lower_tables r (lower_tables r (l3_tables r p))"
      using that m2 lt unfolding lower_tables_def [of r "lower_tables r (l3_tables r p)"] e2_def by blast
    then show ?thesis using t lt by (simp add: tables_below_def)
  qed
  show ?thesis
    using True e r3 r2 r1
    unfolding translate_def Let_def l4_index_def [symmetric] i3_def [symmetric] i2_def [symmetric]
      i1_def [symmetric] t3_def e3_def e2_def
    by auto
qed

lemma tables_below_aligned: "t \<in> tables_below r p \<Longrightarrow> aligned t"
  by (auto simp: tables_below_def l3_tables_def lower_tables_def)

lemma new_user_translate:
  assumes n: "new_user cr3 m = (m', Inr p)" and al: "aligned p" "aligned cr3" "cr3 \<noteq> p"
    and fresh: "p \<notin> tables_below (ram m) cr3"
  shows "translate (ram m') p v =
    (if l4_index v \<noteq> 0 \<and> kernel_entry (entry_at (ram m) cr3 (l4_index v))
     then translate (ram m) cr3 v else None)"
proof -
  have lt: "l4_index v < 512" by (simp add: l4_index_def)
  note e = new_user_spec [OF n al lt]
  show ?thesis
  proof (cases "l4_index v \<noteq> 0 \<and> kernel_entry (entry_at (ram m) cr3 (l4_index v))")
    case True
    have "translate (ram m') p v = translate (ram m) cr3 v"
    proof (rule translate_cong)
      show "entry_at (ram m') p (l4_index v) = entry_at (ram m) cr3 (l4_index v)" using e True by simp
      fix t j assume t: "t \<in> tables_below (ram m) cr3" "j < (512::nat)"
      show "entry_at (ram m') t j = entry_at (ram m) t j"
        by (rule entry_at_outside [OF al(1) tables_below_aligned [OF t(1)] _ t(2)])
           (use t fresh e(2) in auto)
    qed
    with True show ?thesis by simp
  next
    case False
    then have "entry_at (ram m') p (l4_index v) = 0" using e by auto
    then show ?thesis using False by (auto simp: translate_absent)
  qed
qed

section \<open>What a release gives back\<close>

text \<open>The frames of a paging tree, every table after what lies below it: \<open>n\<close> is the
  level of \<open>t\<close>, 0 for a page. Huge pages are not entered.\<close>

definition children :: "nat \<Rightarrow> ram \<Rightarrow> u64 \<Rightarrow> u64 list" where
  "children n r t = map entry_addr (filter (\<lambda>e. present e \<and> (n = 0 \<or> \<not> huge_page e))
     (map (entry_at r t) [0..<512]))"

fun tree_frames :: "nat \<Rightarrow> ram \<Rightarrow> u64 \<Rightarrow> u64 list" where
  "tree_frames 0 r t = [t]"
| "tree_frames (Suc n) r t = concat (map (tree_frames n r) (children n r t)) @ [t]"

definition user_frames :: "ram \<Rightarrow> u64 \<Rightarrow> u64 list" where
  "user_frames r pml4 = (let e4 = entry_at r pml4 0 in
     (if present e4 then tree_frames 3 r (entry_addr e4) else []) @ [pml4])"

lemma dealloc_aligned: "aligned pa \<Longrightarrow> dealloc pa m = deallocate_frame pa m"
  by (simp add: dealloc_def aligned_def)

lemma dealloc_ram [simp]: "ram (dealloc pa m) = ram m"
  by (simp add: dealloc_def)

lemma fold_deallocate_ram [simp]: "ram (fold deallocate_frame fs m) = ram m"
  by (induction fs arbitrary: m) auto

lemma fold_filter_map:
  assumes "\<And>i m. i \<in> set is \<Longrightarrow> ram m = r \<Longrightarrow>
      f i m = (if P (g i) then fold deallocate_frame (h (g i)) m else m)"
    and "ram m = r"
  shows "fold f is m = fold deallocate_frame (concat (map h (filter P (map g is)))) m"
  using assms by (induction "is" arbitrary: m) (auto simp: fold_append)

lemma fold_dealloc_l1:
  "ram m = r \<Longrightarrow> fold (dealloc_l1 t) [0..<512] m =
     fold deallocate_frame (concat (map (tree_frames 0 r) (children 0 r t))) m"
  unfolding children_def map_map comp_def
  by (subst fold_filter_map [where r = r and g = "entry_at r t" and P = present and h = "\<lambda>e. [entry_addr e]"])
     (auto simp: dealloc_l1_def Let_def dealloc_aligned comp_def)

lemma fold_dealloc_l2:
  "ram m = r \<Longrightarrow> fold (dealloc_l2 t) [0..<512] m =
     fold deallocate_frame (concat (map (tree_frames 1 r) (children 1 r t))) m"
  unfolding children_def map_map comp_def
  by (subst fold_filter_map [where r = r and g = "entry_at r t" and
        P = "\<lambda>e. present e \<and> \<not> huge_page e" and h = "\<lambda>e. tree_frames 1 r (entry_addr e)"])
     (auto simp: dealloc_l2_def Let_def dealloc_aligned comp_def fold_dealloc_l1 fold_append)

lemma fold_dealloc_l3:
  "ram m = r \<Longrightarrow> fold (dealloc_l3 t) [0..<512] m =
     fold deallocate_frame (concat (map (tree_frames 2 r) (children 2 r t))) m"
  unfolding children_def map_map comp_def
  by (subst fold_filter_map [where r = r and g = "entry_at r t" and
        P = "\<lambda>e. present e \<and> \<not> huge_page e" and h = "\<lambda>e. tree_frames 2 r (entry_addr e)"])
     (auto simp: dealloc_l3_def Let_def dealloc_aligned comp_def fold_dealloc_l2 fold_append
       numeral_2_eq_2)

lemma dealloc_user_fold:
  "aligned p \<Longrightarrow> dealloc_user p m = fold deallocate_frame (user_frames (ram m) p) m"
  by (simp add: dealloc_user_def user_frames_def Let_def dealloc_aligned fold_dealloc_l3
      numeral_3_eq_3 numeral_2_eq_2)

lemma fold_deallocate_free:
  "fa_wf (frame_alloc m) \<Longrightarrow> length (free_frames (frame_alloc m)) + length fs \<le> MAX_FRAMES \<Longrightarrow>
   fa_wf (frame_alloc (fold deallocate_frame fs m)) \<and>
   free_frames (frame_alloc (fold deallocate_frame fs m)) = rev fs @ free_frames (frame_alloc m)"
proof (induction fs arbitrary: m)
  case (Cons f fs)
  have "length (free_frames (frame_alloc m)) < MAX_FRAMES" using Cons.prems(2) by simp
  from frames.give_free [OF Cons.prems(1) this, of f] Cons.IH [of "deallocate_frame f m"] Cons.prems(2)
  show ?case by simp
qed simp
section \<open>Page offsets\<close>

lemma take_bit_12_add:
  fixes a b :: u64
  shows "aligned a \<Longrightarrow> take_bit 12 (a + b) = take_bit 12 b"
  by (simp add: word_unat_eq_iff unat_take_bit_mod unat_word_ariths(1) aligned_iff mod_mod_cancel
      mod_add_eq [symmetric, of _ _ 4096] dvd_eq_mod_eq_0)

lemma fff_take_bit: "(v :: u64) AND 0xfff = take_bit 12 v"
  by (simp add: take_bit_eq_mask mask_eq_exp_minus_1)

lemma low_masks:
  "take_bit 12 ((v :: u64) AND 0x3fffffff) = take_bit 12 v"
  "take_bit 12 ((v :: u64) AND 0x1fffff) = take_bit 12 v"
  "take_bit 12 ((v :: u64) AND 0xfff) = take_bit 12 v"
  by (simp_all add: take_bit_and flip: fff_take_bit)

lemma not_fff: "(v :: u64) AND NOT 0xfff = v - take_bit 12 v"
  using and_not_mask_eq [of v 12] by (simp add: mask_eq_exp_minus_1)

lemma page_index: "12 \<le> k \<Longrightarrow> drop_bit k ((v :: u64) AND NOT 0xfff) = drop_bit k v"
proof -
  assume "12 \<le> k"
  then have "drop_bit k (v AND NOT (mask 12)) = drop_bit k v"
    by (intro bit_word_eqI) (auto simp: bit_simps dest: bit_imp_le_length)
  then show ?thesis by (simp add: mask_eq_exp_minus_1)
qed

lemma page_sum:
  assumes "aligned b" "take_bit 12 (v AND k) = take_bit 12 v"
  shows "b + ((v :: u64) AND k) AND NOT 0xfff = b + ((v AND NOT 0xfff) AND k)"
proof -
  have "(v AND NOT 0xfff) AND k = (v AND k) AND NOT 0xfff" by (simp add: and.assoc and.commute)
  then show ?thesis using assms by (simp only: not_fff take_bit_12_add) (simp add: algebra_simps)
qed

lemma translate_offset: "translate r p v = Some a \<Longrightarrow> a AND 0xfff = v AND 0xfff"
  by (auto simp: translate_def Let_def fff_take_bit take_bit_12_add low_masks split: if_splits)

section \<open>A small memory\<close>

text \<open>One free frame; a PML4 at 0x5000 whose entry 256 leads to a table at 0x7000 with a
  1 GiB page at physical address 0.\<close>

definition demo_ram :: ram where
  "demo_ram = set_entry 0x5000 256 0x7003 (set_entry 0x7000 0 0x83 (\<lambda>_. 0))"

definition demo_memory :: memory where
  "demo_memory = \<lparr>frame_alloc = \<lparr>free_stack = (replicate MAX_FRAMES 0)[0 := 0x9000], top = 1\<rparr>,
     ram = demo_ram\<rparr>"

lemma aligned_numeral [simp]: "aligned 0x5000" "aligned 0x7000" "aligned 0x9000"
  by (simp_all add: aligned_def)

lemma entry_at_const_0 [simp]: "entry_at (\<lambda>_. 0) t i = 0"
  by (simp add: entry_at_def rd64_def numeral_eq_Suc)

lemma demo_5000: "i < 512 \<Longrightarrow> entry_at demo_ram 0x5000 i = (if i = 256 then 0x7003 else 0)"
  by (cases "i = 256") (simp_all add: demo_ram_def entry_at_set_entry_same entry_at_set_entry_other
      entry_at_set_entry_table)

lemma demo_7000: "i < 512 \<Longrightarrow> entry_at demo_ram 0x7000 i = (if i = 0 then 0x83 else 0)"
  by (cases "i = 0") (simp_all add: demo_ram_def entry_at_set_entry_same entry_at_set_entry_other
      entry_at_set_entry_table)

lemma demo_entries [simp]:
  "present 0x7003" "\<not> user_accessible 0x7003" "entry_addr 0x7003 = 0x7000"
  "present 0x83" "huge_page 0x83" "entry_addr 0x83 = 0"
  by (simp_all add: present_def user_accessible_def huge_page_def entry_addr_def bit_numeral_rec)

lemma demo_tables: "tables_below demo_ram 0x5000 = {0x7000}"
proof -
  have "l3_tables demo_ram 0x5000 = {0x7000}"
    by (auto simp: l3_tables_def demo_5000 intro!: exI [of _ 256])
  moreover have "lower_tables demo_ram {0x7000} = {}"
    by (auto simp: lower_tables_def demo_7000 split: if_splits)
  moreover have "lower_tables demo_ram {} = {}" by (simp add: lower_tables_def)
  ultimately show ?thesis by (simp add: tables_below_def)
qed

lemma demo_free:
  "fa_wf (frame_alloc demo_memory)" "free_frames (frame_alloc demo_memory) = [0x9000]"
proof -
  have "0 < MAX_FRAMES" by (simp add: MAX_FRAMES_def)
  then show "fa_wf (frame_alloc demo_memory)" "free_frames (frame_alloc demo_memory) = [0x9000]"
    by (simp_all add: fa_wf_def free_frames_def demo_memory_def take_Suc_conv_app_nth)
qed

lemma demo_new_user: "\<exists>m'. new_user 0x5000 demo_memory = (m', Inr 0x9000)"
  using frames.take_cons [OF demo_free] by (auto simp: new_user_def)

lemma demo_ram_eq [simp]: "ram demo_memory = demo_ram"
  by (simp add: demo_memory_def)

lemma demo_translate: "translate demo_ram 0x5000 0xffff800000000123 = Some 0x123"
  by (simp add: translate_def Let_def demo_5000 demo_7000)

section \<open>Properties\<close>

text \<open>
  C1. Isolation of a new address space. When the free frames are aligned and hold no table
  of the active space, a space made by \<open>new_user\<close> translates exactly the addresses of
  the kernel's own entries (present, not user accessible, not entry 0), as the active space
  does, and no user address at all; the active space itself is unchanged.
\<close>

theorem new_user_isolated:
  assumes "fa_wf (frame_alloc m)" and "\<forall>f \<in> set (free_frames (frame_alloc m)). aligned f"
    and "aligned cr3"
    and "set (free_frames (frame_alloc m)) \<inter> insert cr3 (tables_below (ram m) cr3) = {}"
    and "new_user cr3 m = (m', Inr p)"
  shows "translate (ram m') p v =
      (if l4_index v \<noteq> 0 \<and> kernel_entry (entry_at (ram m) cr3 (l4_index v))
       then translate (ram m) cr3 v else None) \<and>
    translate (ram m') cr3 v = translate (ram m) cr3 v"
proof -
  from assms(5) obtain m1 where "allocate_frame m = (m1, Some p)"
    by (auto simp: new_user_def split: prod.splits option.splits)
  from allocate_frame_free [OF assms(1) this] have p: "p \<in> set (free_frames (frame_alloc m))" by simp
  with assms have al: "aligned p" "aligned cr3" "cr3 \<noteq> p" and f: "p \<notin> tables_below (ram m) cr3" by auto
  have o: "\<And>a. \<not> a - p < 4096 \<Longrightarrow> ram m' a = ram m a"
    using new_user_spec(2) [OF assms(5) al, of 0] by simp
  have "translate (ram m') cr3 v = translate (ram m) cr3 v"
  proof (rule translate_cong)
    show "entry_at (ram m') cr3 (l4_index v) = entry_at (ram m) cr3 (l4_index v)"
      by (rule entry_at_outside [OF al(1,2)]) (use al o in \<open>auto simp: l4_index_def\<close>)
    fix t j assume t: "t \<in> tables_below (ram m) cr3" "j < (512::nat)"
    show "entry_at (ram m') t j = entry_at (ram m) t j"
      by (rule entry_at_outside [OF al(1) tables_below_aligned [OF t(1)] _ t(2)]) (use t f o in auto)
  qed
  with new_user_translate [OF assms(5) al f] show ?thesis by simp
qed

theorem new_user_isolated_witness:
  "\<exists>m'. new_user 0x5000 demo_memory = (m', Inr 0x9000) \<and>
     translate (ram m') 0x9000 0xffff800000000123 = Some 0x123 \<and>
     translate (ram m') 0x9000 0x400000 = None"
proof -
  obtain m' where m': "new_user 0x5000 demo_memory = (m', Inr 0x9000)" using demo_new_user by blast
  note w = new_user_isolated [OF demo_free(1) _ _ _ m']
  have i: "l4_index 0xffff800000000123 = 256" "l4_index 0x400000 = 0" by (simp_all add: l4_index_def)
  have "translate (ram m') 0x9000 0xffff800000000123 = Some 0x123"
    using w [of "0xffff800000000123"]
    by (simp add: demo_free demo_tables demo_5000 demo_translate kernel_entry_def i)
  moreover have "translate (ram m') 0x9000 0x400000 = None"
    using w [of "0x400000"] by (simp add: demo_free demo_tables i)
  ultimately show ?thesis using m' by blast
qed

text \<open>
  C18. Releasing an address space returns to the allocator the frames of the tree below
  PML4 entry 0, every page before its table, and then the PML4 frame, and nothing else;
  memory contents do not change.
\<close>

theorem dealloc_user_frees_tree:
  assumes "aligned p" "fa_wf (frame_alloc m)"
    and "length (free_frames (frame_alloc m)) + length (user_frames (ram m) p) \<le> MAX_FRAMES"
  shows "free_frames (frame_alloc (dealloc_user p m)) =
      rev (user_frames (ram m) p) @ free_frames (frame_alloc m) \<and>
    ram (dealloc_user p m) = ram m \<and> fa_wf (frame_alloc (dealloc_user p m))"
  using fold_deallocate_free [OF assms(2,3)] by (simp add: dealloc_user_fold [OF assms(1)])

theorem dealloc_user_frees_tree_witness:
  "free_frames (frame_alloc (dealloc_user 0x5000 demo_memory)) = [0x5000, 0x9000]"
proof -
  have "user_frames (ram demo_memory) 0x5000 = [0x5000]" by (simp add: user_frames_def demo_5000)
  with dealloc_user_frees_tree [of "0x5000" demo_memory] show ?thesis
    by (simp add: demo_free MAX_FRAMES_def del: demo_ram_eq)
qed

text \<open>
  Creating a user address space and releasing it again leaves the free frames as they
  were: nothing leaks and nothing is freed twice.
\<close>

theorem new_user_dealloc_user:
  assumes "fa_wf (frame_alloc m)" and "\<forall>f \<in> set (free_frames (frame_alloc m)). aligned f"
    and "aligned cr3" "cr3 \<notin> set (free_frames (frame_alloc m))"
    and "new_user cr3 m = (m', Inr p)"
  shows "free_frames (frame_alloc (dealloc_user p m')) = free_frames (frame_alloc m)"
proof -
  from assms(5) obtain m1 where m1: "allocate_frame m = (m1, Some p)" "frame_alloc m' = frame_alloc m1"
    by (auto simp: new_user_def split: prod.splits option.splits)
  note f = allocate_frame_free [OF assms(1) m1(1)]
  with assms have al: "aligned p" "aligned cr3" "cr3 \<noteq> p" by auto
  have "entry_at (ram m') p 0 = 0" using new_user_spec(1) [OF assms(5) al, of 0] by simp
  then have u: "user_frames (ram m') p = [p]" by (simp add: user_frames_def)
  have "length (free_frames (frame_alloc m')) + 1 \<le> MAX_FRAMES"
    using frames.free_bound [OF assms(1)] f by (simp add: m1(2))
  then show ?thesis
    using fold_deallocate_free [of m' "[p]"] f by (simp add: dealloc_user_fold [OF al(1)] u m1(2))
qed

theorem new_user_dealloc_user_witness:
  "\<exists>m'. new_user 0x5000 demo_memory = (m', Inr 0x9000) \<and>
     free_frames (frame_alloc (dealloc_user 0x9000 m')) = [0x9000]"
proof -
  obtain m' where m': "new_user 0x5000 demo_memory = (m', Inr 0x9000)" using demo_new_user by blast
  with new_user_dealloc_user [OF demo_free(1) _ _ _ m'] show ?thesis by (simp add: demo_free)
qed

text \<open>
  Translation works page by page: an address is mapped exactly when its page is, and
  keeps its offset inside the page, also under 1 GiB and 2 MiB huge pages.
\<close>

theorem translate_pagewise:
  "map_option (\<lambda>a. a AND NOT 0xfff) (translate r p v) = translate r p (v AND NOT 0xfff) \<and>
   (case translate r p v of None \<Rightarrow> True | Some a \<Rightarrow> a AND 0xfff = v AND 0xfff)"
proof (intro conjI)
  show "map_option (\<lambda>a. a AND NOT 0xfff) (translate r p v) = translate r p (v AND NOT 0xfff)"
  proof -
    define n :: u64 where "n = NOT 0xfff"
    have index: "drop_bit 39 (v AND n) = drop_bit 39 v" "drop_bit 30 (v AND n) = drop_bit 30 v"
      "drop_bit 21 (v AND n) = drop_bit 21 v" "drop_bit 12 (v AND n) = drop_bit 12 v"
      unfolding n_def by (rule page_index, simp)+
    note sum = page_sum [of _ v, folded n_def, OF aligned_entry_addr]
    have "map_option (\<lambda>a. a AND n) (translate r p v) = translate r p (v AND n)"
      unfolding translate_def Let_def index
      by (simp only: if_distrib [of "map_option (\<lambda>a. a AND n)"] option.map sum [OF low_masks(1)]
          sum [OF low_masks(2)] sum [OF low_masks(3)])
    then show ?thesis by (simp only: n_def)
  qed
  show "case translate r p v of None \<Rightarrow> True | Some a \<Rightarrow> a AND 0xfff = v AND 0xfff"
    using translate_offset [of r p v] by (simp split: option.splits)
qed
end
