(* ===== verification/Process_Table.thy ===== *)
theory Process_Table
  imports Fd_Table Paging
begin

text \<open>
  The process table of \<^verbatim>\<open>kernel/src/process.rs\<close>: process descriptors, allocation and
  release of slots, signals and exit. Releasing a process releases its address space, so
  these operations act on the table together with physical memory.
\<close>

section \<open>Data\<close>

definition MAX_PROCESSES :: nat where "MAX_PROCESSES = 32"

datatype ProcessState = PFree | Ready | Running | Blocked | Zombie

record SavedContext =
  rax :: u64  rbx :: u64  rcx :: u64  rdx :: u64
  rsi :: u64  rdi :: u64  rbp :: u64  rsp :: u64
  r8 :: u64  r9 :: u64  r10 :: u64  r11 :: u64
  r12 :: u64  r13 :: u64  r14 :: u64  r15 :: u64
  rip :: u64  rflags :: u64

definition zero_context :: SavedContext where
  "zero_context = \<lparr>rax = 0, rbx = 0, rcx = 0, rdx = 0, rsi = 0, rdi = 0, rbp = 0, rsp = 0,
     r8 = 0, r9 = 0, r10 = 0, r11 = 0, r12 = 0, r13 = 0, r14 = 0, r15 = 0, rip = 0, rflags = 0\<rparr>"

record Process =
  pid :: u32
  parent_pid :: u32
  state :: ProcessState
  ctxt :: SavedContext
  entry_point :: u64
  user_rsp :: u64
  cr3 :: u64
  fd_table :: FdTable
  pending_signals :: u32
  signal_mask :: u32
  exit_code :: i32
  name :: bytes

record ProcessTable =
  processes :: "Process list"
  next_pid :: u32
  current_pid :: u32

definition empty_process :: Process where
  "empty_process = \<lparr>pid = 0, parent_pid = 0, state = PFree, ctxt = zero_context,
     entry_point = 0, user_rsp = 0, cr3 = 0, fd_table = fd_new, pending_signals = 0,
     signal_mask = 0, exit_code = 0, name = replicate 16 0\<rparr>"

definition set_name :: "bytes \<Rightarrow> Process \<Rightarrow> Process" where
  "set_name nm p = (let len = min (length nm) 15 in
     p\<lparr>name := (splice 0 (take len nm) (name p))[len := 0]\<rparr>)"

section \<open>Operations\<close>

definition pt_new :: ProcessTable where
  "pt_new = \<lparr>processes = replicate MAX_PROCESSES empty_process, next_pid = 1, current_pid = 0\<rparr>"

text \<open>\<open>modify i f\<close>: what is done through the reference to slot \<open>i\<close>.\<close>

definition modify :: "nat \<Rightarrow> (Process \<Rightarrow> Process) \<Rightarrow> ProcessTable \<Rightarrow> ProcessTable" where
  "modify i f t = t\<lparr>processes := (processes t)[i := f (processes t ! i)]\<rparr>"

definition init_process :: "u32 \<Rightarrow> u32 \<Rightarrow> bytes \<Rightarrow> Process \<Rightarrow> Process" where
  "init_process new_pid parent nm p = set_name nm (p\<lparr>pid := new_pid, parent_pid := parent,
     state := Blocked, ctxt := zero_context, entry_point := 0, user_rsp := 0, cr3 := 0,
     fd_table := fd_new, pending_signals := 0, signal_mask := 0, exit_code := 0,
     name := replicate 16 0\<rparr>)"

definition alloc :: "u32 \<Rightarrow> bytes \<Rightarrow> ProcessTable \<Rightarrow> ProcessTable \<times> u32" where
  "alloc parent nm t =
     (case find (\<lambda>i. pid (processes t ! i) = 0) [0..<MAX_PROCESSES] of
        None \<Rightarrow> (t, 0)
      | Some i \<Rightarrow>
          (let new_pid = next_pid t in
           (modify i (init_process new_pid parent nm) (t\<lparr>next_pid := next_pid t + 1\<rparr>), new_pid)))"

definition dealloc_proc_space :: "u64 \<Rightarrow> memory \<Rightarrow> memory" where
  "dealloc_proc_space c m =
     (if c = 0 then m else if c AND 0xfff = 0 then dealloc_user c m else m)"

definition free_slot :: "nat \<Rightarrow> ProcessTable \<times> memory \<Rightarrow> ProcessTable \<times> memory" where
  "free_slot i = (\<lambda>(t, m).
     (modify i (\<lambda>_. empty_process) (modify i (\<lambda>p. p\<lparr>fd_table := fd_clear (fd_table p)\<rparr>) t),
      dealloc_proc_space (cr3 (processes t ! i)) m))"

definition free_process :: "u32 \<Rightarrow> ProcessTable \<times> memory \<Rightarrow> (ProcessTable \<times> memory) \<times> bool" where
  "free_process k s =
     (case find (\<lambda>i. pid (processes (fst s) ! i) = k) [0..<MAX_PROCESSES] of
        None \<Rightarrow> (s, False)
      | Some i \<Rightarrow> (free_slot i s, True))"

definition get :: "u32 \<Rightarrow> ProcessTable \<Rightarrow> Process option" where
  "get k t = find (\<lambda>p. pid p = k) (processes t)"

text \<open>\<^verbatim>\<open>get_mut\<close> gives the slot of the process; the caller acts on it with \<open>modify\<close>.\<close>

definition get_mut :: "u32 \<Rightarrow> ProcessTable \<Rightarrow> nat option" where
  "get_mut k t = position (\<lambda>p. pid p = k) (processes t)"

text \<open>\<^verbatim>\<open>1 << (signum - 1)\<close> in the release profile: the difference wraps in 8 bits and
  the shift count is taken modulo 32.\<close>

definition signal_bit :: "u8 \<Rightarrow> u32" where
  "signal_bit signum = push_bit (unat (signum - 1) mod 32) 1"

definition pt_send_signal :: "u32 \<Rightarrow> u8 \<Rightarrow> ProcessTable \<Rightarrow> ProcessTable \<times> bool" where
  "pt_send_signal k signum t =
     (case get_mut k t of
        None \<Rightarrow> (t, False)
      | Some i \<Rightarrow>
          if state (processes t ! i) = PFree then (t, False)
          else (modify i (\<lambda>p. p\<lparr>pending_signals := pending_signals p OR signal_bit signum\<rparr>) t,
                True))"

definition mark_exit :: "u32 \<Rightarrow> i32 \<Rightarrow> ProcessTable \<Rightarrow> ProcessTable \<times> bool" where
  "mark_exit k code t =
     (case get_mut k t of
        None \<Rightarrow> (t, False)
      | Some i \<Rightarrow> (modify i (\<lambda>p. p\<lparr>state := Zombie, exit_code := code\<rparr>) t, True))"

definition reap_zombies :: "ProcessTable \<times> memory \<Rightarrow> ProcessTable \<times> memory" where
  "reap_zombies s =
     fold (\<lambda>i s. if state (processes (fst s) ! i) = Zombie then free_slot i s else s)
       [0..<MAX_PROCESSES] s"

section \<open>Well-formed tables\<close>

text \<open>The table as a map from process ids.\<close>

definition proc_map :: "ProcessTable \<Rightarrow> u32 \<Rightarrow> Process option" where
  "proc_map t k = (if k = 0 then None else get k t)"

definition proc_wf :: "Process \<Rightarrow> bool" where
  "proc_wf p \<longleftrightarrow> (pid p = 0 \<longleftrightarrow> state p = PFree) \<and> fd_wf (fd_table p) \<and> length (name p) = 16"

definition pt_wf :: "ProcessTable \<Rightarrow> bool" where
  "pt_wf t \<longleftrightarrow> length (processes t) = MAX_PROCESSES \<and> next_pid t \<noteq> 0 \<and>
     (\<forall>i<MAX_PROCESSES. proc_wf (processes t ! i) \<and> pid (processes t ! i) < next_pid t) \<and>
     (\<forall>i<MAX_PROCESSES. \<forall>j<MAX_PROCESSES.
        pid (processes t ! i) = pid (processes t ! j) \<and> pid (processes t ! i) \<noteq> 0 \<longrightarrow> i = j)"

lemma modify_simps [simp]:
  "next_pid (modify i f t) = next_pid t" "current_pid (modify i f t) = current_pid t"
  "length (processes (modify i f t)) = length (processes t)"
  by (simp_all add: modify_def)

lemma modify_nth:
  "j < length (processes t) \<Longrightarrow>
   processes (modify i f t) ! j = (if i = j then f (processes t ! j) else processes t ! j)"
  by (auto simp: modify_def nth_list_update)

lemma empty_process_wf [wf_intros]: "proc_wf empty_process"
  by (simp add: proc_wf_def empty_process_def fd_new_wf)

lemma empty_process_simps [simp]:
  "pid empty_process = 0" "state empty_process = PFree"
  by (simp_all add: empty_process_def)

lemma set_name_simps [simp]:
  "pid (set_name nm p) = pid p" "state (set_name nm p) = state p" "fd_table (set_name nm p) = fd_table p"
  "length (name p) = 16 \<Longrightarrow> length (name (set_name nm p)) = 16"
  by (simp_all add: set_name_def Let_def)

lemma init_process_simps [simp]:
  "pid (init_process k parent nm p) = k" "state (init_process k parent nm p) = Blocked"
  by (simp_all add: init_process_def)

lemma init_process_wf [wf_intros]: "k \<noteq> 0 \<Longrightarrow> proc_wf (init_process k parent nm p)"
  by (simp add: proc_wf_def init_process_def fd_new_wf)

lemma pt_wfD:
  assumes "pt_wf t"
  shows "length (processes t) = MAX_PROCESSES" "next_pid t \<noteq> 0"
    and "i < MAX_PROCESSES \<Longrightarrow> proc_wf (processes t ! i)"
    and "i < MAX_PROCESSES \<Longrightarrow> pid (processes t ! i) < next_pid t"
    and "i < MAX_PROCESSES \<Longrightarrow> j < MAX_PROCESSES \<Longrightarrow> pid (processes t ! i) = pid (processes t ! j) \<Longrightarrow>
      pid (processes t ! i) \<noteq> 0 \<Longrightarrow> i = j"
  using assms by (auto simp: pt_wf_def)

text \<open>Changing a slot keeps the table well formed when the process stays well formed and
  keeps its id or gives it up.\<close>

lemma modify_wf:
  assumes "pt_wf t" "i < MAX_PROCESSES" "proc_wf (f (processes t ! i))"
    and "pid (f (processes t ! i)) \<in> {0, pid (processes t ! i)}"
  shows "pt_wf (modify i f t)"
proof -
  note w = pt_wfD [OF assms(1)]
  have n: "0 < next_pid t" using w(2) by (simp add: word_gt_0)
  have "pid (processes (modify i f t) ! j) < next_pid t \<and> proc_wf (processes (modify i f t) ! j)"
    if "j < MAX_PROCESSES" for j
    using that assms w(1,3,4) n by (auto simp: modify_nth)
  moreover have "j = k" if "j < MAX_PROCESSES" "k < MAX_PROCESSES"
      "pid (processes (modify i f t) ! j) = pid (processes (modify i f t) ! k)"
      "pid (processes (modify i f t) ! j) \<noteq> 0" for j k
    using that assms(4) w(1) w(5) [of j k] by (auto simp: modify_nth split: if_splits)
  ultimately show ?thesis using w(1,2) unfolding pt_wf_def modify_simps by blast
qed

lemma pt_new_wf [wf_intros]: "pt_wf pt_new"
  by (simp add: pt_wf_def pt_new_def empty_process_wf)


section \<open>The table as a map\<close>

lemma get_mut_Some:
  "pt_wf t \<Longrightarrow> k \<noteq> 0 \<Longrightarrow>
   get_mut k t = Some i \<longleftrightarrow> i < MAX_PROCESSES \<and> pid (processes t ! i) = k"
proof -
  assume w: "pt_wf t" "k \<noteq> 0"
  have "pid (processes t ! j) \<noteq> k" if "i < MAX_PROCESSES" "pid (processes t ! i) = k" "j < i" for j
    using pt_wfD(5) [OF w(1), of j i] that w(2) by auto
  then show ?thesis using pt_wfD(1) [OF w(1)] by (auto simp: get_mut_def position_Some_iff)
qed

lemma get_mut_None:
  "pt_wf t \<Longrightarrow> get_mut k t = None \<longleftrightarrow> (\<forall>i<MAX_PROCESSES. pid (processes t ! i) \<noteq> k)"
  using pt_wfD(1) [of t] by (auto simp: get_mut_def position_None_iff all_set_conv_all_nth)

lemma get_eq_get_mut: "get k t = map_option (\<lambda>i. processes t ! i) (get_mut k t)"
proof (cases "get_mut k t")
  case None
  then have "get k t = None" by (simp add: get_def get_mut_def position_None_iff find_None_iff)
  with None show ?thesis by simp
next
  case (Some i)
  then have "get k t = Some (processes t ! i)"
    by (auto simp: get_def get_mut_def position_Some_iff find_Some_iff intro!: exI [of _ i])
  with Some show ?thesis by simp
qed

lemma find_slot_get_mut:
  "pt_wf t \<Longrightarrow> find (\<lambda>i. pid (processes t ! i) = k) [0..<MAX_PROCESSES] = get_mut k t"
  by (simp add: get_mut_def position_def pt_wfD(1))

lemma proc_map_Some_iff:
  "pt_wf t \<Longrightarrow> proc_map t k = Some p \<longleftrightarrow>
     k \<noteq> 0 \<and> (\<exists>i<MAX_PROCESSES. processes t ! i = p \<and> pid p = k)"
  by (auto simp: proc_map_def get_eq_get_mut get_mut_Some)

lemma proc_map_nth:
  "pt_wf t \<Longrightarrow> i < MAX_PROCESSES \<Longrightarrow> pid (processes t ! i) \<noteq> 0 \<Longrightarrow>
   proc_map t (pid (processes t ! i)) = Some (processes t ! i)"
  by (auto simp: proc_map_Some_iff)

lemma proc_map_None_iff:
  "pt_wf t \<Longrightarrow> proc_map t k = None \<longleftrightarrow> k = 0 \<or> (\<forall>i<MAX_PROCESSES. pid (processes t ! i) \<noteq> k)"
  by (auto simp: proc_map_def get_eq_get_mut get_mut_None)

text \<open>Acting through \<open>get_mut\<close> changes the entry of that process only.\<close>

lemma proc_map_modify:
  assumes w: "pt_wf t" and i: "i < MAX_PROCESSES" "pid (processes t ! i) = k" "k \<noteq> 0"
    and f: "pid (f (processes t ! i)) = k" "proc_wf (f (processes t ! i))"
  shows "proc_map (modify i f t) = (proc_map t)(k \<mapsto> f (processes t ! i))"
proof (rule ext)
  fix j
  have w': "pt_wf (modify i f t)" using modify_wf [OF w i(1), of f] f i by simp
  note l = pt_wfD(1) [OF w]
  show "proc_map (modify i f t) j = ((proc_map t)(k \<mapsto> f (processes t ! i))) j"
  proof (cases "j = k")
    case True
    then show ?thesis using proc_map_nth [OF w' i(1)] i f l by (simp add: modify_nth)
  next
    case False
    have "proc_map (modify i f t) j = Some p \<longleftrightarrow> proc_map t j = Some p" for p
      using False i f l unfolding proc_map_Some_iff [OF w'] proc_map_Some_iff [OF w]
      by (metis modify_nth)
    then have "proc_map (modify i f t) j = proc_map t j" by (metis not_None_eq)
    with False show ?thesis by simp
  qed
qed

lemma proc_map_clear:
  assumes w: "pt_wf t" and i: "i < MAX_PROCESSES" "pid (processes t ! i) = k" "k \<noteq> 0"
    and f: "pid (f (processes t ! i)) = 0" "proc_wf (f (processes t ! i))"
  shows "proc_map (modify i f t) = (proc_map t)(k := None)"
proof (rule ext)
  fix j
  have w': "pt_wf (modify i f t)" using modify_wf [OF w i(1), of f] f i by simp
  note l = pt_wfD(1) [OF w]
  have "proc_map (modify i f t) j = Some p \<longleftrightarrow> j \<noteq> k \<and> proc_map t j = Some p" for p
    using i f l pt_wfD(5) [OF w] unfolding proc_map_Some_iff [OF w'] proc_map_Some_iff [OF w]
    by (metis modify_nth)
  then show "proc_map (modify i f t) j = ((proc_map t)(k := None)) j" by (metis fun_upd_apply not_None_eq)
qed

section \<open>The interface of the table\<close>

lemma next_pid_fresh: "pt_wf t \<Longrightarrow> proc_map t (next_pid t) = None"
  by (auto simp: proc_map_None_iff dest: pt_wfD(4))

lemma bump_wf:
  assumes "pt_wf t" "next_pid t + 1 \<noteq> 0"
  shows "pt_wf (t\<lparr>next_pid := next_pid t + 1\<rparr>)"
proof -
  have "next_pid t < next_pid t + 1" using assms(2) by (rule word_less_succ)
  then show ?thesis using assms by (auto simp: pt_wf_def intro: less_trans)
qed

definition new_process :: "u32 \<Rightarrow> u32 \<Rightarrow> bytes \<Rightarrow> Process" where
  "new_process k parent nm = init_process k parent nm empty_process"

lemma init_process_new: "init_process k parent nm p = new_process k parent nm"
  by (simp add: new_process_def init_process_def set_name_def Let_def)

lemma alloc_spec:
  assumes w: "pt_wf t" and room: "next_pid t + 1 \<noteq> 0" and a: "alloc parent nm t = (t', k)" "k \<noteq> 0"
  shows "k = next_pid t" "pt_wf t'" "proc_map t' = (proc_map t)(k \<mapsto> new_process k parent nm)"
    "current_pid t' = current_pid t"
proof -
  let ?t = "t\<lparr>next_pid := next_pid t + 1\<rparr>"
  from a obtain i where i: "i < MAX_PROCESSES" "pid (processes t ! i) = 0" "k = next_pid t"
      "t' = modify i (init_process k parent nm) ?t"
    by (auto simp: alloc_def Let_def find_upt_Some_iff split: option.splits)
  note l = pt_wfD(1) [OF w]
  have n: "proc_wf (new_process k parent nm)" "pid (new_process k parent nm) = k"
    using a(2) by (simp_all add: new_process_def init_process_wf)
  have t': "processes t' ! j = (if j = i then new_process k parent nm else processes t ! j)"
    if "j < MAX_PROCESSES" for j
    using that l by (simp add: i(4) modify_nth init_process_new)
  have lt: "next_pid t < next_pid t + 1" using room by (rule word_less_succ)
  show "k = next_pid t" by fact
  show "current_pid t' = current_pid t" by (simp add: i(4))
  show w': "pt_wf t'"
    unfolding pt_wf_def
  proof (intro conjI allI impI)
    show "length (processes t') = MAX_PROCESSES" "next_pid t' \<noteq> 0" using l room by (simp_all add: i(4))
    fix j assume j: "j < MAX_PROCESSES"
    show "proc_wf (processes t' ! j)" using t' [OF j] n pt_wfD(3) [OF w j] by simp
    show "pid (processes t' ! j) < next_pid t'"
      using t' [OF j] n lt i(3,4) pt_wfD(4) [OF w j] by (auto intro: less_trans)
    fix h assume "h < MAX_PROCESSES"
      "pid (processes t' ! j) = pid (processes t' ! h) \<and> pid (processes t' ! j) \<noteq> 0"
    then show "j = h"
      using j t' [of j] t' [of h] n i(3) pt_wfD(4) [OF w, of j] pt_wfD(4) [OF w, of h]
        pt_wfD(5) [OF w, of j h] by (auto split: if_splits)
  qed
  show "proc_map t' = (proc_map t)(k \<mapsto> new_process k parent nm)"
  proof (rule ext)
    fix j
    have "proc_map t' j = Some p \<longleftrightarrow> (if j = k then p = new_process k parent nm else proc_map t j = Some p)"
      for p
      using t' i(1,2) n a(2) i(3) pt_wfD(4) [OF w]
      unfolding proc_map_Some_iff [OF w'] proc_map_Some_iff [OF w]
      by (metis less_irrefl)
    then show "proc_map t' j = ((proc_map t)(k \<mapsto> new_process k parent nm)) j"
      by (metis fun_upd_apply not_None_eq)
  qed
qed

lemma alloc_zero: "pt_wf t \<Longrightarrow> alloc parent nm t = (t', 0) \<Longrightarrow>
    t' = t \<and> (\<forall>i<MAX_PROCESSES. pid (processes t ! i) \<noteq> 0)"
  using pt_wfD(2) [of t]
  by (auto simp: alloc_def Let_def find_upt_None_iff split: option.splits)

lemma alloc_eq_zero_iff:
  "pt_wf t \<Longrightarrow> snd (alloc parent nm t) = 0 \<longleftrightarrow> (\<forall>i<MAX_PROCESSES. pid (processes t ! i) \<noteq> 0)"
  using pt_wfD(2) [of t]
  by (auto simp: alloc_def Let_def find_upt_None_iff find_upt_Some_iff split: option.splits)

lemma proc_map_dom:
  assumes w: "pt_wf t"
  shows "finite (dom (proc_map t))" "card (dom (proc_map t)) \<le> MAX_PROCESSES"
    and "card (dom (proc_map t)) = MAX_PROCESSES \<longleftrightarrow> (\<forall>i<MAX_PROCESSES. pid (processes t ! i) \<noteq> 0)"
proof -
  let ?used = "{i. i < MAX_PROCESSES \<and> pid (processes t ! i) \<noteq> 0}"
  have d: "dom (proc_map t) = (\<lambda>i. pid (processes t ! i)) ` ?used"
    using proc_map_Some_iff [OF w] by (auto simp: dom_def)
  have inj: "inj_on (\<lambda>i. pid (processes t ! i)) ?used"
    by (rule inj_onI) (use pt_wfD(5) [OF w] in auto)
  have sub: "?used \<subseteq> {..<MAX_PROCESSES}" by auto
  have c: "card (dom (proc_map t)) = card ?used" unfolding d by (rule card_image [OF inj])
  show "finite (dom (proc_map t))" unfolding d by simp
  show "card (dom (proc_map t)) \<le> MAX_PROCESSES"
    unfolding c using card_mono [OF finite_lessThan sub] unfolding card_lessThan .
  have "card ?used = MAX_PROCESSES \<longleftrightarrow> ?used = {..<MAX_PROCESSES}"
    by (rule card_full [OF sub])
  moreover have "?used = {..<MAX_PROCESSES} \<longleftrightarrow> (\<forall>i<MAX_PROCESSES. pid (processes t ! i) \<noteq> 0)"
    by blast
  ultimately show "card (dom (proc_map t)) = MAX_PROCESSES \<longleftrightarrow> (\<forall>i<MAX_PROCESSES. pid (processes t ! i) \<noteq> 0)"
    unfolding c by simp
qed

lemma free_slot_fst:
  "i < length (processes t) \<Longrightarrow> fst (free_slot i (t, m)) = modify i (\<lambda>_. empty_process) t"
  by (simp add: free_slot_def modify_def)

lemma free_process_spec:
  assumes w: "pt_wf (fst s)" and k: "k \<noteq> 0"
  shows "pt_wf (fst (fst (free_process k s)))"
    "proc_map (fst (fst (free_process k s))) = (proc_map (fst s))(k := None)"
    "snd (free_process k s) \<longleftrightarrow> proc_map (fst s) k \<noteq> None"
    "\<not> snd (free_process k s) \<Longrightarrow> fst (free_process k s) = s"
proof -
  obtain t m where s: "s = (t, m)" by (cases s)
  note w = w [unfolded s, simplified]
  have f: "free_process k (t, m) =
      (case get_mut k t of None \<Rightarrow> ((t, m), False) | Some i \<Rightarrow> (free_slot i (t, m), True))"
    unfolding free_process_def fst_conv find_slot_get_mut [OF w] by (rule refl)
  have "pt_wf (fst (fst (free_process k s))) \<and>
    proc_map (fst (fst (free_process k s))) = (proc_map (fst s))(k := None) \<and>
    (snd (free_process k s) \<longleftrightarrow> proc_map (fst s) k \<noteq> None) \<and>
    (\<not> snd (free_process k s) \<longrightarrow> fst (free_process k s) = s)"
  proof (cases "get_mut k t")
    case None
    then have "proc_map t k = None" using w by (simp add: get_mut_None proc_map_None_iff)
    with None w show ?thesis by (auto simp: f s)
  next
    case (Some i)
    then have i: "i < MAX_PROCESSES" "pid (processes t ! i) = k" using get_mut_Some [OF w k] by auto
    then have g: "fst (free_slot i s) = modify i (\<lambda>_. empty_process) t"
      using pt_wfD(1) [OF w] by (simp add: s free_slot_fst)
    have "proc_map t k \<noteq> None" using i k w by (auto simp: proc_map_None_iff)
    with g proc_map_clear [OF w i k, of "\<lambda>_. empty_process"] modify_wf [OF w i(1), of "\<lambda>_. empty_process"]
    show ?thesis by (simp add: f Some s empty_process_wf)
  qed
  then show "pt_wf (fst (fst (free_process k s)))"
    "proc_map (fst (fst (free_process k s))) = (proc_map (fst s))(k := None)"
    "snd (free_process k s) \<longleftrightarrow> proc_map (fst s) k \<noteq> None"
    "\<not> snd (free_process k s) \<Longrightarrow> fst (free_process k s) = s"
    by blast+
qed

text \<open>Insertion as the interface has it: 0 means that there was no room.\<close>

definition spawn_entry :: "u32 \<times> bytes \<Rightarrow> ProcessTable \<times> memory \<Rightarrow>
    (ProcessTable \<times> memory) \<times> u32 option" where
  "spawn_entry a s = (case alloc (fst a) (snd a) (fst s) of
     (t', k) \<Rightarrow> ((t', snd s), if k = 0 then None else Some k))"

interpretation procs: handle_table "\<lambda>s. pt_wf (fst s)" "\<lambda>s. next_pid (fst s) + 1 \<noteq> 0" "\<lambda>k. k \<noteq> 0"
  "\<lambda>_. True" "\<lambda>s. proc_map (fst s)" spawn_entry
  "\<lambda>s a. new_process (next_pid (fst s)) (fst a) (snd a)" free_process MAX_PROCESSES
proof (unfold_locales, goal_cases)
  case (1 s a s' k)
  then obtain t' where a: "alloc (fst a) (snd a) (fst s) = (t', k)" "k \<noteq> 0" "s' = (t', snd s)"
    by (auto simp: spawn_entry_def split: prod.splits if_splits)
  from alloc_spec [OF 1(1,2) a(1,2)] next_pid_fresh [OF 1(1)] a(2,3) show ?case by auto
next
  case (2 s a s')
  then obtain t' where "alloc (fst a) (snd a) (fst s) = (t', 0)" "s' = (t', snd s)"
    by (auto simp: spawn_entry_def split: prod.splits if_splits)
  with alloc_zero [OF 2(1) this(1)] show ?case by simp
next
  case (3 s a)
  then show ?case using alloc_eq_zero_iff [OF 3, of "fst a" "snd a"] proc_map_dom(3) [OF 3]
    by (auto simp: spawn_entry_def split: prod.splits)
next
  case (4 s k s')
  then show ?case using free_process_spec [OF 4(1,2)] by simp
next
  case (5 s k s')
  then show ?case using free_process_spec [OF 5(1,2)] by auto
next
  case (6 s)
  then show ?case using proc_map_dom [OF 6] by blast
qed

section \<open>Signals, exit and reaping\<close>

lemma modify_get_mut:
  assumes w: "pt_wf t" and k: "k \<noteq> 0" and g: "get_mut k t = Some i"
    and f: "proc_wf (f (processes t ! i))" "pid (f (processes t ! i)) = pid (processes t ! i)"
  shows "pt_wf (modify i f t) \<and>
    (\<exists>p. proc_map t k = Some p \<and> p = processes t ! i \<and> proc_map (modify i f t) = (proc_map t)(k \<mapsto> f p))"
proof -
  have i: "i < MAX_PROCESSES" "pid (processes t ! i) = k" using g get_mut_Some [OF w k] by auto
  then show ?thesis
    using modify_wf [OF w i(1), of f] proc_map_modify [OF w i k, of f] proc_map_nth [OF w i(1)] f k
    by simp
qed

lemma get_mut_proc: "pt_wf t \<Longrightarrow> get_mut k t = Some i \<Longrightarrow> proc_wf (processes t ! i)"
  using pt_wfD(1,3) by (auto simp: get_mut_def position_Some_iff)

lemma mark_exit_spec:
  assumes w: "pt_wf t" and k: "k \<noteq> 0"
  shows "pt_wf (fst (mark_exit k code t)) \<and>
    proc_map (fst (mark_exit k code t)) = (case proc_map t k of
       None \<Rightarrow> proc_map t
     | Some p \<Rightarrow> (proc_map t)(k \<mapsto> p\<lparr>state := Zombie, exit_code := code\<rparr>)) \<and>
    (snd (mark_exit k code t) \<longleftrightarrow> proc_map t k \<noteq> None)"
proof (cases "get_mut k t")
  case None
  then show ?thesis using w by (auto simp: mark_exit_def proc_map_def get_eq_get_mut)
next
  case (Some i)
  have i: "pid (processes t ! i) = k" using Some get_mut_Some [OF w k] by auto
  then have "proc_wf ((processes t ! i)\<lparr>state := Zombie, exit_code := code\<rparr>)"
    using get_mut_proc [OF w Some] k by (simp add: proc_wf_def)
  from modify_get_mut [OF w k Some, of "\<lambda>p. p\<lparr>state := Zombie, exit_code := code\<rparr>"] this
  show ?thesis by (auto simp: mark_exit_def Some)
qed

lemma pt_send_signal_spec:
  assumes w: "pt_wf t" and k: "k \<noteq> 0"
  shows "pt_wf (fst (pt_send_signal k sig t)) \<and>
    proc_map (fst (pt_send_signal k sig t)) = (case proc_map t k of
       None \<Rightarrow> proc_map t
     | Some p \<Rightarrow> (proc_map t)(k \<mapsto> p\<lparr>pending_signals := pending_signals p OR signal_bit sig\<rparr>)) \<and>
    (snd (pt_send_signal k sig t) \<longleftrightarrow> proc_map t k \<noteq> None)"
proof (cases "get_mut k t")
  case None
  then show ?thesis using w by (auto simp: pt_send_signal_def proc_map_def get_eq_get_mut)
next
  case (Some i)
  have i: "pid (processes t ! i) = k" using Some get_mut_Some [OF w k] by auto
  then have p: "proc_wf ((processes t ! i)\<lparr>pending_signals := pending_signals (processes t ! i) OR signal_bit sig\<rparr>)"
      "state (processes t ! i) \<noteq> PFree"
    using get_mut_proc [OF w Some] k by (simp_all add: proc_wf_def)
  from modify_get_mut [OF w k Some, of "\<lambda>p. p\<lparr>pending_signals := pending_signals p OR signal_bit sig\<rparr>"] p
  show ?thesis by (auto simp: pt_send_signal_def Some)
qed

definition reap_slot :: "nat \<Rightarrow> ProcessTable \<times> memory \<Rightarrow> ProcessTable \<times> memory" where
  "reap_slot i s = (if state (processes (fst s) ! i) = Zombie then free_slot i s else s)"

lemma reap_slot_simps:
  "length (processes (fst (reap_slot i s))) = length (processes (fst s))"
  "next_pid (fst (reap_slot i s)) = next_pid (fst s)"
  "current_pid (fst (reap_slot i s)) = current_pid (fst s)"
  "j < length (processes (fst s)) \<Longrightarrow> processes (fst (reap_slot i s)) ! j =
     (if j = i \<and> state (processes (fst s) ! j) = Zombie then empty_process else processes (fst s) ! j)"
  "snd (reap_slot i s) = (if state (processes (fst s) ! i) = Zombie
     then dealloc_proc_space (cr3 (processes (fst s) ! i)) (snd s) else snd s)"
  by (auto simp: reap_slot_def free_slot_def modify_nth split: prod.splits)

lemma reap_prefix:
  "n \<le> length (processes t) \<Longrightarrow>
   length (processes (fst (fold reap_slot [0..<n] (t, m)))) = length (processes t) \<and>
   next_pid (fst (fold reap_slot [0..<n] (t, m))) = next_pid t \<and>
   current_pid (fst (fold reap_slot [0..<n] (t, m))) = current_pid t \<and>
   (\<forall>j<length (processes t). processes (fst (fold reap_slot [0..<n] (t, m))) ! j =
     (if j < n \<and> state (processes t ! j) = Zombie then empty_process else processes t ! j)) \<and>
   snd (fold reap_slot [0..<n] (t, m)) =
     fold dealloc_proc_space (map cr3 (filter (\<lambda>p. state p = Zombie) (take n (processes t)))) m"
proof (induction n)
  case (Suc n)
  then show ?case by (auto simp: reap_slot_simps take_Suc_conv_app_nth less_Suc_eq)
qed simp

lemma reap_zombies_eq: "reap_zombies s = fold reap_slot [0..<MAX_PROCESSES] s"
  unfolding reap_zombies_def reap_slot_def ..

lemma reap_zombies_nth:
  assumes "pt_wf t" "i < MAX_PROCESSES"
  shows "processes (fst (reap_zombies (t, m))) ! i =
    (if state (processes t ! i) = Zombie then empty_process else processes t ! i)"
  using reap_prefix [of MAX_PROCESSES t m] assms pt_wfD(1) [OF assms(1)] by (simp add: reap_zombies_eq)

lemma reap_zombies_wf: "pt_wf t \<Longrightarrow> pt_wf (fst (reap_zombies (t, m)))"
proof -
  assume w: "pt_wf t"
  note r = reap_prefix [of MAX_PROCESSES t m, folded reap_zombies_eq, unfolded pt_wfD(1) [OF w], OF order_refl]
  have n: "0 < next_pid t" using pt_wfD(2) [OF w] by (simp add: word_gt_0)
  show ?thesis unfolding pt_wf_def
    using r n pt_wfD(2,3,4) [OF w] pt_wfD(5) [OF w]
    by (auto simp: reap_zombies_nth [OF w] empty_process_wf)
qed

lemma reap_zombies_map:
  assumes w: "pt_wf t"
  shows "proc_map (fst (reap_zombies (t, m))) =
    (\<lambda>k. case proc_map t k of Some p \<Rightarrow> if state p = Zombie then None else Some p | None \<Rightarrow> None)"
proof (rule ext)
  fix k
  have "proc_map (fst (reap_zombies (t, m))) k = Some p \<longleftrightarrow> proc_map t k = Some p \<and> state p \<noteq> Zombie" for p
    unfolding proc_map_Some_iff [OF w] proc_map_Some_iff [OF reap_zombies_wf [OF w]]
    using reap_zombies_nth [OF w, of _ m] by (metis empty_process_simps(1))
  note e = this
  show "proc_map (fst (reap_zombies (t, m))) k =
    (case proc_map t k of Some p \<Rightarrow> if state p = Zombie then None else Some p | None \<Rightarrow> None)"
  proof (cases "proc_map (fst (reap_zombies (t, m))) k")
    case None
    then show ?thesis using e by (auto split: option.splits)
  next
    case (Some p)
    then show ?thesis using e [of p] by simp
  qed
qed

lemma reap_zombies_memory:
  "pt_wf t \<Longrightarrow> snd (reap_zombies (t, m)) =
     fold dealloc_proc_space (map cr3 (filter (\<lambda>p. state p = Zombie) (processes t))) m"
  using reap_prefix [of MAX_PROCESSES t m] pt_wfD(1) [of t] by (simp add: reap_zombies_eq)

section \<open>A small table\<close>

text \<open>One process, with id 1, started by the kernel.\<close>

definition demo_table :: ProcessTable where
  "demo_table = fst (alloc 0 (as_bytes ''init'') pt_new)"

definition demo_process :: Process where
  "demo_process = new_process 1 0 (as_bytes ''init'')"

lemma demo_alloc: "alloc 0 (as_bytes ''init'') pt_new = (demo_table, 1)"
  by (simp add: demo_table_def alloc_def pt_new_def MAX_PROCESSES_def upt_rec)

lemma demo_table_wf [wf_intros]: "pt_wf demo_table"
  and demo_table_map: "proc_map demo_table = [1 \<mapsto> demo_process]"
proof -
  have n: "next_pid pt_new + 1 \<noteq> 0" by (simp add: pt_new_def)
  have e: "proc_map pt_new = (\<lambda>_. None)"
    unfolding fun_eq_iff proc_map_None_iff [OF pt_new_wf] by (simp add: pt_new_def)
  note a = alloc_spec [OF pt_new_wf n demo_alloc, simplified]
  show "pt_wf demo_table" by (rule a(2))
  show "proc_map demo_table = [1 \<mapsto> demo_process]" using a(3) by (simp add: e demo_process_def)
qed

lemma demo_process_simps [simp]:
  "state demo_process = Blocked" "pid demo_process = 1" "pending_signals demo_process = 0"
  "parent_pid demo_process = 0"
  by (simp_all add: demo_process_def new_process_def init_process_def set_name_def Let_def)

section \<open>Properties\<close>

text \<open>
  C16. Process ids are handles that stay valid. Through any sequence of process creations
  (while ids do not wrap around) and releases, an id that is not itself released keeps
  naming the same process, whatever slots are reused; the table stays well formed, and
  creation fails exactly when all 32 slots are taken.
\<close>

theorem process_ids_stable:
  assumes "pt_wf t" and "procs.session (t, m) D (t', m')"
  shows "pt_wf t' \<and>
    (\<forall>k p. k \<notin> D \<and> proc_map t k = Some p \<longrightarrow> proc_map t' k = Some p) \<and>
    (snd (alloc parent nm t') = 0 \<longleftrightarrow> card (dom (proc_map t')) = MAX_PROCESSES)"
proof (intro conjI allI impI)
  have w: "pt_wf (fst (t, m))" using assms(1) by simp
  show w': "pt_wf t'" using procs.session_inv [OF assms(2)] assms(1) by simp
  show "proc_map t' k = Some p" if "k \<notin> D \<and> proc_map t k = Some p" for k p
    using procs.session_stable [OF assms(2) w, of k p] that by simp
  show "snd (alloc parent nm t') = 0 \<longleftrightarrow> card (dom (proc_map t')) = MAX_PROCESSES"
    by (simp add: alloc_eq_zero_iff [OF w'] proc_map_dom(3) [OF w'])
qed

theorem process_ids_stable_witness:
  "\<exists>t'. procs.session (pt_new, demo_memory) {2} (t', demo_memory) \<and> pt_wf t'"
proof -
  have "free_process 2 (pt_new, demo_memory) = ((pt_new, demo_memory), False)"
    by (auto simp: free_process_def pt_new_def find_upt_Some_iff split: option.splits)
  from procs.session_del [OF procs.session_start _ this]
  have s: "procs.session (pt_new, demo_memory) {2} (pt_new, demo_memory)" by simp
  from process_ids_stable [OF pt_new_wf s] s show ?thesis by blast
qed

text \<open>
  Exit and reaping. Marking a live process as exited changes its state and exit code
  and nothing else in the table; reaping removes exactly the zombies, keeps every other
  process untouched, and releases the address space of each zombie once.
\<close>

theorem reap_removes_zombies:
  assumes "pt_wf t" and "k \<noteq> 0" and "proc_map t k = Some p"
  shows "proc_map (fst (mark_exit k code t)) = (proc_map t)(k \<mapsto> p\<lparr>state := Zombie, exit_code := code\<rparr>) \<and>
    proc_map (fst (reap_zombies (t, m))) =
      (\<lambda>j. case proc_map t j of Some q \<Rightarrow> if state q = Zombie then None else Some q | None \<Rightarrow> None) \<and>
    snd (reap_zombies (t, m)) =
      fold dealloc_proc_space (map cr3 (filter (\<lambda>q. state q = Zombie) (processes t))) m \<and>
    pt_wf (fst (mark_exit k code t)) \<and> pt_wf (fst (reap_zombies (t, m)))"
  using mark_exit_spec [OF assms(1,2), of code] assms(3) reap_zombies_map [OF assms(1)]
    reap_zombies_memory [OF assms(1)] reap_zombies_wf [OF assms(1)]
  by simp

theorem reap_removes_zombies_witness:
  "proc_map demo_table 1 = Some demo_process \<and>
   proc_map (fst (reap_zombies (fst (mark_exit 1 3 demo_table), demo_memory))) 1 = None"
proof -
  let ?t = "fst (mark_exit 1 3 demo_table)"
  have p: "proc_map demo_table 1 = Some demo_process" by (simp add: demo_table_map)
  note r = reap_removes_zombies [OF demo_table_wf _ p, of 3 demo_memory]
  then have m: "proc_map ?t 1 = Some (demo_process\<lparr>state := Zombie, exit_code := 3\<rparr>)" "pt_wf ?t"
    by simp_all
  from reap_removes_zombies [OF m(2) _ m(1), of 3 demo_memory] m(1) p show ?thesis by simp
qed

end
