(* ===== verification/Signals.thy ===== *)
theory Signals
  imports Process_Table
begin

text \<open>
  Signals, privilege levels and the out-of-memory handler, which all act on the process
  table: \<^verbatim>\<open>kernel/src/signal.rs\<close>, \<^verbatim>\<open>kernel/src/perm.rs\<close>, \<^verbatim>\<open>kernel/src/oom.rs\<close>.
\<close>

section \<open>Error codes\<close>

datatype Errno = ok | ebadf | einval | enosys | enoent | enomem | efault

fun as_i64 :: "Errno \<Rightarrow> i64" where
  "as_i64 ok = 0"
| "as_i64 ebadf = -9"
| "as_i64 einval = -22"
| "as_i64 enosys = -38"
| "as_i64 enoent = -2"
| "as_i64 enomem = -12"
| "as_i64 efault = -14"

section \<open>Signals\<close>

definition SIGKILL :: u8 where "SIGKILL = 9"
definition SIGTERM :: u8 where "SIGTERM = 15"

text \<open>The exit code of a process that a signal ends.\<close>

definition signal_exit :: "u8 \<Rightarrow> i32" where "signal_exit signum = 128 + ucast signum"

definition send_signal :: "u32 \<Rightarrow> u8 \<Rightarrow> ProcessTable \<Rightarrow> ProcessTable \<times> bool" where
  "send_signal k signum t =
     (if signum = SIGKILL \<or> signum = SIGTERM then
        (case get_mut k t of
           None \<Rightarrow> (t, False)
         | Some i \<Rightarrow>
             if state (processes t ! i) = PFree \<or> state (processes t ! i) = Zombie then (t, False)
             else (modify i (\<lambda>p. p\<lparr>fd_table := fd_clear (fd_table p), pending_signals := 0,
                     signal_mask := 0, state := Zombie, exit_code := signal_exit signum\<rparr>) t, True))
      else pt_send_signal k signum t)"

definition deliver_to :: "Process \<Rightarrow> Process" where
  "deliver_to p =
     (let pending = pending_signals p in
      if pending = 0 then p
      else if pending AND push_bit 8 1 \<noteq> 0 then
        p\<lparr>fd_table := fd_clear (fd_table p), pending_signals := 0, state := Zombie,
          exit_code := signal_exit SIGKILL\<rparr>
      else if pending AND push_bit 14 1 \<noteq> 0 then
        p\<lparr>fd_table := fd_clear (fd_table p), pending_signals := 0, state := Zombie,
          exit_code := signal_exit SIGTERM\<rparr>
      else p\<lparr>pending_signals := pending AND NOT (push_bit 8 1 OR push_bit 14 1)\<rparr>)"

definition deliver_pending_into :: "ProcessTable \<Rightarrow> ProcessTable" where
  "deliver_pending_into t =
     (if current_pid t = 0 then t
      else case get_mut (current_pid t) t of None \<Rightarrow> t | Some i \<Rightarrow> modify i deliver_to t)"

definition sys_kill :: "u32 \<Rightarrow> u8 \<Rightarrow> ProcessTable \<Rightarrow> ProcessTable \<times> i64" where
  "sys_kill k signum t =
     (if k = 0 then (t, as_i64 einval)
      else if signum = 0 then (t, if get k t \<noteq> None then 0 else as_i64 enoent)
      else case send_signal k signum t of
             (t', True) \<Rightarrow> (t', 0)
           | (t', False) \<Rightarrow> (t', as_i64 enoent))"

section \<open>Privilege levels\<close>

datatype PrivilegeLevel = Kernel | System | User

datatype Resource = RFramebuffer | InputEvents | FileRead | FileWrite | ProcessControl | RExec

definition get_privilege_level :: "u32 \<Rightarrow> ProcessTable \<Rightarrow> PrivilegeLevel" where
  "get_privilege_level k t =
     (if k = 0 then Kernel
      else case get k t of
             None \<Rightarrow> Kernel
           | Some p \<Rightarrow> if state p = PFree then Kernel
                      else if parent_pid p = 0 then System else User)"

fun level_allows :: "PrivilegeLevel \<Rightarrow> Resource \<Rightarrow> bool" where
  "level_allows System RFramebuffer = True"
| "level_allows System InputEvents = True"
| "level_allows System FileRead = True"
| "level_allows System FileWrite = True"
| "level_allows System RExec = True"
| "level_allows System ProcessControl = True"
| "level_allows User RFramebuffer = False"
| "level_allows User InputEvents = False"
| "level_allows User FileRead = True"
| "level_allows User FileWrite = True"
| "level_allows User RExec = True"
| "level_allows User ProcessControl = False"
| "level_allows Kernel r = False"

definition check_permission :: "u32 \<Rightarrow> Resource \<Rightarrow> ProcessTable \<Rightarrow> bool" where
  "check_permission k r t = (if k = 0 then True else level_allows (get_privilege_level k t) r)"

section \<open>Out of memory\<close>

definition handle_oom :: "ProcessTable \<times> memory \<Rightarrow> (ProcessTable \<times> memory) \<times> bool" where
  "handle_oom s =
     (if length (filter (\<lambda>p. state p = Zombie) (processes (fst s))) > 0
      then (reap_zombies s, True)
      else case position (\<lambda>p. 2 < pid p \<and> state p = Ready) (processes (fst s)) of
             None \<Rightarrow> (s, False)
           | Some i \<Rightarrow>
               (reap_zombies (modify i (\<lambda>p. p\<lparr>fd_table := fd_clear (fd_table p), state := Zombie,
                                              exit_code := - 9\<rparr>) (fst s), snd s), True))"

section \<open>Lemmas\<close>

lemma send_signal_kill_spec:
  assumes w: "pt_wf t" and k: "k \<noteq> 0" and sig: "signum = SIGKILL \<or> signum = SIGTERM"
  shows "(case proc_map t k of
      Some p \<Rightarrow> if state p = Zombie then send_signal k signum t = (t, False)
        else \<exists>t'. send_signal k signum t = (t', True) \<and> pt_wf t' \<and>
          proc_map t' = (proc_map t)(k \<mapsto> p\<lparr>fd_table := fd_clear (fd_table p), pending_signals := 0,
            signal_mask := 0, state := Zombie, exit_code := signal_exit signum\<rparr>)
    | None \<Rightarrow> send_signal k signum t = (t, False))"
proof (cases "get_mut k t")
  case None
  then show ?thesis using sig by (auto simp: send_signal_def proc_map_def get_eq_get_mut)
next
  case (Some i)
  let ?f = "\<lambda>p. p\<lparr>fd_table := fd_clear (fd_table p), pending_signals := 0,
            signal_mask := 0, state := Zombie, exit_code := signal_exit signum\<rparr>"
  have i: "pid (processes t ! i) = k" using Some get_mut_Some [OF w k] by auto
  have p: "proc_wf (?f (processes t ! i))" "state (processes t ! i) \<noteq> PFree"
    using get_mut_proc [OF w Some] k i by (simp_all add: proc_wf_def fd_clear_wf)
  from modify_get_mut [OF w k Some, of ?f] p sig show ?thesis
    by (auto simp: send_signal_def Some)
qed

lemma deliver_to_wf: "proc_wf p \<Longrightarrow> pid p \<noteq> 0 \<Longrightarrow> proc_wf (deliver_to p)"
  by (auto simp: deliver_to_def Let_def proc_wf_def fd_clear_wf)

lemma deliver_to_pid [simp]: "pid (deliver_to p) = pid p"
  by (simp add: deliver_to_def Let_def)

lemma deliver_pending_spec:
  assumes w: "pt_wf t"
  shows "pt_wf (deliver_pending_into t) \<and>
    proc_map (deliver_pending_into t) =
      (case proc_map t (current_pid t) of None \<Rightarrow> proc_map t
       | Some p \<Rightarrow> (proc_map t)(current_pid t \<mapsto> deliver_to p)) \<and>
    current_pid (deliver_pending_into t) = current_pid t"
proof (cases "current_pid t = 0")
  case True
  then show ?thesis using w by (simp add: deliver_pending_into_def proc_map_def)
next
  case k: False
  show ?thesis
  proof (cases "get_mut (current_pid t) t")
    case None
    then show ?thesis using w by (simp add: deliver_pending_into_def proc_map_def get_eq_get_mut)
  next
    case (Some i)
    have "pid (processes t ! i) \<noteq> 0" using Some get_mut_Some [OF w k] k by auto
    then have "proc_wf (deliver_to (processes t ! i))"
      using get_mut_proc [OF w Some] deliver_to_wf by blast
    from modify_get_mut [OF w k Some, of deliver_to] this k show ?thesis
      by (auto simp: deliver_pending_into_def Some)
  qed
qed

lemma push_bit_1_and: "(w :: u32) AND push_bit n 1 \<noteq> 0 \<longleftrightarrow> bit w n"
  by (simp add: bit_iff_and_push_bit_not_eq_0)

lemma deliver_to_cases:
  "deliver_to p =
     (if bit (pending_signals p) 8 then
        p\<lparr>fd_table := fd_clear (fd_table p), pending_signals := 0, state := Zombie, exit_code := 137\<rparr>
      else if bit (pending_signals p) 14 then
        p\<lparr>fd_table := fd_clear (fd_table p), pending_signals := 0, state := Zombie, exit_code := 143\<rparr>
      else p)"
proof -
  have e: "signal_exit SIGKILL = 137" "signal_exit SIGTERM = 143"
    by (simp_all add: signal_exit_def SIGKILL_def SIGTERM_def)
  have "pending_signals p AND NOT (push_bit 8 1 OR push_bit 14 1) = pending_signals p"
    if "\<not> bit (pending_signals p) 8" "\<not> bit (pending_signals p) 14"
  proof (rule bit_word_eqI)
    fix n
    have "bit (push_bit 8 1 OR push_bit 14 1 :: u32) n \<longleftrightarrow> n = 8 \<or> n = 14"
      unfolding bit_or_iff bit_push_bit_iff bit_1_iff by auto
    then show "bit (pending_signals p AND NOT (push_bit 8 1 OR push_bit 14 1)) n \<longleftrightarrow> bit (pending_signals p) n"
      using that unfolding bit_and_iff bit_not_iff by (auto dest: bit_imp_le_length)
  qed
  then show ?thesis unfolding deliver_to_def Let_def push_bit_1_and e by auto
qed

text \<open>Signal 41 raises the pending bit of signal 9: the shift count wraps modulo 32.\<close>

lemma signal_41_is_sigkill: "signal_bit 41 = signal_bit SIGKILL"
  by (simp add: signal_bit_def SIGKILL_def)

lemma zombie_map_iff:
  "pt_wf t \<Longrightarrow> (\<exists>p \<in> set (processes t). state p = Zombie) \<longleftrightarrow> (\<exists>k p. proc_map t k = Some p \<and> state p = Zombie)"
proof -
  assume w: "pt_wf t"
  have "pid (processes t ! i) \<noteq> 0" if "i < MAX_PROCESSES" "state (processes t ! i) = Zombie" for i
    using pt_wfD(3) [OF w that(1)] that(2) by (auto simp: proc_wf_def)
  then have "\<exists>k p. proc_map t k = Some p \<and> state p = Zombie" if "i < MAX_PROCESSES" "state (processes t ! i) = Zombie" for i
    using proc_map_nth [OF w that(1)] that by blast
  note fw = this
  show ?thesis
  proof
    assume "\<exists>p \<in> set (processes t). state p = Zombie"
    then show "\<exists>k p. proc_map t k = Some p \<and> state p = Zombie"
      using fw pt_wfD(1) [OF w] by (auto simp: in_set_conv_nth)
  next
    assume "\<exists>k p. proc_map t k = Some p \<and> state p = Zombie"
    then show "\<exists>p \<in> set (processes t). state p = Zombie"
      using pt_wfD(1) [OF w] by (auto simp: proc_map_Some_iff [OF w])
  qed
qed

text \<open>Killing one process and reaping removes it, and it alone when there was no zombie.\<close>

lemma kill_and_reap:
  assumes w: "pt_wf t" and z: "\<forall>k p. proc_map t k = Some p \<longrightarrow> state p \<noteq> Zombie"
    and i: "i < MAX_PROCESSES" "pid (processes t ! i) = k" "k \<noteq> 0"
  shows "proc_map (fst (reap_zombies (modify i (\<lambda>p. p\<lparr>fd_table := fd_clear (fd_table p),
      state := Zombie, exit_code := - 9\<rparr>) t, m))) = (proc_map t)(k := None)"
proof -
  let ?f = "\<lambda>p. p\<lparr>fd_table := fd_clear (fd_table p), state := Zombie, exit_code := - 9\<rparr>"
  have f: "proc_wf (?f (processes t ! i))"
    using pt_wfD(3) [OF w i(1)] i by (simp add: proc_wf_def fd_clear_wf)
  have w': "pt_wf (modify i ?f t)" using modify_wf [OF w i(1), of ?f] f by simp
  have "proc_map (modify i ?f t) = (proc_map t)(k \<mapsto> ?f (processes t ! i))"
    using proc_map_modify [OF w i, of ?f] f i by simp
  then show ?thesis using z by (auto simp: reap_zombies_map [OF w'] fun_eq_iff split: option.splits)
qed

section \<open>Properties\<close>



text \<open>
  Delivery of pending signals. The process on the CPU becomes a zombie exactly when
  SIGKILL or SIGTERM is pending for it (SIGKILL first), with exit code 137 or 143 and its
  descriptors closed; otherwise, and for every other process, nothing changes.
\<close>

theorem deliver_pending_correct:
  assumes "pt_wf t"
  shows "pt_wf (deliver_pending_into t) \<and>
    proc_map (deliver_pending_into t) =
      (case proc_map t (current_pid t) of None \<Rightarrow> proc_map t
       | Some p \<Rightarrow>
          (if bit (pending_signals p) 8 \<or> bit (pending_signals p) 14
           then (proc_map t)(current_pid t \<mapsto> p\<lparr>fd_table := fd_clear (fd_table p),
             pending_signals := 0, state := Zombie,
             exit_code := if bit (pending_signals p) 8 then 137 else 143\<rparr>)
           else proc_map t))"
  using deliver_pending_spec [OF assms]
  by (auto simp: deliver_to_cases fun_upd_idem split: option.splits)

theorem deliver_pending_correct_witness: "proc_map (deliver_pending_into demo_table) 1 = Some demo_process"
  using deliver_pending_correct [OF demo_table_wf] by (auto simp: demo_table_map split: option.splits if_splits)

text \<open>
  Permissions. The kernel may use every resource; a process whose parent is the kernel
  may too; any other live process may only read and write files and start programs; an id
  that names no process is denied everything.
\<close>

theorem check_permission_iff:
  assumes "pt_wf t"
  shows "check_permission k r t \<longleftrightarrow>
    k = 0 \<or> (\<exists>p. proc_map t k = Some p \<and> (parent_pid p = 0 \<or> r \<in> {FileRead, FileWrite, RExec}))"
proof (cases "k = 0 \<or> proc_map t k = None")
  case True
  then show ?thesis by (auto simp: check_permission_def get_privilege_level_def proc_map_def)
next
  case False
  then obtain p where p: "k \<noteq> 0" "proc_map t k = Some p" by auto
  then have "state p \<noteq> PFree" using pt_wfD(3) [OF assms] by (auto simp: proc_map_Some_iff [OF assms] proc_wf_def)
  with p show ?thesis
    by (cases r) (auto simp: check_permission_def get_privilege_level_def proc_map_def)
qed

theorem check_permission_iff_witness:
  "check_permission 1 ProcessControl demo_table \<and> \<not> check_permission 7 FileRead demo_table"
  using check_permission_iff [OF demo_table_wf] by (auto simp: demo_table_map)

text \<open>
  Out of memory. When there are zombies the handler reaps them and kills nothing;
  otherwise it removes one ready process with an id above 2; it reports failure, and has
  changed nothing, only when there is neither. It never removes a process with id 1 or 2,
  nor one that is running or blocked.
\<close>

theorem handle_oom_correct:
  assumes "pt_wf t"
  shows "(case handle_oom (t, m) of ((t', m'), recovered) \<Rightarrow>
     (recovered \<longleftrightarrow> (\<exists>k p. proc_map t k = Some p \<and> (state p = Zombie \<or> (2 < k \<and> state p = Ready)))) \<and>
     (\<not> recovered \<longrightarrow> t' = t \<and> m' = m) \<and>
     (\<forall>k p. proc_map t k = Some p \<and> state p \<noteq> Zombie \<and> (k \<le> 2 \<or> state p \<noteq> Ready) \<longrightarrow>
        proc_map t' k = Some p) \<and>
     card {k \<in> dom (proc_map t). proc_map t' k = None \<and> state (the (proc_map t k)) \<noteq> Zombie} \<le> 1)"
proof (cases "\<exists>p \<in> set (processes t). state p = Zombie")
  case True
  then have h: "handle_oom (t, m) = (reap_zombies (t, m), True)"
    by (auto simp: handle_oom_def filter_empty_conv)
  obtain t' m' where r: "reap_zombies (t, m) = (t', m')" by (cases "reap_zombies (t, m)")
  then have t': "proc_map t' = (\<lambda>k. case proc_map t k of
      Some p \<Rightarrow> if state p = Zombie then None else Some p | None \<Rightarrow> None)"
    using reap_zombies_map [OF assms, of m] by simp
  have "\<exists>k p. proc_map t k = Some p \<and> state p = Zombie" using True zombie_map_iff [OF assms] by blast
  moreover have "{k \<in> dom (proc_map t). proc_map t' k = None \<and> state (the (proc_map t k)) \<noteq> Zombie} = {}"
    by (auto simp: t' split: if_splits)
  then have "card {k \<in> dom (proc_map t). proc_map t' k = None \<and> state (the (proc_map t k)) \<noteq> Zombie} \<le> 1"
    by (simp only: card.empty)
  moreover have "proc_map t' k = Some p" if "proc_map t k = Some p" "state p \<noteq> Zombie" for k p
    using that by (simp add: t')
  ultimately show ?thesis unfolding h r prod.case by blast
next
  case False
  then have z: "\<forall>k p. proc_map t k = Some p \<longrightarrow> state p \<noteq> Zombie" using zombie_map_iff [OF assms] by blast
  show ?thesis
  proof (cases "position (\<lambda>p. 2 < pid p \<and> state p = Ready) (processes t)")
    case None
    then have h: "handle_oom (t, m) = ((t, m), False)" using False
      by (auto simp: handle_oom_def filter_empty_conv)
    have "\<not> (2 < k \<and> state p = Ready)" if "proc_map t k = Some p" for k p
      using that None pt_wfD(1) [OF assms] nth_mem [of _ "processes t"]
      by (auto simp: position_None_iff proc_map_Some_iff [OF assms])
    moreover have "{k \<in> dom (proc_map t). proc_map t k = None \<and> state (the (proc_map t k)) \<noteq> Zombie} = {}"
      by auto
    then have "card {k \<in> dom (proc_map t). proc_map t k = None \<and> state (the (proc_map t k)) \<noteq> Zombie} \<le> 1"
      by (simp only: card.empty)
    ultimately show ?thesis using z unfolding h prod.case by blast
  next
    case (Some i)
    define k where "k = pid (processes t ! i)"
    have i: "i < MAX_PROCESSES" "pid (processes t ! i) = k" "k \<noteq> 0" and v: "2 < k" "state (processes t ! i) = Ready"
      using Some pt_wfD(1) [OF assms] by (auto simp: position_Some_iff k_def)
    have p: "proc_map t k = Some (processes t ! i)" using proc_map_nth [OF assms i(1)] i by simp
    obtain s' where h: "handle_oom (t, m) = (s', True)" and s': "proc_map (fst s') = (proc_map t)(k := None)"
      using False Some kill_and_reap [OF assms z i, of m] by (auto simp: handle_oom_def filter_empty_conv)
    have "{j \<in> dom (proc_map t). proc_map (fst s') j = None \<and> state (the (proc_map t j)) \<noteq> Zombie} \<subseteq> {k}"
      by (auto simp: s')
    then have "card {j \<in> dom (proc_map t). proc_map (fst s') j = None \<and> state (the (proc_map t j)) \<noteq> Zombie} \<le> 1"
      using card_mono [of "{k}"] by simp
    then show ?thesis using p v s' by (auto simp: h split: prod.splits)
  qed
qed

theorem handle_oom_correct_witness: "snd (handle_oom (demo_table, demo_memory)) = False"
  using handle_oom_correct [OF demo_table_wf, of demo_memory]
  by (auto simp: demo_table_map split: prod.splits if_splits)

end
