(* ===== verification/Sched.thy ===== *)
theory Sched
  imports Signals
begin

text \<open>
  The round-robin scheduler of \<^verbatim>\<open>kernel/src/scheduler.rs\<close>: per-process kernel stacks,
  the assembly routine \<^verbatim>\<open>switch_context\<close>, the timer tick and the choice of the next
  process. The state holds the process table, the scheduler's own counters, the kernel
  stacks and the processor. Spin locks appear as what the interrupted code holds: a
  \<^verbatim>\<open>try_lock\<close> on a held lock gives up, a blocking \<^verbatim>\<open>lock\<close> on a held lock never
  returns (\<open>None\<close>).
\<close>

section \<open>Data\<close>

definition PROCESS_KERNEL_STACK_SIZE :: u64 where "PROCESS_KERNEL_STACK_SIZE = 32768"

text \<open>The bytes of a stack are in kernel memory at \<open>stack_base\<close>.\<close>

record ProcessKernelStack =
  stack_base :: u64
  saved_rsp :: u64
  initialised :: bool

text \<open>The registers the context switch touches.\<close>

record cpu =
  c_rip :: u64  c_rsp :: u64  c_cr3 :: u64
  c_rbp :: u64  c_rbx :: u64  c_r12 :: u64  c_r13 :: u64  c_r14 :: u64  c_r15 :: u64

record Scheduler =
  current_slice :: u32
  default_slice :: u32
  active :: bool

record machine =
  table :: ProcessTable
  sched :: Scheduler
  stacks :: "ProcessKernelStack list"
  tss_rsp0 :: u64
  processor :: cpu
  kmem :: ram

record locks =
  table_held :: bool
  sched_held :: bool
  stacks_held :: bool

section \<open>The context switch\<close>

definition push :: "u64 \<Rightarrow> cpu \<times> ram \<Rightarrow> cpu \<times> ram" where
  "push v = (\<lambda>(c, k). (c\<lparr>c_rsp := c_rsp c - 8\<rparr>, wr64 (c_rsp c - 8) v k))"

definition pop :: "(u64 \<Rightarrow> cpu \<Rightarrow> cpu) \<Rightarrow> cpu \<times> ram \<Rightarrow> cpu \<times> ram" where
  "pop set_reg = (\<lambda>(c, k). (set_reg (rd64 k (c_rsp c)) (c\<lparr>c_rsp := c_rsp c + 8\<rparr>), k))"

text \<open>
  The call pushes the return address (\<open>c_rip\<close>), then the routine saves the six
  callee-saved registers, hands back the old stack pointer, loads the new one and the new
  address space, and restores. The result carries the value stored through \<^verbatim>\<open>old_rsp\<close>.
\<close>

definition save_context :: "cpu \<times> ram \<Rightarrow> cpu \<times> ram" where
  "save_context s = (case s of (c, k) \<Rightarrow>
     push (c_r15 c) (push (c_r14 c) (push (c_r13 c) (push (c_r12 c)
       (push (c_rbx c) (push (c_rbp c) (push (c_rip c) (c, k))))))))"

definition restore_context :: "cpu \<times> ram \<Rightarrow> cpu \<times> ram" where
  "restore_context s =
     pop (\<lambda>v c. c\<lparr>c_rip := v\<rparr>) (pop (\<lambda>v c. c\<lparr>c_rbp := v\<rparr>) (pop (\<lambda>v c. c\<lparr>c_rbx := v\<rparr>)
       (pop (\<lambda>v c. c\<lparr>c_r12 := v\<rparr>) (pop (\<lambda>v c. c\<lparr>c_r13 := v\<rparr>) (pop (\<lambda>v c. c\<lparr>c_r14 := v\<rparr>)
         (pop (\<lambda>v c. c\<lparr>c_r15 := v\<rparr>) s))))))"

definition switch_context :: "u64 \<Rightarrow> u64 \<Rightarrow> cpu \<times> ram \<Rightarrow> (cpu \<times> ram) \<times> u64" where
  "switch_context new_rsp new_cr3 s =
     (case save_context s of (c, k) \<Rightarrow>
        (restore_context (c\<lparr>c_rsp := new_rsp, c_cr3 := (if new_cr3 = 0 then c_cr3 c else new_cr3)\<rparr>, k),
         c_rsp c))"

section \<open>Kernel stacks\<close>

definition stack_top :: "ProcessKernelStack \<Rightarrow> u64" where
  "stack_top st = stack_base st + PROCESS_KERNEL_STACK_SIZE"

definition setup_initial_context :: "u64 \<Rightarrow> ProcessKernelStack \<times> ram \<Rightarrow> ProcessKernelStack \<times> ram" where
  "setup_initial_context entry s = (case s of (st, k) \<Rightarrow>
     let p = stack_top st - 56 in
     (st\<lparr>saved_rsp := p, initialised := True\<rparr>,
      wr64 (p + 48) entry (wr64 (p + 40) 0 (wr64 (p + 32) 0 (wr64 (p + 24) 0
        (wr64 (p + 16) 0 (wr64 (p + 8) 0 (wr64 p 0 k))))))))"

definition init_process_stack :: "nat \<Rightarrow> u64 \<Rightarrow> machine \<Rightarrow> machine" where
  "init_process_stack slot entry m =
     (case setup_initial_context entry (stacks m ! slot, kmem m) of (st, k) \<Rightarrow>
        m\<lparr>stacks := (stacks m)[slot := st], kmem := k\<rparr>)"

section \<open>Choosing and switching\<close>

definition find_slot :: "u32 \<Rightarrow> ProcessTable \<Rightarrow> nat option" where
  "find_slot k t = position (\<lambda>p. pid p = k) (processes t)"

definition find_next_ready :: "locks \<Rightarrow> u32 \<Rightarrow> ProcessTable \<Rightarrow> u32 option" where
  "find_next_ready l after_pid t =
     (if table_held l then None
      else let current_slot = (case position (\<lambda>p. pid p = after_pid) (processes t) of
                                 Some i \<Rightarrow> i | None \<Rightarrow> 0) in
        map_option (\<lambda>i. pid (processes t ! ((current_slot + i) mod 32)))
          (find (\<lambda>i. pid (processes t ! ((current_slot + i) mod 32)) \<noteq> 0 \<and>
                     state (processes t ! ((current_slot + i) mod 32)) = Ready) [1..<33]))"

text \<open>\<^verbatim>\<open>if let Some(p) = table.get_mut(pid) { ... }\<close>\<close>

definition with_proc :: "u32 \<Rightarrow> (Process \<Rightarrow> Process) \<Rightarrow> ProcessTable \<Rightarrow> ProcessTable" where
  "with_proc k f t = (case get_mut k t of None \<Rightarrow> t | Some i \<Rightarrow> modify i f t)"

text \<open>The states of the two processes and the current process.\<close>

definition switch_states :: "nat option \<Rightarrow> u32 \<Rightarrow> u32 \<Rightarrow> ProcessTable \<Rightarrow> ProcessTable" where
  "switch_states old_slot old_pid new_pid t =
     (let t1 = (if old_slot \<noteq> None
                then with_proc old_pid (\<lambda>p. if state p = Running then p\<lparr>state := Ready\<rparr> else p) t
                else t);
          t2 = with_proc new_pid (\<lambda>p. p\<lparr>state := Running\<rparr>) t1
      in t2\<lparr>current_pid := new_pid\<rparr>)"

definition reset_slice :: "Scheduler \<Rightarrow> Scheduler" where
  "reset_slice s = s\<lparr>current_slice := default_slice s\<rparr>"

text \<open>Storing the stack pointer of the process that leaves; the idle loop has no slot.\<close>

definition store_rsp :: "nat option \<Rightarrow> u64 \<Rightarrow> ProcessKernelStack list \<Rightarrow> ProcessKernelStack list" where
  "store_rsp old_slot r sts =
     (case old_slot of None \<Rightarrow> sts | Some i \<Rightarrow> sts[i := (sts ! i)\<lparr>saved_rsp := r\<rparr>])"

definition do_context_switch :: "locks \<Rightarrow> u32 \<Rightarrow> u32 \<Rightarrow> machine \<Rightarrow> machine option" where
  "do_context_switch l old_pid new_pid m =
     (if table_held l then None
      else case find_slot new_pid (table m) of
        None \<Rightarrow> Some m
      | Some new_slot \<Rightarrow>
          let old_slot = (if old_pid = 0 then None else find_slot old_pid (table m)) in
          if stacks_held l then Some m
          else if \<not> initialised (stacks m ! new_slot) then
            Some (m\<lparr>table := with_proc new_pid
              (\<lambda>p. if state p = Ready then p\<lparr>state := Blocked\<rparr> else p) (table m)\<rparr>)
          else
            let new_rsp = saved_rsp (stacks m ! new_slot);
                m1 = m\<lparr>table := switch_states old_slot old_pid new_pid (table m)\<rparr>
            in if sched_held l then Some m1
            else
              let m2 = m1\<lparr>sched := reset_slice (sched m1),
                          tss_rsp0 := stack_top (stacks m1 ! new_slot)\<rparr>;
                  new_cr3 = (case get new_pid (table m2) of None \<Rightarrow> 0 | Some p \<Rightarrow> cr3 p)
              in case switch_context new_rsp new_cr3 (processor m2, kmem m2) of
                   ((c, k), old_rsp) \<Rightarrow>
                     Some (m2\<lparr>stacks := store_rsp old_slot old_rsp (stacks m2),
                              processor := c, kmem := k\<rparr>))"

definition schedule :: "locks \<Rightarrow> machine \<Rightarrow> machine option" where
  "schedule l m =
     (if table_held l then Some m
      else let current = current_pid (table m) in
        case find_next_ready l current (table m) of
          None \<Rightarrow> Some m
        | Some next \<Rightarrow>
            if next = current then
              if sched_held l then None
              else Some (m\<lparr>sched := reset_slice (sched m)\<rparr>)
            else do_context_switch l current next m)"

definition switch_to_next :: "locks \<Rightarrow> machine \<Rightarrow> machine option" where
  "switch_to_next l m =
     (if table_held l then Some m
      else let current = current_pid (table m) in
        case find_next_ready l current (table m) of
          None \<Rightarrow> Some m
        | Some next \<Rightarrow> if next \<noteq> current then do_context_switch l current next m else Some m)"

definition yield_now :: "locks \<Rightarrow> machine \<Rightarrow> machine option" where
  "yield_now l m =
     (if table_held l then None
      else if current_pid (table m) \<noteq> 0 then schedule l m else Some m)"

definition restart_current :: "locks \<Rightarrow> machine \<Rightarrow> machine option" where
  "restart_current l m =
     (if table_held l then None
      else let current = current_pid (table m) in
        if current \<noteq> 0 then do_context_switch l current current m else Some m)"

definition on_timer_tick :: "locks \<Rightarrow> machine \<Rightarrow> machine option" where
  "on_timer_tick l m =
     (if sched_held l then Some m
      else if \<not> active (sched m) then Some m
      else
        let m1 = (if current_slice (sched m) > 0
                  then m\<lparr>sched := (sched m)\<lparr>current_slice := current_slice (sched m) - 1\<rparr>\<rparr>
                  else m)
        in if current_slice (sched m1) = 0 then schedule l m1
        else if table_held l then Some m1
        else
          let cur = current_pid (table m1) in
          if cur = 0 then Some m1
          else
            let t = deliver_pending_into (table m1);
                m2 = m1\<lparr>table := t\<rparr>
            in if (case get cur t of None \<Rightarrow> False | Some p \<Rightarrow> state p = Zombie)
               then schedule l m2 else Some m2)"

definition start_scheduler :: "machine \<Rightarrow> machine" where
  "start_scheduler m = m\<lparr>sched := (sched m)\<lparr>active := True\<rparr>\<rparr>"

section \<open>Stack frames\<close>

lemma save_context_eq:
  "save_context (c, k) = (c\<lparr>c_rsp := c_rsp c - 56\<rparr>,
     wr64 (c_rsp c - 56) (c_r15 c) (wr64 (c_rsp c - 48) (c_r14 c) (wr64 (c_rsp c - 40) (c_r13 c)
       (wr64 (c_rsp c - 32) (c_r12 c) (wr64 (c_rsp c - 24) (c_rbx c) (wr64 (c_rsp c - 16) (c_rbp c)
         (wr64 (c_rsp c - 8) (c_rip c) k)))))))"
  by (simp add: save_context_def push_def)

lemma restore_context_eq:
  "restore_context (c, k) = (c\<lparr>c_r15 := rd64 k (c_rsp c), c_r14 := rd64 k (c_rsp c + 8),
     c_r13 := rd64 k (c_rsp c + 16), c_r12 := rd64 k (c_rsp c + 24), c_rbx := rd64 k (c_rsp c + 32),
     c_rbp := rd64 k (c_rsp c + 40), c_rsp := c_rsp c + 56, c_rip := rd64 k (c_rsp c + 48)\<rparr>, k)"
  by (simp add: restore_context_def pop_def add.commute)

lemma rd64_wr64_minus:
  "8 \<le> a - b \<Longrightarrow> 8 \<le> b - a \<Longrightarrow> rd64 (wr64 (x - a) v k) (x - b) = rd64 k (x - b)"
  by (rule rd64_wr64_other) simp_all

lemma rd64_cong: "(\<And>i. i < 8 \<Longrightarrow> k' (a + of_nat i) = k (a + of_nat i)) \<Longrightarrow> rd64 k' a = rd64 k a"
  unfolding rd64_def by (intro arg_cong [where f = from_le] map_cong refl) auto

text \<open>The frame of seven words that a switch leaves on the stack.\<close>

definition frame_words :: "ram \<Rightarrow> u64 \<Rightarrow> u64 list" where
  "frame_words k p = map (\<lambda>i. rd64 k (p + 8 * of_nat i)) [0..<7]"

lemma frame_words_eq:
  "frame_words k p = [rd64 k p, rd64 k (p + 8), rd64 k (p + 16), rd64 k (p + 24), rd64 k (p + 32),
     rd64 k (p + 40), rd64 k (p + 48)]"
  by (simp add: frame_words_def upt_rec)

lemma frame_words_cong:
  assumes "\<And>a. a - p < 56 \<Longrightarrow> k' a = k a"
  shows "frame_words k' p = frame_words k p"
proof -
  have "rd64 k' (p + 8 * of_nat i) = rd64 k (p + 8 * of_nat i)" if "i < 7" for i
  proof (rule rd64_cong)
    fix j :: nat assume "j < 8"
    with that have "unat (8 * of_nat i + of_nat j :: u64) = 8 * i + j"
      using of_nat_inverse [of "8 * i + j" "8 * of_nat i + of_nat j :: u64"] by simp
    with that \<open>j < 8\<close> have "8 * of_nat i + of_nat j < (56 :: u64)" by (simp add: word_less_nat_alt)
    then show "k' (p + 8 * of_nat i + of_nat j) = k (p + 8 * of_nat i + of_nat j)"
      by (intro assms) (simp add: algebra_simps)
  qed
  then show ?thesis by (simp add: frame_words_def)
qed

lemma words_apart:
  fixes a b n :: u64
  assumes "n \<le> b - a" "n \<le> a - b" "x - b < n"
  shows "\<not> x - a < n"
proof -
  define d where "d = b - a"
  define e where "e = x - b"
  have n: "a - b = - d" "x - a = e + d" by (simp_all add: d_def e_def)
  have d: "unat n \<le> unat d" "unat e < unat n"
    using assms(1,3) by (simp_all add: word_le_nat_alt word_less_nat_alt d_def e_def)
  then have "unat (- d) = 2 ^ 64 - unat d" using unat_sub_if' [of 0 d] by simp
  moreover have "unat n \<le> unat (- d)" using assms(2) unfolding n by (simp add: word_le_nat_alt)
  moreover have "unat d < 2 ^ LENGTH(64)" by (rule unsigned_less)
  ultimately have "unat e + unat d < 2 ^ 64" using d(2) by simp
  then have "unat (e + d) = unat e + unat d" using unat_add_lem [of e d] by simp
  then show ?thesis using d unfolding n by (simp add: word_less_nat_alt)
qed

lemma save_context_frame:
  "save_context (c, k) = (c', k') \<Longrightarrow> c' = c\<lparr>c_rsp := c_rsp c - 56\<rparr> \<and>
     frame_words k' (c_rsp c - 56) = [c_r15 c, c_r14 c, c_r13 c, c_r12 c, c_rbx c, c_rbp c, c_rip c]"
  by (auto simp: save_context_eq frame_words_eq rd64_wr64_same rd64_wr64_minus)

lemma wr64_outside: "\<not> x - a < 8 \<Longrightarrow> wr64 a v k x = k x"
  by (simp add: wr64_def)

lemma save_context_outside:
  assumes "save_context (c, k) = (c', k')" "\<not> a - (c_rsp c - 56) < 56"
  shows "k' a = k a"
proof -
  have o: "\<not> a - (c_rsp c - d) < 8" if "d \<in> {8, 16, 24, 32, 40, 48, 56}" for d
  proof
    assume l: "a - (c_rsp c - d) < 8"
    have "a - (c_rsp c - 56) = (a - (c_rsp c - d)) + (56 - d)" by simp
    moreover have "unat (a - (c_rsp c - d)) < 8" using l by (simp add: word_less_nat_alt)
    moreover have "unat (56 - d) \<le> 48" using that by auto
    moreover have "unat (x + y) < 56" if "unat x < 8" "unat y \<le> 48" for x y :: u64
      using that unat_plus_if' [of x y] by simp
    ultimately have "unat (a - (c_rsp c - 56)) < 56" by metis
    with assms(2) show False by (simp add: word_less_nat_alt)
  qed
  show ?thesis using assms(1) by (auto simp: save_context_eq wr64_outside o)
qed

lemma restore_context_frame:
  "restore_context (c, k) = (c', k') \<Longrightarrow> frame_words k (c_rsp c) = [v15, v14, v13, v12, vbx, vbp, vip] \<Longrightarrow>
   k' = k \<and> c' = c\<lparr>c_r15 := v15, c_r14 := v14, c_r13 := v13, c_r12 := v12, c_rbx := vbx,
     c_rbp := vbp, c_rsp := c_rsp c + 56, c_rip := vip\<rparr>"
  by (auto simp: restore_context_eq frame_words_eq)

lemma setup_initial_context_frame:
  "setup_initial_context e (st, k) = (st', k') \<Longrightarrow>
   st' = st\<lparr>saved_rsp := stack_top st - 56, initialised := True\<rparr> \<and>
   frame_words k' (stack_top st - 56) = [0, 0, 0, 0, 0, 0, e]"
  by (auto simp: setup_initial_context_def Let_def frame_words_eq rd64_wr64_same rd64_wr64_minus)

section \<open>Properties of the context switch\<close>

text \<open>
  C8. Context switch. A process that is switched out and later switched back in, its saved
  frame untouched and the frame of the process it replaces elsewhere, continues where it
  stopped: same instruction pointer, stack pointer and callee-saved registers.
\<close>

theorem context_switch_resumes:
  assumes "switch_context r1 root1 (c, k) = ((c1, k1), old)"
    and "\<forall>a. a - old < 56 \<longrightarrow> k2 a = k1 a"
    and "56 \<le> old - (c_rsp c2 - 56)" and "56 \<le> (c_rsp c2 - 56) - old"
    and "switch_context old root (c2, k2) = ((c3, k3), old2)"
  shows "c_rip c3 = c_rip c \<and> c_rsp c3 = c_rsp c \<and> c_rbp c3 = c_rbp c \<and> c_rbx c3 = c_rbx c \<and>
    c_r12 c3 = c_r12 c \<and> c_r13 c3 = c_r13 c \<and> c_r14 c3 = c_r14 c \<and> c_r15 c3 = c_r15 c \<and>
    c_cr3 c3 = (if root = 0 then c_cr3 c2 else root)"
proof -
  obtain ca ka where sa: "save_context (c, k) = (ca, ka)" by fastforce
  obtain cb kb where sb: "save_context (c2, k2) = (cb, kb)" by fastforce
  note fa = save_context_frame [OF sa] and fb = save_context_frame [OF sb]
  have old: "old = c_rsp c - 56" "k1 = ka"
    using assms(1) sa fa by (auto simp: switch_context_def restore_context_eq)
  have "kb a = ka a" if "a - old < 56" for a
    using that assms(2) old save_context_outside [OF sb] words_apart [OF assms(3,4) that] by simp
  then have "frame_words kb old = frame_words ka old" by (rule frame_words_cong)
  with fa old have f: "frame_words kb old =
      [c_r15 c, c_r14 c, c_r13 c, c_r12 c, c_rbx c, c_rbp c, c_rip c]" by simp
  let ?d = "cb\<lparr>c_rsp := old, c_cr3 := (if root = 0 then c_cr3 cb else root)\<rparr>"
  have "restore_context (?d, kb) = (c3, k3)" using assms(5) sb by (simp add: switch_context_def)
  from restore_context_frame [OF this, of "c_r15 c" "c_r14 c" "c_r13 c" "c_r12 c" "c_rbx c" "c_rbp c" "c_rip c"]
    f old fb show ?thesis by simp
qed

definition demo_cpu :: "u64 \<Rightarrow> u64 \<Rightarrow> cpu" where
  "demo_cpu ip sp = \<lparr>c_rip = ip, c_rsp = sp, c_cr3 = 0x1000, c_rbp = 1, c_rbx = 2, c_r12 = 3,
     c_r13 = 4, c_r14 = 5, c_r15 = 6\<rparr>"

theorem context_switch_resumes_witness:
  "c_rip (fst (fst (switch_context 0x1fc8 0 (demo_cpu 0x99 0x4000,
     snd (fst (switch_context 0x3000 0 (demo_cpu 0x1234 0x2000, \<lambda>_. 0))))))) = 0x1234"
proof -
  obtain c1 k1 old where 1: "switch_context 0x3000 0 (demo_cpu 0x1234 0x2000, \<lambda>_. 0) = ((c1, k1), old)"
    by (metis surj_pair)
  have old: "old = 0x1fc8"
    using 1 by (auto simp: switch_context_def save_context_eq restore_context_eq demo_cpu_def)
  obtain c3 k3 o3 where 3: "switch_context 0x1fc8 0 (demo_cpu 0x99 0x4000, k1) = ((c3, k3), o3)"
    by (metis surj_pair)
  from context_switch_resumes [OF 1 _ _ _ 3 [folded old]] show ?thesis
    by (simp add: 1 3 old) (simp add: demo_cpu_def)
qed

text \<open>
  A fresh process starts at its entry point: switching to a stack prepared by
  \<open>setup_initial_context\<close> (when the frame saved for the old process is elsewhere) jumps to
  the entry with cleared registers, the whole stack free, and the process's address space.
\<close>

theorem fresh_process_starts:
  assumes "setup_initial_context entry (st, k) = (st', k')"
    and "56 \<le> saved_rsp st' - (c_rsp c - 56)" and "56 \<le> (c_rsp c - 56) - saved_rsp st'"
    and "switch_context (saved_rsp st') root (c, k') = ((c2, k2), old)"
  shows "initialised st' \<and> c_rip c2 = entry \<and> c_rsp c2 = stack_top st \<and> c_rbp c2 = 0 \<and> c_rbx c2 = 0 \<and>
    c_r12 c2 = 0 \<and> c_r13 c2 = 0 \<and> c_r14 c2 = 0 \<and> c_r15 c2 = 0 \<and>
    c_cr3 c2 = (if root = 0 then c_cr3 c else root) \<and> old = c_rsp c - 56"
proof -
  note f = setup_initial_context_frame [OF assms(1)]
  obtain cb kb where sb: "save_context (c, k') = (cb, kb)" by fastforce
  note fb = save_context_frame [OF sb]
  have "kb a = k' a" if "a - saved_rsp st' < 56" for a
    using save_context_outside [OF sb] words_apart [OF assms(2,3) that] by simp
  then have "frame_words kb (saved_rsp st') = [0, 0, 0, 0, 0, 0, entry]"
    using frame_words_cong [of "saved_rsp st'" kb k'] f by simp
  moreover have "restore_context (cb\<lparr>c_rsp := saved_rsp st', c_cr3 := (if root = 0 then c_cr3 cb else root)\<rparr>, kb)
      = (c2, k2)" using assms(4) sb by (simp add: switch_context_def)
  moreover have "old = c_rsp cb" using assms(4) sb by (simp add: switch_context_def)
  ultimately show ?thesis using restore_context_frame f fb by fastforce
qed

theorem fresh_process_starts_witness:
  "\<exists>st k c k2 old. setup_initial_context 0x42 (\<lparr>stack_base = 0x10000, saved_rsp = 0, initialised = False\<rparr>, \<lambda>_. 0) = (st, k) \<and>
     switch_context (saved_rsp st) 0x5000 (demo_cpu 0x99 0x4000, k) = ((c, k2), old) \<and>
     c_rip c = 0x42 \<and> c_cr3 c = 0x5000"
proof -
  obtain st k where 1: "setup_initial_context 0x42 (\<lparr>stack_base = 0x10000, saved_rsp = 0, initialised = False\<rparr>, \<lambda>_. 0) = (st, k)"
    by fastforce
  have s: "saved_rsp st = 0x17fc8"
    using setup_initial_context_frame [OF 1] by (simp add: stack_top_def PROCESS_KERNEL_STACK_SIZE_def)
  obtain c k2 old where 2: "switch_context (saved_rsp st) 0x5000 (demo_cpu 0x99 0x4000, k) = ((c, k2), old)"
    by (metis surj_pair)
  have "c_rip c = 0x42 \<and> c_cr3 c = 0x5000"
    using fresh_process_starts [OF 1 _ _ 2] by (simp add: s demo_cpu_def)
  with 1 2 show ?thesis by blast
qed
section \<open>The next process\<close>

definition slot_of :: "u32 \<Rightarrow> ProcessTable \<Rightarrow> nat" where
  "slot_of k t = (case find_slot k t of Some i \<Rightarrow> i | None \<Rightarrow> 0)"

definition ready_at :: "ProcessTable \<Rightarrow> nat \<Rightarrow> bool" where
  "ready_at t i \<longleftrightarrow> state (processes t ! i) = Ready"

lemma find_slot_eq: "find_slot k t = get_mut k t"
  by (simp add: find_slot_def get_mut_def)

lemma slot_of_less: "pt_wf t \<Longrightarrow> slot_of k t < 32"
  using pt_wfD(1) [of t]
  by (auto simp: slot_of_def find_slot_def position_Some_iff MAX_PROCESSES_def split: option.splits)

lemma ready_pid: "pt_wf t \<Longrightarrow> i < 32 \<Longrightarrow> ready_at t i \<Longrightarrow> pid (processes t ! i) \<noteq> 0"
  using pt_wfD(3) [of t i] by (auto simp: ready_at_def proc_wf_def MAX_PROCESSES_def)

lemma find_next_ready_eq:
  "pt_wf t \<Longrightarrow> \<not> table_held l \<Longrightarrow> find_next_ready l k t =
     map_option (\<lambda>i. pid (processes t ! ((slot_of k t + i) mod 32)))
       (find (\<lambda>i. ready_at t ((slot_of k t + i) mod 32)) [1..<33])"
proof -
  assume w: "pt_wf t" and l: "\<not> table_held l"
  have "find (\<lambda>i. pid (processes t ! ((slot_of k t + i) mod 32)) \<noteq> 0 \<and>
      state (processes t ! ((slot_of k t + i) mod 32)) = Ready) [1..<33] =
    find (\<lambda>i. ready_at t ((slot_of k t + i) mod 32)) [1..<33]"
    using ready_pid [OF w] by (intro find_upt_cong) (auto simp: ready_at_def)
  then show ?thesis using l by (simp add: find_next_ready_def Let_def slot_of_def find_slot_def)
qed

text \<open>Every slot is met on the way around the table.\<close>

lemma cyclic_reach: "c < 32 \<Longrightarrow> j < (32::nat) \<Longrightarrow> \<exists>d. 1 \<le> d \<and> d < 33 \<and> (c + d) mod 32 = j"
proof (cases "c < j")
  case True
  assume "c < 32" "j < 32"
  with True show ?thesis by (intro exI [of _ "j - c"]) auto
next
  case False
  assume "c < 32" "j < 32"
  with False have "(c + (32 + j - c)) mod 32 = j" by simp
  with False \<open>c < 32\<close> \<open>j < 32\<close> show ?thesis by (intro exI [of _ "32 + j - c"]) auto
qed

lemma find_next_ready_Some:
  assumes "pt_wf t" "\<not> table_held l"
  shows "find_next_ready l k t = Some n \<longleftrightarrow>
    (\<exists>i. 1 \<le> i \<and> i < 33 \<and> ready_at t ((slot_of k t + i) mod 32) \<and>
      (\<forall>j. 1 \<le> j \<and> j < i \<longrightarrow> \<not> ready_at t ((slot_of k t + j) mod 32)) \<and>
      n = pid (processes t ! ((slot_of k t + i) mod 32)))"
  unfolding find_next_ready_eq [OF assms] by (auto simp: find_upt_Some_iff)

lemma find_next_ready_None:
  assumes "pt_wf t" "\<not> table_held l"
  shows "find_next_ready l k t = None \<longleftrightarrow> (\<forall>i<32. \<not> ready_at t i)"
proof
  assume "find_next_ready l k t = None"
  then have n: "\<not> ready_at t ((slot_of k t + d) mod 32)" if "1 \<le> d" "d < 33" for d
    using that unfolding find_next_ready_eq [OF assms] by (simp add: find_upt_None_iff)
  show "\<forall>i<32. \<not> ready_at t i"
  proof (intro allI impI)
    fix i :: nat assume "i < 32"
    then obtain d where "1 \<le> d" "d < 33" "(slot_of k t + d) mod 32 = i"
      using cyclic_reach [OF slot_of_less [OF assms(1)]] by blast
    with n [of d] show "\<not> ready_at t i" by simp
  qed
next
  assume "\<forall>i<32. \<not> ready_at t i"
  then show "find_next_ready l k t = None"
    unfolding find_next_ready_eq [OF assms] by (simp add: find_upt_None_iff)
qed

section \<open>Process states\<close>

text \<open>Only the current process may be marked as running.\<close>

definition sched_inv :: "ProcessTable \<Rightarrow> bool" where
  "sched_inv t \<longleftrightarrow> pt_wf t \<and>
     (\<forall>i<MAX_PROCESSES. state (processes t ! i) = Running \<longrightarrow> pid (processes t ! i) = current_pid t)"

lemma with_proc_nth:
  assumes "pt_wf t" "k \<noteq> 0" "i < MAX_PROCESSES"
  shows "processes (with_proc k f t) ! i =
    (if pid (processes t ! i) = k then f (processes t ! i) else processes t ! i)"
proof (cases "get_mut k t")
  case None
  then have "pid (processes t ! i) \<noteq> k" using assms get_mut_None by blast
  with None show ?thesis by (simp add: with_proc_def)
next
  case (Some j)
  have j: "j < MAX_PROCESSES" "pid (processes t ! j) = k" using Some get_mut_Some [OF assms(1,2)] by auto
  then have "pid (processes t ! i) = k \<longleftrightarrow> i = j" using pt_wfD(5) [OF assms(1), of i j] assms by auto
  then show ?thesis using assms pt_wfD(1) [OF assms(1)] by (auto simp: with_proc_def Some modify_nth)
qed

lemma with_proc_simps [simp]:
  "next_pid (with_proc k f t) = next_pid t" "current_pid (with_proc k f t) = current_pid t"
  by (simp_all add: with_proc_def split: option.splits)

lemma with_proc_wf:
  assumes "pt_wf t" "k \<noteq> 0" "\<And>p. proc_wf p \<Longrightarrow> pid p = k \<Longrightarrow> proc_wf (f p) \<and> pid (f p) = k"
  shows "pt_wf (with_proc k f t)"
proof (cases "get_mut k t")
  case (Some i)
  then have i: "i < MAX_PROCESSES" "pid (processes t ! i) = k" using get_mut_Some [OF assms(1,2)] by auto
  then have "proc_wf (f (processes t ! i)) \<and> pid (f (processes t ! i)) = k"
    using assms(3) pt_wfD(3) [OF assms(1)] by blast
  then show ?thesis using modify_wf [OF assms(1) i(1), of f] i by (simp add: with_proc_def Some)
qed (simp add: with_proc_def assms)

lemma switch_states_nth:
  assumes "pt_wf t" "new \<noteq> 0" "os \<noteq> None \<longrightarrow> old \<noteq> 0" "i < MAX_PROCESSES"
  shows "processes (switch_states os old new t) ! i = (let p = processes t ! i in
     if pid p = new then p\<lparr>state := Running\<rparr>
     else if os \<noteq> None \<and> pid p = old \<and> state p = Running then p\<lparr>state := Ready\<rparr> else p)"
proof -
  let ?f = "\<lambda>p. if state p = Running then p\<lparr>state := Ready\<rparr> else p"
  let ?t = "if os \<noteq> None then with_proc old ?f t else t"
  have w: "pt_wf ?t" using assms by (auto intro!: with_proc_wf simp: proc_wf_def)
  have "processes ?t ! i = (if os \<noteq> None \<and> pid (processes t ! i) = old then ?f (processes t ! i) else processes t ! i)"
    using assms by (simp add: with_proc_nth)
  then show ?thesis using with_proc_nth [OF w assms(2,4), of "\<lambda>p. p\<lparr>state := Running\<rparr>"]
    by (auto simp: switch_states_def Let_def)
qed

lemma pt_wf_current [simp]: "pt_wf (t\<lparr>current_pid := k\<rparr>) = pt_wf t"
  by (simp add: pt_wf_def)

lemma switch_states_wf:
  assumes "pt_wf t" "new \<noteq> 0" "os \<noteq> None \<longrightarrow> old \<noteq> 0"
  shows "pt_wf (switch_states os old new t)"
proof -
  let ?f = "\<lambda>p. if state p = Running then p\<lparr>state := Ready\<rparr> else p"
  have w: "pt_wf (if os \<noteq> None then with_proc old ?f t else t)"
    using assms by (auto intro!: with_proc_wf simp: proc_wf_def)
  have "pt_wf (with_proc new (\<lambda>p. p\<lparr>state := Running\<rparr>) (if os \<noteq> None then with_proc old ?f t else t))"
    using assms(2) by (intro with_proc_wf [OF w]) (auto simp: proc_wf_def)
  then show ?thesis unfolding switch_states_def Let_def pt_wf_current .
qed

lemma switch_states_current [simp]: "current_pid (switch_states os old new t) = new"
  by (simp add: switch_states_def Let_def)

lemma switch_states_inv:
  assumes "sched_inv t" "new \<noteq> 0"
    and "os = (if current_pid t = 0 then None else find_slot (current_pid t) t)"
  shows "sched_inv (switch_states os (current_pid t) new t)"
proof -
  have w: "pt_wf t" using assms(1) by (simp add: sched_inv_def)
  have o: "os \<noteq> None \<longrightarrow> current_pid t \<noteq> 0" using assms(3) by auto
  have "pid (processes t ! i) = new"
    if i: "i < MAX_PROCESSES" and r: "state (processes (switch_states os (current_pid t) new t) ! i) = Running" for i
  proof (rule ccontr)
    assume n: "pid (processes t ! i) \<noteq> new"
    with r i have rr: "state (processes t ! i) = Running" "\<not> (os \<noteq> None \<and> pid (processes t ! i) = current_pid t)"
      using switch_states_nth [OF w assms(2) o i] by (auto simp: Let_def split: if_splits)
    then have c: "pid (processes t ! i) = current_pid t" using assms(1) i by (simp add: sched_inv_def)
    have "pid (processes t ! i) \<noteq> 0" using pt_wfD(3) [OF w i] rr by (auto simp: proc_wf_def)
    then have "os \<noteq> None" using c assms(3) i get_mut_None [OF w] by (auto simp: find_slot_eq)
    with rr c show False by simp
  qed
  moreover have "pid (processes (switch_states os (current_pid t) new t) ! i) = pid (processes t ! i)"
    if "i < MAX_PROCESSES" for i
    using switch_states_nth [OF w assms(2) o that] by (simp add: Let_def)
  ultimately show ?thesis unfolding sched_inv_def
    using switch_states_wf [OF w assms(2) o] by simp
qed
lemma sched_inv_map:
  "sched_inv t \<longleftrightarrow> pt_wf t \<and> (\<forall>k p. proc_map t k = Some p \<and> state p = Running \<longrightarrow> k = current_pid t)"
proof (cases "pt_wf t")
  case True
  have "pid (processes t ! i) \<noteq> 0" if "i < MAX_PROCESSES" "state (processes t ! i) = Running" for i
    using pt_wfD(3) [OF True that(1)] that(2) by (auto simp: proc_wf_def)
  then show ?thesis unfolding sched_inv_def proc_map_Some_iff [OF True] using True by blast
qed (simp add: sched_inv_def)

lemma sched_inv_wf: "sched_inv t \<Longrightarrow> pt_wf t"
  by (simp add: sched_inv_def)

text \<open>An operation keeps the invariant when no process becomes running.\<close>

lemma sched_inv_mono:
  assumes "sched_inv t" "pt_wf t'" "current_pid t' = current_pid t"
    and "\<And>k p. proc_map t' k = Some p \<Longrightarrow> state p = Running \<Longrightarrow>
      \<exists>q. proc_map t k = Some q \<and> state q = Running"
  shows "sched_inv t'"
  using assms unfolding sched_inv_map by metis

lemma with_proc_map:
  assumes "pt_wf t" "k \<noteq> 0" "\<And>p. proc_wf p \<Longrightarrow> pid p = k \<Longrightarrow> proc_wf (f p) \<and> pid (f p) = k"
  shows "proc_map (with_proc k f t) =
    (case proc_map t k of None \<Rightarrow> proc_map t | Some p \<Rightarrow> (proc_map t)(k \<mapsto> f p))"
proof (cases "get_mut k t")
  case None
  then show ?thesis by (simp add: with_proc_def proc_map_def get_eq_get_mut)
next
  case (Some i)
  have "pid (processes t ! i) = k" using Some get_mut_Some [OF assms(1,2)] by auto
  then have "proc_wf (f (processes t ! i)) \<and> pid (f (processes t ! i)) = pid (processes t ! i)"
    using assms(3) get_mut_proc [OF assms(1) Some] by simp
  with modify_get_mut [OF assms(1,2) Some, of f] show ?thesis by (auto simp: with_proc_def Some)
qed

lemma demote_inv:
  assumes "sched_inv t" "k \<noteq> 0" "s \<noteq> Running" "s \<noteq> PFree"
  shows "sched_inv (with_proc k (\<lambda>p. if c p then p\<lparr>state := s\<rparr> else p) t)"
proof (rule sched_inv_mono [OF assms(1)])
  note w = sched_inv_wf [OF assms(1)]
  let ?f = "\<lambda>p. if c p then p\<lparr>state := s\<rparr> else p"
  have f: "proc_wf (?f p) \<and> pid (?f p) = k" if "proc_wf p" "pid p = k" for p
    using that assms(2,4) by (simp add: proc_wf_def)
  show "pt_wf (with_proc k ?f t)" using f by (intro with_proc_wf [OF w assms(2)])
  show "current_pid (with_proc k ?f t) = current_pid t" by simp
  fix j p assume "proc_map (with_proc k ?f t) j = Some p" "state p = Running"
  then show "\<exists>q. proc_map t j = Some q \<and> state q = Running"
    using with_proc_map [OF w assms(2), of ?f] f assms(3) by (auto split: option.splits if_splits)
qed

lemma do_context_switch_total:
  "\<not> table_held l \<Longrightarrow> do_context_switch l old new m \<noteq> None"
  by (simp add: do_context_switch_def Let_def split: option.splits prod.splits)

lemma do_context_switch_inv:
  assumes i: "sched_inv (table m)" and n: "new \<noteq> 0"
    and d: "do_context_switch l (current_pid (table m)) new m = Some m'"
  shows "sched_inv (table m')"
proof -
  let ?os = "if current_pid (table m) = 0 then None else find_slot (current_pid (table m)) (table m)"
  have "table m' \<in> {table m, with_proc new (\<lambda>p. if state p = Ready then p\<lparr>state := Blocked\<rparr> else p) (table m),
      switch_states ?os (current_pid (table m)) new (table m)}"
    using d by (auto simp: do_context_switch_def Let_def split: option.splits prod.splits if_splits)
  then show ?thesis using i demote_inv [OF i n] switch_states_inv [OF i n refl] by auto
qed

lemma find_next_ready_nonzero:
  "find_next_ready l k t = Some n \<Longrightarrow> n \<noteq> 0"
  by (auto simp: find_next_ready_def Let_def find_upt_Some_iff split: if_splits)

lemma schedule_inv: "sched_inv (table m) \<Longrightarrow> schedule l m = Some m' \<Longrightarrow> sched_inv (table m')"
  by (auto simp: schedule_def Let_def split: option.splits if_splits
      dest: find_next_ready_nonzero intro: do_context_switch_inv)

lemma switch_to_next_inv: "sched_inv (table m) \<Longrightarrow> switch_to_next l m = Some m' \<Longrightarrow> sched_inv (table m')"
  by (auto simp: switch_to_next_def Let_def split: option.splits if_splits
      dest: find_next_ready_nonzero intro: do_context_switch_inv)

lemma yield_now_inv: "sched_inv (table m) \<Longrightarrow> yield_now l m = Some m' \<Longrightarrow> sched_inv (table m')"
  using schedule_inv by (auto simp: yield_now_def split: if_splits)

lemma restart_current_inv: "sched_inv (table m) \<Longrightarrow> restart_current l m = Some m' \<Longrightarrow> sched_inv (table m')"
  using do_context_switch_inv [of m "current_pid (table m)" l m']
  by (auto simp: restart_current_def Let_def split: if_splits)

lemma deliver_pending_inv: "sched_inv t \<Longrightarrow> sched_inv (deliver_pending_into t)"
proof (rule sched_inv_mono)
  assume i: "sched_inv t"
  note d = deliver_pending_spec [OF sched_inv_wf [OF i]]
  then show "pt_wf (deliver_pending_into t)" "current_pid (deliver_pending_into t) = current_pid t" by auto
  fix k p assume "proc_map (deliver_pending_into t) k = Some p" "state p = Running"
  then show "\<exists>q. proc_map t k = Some q \<and> state q = Running"
    using d by (auto simp: deliver_to_cases split: option.splits if_splits)
qed

lemma schedule_total: "\<not> sched_held l \<Longrightarrow> schedule l m \<noteq> None"
  using do_context_switch_total by (simp add: schedule_def Let_def split: option.splits)

lemma schedule_locked: "table_held l \<Longrightarrow> schedule l m = Some m"
  by (simp add: schedule_def)

text \<open>The tick in terms of the counted slice and the delivered signals.\<close>

definition count_slice :: "machine \<Rightarrow> machine" where
  "count_slice m = (if current_slice (sched m) > 0
     then m\<lparr>sched := (sched m)\<lparr>current_slice := current_slice (sched m) - 1\<rparr>\<rparr> else m)"

definition deliver :: "machine \<Rightarrow> machine" where
  "deliver m = m\<lparr>table := deliver_pending_into (table m)\<rparr>"

lemma count_slice_simps [simp]:
  "table (count_slice m) = table m" "processor (count_slice m) = processor m" "kmem (count_slice m) = kmem m"
  "stacks (count_slice m) = stacks m"
  by (simp_all add: count_slice_def)

lemma on_timer_tick_result:
  "on_timer_tick l m \<in> {Some m, Some (count_slice m)} \<union>
     (if sched_held l then {} else {schedule l (count_slice m)}) \<union>
     (if sched_held l \<or> table_held l then {}
      else {schedule l (deliver (count_slice m)), Some (deliver (count_slice m))})"
  unfolding on_timer_tick_def Let_def count_slice_def [symmetric] deliver_def [symmetric] by auto

lemma on_timer_tick_total: "on_timer_tick l m \<noteq> None"
  using on_timer_tick_result [of l m] schedule_total [of l] by (auto split: if_splits)

lemma on_timer_tick_inv:
  "sched_inv (table m) \<Longrightarrow> on_timer_tick l m = Some m' \<Longrightarrow> sched_inv (table m')"
  using on_timer_tick_result [of l m] schedule_inv [of "count_slice m" l m']
    schedule_inv [of "deliver (count_slice m)" l m'] deliver_pending_inv [of "table m"]
  by (auto simp: deliver_def split: if_splits)

lemma on_timer_tick_locked:
  "table_held l \<Longrightarrow> on_timer_tick l m \<in> {Some m, Some (count_slice m)}"
  using on_timer_tick_result [of l m] by (auto simp: schedule_locked split: if_splits)

section \<open>The kernel as a transition system\<close>

text \<open>The scheduler's entry points, with whatever locks the interrupted code holds, and the
  process table operations of the rest of the kernel, in any order.\<close>

inductive kstep :: "machine \<times> memory \<Rightarrow> machine \<times> memory \<Rightarrow> bool" where
  step_tick: "on_timer_tick l m = Some m' \<Longrightarrow> kstep (m, pm) (m', pm)"
| step_yield: "yield_now l m = Some m' \<Longrightarrow> kstep (m, pm) (m', pm)"
| step_leave: "switch_to_next l m = Some m' \<Longrightarrow> kstep (m, pm) (m', pm)"
| step_restart: "restart_current l m = Some m' \<Longrightarrow> kstep (m, pm) (m', pm)"
| step_start: "kstep (m, pm) (start_scheduler m, pm)"
| step_stack: "kstep (m, pm) (init_process_stack slot e m, pm)"
| step_alloc: "next_pid (table m) + 1 \<noteq> 0 \<Longrightarrow> alloc parent nm (table m) = (t', k) \<Longrightarrow>
    kstep (m, pm) (m\<lparr>table := t'\<rparr>, pm)"
| step_ready: "k \<noteq> 0 \<Longrightarrow> kstep (m, pm) (m\<lparr>table := with_proc k (\<lambda>p. p\<lparr>state := Ready\<rparr>) (table m)\<rparr>, pm)"
| step_exit: "k \<noteq> 0 \<Longrightarrow> kstep (m, pm) (m\<lparr>table := fst (mark_exit k code (table m))\<rparr>, pm)"
| step_kill: "kstep (m, pm) (m\<lparr>table := fst (sys_kill k sig (table m))\<rparr>, pm)"
| step_free: "k \<noteq> 0 \<Longrightarrow> free_process k (table m, pm) = ((t', pm'), b) \<Longrightarrow>
    kstep (m, pm) (m\<lparr>table := t'\<rparr>, pm')"
| step_reap: "reap_zombies (table m, pm) = (t', pm') \<Longrightarrow> kstep (m, pm) (m\<lparr>table := t'\<rparr>, pm')"

inductive kreach :: "machine \<times> memory \<Rightarrow> machine \<times> memory \<Rightarrow> bool" where
  kreach_refl: "kreach s s"
| kreach_step: "kreach s s' \<Longrightarrow> kstep s' s'' \<Longrightarrow> kreach s s''"

lemma mark_exit_current [simp]: "current_pid (fst (mark_exit k code t)) = current_pid t"
  by (simp add: mark_exit_def split: option.splits)

lemma send_signal_current [simp]:
  "current_pid (fst (send_signal k sig t)) = current_pid t"
  by (simp add: send_signal_def pt_send_signal_def split: option.splits)

lemma fst_sys_kill: "fst (sys_kill k sig t) = t \<or> k \<noteq> 0 \<and> fst (sys_kill k sig t) = fst (send_signal k sig t)"
  by (cases "send_signal k sig t") (auto simp: sys_kill_def split: bool.splits)

lemma free_process_current:
  "current_pid (fst (fst (free_process k s))) = current_pid (fst s)"
  by (auto simp: free_process_def free_slot_def split: option.splits prod.splits)

lemma send_signal_inv:
  assumes i: "sched_inv t" and k: "k \<noteq> 0"
  shows "sched_inv (fst (send_signal k sig t))"
proof (rule sched_inv_mono [OF i])
  note w = sched_inv_wf [OF i]
  show "current_pid (fst (send_signal k sig t)) = current_pid t" by simp
  show "pt_wf (fst (send_signal k sig t))"
    using send_signal_kill_spec [OF w k, of sig] pt_send_signal_spec [OF w k, of sig] w
    by (cases "sig = SIGKILL \<or> sig = SIGTERM") (auto simp: send_signal_def split: option.splits if_splits)
  fix j p assume "proc_map (fst (send_signal k sig t)) j = Some p" "state p = Running"
  then show "\<exists>q. proc_map t j = Some q \<and> state q = Running"
    using send_signal_kill_spec [OF w k, of sig] pt_send_signal_spec [OF w k, of sig]
    by (cases "sig = SIGKILL \<or> sig = SIGTERM") (auto simp: send_signal_def split: option.splits if_splits)
qed

lemma sys_kill_inv: "sched_inv t \<Longrightarrow> sched_inv (fst (sys_kill k sig t))"
  using fst_sys_kill [of k sig t] send_signal_inv [of t k sig] by auto

lemma mark_exit_inv: "sched_inv t \<Longrightarrow> k \<noteq> 0 \<Longrightarrow> sched_inv (fst (mark_exit k code t))"
proof (rule sched_inv_mono)
  assume i: "sched_inv t" and k: "k \<noteq> 0"
  note d = mark_exit_spec [OF sched_inv_wf [OF i] k, of code]
  then show "pt_wf (fst (mark_exit k code t))" by blast
  fix j p assume "proc_map (fst (mark_exit k code t)) j = Some p" "state p = Running"
  then show "\<exists>q. proc_map t j = Some q \<and> state q = Running"
    using d by (auto split: option.splits if_splits)
qed simp_all

lemma alloc_inv:
  assumes i: "sched_inv t" and r: "next_pid t + 1 \<noteq> 0" and a: "alloc parent nm t = (t', k)"
  shows "sched_inv t'"
proof (cases "k = 0")
  case True
  then show ?thesis using alloc_zero [OF sched_inv_wf [OF i]] a i by auto
next
  case False
  note s = alloc_spec [OF sched_inv_wf [OF i] r a False]
  have "state (new_process k parent nm) = Blocked" by (simp add: new_process_def)
  then show ?thesis using s by (intro sched_inv_mono [OF i]) (auto split: if_splits)
qed

lemma free_process_inv:
  assumes i: "sched_inv t" and k: "k \<noteq> 0"
  shows "sched_inv (fst (fst (free_process k (t, m))))"
proof (rule sched_inv_mono [OF i])
  have w: "pt_wf (fst (t, m))" using sched_inv_wf [OF i] by simp
  note f = free_process_spec [OF w k]
  show "pt_wf (fst (fst (free_process k (t, m))))" by (rule f(1))
  show "current_pid (fst (fst (free_process k (t, m)))) = current_pid t"
    using free_process_current [of k "(t, m)"] by simp
  fix j p assume "proc_map (fst (fst (free_process k (t, m)))) j = Some p" "state p = Running"
  then show "\<exists>q. proc_map t j = Some q \<and> state q = Running"
    unfolding f(2) by (auto split: if_splits)
qed

lemma reap_zombies_inv: "sched_inv t \<Longrightarrow> sched_inv (fst (reap_zombies (t, m)))"
proof (rule sched_inv_mono)
  assume i: "sched_inv t"
  note w = sched_inv_wf [OF i]
  show "pt_wf (fst (reap_zombies (t, m)))" by (rule reap_zombies_wf [OF w])
  show "current_pid (fst (reap_zombies (t, m))) = current_pid t"
    using reap_prefix [of MAX_PROCESSES t m] pt_wfD(1) [OF w] by (simp add: reap_zombies_eq)
  fix k p assume "proc_map (fst (reap_zombies (t, m))) k = Some p" "state p = Running"
  then show "\<exists>q. proc_map t k = Some q \<and> state q = Running"
    by (auto simp: reap_zombies_map [OF w] split: option.splits if_splits)
qed

lemma kstep_inv: "kstep s s' \<Longrightarrow> sched_inv (table (fst s)) \<Longrightarrow> sched_inv (table (fst s'))"
proof (induction rule: kstep.induct)
  case (step_ready k m pm)
  then show ?case using demote_inv [of "table m" k Ready "\<lambda>_. True"] by simp
next
  case (step_free k m pm t' pm' b)
  then show ?case using free_process_inv [of "table m" k pm] by simp
next
  case (step_reap m pm t' pm')
  then show ?case using reap_zombies_inv [of "table m" pm] by simp
qed (auto simp: start_scheduler_def init_process_stack_def split: prod.splits
      intro: on_timer_tick_inv yield_now_inv switch_to_next_inv restart_current_inv alloc_inv
        mark_exit_inv sys_kill_inv)

lemma kreach_inv: "kreach s s' \<Longrightarrow> sched_inv (table (fst s)) \<Longrightarrow> sched_inv (table (fst s'))"
  by (induction rule: kreach.induct) (auto intro: kstep_inv)


section \<open>Fairness\<close>

text \<open>No lock held: what the scheduler sees when it is called from a system call.\<close>

definition no_locks :: locks where
  "no_locks = \<lparr>table_held = False, sched_held = False, stacks_held = False\<rparr>"

fun run_schedule :: "nat \<Rightarrow> machine \<Rightarrow> machine option" where
  "run_schedule 0 m = Some m"
| "run_schedule (Suc n) m = (case schedule no_locks m of None \<Rightarrow> None | Some m' \<Rightarrow> run_schedule n m')"

definition all_initialised :: "machine \<Rightarrow> bool" where
  "all_initialised m \<longleftrightarrow> length (stacks m) = 32 \<and> (\<forall>i<32. initialised (stacks m ! i))"

lemma slot_of_pid:
  "pt_wf t \<Longrightarrow> i < 32 \<Longrightarrow> pid (processes t ! i) = k \<Longrightarrow> k \<noteq> 0 \<Longrightarrow> slot_of k t = i"
  using get_mut_Some [of t k i] by (simp add: slot_of_def find_slot_eq MAX_PROCESSES_def)

lemma nth_list_update': "i < length xs \<Longrightarrow> xs[j := x] ! i = (if i = j then x else xs ! i)"
  by (simp add: nth_list_update)

lemma store_rsp_simps [simp]:
  "length (store_rsp os r sts) = length sts"
  "i < length sts \<Longrightarrow> initialised (store_rsp os r sts ! i) = initialised (sts ! i)"
  by (auto simp: store_rsp_def nth_list_update' split: option.splits)

text \<open>One round of the scheduler with every stack in place.\<close>

lemma schedule_switches:
  assumes i: "sched_inv (table m)" and a: "all_initialised m"
    and n: "find_next_ready no_locks (current_pid (table m)) (table m) = Some next"
    and ne: "next \<noteq> current_pid (table m)"
  shows "\<exists>m'. schedule no_locks m = Some m' \<and> all_initialised m' \<and>
    table m' = switch_states (if current_pid (table m) = 0 then None
      else find_slot (current_pid (table m)) (table m)) (current_pid (table m)) next (table m)"
proof -
  note w = sched_inv_wf [OF i]
  from n obtain d where d: "next = pid (processes (table m) ! ((slot_of (current_pid (table m)) (table m) + d) mod 32))"
    using find_next_ready_Some [OF w, of no_locks] by (auto simp: no_locks_def)
  define j where "j = (slot_of (current_pid (table m)) (table m) + d) mod 32"
  have j: "j < 32" "pid (processes (table m) ! j) = next" using d by (simp_all add: j_def)
  have s: "find_slot next (table m) = Some j"
    using get_mut_Some [OF w find_next_ready_nonzero [OF n]] j by (simp add: find_slot_eq MAX_PROCESSES_def)
  have "initialised (stacks m ! j)" using a j by (simp add: all_initialised_def)
  then show ?thesis using n ne s a
    by (auto simp: schedule_def do_context_switch_def no_locks_def Let_def all_initialised_def
        split: prod.splits)
qed

lemma fair_round:
  assumes "sched_inv (table m)" "all_initialised m" "ready_at (table m) j" "j < 32"
    and "(slot_of (current_pid (table m)) (table m) + d) mod 32 = j" "1 \<le> d" "d < 33"
  shows "\<exists>n m'. n \<le> d \<and> run_schedule n m = Some m' \<and> current_pid (table m') = pid (processes (table m) ! j)"
  using assms
proof (induction d arbitrary: m rule: less_induct)
  case (less d)
  let ?t = "table m" and ?c = "current_pid (table m)"
  let ?s = "slot_of ?c ?t"
  note w = sched_inv_wf [OF less.prems(1)]
  have nl: "\<not> table_held no_locks" by (simp add: no_locks_def)
  have "find_next_ready no_locks ?c ?t \<noteq> None"
    using find_next_ready_None [OF w nl] less.prems(3,4) by blast
  then obtain nx where nx: "find_next_ready no_locks ?c ?t = Some nx" by blast
  then obtain i where i: "1 \<le> i" "i < 33" "ready_at ?t ((?s + i) mod 32)"
      "\<forall>e. 1 \<le> e \<and> e < i \<longrightarrow> \<not> ready_at ?t ((?s + e) mod 32)" "nx = pid (processes ?t ! ((?s + i) mod 32))"
    using find_next_ready_Some [OF w nl] by blast
  have id: "i \<le> d" using i(4) less.prems(3,5,6) by (metis not_le)
  have nz: "nx \<noteq> 0" by (rule find_next_ready_nonzero [OF nx])
  have jm: "(?s + i) mod 32 < 32" by simp
  have sl: "slot_of nx ?t = (?s + i) mod 32" by (rule slot_of_pid [OF w jm i(5) [symmetric] nz])
  show ?case
  proof (cases "nx = ?c")
    case True
    then have "?s = (?s + i) mod 32" using sl by simp
    then have "i = 32" using i(1,2) slot_of_less [OF w, of ?c] by (auto simp: mod_if split: if_splits)
    then have "d = 32" using id less.prems(7) by simp
    then have "j = ?s" using less.prems(5) slot_of_less [OF w, of ?c] by simp
    then have "pid (processes ?t ! j) = ?c" using i(5) sl True by simp
    then show ?thesis by (intro exI [of _ 0] exI [of _ m]) simp
  next
    case False
    from schedule_switches [OF less.prems(1,2) nx False] obtain m' where m':
      "schedule no_locks m = Some m'" "all_initialised m'"
      "table m' = switch_states (if ?c = 0 then None else find_slot ?c ?t) ?c nx ?t" by blast
    have inv': "sched_inv (table m')" using schedule_inv [OF less.prems(1) m'(1)] .
    have c': "current_pid (table m') = nx" by (simp add: m'(3))
    show ?thesis
    proof (cases "i = d")
      case True
      then have "run_schedule 1 m = Some m'" "current_pid (table m') = pid (processes ?t ! j)"
        using m' c' i(5) less.prems(5) by simp_all
      then show ?thesis using less.prems(6) by blast
    next
      case False
      then have lt: "d - i < d" "1 \<le> d - i" "d - i < 33" using i(1) id less.prems(7) by auto
      have o: "(if ?c = 0 then None else find_slot ?c ?t) \<noteq> None \<longrightarrow> ?c \<noteq> 0" by auto
      note nth = switch_states_nth [OF w nz o, folded m'(3)]
      have st: "pid (processes (table m') ! e) = pid (processes ?t ! e)" if "e < 32" for e
        using nth [of e] that by (simp add: Let_def MAX_PROCESSES_def split: if_splits)
      have "pid (processes ?t ! j) \<noteq> nx"
      proof
        assume "pid (processes ?t ! j) = nx"
        then have "j = (?s + i) mod 32" using slot_of_pid [OF w less.prems(4) _ nz] sl by simp
        then have "(?s + d) mod 32 = (?s + i) mod 32" using less.prems(5) by simp
        then have "(d - i) mod 32 = 0" using id by (metis add_diff_cancel_left mod_eq_dvd_iff_nat add_le_cancel_left dvd_imp_mod_0)
        then show False using lt False i(1) less.prems(7) by (auto simp: mod_if split: if_splits)
      qed
      then have rj: "ready_at (table m') j"
        using nth [of j] less.prems(3,4) by (simp add: ready_at_def Let_def MAX_PROCESSES_def split: if_splits)
      have "slot_of nx (table m') = (?s + i) mod 32"
        using slot_of_pid [OF sched_inv_wf [OF inv'] jm _ nz] st [OF jm] i(5) by simp
      moreover have "((?s + i) mod 32 + (d - i)) mod 32 = (?s + i + (d - i)) mod 32" by (rule mod_add_left_eq)
      ultimately have "(slot_of (current_pid (table m')) (table m') + (d - i)) mod 32 = j"
        using less.prems(5) id c' by simp
      from less.IH [OF lt(1) inv' m'(2) rj less.prems(4) this lt(2,3)] obtain n m'' where
        "n \<le> d - i" "run_schedule n m' = Some m''" "current_pid (table m'') = pid (processes ?t ! j)"
        using st [OF less.prems(4)] by auto
      then show ?thesis using m'(1) i(1) id by (intro exI [of _ "Suc n"] exI [of _ m'']) auto
    qed
  qed
qed

definition demo_machine :: machine where
  "demo_machine = \<lparr>table = demo_table, sched = \<lparr>current_slice = 5, default_slice = 5, active = True\<rparr>,
     stacks = replicate 32 \<lparr>stack_base = 0, saved_rsp = 0x100, initialised = True\<rparr>, tss_rsp0 = 0,
     processor = demo_cpu 0 0x4000, kmem = (\<lambda>_. 0)\<rparr>"

lemma demo_machine_inv: "sched_inv (table demo_machine)"
  unfolding sched_inv_map by (auto simp: demo_machine_def demo_table_wf demo_table_map split: if_splits)

section \<open>Properties of the scheduler\<close>

text \<open>
  Round robin. The next process is the first ready one after the current slot, going
  around the table (the current one last); there is none exactly when no process is ready.
\<close>

theorem find_next_ready_correct:
  assumes "pt_wf t" and "\<not> table_held l"
  shows "(case find_next_ready l k t of
      None \<Rightarrow> (\<forall>j p. proc_map t j = Some p \<longrightarrow> state p \<noteq> Ready)
    | Some n \<Rightarrow> (\<exists>i. 1 \<le> i \<and> i \<le> 32 \<and> n = pid (processes t ! ((slot_of k t + i) mod 32)) \<and>
        map_option state (proc_map t n) = Some Ready \<and>
        (\<forall>j. 1 \<le> j \<and> j < i \<longrightarrow> state (processes t ! ((slot_of k t + j) mod 32)) \<noteq> Ready)))"
proof (cases "find_next_ready l k t")
  case None
  then have "\<forall>i<32. \<not> ready_at t i" using find_next_ready_None [OF assms] by simp
  then show ?thesis using None by (auto simp: proc_map_Some_iff [OF assms(1)] ready_at_def MAX_PROCESSES_def)
next
  case (Some n)
  then obtain i where i: "1 \<le> i" "i < 33" "ready_at t ((slot_of k t + i) mod 32)"
      "\<forall>j. 1 \<le> j \<and> j < i \<longrightarrow> \<not> ready_at t ((slot_of k t + j) mod 32)"
      "n = pid (processes t ! ((slot_of k t + i) mod 32))"
    using find_next_ready_Some [OF assms] by blast
  have "proc_map t n = Some (processes t ! ((slot_of k t + i) mod 32))"
    using proc_map_nth [OF assms(1)] find_next_ready_nonzero [OF Some] i(5) by (simp add: MAX_PROCESSES_def)
  with Some i show ?thesis by (auto simp: ready_at_def)
qed

theorem find_next_ready_correct_witness: "find_next_ready no_locks 0 demo_table = None"
  using find_next_ready_correct [OF demo_table_wf, of no_locks 0]
  by (auto simp: no_locks_def demo_table_map split: option.splits if_splits)

text \<open>
  Lock safety of the timer interrupt. Whatever locks the interrupted code holds, the
  tick returns; while the process table is locked it changes neither the table nor the
  processor nor any stack.
\<close>

theorem on_timer_tick_lock_safe:
  "\<exists>m'. on_timer_tick l m = Some m' \<and>
     (\<not> table_held l \<or> (table m' = table m \<and> processor m' = processor m \<and>
        kmem m' = kmem m \<and> stacks m' = stacks m))"
proof -
  obtain m' where m': "on_timer_tick l m = Some m'" using on_timer_tick_total by blast
  then show ?thesis using on_timer_tick_locked [of l m] by (cases "table_held l") auto
qed

theorem on_timer_tick_lock_safe_witness:
  "\<exists>m'. on_timer_tick \<lparr>table_held = True, sched_held = False, stacks_held = False\<rparr> demo_machine = Some m' \<and>
     table m' = table demo_machine"
  using on_timer_tick_lock_safe [of "\<lparr>table_held = True, sched_held = False, stacks_held = False\<rparr>" demo_machine]
  by auto

text \<open>
  C2. Mutual exclusion of the processor. Along every sequence of timer ticks, yields,
  process creations, exits, signals and releases, with any interleaving and any locks held,
  the table stays well formed and no process but the current one is marked as running.
\<close>

theorem at_most_one_running:
  assumes "kreach (m, pm) (m', pm')" and "sched_inv (table m)"
  shows "pt_wf (table m') \<and>
    (\<forall>k p j q. proc_map (table m') k = Some p \<and> state p = Running \<and>
       proc_map (table m') j = Some q \<and> state q = Running \<longrightarrow> k = j \<and> k = current_pid (table m'))"
proof -
  have "sched_inv (table m')" using kreach_inv [OF assms(1)] assms(2) by simp
  then show ?thesis unfolding sched_inv_map by auto
qed

theorem at_most_one_running_witness:
  "\<exists>m'. kreach (demo_machine, demo_memory) (m', demo_memory) \<and> pt_wf (table m')"
proof -
  obtain m' where "on_timer_tick no_locks demo_machine = Some m'" using on_timer_tick_total by blast
  then have r: "kreach (demo_machine, demo_memory) (m', demo_memory)"
    by (blast intro: kreach_refl kreach_step step_tick)
  with at_most_one_running [OF r demo_machine_inv] show ?thesis by blast
qed


end
