(* ===== verification/File_Ops.thy ===== *)
theory File_Ops
  imports Interfaces "HOL-Library.List_Lexorder"
begin

text \<open>
  What file systems have in common, from \<^verbatim>\<open>kernel/src/fs/mod.rs\<close>: file types, directory
  entries and the trait \<^verbatim>\<open>FileOps\<close>, as a record of operations on a state, with its
  contract as a locale. Names and paths are byte sequences. An index that panics is the error
  \<open>panic\<close>: the kernel stops there.
\<close>

section \<open>The trait\<close>

datatype FileType = Regular | Directory | CharDevice | BlockDevice

record DirEntry =
  de_name :: bytes
  de_inode :: u64
  de_type :: FileType

text \<open>\<open>read inode offset n\<close> yields the bytes that the call puts at the start of a buffer of
  length \<open>n\<close>.\<close>

record 's FileOps =
  fo_read :: "u64 \<Rightarrow> u64 \<Rightarrow> nat \<Rightarrow> 's \<Rightarrow> 's \<times> bytes result"
  fo_write :: "u64 \<Rightarrow> u64 \<Rightarrow> bytes \<Rightarrow> 's \<Rightarrow> 's \<times> nat result"
  fo_size :: "u64 \<Rightarrow> 's \<Rightarrow> u64"
  fo_file_type :: "u64 \<Rightarrow> 's \<Rightarrow> FileType"
  fo_readdir :: "u64 \<Rightarrow> 's \<Rightarrow> 's \<times> DirEntry list result"
  fo_lookup :: "u64 \<Rightarrow> bytes \<Rightarrow> 's \<Rightarrow> 's \<times> u64 result"
  fo_create :: "u64 \<Rightarrow> bytes \<Rightarrow> 's \<Rightarrow> 's \<times> u64 result"
  fo_mkdir :: "u64 \<Rightarrow> bytes \<Rightarrow> 's \<Rightarrow> 's \<times> u64 result"
  fo_truncate :: "u64 \<Rightarrow> u64 \<Rightarrow> 's \<Rightarrow> 's \<times> unit result"
  fo_unlink :: "u64 \<Rightarrow> bytes \<Rightarrow> 's \<Rightarrow> 's \<times> unit result"

definition panic :: string where "panic = ''panic''"

section \<open>Ordered maps\<close>

text \<open>\<^verbatim>\<open>BTreeMap\<close> where its iteration order shows: an association list sorted by key.\<close>

fun bt_insert :: "'k::linorder \<Rightarrow> 'v \<Rightarrow> ('k \<times> 'v) list \<Rightarrow> ('k \<times> 'v) list" where
  "bt_insert k v [] = [(k, v)]"
| "bt_insert k v ((k', v') # m) =
     (if k < k' then (k, v) # (k', v') # m
      else if k = k' then (k, v) # m
      else (k', v') # bt_insert k v m)"

definition bt_remove :: "'k \<Rightarrow> ('k \<times> 'v) list \<Rightarrow> ('k \<times> 'v) list" where
  "bt_remove k m = filter (\<lambda>(k', _). k' \<noteq> k) m"

definition bt_wf :: "('k::linorder \<times> 'v) list \<Rightarrow> bool" where
  "bt_wf m \<longleftrightarrow> sorted_wrt (<) (map fst m)"

lemma map_of_bt_insert [simp]: "bt_wf m \<Longrightarrow> map_of (bt_insert k v m) = (map_of m)(k \<mapsto> v)"
  by (induction k v m rule: bt_insert.induct) (auto simp: bt_wf_def fun_eq_iff)

lemma set_bt_insert: "fst ` set (bt_insert k v m) = insert k (fst ` set m)"
  by (induction k v m rule: bt_insert.induct) auto

lemma bt_insert_wf [wf_intros]: "bt_wf m \<Longrightarrow> bt_wf (bt_insert k v m)"
proof (induction k v m rule: bt_insert.induct)
  case (2 k v k' v' m)
  have "k' < a" if "\<forall>x\<in>set m. k' < fst x" "k' < k" "(a, b) \<in> set (bt_insert k v m)" for a b
    using that set_bt_insert [of k v m] by (metis fst_conv image_iff insert_iff)
  with 2 show ?case by (auto simp: bt_wf_def)
qed (simp add: bt_wf_def)

lemma bt_remove_wf [wf_intros]: "bt_wf m \<Longrightarrow> bt_wf (bt_remove k m)"
  by (induction m) (auto simp: bt_wf_def bt_remove_def)

lemma map_of_bt_remove [simp]: "map_of (bt_remove k m) = (map_of m)(k := None)"
  by (induction m) (auto simp: bt_remove_def fun_eq_iff)

section \<open>The contract\<close>

text \<open>
  \<open>contents s\<close> maps the inodes of regular files to their bytes, \<open>entries_of s\<close> the inodes
  of directories to their names. \<open>size_ok\<close> bounds what the state has memory for.
\<close>

definition overwrite :: "nat \<Rightarrow> bytes \<Rightarrow> bytes \<Rightarrow> bytes" where
  "overwrite off b d = splice off b (d @ replicate (off + length b - length d) 0)"

lemma overwrite_read: "take (length b) (drop off (overwrite off b d)) = b"
  by (simp add: overwrite_def splice_def)

lemma overwrite_append: "overwrite (length d) b d = d @ b"
  by (simp add: overwrite_def splice_def)

lemma length_overwrite: "length (overwrite off b d) = max (length d) (off + length b)"
  by (simp add: overwrite_def)

locale file_store =
  fixes inv :: "'s \<Rightarrow> bool"
    and room :: "'s \<Rightarrow> bool"
    and contents :: "'s \<Rightarrow> u64 \<Rightarrow> bytes option"
    and names :: "'s \<Rightarrow> u64 \<Rightarrow> (bytes \<Rightarrow> u64 option) option"
    and rd :: "u64 \<Rightarrow> u64 \<Rightarrow> nat \<Rightarrow> 's \<Rightarrow> 's \<times> bytes result"
    and wr :: "u64 \<Rightarrow> u64 \<Rightarrow> bytes \<Rightarrow> 's \<Rightarrow> 's \<times> nat result"
    and look :: "u64 \<Rightarrow> bytes \<Rightarrow> 's \<Rightarrow> 's \<times> u64 result"
    and create :: "u64 \<Rightarrow> bytes \<Rightarrow> 's \<Rightarrow> 's \<times> u64 result"
  assumes read_law: "inv s \<Longrightarrow> contents s i = Some d \<Longrightarrow> rd i off n s = (s, Inr (take n (drop (unat off) d)))"
    and write_law: "inv s \<Longrightarrow> contents s i = Some d \<Longrightarrow> unat off + length b < 2 ^ 64 \<Longrightarrow>
      \<exists>s'. wr i off b s = (s', Inr (length b)) \<and> inv s' \<and>
        contents s' = (contents s)(i \<mapsto> overwrite (unat off) b d) \<and> names s' = names s"
    and look_law: "inv s \<Longrightarrow> names s dir = Some ns \<Longrightarrow>
      look dir nm s = (s, case ns nm of Some i \<Rightarrow> Inr i | None \<Rightarrow> Inl ''file not found'')"
    and create_law: "inv s \<Longrightarrow> room s \<Longrightarrow> names s dir = Some ns \<Longrightarrow> ns nm = None \<Longrightarrow>
      \<exists>s' i. create dir nm s = (s', Inr i) \<and> inv s' \<and> contents s i = None \<and>
        contents s' = (contents s)(i \<mapsto> []) \<and> names s' = (names s)(dir \<mapsto> ns(nm \<mapsto> i))"
begin

lemma write_read:
  assumes "inv s" "contents s i = Some d" "unat off + length b < 2 ^ 64"
  shows "\<exists>s'. wr i off b s = (s', Inr (length b)) \<and> rd i off (length b) s' = (s', Inr b)"
proof -
  from write_law [OF assms] obtain s' where s': "wr i off b s = (s', Inr (length b))" "inv s'"
    "contents s' i = Some (overwrite (unat off) b d)" by auto
  with read_law [OF s'(2,3), of off "length b"] show ?thesis by (simp add: overwrite_read)
qed

text \<open>A new file, written and found again by name, holds what was written.\<close>

lemma create_write_read:
  assumes "inv s" "room s" "names s d = Some ns" "ns n = None" "length b < 2 ^ 64"
  shows "\<exists>s1 s2 i. create d n s = (s1, Inr i) \<and> wr i 0 b s1 = (s2, Inr (length b)) \<and>
    look d n s2 = (s2, Inr i) \<and> rd i 0 (length b) s2 = (s2, Inr b) \<and>
    contents s2 = (contents s)(i \<mapsto> b) \<and> inv s2"
proof -
  from create_law [OF assms(1-4)] obtain s1 i where s1: "create d n s = (s1, Inr i)" "inv s1"
    "contents s1 = (contents s)(i \<mapsto> [])" "names s1 = (names s)(d \<mapsto> ns(n \<mapsto> i))" by blast
  have c: "contents s1 i = Some []" by (simp add: s1)
  from write_law [OF s1(2) c, of 0 b] assms(5) obtain s2 where s2: "wr i 0 b s1 = (s2, Inr (length b))"
    "inv s2" "contents s2 = (contents s1)(i \<mapsto> overwrite 0 b [])" "names s2 = names s1" by auto
  have o: "overwrite 0 b [] = b" using overwrite_append [of "[]" b] by simp
  have nm: "names s2 d = Some (ns(n \<mapsto> i))" by (simp add: s2 s1)
  have l: "look d n s2 = (s2, Inr i)" using look_law [OF s2(2) nm, of n] by simp
  have "rd i 0 (length b) s2 = (s2, Inr b)" using read_law [OF s2(2), of i b 0 "length b"] s2(3) o by simp
  then show ?thesis using s1 s2 l o by fastforce
qed

end

end
