(* ===== verification/Tmpfs.thy ===== *)
theory Tmpfs
  imports File_Ops
begin

text \<open>
  The in-memory file system of \<^verbatim>\<open>kernel/src/fs/tmpfs.rs\<close>. Inodes are a map (only looked
  up by id), the children of a directory an ordered map (listed in order). The kernel heap is
  taken to be large enough for the data.
\<close>

section \<open>Data\<close>

record TmpfsInode =
  ino_type :: FileType
  data :: bytes
  children :: "(bytes \<times> u64) list"

record Tmpfs =
  inodes :: "u64 \<Rightarrow> TmpfsInode option"
  next_inode :: u64
  tm_root :: u64

definition tmpfs_new :: Tmpfs where
  "tmpfs_new = \<lparr>inodes = [1 \<mapsto> \<lparr>ino_type = Directory, data = [], children = []\<rparr>],
     next_inode = 2, tm_root = 1\<rparr>"

definition root_inode :: "Tmpfs \<Rightarrow> u64" where "root_inode fs = 1"

section \<open>Operations\<close>

definition tm_read :: "u64 \<Rightarrow> u64 \<Rightarrow> nat \<Rightarrow> Tmpfs \<Rightarrow> Tmpfs \<times> bytes result" where
  "tm_read inode_id offset n fs = (fs,
     case inodes fs inode_id of
       None \<Rightarrow> Inl ''inode not found''
     | Some inode \<Rightarrow>
         if ino_type inode \<noteq> Regular then Inl ''not a regular file''
         else let start = unat offset in
           if length (data inode) \<le> start then Inr []
           else let e = min (start + n) (length (data inode)) in Inr (slice start e (data inode)))"

text \<open>\<^verbatim>\<open>Vec::resize(n, 0)\<close>\<close>

definition resize :: "nat \<Rightarrow> bytes \<Rightarrow> bytes" where
  "resize n xs = take n xs @ replicate (n - length xs) 0"

definition tm_write :: "u64 \<Rightarrow> u64 \<Rightarrow> bytes \<Rightarrow> Tmpfs \<Rightarrow> Tmpfs \<times> nat result" where
  "tm_write inode_id offset b fs =
     (case inodes fs inode_id of
        None \<Rightarrow> (fs, Inl ''inode not found'')
      | Some inode \<Rightarrow>
          if ino_type inode \<noteq> Regular then (fs, Inl ''not a regular file'')
          else
            let start = unat offset;
                e = (start + length b) mod 2 ^ 64;
                d = (if length (data inode) < e then resize e (data inode) else data inode)
            in if e < start then (fs, Inl panic)
               else (fs\<lparr>inodes := (inodes fs)(inode_id \<mapsto> inode\<lparr>data := splice start b d\<rparr>)\<rparr>,
                     Inr (length b)))"

definition tm_size :: "u64 \<Rightarrow> Tmpfs \<Rightarrow> u64" where
  "tm_size inode_id fs =
     (case inodes fs inode_id of Some i \<Rightarrow> of_nat (length (data i)) | None \<Rightarrow> 0)"

definition tm_file_type :: "u64 \<Rightarrow> Tmpfs \<Rightarrow> FileType" where
  "tm_file_type inode_id fs =
     (case inodes fs inode_id of Some i \<Rightarrow> ino_type i | None \<Rightarrow> Regular)"

definition tm_readdir :: "u64 \<Rightarrow> Tmpfs \<Rightarrow> Tmpfs \<times> DirEntry list result" where
  "tm_readdir inode_id fs = (fs,
     case inodes fs inode_id of
       None \<Rightarrow> Inl ''inode not found''
     | Some inode \<Rightarrow>
         if ino_type inode \<noteq> Directory then Inl ''not a directory''
         else Inr (map (\<lambda>(nm, i). \<lparr>de_name = nm, de_inode = i, de_type = tm_file_type i fs\<rparr>)
                     (children inode)))"

definition tm_lookup :: "u64 \<Rightarrow> bytes \<Rightarrow> Tmpfs \<Rightarrow> Tmpfs \<times> u64 result" where
  "tm_lookup dir_id nm fs = (fs,
     case inodes fs dir_id of
       None \<Rightarrow> Inl ''inode not found''
     | Some dir \<Rightarrow>
         if ino_type dir \<noteq> Directory then Inl ''not a directory''
         else case map_of (children dir) nm of None \<Rightarrow> Inl ''file not found'' | Some i \<Rightarrow> Inr i)"

text \<open>What \<^verbatim>\<open>create\<close> and \<^verbatim>\<open>mkdir\<close> have in common: a new inode entered in its directory.\<close>

definition add_child :: "FileType \<Rightarrow> string \<Rightarrow> u64 \<Rightarrow> bytes \<Rightarrow> Tmpfs \<Rightarrow> Tmpfs \<times> u64 result" where
  "add_child ft exists_msg dir_id nm fs =
     (case inodes fs dir_id of
        None \<Rightarrow> (fs, Inl ''inode not found'')
      | Some dir \<Rightarrow>
          if ino_type dir \<noteq> Directory then (fs, Inl ''not a directory'')
          else if map_of (children dir) nm \<noteq> None then (fs, Inl exists_msg)
          else
            let new_id = next_inode fs;
                inodes1 = (inodes fs)(new_id \<mapsto> \<lparr>ino_type = ft, data = [], children = []\<rparr>)
            in case inodes1 dir_id of
                 None \<Rightarrow> (fs, Inl panic)
               | Some dir1 \<Rightarrow>
                   (fs\<lparr>next_inode := next_inode fs + 1,
                       inodes := inodes1(dir_id \<mapsto> dir1\<lparr>children := bt_insert nm new_id (children dir1)\<rparr>)\<rparr>,
                    Inr new_id))"

definition tm_create :: "u64 \<Rightarrow> bytes \<Rightarrow> Tmpfs \<Rightarrow> Tmpfs \<times> u64 result" where
  "tm_create = add_child Regular ''file already exists''"

definition tm_mkdir :: "u64 \<Rightarrow> bytes \<Rightarrow> Tmpfs \<Rightarrow> Tmpfs \<times> u64 result" where
  "tm_mkdir = add_child Directory ''dir already exists''"

definition tm_truncate :: "u64 \<Rightarrow> u64 \<Rightarrow> Tmpfs \<Rightarrow> Tmpfs \<times> unit result" where
  "tm_truncate inode_id sz fs =
     (case inodes fs inode_id of
        None \<Rightarrow> (fs, Inl ''inode not found'')
      | Some inode \<Rightarrow>
          if ino_type inode \<noteq> Regular then (fs, Inl ''not a regular file'')
          else (fs\<lparr>inodes := (inodes fs)(inode_id \<mapsto> inode\<lparr>data := resize (unat sz) (data inode)\<rparr>)\<rparr>,
                Inr ()))"

definition tm_unlink :: "u64 \<Rightarrow> bytes \<Rightarrow> Tmpfs \<Rightarrow> Tmpfs \<times> unit result" where
  "tm_unlink dir_id nm fs =
     (case inodes fs dir_id of
        None \<Rightarrow> (fs, Inl ''inode not found'')
      | Some dir \<Rightarrow>
          if ino_type dir \<noteq> Directory then (fs, Inl ''not a directory'')
          else case map_of (children dir) nm of
            None \<Rightarrow> (fs, Inl ''file not found'')
          | Some child \<Rightarrow>
              (fs\<lparr>inodes := ((inodes fs)(dir_id \<mapsto> dir\<lparr>children := bt_remove nm (children dir)\<rparr>))
                 (child := None)\<rparr>, Inr ()))"

definition tmpfs_ops :: "Tmpfs FileOps" where
  "tmpfs_ops = \<lparr>fo_read = tm_read, fo_write = tm_write, fo_size = tm_size,
     fo_file_type = tm_file_type, fo_readdir = tm_readdir, fo_lookup = tm_lookup,
     fo_create = tm_create, fo_mkdir = tm_mkdir, fo_truncate = tm_truncate, fo_unlink = tm_unlink\<rparr>"

section \<open>Well-formed trees\<close>

definition tm_wf :: "Tmpfs \<Rightarrow> bool" where
  "tm_wf fs \<longleftrightarrow> (\<forall>i n. inodes fs i = Some n \<longrightarrow> i < next_inode fs \<and> bt_wf (children n))"

text \<open>The files and the directories.\<close>

definition tm_contents :: "Tmpfs \<Rightarrow> u64 \<Rightarrow> bytes option" where
  "tm_contents fs i = (case inodes fs i of
     Some n \<Rightarrow> if ino_type n = Regular then Some (data n) else None | None \<Rightarrow> None)"

definition tm_names :: "Tmpfs \<Rightarrow> u64 \<Rightarrow> (bytes \<Rightarrow> u64 option) option" where
  "tm_names fs i = (case inodes fs i of
     Some n \<Rightarrow> if ino_type n = Directory then Some (map_of (children n)) else None | None \<Rightarrow> None)"

lemma tmpfs_new_wf [wf_intros]: "tm_wf tmpfs_new"
  by (simp add: tm_wf_def tmpfs_new_def bt_wf_def)

lemma tm_contents_Some:
  "tm_contents fs i = Some d \<longleftrightarrow> (\<exists>n. inodes fs i = Some n \<and> ino_type n = Regular \<and> data n = d)"
  by (auto simp: tm_contents_def split: option.splits)

lemma tm_names_Some:
  "tm_names fs i = Some ns \<longleftrightarrow> (\<exists>n. inodes fs i = Some n \<and> ino_type n = Directory \<and> map_of (children n) = ns)"
  by (auto simp: tm_names_def split: option.splits)

lemma take_slice: "slice a (min (a + n) (length d)) d = take n (drop a d)"
  by (simp add: slice_def min_def)

lemma splice_overwrite:
  "splice off b (if length d < off + length b then resize (off + length b) d else d) = overwrite off b d"
  by (simp add: overwrite_def resize_def)

text \<open>Changing the data of a file.\<close>

lemma data_upd:
  assumes "inodes fs i = Some n" "ino_type n = Regular"
  shows "tm_contents (fs\<lparr>inodes := (inodes fs)(i \<mapsto> n\<lparr>data := d\<rparr>)\<rparr>) = (tm_contents fs)(i \<mapsto> d)"
    and "tm_names (fs\<lparr>inodes := (inodes fs)(i \<mapsto> n\<lparr>data := d\<rparr>)\<rparr>) = tm_names fs"
    and "tm_wf fs \<Longrightarrow> tm_wf (fs\<lparr>inodes := (inodes fs)(i \<mapsto> n\<lparr>data := d\<rparr>)\<rparr>)"
  using assms by (auto simp: tm_contents_def tm_names_def tm_wf_def fun_eq_iff)

lemma tm_wf_next: "tm_wf fs \<Longrightarrow> inodes fs (next_inode fs) = None"
  unfolding tm_wf_def by (metis less_irrefl not_None_eq)

lemma add_child_spec:
  assumes w: "tm_wf fs" and room: "next_inode fs + 1 \<noteq> 0" and d: "tm_names fs dir = Some ns" and n: "ns nm = None"
  shows "\<exists>fs' i. add_child ft msg dir nm fs = (fs', Inr i) \<and> tm_wf fs' \<and> inodes fs i = None \<and> i = next_inode fs \<and>
    tm_contents fs' = (if ft = Regular then (tm_contents fs)(i \<mapsto> []) else tm_contents fs) \<and>
    tm_names fs' = (if ft = Directory then (tm_names fs)(i \<mapsto> Map.empty, dir \<mapsto> ns(nm \<mapsto> i))
      else (tm_names fs)(dir \<mapsto> ns(nm \<mapsto> i)))"
proof -
  from d obtain x where x: "inodes fs dir = Some x" "ino_type x = Directory" "map_of (children x) = ns"
    by (auto simp: tm_names_Some)
  have f: "inodes fs (next_inode fs) = None" by (rule tm_wf_next [OF w])
  then have ne: "dir \<noteq> next_inode fs" using x by auto
  have lt: "next_inode fs < next_inode fs + 1" using room by (rule word_less_succ)
  have b: "bt_wf (children x)" using w x by (auto simp: tm_wf_def)
  let ?new = "\<lparr>ino_type = ft, data = [], children = []\<rparr>"
  define fs' where "fs' = fs\<lparr>next_inode := next_inode fs + 1, inodes := (inodes fs)(next_inode fs \<mapsto> ?new,
      dir \<mapsto> x\<lparr>children := bt_insert nm (next_inode fs) (children x)\<rparr>)\<rparr>"
  have r: "add_child ft msg dir nm fs = (fs', Inr (next_inode fs))"
    using x n ne by (simp add: add_child_def fs'_def Let_def)
  have "tm_wf fs'" using w lt bt_insert_wf [OF b] x
    by (auto simp: tm_wf_def fs'_def bt_wf_def [of "[]"] intro: less_trans split: if_splits)
  moreover have "tm_contents fs' = (if ft = Regular then (tm_contents fs)(next_inode fs \<mapsto> []) else tm_contents fs)"
    using x f ne by (auto simp: tm_contents_def fs'_def fun_eq_iff)
  moreover have "tm_names fs' = (if ft = Directory then (tm_names fs)(next_inode fs \<mapsto> Map.empty, dir \<mapsto> ns(nm \<mapsto> next_inode fs))
      else (tm_names fs)(dir \<mapsto> ns(nm \<mapsto> next_inode fs)))"
    using x f ne b by (auto simp: tm_names_def fs'_def fun_eq_iff)
  ultimately show ?thesis using r f by blast
qed

interpretation tmpfs: file_store tm_wf "\<lambda>fs. next_inode fs + 1 \<noteq> 0" tm_contents tm_names
  tm_read tm_write tm_lookup tm_create
proof (unfold_locales, goal_cases)
  case (1 s i d off n)
  then show ?case by (auto simp: tm_contents_Some tm_read_def Let_def take_slice)
next
  case (2 s i d off b)
  then obtain x where x: "inodes s i = Some x" "ino_type x = Regular" "data x = d"
    by (auto simp: tm_contents_Some)
  have "tm_write i off b s =
      (s\<lparr>inodes := (inodes s)(i \<mapsto> x\<lparr>data := overwrite (unat off) b d\<rparr>)\<rparr>, Inr (length b))"
    using 2(3) x splice_overwrite [of "unat off" b d] by (auto simp: tm_write_def Let_def)
  with data_upd [OF x(1,2)] 2(1) show ?case by auto
next
  case (3 s dir ns nm)
  then show ?case by (auto simp: tm_names_Some tm_lookup_def)
next
  case (4 s dir ns nm)
  from add_child_spec [OF 4, of Regular "''file already exists''"] obtain s' i where
    "tm_create dir nm s = (s', Inr i)" "tm_wf s'" "inodes s i = None"
    "tm_contents s' = (tm_contents s)(i \<mapsto> [])" "tm_names s' = (tm_names s)(dir \<mapsto> ns(nm \<mapsto> i))"
    by (auto simp: tm_create_def)
  moreover from this have "tm_contents s i = None" by (simp add: tm_contents_def)
  ultimately show ?case by blast
qed

section \<open>Properties\<close>

text \<open>
  A file created in a directory of a tmpfs gets an inode of its own; after writing it is
  found under its name and reads back what was written, and no other file has changed.
\<close>

theorem tmpfs_create_write_read:
  assumes "tm_wf fs" and "next_inode fs + 1 \<noteq> 0" and "tm_names fs dir = Some ns" and "ns nm = None"
    and "length b < 2 ^ 64"
  shows "\<exists>fs1 fs2 i. tm_create dir nm fs = (fs1, Inr i) \<and> tm_write i 0 b fs1 = (fs2, Inr (length b)) \<and>
    tm_lookup dir nm fs2 = (fs2, Inr i) \<and> tm_read i 0 (length b) fs2 = (fs2, Inr b) \<and>
    tm_contents fs i = None \<and> tm_contents fs2 = (tm_contents fs)(i \<mapsto> b) \<and> tm_wf fs2"
proof -
  from tmpfs.create_write_read [OF assms] obtain fs1 fs2 i where
    r: "tm_create dir nm fs = (fs1, Inr i)" "tm_write i 0 b fs1 = (fs2, Inr (length b))"
    "tm_lookup dir nm fs2 = (fs2, Inr i)" "tm_read i 0 (length b) fs2 = (fs2, Inr b)"
    "tm_contents fs2 = (tm_contents fs)(i \<mapsto> b)" "tm_wf fs2" by blast
  moreover have "tm_contents fs i = None"
    using tmpfs.create_law [OF assms(1-4)] r(1) by auto
  ultimately show ?thesis by blast
qed

theorem tmpfs_create_write_read_witness:
  "\<exists>fs1 fs2 i. tm_create 1 (as_bytes ''a'') tmpfs_new = (fs1, Inr i) \<and>
     tm_write i 0 [1, 2, 3] fs1 = (fs2, Inr 3) \<and> tm_read i 0 3 fs2 = (fs2, Inr [1, 2, 3])"
proof -
  have n: "next_inode tmpfs_new + 1 \<noteq> 0" "tm_names tmpfs_new 1 = Some Map.empty"
    by (simp_all add: tmpfs_new_def tm_names_def)
  have l: "length [1, 2, 3 :: u8] = 3" by simp
  from tmpfs_create_write_read [OF tmpfs_new_wf n, where nm = "as_bytes ''a''" and b = "[1, 2, 3]"] show ?thesis
    unfolding l by auto
qed

end
