(* ===== verification/Ata.thy ===== *)
theory Ata
  imports Prelude
begin

text \<open>
  The PIO disk driver \<^verbatim>\<open>kernel/src/ata.rs\<close>. The drive is a record: whether the probe
  found it, whether it is stuck busy, its sectors, and the sectors it reports an error for.
  The driver programs the sector count and the 28-bit address byte by byte and moves data in
  16-bit words; the drive puts the address together again. A failed call is \<open>None\<close>.
\<close>

section \<open>The drive\<close>

record disk =
  disk_present :: bool
  busy :: bool
  image :: "u64 \<Rightarrow> bytes"
  faulty :: "u64 \<Rightarrow> bool"
  total_sectors :: u64

text \<open>The address a drive reads from its LBA registers (ATA-28).\<close>

definition drive_lba :: "u8 \<times> u8 \<times> u8 \<times> u8 \<Rightarrow> u64" where
  "drive_lba = (\<lambda>(lo, mid, hi, drv). ucast lo OR push_bit 8 (ucast mid) OR push_bit 16 (ucast hi)
     OR push_bit 24 (ucast (drv AND 0x0F)))"

text \<open>The number of sectors a drive transfers for its count register: 0 stands for 256.\<close>

definition drive_count :: "u8 \<Rightarrow> nat" where
  "drive_count c = (if c = 0 then 256 else unat c)"

text \<open>The words a drive presents for a sector, and the bytes it stores for a word.\<close>

definition drive_words :: "bytes \<Rightarrow> u16 list" where
  "drive_words s = map (\<lambda>i. ucast (s ! (2 * i)) OR push_bit 8 (ucast (s ! (2 * i + 1)))) [0..<256]"

definition drive_bytes :: "u16 list \<Rightarrow> bytes" where
  "drive_bytes ws = concat (map (\<lambda>w. [ucast w, ucast (drop_bit 8 w)]) ws)"

section \<open>The driver\<close>

definition lba_registers :: "u64 \<Rightarrow> u8 \<times> u8 \<times> u8 \<times> u8" where
  "lba_registers lba =
     (ucast (lba AND 0xFF), ucast (drop_bit 8 lba AND 0xFF), ucast (drop_bit 16 lba AND 0xFF),
      0xE0 OR ucast (drop_bit 24 lba AND 0x0F))"

definition count_register :: "nat \<Rightarrow> u8" where
  "count_register sectors = ucast ((of_nat sectors :: u64) AND 0xFF)"

definition words_to_bytes :: "u16 list \<Rightarrow> bytes" where
  "words_to_bytes ws = concat (map (\<lambda>w. [ucast (w AND 0xFF), ucast (drop_bit 8 w)]) ws)"

definition bytes_to_words :: "bytes \<Rightarrow> u16 list" where
  "bytes_to_words b = map (\<lambda>i. ucast (b ! (2 * i)) OR push_bit 8 (ucast (b ! (2 * i + 1)))) [0..<256]"

text \<open>One command of up to 256 sectors. A drive that has nothing more to transfer, or reports an
  error, never asserts the data request the driver waits for.\<close>

definition read_command :: "u64 \<Rightarrow> nat \<Rightarrow> disk \<Rightarrow> bytes option" where
  "read_command lba sectors d =
     (if busy d then None
      else let l = drive_lba (lba_registers lba) in
        if \<exists>s \<in> set [0..<sectors]. drive_count (count_register sectors) \<le> s \<or> faulty d (l + of_nat s) then None
        else Some (concat (map (\<lambda>s. words_to_bytes (drive_words (image d (l + of_nat s)))) [0..<sectors])))"

text \<open>The checks at the entry; the second number is the buffer's length in bytes.\<close>

definition request_ok :: "u64 \<Rightarrow> nat \<Rightarrow> disk \<Rightarrow> bool" where
  "request_ok lba len d \<longleftrightarrow> disk_present d \<and> \<not> push_bit 28 1 \<le> lba \<and> len div 512 \<noteq> 0 \<and> len mod 512 = 0"

fun read_chunks :: "u64 \<Rightarrow> nat \<Rightarrow> nat list \<Rightarrow> disk \<Rightarrow> bytes option" where
  "read_chunks lba sectors [] d = Some []"
| "read_chunks lba sectors (chunk # cs) d =
     (let start = chunk * 255; n = min (sectors - start) 255 in
      if \<not> request_ok (lba + of_nat start) (n * 512) d then None
      else case read_command (lba + of_nat start) n d of
        None \<Rightarrow> None
      | Some b \<Rightarrow> map_option (\<lambda>r. b @ r) (read_chunks lba sectors cs d))"

definition read_sectors :: "u64 \<Rightarrow> nat \<Rightarrow> disk \<Rightarrow> bytes option" where
  "read_sectors lba len d =
     (if \<not> request_ok lba len d then None
      else let sectors = len div 512 in
        if sectors > 256 then read_chunks lba sectors [0..<(sectors + 254) div 255] d
        else read_command lba sectors d)"

definition read_sector :: "u64 \<Rightarrow> disk \<Rightarrow> bytes option" where
  "read_sector lba d = read_sectors lba 512 d"

text \<open>Sectors are written one by one until one fails.\<close>

fun write_loop :: "u64 \<Rightarrow> nat \<Rightarrow> nat list \<Rightarrow> bytes \<Rightarrow> disk \<Rightarrow> disk \<times> bool" where
  "write_loop l cnt [] b d = (d, True)"
| "write_loop l cnt (s # ss) b d =
     (if cnt \<le> s \<or> faulty d (l + of_nat s) then (d, False)
      else write_loop l cnt ss b (d\<lparr>image := (image d)(l + of_nat s :=
             drive_bytes (bytes_to_words (slice (s * 512) (s * 512 + 512) b)))\<rparr>))"

definition write_command :: "u64 \<Rightarrow> bytes \<Rightarrow> disk \<Rightarrow> disk \<times> bool" where
  "write_command lba b d =
     (if busy d then (d, False)
      else let sectors = length b div 512 in
        write_loop (drive_lba (lba_registers lba)) (drive_count (count_register sectors)) [0..<sectors] b d)"

fun write_chunks :: "u64 \<Rightarrow> nat list \<Rightarrow> bytes \<Rightarrow> disk \<Rightarrow> disk \<times> bool" where
  "write_chunks lba [] b d = (d, True)"
| "write_chunks lba (chunk # cs) b d =
     (let sectors = length b div 512; start = chunk * 255; n = min (sectors - start) 255 in
      if \<not> request_ok (lba + of_nat start) (n * 512) d then (d, False)
      else case write_command (lba + of_nat start) (slice (start * 512) ((start + n) * 512) b) d of
        (d', False) \<Rightarrow> (d', False)
      | (d', True) \<Rightarrow> write_chunks lba cs b d')"

definition write_sectors :: "u64 \<Rightarrow> bytes \<Rightarrow> disk \<Rightarrow> disk \<times> bool" where
  "write_sectors lba b d =
     (if \<not> request_ok lba (length b) d then (d, False)
      else let sectors = length b div 512 in
        if sectors > 256 then write_chunks lba [0..<(sectors + 254) div 255] b d
        else write_command lba b d)"

section \<open>Detection\<close>

record DiskInfo =
  di_total_sectors :: u64
  model :: bytes

fun trim_end :: "bytes \<Rightarrow> nat \<Rightarrow> nat" where
  "trim_end m 0 = 0"
| "trim_end m (Suc e) = (if m ! e = 0x20 \<or> m ! e = 0 then trim_end m e else Suc e)"

text \<open>What the drive answers: the status byte, whether it gets ready after IDENTIFY, the error
  register, whether it requests a data transfer, and the 256 words of IDENTIFY data.\<close>

definition detect :: "u8 \<Rightarrow> bool \<Rightarrow> u8 \<Rightarrow> bool \<Rightarrow> u16 list \<Rightarrow> DiskInfo option" where
  "detect status ready err drq ident =
     (if status = 0xFF then None
      else if \<not> ready then None
      else if err \<noteq> 0 then None
      else if \<not> drq then None
      else if ident ! 49 AND push_bit 9 1 = 0 then None
      else
        let total = push_bit 16 (ucast (ident ! 61)) OR ucast (ident ! 60);
            m = concat (map (\<lambda>w. [ucast (drop_bit 8 (ident ! (27 + w))), ucast (ident ! (27 + w) AND 0xFF)]) [0..<20]);
            e = trim_end m (length m)
        in Some \<lparr>di_total_sectors = total, model = take e m @ replicate (length m - e) 0\<rparr>)"

section \<open>Words and addresses\<close>

lemma byte_of_masked: "ucast ((x :: 'a::len word) AND 0xFF) = (ucast x :: u8)"
proof -
  have "x AND 0xFF = take_bit 8 x" by (simp add: take_bit_eq_mask mask_eq_exp_minus_1)
  then show ?thesis by (simp only:) (rule bit_word_eqI, simp add: bit_simps)
qed

lemma ucast_ucast_u8: "(ucast (ucast (x :: u64) :: u8) :: u64) = take_bit 8 x"
  by (rule bit_word_eqI) (auto simp: bit_simps)

lemma drive_nibble: "(0xE0 OR ucast ((x :: u64) AND 0x0F)) AND 0x0F = (take_bit 4 (ucast x) :: u8)"
proof -
  have m: "x AND 0x0F = take_bit 4 x" by (simp add: take_bit_eq_mask mask_eq_exp_minus_1)
  have "(0xE0 OR ucast (x AND 0x0F)) AND 0x0F = ((0xE0 AND 0x0F) OR (ucast (x AND 0x0F) AND 0x0F) :: u8)"
    by (rule bit.conj_disj_distrib2)
  also have "\<dots> = ucast (take_bit 4 x) AND mask 4" by (simp add: m mask_eq_exp_minus_1)
  also have "\<dots> = take_bit 4 (ucast x)" by (rule bit_word_eqI) (auto simp: bit_simps)
  finally show ?thesis .
qed

lemma nibble_up: "(ucast (take_bit 4 (ucast (x :: u64)) :: u8) :: u64) = take_bit 4 x"
  by (rule bit_word_eqI) (auto simp: bit_simps)

lemma join_28:
  assumes "lba < push_bit 28 1"
  shows "take_bit 8 lba OR push_bit 8 (take_bit 8 (drop_bit 8 lba)) OR push_bit 16 (take_bit 8 (drop_bit 16 lba)) 
   OR push_bit 24 (take_bit 4 (drop_bit 24 lba)) = (lba :: u64)"
proof (rule bit_word_eqI)
  fix n :: nat
  have t: "take_bit 28 lba = lba"
      using assms by (simp add: word_unat_eq_iff unat_take_bit_mod word_less_nat_alt)
  have top: "bit lba n \<Longrightarrow> n < 28"
    using t by (metis bit_take_bit_iff)
  show "bit (take_bit 8 lba OR push_bit 8 (take_bit 8 (drop_bit 8 lba)) OR push_bit 16 (take_bit 8 (drop_bit 16 lba)) 
   OR push_bit 24 (take_bit 4 (drop_bit 24 lba))) n \<longleftrightarrow> bit lba n"
    unfolding bit_or_iff bit_take_bit_iff bit_push_bit_iff bit_drop_bit_eq comp_def
    using top by (cases "n < 8"; cases "n < 16"; cases "n < 24") auto
qed

lemma drive_lba_registers: "lba < push_bit 28 1 \<Longrightarrow> drive_lba (lba_registers lba) = lba"
  using join_28 [of lba]
  by (simp only: drive_lba_def lba_registers_def prod.case byte_of_masked drive_nibble)
     (simp add: ucast_ucast_u8 nibble_up)

lemma drive_count_register: 
  assumes "0 < n" "n \<le> 256"
  shows "drive_count (count_register n) = n"
proof -
  have m: "(of_nat n :: u64) AND 0xFF = take_bit 8 (of_nat n)" by (simp add: take_bit_eq_mask mask_eq_exp_minus_1)
  have u: "unat (of_nat n :: u64) = n" using assms by (intro of_nat_inverse [OF refl]) simp
  have "unat (count_register n) = unat (take_bit 8 (of_nat n :: u64)) mod 256"
    unfolding count_register_def m unsigned_ucast_eq take_bit_eq_mod by simp
  then have "unat (count_register n) = n mod 256" unfolding unat_take_bit_mod u by simp
  then show ?thesis using assms by (cases "n = 256") (auto simp: drive_count_def unat_eq_0)
qed

lemma pair_word:
  "ucast (ucast (x :: u8) OR push_bit 8 (ucast (y :: u8)) :: u16) = x"
  "ucast (drop_bit 8 (ucast x OR push_bit 8 (ucast y) :: u16)) = y"
  by (rule bit_word_eqI, auto simp: bit_simps dest: bit_imp_le_length)+

lemma concat_pairs: "length b = 2 * n \<Longrightarrow> concat (map (\<lambda>i. [b ! (2 * i), b ! (2 * i + 1)]) [0..<n]) = b"
proof (induction n arbitrary: b)
  case (Suc n)
  then obtain x y c where b: "b = x # y # c" "length c = 2 * n"
    by (auto simp: length_Suc_conv)
  have "concat (map (\<lambda>i. [b ! (2 * i), b ! (2 * i + 1)]) [0..<Suc n]) =
      [x, y] @ concat (map (\<lambda>i. [c ! (2 * i), c ! (2 * i + 1)]) [0..<n])"
    unfolding upt_conv_Cons [OF zero_less_Suc] map_Suc_upt [symmetric] by (simp add: b(1) comp_def)
  then show ?case using Suc.IH [OF b(2)] b(1) by simp
qed simp

lemma drive_stores: "length b = 512 \<Longrightarrow> drive_bytes (bytes_to_words b) = b"
  using concat_pairs [of b 256] by (simp add: drive_bytes_def bytes_to_words_def comp_def pair_word del: drop_bit_or)

lemma driver_reads: "length b = 512 \<Longrightarrow> words_to_bytes (drive_words b) = b"
  using concat_pairs [of b 256]
  by (simp add: words_to_bytes_def drive_words_def comp_def byte_of_masked pair_word del: drop_bit_or)

section \<open>The disk as a sequence of sectors\<close>

definition disk_ok :: "disk \<Rightarrow> bool" where
  "disk_ok d \<longleftrightarrow> disk_present d \<and> \<not> busy d \<and> (\<forall>l. \<not> faulty d l \<and> length (image d l) = 512)"

definition disk_bytes :: "disk \<Rightarrow> u64 \<Rightarrow> nat \<Rightarrow> bytes" where
  "disk_bytes d lba n = concat (map (\<lambda>s. image d (lba + of_nat s)) [0..<n])"

text \<open>The image with the first \<open>k\<close> sectors of \<open>b\<close> written at \<open>lba\<close>.\<close>

definition put_sectors :: "u64 \<Rightarrow> nat \<Rightarrow> bytes \<Rightarrow> (u64 \<Rightarrow> bytes) \<Rightarrow> u64 \<Rightarrow> bytes" where
  "put_sectors lba k b im = (\<lambda>l. if unat (l - lba) < k
     then slice (512 * unat (l - lba)) (512 * unat (l - lba) + 512) b else im l)"

lemma length_disk_bytes: "disk_ok d \<Longrightarrow> length (disk_bytes d lba n) = 512 * n"
  by (induction n) (simp_all add: disk_bytes_def disk_ok_def)

lemma disk_bytes_add: "disk_bytes d lba (m + n) = disk_bytes d lba m @ disk_bytes d (lba + of_nat m) n"
  by (induction n) (simp_all add: disk_bytes_def add.assoc)

lemma read_command_ok:
  "disk_ok d \<Longrightarrow> lba < push_bit 28 1 \<Longrightarrow> 0 < n \<Longrightarrow> n \<le> 256 \<Longrightarrow>
   read_command lba n d = Some (disk_bytes d lba n)"
  by (simp add: read_command_def Let_def drive_lba_registers drive_count_register disk_ok_def disk_bytes_def
      driver_reads)

lemma lba_bound: "unat lba + n \<le> 2 ^ 28 \<Longrightarrow> k < n \<Longrightarrow> lba + of_nat k < (push_bit 28 1 :: u64)"
proof -
  assume a: "unat lba + n \<le> 2 ^ 28" "k < n"
  then have "unat (of_nat k :: u64) = k" by (intro of_nat_inverse [OF refl]) simp
  then have "unat (lba + of_nat k) = unat lba + k" using a unat_add_lem [of lba "of_nat k"] by simp
  then show ?thesis using a by (simp add: word_less_nat_alt)
qed

lemma put_sectors_Suc:
  assumes "k < 2 ^ 64"
  shows "(put_sectors lba k b im)(lba + of_nat k := slice (512 * k) (512 * k + 512) b) = put_sectors lba (Suc k) b im"
proof (rule ext)
  fix l
  have u: "unat (of_nat k :: u64) = k" using assms by (intro of_nat_inverse [OF refl]) simp
  have "l = lba + of_nat k \<longleftrightarrow> unat (l - lba) = k"
  proof
    assume "unat (l - lba) = k"
    then have "l - lba = of_nat k" by (simp add: word_unat_eq_iff u)
    then show "l = lba + of_nat k" by (simp add: algebra_simps)
  qed (simp add: u)
  then show "((put_sectors lba k b im)(lba + of_nat k := slice (512 * k) (512 * k + 512) b)) l =
      put_sectors lba (Suc k) b im l"
    by (auto simp: put_sectors_def u less_Suc_eq)
qed

lemma write_loop_ok:
  assumes "disk_ok d" "length b = 512 * n" "n \<le> 2 ^ 28" "k \<le> n" "image d = put_sectors l k b im"
  shows "write_loop l n [k..<n] b d = (d\<lparr>image := put_sectors l n b im\<rparr>, True)"
  using assms
proof (induction "n - k" arbitrary: k d)
  case 0
  then have "image d = put_sectors l n b im" by simp
  then have "d = d\<lparr>image := put_sectors l n b im\<rparr>" by (cases d) simp
  with 0 show ?case by simp
next
  case (Suc m)
  then have kn: "k < n" by simp
  let ?d = "d\<lparr>image := (image d)(l + of_nat k := drive_bytes (bytes_to_words (slice (k * 512) (k * 512 + 512) b)))\<rparr>"
  have s: "length (slice (k * 512) (k * 512 + 512) b) = 512" using Suc.prems(2) kn by simp
  have i: "image ?d = put_sectors l (Suc k) b im"
    using put_sectors_Suc [of k l b im] Suc.prems(3,5) kn drive_stores [OF s] by (simp add: mult.commute)
  have ok: "disk_ok ?d" using Suc.prems(1) drive_stores [OF s] s by (simp add: disk_ok_def)
  have "write_loop l n [Suc k..<n] b ?d = (?d\<lparr>image := put_sectors l n b im\<rparr>, True)"
    using Suc.hyps(2) kn by (intro Suc.hyps(1) ok Suc.prems(2,3) i) auto
  then show ?case using Suc.prems(1) kn by (simp add: upt_conv_Cons disk_ok_def)
qed

lemma put_sectors_0: "put_sectors lba 0 b im = im"
  by (simp add: put_sectors_def)

lemma write_command_ok:
  assumes "disk_ok d" "lba < push_bit 28 1" "length b = 512 * n" "0 < n" "n \<le> 256"
  shows "write_command lba b d = (d\<lparr>image := put_sectors lba n b (image d)\<rparr>, True)"
  using write_loop_ok [OF assms(1,3), of 0 lba "image d"] assms
  by (simp add: write_command_def drive_lba_registers drive_count_register put_sectors_0 disk_ok_def)

lemma disk_ok_put:
  assumes "disk_ok d" "length b = 512 * n"
  shows "disk_ok (d\<lparr>image := put_sectors lba n b (image d)\<rparr>)"
proof -
  have "length (slice (512 * k) (512 * k + 512) b) = 512" if "k < n" for k
    using that assms(2) by simp
  then show ?thesis using assms by (auto simp: disk_ok_def put_sectors_def)
qed

text \<open>What is written is what is read.\<close>

lemma disk_bytes_put:
  assumes "length b = 512 * n" "n \<le> 2 ^ 28"
  shows "disk_bytes (d\<lparr>image := put_sectors lba n b im\<rparr>) lba n = b"
proof -
  have "disk_bytes (d\<lparr>image := put_sectors lba n b im\<rparr>) lba k = take (512 * k) b" if "k \<le> n" for k
    using that
  proof (induction k)
    case (Suc k)
    have u: "unat (of_nat k :: u64) = k" using Suc.prems assms(2) by (intro of_nat_inverse [OF refl]) simp
    have "put_sectors lba n b im (lba + of_nat k) = slice (512 * k) (512 * k + 512) b"
      using Suc.prems by (simp add: put_sectors_def u)
    moreover have "take (512 * Suc k) b = take (512 * k) b @ slice (512 * k) (512 * k + 512) b"
      using take_add [of "512 * k" 512 b] by (simp add: slice_def add.commute)
    ultimately show ?case using Suc by (simp add: disk_bytes_def)
  qed (simp add: disk_bytes_def)
  from this [of n] assms(1) show ?thesis by simp
qed

section \<open>Requests of more than 256 sectors\<close>

lemma read_chunks_ok:
  assumes "disk_ok d" "unat lba + n \<le> 2 ^ 28" "c \<le> (n + 254) div 255"
  shows "read_chunks lba n [c..<(n + 254) div 255] d = Some (drop (512 * (c * 255)) (disk_bytes d lba n))"
  using assms(3)
proof (induction "(n + 254) div 255 - c" arbitrary: c)
  case 0
  then have "n \<le> c * 255" by simp
  then show ?case using 0 length_disk_bytes [OF assms(1), of lba n] by simp
next
  case (Suc m)
  define start where "start = c * 255"
  define k where "k = min (n - start) 255"
  have c: "c < (n + 254) div 255" using Suc.hyps(2) by simp
  then have sn: "start < n" by (simp add: start_def)
  have lt: "lba + of_nat start < push_bit 28 1" using lba_bound [OF assms(2) sn] .
  have k0: "0 < k" using sn by (simp add: k_def)
  have k256: "k \<le> 256" by (simp add: k_def)
  have ok: "request_ok (lba + of_nat start) (k * 512) d"
    using lt k0 assms(1) by (simp add: request_ok_def disk_ok_def not_le)
  have IH: "read_chunks lba n [Suc c..<(n + 254) div 255] d = Some (drop (512 * (Suc c * 255)) (disk_bytes d lba n))"
    using Suc.hyps c by simp
  have split: "disk_bytes d lba n = disk_bytes d lba start @ disk_bytes d (lba + of_nat start) k @
      drop (512 * (Suc c * 255)) (disk_bytes d lba n)"
  proof -
    have e: "n = start + k + (n - start - k)" using sn by (simp add: k_def)
    have "disk_bytes d lba n = disk_bytes d lba (start + k) @ disk_bytes d (lba + of_nat (start + k)) (n - start - k)"
      using disk_bytes_add [of d lba "start + k" "n - start - k"] e by simp
    moreover have "drop (512 * (Suc c * 255)) (disk_bytes d lba n) = disk_bytes d (lba + of_nat (start + k)) (n - start - k)"
    proof (cases "n - start \<le> 255")
      case True
      then have "n \<le> Suc c * 255" "n - start - k = 0" by (simp_all add: start_def k_def)
      then show ?thesis using length_disk_bytes [OF assms(1), of lba n] by (simp add: disk_bytes_def)
    next
      case False
      then have "Suc c * 255 = start + k" by (simp add: start_def k_def)
      then show ?thesis using calculation length_disk_bytes [OF assms(1), of lba "start + k"] by simp
    qed
    ultimately show ?thesis using disk_bytes_add [of d lba start k] by simp
  qed
  have "drop (512 * start) (disk_bytes d lba n) =
      disk_bytes d (lba + of_nat start) k @ drop (512 * (Suc c * 255)) (disk_bytes d lba n)"
    by (subst split) (simp add: length_disk_bytes [OF assms(1)])
  then show ?case
    using c ok IH read_command_ok [OF assms(1) lt k0 k256]
    by (simp add: upt_conv_Cons Let_def start_def [symmetric] k_def [symmetric])
qed

lemma put_sectors_add:
  assumes "m + n \<le> 2 ^ 28"
  shows "put_sectors (lba + of_nat m) n (drop (512 * m) b) (put_sectors lba m b im) = put_sectors lba (m + n) b im"
proof (rule ext)
  fix l
  define x where "x = unat (l - lba)"
  have um: "unat (of_nat m :: u64) = m" using assms by (intro of_nat_inverse [OF refl]) simp
  have e: "l - (lba + of_nat m) = l - lba - of_nat m" by simp
  show "put_sectors (lba + of_nat m) n (drop (512 * m) b) (put_sectors lba m b im) l = put_sectors lba (m + n) b im l"
  proof (cases "m \<le> x")
    case True
    then have "unat (l - (lba + of_nat m)) = x - m"
      unfolding e by (subst unat_sub) (simp_all add: word_le_nat_alt um x_def)
    with True show ?thesis
      by (auto simp: put_sectors_def x_def [symmetric] slice_def diff_mult_distrib2)
  next
    case False
    have "unat (l - (lba + of_nat m)) = 2 ^ 64 + x - m"
      unfolding e using False by (simp add: unat_sub_if' word_le_nat_alt um x_def)
    then have "\<not> unat (l - (lba + of_nat m)) < n" using assms by simp
    with False show ?thesis by (simp add: put_sectors_def x_def [symmetric])
  qed
qed

lemma put_sectors_take:
  assumes "512 * n \<le> k"
  shows "put_sectors lba n (take k b) im = put_sectors lba n b im"
proof (rule ext)
  fix l
  have "slice (512 * i) (512 * i + 512) (take k b) = slice (512 * i) (512 * i + 512) b" if "i < n" for i
    using that assms by (simp add: slice_def take_drop min_def)
  then show "put_sectors lba n (take k b) im l = put_sectors lba n b im l"
    by (simp add: put_sectors_def)
qed

lemma write_chunks_ok:
  assumes "length b = 512 * n" "unat lba + n \<le> 2 ^ 28" "disk_ok d" "c \<le> (n + 254) div 255"
    "image d = put_sectors lba (min n (c * 255)) b im"
  shows "write_chunks lba [c..<(n + 254) div 255] b d = (d\<lparr>image := put_sectors lba n b im\<rparr>, True)"
  using assms(3-5)
proof (induction "(n + 254) div 255 - c" arbitrary: c d)
  case 0
  then have "n \<le> c * 255" by simp
  then have "image d = put_sectors lba n b im" using 0 by simp
  then have "d = d\<lparr>image := put_sectors lba n b im\<rparr>" by (cases d) simp
  with 0 show ?case by simp
next
  case (Suc m)
  define start where "start = c * 255"
  define k where "k = min (n - start) 255"
  define s where "s = slice (start * 512) ((start + k) * 512) b"
  define d' where "d' = d\<lparr>image := put_sectors (lba + of_nat start) k s (image d)\<rparr>"
  have c: "c < (n + 254) div 255" using Suc.hyps(2) by simp
  then have sn: "start < n" by (simp add: start_def)
  have lt: "lba + of_nat start < push_bit 28 1" using lba_bound [OF assms(2) sn] .
  have k0: "0 < k" "k \<le> 256" "start + k \<le> 2 ^ 28" "start + k \<le> n"
    using sn assms(2) by (simp_all add: k_def)
  have ok: "request_ok (lba + of_nat start) (k * 512) d"
    using lt k0 Suc.prems(1) by (simp add: request_ok_def disk_ok_def not_le)
  have ls: "length s = 512 * k" using k0(4) assms(1) by (simp add: s_def algebra_simps)
  have w: "write_command (lba + of_nat start) s d = (d', True)"
    using write_command_ok [OF Suc.prems(1) lt ls k0(1,2)] by (simp add: d'_def)
  have ok': "disk_ok d'" unfolding d'_def by (rule disk_ok_put [OF Suc.prems(1) ls])
  have s: "s = take (512 * k) (drop (512 * start) b)"
    by (simp add: s_def slice_def algebra_simps)
  have "put_sectors (lba + of_nat start) k s (put_sectors lba start b im) = put_sectors lba (start + k) b im"
    unfolding s using put_sectors_add [OF k0(3)] by (simp add: put_sectors_take)
  moreover have "min n (c * 255) = start" "min n (Suc c * 255) = start + k"
    using sn by (auto simp: start_def k_def)
  ultimately have i: "image d' = put_sectors lba (min n (Suc c * 255)) b im"
    using Suc.prems(3) by (simp add: d'_def)
  have "write_chunks lba [Suc c..<(n + 254) div 255] b d' = (d'\<lparr>image := put_sectors lba n b im\<rparr>, True)"
    using Suc.hyps(2) c by (intro Suc.hyps(1) ok' i) auto
  then show ?case
    using c ok w assms(1) by (simp add: upt_conv_Cons Let_def start_def [symmetric] k_def [symmetric] s_def d'_def)
qed

lemma request_ok_sectors:
  assumes "disk_ok d" "unat lba + n \<le> 2 ^ 28" "0 < n"
  shows "request_ok lba (512 * n) d" "lba < push_bit 28 1"
  using assms lba_bound [OF assms(2,3)] by (simp_all add: request_ok_def disk_ok_def not_le)

lemma read_sectors_ok:
  assumes "disk_ok d" "unat lba + n \<le> 2 ^ 28" "0 < n"
  shows "read_sectors lba (512 * n) d = Some (disk_bytes d lba n)"
  using request_ok_sectors [OF assms] read_chunks_ok [OF assms(1,2), of 0] read_command_ok [OF assms(1) _ assms(3)]
  by (simp add: read_sectors_def Let_def)

lemma write_sectors_ok:
  assumes "disk_ok d" "unat lba + n \<le> 2 ^ 28" "0 < n" "length b = 512 * n"
  shows "write_sectors lba b d = (d\<lparr>image := put_sectors lba n b (image d)\<rparr>, True)"
  using request_ok_sectors [OF assms(1-3)] write_chunks_ok [OF assms(4,2,1), of 0 "image d"]
    write_command_ok [OF assms(1) _ assms(4,3)] assms(2,4)
  by (simp add: write_sectors_def Let_def put_sectors_0)

section \<open>The model string\<close>

lemma trim_end_le: "trim_end m e \<le> e"
  by (induction m e rule: trim_end.induct) auto

lemma trim_end_spec:
  "trim_end m e = 0 \<or> m ! (trim_end m e - 1) \<notin> {0x20, 0}"
  "trim_end m e \<le> i \<Longrightarrow> i < e \<Longrightarrow> m ! i \<in> {0x20, 0}"
  by (induction m e rule: trim_end.induct) (auto simp: less_Suc_eq split: if_splits)

lemma detect_info:
  assumes "detect st rdy err drq ident = Some info" "length ident = 256"
  shows "unat (di_total_sectors info) = unat (ident ! 61) * 2 ^ 16 + unat (ident ! 60)" "length (model info) = 40"
proof -
  have o: "push_bit 16 (ucast (y :: u16)) OR ucast (x :: u16) = (ucast y * 2 ^ 16 + ucast x :: u64)" for x y
  proof -
    have "push_bit 16 (ucast y) OR ucast x = (push_bit 16 (ucast y) + ucast x :: u64)"
      by (rule disjunctive_add [symmetric]) (auto simp: bit_simps dest: bit_imp_le_length)
    then show ?thesis by (simp add: push_bit_eq_mult)
  qed
  have "unat (ucast y * 2 ^ 16 + ucast x :: u64) = unat y * 2 ^ 16 + unat x" for x y :: u16
  proof -
    have "unat x < 2 ^ LENGTH(16)" "unat y < 2 ^ LENGTH(16)" by (rule unsigned_less)+
    then show ?thesis by (simp add: unat_word_ariths unsigned_ucast_eq take_bit_eq_mod)
  qed
  with assms o show "unat (di_total_sectors info) = unat (ident ! 61) * 2 ^ 16 + unat (ident ! 60)"
    by (auto simp: detect_def Let_def split: if_splits)
  have "length (concat (map (\<lambda>w. [a w, b w]) [0..<20])) = 40" for a b :: "nat \<Rightarrow> u8"
    by (simp add: length_concat comp_def sum_list_triv)
  with assms trim_end_le show "length (model info) = 40"
    by (auto simp: detect_def Let_def split: if_splits)
qed

section \<open>Writing and reading\<close>

text \<open>
  C24. On a working drive a write of whole sectors below the 28-bit limit succeeds, a read of
  the same sectors gives the written bytes back, whatever the number of commands the
  request is cut into, and every sector outside the range keeps its contents.
\<close>

theorem write_read_sectors:
  assumes "disk_ok d" "unat lba + n \<le> 2 ^ 28" "0 < n" "length b = 512 * n"
  shows "\<exists>d'. write_sectors lba b d = (d', True) \<and> disk_ok d' \<and>
    read_sectors lba (512 * n) d' = Some b \<and>
    (\<forall>l. l < lba \<or> unat lba + n \<le> unat l \<longrightarrow> image d' l = image d l)"
proof (intro exI conjI allI impI)
  let ?d = "d\<lparr>image := put_sectors lba n b (image d)\<rparr>"
  show "write_sectors lba b d = (?d, True)" by (rule write_sectors_ok [OF assms])
  show ok: "disk_ok ?d" by (rule disk_ok_put [OF assms(1,4)])
  show "read_sectors lba (512 * n) ?d = Some b"
    using read_sectors_ok [OF ok assms(2,3)] disk_bytes_put [OF assms(4)] assms(2) by simp
  fix l assume l: "l < lba \<or> unat lba + n \<le> unat l"
  have "n \<le> unat (l - lba)"
    using l assms(2) by (auto simp: unat_sub_if' word_le_nat_alt word_less_nat_alt)
  then show "image ?d l = image d l" by (simp add: put_sectors_def)
qed

theorem write_read_sectors_witness:
  "\<exists>d'. write_sectors 2048 (replicate 1024 7)
      \<lparr>disk_present = True, busy = False, image = \<lambda>_. replicate 512 0, faulty = \<lambda>_. False, total_sectors = 4096\<rparr> = (d', True) \<and>
    read_sectors 2048 1024 d' = Some (replicate 1024 7)"
  using write_read_sectors [of "\<lparr>disk_present = True, busy = False, image = \<lambda>_. replicate 512 0,
      faulty = \<lambda>_. False, total_sectors = 4096\<rparr>" 2048 2 "replicate 1024 7"]
  by (auto simp: disk_ok_def)

end
