(* ===== verification/Input.thy ===== *)
theory Input
  imports Interfaces
begin

text \<open>
  Input and time: the scan-code ring of \<^verbatim>\<open>kernel/src/interrupts/mod.rs\<close>, the PS/2 mouse
  of \<^verbatim>\<open>interrupts/mouse.rs\<close>, USB HID reports (\<^verbatim>\<open>usb/hid.rs\<close>), the input poll of
  \<^verbatim>\<open>syscalls/input.rs\<close>, the key map of \<^verbatim>\<open>lib.rs\<close> and the clock of
  \<^verbatim>\<open>syscalls/time.rs\<close>.
\<close>

section \<open>The scan-code ring\<close>

record ScancodeBuffer =
  buf :: bytes
  head :: nat
  tail :: nat

definition sb_new :: ScancodeBuffer where
  "sb_new = \<lparr>buf = replicate 256 0, head = 0, tail = 0\<rparr>"

definition sb_push :: "u8 \<Rightarrow> ScancodeBuffer \<Rightarrow> ScancodeBuffer" where
  "sb_push byte q =
     (let next = (head q + 1) mod 256 in
      if next \<noteq> tail q then q\<lparr>buf := (buf q)[head q := byte], head := next\<rparr> else q)"

definition sb_pop :: "ScancodeBuffer \<Rightarrow> ScancodeBuffer \<times> u8 option" where
  "sb_pop q =
     (if head q = tail q then (q, None)
      else (q\<lparr>tail := (tail q + 1) mod 256\<rparr>, Some (buf q ! tail q)))"

section \<open>The mouse\<close>

record MouseState =
  buttons :: u8
  dx :: i16
  dy :: i16
  packet :: bytes
  packet_idx :: nat

definition mouse_new :: MouseState where
  "mouse_new = \<lparr>buttons = 0, dx = 0, dy = 0, packet = [0, 0, 0], packet_idx = 0\<rparr>"

text \<open>\<^verbatim>\<open>i16::saturating_add\<close>\<close>

definition saturating_add :: "i16 \<Rightarrow> i16 \<Rightarrow> i16" where
  "saturating_add a b = word_of_int (max (- 32768) (min 32767 (sint a + sint b)))"

definition complete_packet :: "MouseState \<Rightarrow> MouseState" where
  "complete_packet m =
     (let status = packet m ! 0;
          x_raw = scast (packet m ! 1) :: i16;
          y_raw = scast (packet m ! 2) :: i16;
          x_overflow = (status AND 0x40 \<noteq> 0);
          y_overflow = (status AND 0x80 \<noteq> 0);
          x_sign = (status AND 0x10 \<noteq> 0);
          y_sign = (status AND 0x20 \<noteq> 0);
          ddx = (if x_overflow then (if x_sign then - 256 else 255) else x_raw);
          ddy = (if y_overflow then (if y_sign then 255 else - 256) else - y_raw)
      in m\<lparr>dx := saturating_add (dx m) ddx, dy := saturating_add (dy m) ddy,
           buttons := status AND 0x07\<rparr>)"

definition on_byte :: "u8 \<Rightarrow> MouseState \<Rightarrow> MouseState" where
  "on_byte byte m =
     (if packet_idx m = 0 \<and> byte AND 0x08 = 0 then m
      else let m1 = m\<lparr>packet := (packet m)[packet_idx m := byte], packet_idx := packet_idx m + 1\<rparr> in
        if 3 \<le> packet_idx m1 then (complete_packet m1)\<lparr>packet_idx := 0\<rparr> else m1)"

definition drain :: "MouseState \<Rightarrow> MouseState \<times> (i16 \<times> i16 \<times> u8)" where
  "drain m = (m\<lparr>dx := 0, dy := 0\<rparr>, (dx m, dy m, buttons m))"

section \<open>Keys\<close>

fun scancode_to_ascii :: "u8 \<Rightarrow> u8 option" where
  "scancode_to_ascii sc = map_of
     [(0x02, 0x31), (0x03, 0x32), (0x04, 0x33), (0x05, 0x34), (0x06, 0x35),
      (0x07, 0x36), (0x08, 0x37), (0x09, 0x38), (0x0a, 0x39), (0x0b, 0x30),
      (0x0c, 0x2d), (0x0d, 0x3d), (0x0e, 0x08), (0x0f, 0x09),
      (0x10, 0x71), (0x11, 0x77), (0x12, 0x65), (0x13, 0x72), (0x14, 0x74),
      (0x15, 0x79), (0x16, 0x75), (0x17, 0x69), (0x18, 0x6f), (0x19, 0x70),
      (0x1a, 0x5b), (0x1b, 0x5d), (0x1c, 0x0a),
      (0x1e, 0x61), (0x1f, 0x73), (0x20, 0x64), (0x21, 0x66), (0x22, 0x67),
      (0x23, 0x68), (0x24, 0x6a), (0x25, 0x6b), (0x26, 0x6c),
      (0x27, 0x3b), (0x28, 0x27), (0x29, 0x60), (0x2b, 0x5c),
      (0x2c, 0x7a), (0x2d, 0x78), (0x2e, 0x63), (0x2f, 0x76), (0x30, 0x62),
      (0x31, 0x6e), (0x32, 0x6d), (0x33, 0x2c), (0x34, 0x2e), (0x35, 0x2f),
      (0x39, 0x20)] sc"

fun hid_to_scancode :: "u8 \<Rightarrow> u8 option" where
  "hid_to_scancode k = map_of
     [(0x04, 0x1E), (0x05, 0x30), (0x06, 0x2E), (0x07, 0x20), (0x08, 0x12), (0x09, 0x21),
      (0x0A, 0x22), (0x0B, 0x23), (0x0C, 0x17), (0x0D, 0x24), (0x0E, 0x25), (0x0F, 0x26),
      (0x10, 0x32), (0x11, 0x31), (0x12, 0x18), (0x13, 0x19), (0x14, 0x10), (0x15, 0x13),
      (0x16, 0x1F), (0x17, 0x14), (0x18, 0x16), (0x19, 0x2F), (0x1A, 0x11), (0x1B, 0x2D),
      (0x1C, 0x15), (0x1D, 0x2C), (0x1E, 0x02), (0x1F, 0x03), (0x20, 0x04), (0x21, 0x05),
      (0x22, 0x06), (0x23, 0x07), (0x24, 0x08), (0x25, 0x09), (0x26, 0x0A), (0x27, 0x0B),
      (0x28, 0x1C), (0x29, 0x01), (0x2A, 0x0E), (0x2B, 0x0F), (0x2C, 0x39),
      (0x4F, 0x50), (0x50, 0x4D), (0x51, 0x4B), (0x52, 0x48)] k"

record KeyboardReport =
  modifiers :: u8
  reserved :: u8
  keycodes :: bytes

record MouseReport =
  mr_buttons :: u8
  mr_dx :: "8 word"
  mr_dy :: "8 word"
  mr_wheel :: "8 word"

definition process_keyboard_report :: "KeyboardReport \<Rightarrow> ScancodeBuffer \<Rightarrow> ScancodeBuffer" where
  "process_keyboard_report report q =
     fold (\<lambda>kc q. if kc = 0 then q
                  else case hid_to_scancode kc of Some sc \<Rightarrow> sb_push sc q | None \<Rightarrow> q)
       (keycodes report) q"

definition process_mouse_report :: "MouseReport \<Rightarrow> MouseState \<Rightarrow> MouseState" where
  "process_mouse_report report m =
     (let ddx = scast (mr_dx report) :: i16; ddy = - (scast (mr_dy report) :: i16)
      in m\<lparr>dx := saturating_add (dx m) ddx, dy := saturating_add (dy m) ddy,
           buttons := mr_buttons report AND 0x07\<rparr>)"

section \<open>Polling\<close>

definition EVENT_KEYBOARD :: u32 where "EVENT_KEYBOARD = 0"
definition EVENT_MOUSE :: u32 where "EVENT_MOUSE = 1"

record InputEvent =
  event_type :: u32
  keycode :: u32
  key_char :: u32
  key_pressed :: u8
  mouse_buttons :: u8
  mouse_dx :: i16
  mouse_dy :: i16

record input_state =
  scancodes :: ScancodeBuffer
  mouse :: MouseState

text \<open>
  The guard of \<^verbatim>\<open>if let Some(scancode) = SCANCODE_BUFFER.lock().pop()\<close> is a temporary
  of the scrutinee: it lives to the end of the \<^verbatim>\<open>if let\<close> body, so the recursive call
  after a prefix byte takes a lock that is still held and spins forever. \<open>None\<close> is a call
  that does not return.
\<close>

definition poll_next :: "bool \<Rightarrow> input_state \<Rightarrow> (input_state \<times> InputEvent option \<times> i64) option" where
  "poll_next scancodes_held s =
     (if scancodes_held then None
      else case sb_pop (scancodes s) of
        (q, Some scancode) \<Rightarrow>
          let is_release = (scancode AND 0x80 \<noteq> 0); code = scancode AND 0x7f in
          if scancode = 0xe0 \<or> scancode = 0xe1 then None
          else
            let keychar = (case scancode_to_ascii code of Some c \<Rightarrow> ucast c | None \<Rightarrow> 0) in
            Some (s\<lparr>scancodes := q\<rparr>,
              Some \<lparr>event_type = EVENT_KEYBOARD, keycode = ucast code, key_char = keychar,
                    key_pressed = (if is_release then 0 else 1), mouse_buttons = 0,
                    mouse_dx = 0, mouse_dy = 0\<rparr>, 1)
      | (q, None) \<Rightarrow>
          (case drain (mouse s) of (ms, (x, y, b)) \<Rightarrow>
             if x \<noteq> 0 \<or> y \<noteq> 0 \<or> b \<noteq> 0 then
               Some (s\<lparr>scancodes := q, mouse := ms\<rparr>,
                 Some \<lparr>event_type = EVENT_MOUSE, keycode = 0, key_char = 0, key_pressed = 0,
                       mouse_buttons = b, mouse_dx = x, mouse_dy = y\<rparr>, 1)
             else Some (s\<lparr>scancodes := q, mouse := ms\<rparr>, None, 0)))"

section \<open>The clock\<close>

definition PIT_FREQUENCY :: u64 where "PIT_FREQUENCY = 1193182"
definition PIT_DIVISOR :: u64 where "PIT_DIVISOR = 1193"
definition TICKS_PER_SEC :: u64 where "TICKS_PER_SEC = PIT_FREQUENCY div PIT_DIVISOR"
definition NANOS_PER_TICK :: u64 where "NANOS_PER_TICK = 1000000000 div TICKS_PER_SEC"

definition time_tick :: "u64 \<Rightarrow> u64" where "time_tick ticks = ticks + 1"

definition system_time :: "u64 \<Rightarrow> u64 \<times> u64" where
  "system_time ticks =
     (let secs = ticks div TICKS_PER_SEC;
          sub_ticks = ticks mod TICKS_PER_SEC;
          nanos = sub_ticks * NANOS_PER_TICK
      in (secs, nanos))"

section \<open>The ring as a queue\<close>

definition sb_wf :: "ScancodeBuffer \<Rightarrow> bool" where
  "sb_wf q \<longleftrightarrow> length (buf q) = 256 \<and> head q < 256 \<and> tail q < 256"

definition sb_len :: "ScancodeBuffer \<Rightarrow> nat" where
  "sb_len q = (head q + 256 - tail q) mod 256"

definition sb_items :: "ScancodeBuffer \<Rightarrow> bytes" where
  "sb_items q = map (\<lambda>i. buf q ! ((tail q + i) mod 256)) [0..<sb_len q]"

lemma sb_new_wf [wf_intros]: "sb_wf sb_new"
  by (simp add: sb_wf_def sb_new_def)

lemma sb_len_less: "sb_len q < 256"
  by (simp add: sb_len_def)

lemma sb_len_cases:
  "sb_wf q \<Longrightarrow> sb_len q = (if tail q \<le> head q then head q - tail q else head q + 256 - tail q)"
  by (auto simp: sb_len_def sb_wf_def mod_if)

lemma sb_full_iff: "sb_wf q \<Longrightarrow> (head q + 1) mod 256 = tail q \<longleftrightarrow> sb_len q = 255"
  by (auto simp: sb_len_cases) (auto simp: sb_wf_def mod_if split: if_splits)

lemma sb_end: "sb_wf q \<Longrightarrow> (tail q + sb_len q) mod 256 = head q"
  by (auto simp: sb_len_cases) (auto simp: sb_wf_def mod_if split: if_splits)

lemma sb_slot_inj:
  "sb_wf q \<Longrightarrow> i < sb_len q \<Longrightarrow> (tail q + i) mod 256 \<noteq> head q"
  by (auto simp: sb_len_cases) (auto simp: sb_wf_def mod_if split: if_splits)

lemma sb_slot_keep:
  "sb_wf q \<Longrightarrow> i < sb_len q \<Longrightarrow> (buf q)[head q := x] ! ((tail q + i) mod 256) = buf q ! ((tail q + i) mod 256)"
  using sb_slot_inj [of q i] by (metis nth_list_update_neq)

interpretation keys: bounded_queue sb_wf sb_items sb_push sb_pop 255
proof (unfold_locales, goal_cases)
  case (1 q x)
  then show ?case by (simp add: sb_push_def sb_wf_def Let_def)
next
  case (2 q x)
  show ?case
  proof (cases "sb_len q = 255")
    case True
    then show ?thesis using 2 sb_full_iff [OF 2] by (simp add: sb_push_def sb_items_def Let_def)
  next
    case False
    let ?q = "q\<lparr>buf := (buf q)[head q := x], head := (head q + 1) mod 256\<rparr>"
    have l: "sb_len q < 255" using False sb_len_less [of q] by simp
    have p: "sb_push x q = ?q" using False 2 sb_full_iff [OF 2] by (simp add: sb_push_def Let_def)
    have w: "sb_wf ?q" using 2 by (simp add: sb_wf_def)
    have sl: "sb_len ?q = Suc (sb_len q)"
      using l sb_len_cases [OF 2] sb_len_cases [OF w] 2
      by (auto simp: sb_wf_def mod_if split: if_splits)
    have "map (\<lambda>i. (buf q)[head q := x] ! ((tail q + i) mod 256)) [0..<sb_len q] = sb_items q"
      using sb_slot_keep [OF 2] by (auto simp: sb_items_def)
    moreover have "(buf q)[head q := x] ! ((tail q + sb_len q) mod 256) = x"
      using sb_end [OF 2] 2 by (simp add: sb_wf_def)
    ultimately have "sb_items ?q = sb_items q @ [x]" unfolding sb_items_def sl by simp
    then show ?thesis using p l by (simp add: sb_items_def)
  qed
next
  case (3 q)
  then have "sb_len q = 0" by (simp add: sb_items_def)
  with sb_end [OF 3(1)] 3(1) show ?case by (simp add: sb_pop_def sb_wf_def)
next
  case (4 q x xs)
  let ?q = "q\<lparr>tail := (tail q + 1) mod 256\<rparr>"
  have l: "0 < sb_len q" using 4(2) by (cases "sb_len q") (auto simp: sb_items_def)
  have "head q \<noteq> tail q"
  proof
    assume "head q = tail q"
    with sb_len_cases [OF 4(1)] l show False by simp
  qed
  then have p: "sb_pop q = (?q, Some (buf q ! tail q))" by (simp add: sb_pop_def)
  have w: "sb_wf ?q" using 4(1) by (simp add: sb_wf_def)
  have sl: "sb_len q = Suc (sb_len ?q)"
    using l sb_len_cases [OF 4(1)] sb_len_cases [OF w] 4(1)
    by (auto simp: sb_wf_def mod_if split: if_splits)
  have e: "sb_items q = (buf q ! (tail q mod 256)) # sb_items ?q"
    unfolding sb_items_def sl upt_conv_Cons [OF zero_less_Suc] map_Suc_upt [symmetric]
    using mod_add_left_eq [of "Suc (tail q)" 256] by (simp add: comp_def)
  have "tail q mod 256 = tail q" using 4(1) by (simp add: sb_wf_def)
  with p w e 4(2) show ?case by simp
next
  case (5 q)
  then show ?case using sb_len_less [of q] by (simp add: sb_items_def)
qed

section \<open>Mouse packets\<close>

definition mouse_wf :: "MouseState \<Rightarrow> bool" where
  "mouse_wf m \<longleftrightarrow> length (packet m) = 3 \<and> packet_idx m < 3"

lemma mouse_new_wf [wf_intros]: "mouse_wf mouse_new"
  by (simp add: mouse_wf_def mouse_new_def)

lemma complete_packet_simps [simp]:
  "packet (complete_packet m) = packet m" "packet_idx (complete_packet m) = packet_idx m"
  by (simp_all add: complete_packet_def Let_def)

lemma on_byte_wf [wf_intros]: "mouse_wf m \<Longrightarrow> mouse_wf (on_byte b m)"
  by (auto simp: on_byte_def mouse_wf_def Let_def)

lemma process_mouse_report_wf [wf_intros]: "mouse_wf m \<Longrightarrow> mouse_wf (process_mouse_report r m)"
  by (simp add: process_mouse_report_def mouse_wf_def Let_def)

lemma sint_saturating_add:
  "sint (saturating_add a b) = max (- 32768) (min 32767 (sint a + sint b))"
proof -
  let ?v = "max (- 32768) (min 32767 (sint a + sint b)) :: int"
  have "signed_take_bit 15 ?v = ?v"
    by (rule signed_take_bit_int_eq_self) auto
  then show ?thesis by (simp add: saturating_add_def sint_sbintrunc')
qed

text \<open>The movement that a packet stands for.\<close>

definition packet_dx :: "u8 \<Rightarrow> u8 \<Rightarrow> int" where
  "packet_dx status x = (if bit status 6 then (if bit status 4 then - 256 else 255) else sint x)"

definition packet_dy :: "u8 \<Rightarrow> u8 \<Rightarrow> int" where
  "packet_dy status y = (if bit status 7 then (if bit status 5 then 255 else - 256) else - sint y)"
lemma status_bits:
  "(w::u8) AND 0x40 \<noteq> 0 \<longleftrightarrow> bit w 6" "w AND 0x80 \<noteq> 0 \<longleftrightarrow> bit w 7"
  "w AND 0x10 \<noteq> 0 \<longleftrightarrow> bit w 4" "w AND 0x20 \<noteq> 0 \<longleftrightarrow> bit w 5" "w AND 0x08 \<noteq> 0 \<longleftrightarrow> bit w 3"
  by (simp_all add: bit_iff_and_push_bit_not_eq_0)

lemma sint_byte [simp]: "sint (scast (y :: u8) :: i16) = sint y"
  by (rule sint_up_scast) (simp add: is_up)

lemma sint_range8: "- 128 \<le> sint (y :: u8)" "sint (y :: u8) < 128"
  using sint_range_size [of y] by (simp_all add: word_size)

lemma sint_neg_byte [simp]: "sint (- (scast (y :: u8) :: i16)) = - sint y"
proof -
  have "sint (- (scast y :: i16)) = signed_take_bit 15 (- sint y)"
    using sint_byte [of y] by (simp add: sint_word_ariths)
  also have "\<dots> = - sint y"
    using sint_range8 [of y] by (intro signed_take_bit_int_eq_self) auto
  finally show ?thesis .
qed

lemma complete_packet_spec:
  assumes "packet m = [st, x, y]"
  shows "sint (dx (complete_packet m)) = max (- 32768) (min 32767 (sint (dx m) + packet_dx st x))"
    and "sint (dy (complete_packet m)) = max (- 32768) (min 32767 (sint (dy m) + packet_dy st y))"
    and "buttons (complete_packet m) = st AND 7"
  using assms by (simp_all add: complete_packet_def Let_def sint_saturating_add packet_dx_def packet_dy_def
      status_bits del: One_nat_def)

section \<open>Keys and clock\<close>

text \<open>USB letters and digits reach the same characters as PS/2 keys.\<close>

lemma hid_letters:
  "map (\<lambda>k. Option.bind (hid_to_scancode k) scancode_to_ascii) (map (\<lambda>i. 4 + of_nat i) [0..<26]) =
     map (\<lambda>i. Some (0x61 + of_nat i)) [0..<26]"
  by (simp add: upt_rec)

text \<open>
  The arrow keys are permuted: Right becomes the code of Down (0x50), Left that of Right
  (0x4D), Down that of Left (0x4B).
\<close>

lemma hid_arrows:
  "map hid_to_scancode [0x4F, 0x50, 0x51, 0x52] = [Some 0x50, Some 0x4D, Some 0x4B, Some 0x48]"
  by simp

lemma time_constants: "TICKS_PER_SEC = 1000" "NANOS_PER_TICK = 1000000"
proof -
  show t: "TICKS_PER_SEC = 1000" by (simp add: TICKS_PER_SEC_def PIT_FREQUENCY_def PIT_DIVISOR_def)
  show "NANOS_PER_TICK = 1000000" by (simp add: NANOS_PER_TICK_def t)
qed

lemma system_time_exact:
  "case system_time ticks of (secs, nanos) \<Rightarrow>
     unat secs = unat ticks div 1000 \<and> unat nanos = unat ticks mod 1000 * 1000000 \<and>
     unat nanos < 1000000000"
proof -
  have "unat (ticks mod 1000) = unat ticks mod 1000" by (simp add: unat_mod)
  moreover have "unat (ticks mod 1000 * 1000000) = unat (ticks mod 1000) * 1000000"
    using \<open>unat (ticks mod 1000) = unat ticks mod 1000\<close> by (subst unat_mult_lem [THEN iffD1]) simp_all
  ultimately show ?thesis by (simp add: system_time_def Let_def time_constants unat_div)
qed

section \<open>Properties\<close>

text \<open>
  The scan-code ring is a queue of capacity 255: a burst of key codes is kept in order
  up to the capacity and the rest is dropped, and codes come out oldest first.
\<close>

theorem scancode_ring_fifo:
  assumes "sb_wf q"
  shows "sb_items (fold sb_push xs q) = sb_items q @ take (255 - length (sb_items q)) xs \<and>
    (case sb_pop q of
       (q', None) \<Rightarrow> sb_items q = [] \<and> q' = q
     | (q', Some x) \<Rightarrow> sb_items q = x # sb_items q' \<and> sb_wf q') \<and>
    sb_wf (fold sb_push xs q)"
  using keys.push_all_spec [OF assms, of xs] keys.pop_None [OF assms] keys.pop_Some [OF assms]
    keys.pop_inv [OF assms]
  by (auto simp: keys.push_all_def split: prod.splits option.splits)

theorem scancode_ring_fifo_witness:
  "sb_items (fold sb_push [0x1e, 0x9e] sb_new) = [0x1e, 0x9e]"
  using scancode_ring_fifo [OF sb_new_wf, of "[0x1e, 0x9e]"]
  by (simp add: sb_items_def sb_len_def sb_new_def)

text \<open>
  Mouse packets. Bytes without the synchronisation bit are skipped between packets;
  from there any three bytes \<open>st x y\<close> with the bit set in \<open>st\<close> form one packet, whose
  movement is added to the totals with saturation and whose low three bits become the
  buttons; the packet index never leaves its array.
\<close>

theorem mouse_packet_decoded:
  assumes "mouse_wf m" and "packet_idx m = 0" and "bit st 3" and "\<not> bit junk 3"
  shows "let m' = on_byte y (on_byte x (on_byte st (on_byte junk m))) in
    sint (dx m') = max (- 32768) (min 32767 (sint (dx m) + packet_dx st x)) \<and>
    sint (dy m') = max (- 32768) (min 32767 (sint (dy m) + packet_dy st y)) \<and>
    buttons m' = st AND 7 \<and> packet_idx m' = 0 \<and> mouse_wf m'"
proof -
  have j: "on_byte junk m = m" using assms(2,4) status_bits(5) [of junk] by (simp add: on_byte_def)
  obtain a b c where p: "packet m = [a, b, c]"
    using assms(1) by (auto simp: mouse_wf_def numeral_3_eq_3 length_Suc_conv)
  define m3 where "m3 = m\<lparr>packet := [st, x, y], packet_idx := 3\<rparr>"
  have 1: "on_byte st m = m\<lparr>packet := [st, b, c], packet_idx := 1\<rparr>"
    using assms(2,3) p status_bits(5) [of st] by (simp add: on_byte_def)
  have 2: "on_byte x (on_byte st m) = m\<lparr>packet := [st, x, c], packet_idx := 2\<rparr>"
    unfolding 1 by (simp add: on_byte_def)
  have 3: "on_byte y (on_byte x (on_byte st m)) = (complete_packet m3)\<lparr>packet_idx := 0\<rparr>"
    unfolding 2 by (simp add: on_byte_def m3_def numeral_2_eq_2 numeral_3_eq_3)
  show ?thesis
    unfolding j 3 Let_def using complete_packet_spec [of m3 st x y]
    by (simp add: m3_def mouse_wf_def)
qed

theorem mouse_packet_decoded_witness:
  "let m' = on_byte 0xfe (on_byte 5 (on_byte 0x09 (on_byte 0x41 mouse_new))) in
    sint (dx m') = 5 \<and> sint (dy m') = 2 \<and> buttons m' = 1"
  using mouse_packet_decoded [OF mouse_new_wf, of "0x09" "0x41" "0xfe" 5]
  by (simp add: mouse_new_def packet_dx_def packet_dy_def Let_def)


end
