(* ===== verification/Devfs.thy ===== *)
theory Devfs
  imports Ata File_Ops Input
begin

text \<open>
  The device file system \<^verbatim>\<open>kernel/src/fs/devfs.rs\<close>: the disk, the keyboard, the serial
  port and the framebuffer as files. The devices themselves are the record \<open>devices\<close>; the
  framebuffer is the memory the boot loader maps, if any.
\<close>

record devices =
  dv_disk :: disk
  dv_keys :: ScancodeBuffer
  dv_serial :: bytes
  dv_fb :: "bytes option"

definition DIR_INODE :: u64 where "DIR_INODE = 1"
definition HDA_INODE :: u64 where "HDA_INODE = 2"
definition KBD_INODE :: u64 where "KBD_INODE = 3"
definition SERIAL_INODE :: u64 where "SERIAL_INODE = 4"
definition FB_INODE :: u64 where "FB_INODE = 5"

datatype DevKind = BlockDisk | Keyboard | Serial | Framebuffer

definition devs :: "(u64 \<times> bytes \<times> DevKind) list" where
  "devs = [(HDA_INODE, as_bytes ''hda'', BlockDisk), (KBD_INODE, as_bytes ''kbd'', Keyboard),
     (SERIAL_INODE, as_bytes ''serial'', Serial), (FB_INODE, as_bytes ''framebuffer'', Framebuffer)]"

definition dev_kind :: "u64 \<Rightarrow> DevKind option" where
  "dev_kind i = map_option (\<lambda>(_, _, k). k) (find (\<lambda>(j, _, _). j = i) devs)"

section \<open>Reading\<close>

text \<open>The sector loop: \<open>n\<close> bytes from position \<open>pos\<close>, up to the first sector that cannot be read.\<close>

lemma sector_offset: "unat ((pos :: u64) mod 512) < 512"
  by (simp add: unat_mod)

function hda_read :: "nat \<Rightarrow> u64 \<Rightarrow> disk \<Rightarrow> bytes" where
  "hda_read n pos d =
     (if n = 0 then []
      else case read_sector (pos div 512) d of
        None \<Rightarrow> []
      | Some sector \<Rightarrow>
          let in_sector = unat (pos mod 512); k = min (512 - in_sector) n
          in slice in_sector (in_sector + k) sector @ hda_read (n - k) (pos + of_nat k) d)"
  by pat_completeness auto
termination
  by (relation "measure (\<lambda>(n, pos, d). n)") (use sector_offset in auto)

declare hda_read.simps [simp del]

fun kbd_read :: "nat \<Rightarrow> ScancodeBuffer \<Rightarrow> ScancodeBuffer \<times> bytes" where
  "kbd_read 0 q = (q, [])"
| "kbd_read (Suc n) q =
     (case sb_pop q of
        (q', None) \<Rightarrow> (q', [])
      | (q', Some sc) \<Rightarrow> (case kbd_read n q' of (q'', b) \<Rightarrow> (q'', sc # b)))"

text \<open>The framebuffer read copies \<open>end - start\<close> bytes; when \<open>offset + len\<close> wraps around, that
  difference is negative as a number and huge as a machine word, and the copy runs out of bounds.\<close>

definition fb_read :: "u64 \<Rightarrow> nat \<Rightarrow> bytes \<Rightarrow> bytes result" where
  "fb_read offset n fb =
     (let start = min (unat offset) (length fb);
          e = min (unat (offset + of_nat n)) (length fb)
      in if e < start then Inl ''out of bounds copy'' else Inr (slice start e fb))"

definition dev_read :: "u64 \<Rightarrow> u64 \<Rightarrow> nat \<Rightarrow> devices \<Rightarrow> devices \<times> bytes result" where
  "dev_read inode_id offset n dv =
     (case dev_kind inode_id of
        None \<Rightarrow> (dv, Inl ''device not found'')
      | Some BlockDisk \<Rightarrow> (dv, Inr (hda_read n offset (dv_disk dv)))
      | Some Keyboard \<Rightarrow> (case kbd_read n (dv_keys dv) of (q, b) \<Rightarrow> (dv\<lparr>dv_keys := q\<rparr>, Inr b))
      | Some Serial \<Rightarrow> (dv, Inr [])
      | Some Framebuffer \<Rightarrow>
          (dv, case dv_fb dv of Some fb \<Rightarrow> fb_read offset n fb | None \<Rightarrow> Inr []))"

section \<open>Writing\<close>

definition dev_write :: "u64 \<Rightarrow> u64 \<Rightarrow> bytes \<Rightarrow> devices \<Rightarrow> devices \<times> nat result" where
  "dev_write inode_id offset b dv =
     (case dev_kind inode_id of
        None \<Rightarrow> (dv, Inl ''device not found'')
      | Some BlockDisk \<Rightarrow>
          if offset mod 512 \<noteq> 0 then (dv, Inl ''unaligned block write'')
          else (case write_sectors (offset div 512) b (dv_disk dv) of
                  (d, True) \<Rightarrow> (dv\<lparr>dv_disk := d\<rparr>, Inr (length b))
                | (d, False) \<Rightarrow> (dv\<lparr>dv_disk := d\<rparr>, Inl ''ata write failed''))
      | Some Serial \<Rightarrow> (dv\<lparr>dv_serial := dv_serial dv @ str_or_empty b\<rparr>, Inr (length b))
      | Some Keyboard \<Rightarrow> (dv, Inl ''not writable'')
      | Some Framebuffer \<Rightarrow>
          (case dv_fb dv of
             None \<Rightarrow> (dv, Inr 0)
           | Some fb \<Rightarrow>
               let start = min (unat offset) (length fb); n = min (length fb - start) (length b)
               in (dv\<lparr>dv_fb := Some (splice start (take n b) fb)\<rparr>, Inr n)))"

section \<open>The other operations\<close>

definition dev_size :: "u64 \<Rightarrow> devices \<Rightarrow> u64" where
  "dev_size inode_id dv =
     (if inode_id = HDA_INODE then total_sectors (dv_disk dv) * 512
      else if inode_id = FB_INODE then (case dv_fb dv of Some fb \<Rightarrow> of_nat (length fb) | None \<Rightarrow> 0)
      else 0)"

definition dev_file_type :: "u64 \<Rightarrow> devices \<Rightarrow> FileType" where
  "dev_file_type inode_id dv = (if inode_id = DIR_INODE then Directory else CharDevice)"

definition dev_readdir :: "u64 \<Rightarrow> devices \<Rightarrow> devices \<times> DirEntry list result" where
  "dev_readdir inode_id dv = (dv, Inr (map (\<lambda>(i, nm, k).
     \<lparr>de_name = nm, de_inode = i, de_type = (case k of BlockDisk \<Rightarrow> BlockDevice | _ \<Rightarrow> CharDevice)\<rparr>) devs))"

definition dev_lookup :: "u64 \<Rightarrow> bytes \<Rightarrow> devices \<Rightarrow> devices \<times> u64 result" where
  "dev_lookup dir_id nm dv = (dv,
     if dir_id \<noteq> DIR_INODE then Inl ''not a directory''
     else case find (\<lambda>(_, n, _). n = nm) devs of
       Some (i, _, _) \<Rightarrow> Inr i
     | None \<Rightarrow> Inl ''device not found'')"

definition devfs_ops :: "devices FileOps" where
  "devfs_ops = \<lparr>fo_read = dev_read, fo_write = dev_write, fo_size = dev_size,
     fo_file_type = dev_file_type, fo_readdir = dev_readdir, fo_lookup = dev_lookup,
     fo_create = \<lambda>_ _ dv. (dv, Inl ''cannot create devices''),
     fo_mkdir = \<lambda>_ _ dv. (dv, Inl ''cannot create directories in devfs''),
     fo_truncate = \<lambda>_ _ dv. (dv, Inl ''cannot truncate devices''),
     fo_unlink = \<lambda>_ _ dv. (dv, Inl ''cannot remove devices'')\<rparr>"

section \<open>The disk as a file\<close>

text \<open>The byte at a position of the disk.\<close>

definition byte_at :: "disk \<Rightarrow> nat \<Rightarrow> u8" where
  "byte_at d a = image d (of_nat (a div 512)) ! (a mod 512)"

lemma read_sector_ok: "disk_ok d \<Longrightarrow> unat lba < 2 ^ 28 \<Longrightarrow> read_sector lba d = Some (image d lba)"
  using read_sectors_ok [of d lba 1] by (simp add: read_sector_def disk_bytes_def)

lemma sector_bytes:
  assumes "disk_ok d" "p mod 512 + k \<le> 512"
  shows "slice (p mod 512) (p mod 512 + k) (image d (of_nat (p div 512))) = map (byte_at d) [p..<p + k]"
proof (rule nth_equalityI)
  have l: "length (image d (of_nat (p div 512))) = 512" using assms(1) by (simp add: disk_ok_def)
  then show "length (slice (p mod 512) (p mod 512 + k) (image d (of_nat (p div 512)))) = length (map (byte_at d) [p..<p + k])"
    using assms(2) by simp
  fix i assume "i < length (slice (p mod 512) (p mod 512 + k) (image d (of_nat (p div 512))))"
  then have i: "i < k" "p mod 512 + i < 512" using l assms(2) by simp_all
  have "(512 * (p div 512) + (p mod 512 + i)) div 512 = p div 512" "(512 * (p div 512) + (p mod 512 + i)) mod 512 = p mod 512 + i"
    unfolding div_mult_self4 [OF zero_neq_numeral [symmetric]] mod_mult_self4 using i(2) by simp_all
  moreover have "512 * (p div 512) + (p mod 512 + i) = p + i" by (simp add: add.assoc [symmetric])
  ultimately have "(p + i) div 512 = p div 512" "(p + i) mod 512 = p mod 512 + i" by simp_all
  from this i l show "slice (p mod 512) (p mod 512 + k) (image d (of_nat (p div 512))) ! i = map (byte_at d) [p..<p + k] ! i"
    by (simp add: nth_slice byte_at_def)
qed

lemma hda_read_bytes:
  assumes "disk_ok d" "unat pos + n \<le> 512 * 2 ^ 28"
  shows "hda_read n pos d = map (byte_at d) [unat pos..<unat pos + n]"
  using assms(2)
proof (induction n arbitrary: pos rule: less_induct)
  case (less n)
  show ?case
  proof (cases "n = 0")
    case True
    then show ?thesis by (simp add: hda_read.simps)
  next
    case False
    define k where "k = min (512 - unat pos mod 512) n"
    have k: "0 < k" "k \<le> n" "unat pos mod 512 + k \<le> 512" using False by (auto simp: k_def)
    have u: "unat (pos mod 512) = unat pos mod 512" "unat (pos div 512) = unat pos div 512" by (simp_all add: unat_mod unat_div)
    have "unat pos div 512 < 2 ^ 28" using less.prems False by linarith
    then have r: "read_sector (pos div 512) d = Some (image d (of_nat (unat pos div 512)))"
      using read_sector_ok [OF assms(1), of "pos div 512"] unfolding u(2) [symmetric] by simp
    have up: "unat (pos + of_nat k) = unat pos + k"
    proof -
      have "unat (of_nat k :: u64) = k" using k less.prems by (intro of_nat_inverse [OF refl]) simp
      then show ?thesis using k less.prems unat_add_lem [of pos "of_nat k"] by simp
    qed
    have "hda_read (n - k) (pos + of_nat k) d = map (byte_at d) [unat pos + k..<unat pos + n]"
      using less.IH [of "n - k" "pos + of_nat k"] k less.prems up False by simp
    then have "hda_read n pos d = map (byte_at d) [unat pos..<unat pos + k] @ map (byte_at d) [unat pos + k..<unat pos + n]"
      using False sector_bytes [OF assms(1) k(3)] by (subst hda_read.simps) (simp add: r u k_def [symmetric] Let_def)
    also have "\<dots> = map (byte_at d) [unat pos..<unat pos + n]"
      using k(2) upt_add_eq_append [of "unat pos" "unat pos + k" "n - k"] by simp
    finally show ?thesis .
  qed
qed

end
