(* ===== verification/Fat_Table.thy ===== *)
theory Fat_Table
  imports Ata File_Ops
begin

text \<open>
  The lower half of \<^verbatim>\<open>kernel/src/fs/fat32.rs\<close>: the volume, clusters as disk sectors, and
  the allocation table with its chains. The table is cached in memory and written back as a
  whole. The state of a volume is the record \<open>Fat32Inner\<close> together with the \<open>disk\<close> it is on.
\<close>

section \<open>The volume\<close>

definition FAT_EOC :: u32 where "FAT_EOC = 0x0FFFFFFF"
definition FAT_FREE :: u32 where "FAT_FREE = 0"

record FatInode =
  fi_first_cluster :: u32
  fi_size :: u32
  fi_is_dir :: bool

record Fat32Inner =
  part_start_lba :: u64
  bytes_per_sector :: u16
  sectors_per_cluster :: u8
  rsvd_sec_cnt :: u16
  num_fats :: u8
  fat_sz32 :: u32
  root_cluster :: u32
  data_start_lba :: u64
  fat_cache :: "u32 list"
  fat_inodes :: "(u64 \<times> FatInode) list"
  fat_next_inode :: u64

definition bytes_per_cluster :: "Fat32Inner \<Rightarrow> nat" where
  "bytes_per_cluster v = unat (sectors_per_cluster v) * unat (bytes_per_sector v)"

section \<open>Clusters\<close>

definition cluster_to_lba :: "Fat32Inner \<Rightarrow> u32 \<Rightarrow> u64" where
  "cluster_to_lba v cluster = data_start_lba v + (ucast cluster - 2) * ucast (sectors_per_cluster v)"

text \<open>\<open>read_cluster v c len d\<close>: \<open>len\<close> is the length of the caller's buffer, of which the cluster
  fills the first bytes.\<close>

definition read_cluster :: "Fat32Inner \<Rightarrow> u32 \<Rightarrow> nat \<Rightarrow> disk \<Rightarrow> bytes option" where
  "read_cluster v cluster len d =
     (if len < bytes_per_cluster v then None
      else read_sectors (cluster_to_lba v cluster) (bytes_per_cluster v) d)"

definition write_cluster :: "Fat32Inner \<Rightarrow> u32 \<Rightarrow> bytes \<Rightarrow> disk \<Rightarrow> disk \<times> bool" where
  "write_cluster v cluster b d =
     (if length b < bytes_per_cluster v then (d, False)
      else write_sectors (cluster_to_lba v cluster) (take (bytes_per_cluster v) b) d)"

section \<open>The table on disk\<close>

definition fat_start :: "Fat32Inner \<Rightarrow> u64" where
  "fat_start v = part_start_lba v + ucast (rsvd_sec_cnt v)"

definition fat_bytes :: "Fat32Inner \<Rightarrow> nat" where
  "fat_bytes v = unat (fat_sz32 v) * unat (bytes_per_sector v)"

definition fat_image :: "Fat32Inner \<Rightarrow> bytes" where
  "fat_image v = (let t = concat (map (to_le 4) (fat_cache v))
     in take (fat_bytes v) t @ replicate (fat_bytes v - length t) 0)"

fun write_copies :: "Fat32Inner \<Rightarrow> bytes \<Rightarrow> nat list \<Rightarrow> disk \<Rightarrow> disk \<times> bool" where
  "write_copies v t [] d = (d, True)"
| "write_copies v t (i # is) d =
     (case write_sectors (fat_start v + of_nat i * ucast (fat_sz32 v)) t d of
        (d', False) \<Rightarrow> (d', False)
      | (d', True) \<Rightarrow> write_copies v t is d')"

definition flush_fat :: "Fat32Inner \<Rightarrow> disk \<Rightarrow> disk \<times> bool" where
  "flush_fat v d =
     (case write_sectors (fat_start v) (fat_image v) d of
        (d', False) \<Rightarrow> (d', False)
      | (d', True) \<Rightarrow> write_copies v (fat_image v) [1..<unat (num_fats v)] d')"

definition load_fat :: "Fat32Inner \<Rightarrow> disk \<Rightarrow> Fat32Inner option" where
  "load_fat v d =
     (case read_sectors (fat_start v) (fat_bytes v) d of
        None \<Rightarrow> None
      | Some t \<Rightarrow> Some (v\<lparr>fat_cache := map (\<lambda>i. from_le (slice (4 * i) (4 * i + 4) t)) [0..<fat_bytes v div 4]\<rparr>))"

section \<open>Chains\<close>

text \<open>The loop over at most \<open>n\<close> clusters.\<close>

fun chain_from :: "nat \<Rightarrow> u32 list \<Rightarrow> u32 \<Rightarrow> u32 list" where
  "chain_from 0 fat c = []"
| "chain_from (Suc n) fat c =
     (if c < 2 \<or> length fat \<le> unat c then []
      else let next = fat ! unat c in
        c # (if FAT_EOC - 1 \<le> next \<or> next = 0 then [] else chain_from n fat next))"

definition CHAIN_LIMIT :: nat where "CHAIN_LIMIT = 1000000"

definition cluster_chain :: "Fat32Inner \<Rightarrow> u32 \<Rightarrow> u32 list" where
  "cluster_chain v first = chain_from CHAIN_LIMIT (fat_cache v) first"

definition alloc_cluster :: "Fat32Inner \<Rightarrow> (u32 \<times> Fat32Inner) option" where
  "alloc_cluster v =
     (case find (\<lambda>i. fat_cache v ! i = FAT_FREE) [2..<length (fat_cache v)] of
        Some i \<Rightarrow> Some (of_nat i, v\<lparr>fat_cache := (fat_cache v)[i := FAT_EOC]\<rparr>)
      | None \<Rightarrow> None)"

definition free_clusters :: "u32 list \<Rightarrow> Fat32Inner \<Rightarrow> Fat32Inner" where
  "free_clusters cs v = fold (\<lambda>c v. v\<lparr>fat_cache := (fat_cache v)[unat c := FAT_FREE]\<rparr>) cs v"

definition free_chain :: "u32 \<Rightarrow> Fat32Inner \<Rightarrow> Fat32Inner" where
  "free_chain first v = free_clusters (cluster_chain v first) v"

section \<open>Inodes\<close>

definition get_inode :: "u64 \<Rightarrow> Fat32Inner \<Rightarrow> FatInode option" where
  "get_inode i v = map_of (fat_inodes v) i"

text \<open>\<^verbatim>\<open>inodes.get_mut(&id).unwrap().field = ...\<close>, for an inode that is in the table\<close>

definition upd_inode :: "u64 \<Rightarrow> (FatInode \<Rightarrow> FatInode) \<Rightarrow> Fat32Inner \<Rightarrow> Fat32Inner" where
  "upd_inode i f v = v\<lparr>fat_inodes := map (\<lambda>(j, n). (j, if j = i then f n else n)) (fat_inodes v)\<rparr>"

definition same_file :: "u32 \<Rightarrow> bool \<Rightarrow> FatInode \<Rightarrow> bool" where
  "same_file first isdir n \<longleftrightarrow> fi_first_cluster n = first \<and> fi_is_dir n = isdir"

definition intern_inode :: "u32 \<Rightarrow> u32 \<Rightarrow> bool \<Rightarrow> Fat32Inner \<Rightarrow> u64 \<times> Fat32Inner" where
  "intern_inode first sz isdir v =
     (case find (\<lambda>(i, n). same_file first isdir n) (fat_inodes v) of
        Some (i, n) \<Rightarrow> (i, v)
      | None \<Rightarrow>
          let i = fat_next_inode v in
          (i, v\<lparr>fat_next_inode := i + 1,
                fat_inodes := bt_insert i \<lparr>fi_first_cluster = first, fi_size = sz, fi_is_dir = isdir\<rparr> (fat_inodes v)\<rparr>))"

section \<open>Disjoint ranges of sectors\<close>

lemma unat_lba_add:
  assumes "unat (l :: u64) + n \<le> 2 ^ 28" "s \<le> n"
  shows "unat (l + of_nat s) = unat l + s"
proof -
  have "unat (of_nat s :: u64) = s" using assms by (intro of_nat_inverse [OF refl]) simp
  then show ?thesis using assms unat_add_lem [of l "of_nat s"] by simp
qed

lemma put_sectors_other:
  assumes "unat lba + n \<le> 2 ^ 28" "unat l < unat lba \<or> unat lba + n \<le> unat l"
  shows "put_sectors lba n b im l = im l"
proof -
  have "n \<le> unat (l - lba)" using assms by (auto simp: unat_sub_if' word_le_nat_alt)
  then show ?thesis by (simp add: put_sectors_def)
qed

lemma disk_bytes_put_other:
  assumes "unat lba + n \<le> 2 ^ 28" "unat l + m \<le> 2 ^ 28" "unat l + m \<le> unat lba \<or> unat lba + n \<le> unat l"
  shows "disk_bytes (d\<lparr>image := put_sectors lba n b (image d)\<rparr>) l m = disk_bytes d l m"
proof -
  have "put_sectors lba n b (image d) (l + of_nat s) = image d (l + of_nat s)" if "s < m" for s
    using that assms unat_lba_add [OF assms(2), of s] by (intro put_sectors_other) auto
  then have "map (\<lambda>s. put_sectors lba n b (image d) (l + of_nat s)) [0..<m] = map (\<lambda>s. image d (l + of_nat s)) [0..<m]"
    by simp
  then show ?thesis by (simp add: disk_bytes_def del: map_eq_conv)
qed

section \<open>Well-formed volumes\<close>

definition vol_ok :: "Fat32Inner \<Rightarrow> bool" where
  "vol_ok v \<longleftrightarrow> bytes_per_sector v = 512 \<and> sectors_per_cluster v \<noteq> 0 \<and> fat_sz32 v \<noteq> 0 \<and> num_fats v \<noteq> 0 \<and>
     length (fat_cache v) = 128 * unat (fat_sz32 v) \<and>
     unat (data_start_lba v) = unat (fat_start v) + unat (num_fats v) * unat (fat_sz32 v) \<and>
     unat (data_start_lba v) + (length (fat_cache v) - 2) * unat (sectors_per_cluster v) \<le> 2 ^ 28"

definition valid_cluster :: "Fat32Inner \<Rightarrow> u32 \<Rightarrow> bool" where
  "valid_cluster v c \<longleftrightarrow> 2 \<le> unat c \<and> unat c < length (fat_cache v)"

definition cluster_bytes :: "Fat32Inner \<Rightarrow> disk \<Rightarrow> u32 \<Rightarrow> bytes" where
  "cluster_bytes v d c = disk_bytes d (cluster_to_lba v c) (unat (sectors_per_cluster v))"

lemma vol_okD:
  assumes "vol_ok v"
  shows "bytes_per_sector v = 512" "sectors_per_cluster v \<noteq> 0" "fat_sz32 v \<noteq> 0" "num_fats v \<noteq> 0"
    "length (fat_cache v) = 128 * unat (fat_sz32 v)"
    "unat (data_start_lba v) = unat (fat_start v) + unat (num_fats v) * unat (fat_sz32 v)"
    "unat (data_start_lba v) + (length (fat_cache v) - 2) * unat (sectors_per_cluster v) \<le> 2 ^ 28"
  using assms unfolding vol_ok_def by blast+

lemma bpc_ok: "vol_ok v \<Longrightarrow> bytes_per_cluster v = 512 * unat (sectors_per_cluster v)"
  by (simp add: vol_ok_def bytes_per_cluster_def)

lemma spc_pos: "vol_ok v \<Longrightarrow> 0 < unat (sectors_per_cluster v)"
  by (simp add: vol_ok_def unat_gt_0)

text \<open>Cluster numbers stay below the end-of-chain marks.\<close>

lemma vol_ok_small:
  assumes "vol_ok v" "valid_cluster v c"
  shows "c < FAT_EOC - 1" "c \<noteq> 0" "\<not> c < 2" "unat c < 2 ^ 28 - 2"
proof -
  define fs where "fs = unat (fat_sz32 v)"
  have 1: "1 * fs \<le> unat (num_fats v) * fs" "0 < fs"
    using assms(1) unat_gt_0 [of "num_fats v"] unat_gt_0 [of "fat_sz32 v"]
    by (auto simp: vol_ok_def fs_def intro: mult_le_mono1)
  have 2: "(128 * fs - 2) * 1 \<le> (128 * fs - 2) * unat (sectors_per_cluster v)"
    using spc_pos [OF assms(1)] by (intro mult_le_mono2) simp
  have 3: "unat (data_start_lba v) = unat (fat_start v) + unat (num_fats v) * fs"
    "unat (data_start_lba v) + (128 * fs - 2) * unat (sectors_per_cluster v) \<le> 2 ^ 28"
    using vol_okD(6,7) [OF assms(1)] unfolding vol_okD(5) [OF assms(1)] fs_def by simp_all
  then have "fs + (128 * fs - 2) \<le> 2 ^ 28" using 1 2 by linarith
  moreover have "unat c < 128 * fs" "2 \<le> unat c" using assms by (auto simp: vol_ok_def valid_cluster_def fs_def)
  ultimately show u: "unat c < 2 ^ 28 - 2" by simp
  then show "c < FAT_EOC - 1" by (simp add: FAT_EOC_def word_less_nat_alt)
  show "c \<noteq> 0" "\<not> c < 2" using \<open>2 \<le> unat c\<close> by (auto simp: word_less_nat_alt)
qed

text \<open>Where a cluster lies, and that the table and the other clusters lie elsewhere.\<close>

lemma cluster_lba:
  assumes "vol_ok v" "valid_cluster v c"
  shows "unat (cluster_to_lba v c) = unat (data_start_lba v) + (unat c - 2) * unat (sectors_per_cluster v)"
    "unat (cluster_to_lba v c) + unat (sectors_per_cluster v) \<le> 2 ^ 28"
proof -
  let ?s = "unat (sectors_per_cluster v)"
  have b: "unat (data_start_lba v) + (length (fat_cache v) - 2) * ?s \<le> 2 ^ 28" by (rule vol_okD(7) [OF assms(1)])
  have c: "2 \<le> unat c" "unat c < length (fat_cache v)" using assms(2) by (simp_all add: valid_cluster_def)
  have "(unat c - 2) * ?s + ?s = (unat c - 1) * ?s" using c(1) by (simp add: algebra_simps flip: add_mult_distrib)
  also have "\<dots> \<le> (length (fat_cache v) - 2) * ?s" using c by (intro mult_le_mono1) simp
  finally have m: "unat (data_start_lba v) + (unat c - 2) * ?s + ?s \<le> 2 ^ 28" using b by simp
  have u: "unat (ucast c :: u64) = unat c" "unat (ucast (sectors_per_cluster v) :: u64) = ?s"
    by (simp_all add: unat_ucast_up)
  have "unat (ucast c - 2 :: u64) = unat c - 2"
    using c(1) by (subst unat_sub) (simp_all add: word_le_nat_alt u)
  moreover from this have "unat ((ucast c - 2) * ucast (sectors_per_cluster v) :: u64) = (unat c - 2) * ?s"
    using m u unat_mult_lem [of "ucast c - 2 :: u64" "ucast (sectors_per_cluster v)"] by simp
  ultimately show l: "unat (cluster_to_lba v c) = unat (data_start_lba v) + (unat c - 2) * ?s"
    using m unat_add_lem [of "data_start_lba v" "(ucast c - 2) * ucast (sectors_per_cluster v)"]
    by (simp add: cluster_to_lba_def)
  show "unat (cluster_to_lba v c) + ?s \<le> 2 ^ 28" using l m by simp
qed

lemma clusters_disjoint:
  assumes "vol_ok v" "valid_cluster v c" "valid_cluster v e" "c \<noteq> e"
  shows "unat (cluster_to_lba v c) + unat (sectors_per_cluster v) \<le> unat (cluster_to_lba v e) \<or>
    unat (cluster_to_lba v e) + unat (sectors_per_cluster v) \<le> unat (cluster_to_lba v c)"
proof -
  let ?s = "unat (sectors_per_cluster v)"
  have step: "(i - 2) * ?s + ?s \<le> (j - 2) * ?s" if "2 \<le> i" "i < j" for i j :: nat
  proof -
    have "(i - 2) * ?s + ?s = (i - 1) * ?s" using that(1) by (simp add: algebra_simps flip: add_mult_distrib)
    also have "\<dots> \<le> (j - 2) * ?s" using that by (intro mult_le_mono1) simp
    finally show ?thesis .
  qed
  have "unat c < unat e \<or> unat e < unat c" using assms(4) by (metis nat_neq_iff word_unat_eq_iff)
  then show ?thesis
    using step [of "unat c" "unat e"] step [of "unat e" "unat c"] assms(2,3)
      cluster_lba(1) [OF assms(1,2)] cluster_lba(1) [OF assms(1,3)]
    by (auto simp: valid_cluster_def)
qed

section \<open>Cluster input and output\<close>

definition put_cluster :: "Fat32Inner \<Rightarrow> u32 \<Rightarrow> bytes \<Rightarrow> disk \<Rightarrow> disk" where
  "put_cluster v c b d =
     d\<lparr>image := put_sectors (cluster_to_lba v c) (unat (sectors_per_cluster v)) b (image d)\<rparr>"

lemma read_cluster_ok:
  "vol_ok v \<Longrightarrow> disk_ok d \<Longrightarrow> valid_cluster v c \<Longrightarrow> bytes_per_cluster v \<le> len \<Longrightarrow>
   read_cluster v c len d = Some (cluster_bytes v d c)"
  using read_sectors_ok [OF _ cluster_lba(2) spc_pos, of d v c]
  by (simp add: read_cluster_def cluster_bytes_def bpc_ok)

lemma write_cluster_ok:
  "vol_ok v \<Longrightarrow> disk_ok d \<Longrightarrow> valid_cluster v c \<Longrightarrow> length b = bytes_per_cluster v \<Longrightarrow>
   write_cluster v c b d = (put_cluster v c b d, True)"
  using write_sectors_ok [OF _ cluster_lba(2) spc_pos, of d v c b]
  by (simp add: write_cluster_def put_cluster_def bpc_ok)

lemma put_cluster_ok [wf_intros]:
  "vol_ok v \<Longrightarrow> disk_ok d \<Longrightarrow> length b = bytes_per_cluster v \<Longrightarrow> disk_ok (put_cluster v c b d)"
  unfolding put_cluster_def by (rule disk_ok_put) (simp_all add: bpc_ok)

lemma length_cluster_bytes [simp]:
  "vol_ok v \<Longrightarrow> disk_ok d \<Longrightarrow> length (cluster_bytes v d c) = bytes_per_cluster v"
  by (simp add: cluster_bytes_def length_disk_bytes bpc_ok)

lemma cluster_bytes_put:
  assumes "vol_ok v" "disk_ok d" "valid_cluster v c" "valid_cluster v e" "length b = bytes_per_cluster v"
  shows "cluster_bytes v (put_cluster v c b d) e = (if e = c then b else cluster_bytes v d e)"
proof (cases "e = c")
  case True
  then show ?thesis
    using disk_bytes_put [of b "unat (sectors_per_cluster v)" "cluster_to_lba v c" "image d" d] assms
      cluster_lba(2) [OF assms(1,3)]
    by (simp add: cluster_bytes_def put_cluster_def bpc_ok)
next
  case False
  then show ?thesis
    using disk_bytes_put_other [OF cluster_lba(2) [OF assms(1,3)] cluster_lba(2) [OF assms(1,4)]]
      clusters_disjoint [OF assms(1,3,4)]
    by (auto simp: cluster_bytes_def put_cluster_def)
qed

section \<open>Writing the table back\<close>

lemma copy_lba:
  assumes "vol_ok v" "i < unat (num_fats v)"
  shows "unat (fat_start v + of_nat i * ucast (fat_sz32 v)) = unat (fat_start v) + i * unat (fat_sz32 v)"
    "unat (fat_start v) + i * unat (fat_sz32 v) + unat (fat_sz32 v) \<le> unat (data_start_lba v)"
    "unat (data_start_lba v) \<le> 2 ^ 28"
proof -
  let ?f = "unat (fat_sz32 v)"
  have "i * ?f + ?f = Suc i * ?f" by simp
  also have "\<dots> \<le> unat (num_fats v) * ?f" using assms(2) by (intro mult_le_mono1) simp
  finally show le: "unat (fat_start v) + i * ?f + ?f \<le> unat (data_start_lba v)" using vol_okD(6) [OF assms(1)] by simp
  show d: "unat (data_start_lba v) \<le> 2 ^ 28" using vol_okD(7) [OF assms(1)] by linarith
  have "unat (num_fats v) < 2 ^ LENGTH(8)" by (rule unsigned_less)
  then have i: "unat (of_nat i :: u64) = i" using assms(2) by (intro of_nat_inverse [OF refl]) simp
  have "unat (of_nat i * ucast (fat_sz32 v) :: u64) = i * ?f"
    using unat_mult_lem [of "of_nat i :: u64" "ucast (fat_sz32 v)"] i le d by (simp add: unat_ucast_up)
  then show "unat (fat_start v + of_nat i * ucast (fat_sz32 v)) = unat (fat_start v) + i * ?f"
    using unat_add_lem [of "fat_start v" "of_nat i * ucast (fat_sz32 v)"] le d by simp
qed

lemma length_table: "length (concat (map (to_le 4) xs)) = 4 * length xs"
  by (induction xs) simp_all

lemma fat_image_ok:
  assumes "vol_ok v"
  shows "fat_image v = concat (map (to_le 4) (fat_cache v))" "length (fat_image v) = 512 * unat (fat_sz32 v)"
  using vol_okD(1,5) [OF assms] by (simp_all add: fat_image_def fat_bytes_def length_table)

lemma write_copies_ok:
  assumes "vol_ok v" "length t = 512 * unat (fat_sz32 v)" "disk_ok d"
  shows "\<exists>d'. write_copies v t [i..<unat (num_fats v)] d = (d', True) \<and> disk_ok d' \<and>
    (\<forall>l. unat l < unat (fat_start v) + i * unat (fat_sz32 v) \<or> unat (data_start_lba v) \<le> unat l \<longrightarrow> image d' l = image d l)"
  using assms(3)
proof (induction "unat (num_fats v) - i" arbitrary: i d)
  case 0
  then show ?case by auto
next
  case (Suc m)
  let ?f = "unat (fat_sz32 v)"
  define l0 where "l0 = fat_start v + of_nat i * ucast (fat_sz32 v)"
  have i: "i < unat (num_fats v)" using Suc.hyps(2) by simp
  have l0: "unat l0 = unat (fat_start v) + i * ?f" "unat l0 + ?f \<le> unat (data_start_lba v)" "unat l0 + ?f \<le> 2 ^ 28"
    using copy_lba [OF assms(1) i] by (simp_all add: l0_def)
  have f: "0 < ?f" using vol_okD(3) [OF assms(1)] by (simp add: unat_gt_0)
  define d1 where "d1 = d\<lparr>image := put_sectors l0 ?f t (image d)\<rparr>"
  have w: "write_sectors l0 t d = (d1, True)"
    using write_sectors_ok [OF Suc.prems l0(3) f assms(2)] by (simp add: d1_def)
  have ok: "disk_ok d1" unfolding d1_def by (rule disk_ok_put [OF Suc.prems assms(2)])
  have "m = unat (num_fats v) - Suc i" using Suc.hyps(2) by simp
  from Suc.hyps(1) [OF this ok] obtain d' where
    d': "write_copies v t [Suc i..<unat (num_fats v)] d1 = (d', True)" "disk_ok d'"
      "\<And>l. unat l < unat (fat_start v) + Suc i * ?f \<or> unat (data_start_lba v) \<le> unat l \<Longrightarrow> image d' l = image d1 l"
    by blast
  have "image d' l = image d l" if "unat l < unat (fat_start v) + i * ?f \<or> unat (data_start_lba v) \<le> unat l" for l
    using d'(3) [of l] put_sectors_other [OF l0(3), of l t "image d"] that l0 by (auto simp: d1_def)
  then show ?case using d'(1,2) w i by (auto simp: upt_conv_Cons l0_def)
qed

lemma flush_fat_ok:
  assumes "vol_ok v" "disk_ok d"
  shows "\<exists>d'. flush_fat v d = (d', True) \<and> disk_ok d' \<and> disk_bytes d' (fat_start v) (unat (fat_sz32 v)) = fat_image v \<and>
    (\<forall>l. unat l < unat (fat_start v) \<or> unat (data_start_lba v) \<le> unat l \<longrightarrow> image d' l = image d l)"
proof -
  let ?f = "unat (fat_sz32 v)"
  have f: "0 < ?f" using vol_okD(3) [OF assms(1)] by (simp add: unat_gt_0)
  have n: "0 < unat (num_fats v)" using vol_okD(4) [OF assms(1)] by (simp add: unat_gt_0)
  note c = copy_lba [OF assms(1) n, simplified]
  have b: "unat (fat_start v) + ?f \<le> 2 ^ 28" using c by simp
  define d1 where "d1 = d\<lparr>image := put_sectors (fat_start v) ?f (fat_image v) (image d)\<rparr>"
  have w: "write_sectors (fat_start v) (fat_image v) d = (d1, True)"
    using write_sectors_ok [OF assms(2) b f fat_image_ok(2) [OF assms(1)]] by (simp add: d1_def)
  have ok: "disk_ok d1" unfolding d1_def by (rule disk_ok_put [OF assms(2) fat_image_ok(2) [OF assms(1)]])
  have m: "disk_bytes d1 (fat_start v) ?f = fat_image v"
    unfolding d1_def using b by (intro disk_bytes_put fat_image_ok(2) [OF assms(1)]) simp
  from write_copies_ok [OF assms(1) fat_image_ok(2) [OF assms(1)] ok, of 1] obtain d' where
    d': "write_copies v (fat_image v) [1..<unat (num_fats v)] d1 = (d', True)" "disk_ok d'"
      "\<And>l. unat l < unat (fat_start v) + ?f \<or> unat (data_start_lba v) \<le> unat l \<Longrightarrow> image d' l = image d1 l" by auto
  have "image d' (fat_start v + of_nat s) = image d1 (fat_start v + of_nat s)" if "s < ?f" for s
    using that unat_lba_add [OF b, of s] by (intro d'(3)) simp
  then have "map (\<lambda>s. image d' (fat_start v + of_nat s)) [0..<?f] = map (\<lambda>s. image d1 (fat_start v + of_nat s)) [0..<?f]"
    by simp
  then have "disk_bytes d' (fat_start v) ?f = fat_image v" using m by (simp only: disk_bytes_def)
  moreover have "image d' l = image d l" if "unat l < unat (fat_start v) \<or> unat (data_start_lba v) \<le> unat l" for l
    using d'(3) [of l] put_sectors_other [OF b, of l "fat_image v" "image d"] that c by (auto simp: d1_def)
  ultimately show ?thesis using d'(1,2) w by (auto simp: flush_fat_def)
qed

lemma cluster_bytes_cong:
  assumes "vol_ok v" "valid_cluster v c" "\<And>l. unat (data_start_lba v) \<le> unat l \<Longrightarrow> image d' l = image d l"
  shows "cluster_bytes v d' c = cluster_bytes v d c"
proof -
  let ?s = "unat (sectors_per_cluster v)"
  have "image d' (cluster_to_lba v c + of_nat s) = image d (cluster_to_lba v c + of_nat s)" if "s < ?s" for s
    using that unat_lba_add [OF cluster_lba(2) [OF assms(1,2)], of s] cluster_lba(1) [OF assms(1,2)]
    by (intro assms(3)) simp
  then have "map (\<lambda>s. image d' (cluster_to_lba v c + of_nat s)) [0..<?s] = map (\<lambda>s. image d (cluster_to_lba v c + of_nat s)) [0..<?s]"
    by simp
  then show ?thesis by (simp only: cluster_bytes_def disk_bytes_def)
qed

lemma table_entry: "i < length xs \<Longrightarrow> from_le (slice (4 * i) (4 * i + 4) (concat (map (to_le 4) xs))) = (xs ! i :: u32)"
proof -
  assume "i < length xs"
  moreover have "\<And>x. x \<in> set (map (to_le 4) xs) \<Longrightarrow> length x = 4" by auto
  ultimately show ?thesis using slice_concat [of "map (to_le 4) xs" 4 i] by (simp add: from_le_to_le)
qed

text \<open>
  Writing the allocation table back and loading it again gives the same table, and the
  write touches nothing but the copies of the table: every sector outside them, and so every
  cluster of data, keeps its contents.
\<close>

theorem flush_load_fat:
  assumes "vol_ok v" "disk_ok d"
  shows "\<exists>d'. flush_fat v d = (d', True) \<and> disk_ok d' \<and> load_fat (v\<lparr>fat_cache := []\<rparr>) d' = Some v \<and>
    (\<forall>l. unat l < unat (fat_start v) \<or> unat (data_start_lba v) \<le> unat l \<longrightarrow> image d' l = image d l) \<and>
    (\<forall>c. valid_cluster v c \<longrightarrow> cluster_bytes v d' c = cluster_bytes v d c)"
proof -
  from flush_fat_ok [OF assms] obtain d' where d': "flush_fat v d = (d', True)" "disk_ok d'"
    "disk_bytes d' (fat_start v) (unat (fat_sz32 v)) = fat_image v"
    "\<forall>l. unat l < unat (fat_start v) \<or> unat (data_start_lba v) \<le> unat l \<longrightarrow> image d' l = image d l" by blast
  have n: "0 < unat (num_fats v)" using vol_okD(4) [OF assms(1)] by (simp add: unat_gt_0)
  have f: "0 < unat (fat_sz32 v)" using vol_okD(3) [OF assms(1)] by (simp add: unat_gt_0)
  have b: "unat (fat_start v) + unat (fat_sz32 v) \<le> 2 ^ 28" using copy_lba [OF assms(1) n] by simp
  have g: "fat_start (v\<lparr>fat_cache := []\<rparr>) = fat_start v" "fat_bytes (v\<lparr>fat_cache := []\<rparr>) = 512 * unat (fat_sz32 v)"
    using vol_okD(1) [OF assms(1)] by (simp_all add: fat_start_def fat_bytes_def)
  have r: "read_sectors (fat_start v) (512 * unat (fat_sz32 v)) d' = Some (fat_image v)"
    using read_sectors_ok [OF d'(2) b f] d'(3) by simp
  have "map (\<lambda>i. from_le (slice (4 * i) (4 * i + 4) (fat_image v))) [0..<length (fat_cache v)] = fat_cache v"
    unfolding fat_image_ok(1) [OF assms(1)] by (rule nth_equalityI) (simp_all add: table_entry)
  then have "load_fat (v\<lparr>fat_cache := []\<rparr>) d' = Some v"
    using vol_okD(5) [OF assms(1)] by (simp add: load_fat_def g r)
  then show ?thesis using d' cluster_bytes_cong [OF assms(1)] by blast
qed

definition sample_volume :: Fat32Inner where
  "sample_volume = \<lparr>part_start_lba = 2048, bytes_per_sector = 512, sectors_per_cluster = 1, rsvd_sec_cnt = 32,
     num_fats = 2, fat_sz32 = 1, root_cluster = 2, data_start_lba = 2082,
     fat_cache = [0x0FFFFFF8, FAT_EOC, FAT_EOC] @ replicate 125 FAT_FREE,
     fat_inodes = [(1, \<lparr>fi_first_cluster = 2, fi_size = 0, fi_is_dir = True\<rparr>)], fat_next_inode = 2\<rparr>"

definition blank_disk :: disk where
  "blank_disk = \<lparr>disk_present = True, busy = False, image = \<lambda>_. replicate 512 0, faulty = \<lambda>_. False, total_sectors = 4096\<rparr>"

lemma sample_ok: "vol_ok sample_volume" "disk_ok blank_disk"
  by (simp_all add: vol_ok_def sample_volume_def fat_start_def disk_ok_def blank_disk_def)

theorem flush_load_fat_witness:
  "\<exists>d'. flush_fat sample_volume blank_disk = (d', True) \<and> load_fat (sample_volume\<lparr>fat_cache := []\<rparr>) d' = Some sample_volume"
  using flush_load_fat [OF sample_ok] by blast

section \<open>Chains in the table\<close>

fun is_chain :: "u32 list \<Rightarrow> u32 list \<Rightarrow> bool" where
  "is_chain fat [] \<longleftrightarrow> True"
| "is_chain fat (c # cs) \<longleftrightarrow> 2 \<le> unat c \<and> unat c < length fat \<and>
     (case cs of [] \<Rightarrow> FAT_EOC - 1 \<le> fat ! unat c | e # _ \<Rightarrow> fat ! unat c = e \<and> e < FAT_EOC - 1) \<and> is_chain fat cs"

lemma chain_from_is_chain: "is_chain fat (c # cs) \<Longrightarrow> length cs < n \<Longrightarrow> chain_from n fat c = c # cs"
proof (induction n arbitrary: c cs)
  case (Suc n)
  have g: "\<not> c < 2" using Suc.prems(1) by (simp add: word_less_nat_alt)
  show ?case
  proof (cases cs)
    case Nil
    then show ?thesis using Suc.prems(1) g by (simp add: Let_def)
  next
    case (Cons e es)
    then have "chain_from n fat e = e # es" using Suc.prems by (intro Suc.IH) auto
    moreover have "e \<noteq> 0" using Suc.prems(1) Cons by auto
    ultimately show ?thesis using Suc.prems(1) Cons g by (simp add: Let_def not_le)
  qed
qed simp

lemma chain_from_valid: "e \<in> set (chain_from n fat c) \<Longrightarrow> 2 \<le> unat e \<and> unat e < length fat"
  by (induction n fat c rule: chain_from.induct) (auto simp: Let_def word_less_nat_alt split: if_splits)

lemma is_chain_suffix: "is_chain fat (xs @ ys) \<Longrightarrow> is_chain fat ys"
  by (induction xs) auto

lemma is_chain_deterministic: "is_chain fat (c # xs) \<Longrightarrow> is_chain fat (c # ys) \<Longrightarrow> xs = ys"
proof (induction xs arbitrary: c ys)
  case Nil
  then show ?case by (cases ys) auto
next
  case (Cons x xs)
  then show ?case by (cases ys) auto
qed

lemma is_chain_distinct: "is_chain fat cs \<Longrightarrow> distinct cs"
proof (induction cs)
  case (Cons c cs)
  have "c \<notin> set cs"
  proof
    assume "c \<in> set cs"
    then obtain xs ys where s: "cs = xs @ c # ys" by (meson split_list)
    have "is_chain fat (c # ys)" using is_chain_suffix [of fat "c # xs" "c # ys"] Cons.prems s by simp
    then have "cs = ys" using is_chain_deterministic Cons.prems by blast
    with s show False by simp
  qed
  with Cons show ?case by simp
qed simp

lemma unat_notin: "c \<notin> set cs \<Longrightarrow> unat (c :: u32) \<notin> unat ` set cs"
  by (auto simp: word_unat_eq_iff [symmetric])

lemma is_chain_update: "is_chain fat cs \<Longrightarrow> i \<notin> unat ` set cs \<Longrightarrow> is_chain (fat[i := x]) cs"
proof (induction cs)
  case (Cons c cs)
  then show ?case by (cases cs) (simp_all add: nth_list_update_neq)
qed simp

lemma is_chain_snoc:
  assumes "is_chain fat cs" "cs \<noteq> []" "2 \<le> unat c" "unat c < length fat" "c < FAT_EOC - 1" "c \<notin> set cs"
  shows "is_chain (fat[unat c := FAT_EOC, unat (last cs) := c]) (cs @ [c])"
  using assms(1,2,6)
proof (induction cs)
  case (Cons e es)
  have ne: "e \<noteq> c" using Cons.prems(3) by auto
  have nd: "e \<notin> set es" using is_chain_distinct [OF Cons.prems(1)] by simp
  show ?case
  proof (cases es)
    case Nil
    then have "unat c \<noteq> unat e" using ne by (simp add: word_unat_eq_iff)
    with Nil show ?thesis using Cons.prems assms by (simp add: FAT_EOC_def)
  next
    case (Cons e' es')
    have "unat (last es) \<noteq> unat e" "unat c \<noteq> unat e"
      using nd ne Cons last_in_set [of es] by (auto simp: word_unat_eq_iff [symmetric] simp del: last.simps)
    then show ?thesis using Cons.IH Cons.prems Cons by (auto simp: nth_list_update_neq)
  qed
qed simp

lemma alloc_clusterD:
  assumes "alloc_cluster v = Some (c, v')" "vol_ok v"
  shows "valid_cluster v c" "fat_cache v ! unat c = FAT_FREE" "v' = v\<lparr>fat_cache := (fat_cache v)[unat c := FAT_EOC]\<rparr>"
    "\<forall>j. 2 \<le> j \<and> j < unat c \<longrightarrow> fat_cache v ! j \<noteq> FAT_FREE"
proof -
  from assms(1) obtain i where i: "find (\<lambda>i. fat_cache v ! i = FAT_FREE) [2..<length (fat_cache v)] = Some i"
      "c = of_nat i" "v' = v\<lparr>fat_cache := (fat_cache v)[i := FAT_EOC]\<rparr>"
    by (auto simp: alloc_cluster_def split: option.splits)
  note f = i(1) [unfolded find_upt_Some_iff]
  have "length (fat_cache v) < 2 ^ 32"
  proof (rule ccontr)
    assume "\<not> length (fat_cache v) < 2 ^ 32"
    then have "valid_cluster v (of_nat (2 ^ 28))" by (simp add: valid_cluster_def)
    from vol_ok_small(4) [OF assms(2) this] show False by simp
  qed
  then have u: "unat c = i" unfolding i(2) using f by (intro of_nat_inverse [OF refl]) simp
  show "valid_cluster v c" "fat_cache v ! unat c = FAT_FREE" "v' = v\<lparr>fat_cache := (fat_cache v)[unat c := FAT_EOC]\<rparr>"
    "\<forall>j. 2 \<le> j \<and> j < unat c \<longrightarrow> fat_cache v ! j \<noteq> FAT_FREE"
    using f i(3) by (auto simp: u valid_cluster_def)
qed

text \<open>A free cluster is on no chain.\<close>

lemma is_chain_not_free: "is_chain fat cs \<Longrightarrow> c \<in> set cs \<Longrightarrow> fat ! unat c \<noteq> FAT_FREE"
proof (induction cs)
  case (Cons e es)
  then show ?case by (cases es) (auto simp: FAT_FREE_def FAT_EOC_def)
qed simp

definition link_cluster :: "u32 \<Rightarrow> u32 \<Rightarrow> Fat32Inner \<Rightarrow> Fat32Inner" where
  "link_cluster l c v = v\<lparr>fat_cache := (fat_cache v)[unat l := c]\<rparr>"

lemma alloc_link_chain:
  assumes "vol_ok v" "alloc_cluster v = Some (c, v')" "is_chain (fat_cache v) cs"
  shows "c \<notin> set cs" "cs \<noteq> [] \<Longrightarrow> is_chain (fat_cache (link_cluster (last cs) c v')) (cs @ [c])"
    "is_chain (fat_cache v) ds \<Longrightarrow> set ds \<inter> set cs = {} \<Longrightarrow> cs \<noteq> [] \<Longrightarrow> is_chain (fat_cache (link_cluster (last cs) c v')) ds"
proof -
  note a = alloc_clusterD [OF assms(2,1)]
  show n: "c \<notin> set cs" using is_chain_not_free [OF assms(3)] a(2) by auto
  show "is_chain (fat_cache (link_cluster (last cs) c v')) (cs @ [c])" if "cs \<noteq> []"
    using is_chain_snoc [OF assms(3) that _ _ _ n] a(1,3) vol_ok_small(1) [OF assms(1) a(1)]
    by (simp add: link_cluster_def valid_cluster_def)
  assume d: "is_chain (fat_cache v) ds" "set ds \<inter> set cs = {}" "cs \<noteq> []"
  have "c \<notin> set ds" using is_chain_not_free [OF d(1)] a(2) by auto
  moreover have "last cs \<notin> set ds" using d last_in_set by blast
  ultimately show "is_chain (fat_cache (link_cluster (last cs) c v')) ds"
    using d(1) a(3) by (simp add: link_cluster_def is_chain_update unat_notin)
qed

text \<open>
  Growing a chain. Allocation takes the lowest free cluster; linked behind the last
  cluster of a chain it becomes the last cluster of that chain, and every other chain
  of the table stays as it is.
\<close>

theorem alloc_extends_chain:
  assumes "vol_ok v" "alloc_cluster v = Some (c, v')" "is_chain (fat_cache v) (f # cs)" "length cs + 1 < CHAIN_LIMIT"
  shows "cluster_chain (link_cluster (last (f # cs)) c v') f = f # cs @ [c] \<and>
    (\<forall>g ds. is_chain (fat_cache v) (g # ds) \<and> length ds < CHAIN_LIMIT \<and> set (g # ds) \<inter> set (f # cs) = {} \<longrightarrow>
      cluster_chain (link_cluster (last (f # cs)) c v') g = g # ds \<and> c \<notin> set (g # ds)) \<and>
    (\<forall>j. 2 \<le> j \<and> j < unat c \<longrightarrow> fat_cache v ! j \<noteq> FAT_FREE)"
proof (intro conjI)
  show "cluster_chain (link_cluster (last (f # cs)) c v') f = f # cs @ [c]"
    unfolding cluster_chain_def using alloc_link_chain(2) [OF assms(1-3)] assms(4)
    by (intro chain_from_is_chain) simp_all
  show "\<forall>g ds. is_chain (fat_cache v) (g # ds) \<and> length ds < CHAIN_LIMIT \<and> set (g # ds) \<inter> set (f # cs) = {} \<longrightarrow>
      cluster_chain (link_cluster (last (f # cs)) c v') g = g # ds \<and> c \<notin> set (g # ds)"
  proof (intro allI impI, elim conjE, intro conjI)
    fix g ds
    assume d: "is_chain (fat_cache v) (g # ds)" "length ds < CHAIN_LIMIT" "set (g # ds) \<inter> set (f # cs) = {}"
    show "cluster_chain (link_cluster (last (f # cs)) c v') g = g # ds"
      unfolding cluster_chain_def using alloc_link_chain(3) [OF assms(1-3) d(1,3)] d(2) by (intro chain_from_is_chain) simp_all
    show "c \<notin> set (g # ds)" by (rule alloc_link_chain(1) [OF assms(1,2) d(1)])
  qed
  show "\<forall>j. 2 \<le> j \<and> j < unat c \<longrightarrow> fat_cache v ! j \<noteq> FAT_FREE" by (rule alloc_clusterD(4) [OF assms(2,1)])
qed

theorem alloc_extends_chain_witness:
  "\<exists>v'. alloc_cluster sample_volume = Some (3, v') \<and> cluster_chain (link_cluster 2 3 v') 2 = [2, 3]"
proof -
  obtain v' where v': "alloc_cluster sample_volume = Some (3, v')"
    by (simp add: alloc_cluster_def sample_volume_def upt_conv_Cons FAT_FREE_def FAT_EOC_def)
  have "is_chain (fat_cache sample_volume) [2]" by (simp add: sample_volume_def FAT_EOC_def)
  with alloc_extends_chain [OF sample_ok(1) v', of 2 "[]"] v' show ?thesis by (simp add: CHAIN_LIMIT_def)
qed

section \<open>Freeing chains\<close>

lemma free_clusters_cache:
  "length (fat_cache (free_clusters cs v)) = length (fat_cache v)"
  "unat ` set cs \<subseteq> {..<length (fat_cache v)} \<Longrightarrow>
   fat_cache (free_clusters cs v) ! j = (if j \<in> unat ` set cs then FAT_FREE else fat_cache v ! j)"
  by (induction cs arbitrary: v) (auto simp: free_clusters_def nth_list_update)

lemma free_clusters_chain:
  "is_chain (fat_cache v) ds \<Longrightarrow> set ds \<inter> set cs = {} \<Longrightarrow> is_chain (fat_cache (free_clusters cs v)) ds"
proof (induction cs arbitrary: v)
  case (Cons c cs)
  have "is_chain ((fat_cache v)[unat c := FAT_FREE]) ds"
    using Cons.prems by (intro is_chain_update unat_notin) auto
  then show ?case using Cons.IH [of "v\<lparr>fat_cache := (fat_cache v)[unat c := FAT_FREE]\<rparr>"] Cons.prems
    by (simp add: free_clusters_def)
qed (simp add: free_clusters_def)

text \<open>
  Freeing a chain marks exactly its clusters free and leaves every other entry of the
  table, and so every other chain, as it is.
\<close>

theorem free_chain_exact:
  assumes "is_chain (fat_cache v) (f # cs)" "length cs < CHAIN_LIMIT"
  shows "(\<forall>j. fat_cache (free_chain f v) ! j = (if j \<in> unat ` set (f # cs) then FAT_FREE else fat_cache v ! j)) \<and>
    (\<forall>g ds. is_chain (fat_cache v) (g # ds) \<and> length ds < CHAIN_LIMIT \<and> set (g # ds) \<inter> set (f # cs) = {} \<longrightarrow>
      cluster_chain (free_chain f v) g = g # ds)"
proof (intro conjI)
  have c: "cluster_chain v f = f # cs"
    unfolding cluster_chain_def by (rule chain_from_is_chain [OF assms])
  have "unat ` set (f # cs) \<subseteq> {..<length (fat_cache v)}"
    using chain_from_valid [of _ CHAIN_LIMIT "fat_cache v" f] c by (auto simp: cluster_chain_def)
  then show "\<forall>j. fat_cache (free_chain f v) ! j = (if j \<in> unat ` set (f # cs) then FAT_FREE else fat_cache v ! j)"
    using free_clusters_cache(2) [of "f # cs" v] by (simp add: free_chain_def c)
  show "\<forall>g ds. is_chain (fat_cache v) (g # ds) \<and> length ds < CHAIN_LIMIT \<and> set (g # ds) \<inter> set (f # cs) = {} \<longrightarrow>
      cluster_chain (free_chain f v) g = g # ds"
    unfolding free_chain_def c unfolding cluster_chain_def by (blast intro: chain_from_is_chain free_clusters_chain)
qed

theorem free_chain_exact_witness: "fat_cache (free_chain 2 sample_volume) ! 2 = FAT_FREE"
proof -
  have "is_chain (fat_cache sample_volume) [2]" by (simp add: sample_volume_def FAT_EOC_def)
  from free_chain_exact [OF this] show ?thesis by (auto simp: CHAIN_LIMIT_def)
qed

end
