(* ===== verification/Fat_Dir.thy ===== *)
theory Fat_Dir
  imports Fat_Table
begin

text \<open>
  Directories of \<^verbatim>\<open>kernel/src/fs/fat32.rs\<close>: the 32-byte entries, short names, and reading,
  adding and removing entries in the clusters of a directory. Names are bytes; upper case
  is that of ASCII letters, so non-ASCII names are outside the model.
\<close>

section \<open>Entries\<close>

definition ATTR_DIR :: u8 where "ATTR_DIR = 0x10"
definition ATTR_LFN :: u8 where "ATTR_LFN = 0x0F"
definition ATTR_ARCHIVE :: u8 where "ATTR_ARCHIVE = 0x20"

record RawDirEntry =
  re_name :: bytes
  re_attr :: u8
  nt_res :: u8
  crt_time_tenth :: u8
  crt_time :: u16
  crt_date :: u16
  lst_acc_date :: u16
  fst_clus_hi :: u16
  wrt_time :: u16
  wrt_date :: u16
  fst_clus_lo :: u16
  file_size :: u32

definition is_free :: "RawDirEntry \<Rightarrow> bool" where
  "is_free e \<longleftrightarrow> re_name e ! 0 = 0x00 \<or> re_name e ! 0 = 0xE5"

definition is_lfn :: "RawDirEntry \<Rightarrow> bool" where
  "is_lfn e \<longleftrightarrow> re_attr e AND ATTR_LFN = ATTR_LFN"

definition is_dir :: "RawDirEntry \<Rightarrow> bool" where
  "is_dir e \<longleftrightarrow> re_attr e AND ATTR_DIR \<noteq> 0"

definition first_cluster :: "RawDirEntry \<Rightarrow> u32" where
  "first_cluster e = push_bit 16 (ucast (fst_clus_hi e)) OR ucast (fst_clus_lo e)"

text \<open>The entry in 32 bytes of a cluster.\<close>

definition parse_entry :: "bytes \<Rightarrow> RawDirEntry" where
  "parse_entry b =
     \<lparr>re_name = slice 0 11 b, re_attr = b ! 11, nt_res = b ! 12, crt_time_tenth = b ! 13,
      crt_time = from_le (slice 14 16 b), crt_date = from_le (slice 16 18 b),
      lst_acc_date = from_le (slice 18 20 b), fst_clus_hi = from_le (slice 20 22 b),
      wrt_time = from_le (slice 22 24 b), wrt_date = from_le (slice 24 26 b),
      fst_clus_lo = from_le (slice 26 28 b), file_size = from_le (slice 28 32 b)\<rparr>"

definition pack_entry :: "RawDirEntry \<Rightarrow> bytes" where
  "pack_entry e =
     re_name e @ [re_attr e, nt_res e, crt_time_tenth e] @ to_le 2 (crt_time e) @ to_le 2 (crt_date e) @
     to_le 2 (lst_acc_date e) @ to_le 2 (fst_clus_hi e) @ to_le 2 (wrt_time e) @ to_le 2 (wrt_date e) @
     to_le 2 (fst_clus_lo e) @ to_le 4 (file_size e)"

definition new_entry :: "bytes \<Rightarrow> u8 \<Rightarrow> u32 \<Rightarrow> RawDirEntry" where
  "new_entry short attr cluster =
     \<lparr>re_name = short, re_attr = attr, nt_res = 0, crt_time_tenth = 0, crt_time = 0, crt_date = 0,
      lst_acc_date = 0, fst_clus_hi = ucast (drop_bit 16 cluster), wrt_time = 0, wrt_date = 0,
      fst_clus_lo = ucast (cluster AND 0xFFFF), file_size = 0\<rparr>"

section \<open>Names\<close>

definition to_upper :: "bytes \<Rightarrow> bytes" where
  "to_upper = map (\<lambda>b. if 0x61 \<le> b \<and> b \<le> 0x7A then b - 0x20 else b)"

definition to_short_name :: "bytes \<Rightarrow> bytes" where
  "to_short_name nm =
     (let (base, ext) =
            (case find (\<lambda>i. nm ! i = 0x2E) (rev [0..<length nm]) of
               Some i \<Rightarrow> if 0 < i then (take i nm, Some (drop (i + 1) nm)) else (nm, None)
             | None \<Rightarrow> (nm, None));
          short = splice 0 (take 8 (to_upper base)) (replicate 11 0x20)
      in case ext of Some e \<Rightarrow> splice 8 (take 3 (to_upper e)) short | None \<Rightarrow> short)"

definition from_short_name :: "bytes \<Rightarrow> bytes" where
  "from_short_name short =
     (let base = takeWhile (\<lambda>b. b \<noteq> 0x20) (slice 0 8 short);
          ext = takeWhile (\<lambda>b. b \<noteq> 0x20) (slice 8 11 short)
      in str_or_empty base @ (if ext \<noteq> [] then 0x2E # str_or_empty ext else []))"

section \<open>Directories\<close>

type_synonym volume = "Fat32Inner \<times> disk"

definition slot :: "bytes \<Rightarrow> nat \<Rightarrow> bytes" where
  "slot b i = slice (i * 32) (i * 32 + 32) b"

fun read_dir_from :: "Fat32Inner \<Rightarrow> u32 list \<Rightarrow> disk \<Rightarrow> RawDirEntry list" where
  "read_dir_from v [] d = []"
| "read_dir_from v (c # cs) d =
     (case read_cluster v c (bytes_per_cluster v) d of
        None \<Rightarrow> []
      | Some b \<Rightarrow> map (\<lambda>i. parse_entry (slot b i)) [0..<bytes_per_cluster v div 32] @ read_dir_from v cs d)"

definition read_dir_raw :: "Fat32Inner \<Rightarrow> u32 \<Rightarrow> disk \<Rightarrow> RawDirEntry list" where
  "read_dir_raw v dir_cluster d = read_dir_from v (cluster_chain v dir_cluster) d"

text \<open>The first pass of \<^verbatim>\<open>write_dir_entry\<close>; \<open>Inr False\<close>: no free slot in these clusters.\<close>

fun put_entry :: "Fat32Inner \<Rightarrow> RawDirEntry \<Rightarrow> u32 list \<Rightarrow> disk \<Rightarrow> disk \<times> bool result" where
  "put_entry v e [] d = (d, Inr False)"
| "put_entry v e (c # cs) d =
     (case read_cluster v c (bytes_per_cluster v) d of
        None \<Rightarrow> (d, Inl ''ata read failed'')
      | Some b \<Rightarrow>
          (case find (\<lambda>i. b ! (i * 32) = 0x00 \<or> b ! (i * 32) = 0xE5) [0..<bytes_per_cluster v div 32] of
             Some i \<Rightarrow>
               (case write_cluster v c (splice (i * 32) (pack_entry e) b) d of
                  (d', True) \<Rightarrow> (d', Inr True)
                | (d', False) \<Rightarrow> (d', Inl ''ata write failed''))
           | None \<Rightarrow> put_entry v e cs d))"

definition write_dir_entry :: "u32 \<Rightarrow> RawDirEntry \<Rightarrow> bool \<Rightarrow> volume \<Rightarrow> volume \<times> unit result" where
  "write_dir_entry dir_cluster e create_new vd =
     (case vd of (v, d) \<Rightarrow>
      let chain = cluster_chain v dir_cluster in
      case put_entry v e chain d of
        (d1, Inl msg) \<Rightarrow> ((v, d1), Inl msg)
      | (d1, Inr True) \<Rightarrow> ((v, d1), Inr ())
      | (d1, Inr False) \<Rightarrow>
          if \<not> create_new then ((v, d1), Inl ''no free slot in directory'')
          else case alloc_cluster v of
            None \<Rightarrow> ((v, d1), Inl ''out of clusters'')
          | Some (new_cluster, v1) \<Rightarrow>
              if chain = [] then ((v1, d1), Inl ''empty directory chain'')
              else
                let v2 = v1\<lparr>fat_cache := (fat_cache v1)[unat (last chain) := new_cluster]\<rparr>;
                    v3 = v2\<lparr>fat_cache := (fat_cache v2)[unat new_cluster := FAT_EOC]\<rparr>
                in if bytes_per_cluster v < 32 then ((v3, d1), Inl panic)
                   else case write_cluster v3 new_cluster (splice 0 (pack_entry e) (replicate (bytes_per_cluster v) 0)) d1 of
                     (d2, False) \<Rightarrow> ((v3, d2), Inl ''ata write failed'')
                   | (d2, True) \<Rightarrow>
                       (case flush_fat v3 d2 of
                          (d3, False) \<Rightarrow> ((v3, d3), Inl ''fat flush failed'')
                        | (d3, True) \<Rightarrow> ((v3, d3), Inr ())))"

fun remove_from :: "Fat32Inner \<Rightarrow> bytes \<Rightarrow> u32 list \<Rightarrow> disk \<Rightarrow> disk \<times> unit result" where
  "remove_from v short [] d = (d, Inl ''file not found'')"
| "remove_from v short (c # cs) d =
     (case read_cluster v c (bytes_per_cluster v) d of
        None \<Rightarrow> (d, Inl ''ata read failed'')
      | Some b \<Rightarrow>
          (case find (\<lambda>i. b ! (i * 32) = 0x00 \<or>
                   (b ! (i * 32) \<noteq> 0xE5 \<and> b ! (i * 32 + 11) \<noteq> ATTR_LFN \<and> slice (i * 32) (i * 32 + 11) b = short))
                 [0..<bytes_per_cluster v div 32] of
             None \<Rightarrow> remove_from v short cs d
           | Some i \<Rightarrow>
               if b ! (i * 32) = 0x00 then (d, Inl ''file not found'')
               else (case write_cluster v c (b[i * 32 := 0xE5]) d of
                       (d', False) \<Rightarrow> (d', Inl ''ata write failed'')
                     | (d', True) \<Rightarrow> (d', Inr ()))))"

definition remove_dir_entry :: "u32 \<Rightarrow> bytes \<Rightarrow> volume \<Rightarrow> volume \<times> unit result" where
  "remove_dir_entry dir_cluster short vd =
     (case vd of (v, d) \<Rightarrow>
      case remove_from v short (cluster_chain v dir_cluster) d of (d', r) \<Rightarrow> ((v, d'), r))"

section \<open>Packing and parsing\<close>

lemma length_pack [simp]: "length (re_name e) = 11 \<Longrightarrow> length (pack_entry e) = 32"
  by (simp add: pack_entry_def)

lemma slice_append_left [simp]: "b \<le> length xs \<Longrightarrow> slice a b (xs @ ys) = slice a b xs"
  by (simp add: slice_def)

lemma slice_append_right: "length xs \<le> a \<Longrightarrow> slice a b (xs @ ys) = slice (a - length xs) (b - length xs) ys"
  by (simp add: slice_def)

lemma slice_Cons: "0 < a \<Longrightarrow> slice a b (x # xs) = slice (a - 1) (b - 1) xs"
  by (cases a) (simp_all add: slice_def)

lemma slice_all [simp]: "slice 0 (length xs) xs = xs" "length xs \<le> n \<Longrightarrow> slice 0 n xs = xs"
  by (simp_all add: slice_def)

lemma parse_pack:
  assumes "length (re_name e) = 11"
  shows "parse_entry (pack_entry e) = e"
proof -
  have fl: "from_le (to_le 2 (w :: u16)) = w" "from_le (to_le 4 (x :: u32)) = x" for w x
    by (simp_all add: from_le_to_le)
  have n: "pack_entry e ! 11 = re_attr e" "pack_entry e ! 12 = nt_res e" "pack_entry e ! 13 = crt_time_tenth e"
    using assms by (simp_all add: pack_entry_def nth_append)
  have "slice 0 11 (pack_entry e) = re_name e" "slice 14 16 (pack_entry e) = to_le 2 (crt_time e)"
    "slice 16 18 (pack_entry e) = to_le 2 (crt_date e)" "slice 18 20 (pack_entry e) = to_le 2 (lst_acc_date e)"
    "slice 20 22 (pack_entry e) = to_le 2 (fst_clus_hi e)" "slice 22 24 (pack_entry e) = to_le 2 (wrt_time e)"
    "slice 24 26 (pack_entry e) = to_le 2 (wrt_date e)" "slice 26 28 (pack_entry e) = to_le 2 (fst_clus_lo e)"
    "slice 28 32 (pack_entry e) = to_le 4 (file_size e)"
    using assms by (simp_all add: pack_entry_def slice_append_right slice_Cons)
  then show ?thesis by (simp add: parse_entry_def fl n)
qed

lemma join_slices:
  assumes "a \<le> b" "b \<le> c"
  shows "slice a b xs @ slice b c xs = slice a c xs"
proof -
  have "take (c - a) (drop a xs) = take ((b - a) + (c - b)) (drop a xs)" using assms by simp
  also have "\<dots> = take (b - a) (drop a xs) @ take (c - b) (drop (b - a) (drop a xs))" by (rule take_add)
  finally show ?thesis using assms by (simp add: slice_def)
qed

lemma pack_parse:
  assumes "length b = 32"
  shows "pack_entry (parse_entry b) = b"
proof -
  have t: "to_le 2 (from_le (slice i (i + 2) b) :: u16) = slice i (i + 2) b" if "i + 2 \<le> 32" for i
    using to_le_from_le [where 'a = 16, of "slice i (i + 2) b"] that assms by simp
  have t4: "to_le 4 (from_le (slice 28 32 b) :: u32) = slice 28 32 b"
    using to_le_from_le [where 'a = 32, of "slice 28 32 b"] assms by simp
  have s: "[b ! 11, b ! 12, b ! 13] = slice 11 14 b"
    by (rule nth_equalityI) (use assms in \<open>auto simp: nth_slice less_Suc_eq numeral_eq_Suc\<close>)
  show ?thesis
    using t [of 14] t [of 16] t [of 18] t [of 20] t [of 22] t [of 24] t [of 26] t4 assms
    by (simp add: pack_entry_def parse_entry_def s [simplified] join_slices)
qed

section \<open>Directories as lists of slots\<close>

text \<open>What a directory holds, independently of how its clusters are stored.\<close>

definition slots_of :: "bytes \<Rightarrow> bytes list" where
  "slots_of b = map (slot b) [0..<length b div 32]"

definition dir_slots :: "Fat32Inner \<Rightarrow> disk \<Rightarrow> u32 list \<Rightarrow> bytes list" where
  "dir_slots v d cs = concat (map (\<lambda>c. slots_of (cluster_bytes v d c)) cs)"

definition free_slot :: "bytes \<Rightarrow> bool" where
  "free_slot s \<longleftrightarrow> s ! 0 = 0x00 \<or> s ! 0 = 0xE5"

lemma length_slots_of [simp]: "length (slots_of b) = length b div 32"
  by (simp add: slots_of_def)

lemma slot_nth:
  assumes "i < length b div 32" "j < 32"
  shows "slot b i ! j = b ! (i * 32 + j)"
proof -
  have "i * 32 + 32 \<le> length b" using assms(1) by simp
  then show ?thesis using assms(2) by (simp add: slot_def nth_slice)
qed

lemma length_slot: "i < length b div 32 \<Longrightarrow> length (slot b i) = 32"
proof -
  assume "i < length b div 32"
  then have "i * 32 + 32 \<le> length b" by simp
  then show ?thesis by (simp add: slot_def)
qed

lemma slots_of_splice:
  assumes "i < length b div 32" "length p = 32"
  shows "slots_of (splice (i * 32) p b) = (slots_of b)[i := p]"
proof (rule nth_equalityI)
  have i: "i * 32 + length p \<le> length b" using assms by simp
  then show "length (slots_of (splice (i * 32) p b)) = length ((slots_of b)[i := p])" by simp
  fix j assume "j < length (slots_of (splice (i * 32) p b))"
  then have j: "j < length b div 32" using i by simp
  show "slots_of (splice (i * 32) p b) ! j = (slots_of b)[i := p] ! j"
  proof (cases "j = i")
    case True
    then show ?thesis using j i assms(2) slice_splice_same [OF i] by (simp add: slots_of_def slot_def)
  next
    case False
    then have "j * 32 + 32 \<le> i * 32 \<or> i * 32 + length p \<le> j * 32" using assms(2) by auto
    with False j i show ?thesis using slice_splice_other [OF i, of "j * 32 + 32" "j * 32"] by (simp add: slots_of_def slot_def)
  qed
qed

lemma find_free:
  "find (\<lambda>i. b ! (i * 32) = 0x00 \<or> b ! (i * 32) = 0xE5) [0..<length b div 32] = position free_slot (slots_of b)"
  unfolding position_def using slot_nth [of _ b 0]
  by (auto simp: slots_of_def free_slot_def intro!: find_upt_cong)

lemma position_append:
  "position P (xs @ ys) =
     (case position P xs of Some i \<Rightarrow> Some i | None \<Rightarrow> map_option (\<lambda>i. length xs + i) (position P ys))"
proof (cases "position P xs")
  case None
  then have n: "\<not> P (xs ! j)" if "j < length xs" for j
    using that by (simp add: position_None_iff)
  show ?thesis
  proof (cases "position P ys")
    case None
    with \<open>position P xs = None\<close> have "position P (xs @ ys) = None" by (simp only: position_None_iff set_append ball_Un)
    with None \<open>position P xs = None\<close> show ?thesis by simp
  next
    case (Some i)
    then have "position P (xs @ ys) = Some (length xs + i)"
      using n by (auto simp: position_Some_iff nth_append)
    with Some \<open>position P xs = None\<close> show ?thesis by simp
  qed
next
  case (Some i)
  then have "position P (xs @ ys) = Some i" by (auto simp: position_Some_iff nth_append)
  with Some show ?thesis by simp
qed

lemma read_dir_from_slots:
  "vol_ok v \<Longrightarrow> disk_ok d \<Longrightarrow> \<forall>c \<in> set cs. valid_cluster v c \<Longrightarrow> read_dir_from v cs d = map parse_entry (dir_slots v d cs)"
  by (induction cs) (simp_all add: dir_slots_def read_cluster_ok slots_of_def)

lemma dir_slots_put:
  assumes "vol_ok v" "disk_ok d" "valid_cluster v c" "\<forall>e \<in> set cs. valid_cluster v e" "c \<notin> set cs" "length b = bytes_per_cluster v"
  shows "dir_slots v (put_cluster v c b d) cs = dir_slots v d cs"
proof -
  have "map (\<lambda>e. slots_of (cluster_bytes v (put_cluster v c b d) e)) cs = map (\<lambda>e. slots_of (cluster_bytes v d e)) cs"
    using assms cluster_bytes_put [OF assms(1-3) _ assms(6)] by auto
  then show ?thesis by (simp only: dir_slots_def)
qed

text \<open>An entry goes to the first free slot, and nowhere else.\<close>

lemma put_entry_ok:
  assumes "vol_ok v" "disk_ok d" "\<forall>c \<in> set cs. valid_cluster v c" "distinct cs" "length (pack_entry e) = 32"
  shows "case position free_slot (dir_slots v d cs) of
      None \<Rightarrow> put_entry v e cs d = (d, Inr False)
    | Some i \<Rightarrow> \<exists>d'. put_entry v e cs d = (d', Inr True) \<and> disk_ok d' \<and>
        dir_slots v d' cs = (dir_slots v d cs)[i := pack_entry e] \<and>
        (\<forall>c. valid_cluster v c \<and> c \<notin> set cs \<longrightarrow> cluster_bytes v d' c = cluster_bytes v d c)"
  using assms(3,4)
proof (induction cs)
  case Nil
  then show ?case by (simp add: dir_slots_def position_def)
next
  case (Cons c cs)
  let ?b = "cluster_bytes v d c"
  have l: "length ?b = bytes_per_cluster v" using assms by simp
  have v: "valid_cluster v c" "\<forall>c \<in> set cs. valid_cluster v c" "c \<notin> set cs" using Cons.prems by simp_all
  have r: "read_cluster v c (bytes_per_cluster v) d = Some ?b" using assms v by (simp add: read_cluster_ok)
  have f: "find (\<lambda>i. ?b ! (i * 32) = 0x00 \<or> ?b ! (i * 32) = 0xE5) [0..<bytes_per_cluster v div 32] = position free_slot (slots_of ?b)"
    using find_free [of ?b] l by simp
  have ds: "dir_slots v d (c # cs) = slots_of ?b @ dir_slots v d cs" by (simp add: dir_slots_def)
  show ?case
  proof (cases "position free_slot (slots_of ?b)")
    case None
    show ?thesis
    proof (cases "position free_slot (dir_slots v d cs)")
      case None
      then show ?thesis using Cons.IH v(2) Cons.prems(2) \<open>position free_slot (slots_of ?b) = None\<close>
        by (simp add: ds position_append r f)
    next
      case (Some i)
      with Cons.IH v(2) Cons.prems(2) obtain d' where d': "put_entry v e cs d = (d', Inr True)" "disk_ok d'"
        "dir_slots v d' cs = (dir_slots v d cs)[i := pack_entry e]"
        "\<forall>c. valid_cluster v c \<and> c \<notin> set cs \<longrightarrow> cluster_bytes v d' c = cluster_bytes v d c" by auto
      have "dir_slots v d' (c # cs) = (dir_slots v d (c # cs))[length (slots_of ?b) + i := pack_entry e]"
        using d'(3,4) v by (simp add: dir_slots_def list_update_append)
      then show ?thesis using d' Some \<open>position free_slot (slots_of ?b) = None\<close>
        by (simp add: ds position_append r f)
    qed
  next
    case (Some i)
    then have i: "i < length ?b div 32" by (simp add: position_Some_iff)
    then have i': "i * 32 + length (pack_entry e) \<le> length ?b" using assms(5) by simp
    let ?b' = "splice (i * 32) (pack_entry e) ?b"
    have l': "length ?b' = bytes_per_cluster v" using i' l by simp
    have w: "write_cluster v c ?b' d = (put_cluster v c ?b' d, True)"
      by (rule write_cluster_ok [OF assms(1,2) v(1) l'])
    have "dir_slots v (put_cluster v c ?b' d) (c # cs) = (dir_slots v d (c # cs))[i := pack_entry e]"
      using cluster_bytes_put [OF assms(1,2) v(1) v(1) l'] dir_slots_put [OF assms(1,2) v l'] slots_of_splice [OF i assms(5)] i
      by (simp add: dir_slots_def list_update_append)
    moreover have "\<forall>x. valid_cluster v x \<and> x \<notin> set (c # cs) \<longrightarrow> cluster_bytes v (put_cluster v c ?b' d) x = cluster_bytes v d x"
      using cluster_bytes_put [OF assms(1,2) v(1) _ l'] by simp
    ultimately show ?thesis using Some w put_cluster_ok [OF assms(1,2) l'] by (simp add: ds position_append r f)
  qed
qed

section \<open>Adding an entry\<close>

text \<open>The slots of a directory with one more entry: in a free slot, or at the front of a new, cleared cluster.\<close>

definition added :: "bytes list \<Rightarrow> bytes \<Rightarrow> bytes list \<Rightarrow> bool" where
  "added s p s' \<longleftrightarrow> (\<exists>i. i < length s \<and> free_slot (s ! i) \<and> s' = s[i := p]) \<or>
     (\<exists>n. s' = s @ p # replicate n (replicate 32 0))"

lemma table_simps [simp]:
  "bytes_per_cluster (v\<lparr>fat_cache := f\<rparr>) = bytes_per_cluster v"
  "cluster_to_lba (v\<lparr>fat_cache := f\<rparr>) = cluster_to_lba v"
  "cluster_bytes (v\<lparr>fat_cache := f\<rparr>) = cluster_bytes v"
  "put_cluster (v\<lparr>fat_cache := f\<rparr>) = put_cluster v"
  "dir_slots (v\<lparr>fat_cache := f\<rparr>) = dir_slots v"
  by (simp_all add: fun_eq_iff bytes_per_cluster_def cluster_to_lba_def cluster_bytes_def put_cluster_def dir_slots_def)

lemma table_ok:
  "length f = length (fat_cache v) \<Longrightarrow> vol_ok (v\<lparr>fat_cache := f\<rparr>) = vol_ok v"
  "length f = length (fat_cache v) \<Longrightarrow> valid_cluster (v\<lparr>fat_cache := f\<rparr>) = valid_cluster v"
  by (simp_all add: vol_ok_def fat_start_def valid_cluster_def fun_eq_iff)

lemma is_chain_valid: "is_chain (fat_cache v) cs \<Longrightarrow> \<forall>c \<in> set cs. valid_cluster v c"
  by (induction cs) (auto simp: valid_cluster_def)

lemma cluster_chain_hd:
  "is_chain (fat_cache v) cs \<Longrightarrow> cs \<noteq> [] \<Longrightarrow> length cs \<le> CHAIN_LIMIT \<Longrightarrow> cluster_chain v (hd cs) = cs"
  by (cases cs) (auto simp: cluster_chain_def intro!: chain_from_is_chain)

lemma slots_of_fresh:
  assumes "length p = 32" "bpc = 512 * s" "0 < s"
  shows "slots_of (splice 0 p (replicate bpc 0)) = p # replicate (bpc div 32 - 1) (replicate 32 0)"
proof -
  have n: "0 < bpc div 32" using assms by simp
  have z: "slots_of (replicate bpc 0) = replicate (bpc div 32) (replicate 32 0)"
  proof (rule nth_equalityI)
    fix i assume "i < length (slots_of (replicate bpc (0 :: u8)))"
    then have "i * 32 + 32 \<le> bpc" "i < bpc div 32" by simp_all
    then show "slots_of (replicate bpc 0) ! i = replicate (bpc div 32) (replicate 32 0) ! i"
      by (simp add: slots_of_def slot_def slice_def min_def)
  qed simp
  have "slots_of (splice 0 p (replicate bpc 0)) = (slots_of (replicate bpc 0))[0 := p]"
    using slots_of_splice [of 0 "replicate bpc 0" p] n assms(1) by simp
  then show ?thesis unfolding z using n by (cases "bpc div 32") simp_all
qed

text \<open>The state after a successful call on the directory with clusters \<open>cs\<close>: its chain, its slots, and
  that every other chain keeps its clusters and their contents.\<close>

definition entry_added :: "Fat32Inner \<Rightarrow> disk \<Rightarrow> u32 list \<Rightarrow> bytes \<Rightarrow> u32 list \<Rightarrow> disk \<Rightarrow> u32 list \<Rightarrow> bool" where
  "entry_added v d cs p f d' cs' \<longleftrightarrow>
     vol_ok (v\<lparr>fat_cache := f\<rparr>) \<and> disk_ok d' \<and> is_chain f cs' \<and> cs' \<noteq> [] \<and> hd cs' = hd cs \<and> length cs' \<le> CHAIN_LIMIT \<and>
     added (dir_slots v d cs) p (dir_slots v d' cs') \<and>
     (\<forall>ds. is_chain (fat_cache v) ds \<and> set ds \<inter> set cs = {} \<longrightarrow>
        is_chain f ds \<and> (\<forall>c \<in> set ds. cluster_bytes v d' c = cluster_bytes v d c))"

lemma write_dir_entry_slot:
  assumes ok: "vol_ok v" "disk_ok d" and ch: "is_chain (fat_cache v) cs" "cs \<noteq> []" "length cs < CHAIN_LIMIT"
    and e: "length (re_name e) = 11" and i: "position free_slot (dir_slots v d cs) = Some i"
  shows "\<exists>d'. write_dir_entry (hd cs) e True (v, d) = ((v, d'), Inr ()) \<and>
    entry_added v d cs (pack_entry e) (fat_cache v) d' cs"
proof -
  note val = is_chain_valid [OF ch(1)]
  have cc: "cluster_chain v (hd cs) = cs" using cluster_chain_hd ch by simp
  from put_entry_ok [OF ok val is_chain_distinct [OF ch(1)] length_pack [OF e]] i obtain d' where
    d': "put_entry v e cs d = (d', Inr True)" "disk_ok d'" "dir_slots v d' cs = (dir_slots v d cs)[i := pack_entry e]"
      "\<forall>c. valid_cluster v c \<and> c \<notin> set cs \<longrightarrow> cluster_bytes v d' c = cluster_bytes v d c" by auto
  have "added (dir_slots v d cs) (pack_entry e) (dir_slots v d' cs)"
    using i d'(3) by (auto simp: added_def position_Some_iff)
  moreover have "cluster_bytes v d' c = cluster_bytes v d c"
    if "is_chain (fat_cache v) ds" "set ds \<inter> set cs = {}" "c \<in> set ds" for ds c
    using that is_chain_valid [OF that(1)] d'(4) by blast
  ultimately have "entry_added v d cs (pack_entry e) (fat_cache v) d' cs"
    using ok(1) d'(2) ch unfolding entry_added_def by auto
  moreover have "write_dir_entry (hd cs) e True (v, d) = ((v, d'), Inr ())"
    by (simp add: write_dir_entry_def cc d'(1))
  ultimately show ?thesis by blast
qed

text \<open>Writing the new cluster of a grown directory, and the table after it.\<close>

lemma grow_dir:
  assumes ok: "vol_ok v" "disk_ok d" and lf: "length f = length (fat_cache v)" and c: "valid_cluster v c"
    and lb: "length b = bytes_per_cluster v"
  shows "\<exists>d'. write_cluster (v\<lparr>fat_cache := f\<rparr>) c b d = (put_cluster v c b d, True) \<and>
    flush_fat (v\<lparr>fat_cache := f\<rparr>) (put_cluster v c b d) = (d', True) \<and> disk_ok d' \<and>
    (\<forall>x. valid_cluster v x \<longrightarrow> cluster_bytes v d' x = (if x = c then b else cluster_bytes v d x))"
proof -
  have w: "write_cluster (v\<lparr>fat_cache := f\<rparr>) c b d = (put_cluster v c b d, True)"
    using write_cluster_ok [of "v\<lparr>fat_cache := f\<rparr>" d c b] ok lb c lf by (simp add: table_ok)
  have ok1: "disk_ok (put_cluster v c b d)" by (rule put_cluster_ok [OF ok lb])
  from flush_fat_ok [of "v\<lparr>fat_cache := f\<rparr>" "put_cluster v c b d"] ok1 ok(1) lf obtain d' where
    d': "flush_fat (v\<lparr>fat_cache := f\<rparr>) (put_cluster v c b d) = (d', True)" "disk_ok d'"
      "\<And>l. unat (data_start_lba v) \<le> unat l \<Longrightarrow> image d' l = image (put_cluster v c b d) l"
    by (auto simp: table_ok)
  have "cluster_bytes v d' x = (if x = c then b else cluster_bytes v d x)" if "valid_cluster v x" for x
    using cluster_bytes_cong [OF ok(1) that d'(3)] cluster_bytes_put [OF ok c that lb] by simp
  with w d'(1,2) show ?thesis by blast
qed

lemma write_dir_entry_grow:
  assumes ok: "vol_ok v" "disk_ok d" and ch: "is_chain (fat_cache v) cs" "cs \<noteq> []" "length cs < CHAIN_LIMIT"
    and e: "length (re_name e) = 11" and n: "position free_slot (dir_slots v d cs) = None"
    and al: "alloc_cluster v = Some (c, v1)"
  shows "\<exists>f d'. write_dir_entry (hd cs) e True (v, d) = ((v\<lparr>fat_cache := f\<rparr>, d'), Inr ()) \<and>
    entry_added v d cs (pack_entry e) f d' (cs @ [c])"
proof -
  note val = is_chain_valid [OF ch(1)]
  have cc: "cluster_chain v (hd cs) = cs" using cluster_chain_hd ch by simp
  have p: "put_entry v e cs d = (d, Inr False)"
    using put_entry_ok [OF ok val is_chain_distinct [OF ch(1)] length_pack [OF e]] n by simp
  note a = alloc_clusterD [OF al ok(1)] and k = alloc_link_chain [OF ok(1) al ch(1)]
  define f where "f = (fat_cache v)[unat c := FAT_EOC, unat (last cs) := c]"
  have nl: "unat (last cs) \<noteq> unat c" using k(1) last_in_set [OF ch(2)] by (metis word_unat_eq_iff)
  have v3: "v1\<lparr>fat_cache := (fat_cache v1)[unat (last cs) := c, unat c := FAT_EOC]\<rparr> = v\<lparr>fat_cache := f\<rparr>"
    using nl unfolding a(3) by (simp add: f_def list_update_swap)
  have lf: "length f = length (fat_cache v)" by (simp add: f_def)
  have lk: "fat_cache (link_cluster (last cs) c v1) = f" using a(3) by (simp add: link_cluster_def f_def)
  define b where "b = splice 0 (pack_entry e) (replicate (bytes_per_cluster v) 0)"
  have s0: "0 < unat (sectors_per_cluster v)" by (rule spc_pos [OF ok(1)])
  have bp: "32 \<le> bytes_per_cluster v" using s0 by (simp add: bpc_ok [OF ok(1)])
  have lb: "length b = bytes_per_cluster v" using bp length_pack [OF e] by (simp add: b_def)
  from grow_dir [OF ok lf a(1) lb] obtain d' where
    d': "write_cluster (v\<lparr>fat_cache := f\<rparr>) c b d = (put_cluster v c b d, True)"
      "flush_fat (v\<lparr>fat_cache := f\<rparr>) (put_cluster v c b d) = (d', True)" "disk_ok d'"
      and cb: "\<And>x. valid_cluster v x \<Longrightarrow> cluster_bytes v d' x = (if x = c then b else cluster_bytes v d x)" by blast
  have "map (\<lambda>x. slots_of (cluster_bytes v d' x)) cs = map (\<lambda>x. slots_of (cluster_bytes v d x)) cs"
    using cb val k(1) by auto
  then have "dir_slots v d' cs = dir_slots v d cs" by (simp only: dir_slots_def)
  then have "added (dir_slots v d cs) (pack_entry e) (dir_slots v d' (cs @ [c]))"
    using cb [OF a(1)] slots_of_fresh [OF length_pack [OF e] bpc_ok [OF ok(1)] s0]
    by (auto simp: added_def dir_slots_def b_def)
  moreover have "is_chain f ds \<and> (\<forall>x \<in> set ds. cluster_bytes v d' x = cluster_bytes v d x)"
    if "is_chain (fat_cache v) ds" "set ds \<inter> set cs = {}" for ds
    using k(3) [OF that ch(2)] lk alloc_link_chain(1) [OF ok(1) al that(1)] cb is_chain_valid [OF that(1)] by auto
  ultimately have "entry_added v d cs (pack_entry e) f d' (cs @ [c])"
    using d'(3) k(2) [OF ch(2)] lk ch ok(1) lf unfolding entry_added_def by (auto simp: table_ok)
  moreover have "write_dir_entry (hd cs) e True (v, d) = ((v\<lparr>fat_cache := f\<rparr>, d'), Inr ())"
    using bp ch(2) d'(1,2) unfolding write_dir_entry_def by (simp add: cc p al v3 b_def Let_def)
  ultimately show ?thesis by blast
qed

lemma write_dir_entry_ok:
  assumes "vol_ok v" "disk_ok d" "is_chain (fat_cache v) cs" "cs \<noteq> []" "length cs < CHAIN_LIMIT" "length (re_name e) = 11"
    and room: "(\<exists>s \<in> set (dir_slots v d cs). free_slot s) \<or> alloc_cluster v \<noteq> None"
  shows "\<exists>f d' cs'. write_dir_entry (hd cs) e True (v, d) = ((v\<lparr>fat_cache := f\<rparr>, d'), Inr ()) \<and>
    entry_added v d cs (pack_entry e) f d' cs'"
proof (cases "position free_slot (dir_slots v d cs)")
  case (Some i)
  from write_dir_entry_slot [OF assms(1-6) this] show ?thesis
    by (metis Fat32Inner.surjective Fat32Inner.update_convs(9))
next
  case None
  with room obtain c v1 where "alloc_cluster v = Some (c, v1)" by (auto simp: position_None_iff)
  from write_dir_entry_grow [OF assms(1-6) None this] show ?thesis by blast
qed

section \<open>Short names\<close>

lemma find_last:
  "i < n \<Longrightarrow> P i \<Longrightarrow> (\<And>j. i < j \<Longrightarrow> j < n \<Longrightarrow> \<not> P j) \<Longrightarrow> find P (rev [0..<n]) = Some i"
proof (induction n)
  case (Suc n)
  then show ?case by (cases "i = n") auto
qed simp

lemma length_to_upper [simp]: "length (to_upper b) = length b"
  by (simp add: to_upper_def)

lemma length_to_short_name [simp]: "length (to_short_name nm) = 11"
  by (auto simp: to_short_name_def Let_def splice_def split: option.splits)

text \<open>Characters of a short name: ASCII, no blank, no dot, no lower-case letter.\<close>

definition name_char :: "u8 \<Rightarrow> bool" where
  "name_char b \<longleftrightarrow> b < 0x80 \<and> b \<noteq> 0x20 \<and> b \<noteq> 0x2E \<and> \<not> (0x61 \<le> b \<and> b \<le> 0x7A)"

lemma to_upper_id: "\<forall>b \<in> set bs. name_char b \<Longrightarrow> to_upper bs = bs"
  by (auto simp: to_upper_def name_char_def intro!: map_idI)

lemma takeWhile_pad: "\<forall>b \<in> set bs. name_char b \<Longrightarrow> takeWhile (\<lambda>b. b \<noteq> 0x20) (bs @ replicate n 0x20) = bs"
  by (induction bs) (auto simp: name_char_def takeWhile_replicate)

lemma to_short_name_ext:
  assumes "base \<noteq> []" "length base \<le> 8" "length ext \<le> 3" "\<forall>b \<in> set (base @ ext). name_char b"
  shows "to_short_name (base @ 0x2E # ext) = base @ replicate (8 - length base) 0x20 @ ext @ replicate (3 - length ext) 0x20"
proof -
  let ?nm = "base @ 0x2E # ext"
  have "?nm ! j \<noteq> 0x2E" if "length base < j" "j < length ?nm" for j
  proof -
    have "?nm ! j = ext ! (j - length base - 1)" "j - length base - 1 < length ext"
      using that by (auto simp: nth_append nth_Cons')
    then show ?thesis using assms(4) by (metis Un_iff name_char_def nth_mem set_append)
  qed
  then have "find (\<lambda>i. ?nm ! i = 0x2E) (rev [0..<length ?nm]) = Some (length base)"
    by (intro find_last) simp_all
  then show ?thesis
    using assms to_upper_id [of base] to_upper_id [of ext]
    by (simp add: to_short_name_def Let_def splice_def min_def)
qed

lemma to_short_name_plain:
  assumes "length base \<le> 8" "\<forall>b \<in> set base. name_char b"
  shows "to_short_name base = base @ replicate (11 - length base) 0x20"
proof -
  have "find (\<lambda>i. base ! i = 0x2E) (rev [0..<length base]) = None"
    using assms(2) by (auto simp: find_None_iff name_char_def dest: nth_mem)
  then show ?thesis using assms to_upper_id [of base] by (simp add: to_short_name_def splice_def)
qed

text \<open>
  An 8.3 name survives the trip through a directory entry: turned into the padded short
  form and rendered again it is the same name, with and without an extension.
\<close>

theorem short_name_roundtrip:
  assumes "base \<noteq> []" "length base \<le> 8" "length ext \<le> 3" "\<forall>b \<in> set (base @ ext). name_char b"
  shows "from_short_name (to_short_name base) = base \<and>
    (ext \<noteq> [] \<longrightarrow> from_short_name (to_short_name (base @ 0x2E # ext)) = base @ 0x2E # ext)"
proof (intro conjI impI)
  have u: "utf8_valid base" "utf8_valid ext" using assms(4) by (auto intro!: utf8_ascii simp: name_char_def)
  have n: "\<forall>b \<in> set base. name_char b" "\<forall>b \<in> set ext. name_char b" using assms(4) by auto
  have p: "slice 0 8 (base @ replicate (11 - length base) 0x20) = base @ replicate (8 - length base) 0x20"
    "slice 8 11 (base @ replicate (11 - length base) 0x20) = replicate 3 0x20"
    using assms(2) by (simp_all add: slice_def min_def)
  show "from_short_name (to_short_name base) = base"
    using p u takeWhile_pad [OF n(1)] to_short_name_plain [OF assms(2) n(1)]
    by (simp add: from_short_name_def str_or_empty_def takeWhile_replicate)
  have q: "slice 0 8 (base @ replicate (8 - length base) 0x20 @ ext @ replicate (3 - length ext) 0x20) = base @ replicate (8 - length base) 0x20"
    "slice 8 11 (base @ replicate (8 - length base) 0x20 @ ext @ replicate (3 - length ext) 0x20) = ext @ replicate (3 - length ext) 0x20"
    using assms(2,3) by (simp_all add: slice_def)
  assume "ext \<noteq> []"
  then show "from_short_name (to_short_name (base @ 0x2E # ext)) = base @ 0x2E # ext"
    using q u takeWhile_pad [OF n(1)] takeWhile_pad [OF n(2)] to_short_name_ext [OF assms]
    by (simp add: from_short_name_def str_or_empty_def)
qed

theorem short_name_roundtrip_witness:
  "from_short_name (to_short_name (as_bytes ''HELLO.TXT'')) = as_bytes ''HELLO.TXT''"
  using short_name_roundtrip [of "as_bytes ''HELLO''" "as_bytes ''TXT''"]
  by (simp add: as_bytes_def name_char_def)

text \<open>
  A directory entry packed into 32 bytes and parsed again is the same entry, and any 32
  bytes parsed and packed again are the same bytes: no field overlaps another and none is lost.
\<close>

theorem entry_roundtrip:
  "(length (re_name e) = 11 \<longrightarrow> parse_entry (pack_entry e) = e) \<and> (length b = 32 \<longrightarrow> pack_entry (parse_entry b) = b)"
  by (simp add: parse_pack pack_parse)

theorem entry_roundtrip_witness:
  "parse_entry (pack_entry (new_entry (replicate 11 0x41) ATTR_DIR 0x12345)) = new_entry (replicate 11 0x41) ATTR_DIR 0x12345"
  using entry_roundtrip [of "new_entry (replicate 11 0x41) ATTR_DIR 0x12345" "[]"] by (simp add: new_entry_def)

end
