(* ===== verification/Fat32.thy ===== *)
theory Fat32
  imports Fat_Dir
begin

text \<open>
  The FAT32 driver's file operations (\<^verbatim>\<open>impl FileOps for Fat32\<close> of
  \<^verbatim>\<open>kernel/src/fs/fat32.rs\<close>), partition discovery and mounting. The lock around the
  volume is taken for each operation as a whole, so an operation is one state transition.
  A division by a zero cluster size panics.
\<close>

section \<open>Reading and writing\<close>

lemma chunk_progress: "0 < b \<Longrightarrow> p < e \<Longrightarrow> e - (p + min (e - p) (b - p mod b)) < e - (p :: nat)"
  by (rule diff_less_mono2) simp_all

text \<open>The read loop: from position \<open>pos\<close> to \<open>e\<close>.\<close>

function read_loop :: "Fat32Inner \<Rightarrow> u32 list \<Rightarrow> nat \<Rightarrow> nat \<Rightarrow> disk \<Rightarrow> bytes result" where
  "read_loop v chain pos e d =
     (if e \<le> pos then Inr []
      else if bytes_per_cluster v = 0 then Inl panic
      else let bpc = bytes_per_cluster v; idx = pos div bpc; in_cluster = pos mod bpc in
        if length chain \<le> idx then Inr []
        else case read_cluster v (chain ! idx) bpc d of
          None \<Rightarrow> Inl ''ata read failed''
        | Some scratch \<Rightarrow>
            let n = min (e - pos) (bpc - in_cluster) in
            map_sum id (\<lambda>r. slice in_cluster (in_cluster + n) scratch @ r) (read_loop v chain (pos + n) e d))"
  by pat_completeness auto
termination
  by (relation "measure (\<lambda>(v, chain, pos, e, d). e - pos)") (auto simp: chunk_progress)

definition fat_read :: "u64 \<Rightarrow> u64 \<Rightarrow> nat \<Rightarrow> volume \<Rightarrow> volume \<times> bytes result" where
  "fat_read inode_id offset n vd = (vd,
     case vd of (v, d) \<Rightarrow>
     case get_inode inode_id v of
       None \<Rightarrow> Inl ''inode not found''
     | Some inode \<Rightarrow>
         if fi_is_dir inode \<or> n = 0 then Inr []
         else if ucast (fi_size inode) \<le> offset then Inr []
         else let e = min (ucast (fi_size inode)) (offset + of_nat n)
              in read_loop v (cluster_chain v (fi_first_cluster inode)) (unat offset) (unat e) d)"

text \<open>
  Extending the chain by \<open>k\<close> clusters; \<open>first\<close> is the local copy of the inode's first cluster.
\<close>

fun extend_chain :: "nat \<Rightarrow> u64 \<Rightarrow> u32 list \<Rightarrow> u32 \<Rightarrow> Fat32Inner \<Rightarrow> Fat32Inner \<times> (u32 list \<times> u32) result" where
  "extend_chain 0 inode_id chain first v = (v, Inr (chain, first))"
| "extend_chain (Suc k) inode_id chain first v =
     (case alloc_cluster v of
        None \<Rightarrow> (v, Inl ''out of clusters'')
      | Some (new_cluster, v1) \<Rightarrow>
          if chain = [] then
            extend_chain k inode_id [new_cluster] new_cluster
              (upd_inode inode_id (\<lambda>i. i\<lparr>fi_first_cluster := new_cluster\<rparr>) v1)
          else
            extend_chain k inode_id (chain @ [new_cluster]) first
              (v1\<lparr>fat_cache := (fat_cache v1)[unat (last chain) := new_cluster]\<rparr>))"

text \<open>The write loop: \<open>b\<close> goes from position \<open>offset\<close> on, \<open>pos - offset\<close> bytes of it are written.\<close>

function write_data :: "Fat32Inner \<Rightarrow> u32 list \<Rightarrow> nat \<Rightarrow> bytes \<Rightarrow> nat \<Rightarrow> nat \<Rightarrow> disk \<Rightarrow> disk \<times> nat result" where
  "write_data v chain offset b pos e d =
     (if e \<le> pos then (d, Inr (pos - offset))
      else if bytes_per_cluster v = 0 then (d, Inl panic)
      else let bpc = bytes_per_cluster v; idx = (pos - offset) div bpc; in_cluster = pos mod bpc in
        if length chain \<le> idx then (d, Inr (pos - offset))
        else case read_cluster v (chain ! idx) bpc d of
          None \<Rightarrow> (d, Inl ''ata read failed'')
        | Some scratch \<Rightarrow>
            let n = min (e - pos) (bpc - in_cluster); written = pos - offset in
            case write_cluster v (chain ! idx) (splice in_cluster (slice written (written + n) b) scratch) d of
              (d', False) \<Rightarrow> (d', Inl ''ata write failed'')
            | (d', True) \<Rightarrow> write_data v chain offset b (pos + n) e d')"
  by pat_completeness auto
termination
  by (relation "measure (\<lambda>(v, chain, off, b, pos, e, d). e - pos)") (auto simp: chunk_progress)

declare read_loop.simps [simp del] write_data.simps [simp del]

text \<open>One directory of \<^verbatim>\<open>update_size_recursive\<close>: \<open>Inr None\<close> when the entry was found and its
  size written, else the clusters of the subdirectories.\<close>

definition live_slot :: "bytes \<Rightarrow> nat \<Rightarrow> bool" where
  "live_slot b i \<longleftrightarrow> \<not> (b ! (i * 32) = 0x00 \<or> b ! (i * 32) = 0xE5 \<or> b ! (i * 32 + 11) = ATTR_LFN) \<and> b ! (i * 32) \<noteq> 0x2E"

definition slot_cluster :: "bytes \<Rightarrow> nat \<Rightarrow> u32" where
  "slot_cluster b i = push_bit 16 (ucast (from_le (slice (i * 32 + 20) (i * 32 + 22) b) :: u16))
     OR ucast (from_le (slice (i * 32 + 26) (i * 32 + 28) b) :: u16)"

fun scan_dir :: "Fat32Inner \<Rightarrow> u32 \<Rightarrow> u32 \<Rightarrow> u32 list \<Rightarrow> disk \<Rightarrow> disk \<times> u32 list option result" where
  "scan_dir v target sz [] d = (d, Inr (Some []))"
| "scan_dir v target sz (c # cs) d =
     (case read_cluster v c (bytes_per_cluster v) d of
        None \<Rightarrow> (d, Inl ''ata read failed'')
      | Some b \<Rightarrow>
          let slots = [0..<bytes_per_cluster v div 32] in
          case find (\<lambda>i. live_slot b i \<and> slot_cluster b i = target) slots of
            Some i \<Rightarrow>
              (case write_cluster v c (splice (i * 32 + 28) (to_le 4 sz) b) d of
                 (d', False) \<Rightarrow> (d', Inl ''ata write failed'')
               | (d', True) \<Rightarrow> (d', Inr None))
          | None \<Rightarrow>
              let subs = map (slot_cluster b)
                    (filter (\<lambda>i. live_slot b i \<and> b ! (i * 32 + 11) AND ATTR_DIR \<noteq> 0 \<and> 2 \<le> slot_cluster b i) slots)
              in case scan_dir v target sz cs d of
                (d', Inr (Some rest)) \<Rightarrow> (d', Inr (Some (subs @ rest)))
              | r \<Rightarrow> r)"

fun first_true :: "('i \<Rightarrow> 's \<Rightarrow> 's \<times> bool result) \<Rightarrow> 'i list \<Rightarrow> 's \<Rightarrow> 's \<times> bool result" where
  "first_true f [] s = (s, Inr False)"
| "first_true f (x # xs) s =
     (case f x s of
        (s', Inl e) \<Rightarrow> (s', Inl e)
      | (s', Inr True) \<Rightarrow> (s', Inr True)
      | (s', Inr False) \<Rightarrow> first_true f xs s')"

text \<open>
  The recursion goes down one directory level per step and writes only before it returns for
  good. More levels than the table has clusters visit some directory inside itself, which the
  code then does forever until the kernel stack overflows: fuel \<open>length (fat_cache v) + 1\<close>
  runs out exactly in that case, and the result is a panic.
\<close>

fun update_size_recursive :: "nat \<Rightarrow> Fat32Inner \<Rightarrow> u32 \<Rightarrow> u32 \<Rightarrow> u32 \<Rightarrow> disk \<Rightarrow> disk \<times> bool result" where
  "update_size_recursive 0 v target sz dir_cluster d = (d, Inl panic)"
| "update_size_recursive (Suc n) v target sz dir_cluster d =
     (case scan_dir v target sz (cluster_chain v dir_cluster) d of
        (d', Inl e) \<Rightarrow> (d', Inl e)
      | (d', Inr None) \<Rightarrow> (d', Inr True)
      | (d', Inr (Some subdirs)) \<Rightarrow> first_true (update_size_recursive n v target sz) subdirs d')"

definition update_dir_entry_size :: "u64 \<Rightarrow> volume \<Rightarrow> volume \<times> unit result" where
  "update_dir_entry_size inode_id vd =
     (case vd of (v, d) \<Rightarrow>
      case get_inode inode_id v of
        None \<Rightarrow> (vd, Inl ''inode not found'')
      | Some inode \<Rightarrow>
          if fi_is_dir inode then (vd, Inr ())
          else case update_size_recursive (length (fat_cache v) + 1) v (fi_first_cluster inode) (fi_size inode)
                      (root_cluster v) d of
            (d', Inl e) \<Rightarrow> ((v, d'), Inl e)
          | (d', Inr _) \<Rightarrow> ((v, d'), Inr ()))"

definition fat_write :: "u64 \<Rightarrow> u64 \<Rightarrow> bytes \<Rightarrow> volume \<Rightarrow> volume \<times> nat result" where
  "fat_write inode_id offset b vd =
     (case vd of (v, d) \<Rightarrow>
      case get_inode inode_id v of
        None \<Rightarrow> (vd, Inl ''inode not found'')
      | Some inode \<Rightarrow>
          if fi_is_dir inode then (vd, Inl ''cannot write to directory'')
          else
            let bpc = bytes_per_cluster v;
                e = offset + of_nat (length b);
                chain0 = cluster_chain v (fi_first_cluster inode)
            in if e \<noteq> 0 \<and> bpc = 0 then (vd, Inl panic)
            else
              let needed = (if e = 0 then 0 else unat ((e + of_nat bpc - 1) div of_nat bpc)) in
              case extend_chain (needed - length chain0) inode_id chain0 (fi_first_cluster inode) v of
                (v1, Inl msg) \<Rightarrow> ((v1, d), Inl msg)
              | (v1, Inr (chain, first)) \<Rightarrow>
                  let v2 = (if first = 0 \<and> chain \<noteq> []
                            then upd_inode inode_id (\<lambda>i. i\<lparr>fi_first_cluster := chain ! 0\<rparr>) v1 else v1)
                  in case write_data v2 chain (unat offset) b (unat offset) (unat e) d of
                    (d1, Inl msg) \<Rightarrow> ((v2, d1), Inl msg)
                  | (d1, Inr written) \<Rightarrow>
                      let v3 = (if ucast (fi_size inode) < e
                                then upd_inode inode_id (\<lambda>i. i\<lparr>fi_size := ucast e\<rparr>) v2 else v2)
                      in case flush_fat v3 d1 of
                        (d2, False) \<Rightarrow> ((v3, d2), Inl ''fat flush failed'')
                      | (d2, True) \<Rightarrow>
                          (case update_dir_entry_size inode_id (v3, d2) of
                             (vd3, Inl msg) \<Rightarrow> (vd3, Inl msg)
                           | (vd3, Inr _) \<Rightarrow> (vd3, Inr written)))"

section \<open>Attributes and directories\<close>

definition fat_size :: "u64 \<Rightarrow> volume \<Rightarrow> u64" where
  "fat_size inode_id vd = (case get_inode inode_id (fst vd) of Some i \<Rightarrow> ucast (fi_size i) | None \<Rightarrow> 0)"

definition fat_file_type :: "u64 \<Rightarrow> volume \<Rightarrow> FileType" where
  "fat_file_type inode_id vd =
     (case get_inode inode_id (fst vd) of
        Some i \<Rightarrow> if fi_is_dir i then Directory else Regular
      | None \<Rightarrow> Regular)"

fun list_entries :: "RawDirEntry list \<Rightarrow> Fat32Inner \<Rightarrow> DirEntry list \<times> Fat32Inner" where
  "list_entries [] v = ([], v)"
| "list_entries (e # es) v =
     (if is_free e \<or> is_lfn e \<or> re_name e ! 0 = 0x2E then list_entries es v
      else
        let (i, v1) = intern_inode (first_cluster e) (file_size e) (is_dir e) v;
            (out, v2) = list_entries es v1
        in (\<lparr>de_name = from_short_name (re_name e), de_inode = i, de_type = (if is_dir e then Directory else Regular)\<rparr> # out, v2))"

definition fat_readdir :: "u64 \<Rightarrow> volume \<Rightarrow> volume \<times> DirEntry list result" where
  "fat_readdir inode_id vd =
     (case vd of (v, d) \<Rightarrow>
      case get_inode inode_id v of
        None \<Rightarrow> (vd, Inl ''inode not found'')
      | Some inode \<Rightarrow>
          if \<not> fi_is_dir inode then (vd, Inl ''not a directory'')
          else let (out, v') = list_entries (read_dir_raw v (fi_first_cluster inode) d) v
               in ((v', d), Inr out))"

text \<open>The entry a name stands for.\<close>

definition has_name :: "bytes \<Rightarrow> RawDirEntry \<Rightarrow> bool" where
  "has_name short e \<longleftrightarrow> \<not> is_free e \<and> \<not> is_lfn e \<and> re_name e = short"

definition fat_lookup :: "u64 \<Rightarrow> bytes \<Rightarrow> volume \<Rightarrow> volume \<times> u64 result" where
  "fat_lookup dir_id nm vd =
     (case vd of (v, d) \<Rightarrow>
      case get_inode dir_id v of
        None \<Rightarrow> (vd, Inl ''inode not found'')
      | Some dir \<Rightarrow>
          if \<not> fi_is_dir dir then (vd, Inl ''not a directory'')
          else case find (has_name (to_short_name nm)) (read_dir_raw v (fi_first_cluster dir) d) of
            None \<Rightarrow> (vd, Inl ''file not found'')
          | Some e \<Rightarrow>
              let (i, v') = intern_inode (first_cluster e) (file_size e) (is_dir e) v in ((v', d), Inr i))"

definition fat_create :: "u64 \<Rightarrow> bytes \<Rightarrow> volume \<Rightarrow> volume \<times> u64 result" where
  "fat_create dir_id nm vd =
     (case vd of (v, d) \<Rightarrow>
      case get_inode dir_id v of
        None \<Rightarrow> (vd, Inl ''inode not found'')
      | Some dir \<Rightarrow>
          if \<not> fi_is_dir dir then (vd, Inl ''not a directory'')
          else
            let short = to_short_name nm in
            if \<exists>e \<in> set (read_dir_raw v (fi_first_cluster dir) d). has_name short e
            then (vd, Inl ''file already exists'')
            else case write_dir_entry (fi_first_cluster dir) (new_entry short ATTR_ARCHIVE 0) True vd of
              (vd1, Inl msg) \<Rightarrow> (vd1, Inl msg)
            | ((v1, d1), Inr _) \<Rightarrow>
                (case flush_fat v1 d1 of
                   (d2, False) \<Rightarrow> ((v1, d2), Inl ''fat flush failed'')
                 | (d2, True) \<Rightarrow>
                     let (i, v2) = intern_inode 0 0 False v1 in ((v2, d2), Inr i)))"

definition fat_mkdir :: "u64 \<Rightarrow> bytes \<Rightarrow> volume \<Rightarrow> volume \<times> u64 result" where
  "fat_mkdir dir_id nm vd =
     (case vd of (v, d) \<Rightarrow>
      case get_inode dir_id v of
        None \<Rightarrow> (vd, Inl ''inode not found'')
      | Some dir \<Rightarrow>
          if \<not> fi_is_dir dir then (vd, Inl ''not a directory'')
          else
            let short = to_short_name nm in
            if \<exists>e \<in> set (read_dir_raw v (fi_first_cluster dir) d). has_name short e
            then (vd, Inl ''dir already exists'')
            else case alloc_cluster v of
              None \<Rightarrow> (vd, Inl ''out of clusters'')
            | Some (new_cluster, v1) \<Rightarrow>
                if bytes_per_cluster v1 < 64 then ((v1, d), Inl panic)
                else
                  let dot = new_entry (0x2E # replicate 10 0x20) ATTR_DIR new_cluster;
                      dotdot = new_entry (0x2E # 0x2E # replicate 9 0x20) ATTR_DIR (fi_first_cluster dir);
                      b = splice 32 (pack_entry dotdot) (splice 0 (pack_entry dot) (replicate (bytes_per_cluster v1) 0))
                  in case write_cluster v1 new_cluster b d of
                    (d1, False) \<Rightarrow> ((v1, d1), Inl ''ata write failed'')
                  | (d1, True) \<Rightarrow>
                      (case write_dir_entry (fi_first_cluster dir) (new_entry short ATTR_DIR new_cluster) True (v1, d1) of
                         (vd2, Inl msg) \<Rightarrow> (vd2, Inl msg)
                       | ((v2, d2), Inr _) \<Rightarrow>
                           (case flush_fat v2 d2 of
                              (d3, False) \<Rightarrow> ((v2, d3), Inl ''fat flush failed'')
                            | (d3, True) \<Rightarrow>
                                let (i, v3) = intern_inode new_cluster 0 True v2 in ((v3, d3), Inr i))))"

definition fat_truncate :: "u64 \<Rightarrow> u64 \<Rightarrow> volume \<Rightarrow> volume \<times> unit result" where
  "fat_truncate inode_id sz vd =
     (case vd of (v, d) \<Rightarrow>
      case get_inode inode_id v of
        None \<Rightarrow> (vd, Inl ''inode not found'')
      | Some inode \<Rightarrow>
          if fi_is_dir inode then (vd, Inl ''cannot truncate directory'')
          else
            let bpc = bytes_per_cluster v; new_size = ucast sz :: u32 in
            if new_size \<noteq> 0 \<and> bpc = 0 then (vd, Inl panic)
            else
              let needed = (if new_size = 0 then 0 else (unat new_size + bpc - 1) div bpc);
                  chain = cluster_chain v (fi_first_cluster inode);
                  v1 = (if needed < length chain \<and> chain \<noteq> [] then
                          let keep = max needed (if new_size = 0 then 0 else 1);
                              w = free_clusters (drop keep chain) v
                          in if new_size = 0
                             then upd_inode inode_id (\<lambda>i. i\<lparr>fi_first_cluster := 0\<rparr>)
                                    (w\<lparr>fat_cache := (fat_cache w)[unat (chain ! 0) := FAT_FREE]\<rparr>)
                             else w\<lparr>fat_cache := (fat_cache w)[unat (chain ! (keep - 1)) := FAT_EOC]\<rparr>
                        else v);
                  v2 = upd_inode inode_id (\<lambda>i. i\<lparr>fi_size := new_size\<rparr>) v1
              in case flush_fat v2 d of
                (d1, False) \<Rightarrow> ((v2, d1), Inl ''fat flush failed'')
              | (d1, True) \<Rightarrow> update_dir_entry_size inode_id (v2, d1))"

definition fat_unlink :: "u64 \<Rightarrow> bytes \<Rightarrow> volume \<Rightarrow> volume \<times> unit result" where
  "fat_unlink dir_id nm vd =
     (case vd of (v, d) \<Rightarrow>
      case get_inode dir_id v of
        None \<Rightarrow> (vd, Inl ''inode not found'')
      | Some dir \<Rightarrow>
          if \<not> fi_is_dir dir then (vd, Inl ''not a directory'')
          else
            let short = to_short_name nm in
            case find (has_name short) (read_dir_raw v (fi_first_cluster dir) d) of
              None \<Rightarrow> (vd, Inl ''file not found'')
            | Some t \<Rightarrow>
                let v1 = (if 2 \<le> first_cluster t then free_chain (first_cluster t) v else v) in
                case remove_dir_entry (fi_first_cluster dir) short (v1, d) of
                  (vd1, Inl msg) \<Rightarrow> (vd1, Inl msg)
                | ((v2, d1), Inr _) \<Rightarrow>
                    (case flush_fat v2 d1 of
                       (d2, False) \<Rightarrow> ((v2, d2), Inl ''fat flush failed'')
                     | (d2, True) \<Rightarrow>
                         (case find (\<lambda>(i, n). same_file (first_cluster t) (is_dir t) n) (fat_inodes v2) of
                            Some (i, n) \<Rightarrow> ((v2\<lparr>fat_inodes := bt_remove i (fat_inodes v2)\<rparr>, d2), Inr ())
                          | None \<Rightarrow> ((v2, d2), Inr ()))))"

definition fat_ops :: "volume FileOps" where
  "fat_ops = \<lparr>fo_read = fat_read, fo_write = fat_write, fo_size = fat_size,
     fo_file_type = fat_file_type, fo_readdir = fat_readdir, fo_lookup = fat_lookup,
     fo_create = fat_create, fo_mkdir = fat_mkdir, fo_truncate = fat_truncate, fo_unlink = fat_unlink\<rparr>"

section \<open>Mounting\<close>

definition find_fat32_partition :: "disk \<Rightarrow> (u64 \<times> u64) option" where
  "find_fat32_partition d =
     (case read_sector 0 d of
        None \<Rightarrow> None
      | Some mbr \<Rightarrow>
          if mbr ! 510 \<noteq> 0x55 \<or> mbr ! 511 \<noteq> 0xAA then None
          else case find (\<lambda>i. mbr ! (446 + i * 16 + 4) = 0x0C \<or> mbr ! (446 + i * 16 + 4) = 0x0B) (rev [0..<4]) of
            None \<Rightarrow> None
          | Some i \<Rightarrow>
              let off = 446 + i * 16 in
              Some (ucast (from_le (slice (off + 8) (off + 12) mbr) :: u32),
                    ucast (from_le (slice (off + 12) (off + 16) mbr) :: u32)))"

text \<open>The volume that \<^verbatim>\<open>init\<close> mounts at \<^verbatim>\<open>/disk\<close> with root inode 1.\<close>

definition fat_init :: "disk \<Rightarrow> Fat32Inner option" where
  "fat_init d =
     (if \<not> disk_present d then None
      else case find_fat32_partition d of
        None \<Rightarrow> None
      | Some (part_start, part_size) \<Rightarrow>
          (case read_sector part_start d of
             None \<Rightarrow> None
           | Some bpb \<Rightarrow>
               if \<not> (bpb ! 510 = 0x55 \<and> bpb ! 511 = 0xAA) then None
               else
                 let bps = from_le (slice 11 13 bpb); spc = bpb ! 13; rsvd = from_le (slice 14 16 bpb); nf = bpb ! 16;
                     fatsz = from_le (slice 36 40 bpb); root = from_le (slice 44 48 bpb)
                 in if bps \<noteq> 512 \<or> spc = 0 \<or> fatsz = 0 then None
                 else
                   let data_start = part_start + ucast rsvd + ucast nf * ucast fatsz;
                       v = \<lparr>part_start_lba = part_start, bytes_per_sector = bps, sectors_per_cluster = spc,
                            rsvd_sec_cnt = rsvd, num_fats = nf, fat_sz32 = fatsz, root_cluster = root,
                            data_start_lba = data_start, fat_cache = [], fat_inodes = [], fat_next_inode = 1\<rparr>
                   in map_option (\<lambda>v. snd (intern_inode root 0 True v)) (load_fat v d)))"

section \<open>Reading a file\<close>

definition chain_bytes :: "Fat32Inner \<Rightarrow> disk \<Rightarrow> u32 list \<Rightarrow> bytes" where
  "chain_bytes v d cs = concat (map (cluster_bytes v d) cs)"

lemma slice_slice: "c + b \<le> e \<Longrightarrow> slice a b (slice c e xs) = slice (c + a) (c + b) xs"
proof -
  assume "c + b \<le> e"
  then have m: "min (b - a) (e - c - a) = b - a" by simp
  have "slice a b (slice c e xs) = take (min (b - a) (e - c - a)) (drop (c + a) xs)"
    by (simp add: slice_def drop_take add.commute)
  then show ?thesis unfolding m by (simp add: slice_def)
qed

lemma length_chain_bytes:
  "vol_ok v \<Longrightarrow> disk_ok d \<Longrightarrow> length (chain_bytes v d cs) = bytes_per_cluster v * length cs"
  by (induction cs) (simp_all add: chain_bytes_def)

lemma cluster_of_chain:
  assumes "vol_ok v" "disk_ok d" "i < length cs"
  shows "cluster_bytes v d (cs ! i) = slice (bytes_per_cluster v * i) (bytes_per_cluster v * i + bytes_per_cluster v) (chain_bytes v d cs)"
proof -
  have "slice (bytes_per_cluster v * i) (bytes_per_cluster v * i + bytes_per_cluster v) (concat (map (cluster_bytes v d) cs)) =
      map (cluster_bytes v d) cs ! i"
    using assms by (intro slice_concat) auto
  then show ?thesis using assms(3) by (simp add: chain_bytes_def)
qed

lemma bpc_pos: "vol_ok v \<Longrightarrow> 0 < bytes_per_cluster v"
  using spc_pos [of v] by (simp add: bpc_ok)

text \<open>The chunk of a loop that starts at \<open>pos\<close> lies inside one cluster.\<close>

lemma chunk_split:
  fixes bpc :: nat
  assumes "0 < bpc" "pos < e" "e \<le> bpc * k"
  defines "n \<equiv> min (e - pos) (bpc - pos mod bpc)"
  shows "0 < n" "pos div bpc < k" "pos mod bpc + n \<le> bpc" "pos + n \<le> e" "bpc * (pos div bpc) + pos mod bpc = pos"
proof -
  show "0 < n" "pos mod bpc + n \<le> bpc" "pos + n \<le> e"
    using assms(1,2) mod_less_divisor [OF assms(1), of pos] by (auto simp: n_def min_def)
  show "bpc * (pos div bpc) + pos mod bpc = pos" by simp
  show "pos div bpc < k" using assms by (simp add: less_mult_imp_div_less mult.commute)
qed

lemma read_loop_ok:
  assumes "vol_ok v" "disk_ok d" "\<forall>c \<in> set cs. valid_cluster v c" "pos \<le> e" "e \<le> bytes_per_cluster v * length cs"
  shows "read_loop v cs pos e d = Inr (slice pos e (chain_bytes v d cs))"
  using assms(4,5)
proof (induction "e - pos" arbitrary: pos rule: less_induct)
  case less
  let ?bpc = "bytes_per_cluster v"
  show ?case
  proof (cases "e \<le> pos")
    case True
    then show ?thesis by (simp add: read_loop.simps slice_def)
  next
    case False
    then have lt: "pos < e" by simp
    define n where "n = min (e - pos) (?bpc - pos mod ?bpc)"
    note k = chunk_split [OF bpc_pos [OF assms(1)] lt less.prems(2), folded n_def]
    have r: "read_cluster v (cs ! (pos div ?bpc)) ?bpc d = Some (cluster_bytes v d (cs ! (pos div ?bpc)))"
      using k(2) assms(3) by (intro read_cluster_ok assms(1,2)) simp_all
    have IH: "read_loop v cs (pos + n) e d = Inr (slice (pos + n) e (chain_bytes v d cs))"
      using k(1,4) lt less.prems(2) by (intro less.hyps) simp_all
    have "slice (pos mod ?bpc) (pos mod ?bpc + n) (cluster_bytes v d (cs ! (pos div ?bpc))) = slice pos (pos + n) (chain_bytes v d cs)"
    proof -
      have "?bpc * (pos div ?bpc) + (pos mod ?bpc + n) = pos + n" using k(5) by linarith
      then show ?thesis
        unfolding cluster_of_chain [OF assms(1,2) k(2)]
        using slice_slice [of "?bpc * (pos div ?bpc)" "pos mod ?bpc + n" "?bpc * (pos div ?bpc) + ?bpc" "pos mod ?bpc"] k(3,5)
        by simp
    qed
    moreover have "slice pos (pos + n) (chain_bytes v d cs) @ slice (pos + n) e (chain_bytes v d cs) = slice pos e (chain_bytes v d cs)"
      using k(4) by (simp add: join_slices)
    ultimately show ?thesis
      using False k(2) bpc_pos [OF assms(1)] IH
      by (subst read_loop.simps) (simp add: Let_def r n_def [symmetric])
  qed
qed

text \<open>A file is a chain that covers its size.\<close>

definition fat_file :: "Fat32Inner \<Rightarrow> u64 \<Rightarrow> FatInode \<Rightarrow> u32 list \<Rightarrow> bool" where
  "fat_file v i n cs \<longleftrightarrow> get_inode i v = Some n \<and> \<not> fi_is_dir n \<and> is_chain (fat_cache v) cs \<and> length cs \<le> CHAIN_LIMIT \<and>
     (if cs = [] then fi_first_cluster n = 0 else fi_first_cluster n = hd cs) \<and>
     unat (fi_size n) \<le> bytes_per_cluster v * length cs"

lemma chain_from_0: "chain_from k fat 0 = []"
  by (cases k) simp_all

lemma chain_of_0: "cluster_chain v 0 = []"
  by (simp add: cluster_chain_def chain_from_0)

lemma fat_file_chain: "fat_file v i n cs \<Longrightarrow> cluster_chain v (fi_first_cluster n) = cs"
  using cluster_chain_hd [of v cs] chain_of_0 [of v] by (auto simp: fat_file_def split: if_splits)

lemma fat_read_range:
  assumes "vol_ok v" "disk_ok d" "fat_file v i n cs" "unat offset + k < 2 ^ 64"
  shows "fat_read i offset k (v, d) =
    ((v, d), Inr (take k (drop (unat offset) (take (unat (fi_size n)) (chain_bytes v d cs)))))"
proof -
  have g: "get_inode i v = Some n" "\<not> fi_is_dir n" "\<forall>c \<in> set cs. valid_cluster v c"
    "unat (fi_size n) \<le> bytes_per_cluster v * length cs"
    using assms(3) is_chain_valid by (auto simp: fat_file_def)
  have u: "unat (ucast (fi_size n) :: u64) = unat (fi_size n)" by (simp add: unat_ucast_up)
  have uk: "unat (offset + of_nat k) = unat offset + k"
  proof -
    have "unat (of_nat k :: u64) = k" using assms(4) by (intro of_nat_inverse [OF refl]) simp
    then show ?thesis using assms(4) unat_add_lem [of offset "of_nat k"] by simp
  qed
  show ?thesis
  proof (cases "k = 0 \<or> unat (fi_size n) \<le> unat offset")
    case True
    then show ?thesis using g by (auto simp: fat_read_def word_le_nat_alt u)
  next
    case False
    define e where "e = min (unat (fi_size n)) (unat offset + k)"
    have e: "unat (min (ucast (fi_size n)) (offset + of_nat k) :: u64) = e"
      by (simp add: e_def min_def word_le_nat_alt u uk)
    have "read_loop v cs (unat offset) e d = Inr (slice (unat offset) e (chain_bytes v d cs))"
      using False g(4) by (intro read_loop_ok assms(1,2) g(3)) (simp_all add: e_def)
    moreover have "slice (unat offset) e (chain_bytes v d cs) = take k (drop (unat offset) (take (unat (fi_size n)) (chain_bytes v d cs)))"
    proof -
      have "e - unat offset = min k (unat (fi_size n) - unat offset)" by (auto simp: e_def min_def)
      then show ?thesis by (simp add: slice_def drop_take)
    qed
    ultimately show ?thesis
      using False g fat_file_chain [OF assms(3)] e by (simp add: fat_read_def word_le_nat_alt u Let_def)
  qed
qed

text \<open>
  C29. Reading a file of a FAT32 volume gives the requested range of its contents: the bytes of
  its clusters in chain order, cut at the file size, whatever clusters the range spans. The
  volume is unchanged.
\<close>

theorem fat_read_correct:
  assumes "vol_ok v" "disk_ok d" "fat_file v i n cs" "unat offset + k < 2 ^ 64"
  shows "fat_read i offset k (v, d) =
    ((v, d), Inr (take k (drop (unat offset) (take (unat (fi_size n)) (chain_bytes v d cs)))))"
  by (rule fat_read_range [OF assms])

definition sample_file :: Fat32Inner where
  "sample_file = sample_volume\<lparr>fat_cache := [0x0FFFFFF8, FAT_EOC, FAT_EOC, 4, FAT_EOC] @ replicate 123 FAT_FREE,
     fat_inodes := [(1, \<lparr>fi_first_cluster = 2, fi_size = 0, fi_is_dir = True\<rparr>),
       (2, \<lparr>fi_first_cluster = 3, fi_size = 700, fi_is_dir = False\<rparr>)], fat_next_inode := 3\<rparr>"

lemma sample_file_ok: "vol_ok sample_file" "fat_file sample_file 2 \<lparr>fi_first_cluster = 3, fi_size = 700, fi_is_dir = False\<rparr> [3, 4]"
  by (simp_all add: sample_file_def sample_volume_def vol_ok_def fat_start_def fat_file_def get_inode_def FAT_EOC_def
      CHAIN_LIMIT_def bytes_per_cluster_def)

theorem fat_read_correct_witness:
  "fat_read 2 600 200 (sample_file, blank_disk) = ((sample_file, blank_disk), Inr (replicate 100 0))"
proof -
  have "bytes_per_cluster sample_file = 512" by (simp add: sample_file_def sample_volume_def bytes_per_cluster_def)
  moreover have "cluster_bytes sample_file blank_disk c = replicate 512 0" for c
    by (simp add: cluster_bytes_def disk_bytes_def blank_disk_def sample_file_def sample_volume_def)
  ultimately have "chain_bytes sample_file blank_disk [3, 4] = replicate 1024 0"
    by (simp add: chain_bytes_def replicate_add [symmetric])
  then show ?thesis
    using fat_read_correct [OF sample_file_ok(1) sample_ok(2) sample_file_ok(2), of 600 200] by simp
qed

section \<open>Inodes\<close>

definition inodes_ok :: "Fat32Inner \<Rightarrow> bool" where
  "inodes_ok v \<longleftrightarrow> bt_wf (fat_inodes v) \<and> (\<forall>i \<in> fst ` set (fat_inodes v). i < fat_next_inode v)"

lemma bt_insert_last: "\<forall>j \<in> fst ` set m. j < i \<Longrightarrow> bt_insert i x m = m @ [(i, x)]"
  by (induction m) auto

text \<open>Asking for the same file again gives the same inode and changes nothing.\<close>

lemma intern_again:
  assumes "inodes_ok v" "intern_inode first sz isdir v = (i, v')"
  shows "intern_inode first sz' isdir v' = (i, v')"
proof (cases "find (\<lambda>(i, n). same_file first isdir n) (fat_inodes v)")
  case (Some p)
  then show ?thesis using assms(2) by (cases p) (auto simp: intern_inode_def)
next
  case None
  have app: "find P xs = None \<Longrightarrow> find P (xs @ [x]) = (if P x then Some x else None)" for P :: "'b \<Rightarrow> bool" and xs x
    by (induction xs) (auto split: if_splits)
  have "bt_insert (fat_next_inode v) \<lparr>fi_first_cluster = first, fi_size = sz, fi_is_dir = isdir\<rparr> (fat_inodes v) =
      fat_inodes v @ [(fat_next_inode v, \<lparr>fi_first_cluster = first, fi_size = sz, fi_is_dir = isdir\<rparr>)]"
    using assms(1) by (intro bt_insert_last) (simp add: inodes_ok_def)
  then show ?thesis using assms(2) None by (auto simp: intern_inode_def Let_def app same_file_def)
qed

lemma intern_get:
  assumes "inodes_ok v" "intern_inode first sz isdir v = (i, v')" "get_inode j v = Some n"
  shows "get_inode j v' = Some n"
proof (cases "find (\<lambda>(i, n). same_file first isdir n) (fat_inodes v)")
  case None
  have "j < fat_next_inode v" using assms(1,3) by (force simp: inodes_ok_def get_inode_def dest: map_of_SomeD)
  then show ?thesis using assms None
    by (auto simp: intern_inode_def Let_def get_inode_def inodes_ok_def)
next
  case (Some p)
  then show ?thesis using assms by (cases p) (auto simp: intern_inode_def)
qed

lemma inode_simps [simp]:
  "bytes_per_cluster (v\<lparr>fat_next_inode := b, fat_inodes := a\<rparr>) = bytes_per_cluster v"
  "read_cluster (v\<lparr>fat_next_inode := b, fat_inodes := a\<rparr>) = read_cluster v"
  by (simp_all add: fun_eq_iff read_cluster_def bytes_per_cluster_def cluster_to_lba_def)

lemma read_dir_from_inodes: "read_dir_from (v\<lparr>fat_next_inode := b, fat_inodes := a\<rparr>) cs d = read_dir_from v cs d"
  by (induction cs) (simp_all cong: option.case_cong)

lemma intern_read_dir: "intern_inode first sz isdir v = (i, v') \<Longrightarrow> read_dir_raw v' c d = read_dir_raw v c d"
  by (auto simp: intern_inode_def Let_def read_dir_raw_def cluster_chain_def read_dir_from_inodes split: option.splits)

section \<open>Creating a file and finding it\<close>

lemma find_update_other: "\<not> P y \<Longrightarrow> (i < length xs \<Longrightarrow> \<not> P (xs ! i)) \<Longrightarrow> find P (xs[i := y]) = find P xs"
proof (induction xs arbitrary: i)
  case (Cons x xs)
  then show ?case by (cases i) auto
qed simp

lemma find_append_other: "\<forall>y \<in> set ys. \<not> P y \<Longrightarrow> find P (xs @ ys) = find P xs"
proof (induction xs)
  case Nil
  then show ?case by (simp add: find_None_iff)
qed auto

lemma free_slot_parse: "length s = 32 \<Longrightarrow> is_free (parse_entry s) \<longleftrightarrow> free_slot s"
  by (simp add: is_free_def free_slot_def parse_entry_def nth_slice)

lemma zero_slot_free: "is_free (parse_entry (replicate 32 0))"
  by (subst free_slot_parse) (simp_all add: free_slot_def)

lemma slots_32: "s \<in> set (slots_of b) \<Longrightarrow> length s = 32"
  using length_slot [of _ b] by (auto simp: slots_of_def)

lemma dir_slots_32: "s \<in> set (dir_slots v d cs) \<Longrightarrow> length s = 32"
  by (auto simp: dir_slots_def slots_32)

text \<open>An added entry is found under its own name and leaves what other names stand for.\<close>

lemma added_find:
  assumes "added s p s'" "\<forall>x \<in> set s. length x = 32" "p = pack_entry e" "length (re_name e) = 11"
    and none: "\<forall>x \<in> set s. \<not> has_name short (parse_entry x)" and e: "has_name short e"
  shows "find (has_name short) (map parse_entry s') = Some e"
    and "short' \<noteq> short \<Longrightarrow> find (has_name short') (map parse_entry s') = find (has_name short') (map parse_entry s)"
proof -
  have p: "parse_entry p = e" using assms(3,4) by (simp add: parse_pack)
  from assms(1) consider (slot) i where "i < length s" "free_slot (s ! i)" "s' = s[i := p]"
    | (grown) n where "s' = s @ p # replicate n (replicate 32 0)"
    unfolding added_def by blast
  note s' = this
  show "find (has_name short) (map parse_entry s') = Some e"
  proof -
    have "find (has_name short) (map parse_entry s') = Some (parse_entry p)" if "\<exists>a b. s' = a @ p # b \<and> set a \<subseteq> set s"
    proof -
      from that obtain a b where a: "s' = a @ p # b" "set a \<subseteq> set s" by blast
      have "find (has_name short) (map parse_entry a) = None" using none a(2) by (auto simp: find_None_iff)
      then show ?thesis using a(1) p e by (induction a arbitrary: s') auto
    qed
    moreover have "\<exists>a b. s' = a @ p # b \<and> set a \<subseteq> set s"
      using s'
    proof cases
      case (slot i)
      then show ?thesis by (metis upd_conv_take_nth_drop set_take_subset)
    qed blast
    ultimately show ?thesis using p by simp
  qed
  assume d: "short' \<noteq> short"
  have e': "\<not> has_name short' e" using e d by (simp add: has_name_def)
  show "find (has_name short') (map parse_entry s') = find (has_name short') (map parse_entry s)"
    using s'
  proof cases
    case (slot i)
    have "\<not> has_name short' (parse_entry (s ! i))"
      using slot(1,2) assms(2) free_slot_parse [of "s ! i"] by (simp add: has_name_def)
    with slot e' p show ?thesis by (simp add: map_update find_update_other)
  next
    case (grown n)
    with e' p zero_slot_free show ?thesis by (simp add: find_append_other has_name_def)
  qed
qed

lemma new_entry_has_name:
  assumes "short ! 0 \<noteq> 0" "short ! 0 \<noteq> 0xE5"
  shows "has_name short (new_entry short ATTR_ARCHIVE 0)" "first_cluster (new_entry short ATTR_ARCHIVE 0) = 0"
    "file_size (new_entry short ATTR_ARCHIVE 0) = 0" "\<not> is_dir (new_entry short ATTR_ARCHIVE 0)"
  using assms by (simp_all add: has_name_def new_entry_def is_free_def is_lfn_def is_dir_def first_cluster_def
      ATTR_ARCHIVE_def ATTR_LFN_def ATTR_DIR_def)

lemma flush_keeps_slots:
  assumes "vol_ok v" "disk_ok d" "\<forall>c \<in> set cs. valid_cluster v c"
  shows "\<exists>d'. flush_fat v d = (d', True) \<and> disk_ok d' \<and> dir_slots v d' cs = dir_slots v d cs"
proof -
  from flush_fat_ok [OF assms(1,2)] obtain d' where d': "flush_fat v d = (d', True)" "disk_ok d'"
    "\<And>l. unat (data_start_lba v) \<le> unat l \<Longrightarrow> image d' l = image d l" by blast
  have "map (\<lambda>c. slots_of (cluster_bytes v d' c)) cs = map (\<lambda>c. slots_of (cluster_bytes v d c)) cs"
    using assms(3) cluster_bytes_cong [OF assms(1) _ d'(3)] by auto
  then have "dir_slots v d' cs = dir_slots v d cs" by (simp only: dir_slots_def)
  with d'(1,2) show ?thesis by blast
qed

lemma read_dir_slots:
  assumes "vol_ok v" "disk_ok d" "is_chain (fat_cache v) cs" "cs \<noteq> []" "length cs \<le> CHAIN_LIMIT"
  shows "read_dir_raw v (hd cs) d = map parse_entry (dir_slots v d cs)"
  using cluster_chain_hd [OF assms(3-5)] read_dir_from_slots [OF assms(1,2) is_chain_valid [OF assms(3)]]
  by (simp add: read_dir_raw_def)

text \<open>The volume after \<^verbatim>\<open>create\<close>, before the inode is handed out.\<close>

lemma create_on_disk:
  assumes ok: "vol_ok v" "disk_ok d" and ch: "is_chain (fat_cache v) cs" "cs \<noteq> []" "length cs < CHAIN_LIMIT"
    and e: "length (re_name e) = 11" "has_name short e"
    and new: "\<forall>x \<in> set (read_dir_raw v (hd cs) d). \<not> has_name short x"
    and room: "(\<exists>x \<in> set (dir_slots v d cs). free_slot x) \<or> alloc_cluster v \<noteq> None"
  shows "\<exists>f d1 d2. write_dir_entry (hd cs) e True (v, d) = ((v\<lparr>fat_cache := f\<rparr>, d1), Inr ()) \<and>
    flush_fat (v\<lparr>fat_cache := f\<rparr>) d1 = (d2, True) \<and>
    find (has_name short) (read_dir_raw (v\<lparr>fat_cache := f\<rparr>) (hd cs) d2) = Some e \<and>
    (\<forall>s. s \<noteq> short \<longrightarrow> find (has_name s) (read_dir_raw (v\<lparr>fat_cache := f\<rparr>) (hd cs) d2) =
       find (has_name s) (read_dir_raw v (hd cs) d))"
proof -
  from write_dir_entry_ok [OF ok ch e(1) room] obtain f d1 cs' where
    w: "write_dir_entry (hd cs) e True (v, d) = ((v\<lparr>fat_cache := f\<rparr>, d1), Inr ())"
      and en: "entry_added v d cs (pack_entry e) f d1 cs'" by blast
  let ?v = "v\<lparr>fat_cache := f\<rparr>"
  have en': "vol_ok ?v" "disk_ok d1" "is_chain (fat_cache ?v) cs'" "cs' \<noteq> []" "hd cs' = hd cs" "length cs' \<le> CHAIN_LIMIT"
    "added (dir_slots v d cs) (pack_entry e) (dir_slots v d1 cs')"
    using en by (simp_all add: entry_added_def)
  from flush_keeps_slots [OF en'(1,2) is_chain_valid [OF en'(3)]] obtain d2 where
    d2: "flush_fat ?v d1 = (d2, True)" "disk_ok d2" "dir_slots v d2 cs' = dir_slots v d1 cs'" by auto
  have r2: "read_dir_raw ?v (hd cs) d2 = map parse_entry (dir_slots v d1 cs')"
    using read_dir_slots [OF en'(1) d2(2) en'(3,4,6)] en'(5) d2(3) by simp
  have r: "read_dir_raw v (hd cs) d = map parse_entry (dir_slots v d cs)"
    using ch by (intro read_dir_slots ok) simp_all
  have none: "\<forall>x \<in> set (dir_slots v d cs). \<not> has_name short (parse_entry x)" using new r by simp
  have l: "\<forall>x \<in> set (dir_slots v d cs). length x = 32" by (simp add: dir_slots_32)
  note fnd = added_find [OF en'(7) l refl e(1) none e(2)]
  have "\<forall>s. s \<noteq> short \<longrightarrow> find (has_name s) (map parse_entry (dir_slots v d1 cs')) = find (has_name s) (map parse_entry (dir_slots v d cs))"
    by (intro allI impI) (rule fnd(2))
  then show ?thesis
    by (intro exI [of _ f] exI [of _ d1] exI [of _ d2]) (simp only: w d2(1) r2 r fnd(1) simp_thms)
qed

text \<open>
  C26. Creating a file in a directory of a FAT32 volume. If the name is new and the directory has
  a free slot or the volume a free cluster, the call succeeds; afterwards the name is found with the
  inode the call returned, creating it again is refused, and every other name of the
  directory stands for the same entry as before.
\<close>

theorem fat_create_lookup:
  assumes ok: "vol_ok v" "disk_ok d" "inodes_ok v" and dir: "get_inode dir v = Some n" "fi_is_dir n" "fi_first_cluster n = hd cs"
    and ch: "is_chain (fat_cache v) cs" "cs \<noteq> []" "length cs < CHAIN_LIMIT"
    and nm: "to_short_name nm ! 0 \<noteq> 0" "to_short_name nm ! 0 \<noteq> 0xE5"
    and new: "\<forall>x \<in> set (read_dir_raw v (hd cs) d). \<not> has_name (to_short_name nm) x"
    and room: "(\<exists>x \<in> set (dir_slots v d cs). free_slot x) \<or> alloc_cluster v \<noteq> None"
  shows "\<exists>v' d' i. fat_create dir nm (v, d) = ((v', d'), Inr i) \<and> fat_lookup dir nm (v', d') = ((v', d'), Inr i) \<and>
    fat_create dir nm (v', d') = ((v', d'), Inl ''file already exists'') \<and>
    (\<forall>s. s \<noteq> to_short_name nm \<longrightarrow> find (has_name s) (read_dir_raw v' (hd cs) d') = find (has_name s) (read_dir_raw v (hd cs) d))"
proof -
  define short where "short = to_short_name nm"
  define e where "e = new_entry short ATTR_ARCHIVE 0"
  note he = new_entry_has_name [OF nm, folded short_def, folded e_def]
  have le: "length (re_name e) = 11" by (simp add: e_def new_entry_def short_def)
  from create_on_disk [OF ok(1,2) ch le he(1) new [folded short_def] room] obtain f d1 d2 where
    w: "write_dir_entry (hd cs) e True (v, d) = ((v\<lparr>fat_cache := f\<rparr>, d1), Inr ())"
      "flush_fat (v\<lparr>fat_cache := f\<rparr>) d1 = (d2, True)"
      "find (has_name short) (read_dir_raw (v\<lparr>fat_cache := f\<rparr>) (hd cs) d2) = Some e"
      "\<forall>s. s \<noteq> short \<longrightarrow> find (has_name s) (read_dir_raw (v\<lparr>fat_cache := f\<rparr>) (hd cs) d2) = find (has_name s) (read_dir_raw v (hd cs) d)"
    by blast
  let ?v = "v\<lparr>fat_cache := f\<rparr>"
  obtain i v' where i: "intern_inode 0 0 False ?v = (i, v')" by (cases "intern_inode 0 0 False ?v")
  have ok': "inodes_ok ?v" "get_inode dir ?v = Some n" using ok(3) dir(1) by (simp_all add: inodes_ok_def get_inode_def)
  have rd: "read_dir_raw v' (hd cs) d2 = read_dir_raw ?v (hd cs) d2" by (rule intern_read_dir [OF i])
  have g: "get_inode dir v' = Some n" by (rule intern_get [OF ok'(1) i ok'(2)])
  have c: "fat_create dir nm (v, d) = ((v', d2), Inr i)"
    using dir new w(1,2) i by (simp add: fat_create_def Let_def short_def [symmetric] e_def [symmetric])
  have l: "fat_lookup dir nm (v', d2) = ((v', d2), Inr i)"
    using g dir rd w(3) he intern_again [OF ok'(1) i]
    by (simp add: fat_lookup_def short_def [symmetric])
  have "\<exists>x \<in> set (read_dir_raw v' (hd cs) d2). has_name short x"
    using w(3) rd by (metis find_None_iff option.distinct(1))
  then have "fat_create dir nm (v', d2) = ((v', d2), Inl ''file already exists'')"
    using g dir by (simp add: fat_create_def Let_def short_def [symmetric])
  with c l w(4) rd show ?thesis unfolding short_def by metis
qed

theorem fat_create_lookup_witness:
  "\<exists>v' d' i. fat_create 1 (as_bytes ''a.txt'') (sample_volume, blank_disk) = ((v', d'), Inr i) \<and>
    fat_lookup 1 (as_bytes ''a.txt'') (v', d') = ((v', d'), Inr i)"
proof -
  have i: "inodes_ok sample_volume" by (simp add: inodes_ok_def sample_volume_def bt_wf_def)
  have g: "get_inode 1 sample_volume = Some \<lparr>fi_first_cluster = 2, fi_size = 0, fi_is_dir = True\<rparr>"
    by (simp add: get_inode_def sample_volume_def)
  have ch: "is_chain (fat_cache sample_volume) [2]" "length [2 :: u32] < CHAIN_LIMIT"
    by (simp_all add: sample_volume_def FAT_EOC_def CHAIN_LIMIT_def)
  have cb: "cluster_bytes sample_volume blank_disk 2 = replicate 512 0"
    by (simp add: cluster_bytes_def disk_bytes_def blank_disk_def sample_volume_def)
  have sl: "s = replicate 32 0" if "s \<in> set (dir_slots sample_volume blank_disk [2])" for s
    using that by (auto simp: dir_slots_def cb slots_of_def slot_def slice_def)
  have n: "dir_slots sample_volume blank_disk [2] \<noteq> []" by (simp add: dir_slots_def cb slots_of_def)
  then have room: "\<exists>x \<in> set (dir_slots sample_volume blank_disk [2]). free_slot x"
    using sl by (metis free_slot_def hd_in_set nth_replicate zero_less_numeral)
  have "read_dir_raw sample_volume 2 blank_disk = map parse_entry (dir_slots sample_volume blank_disk [2])"
    using read_dir_slots [OF sample_ok ch(1)] ch(2) by simp
  then have new: "\<forall>x \<in> set (read_dir_raw sample_volume 2 blank_disk). \<not> has_name s x" for s
    using sl zero_slot_free by (auto simp: has_name_def)
  have nm: "to_short_name (as_bytes ''a.txt'') ! 0 = 0x41"
    by (simp add: to_short_name_def as_bytes_def to_upper_def splice_def)
  show ?thesis
    using fat_create_lookup [OF sample_ok i g, of "[2]" "as_bytes ''a.txt''"] ch new nm room by auto
qed

section \<open>Writing data\<close>

lemma concat_update:
  "(\<And>x. x \<in> set xs \<Longrightarrow> length x = k) \<Longrightarrow> i < length xs \<Longrightarrow> length y = k \<Longrightarrow> concat (xs[i := y]) = splice (k * i) y (concat xs)"
proof (induction xs arbitrary: i)
  case (Cons x xs)
  then show ?case by (cases i) (auto simp: splice_def add.commute)
qed simp

lemma splice_block:
  assumes "a + k \<le> length xs" "i + length c \<le> k"
  shows "splice a (splice i c (slice a (a + k) xs)) xs = splice (a + i) c xs"
proof (rule nth_equalityI)
  have l: "length (splice i c (slice a (a + k) xs)) = k" using assms by simp
  show "length (splice a (splice i c (slice a (a + k) xs)) xs) = length (splice (a + i) c xs)" using assms l by simp
  fix j assume "j < length (splice a (splice i c (slice a (a + k) xs)) xs)"
  then have j: "j < length xs" using assms l by simp
  show "splice a (splice i c (slice a (a + k) xs)) xs ! j = splice (a + i) c xs ! j"
    using assms l j by (auto simp: nth_splice nth_slice)
qed

lemma chain_bytes_put:
  assumes "vol_ok v" "disk_ok d" "\<forall>c \<in> set cs. valid_cluster v c" "distinct cs" "i < length cs" "length x = bytes_per_cluster v"
  shows "chain_bytes v (put_cluster v (cs ! i) x d) cs = splice (bytes_per_cluster v * i) x (chain_bytes v d cs)"
proof -
  have "map (cluster_bytes v (put_cluster v (cs ! i) x d)) cs = (map (cluster_bytes v d) cs)[i := x]"
  proof (rule nth_equalityI)
    fix j assume "j < length (map (cluster_bytes v (put_cluster v (cs ! i) x d)) cs)"
    then show "map (cluster_bytes v (put_cluster v (cs ! i) x d)) cs ! j = (map (cluster_bytes v d) cs)[i := x] ! j"
      using assms cluster_bytes_put [OF assms(1,2) _ _ assms(6), of "cs ! i" "cs ! j"]
      by (auto simp: nth_list_update nth_eq_iff_index_eq)
  qed simp
  moreover have "concat ((map (cluster_bytes v d) cs)[i := x]) = splice (bytes_per_cluster v * i) x (concat (map (cluster_bytes v d) cs))"
    using assms by (intro concat_update) auto
  ultimately show ?thesis by (simp add: chain_bytes_def)
qed

text \<open>One round of the loop: a chunk that lies in one cluster of the chain.\<close>

lemma write_chunk:
  assumes ok: "vol_ok v" "disk_ok d" "\<forall>c \<in> set cs. valid_cluster v c" "distinct cs"
    and i: "i < length cs" "p + length c \<le> bytes_per_cluster v"
  shows "\<exists>d'. write_cluster v (cs ! i) (splice p c (cluster_bytes v d (cs ! i))) d = (d', True) \<and> disk_ok d' \<and>
    chain_bytes v d' cs = splice (bytes_per_cluster v * i + p) c (chain_bytes v d cs) \<and>
    (\<forall>x. valid_cluster v x \<and> x \<notin> set cs \<longrightarrow> cluster_bytes v d' x = cluster_bytes v d x)"
proof -
  let ?bpc = "bytes_per_cluster v" and ?x = "splice p c (cluster_bytes v d (cs ! i))"
  have l: "length ?x = ?bpc" using i(2) ok by simp
  have v: "valid_cluster v (cs ! i)" using ok(3) i(1) by simp
  have "Suc i \<le> length cs" using i(1) by simp
  then have "?bpc * i + ?bpc \<le> length (chain_bytes v d cs)"
    using mult_le_mono2 [of "Suc i" "length cs" ?bpc] by (simp add: length_chain_bytes ok add.commute)
  then have "chain_bytes v (put_cluster v (cs ! i) ?x d) cs = splice (?bpc * i + p) c (chain_bytes v d cs)"
    unfolding chain_bytes_put [OF ok i(1) l] unfolding cluster_of_chain [OF ok(1,2) i(1)] using i(2) by (intro splice_block)
  moreover have "cluster_bytes v (put_cluster v (cs ! i) ?x d) y = cluster_bytes v d y" if "valid_cluster v y" "y \<notin> set cs" for y
    using cluster_bytes_put [OF ok(1,2) v that(1) l] that(2) i(1) by (auto simp: in_set_conv_nth)
  ultimately show ?thesis using write_cluster_ok [OF ok(1,2) v l] put_cluster_ok [OF ok(1,2) l] by blast
qed

lemma splice_progress:
  assumes "p + n \<le> length b" "length b \<le> length xs"
  shows "splice p (slice p (p + n) b) (take p b @ drop p xs) = take (p + n) b @ drop (p + n) xs"
  using assms by (simp add: splice_def slice_def take_add, simp add: add.commute)

text \<open>
  Data written from the start of a file lands where reading finds it: the loop puts the
  bytes over the beginning of the file's clusters, across cluster boundaries, keeps what lies behind
  them, and touches no cluster of another file.
\<close>

theorem write_data_from_start:
  assumes "vol_ok v" "disk_ok d" "is_chain (fat_cache v) cs" "length b \<le> bytes_per_cluster v * length cs"
  shows "\<exists>d'. write_data v cs 0 b 0 (length b) d = (d', Inr (length b)) \<and> disk_ok d' \<and>
    chain_bytes v d' cs = b @ drop (length b) (chain_bytes v d cs) \<and>
    (\<forall>x. valid_cluster v x \<and> x \<notin> set cs \<longrightarrow> cluster_bytes v d' x = cluster_bytes v d x)"
proof -
  note val = is_chain_valid [OF assms(3)] and dis = is_chain_distinct [OF assms(3)]
  have "\<exists>d'. write_data v cs 0 b pos (length b) d1 = (d', Inr (length b)) \<and> disk_ok d' \<and>
    chain_bytes v d' cs = b @ drop (length b) (chain_bytes v d cs) \<and>
    (\<forall>x. valid_cluster v x \<and> x \<notin> set cs \<longrightarrow> cluster_bytes v d' x = cluster_bytes v d x)"
    if "pos \<le> length b" "disk_ok d1" "chain_bytes v d1 cs = take pos b @ drop pos (chain_bytes v d cs)"
      "\<forall>x. valid_cluster v x \<and> x \<notin> set cs \<longrightarrow> cluster_bytes v d1 x = cluster_bytes v d x" for pos d1
    using that
  proof (induction "length b - pos" arbitrary: pos d1 rule: less_induct)
    case less
    let ?bpc = "bytes_per_cluster v"
    show ?case
    proof (cases "length b \<le> pos")
      case True
      then show ?thesis using less.prems by (auto simp: write_data.simps)
    next
      case False
      then have lt: "pos < length b" by simp
      define n where "n = min (length b - pos) (?bpc - pos mod ?bpc)"
      note k = chunk_split [OF bpc_pos [OF assms(1)] lt assms(4), folded n_def]
      have c: "pos mod ?bpc + length (slice pos (pos + n) b) \<le> ?bpc" using k(3) by simp
      from write_chunk [OF assms(1) less.prems(2) val dis k(2) c] k(5) obtain d2 where
        d2: "write_cluster v (cs ! (pos div ?bpc)) (splice (pos mod ?bpc) (slice pos (pos + n) b) (cluster_bytes v d1 (cs ! (pos div ?bpc)))) d1 = (d2, True)"
          "disk_ok d2" "chain_bytes v d2 cs = splice pos (slice pos (pos + n) b) (chain_bytes v d1 cs)"
          "\<forall>x. valid_cluster v x \<and> x \<notin> set cs \<longrightarrow> cluster_bytes v d2 x = cluster_bytes v d1 x" by auto
      have b: "chain_bytes v d2 cs = take (pos + n) b @ drop (pos + n) (chain_bytes v d cs)"
        unfolding d2(3) less.prems(3) using k(4) assms(1,2,4) by (intro splice_progress) (simp_all add: length_chain_bytes)
      have r: "read_cluster v (cs ! (pos div ?bpc)) ?bpc d1 = Some (cluster_bytes v d1 (cs ! (pos div ?bpc)))"
        using k(2) val by (intro read_cluster_ok assms(1) less.prems(2)) simp_all
      have "write_data v cs 0 b pos (length b) d1 = write_data v cs 0 b (pos + n) (length b) d2"
        using False k(2) bpc_pos [OF assms(1)] r d2(1)
        by (subst write_data.simps) (simp add: Let_def n_def [symmetric])
      moreover have "length b - (pos + n) < length b - pos" using k(1) lt by simp
      ultimately show ?thesis using less.hyps [of "pos + n" d2] k(4) d2(2,4) b less.prems(4) by simp
    qed
  qed
  from this [of 0 d] assms(2) show ?thesis by simp
qed

theorem write_data_from_start_witness:
  "\<exists>d'. write_data sample_file [3, 4] 0 (replicate 700 7) 0 700 blank_disk = (d', Inr 700) \<and>
    take 700 (chain_bytes sample_file d' [3, 4]) = replicate 700 7"
proof -
  have "is_chain (fat_cache sample_file) [3, 4]" using sample_file_ok(2) by (simp add: fat_file_def)
  from write_data_from_start [OF sample_file_ok(1) sample_ok(2) this, of "replicate 700 7"] show ?thesis
    by (auto simp: bytes_per_cluster_def sample_file_def sample_volume_def)
qed

text \<open>
  C30. Data written at or behind the first cluster boundary of a file lands in the wrong place.
  A write of a few bytes into cluster \<open>k\<close> of the file goes to its first cluster, over what was
  stored there, because the loop counts clusters from the start of the write and not of the file; the
  cluster that should change does not.
\<close>

theorem write_data_wrong_cluster:
  assumes "vol_ok v" "disk_ok d" "is_chain (fat_cache v) cs" "0 < k" "k < length cs" "b \<noteq> []" "r + length b \<le> bytes_per_cluster v"
  defines "offset \<equiv> bytes_per_cluster v * k + r"
  shows "\<exists>d'. write_data v cs offset b offset (offset + length b) d = (d', Inr (length b)) \<and>
    chain_bytes v d' cs = splice r b (chain_bytes v d cs) \<and>
    slice offset (offset + length b) (chain_bytes v d' cs) = slice offset (offset + length b) (chain_bytes v d cs)"
proof -
  let ?bpc = "bytes_per_cluster v"
  note val = is_chain_valid [OF assms(3)] and dis = is_chain_distinct [OF assms(3)]
  have z: "0 < length cs" using assms(5) by linarith
  have r: "r < ?bpc" using assms(6,7) by (cases b) simp_all
  then have m: "offset mod ?bpc = r" by (simp add: offset_def)
  from write_chunk [OF assms(1,2) val dis z assms(7)] obtain d' where
    d': "write_cluster v (cs ! 0) (splice r b (cluster_bytes v d (cs ! 0))) d = (d', True)"
      "chain_bytes v d' cs = splice r b (chain_bytes v d cs)" by auto
  have rd: "read_cluster v (cs ! 0) ?bpc d = Some (cluster_bytes v d (cs ! 0))"
    using z val by (intro read_cluster_ok assms(1,2)) simp_all
  have n: "min (length b) (?bpc - r) = length b" using assms(7) by simp
  have "write_data v cs offset b offset (offset + length b) d = (d', Inr (length b))"
    using bpc_pos [OF assms(1)] assms(6) z rd d'(1)
    by (subst write_data.simps) (simp add: Let_def m n slice_def write_data.simps)
  moreover have "slice offset (offset + length b) (chain_bytes v d' cs) = slice offset (offset + length b) (chain_bytes v d cs)"
  proof -
    have "?bpc * 1 \<le> ?bpc * k" "?bpc * 1 \<le> ?bpc * length cs" using assms(4) z by (intro mult_le_mono2; linarith)+
    then have "r + length b \<le> length (chain_bytes v d cs)" "r + length b \<le> offset"
      unfolding length_chain_bytes [OF assms(1,2)] offset_def using assms(7) by linarith+
    then show ?thesis unfolding d'(2) by (intro slice_splice_other) simp_all
  qed
  ultimately show ?thesis using d'(2) by blast
qed

theorem write_data_wrong_cluster_witness:
  "\<exists>d'. write_data sample_file [3, 4] 512 [7, 7] 512 514 blank_disk = (d', Inr 2) \<and>
    chain_bytes sample_file d' [3, 4] = splice 0 [7, 7] (chain_bytes sample_file blank_disk [3, 4])"
proof -
  have "is_chain (fat_cache sample_file) [3, 4]" using sample_file_ok(2) by (simp add: fat_file_def)
  moreover have "bytes_per_cluster sample_file = 512" by (simp add: bytes_per_cluster_def sample_file_def sample_volume_def)
  ultimately show ?thesis
    using write_data_wrong_cluster [OF sample_file_ok(1) sample_ok(2), of "[3, 4]" 1 "[7, 7]" 0] by auto
qed

end
