(* ===== verification/Vfs.thy ===== *)
theory Vfs
  imports Tmpfs Devfs Fat32
begin

text \<open>
  The virtual file system \<^verbatim>\<open>kernel/src/fs/mod.rs\<close> with its users \<^verbatim>\<open>tmpfs.rs\<close> (path
  helpers) and \<^verbatim>\<open>initramfs.rs\<close>. A mount holds one of the three file systems; a call through
  the trait object dispatches on it. Devices are shared: the disk under \<^verbatim>\<open>/dev/hda\<close> is
  the one the FAT32 volume lies on.
\<close>

section \<open>Dynamic dispatch\<close>

datatype fs = FsTmpfs Tmpfs | FsDevfs | FsFat Fat32Inner

definition dispatch :: "(Tmpfs \<Rightarrow> Tmpfs \<times> 'a) \<Rightarrow> (devices \<Rightarrow> devices \<times> 'a) \<Rightarrow> (volume \<Rightarrow> volume \<times> 'a)
    \<Rightarrow> fs \<times> devices \<Rightarrow> (fs \<times> devices) \<times> 'a" where
  "dispatch tm dev fat s =
     (case s of
        (FsTmpfs t, dv) \<Rightarrow> (case tm t of (t', r) \<Rightarrow> ((FsTmpfs t', dv), r))
      | (FsDevfs, dv) \<Rightarrow> (case dev dv of (dv', r) \<Rightarrow> ((FsDevfs, dv'), r))
      | (FsFat v, dv) \<Rightarrow> (case fat (v, dv_disk dv) of ((v', d'), r) \<Rightarrow> ((FsFat v', dv\<lparr>dv_disk := d'\<rparr>), r)))"

definition observe :: "(Tmpfs \<Rightarrow> 'a) \<Rightarrow> (devices \<Rightarrow> 'a) \<Rightarrow> (volume \<Rightarrow> 'a) \<Rightarrow> fs \<times> devices \<Rightarrow> 'a" where
  "observe tm dev fat s =
     (case s of (FsTmpfs t, dv) \<Rightarrow> tm t | (FsDevfs, dv) \<Rightarrow> dev dv | (FsFat v, dv) \<Rightarrow> fat (v, dv_disk dv))"

definition dyn_ops :: "(fs \<times> devices) FileOps" where
  "dyn_ops =
     \<lparr>fo_read = \<lambda>i off n. dispatch (fo_read tmpfs_ops i off n) (fo_read devfs_ops i off n) (fo_read fat_ops i off n),
      fo_write = \<lambda>i off b. dispatch (fo_write tmpfs_ops i off b) (fo_write devfs_ops i off b) (fo_write fat_ops i off b),
      fo_size = \<lambda>i. observe (fo_size tmpfs_ops i) (fo_size devfs_ops i) (fo_size fat_ops i),
      fo_file_type = \<lambda>i. observe (fo_file_type tmpfs_ops i) (fo_file_type devfs_ops i) (fo_file_type fat_ops i),
      fo_readdir = \<lambda>i. dispatch (fo_readdir tmpfs_ops i) (fo_readdir devfs_ops i) (fo_readdir fat_ops i),
      fo_lookup = \<lambda>i nm. dispatch (fo_lookup tmpfs_ops i nm) (fo_lookup devfs_ops i nm) (fo_lookup fat_ops i nm),
      fo_create = \<lambda>i nm. dispatch (fo_create tmpfs_ops i nm) (fo_create devfs_ops i nm) (fo_create fat_ops i nm),
      fo_mkdir = \<lambda>i nm. dispatch (fo_mkdir tmpfs_ops i nm) (fo_mkdir devfs_ops i nm) (fo_mkdir fat_ops i nm),
      fo_truncate = \<lambda>i sz. dispatch (fo_truncate tmpfs_ops i sz) (fo_truncate devfs_ops i sz) (fo_truncate fat_ops i sz),
      fo_unlink = \<lambda>i nm. dispatch (fo_unlink tmpfs_ops i nm) (fo_unlink devfs_ops i nm) (fo_unlink fat_ops i nm)\<rparr>"

section \<open>Mounts\<close>

record Mount =
  mount_point :: bytes
  mount_root :: u64
  ops :: fs

record Vfs =
  mounts :: "Mount list"
  devices :: devices

record VfsFile =
  vf_inode :: u64
  vf_mount :: nat
  vf_offset :: u64
  vf_type :: FileType

definition vfs_mount :: "bytes \<Rightarrow> u64 \<Rightarrow> fs \<Rightarrow> Vfs \<Rightarrow> Vfs" where
  "vfs_mount mp root fs s =
     s\<lparr>mounts := sort_key (\<lambda>m. - int (length (mount_point m)))
        (mounts s @ [\<lparr>mount_point = mp, mount_root = root, ops = fs\<rparr>])\<rparr>"

text \<open>A call of an operation of mount \<open>i\<close>; the index comes from \<open>find_mount\<close> or an open file.
  An index out of range panics.\<close>

definition on_mount :: "nat \<Rightarrow> (fs \<times> devices \<Rightarrow> (fs \<times> devices) \<times> 'a result) \<Rightarrow> Vfs \<Rightarrow> Vfs \<times> 'a result" where
  "on_mount i f s =
     (if i < length (mounts s) then
        (case f (ops (mounts s ! i), devices s) of
           ((o', dv), r) \<Rightarrow> (s\<lparr>mounts := (mounts s)[i := (mounts s ! i)\<lparr>ops := o'\<rparr>], devices := dv\<rparr>, r))
      else (s, Inl panic))"

definition at_mount :: "nat \<Rightarrow> (fs \<times> devices \<Rightarrow> 'a) \<Rightarrow> Vfs \<Rightarrow> 'a" where
  "at_mount i f s = f (ops (mounts s ! i), devices s)"

section \<open>Paths\<close>

text \<open>Bytes of paths: 0x2F is the slash.\<close>

definition starts_with :: "bytes \<Rightarrow> bytes \<Rightarrow> bool" where
  "starts_with p xs \<longleftrightarrow> take (length p) xs = p"

definition mount_matches :: "bytes \<Rightarrow> bytes \<Rightarrow> bool" where
  "mount_matches mp path \<longleftrightarrow>
     (if mp = [0x2F] then starts_with [0x2F] path
      else path = mp \<or> starts_with (mp @ [0x2F]) path)"

definition mount_relative :: "bytes \<Rightarrow> bytes \<Rightarrow> bytes" where
  "mount_relative mp path =
     (if path = mp then [] else if mp = [0x2F] then drop 1 path else drop (length mp) path)"

definition find_mount :: "bytes \<Rightarrow> Vfs \<Rightarrow> (nat \<times> bytes) option" where
  "find_mount path s =
     (case find (\<lambda>i. mount_matches (mount_point (mounts s ! i)) path) [0..<length (mounts s)] of
        Some i \<Rightarrow> Some (i, mount_relative (mount_point (mounts s ! i)) path)
      | None \<Rightarrow> None)"

text \<open>\<^verbatim>\<open>str::split\<close> at a byte, and \<^verbatim>\<open>str::trim_matches\<close>.\<close>

fun split_at :: "u8 \<Rightarrow> bytes \<Rightarrow> bytes list" where
  "split_at c [] = [[]]"
| "split_at c (b # bs) =
     (if b = c then [] # split_at c bs
      else case split_at c bs of p # ps \<Rightarrow> (b # p) # ps | [] \<Rightarrow> [[b]])"

definition trim_matches :: "u8 \<Rightarrow> bytes \<Rightarrow> bytes" where
  "trim_matches c xs = rev (dropWhile (\<lambda>b. b = c) (rev (dropWhile (\<lambda>b. b = c) xs)))"

definition components :: "bytes \<Rightarrow> bytes list" where
  "components relative = filter (\<lambda>p. p \<noteq> []) (split_at 0x2F (trim_matches 0x2F relative))"

text \<open>\<^verbatim>\<open>split_parent_name\<close>\<close>

definition rfind :: "u8 \<Rightarrow> bytes \<Rightarrow> nat option" where
  "rfind c xs = find (\<lambda>i. xs ! i = c) (rev [0..<length xs])"

definition split_parent_name :: "bytes \<Rightarrow> bytes \<times> bytes" where
  "split_parent_name path =
     (case rfind 0x2F path of
        Some i \<Rightarrow> if i = 0 then ([0x2F], drop 1 path) else (take i path, drop (i + 1) path)
      | None \<Rightarrow> ([0x2F], path))"

section \<open>Operations\<close>

fun walk :: "nat \<Rightarrow> u64 \<Rightarrow> bytes list \<Rightarrow> Vfs \<Rightarrow> Vfs \<times> u64 result" where
  "walk i inode [] s = (s, Inr inode)"
| "walk i inode (c # cs) s =
     (if at_mount i (fo_file_type dyn_ops inode) s \<noteq> Directory then (s, Inl ''not a directory'')
      else case on_mount i (fo_lookup dyn_ops inode c) s of
        (s', Inl e) \<Rightarrow> (s', Inl e)
      | (s', Inr inode') \<Rightarrow> walk i inode' cs s')"

definition resolve :: "bytes \<Rightarrow> Vfs \<Rightarrow> Vfs \<times> (nat \<times> u64) result" where
  "resolve path s =
     (case find_mount path s of
        None \<Rightarrow> (s, Inl ''no mount for path'')
      | Some (i, relative) \<Rightarrow>
          let root = mount_root (mounts s ! i) in
          if relative = [] \<or> relative = [0x2F] then (s, Inr (i, root))
          else case walk i root (components relative) s of
            (s', Inl e) \<Rightarrow> (s', Inl e)
          | (s', Inr inode) \<Rightarrow> (s', Inr (i, inode)))"

definition opened :: "nat \<Rightarrow> u64 \<Rightarrow> Vfs \<Rightarrow> Vfs \<times> VfsFile result" where
  "opened i inode s =
     (s, Inr \<lparr>vf_inode = inode, vf_mount = i, vf_offset = 0, vf_type = at_mount i (fo_file_type dyn_ops inode) s\<rparr>)"

definition vfs_open :: "bytes \<Rightarrow> bool \<Rightarrow> Vfs \<Rightarrow> Vfs \<times> VfsFile result" where
  "vfs_open path create s =
     (case resolve path s of
        (s', Inr (i, inode)) \<Rightarrow> opened i inode s'
      | (s', Inl e) \<Rightarrow>
          if \<not> create \<or> e = panic then (s', Inl e)
          else case find_mount path s' of
            None \<Rightarrow> (s', Inl ''no mount for path'')
          | Some (i, _) \<Rightarrow>
              let (parent, nm) = split_parent_name path in
              case resolve parent s' of
                (s2, Inl e) \<Rightarrow> (s2, Inl e)
              | (s2, Inr (_, parent_inode)) \<Rightarrow>
                  (case on_mount i (fo_create dyn_ops parent_inode nm) s2 of
                     (s3, Inl e) \<Rightarrow> (s3, Inl e)
                   | (s3, Inr inode) \<Rightarrow> opened i inode s3))"

definition vfs_read :: "VfsFile \<Rightarrow> nat \<Rightarrow> Vfs \<Rightarrow> Vfs \<times> (VfsFile \<times> bytes result)" where
  "vfs_read file n s =
     (case on_mount (vf_mount file) (fo_read dyn_ops (vf_inode file) (vf_offset file) n) s of
        (s', Inl e) \<Rightarrow> (s', file, Inl e)
      | (s', Inr b) \<Rightarrow> (s', file\<lparr>vf_offset := vf_offset file + of_nat (length b)\<rparr>, Inr b))"

definition vfs_write :: "VfsFile \<Rightarrow> bytes \<Rightarrow> Vfs \<Rightarrow> Vfs \<times> (VfsFile \<times> nat result)" where
  "vfs_write file b s =
     (case on_mount (vf_mount file) (fo_write dyn_ops (vf_inode file) (vf_offset file) b) s of
        (s', Inl e) \<Rightarrow> (s', file, Inl e)
      | (s', Inr n) \<Rightarrow> (s', file\<lparr>vf_offset := vf_offset file + of_nat n\<rparr>, Inr n))"

definition vfs_size :: "VfsFile \<Rightarrow> Vfs \<Rightarrow> u64" where
  "vfs_size file s = at_mount (vf_mount file) (fo_size dyn_ops (vf_inode file)) s"

text \<open>The loop of \<^verbatim>\<open>read_all\<close>; \<open>n\<close> is what is left of the buffer.\<close>

function read_rest :: "nat \<Rightarrow> VfsFile \<Rightarrow> Vfs \<Rightarrow> Vfs \<times> bytes result" where
  "read_rest n file s =
     (if n = 0 then (s, Inr [])
      else case vfs_read file n s of
        (s', file', Inl e) \<Rightarrow> (s', Inl e)
      | (s', file', Inr b) \<Rightarrow>
          if b = [] then (s', Inr [])
          else (case read_rest (n - length b) file' s' of
                  (s'', Inl e) \<Rightarrow> (s'', Inl e)
                | (s'', Inr r) \<Rightarrow> (s'', Inr (b @ r))))"
  by pat_completeness auto
termination
  by (relation "measure (\<lambda>(n, file, s). n)") auto

declare read_rest.simps [simp del]

definition read_all :: "bytes \<Rightarrow> Vfs \<Rightarrow> Vfs \<times> bytes result" where
  "read_all path s =
     (case vfs_open path False s of
        (s', Inl e) \<Rightarrow> (s', Inl e)
      | (s', Inr file) \<Rightarrow> read_rest (unat (vfs_size file s')) file s')"

definition vfs_readdir :: "bytes \<Rightarrow> Vfs \<Rightarrow> Vfs \<times> DirEntry list result" where
  "vfs_readdir path s =
     (case resolve path s of
        (s', Inl e) \<Rightarrow> (s', Inl e)
      | (s', Inr (i, inode)) \<Rightarrow> on_mount i (fo_readdir dyn_ops inode) s')"

section \<open>Mounting and populating\<close>

definition tmpfs_init :: "Vfs \<Rightarrow> Vfs" where
  "tmpfs_init s = vfs_mount [0x2F] (root_inode tmpfs_new) (FsTmpfs tmpfs_new) s"

definition devfs_init :: "Vfs \<Rightarrow> Vfs" where
  "devfs_init s = vfs_mount (as_bytes ''/dev'') DIR_INODE FsDevfs s"

definition fat32_init :: "Vfs \<Rightarrow> Vfs \<times> bool" where
  "fat32_init s =
     (case fat_init (dv_disk (devices s)) of
        None \<Rightarrow> (s, False)
      | Some v \<Rightarrow> (vfs_mount (as_bytes ''/disk'') 1 (FsFat v) s, True))"

definition create_file_with_data :: "bytes \<Rightarrow> bytes \<Rightarrow> Vfs \<Rightarrow> Vfs \<times> unit result" where
  "create_file_with_data path b s =
     (case find_mount path s of
        None \<Rightarrow> (s, Inl ''no mount'')
      | Some (i, _) \<Rightarrow>
          let (parent, nm) = split_parent_name path in
          case resolve parent s of
            (s1, Inl e) \<Rightarrow> (s1, Inl e)
          | (s1, Inr (_, parent_inode)) \<Rightarrow>
              (case on_mount i (fo_create dyn_ops parent_inode nm) s1 of
                 (s2, Inl e) \<Rightarrow> (s2, Inl e)
               | (s2, Inr inode) \<Rightarrow>
                   (case on_mount i (fo_write dyn_ops inode 0 b) s2 of
                      (s3, Inl e) \<Rightarrow> (s3, Inl e)
                    | (s3, Inr _) \<Rightarrow> (s3, Inr ()))))"

definition vfs_mkdir :: "bytes \<Rightarrow> Vfs \<Rightarrow> Vfs \<times> unit result" where
  "vfs_mkdir path s =
     (case find_mount path s of
        None \<Rightarrow> (s, Inl ''no mount'')
      | Some (i, _) \<Rightarrow>
          let (parent, nm) = split_parent_name path in
          case resolve parent s of
            (s1, Inl e) \<Rightarrow> (s1, Inl e)
          | (s1, Inr (_, parent_inode)) \<Rightarrow>
              (case on_mount i (fo_mkdir dyn_ops parent_inode nm) s1 of
                 (s2, Inl e) \<Rightarrow> (s2, Inl e)
               | (s2, Inr _) \<Rightarrow> (s2, Inr ())))"

text \<open>\<^verbatim>\<open>initramfs::init\<close>: each step returns on an error. The programs and the text are
  arguments: one of them is a file included at build time.\<close>

definition initramfs_files :: "bytes \<Rightarrow> bytes \<Rightarrow> bytes \<Rightarrow> bytes \<Rightarrow> (string \<times> bytes) list" where
  "initramfs_files hello forktest sysutils readme =
     [(''/bin/hello'', hello), (''/bin/forktest'', forktest), (''/bin/sysutils'', sysutils), (''/README'', readme)]"

definition initramfs_init :: "(string \<times> bytes) list \<Rightarrow> Vfs \<Rightarrow> Vfs" where
  "initramfs_init files s =
     (case vfs_mkdir (as_bytes ''/bin'') s of
        (s1, Inl e) \<Rightarrow> s1
      | (s1, Inr _) \<Rightarrow> fst (for_each (\<lambda>(path, b). create_file_with_data (as_bytes path) b) files s1))"

section \<open>The mount a path belongs to\<close>

lemma mount_recovers:
  assumes "mount_matches mp path"
  shows "path = (if mp = [0x2F] then 0x2F # mount_relative mp path else mp @ mount_relative mp path)"
proof -
  have a: "take n path = p \<Longrightarrow> path = p @ drop n path" for n p by (metis append_take_drop_id)
  show ?thesis
  proof (cases "mp = [0x2F]")
    case True
    then show ?thesis using assms by (cases path) (auto simp: mount_matches_def mount_relative_def starts_with_def)
  next
    case False
    then have "path = mp \<or> take (length mp) path = mp"
      using assms by (auto simp: mount_matches_def starts_with_def) (metis append_take_drop_id append_eq_conv_conj append_assoc)
    with False show ?thesis using a [of "length mp" mp] by (auto simp: mount_relative_def)
  qed
qed

definition mounts_sorted :: "Mount list \<Rightarrow> bool" where
  "mounts_sorted ms \<longleftrightarrow> sorted (map (\<lambda>m. - int (length (mount_point m))) ms)"

lemma vfs_mount_sorted: "mounts_sorted (mounts (vfs_mount mp root f s))"
  by (simp add: mounts_sorted_def vfs_mount_def)

text \<open>
  Whatever was mounted and in whatever order, a path goes to the mount with the longest
  mount point that contains it, where containing means whole components (\<open>/dev\<close> does
  not contain \<open>/device\<close>), and the rest of the path is what follows the mount point. No
  mount is found exactly if none contains the path.
\<close>

theorem find_mount_longest:
  fixes ms :: "(bytes \<times> u64 \<times> fs) list" and s0 :: Vfs
  assumes "mounts s0 = []"
  defines "s \<equiv> fold (\<lambda>(mp, root, f). vfs_mount mp root f) ms s0"
  shows "case find_mount path s of
      Some (i, rel) \<Rightarrow> i < length (mounts s) \<and> (let mp = mount_point (mounts s ! i) in
        mount_matches mp path \<and> path = (if mp = [0x2F] then 0x2F # rel else mp @ rel) \<and>
        (\<forall>m \<in> set (mounts s). mount_matches (mount_point m) path \<longrightarrow> length (mount_point m) \<le> length mp))
    | None \<Rightarrow> (\<forall>m \<in> set (mounts s). \<not> mount_matches (mount_point m) path)"
proof -
  have "mounts_sorted (mounts (fold (\<lambda>(mp, root, f). vfs_mount mp root f) ms s0))"
    using assms(1)
  proof (induction ms rule: rev_induct)
    case Nil
    then show ?case by (simp add: mounts_sorted_def)
  next
    case (snoc x ms)
    then show ?case by (cases x) (simp add: vfs_mount_sorted)
  qed
  then have srt: "length (mount_point (mounts s ! j)) \<le> length (mount_point (mounts s ! i))" if "i \<le> j" "j < length (mounts s)" for i j
    using that unfolding mounts_sorted_def s_def by (force dest: sorted_nth_mono [of _ i j])
  show ?thesis
  proof (cases "find (\<lambda>i. mount_matches (mount_point (mounts s ! i)) path) [0..<length (mounts s)]")
    case None
    then have "\<forall>m \<in> set (mounts s). \<not> mount_matches (mount_point m) path"
      by (auto simp: find_upt_None_iff in_set_conv_nth)
    with None show ?thesis by (simp add: find_mount_def)
  next
    case (Some i)
    note f = Some [unfolded find_upt_Some_iff]
    have "length (mount_point m) \<le> length (mount_point (mounts s ! i))"
      if "m \<in> set (mounts s)" "mount_matches (mount_point m) path" for m
    proof -
      from that(1) obtain j where j: "j < length (mounts s)" "m = mounts s ! j" by (auto simp: in_set_conv_nth)
      then have "i \<le> j" using f that(2) by (meson not_le zero_le)
      with j srt show ?thesis by simp
    qed
    then show ?thesis using Some f mount_recovers [of "mount_point (mounts s ! i)" path] by (auto simp: find_mount_def Let_def)
  qed
qed

theorem find_mount_longest_witness:
  "find_mount (as_bytes ''/dev/kbd'')
     (fold (\<lambda>(mp, root, f). vfs_mount mp root f) [(as_bytes ''/'', 1, FsDevfs), (as_bytes ''/dev'', 1, FsDevfs)]
       \<lparr>mounts = [], devices = \<lparr>dv_disk = blank_disk, dv_keys = sb_new, dv_serial = [], dv_fb = None\<rparr>\<rparr>) \<noteq> None"
  using find_mount_longest [of "\<lparr>mounts = [], devices = \<lparr>dv_disk = blank_disk, dv_keys = sb_new, dv_serial = [], dv_fb = None\<rparr>\<rparr>"
    "[(as_bytes ''/'', 1, FsDevfs), (as_bytes ''/dev'', 1, FsDevfs)]" "as_bytes ''/dev/kbd''"]
  by (auto simp: vfs_mount_def mount_matches_def starts_with_def as_bytes_def insort_key_def split: option.splits)

section \<open>Paths as lists of names\<close>

definition good_name :: "bytes \<Rightarrow> bool" where
  "good_name c \<longleftrightarrow> c \<noteq> [] \<and> 0x2F \<notin> set c"

definition slash_path :: "bytes list \<Rightarrow> bytes" where
  "slash_path cs = (if cs = [] then [0x2F] else concat (map (\<lambda>c. 0x2F # c) cs))"

lemma split_at_name: "0x2F \<notin> set c \<Longrightarrow> split_at 0x2F (c @ 0x2F # r) = c # split_at 0x2F r"
  by (induction c) auto

lemma split_at_last: "0x2F \<notin> set c \<Longrightarrow> split_at 0x2F c = [c]"
  by (induction c) auto

lemma split_at_names:
  "\<forall>c \<in> set (c # cs). good_name c \<Longrightarrow> split_at 0x2F (c @ concat (map (\<lambda>c. 0x2F # c) cs)) = c # cs"
proof (induction cs arbitrary: c)
  case Nil
  then show ?case by (simp add: split_at_last good_name_def)
next
  case (Cons e es)
  then show ?case by (simp add: split_at_name good_name_def)
qed

lemma last_names:
  "\<forall>c \<in> set (c # cs). good_name c \<Longrightarrow> last (c @ concat (map (\<lambda>c. 0x2F # c) cs)) \<noteq> 0x2F"
proof (induction cs arbitrary: c)
  case Nil
  then have "c \<noteq> []" "0x2F \<notin> set c" by (simp_all add: good_name_def)
  then have "last c \<noteq> 0x2F" by (metis last_in_set)
  then show ?case by simp
next
  case (Cons e es)
  then show ?case by (auto simp: good_name_def)
qed

lemma trim_matches_id: "xs \<noteq> [] \<Longrightarrow> hd xs \<noteq> c \<Longrightarrow> last xs \<noteq> c \<Longrightarrow> trim_matches c xs = xs"
  by (simp add: trim_matches_def dropWhile_eq_self_iff [THEN iffD2] hd_rev)

lemma components_names:
  assumes "\<forall>c \<in> set cs. good_name c" "cs \<noteq> []"
  shows "components (drop 1 (slash_path cs)) = cs"
proof (cases cs)
  case (Cons c es)
  let ?p = "c @ concat (map (\<lambda>c. 0x2F # c) es)"
  have "c \<noteq> []" "0x2F \<notin> set c" using assms(1) Cons by (simp_all add: good_name_def)
  then have g: "c \<noteq> []" "hd c \<noteq> 0x2F" by (simp, metis hd_in_set)
  then have "trim_matches 0x2F ?p = ?p" using assms(1) last_names [of c es] Cons by (intro trim_matches_id) auto
  then show ?thesis using assms Cons split_at_names [of c es]
    by (simp add: components_def slash_path_def) (auto simp: good_name_def intro!: filter_True)
qed (use assms in simp)

lemma split_parent_names:
  assumes "\<forall>c \<in> set (ds @ [nm]). good_name c"
  shows "split_parent_name (slash_path (ds @ [nm])) = (slash_path ds, nm)"
proof -
  let ?q = "concat (map (\<lambda>c. 0x2F # c) ds)" and ?p = "slash_path (ds @ [nm])"
  have p: "?p = ?q @ 0x2F # nm" by (simp add: slash_path_def)
  have "?p ! j \<noteq> 0x2F" if "length ?q < j" "j < length ?p" for j
  proof -
    have "?p ! j = nm ! (j - length ?q - 1)" "j - length ?q - 1 < length nm"
      using that unfolding p by (auto simp: nth_append nth_Cons')
    then show ?thesis using assms by (metis good_name_def nth_mem last_in_set last_snoc snoc_eq_iff_butlast)
  qed
  then have "rfind 0x2F ?p = Some (length ?q)"
    unfolding rfind_def p by (intro find_last) simp_all
  moreover have "length ?q = 0 \<longleftrightarrow> ds = []" by (cases ds) simp_all
  ultimately show ?thesis unfolding split_parent_name_def using p by (simp add: slash_path_def)
qed

lemma matches_parent:
  assumes "mount_matches mp (slash_path ds)" "mp \<noteq> [0x2F]"
  shows "mount_matches mp (slash_path (ds @ [nm]))"
proof (cases "ds = []")
  case True
  then have "[0x2F] = mp \<or> take (Suc (length mp)) [0x2F] = mp @ [0x2F]"
    using assms by (simp add: mount_matches_def starts_with_def slash_path_def)
  then show ?thesis using assms(2) True by (auto simp: mount_matches_def starts_with_def slash_path_def)
next
  case False
  then have "slash_path (ds @ [nm]) = slash_path ds @ 0x2F # nm" by (simp add: slash_path_def)
  moreover have "take n xs = p \<Longrightarrow> length p = n \<Longrightarrow> take n (xs @ ys) = p" for n xs p and ys :: bytes by auto
  ultimately show ?thesis using assms by (auto simp: mount_matches_def starts_with_def)
qed

section \<open>The root file system as a tree\<close>

fun tree_walk :: "(u64 \<Rightarrow> (bytes \<Rightarrow> u64 option) option) \<Rightarrow> u64 \<Rightarrow> bytes list \<Rightarrow> u64 option" where
  "tree_walk names inode [] = Some inode"
| "tree_walk names inode (c # cs) =
     (case names inode of
        None \<Rightarrow> None
      | Some ns \<Rightarrow> (case ns c of None \<Rightarrow> None | Some j \<Rightarrow> tree_walk names j cs))"

text \<open>The contents of the file at a path.\<close>

definition file_at :: "Tmpfs \<Rightarrow> bytes list \<Rightarrow> bytes option" where
  "file_at t cs = (case tree_walk (tm_names t) 1 cs of Some i \<Rightarrow> tm_contents t i | None \<Rightarrow> None)"

lemma tree_walk_append:
  "tree_walk names i (cs @ ds) = (case tree_walk names i cs of Some j \<Rightarrow> tree_walk names j ds | None \<Rightarrow> None)"
  by (induction cs arbitrary: i) (auto split: option.splits)

lemma tree_walk_mono:
  assumes "\<And>i ns. names i = Some ns \<Longrightarrow> \<exists>ns'. names' i = Some ns' \<and> ns \<subseteq>\<^sub>m ns'"
  shows "tree_walk names i cs = Some j \<Longrightarrow> tree_walk names' i cs = Some j"
proof (induction cs arbitrary: i)
  case (Cons c cs)
  then obtain ns k where k: "names i = Some ns" "ns c = Some k" "tree_walk names k cs = Some j"
    by (auto split: option.splits)
  from assms [OF k(1)] obtain ns' where "names' i = Some ns'" "ns \<subseteq>\<^sub>m ns'" by blast
  moreover from this k(2) have "ns' c = Some k" by (metis domI map_le_def)
  ultimately show ?case using Cons.IH [OF k(3)] by simp
qed simp

definition root_at :: "Vfs \<Rightarrow> nat \<Rightarrow> Tmpfs \<Rightarrow> bool" where
  "root_at s i t \<longleftrightarrow> i < length (mounts s) \<and> mounts s ! i = \<lparr>mount_point = [0x2F], mount_root = 1, ops = FsTmpfs t\<rparr>"

lemma dyn_tmpfs:
  assumes "root_at s i t"
  shows "at_mount i (fo_file_type dyn_ops j) s = tm_file_type j t"
    "at_mount i (fo_size dyn_ops j) s = tm_size j t"
    "on_mount i (fo_lookup dyn_ops j c) s = (s, snd (tm_lookup j c t))"
    "on_mount i (fo_read dyn_ops j off n) s = (s, snd (tm_read j off n t))"
  using assms
  by (simp_all add: root_at_def at_mount_def on_mount_def dyn_ops_def dispatch_def observe_def tmpfs_ops_def tm_lookup_def tm_read_def list_update_same_conv)

lemma dyn_tmpfs_change:
  assumes "root_at s i t"
  shows "tm_create dir nm t = (t', r) \<Longrightarrow> \<exists>s'. on_mount i (fo_create dyn_ops dir nm) s = (s', r) \<and> root_at s' i t' \<and>
      map mount_point (mounts s') = map mount_point (mounts s)"
    and "tm_write j off b t = (t', r') \<Longrightarrow> \<exists>s'. on_mount i (fo_write dyn_ops j off b) s = (s', r') \<and> root_at s' i t' \<and>
      map mount_point (mounts s') = map mount_point (mounts s)"
  using assms
  by (auto simp: root_at_def on_mount_def dyn_ops_def dispatch_def tmpfs_ops_def map_update list_update_same_conv)

lemma find_mount_cong:
  assumes "map mount_point (mounts s') = map mount_point (mounts s)"
  shows "find_mount path s' = find_mount path s"
proof -
  have l: "length (mounts s') = length (mounts s)" using assms by (metis length_map)
  have p: "mount_point (mounts s' ! j) = mount_point (mounts s ! j)" if "j < length (mounts s)" for j
    using assms that l by (metis nth_map)
  have "find (\<lambda>i. mount_matches (mount_point (mounts s' ! i)) path) [0..<length (mounts s)] =
      find (\<lambda>i. mount_matches (mount_point (mounts s ! i)) path) [0..<length (mounts s)]"
    by (rule find_upt_cong) (simp add: p)
  moreover have "mount_point (mounts s' ! j) = mount_point (mounts s ! j)"
    if "find (\<lambda>i. mount_matches (mount_point (mounts s ! i)) path) [0..<length (mounts s)] = Some j" for j
    using that p by (simp add: find_upt_Some_iff)
  ultimately show ?thesis unfolding find_mount_def l
    by (cases "find (\<lambda>i. mount_matches (mount_point (mounts s ! i)) path) [0..<length (mounts s)]") simp_all
qed

lemma walk_tmpfs:
  assumes "root_at s i t"
  shows "tree_walk (tm_names t) inode cs = Some j \<Longrightarrow> walk i inode cs s = (s, Inr j)"
proof (induction cs arbitrary: inode)
  case (Cons c cs)
  then obtain ns k where k: "tm_names t inode = Some ns" "ns c = Some k" "tree_walk (tm_names t) k cs = Some j"
    by (auto split: option.splits)
  then have "tm_file_type inode t = Directory" "snd (tm_lookup inode c t) = Inr k"
    by (auto simp: tm_names_Some tm_file_type_def tm_lookup_def)
  then show ?case using Cons.IH [OF k(3)] by (simp add: dyn_tmpfs [OF assms])
qed simp

lemma resolve_tmpfs:
  assumes "root_at s i t" "find_mount (slash_path cs) s = Some (i, rel)" "\<forall>c \<in> set cs. good_name c"
    "tree_walk (tm_names t) 1 cs = Some j"
  shows "resolve (slash_path cs) s = (s, Inr (i, j))"
proof -
  have m: "mount_point (mounts s ! i) = [0x2F]" "mount_root (mounts s ! i) = 1" using assms(1) by (simp_all add: root_at_def)
  have rel: "rel = drop 1 (slash_path cs)"
    using assms(2) m(1) by (auto simp: find_mount_def mount_relative_def split: option.splits)
  show ?thesis
  proof (cases "cs = []")
    case True
    then show ?thesis using assms(2,4) m rel by (simp add: resolve_def slash_path_def)
  next
    case False
    then have c: "components rel = cs" using components_names [OF assms(3)] rel by simp
    have "rel \<noteq> []" "rel \<noteq> [0x2F]" using c False by (auto simp: components_def trim_matches_def)
    then show ?thesis using assms(2) m c walk_tmpfs [OF assms(1,4)] by (simp add: resolve_def)
  qed
qed

text \<open>A file of the root file system is read by its path.\<close>

lemma read_all_tmpfs:
  assumes "root_at s i t" "tm_wf t" "find_mount (slash_path cs) s = Some (i, rel)" "\<forall>c \<in> set cs. good_name c"
    "file_at t cs = Some b" "length b < 2 ^ 64"
  shows "read_all (slash_path cs) s = (s, Inr b)"
proof -
  from assms(5) obtain j where j: "tree_walk (tm_names t) 1 cs = Some j" "tm_contents t j = Some b"
    by (auto simp: file_at_def split: option.splits)
  have sz: "unat (tm_size j t) = length b"
    using j(2) assms(6) by (auto simp: tm_contents_Some tm_size_def intro!: of_nat_inverse [OF refl])
  have rd: "snd (tm_read j 0 n t) = Inr (take n b)" for n
    using tmpfs.read_law [OF assms(2) j(2), of 0 n] by simp
  have "read_rest (length b) \<lparr>vf_inode = j, vf_mount = i, vf_offset = 0, vf_type = x\<rparr> s = (s, Inr b)" for x
    by (subst read_rest.simps) (simp add: vfs_read_def dyn_tmpfs [OF assms(1)] rd read_rest.simps [of 0])
  then show ?thesis
    using resolve_tmpfs [OF assms(1,3,4) j(1)] sz
    by (simp add: read_all_def vfs_open_def opened_def vfs_size_def dyn_tmpfs [OF assms(1)])
qed

lemma find_mount_parent:
  assumes "root_at s i t" "find_mount (slash_path (ds @ [nm])) s = Some (i, rel)"
  shows "\<exists>rel'. find_mount (slash_path ds) s = Some (i, rel')"
proof -
  have m: "mount_point (mounts s ! i) = [0x2F]" using assms(1) by (simp add: root_at_def)
  have f: "i < length (mounts s)" "\<forall>j<i. \<not> mount_matches (mount_point (mounts s ! j)) (slash_path (ds @ [nm]))"
    using assms(2) by (auto simp: find_mount_def find_upt_Some_iff split: option.splits)
  have r: "mount_matches [0x2F] (slash_path xs)" for xs
    by (cases xs) (simp_all add: mount_matches_def starts_with_def slash_path_def)
  have "\<not> mount_matches (mount_point (mounts s ! j)) (slash_path ds)" if "j < i" for j
    using f(2) that matches_parent [of "mount_point (mounts s ! j)" ds nm] r [of "ds @ [nm]"] by fastforce
  then have "find (\<lambda>i. mount_matches (mount_point (mounts s ! i)) (slash_path ds)) [0..<length (mounts s)] = Some i"
    using f(1) m r by (simp add: find_upt_Some_iff)
  then show ?thesis by (simp add: find_mount_def)
qed

text \<open>
  C23. A file created by path and read back by path. When the directory exists in the root file
  system and has no such name, \<^verbatim>\<open>create_file_with_data\<close> succeeds, \<^verbatim>\<open>read_all\<close>
  on the same path gives the data, and every file that could be read before is still there with
  the same contents.
\<close>

theorem vfs_create_read:
  assumes r: "root_at s i t" and w: "tm_wf t" "next_inode t + 1 \<noteq> 0"
    and p: "find_mount (slash_path (ds @ [nm])) s = Some (i, rel)" "\<forall>c \<in> set (ds @ [nm]). good_name c"
    and d: "tree_walk (tm_names t) 1 ds = Some dir" "tm_names t dir = Some ns" "ns nm = None"
    and b: "length b < 2 ^ 64"
  shows "\<exists>s' t'. create_file_with_data (slash_path (ds @ [nm])) b s = (s', Inr ()) \<and>
    root_at s' i t' \<and> tm_wf t' \<and> read_all (slash_path (ds @ [nm])) s' = (s', Inr b) \<and>
    (\<forall>cs x. file_at t cs = Some x \<longrightarrow> file_at t' cs = Some x)"
proof -
  from tmpfs.create_law [OF w d(2,3)] obtain t1 j where
    t1: "tm_create dir nm t = (t1, Inr j)" "tm_wf t1" "tm_contents t j = None"
      "tm_contents t1 = (tm_contents t)(j \<mapsto> [])" "tm_names t1 = (tm_names t)(dir \<mapsto> ns(nm \<mapsto> j))" by blast
  have "tm_contents t1 j = Some []" by (simp add: t1)
  from tmpfs.write_law [OF t1(2) this, of 0 b] b obtain t2 where
    t2: "tm_write j 0 b t1 = (t2, Inr (length b))" "tm_wf t2" "tm_contents t2 = (tm_contents t)(j \<mapsto> b)"
      "tm_names t2 = (tm_names t)(dir \<mapsto> ns(nm \<mapsto> j))"
    using overwrite_append [of "[]" b] by (auto simp: t1(4,5))
  from dyn_tmpfs_change(1) [OF r t1(1)] obtain s1 where
    s1: "on_mount i (fo_create dyn_ops dir nm) s = (s1, Inr j)" "root_at s1 i t1" "map mount_point (mounts s1) = map mount_point (mounts s)" by blast
  from dyn_tmpfs_change(2) [OF s1(2) t2(1)] obtain s2 where
    s2: "on_mount i (fo_write dyn_ops j 0 b) s1 = (s2, Inr (length b))" "root_at s2 i t2" "map mount_point (mounts s2) = map mount_point (mounts s1)" by blast
  from find_mount_parent [OF r p(1)] obtain rel' where "find_mount (slash_path ds) s = Some (i, rel')" by blast
  from resolve_tmpfs [OF r this _ d(1)] p(2) have res: "resolve (slash_path ds) s = (s, Inr (i, dir))" by simp
  have c: "create_file_with_data (slash_path (ds @ [nm])) b s = (s2, Inr ())"
    using p(1) res s1(1) s2(1) by (simp add: create_file_with_data_def split_parent_names [OF p(2)])
  have mono: "\<exists>ns'. tm_names t2 k = Some ns' \<and> m \<subseteq>\<^sub>m ns'" if "tm_names t k = Some m" for k m
    using that d(2,3) t2(4) by (auto simp: map_le_def)
  have keep: "file_at t2 cs = Some x" if "file_at t cs = Some x" for cs x
  proof -
    from that obtain k where k: "tree_walk (tm_names t) 1 cs = Some k" "tm_contents t k = Some x"
      by (auto simp: file_at_def split: option.splits)
    have "tree_walk (tm_names t2) 1 cs = Some k" using mono by (intro tree_walk_mono [OF _ k(1)]) blast
    moreover have "k \<noteq> j" using k(2) t1(3) by auto
    ultimately show ?thesis using k(2) t2(3) by (simp add: file_at_def)
  qed
  have "tree_walk (tm_names t2) 1 ds = Some dir" using mono by (intro tree_walk_mono [OF _ d(1)]) blast
  then have "file_at t2 (ds @ [nm]) = Some b" using t2(3,4) by (simp add: file_at_def tree_walk_append)
  moreover have "find_mount (slash_path (ds @ [nm])) s2 = Some (i, rel)"
    using p(1) find_mount_cong [of s2 s] s1(3) s2(3) by simp
  ultimately have "read_all (slash_path (ds @ [nm])) s2 = (s2, Inr b)"
    using read_all_tmpfs [OF s2(2) t2(2) _ p(2)] b by blast
  with c s2(2) t2(2) keep show ?thesis by blast
qed

theorem vfs_create_read_witness:
  "\<exists>s' t'. create_file_with_data (slash_path ([] @ [as_bytes ''motd''])) (as_bytes ''hello'')
      \<lparr>mounts = [\<lparr>mount_point = [0x2F], mount_root = 1, ops = FsTmpfs tmpfs_new\<rparr>],
        devices = \<lparr>dv_disk = blank_disk, dv_keys = sb_new, dv_serial = [], dv_fb = None\<rparr>\<rparr> = (s', Inr ()) \<and>
    root_at s' 0 t' \<and> tm_wf t' \<and> read_all (slash_path ([] @ [as_bytes ''motd''])) s' = (s', Inr (as_bytes ''hello'')) \<and>
    (\<forall>cs x. file_at tmpfs_new cs = Some x \<longrightarrow> file_at t' cs = Some x)"
proof -
  let ?s = "\<lparr>mounts = [\<lparr>mount_point = [0x2F], mount_root = 1, ops = FsTmpfs tmpfs_new\<rparr>],
    devices = \<lparr>dv_disk = blank_disk, dv_keys = sb_new, dv_serial = [], dv_fb = None\<rparr>\<rparr>"
  show ?thesis
    by (rule vfs_create_read [of ?s 0 tmpfs_new _ _ "as_bytes ''motd''" 1 Map.empty "as_bytes ''hello''"])
       (simp_all add: root_at_def tmpfs_new_wf, simp_all add: tmpfs_new_def find_mount_def mount_matches_def starts_with_def slash_path_def
        mount_relative_def good_name_def as_bytes_def tm_names_def)
qed

end
