(* ===== verification/User_Memory.thy ===== *)
theory User_Memory
  imports Prelude
begin

text \<open>
  Memory by address, as the code that follows raw pointers sees it: reading and writing byte
  strings and integers at an address, and C strings. Addresses wrap around at 64 bits.
\<close>

definition peek :: "u64 \<Rightarrow> nat \<Rightarrow> (u64 \<Rightarrow> u8) \<Rightarrow> bytes" where
  "peek a n m = map (\<lambda>i. m (a + of_nat i)) [0..<n]"

definition poke :: "u64 \<Rightarrow> bytes \<Rightarrow> (u64 \<Rightarrow> u8) \<Rightarrow> u64 \<Rightarrow> u8" where
  "poke a b m = (\<lambda>x. if unat (x - a) < length b then b ! unat (x - a) else m x)"

text \<open>The address of the terminating zero, within a limit: \<open>None\<close> when there is none.\<close>

definition c_string :: "nat \<Rightarrow> u64 \<Rightarrow> (u64 \<Rightarrow> u8) \<Rightarrow> bytes option" where
  "c_string limit p m = map_option (\<lambda>n. peek p n m) (find (\<lambda>i. m (p + of_nat i) = 0) [0..<limit])"

section \<open>Lemmas\<close>

lemma u64_bound: "unat (x :: u64) < 2 ^ 64"
  using unsigned_less [of x] by simp

lemma unat_offset: "n < 2 ^ 64 \<Longrightarrow> unat (of_nat n :: u64) = n"
  by (intro of_nat_inverse [OF refl]) simp

lemma unat_add_offset: "unat (a :: u64) + n < 2 ^ 64 \<Longrightarrow> unat (a + of_nat n) = unat a + n"
  using unat_add_lem [of a "of_nat n"] by (simp add: unat_offset)

lemma length_peek [simp]: "length (peek a n m) = n"
  by (simp add: peek_def)

lemma nth_peek [simp]: "i < n \<Longrightarrow> peek a n m ! i = m (a + of_nat i)"
  by (simp add: peek_def)

lemma poke_Nil [simp]: "poke a [] m = m"
  by (simp add: poke_def)

lemma peek_poke_same: "length b \<le> 2 ^ 64 \<Longrightarrow> peek a (length b) (poke a b m) = b"
proof (rule nth_equalityI)
  fix i assume l: "length b \<le> 2 ^ 64" and i: "i < length (peek a (length b) (poke a b m))"
  then have "unat (of_nat i :: u64) = i" by (intro of_nat_inverse [OF refl]) simp
  with i show "peek a (length b) (poke a b m) ! i = b ! i" by (simp add: poke_def)
qed simp

lemma poke_outside: "length b \<le> unat (x - a) \<Longrightarrow> poke a b m x = m x"
  by (simp add: poke_def)

text \<open>Ranges that do not overlap, stated without wrapping round.\<close>

lemma unat_diff_outside:
  fixes a b :: u64
  assumes "unat a + n \<le> unat b \<or> unat b + k \<le> unat a" "unat b + k \<le> 2 ^ 64" "i < k" "unat a + n \<le> 2 ^ 64"
  shows "n \<le> unat (b + of_nat i - a)"
proof -
  have i: "unat (of_nat i :: u64) = i"
    using assms(2,3) by (intro of_nat_inverse [OF refl]) simp
  have u: "unat (b + of_nat i) = unat b + i"
    using unat_add_lem [of b "of_nat i"] assms(2,3) i by simp
  show ?thesis using assms u by (auto simp: unat_sub_if')
qed

lemma peek_poke_other:
  fixes a b :: u64
  assumes "unat a + length d \<le> unat b \<or> unat b + k \<le> unat a" "unat b + k \<le> 2 ^ 64" "unat a + length d \<le> 2 ^ 64"
  shows "peek b k (poke a d m) = peek b k m"
  by (rule nth_equalityI) (use unat_diff_outside [OF assms(1,2) _ assms(3)] in \<open>auto simp: poke_outside\<close>)

lemma peek_cong: "(\<And>i. i < n \<Longrightarrow> m' (a + of_nat i) = m (a + of_nat i)) \<Longrightarrow> peek a n m' = peek a n m"
  by (simp add: peek_def)

lemma c_string_eq:
  assumes "length s < limit" "0 \<notin> set s" "peek p (length s + 1) m = s @ [0]"
  shows "c_string limit p m = Some s"
proof -
  have n: "m (p + of_nat i) = (s @ [0]) ! i" if "i < length s + 1" for i
    using that assms(3) by (metis nth_peek)
  have "m (p + of_nat i) \<noteq> 0" if "i < length s" for i
    using n [of i] that assms(2) by (simp add: nth_append) (metis nth_mem)
  then have "find (\<lambda>i. m (p + of_nat i) = 0) [0..<limit] = Some (length s)"
    using assms(1) n [of "length s"] by (simp add: find_upt_Some_iff nth_append)
  moreover have "peek p (length s) m = s"
    by (rule nth_equalityI) (use n in \<open>auto simp: nth_append\<close>)
  ultimately show ?thesis by (simp add: c_string_def)
qed

lemma c_string_Some:
  "c_string limit p m = Some s \<Longrightarrow> length s < limit \<and> 0 \<notin> set s \<and> m (p + of_nat (length s)) = 0"
  by (auto simp: c_string_def find_upt_Some_iff peek_def)

text \<open>Writing inside a frame of 4096 bytes.\<close>

lemma poke_frame:
  fixes dst frame :: u64
  assumes "unat dst + length b \<le> 4096"
  shows "k < 4096 \<Longrightarrow> poke (frame + dst) b m (frame + of_nat k) =
      (if unat dst \<le> k \<and> k < unat dst + length b then b ! (k - unat dst) else m (frame + of_nat k))"
    and "\<not> a - frame < 4096 \<Longrightarrow> poke (frame + dst) b m a = m a"
proof -
  assume k: "k < 4096"
  have e: "frame + of_nat k - (frame + dst) = of_nat k - dst" by simp
  have uk: "unat (of_nat k :: u64) = k" using k by (intro unat_offset) simp
  have u: "unat (of_nat k - dst) = (if unat dst \<le> k then k - unat dst else k + 2 ^ LENGTH(64) - unat dst)"
    by (simp only: unat_sub_if' uk)
  have r: "poke (frame + dst) b m (frame + of_nat k) =
      (if unat (of_nat k - dst) < length b then b ! unat (of_nat k - dst) else m (frame + of_nat k))"
    by (simp add: poke_def e)
  show "poke (frame + dst) b m (frame + of_nat k) =
      (if unat dst \<le> k \<and> k < unat dst + length b then b ! (k - unat dst) else m (frame + of_nat k))"
  proof (cases "unat dst \<le> k")
    case True
    then show ?thesis using r u by (auto simp: less_diff_conv2)
  next
    case False
    then have "\<not> unat (of_nat k - dst) < length b" using u assms by simp
    with False show ?thesis using r by simp
  qed
next
  assume a: "\<not> a - frame < 4096"
  define k where "k = a - frame"
  have "4096 \<le> unat k" using a by (simp add: k_def word_less_nat_alt)
  then have "length b \<le> unat (k - dst)" using assms unat_sub [of dst k] by (simp add: word_le_nat_alt)
  moreover have "a - (frame + dst) = k - dst" by (simp add: k_def)
  ultimately show "poke (frame + dst) b m a = m a" by (intro poke_outside) metis
qed

end
