(* ===== verification/Elf.thy ===== *)
theory Elf
  imports Sched Vfs User_Memory
begin

text \<open>
  Programs: the header checks of \<^verbatim>\<open>kernel/src/exec.rs\<close>, and the loader and process start
  of \<^verbatim>\<open>kernel/src/userproc.rs\<close>. Offsets are 64-bit words as in the code; a slice whose bounds
  are wrong is a panic, a raw copy that leaves its buffer is an error of its own.
\<close>

section \<open>Headers\<close>

definition ELF_MAGIC :: bytes where "ELF_MAGIC = [0x7f, 0x45, 0x4c, 0x46]"
definition ELFCLASS64 :: u8 where "ELFCLASS64 = 2"
definition ELFDATA2LSB :: u8 where "ELFDATA2LSB = 1"
definition ET_EXEC :: u16 where "ET_EXEC = 2"
definition PT_LOAD :: u32 where "PT_LOAD = 1"

record Elf64Ehdr =
  e_ident :: bytes
  e_type :: u16
  e_machine :: u16
  e_version :: u32
  e_entry :: u64
  e_phoff :: u64
  e_shoff :: u64
  e_flags :: u32
  e_ehsize :: u16
  e_phentsize :: u16
  e_phnum :: u16
  e_shentsize :: u16
  e_shnum :: u16
  e_shstrndx :: u16

record Elf64Phdr =
  p_type :: u32
  p_flags :: u32
  p_offset :: u64
  p_vaddr :: u64
  p_paddr :: u64
  p_filesz :: u64
  p_memsz :: u64
  p_align :: u64

record LoadResult =
  lr_entry :: u64
  segments_loaded :: u32

text \<open>\<^verbatim>\<open>uN::from_le_bytes(buf[a..b])\<close>\<close>

definition le_field :: "nat \<Rightarrow> nat \<Rightarrow> bytes \<Rightarrow> 'a::len word" where
  "le_field a b d = from_le (slice a b d)"

definition validate_header_raw :: "bytes \<Rightarrow> u16 \<Rightarrow> u16 \<Rightarrow> unit result" where
  "validate_header_raw ident ty mach =
     (if slice 0 4 ident \<noteq> ELF_MAGIC then Inl ''invalid ELF magic''
      else if ident ! 4 \<noteq> ELFCLASS64 then Inl ''not ELF64''
      else if ident ! 5 \<noteq> ELFDATA2LSB then Inl ''not little-endian''
      else if ty \<noteq> ET_EXEC then Inl ''not an executable (ET_EXEC)''
      else if mach \<noteq> 0x3E then Inl ''not x86_64''
      else Inr ())"

definition validate_header :: "Elf64Ehdr \<Rightarrow> unit result" where
  "validate_header ehdr = validate_header_raw (e_ident ehdr) (e_type ehdr) (e_machine ehdr)"

definition parse_phdr :: "bytes \<Rightarrow> Elf64Phdr option" where
  "parse_phdr d =
     (if length d < 56 then None
      else Some \<lparr>p_type = le_field 0 4 d, p_flags = le_field 4 8 d, p_offset = le_field 8 16 d,
        p_vaddr = le_field 16 24 d, p_paddr = le_field 24 32 d, p_filesz = le_field 32 40 d,
        p_memsz = le_field 40 48 d, p_align = le_field 48 56 d\<rparr>)"

definition parse_ehdr :: "bytes \<Rightarrow> Elf64Ehdr" where
  "parse_ehdr d = \<lparr>e_ident = slice 0 16 d, e_type = le_field 16 18 d, e_machine = le_field 18 20 d, e_version = 0,
     e_entry = le_field 24 32 d, e_phoff = le_field 32 40 d, e_shoff = 0, e_flags = 0, e_ehsize = 0,
     e_phentsize = le_field 54 56 d, e_phnum = le_field 56 58 d, e_shentsize = 0, e_shnum = 0, e_shstrndx = 0\<rparr>"

text \<open>The loop over the program headers of \<^verbatim>\<open>load_elf\<close>. \<open>offset + phdr_size\<close> may wrap
  round; the slice that follows then panics.\<close>

fun count_segments :: "bytes \<Rightarrow> u64 \<Rightarrow> u64 \<Rightarrow> nat list \<Rightarrow> u32 \<Rightarrow> u32 result" where
  "count_segments d base phsize [] n = Inr n"
| "count_segments d base phsize (i # is) n =
     (let offset = base + of_nat i * phsize in
      if length d < unat (offset + phsize) then Inr n
      else if offset + phsize < offset then Inl panic
      else case parse_phdr (slice (unat offset) (unat (offset + phsize)) d) of
        None \<Rightarrow> count_segments d base phsize is n
      | Some phdr \<Rightarrow>
          if p_type phdr \<noteq> PT_LOAD then count_segments d base phsize is n
          else if unat (p_offset phdr + p_filesz phdr) \<le> length d then count_segments d base phsize is (n + 1)
          else count_segments d base phsize is n)"

definition load_elf :: "bytes \<Rightarrow> LoadResult result" where
  "load_elf d =
     (if length d < 64 then Inl ''buffer too small for ELF header''
      else let ehdr = parse_ehdr d in
        case validate_header ehdr of
          Inl e \<Rightarrow> Inl e
        | Inr _ \<Rightarrow>
            (case count_segments d (e_phoff ehdr) (ucast (e_phentsize ehdr)) [0..<unat (e_phnum ehdr)] 0 of
               Inl e \<Rightarrow> Inl e
             | Inr n \<Rightarrow> Inr \<lparr>lr_entry = e_entry ehdr, segments_loaded = n\<rparr>))"

section \<open>Segments\<close>

record ElfSegment =
  vaddr :: u64
  seg_offset :: u64
  filesz :: u64
  memsz :: u64
  seg_flags :: u32

definition segment_at :: "bytes \<Rightarrow> nat \<Rightarrow> ElfSegment" where
  "segment_at d off = \<lparr>vaddr = le_field (off + 16) (off + 24) d, seg_offset = le_field (off + 8) (off + 16) d,
     filesz = le_field (off + 32) (off + 40) d, memsz = le_field (off + 40) (off + 48) d, seg_flags = le_field (off + 4) (off + 8) d\<rparr>"

text \<open>When \<open>off + 56\<close> wraps round, the first field read is out of bounds: a panic.\<close>

fun collect_segments :: "bytes \<Rightarrow> u64 \<Rightarrow> u16 \<Rightarrow> nat list \<Rightarrow> ElfSegment list result" where
  "collect_segments d phoff phentsize [] = Inr []"
| "collect_segments d phoff phentsize (i # is) =
     (let off = phoff + of_nat i * ucast phentsize in
      if length d < unat (off + 56) then Inr []
      else if off + 56 < off then Inl panic
      else if le_field (unat off) (unat off + 4) d \<noteq> PT_LOAD then collect_segments d phoff phentsize is
      else case collect_segments d phoff phentsize is of
        Inl e \<Rightarrow> Inl e
      | Inr segs \<Rightarrow> Inr (segment_at d (unat off) # segs))"

definition parse_elf_segments :: "bytes \<Rightarrow> (u64 \<times> ElfSegment list) result" where
  "parse_elf_segments d =
     (if length d < 64 then Inl ''ELF too small''
      else if slice 0 4 d \<noteq> ELF_MAGIC then Inl ''bad ELF magic''
      else if d ! 4 \<noteq> 2 then Inl ''not ELF64''
      else if d ! 5 \<noteq> 1 then Inl ''not little-endian''
      else if le_field 16 18 d \<noteq> (2 :: u16) then Inl ''not ET_EXEC''
      else if le_field 18 20 d \<noteq> (0x3E :: u16) then Inl ''not x86_64''
      else case collect_segments d (le_field 32 40 d) (le_field 54 56 d) [0..<unat (le_field 56 58 d :: u16)] of
        Inl e \<Rightarrow> Inl e
      | Inr segs \<Rightarrow> Inr (le_field 24 32 d, segs))"

section \<open>Mapping\<close>

definition USER_STACK_TOP :: u64 where "USER_STACK_TOP = 0x00007FFF00000000"
definition USER_STACK_SIZE :: u64 where "USER_STACK_SIZE = 64 * 1024"

definition PRESENT :: u64 where "PRESENT = 1"
definition WRITABLE :: u64 where "WRITABLE = 2"
definition USER_ACCESSIBLE :: u64 where "USER_ACCESSIBLE = 4"

definition containing_page :: "u64 \<Rightarrow> u64" where "containing_page v = v AND NOT 0xfff"

text \<open>\<^verbatim>\<open>Page::range_inclusive\<close>: nothing if the end is before the start.\<close>

definition page_range :: "u64 \<Rightarrow> u64 \<Rightarrow> u64 list" where
  "page_range first last_page =
     (if last_page < first then []
      else map (\<lambda>k. first + 4096 * of_nat k) [0..<unat (last_page - first) div 4096 + 1])"

text \<open>What part of the file goes into a page: the offset in the page, the offset in the file
  and the number of bytes.\<close>

definition file_part :: "ElfSegment \<Rightarrow> u64 \<Rightarrow> (u64 \<times> u64 \<times> u64) option" where
  "file_part seg page =
     (let page_end = page + 4096;
          file_start = (if vaddr seg < page then page - vaddr seg else 0);
          file_end = (if vaddr seg + filesz seg < page_end then filesz seg else page_end - vaddr seg)
      in if file_start < file_end \<and> file_start < filesz seg
         then Some ((if page < vaddr seg then vaddr seg else page) AND 0xfff, seg_offset seg + file_start, file_end - file_start)
         else None)"

definition copy_file_part :: "bytes \<Rightarrow> ElfSegment \<Rightarrow> u64 \<Rightarrow> u64 \<Rightarrow> memory \<Rightarrow> memory \<times> unit result" where
  "copy_file_part d seg page frame m =
     (case file_part seg page of
        None \<Rightarrow> (m, Inr ())
      | Some (dst, src, n) \<Rightarrow>
          if length d < unat (src + n) then (m, Inr ())
          else if length d < unat src + unat n then (m, Inl ''out of bounds copy'')
          else (m\<lparr>ram := poke (frame + dst) (slice (unat src) (unat src + unat n) d) (ram m)\<rparr>, Inr ()))"

definition segment_flags :: "ElfSegment \<Rightarrow> u64" where
  "segment_flags seg = PRESENT OR USER_ACCESSIBLE OR (if seg_flags seg AND 2 \<noteq> 0 then WRITABLE else 0)"

definition map_elf_page :: "mapper \<Rightarrow> u64 \<Rightarrow> bytes \<Rightarrow> ElfSegment \<Rightarrow> u64 \<Rightarrow> memory \<Rightarrow> memory \<times> unit result" where
  "map_elf_page map_to pml4 d seg page m =
     (case translate (ram m) pml4 page of
        Some pa \<Rightarrow>
          if pa AND 0xfff \<noteq> 0 then (m, Inl ''failed to map ELF page'')
          else copy_file_part d seg page pa m
      | None \<Rightarrow>
          (case map_user_page_alloc map_to pml4 page (segment_flags seg) m of
             (m', Inl e) \<Rightarrow> (m', Inl ''failed to map ELF page'')
           | (m', Inr frame) \<Rightarrow> copy_file_part d seg page frame (m'\<lparr>ram := zero_frame frame (ram m')\<rparr>)))"

definition map_elf_segment :: "mapper \<Rightarrow> u64 \<Rightarrow> bytes \<Rightarrow> ElfSegment \<Rightarrow> memory \<Rightarrow> memory \<times> unit result" where
  "map_elf_segment map_to pml4 d seg m =
     (if memsz seg = 0 then (m, Inr ())
      else if \<not> canonical (vaddr seg) \<or> \<not> canonical (vaddr seg + memsz seg) then (m, Inl panic)
      else for_each (map_elf_page map_to pml4 d seg)
             (page_range (containing_page (vaddr seg)) (containing_page (vaddr seg + memsz seg))) m)"

definition map_stack_page :: "mapper \<Rightarrow> u64 \<Rightarrow> u64 \<Rightarrow> memory \<Rightarrow> memory \<times> unit result" where
  "map_stack_page map_to pml4 page m =
     (case map_user_page_alloc map_to pml4 page (PRESENT OR WRITABLE OR USER_ACCESSIBLE) m of
        (m', Inl e) \<Rightarrow> (m', Inl ''failed to map user stack page'')
      | (m', Inr frame) \<Rightarrow> (m', Inr ()))"

definition map_user_stack :: "mapper \<Rightarrow> u64 \<Rightarrow> memory \<Rightarrow> memory \<times> u64 result" where
  "map_user_stack map_to pml4 m =
     (case for_each (map_stack_page map_to pml4)
             (page_range (containing_page (USER_STACK_TOP - USER_STACK_SIZE)) (containing_page USER_STACK_TOP)) m of
        (m', Inl e) \<Rightarrow> (m', Inl e)
      | (m', Inr _) \<Rightarrow> (m', Inr USER_STACK_TOP))"

definition load_elf_into_new_space :: "mapper \<Rightarrow> u64 \<Rightarrow> bytes \<Rightarrow> memory \<Rightarrow> memory \<times> (u64 \<times> u64 \<times> u64) result" where
  "load_elf_into_new_space map_to active_cr3 d m =
     (case parse_elf_segments d of
        Inl e \<Rightarrow> (m, Inl e)
      | Inr (entry, segments) \<Rightarrow>
          (case new_user active_cr3 m of
             (m1, Inl e) \<Rightarrow> (m1, Inl e)
           | (m1, Inr pml4) \<Rightarrow>
               (case for_each (map_elf_segment map_to pml4 d) segments m1 of
                  (m2, Inl e) \<Rightarrow> (m2, Inl e)
                | (m2, Inr _) \<Rightarrow>
                    (case map_user_stack map_to pml4 m2 of
                       (m3, Inl e) \<Rightarrow> (m3, Inl e)
                     | (m3, Inr stack_ptr) \<Rightarrow> (m3, Inr (pml4, entry, stack_ptr))))))"

section \<open>Starting a process\<close>

text \<open>\<open>trampoline\<close> is the address of \<^verbatim>\<open>user_trampoline\<close>.\<close>

definition spawn_user_process :: "mapper \<Rightarrow> u64 \<Rightarrow> bytes \<Rightarrow> bytes \<Rightarrow> machine \<times> memory \<Rightarrow> (machine \<times> memory) \<times> u32 result" where
  "spawn_user_process map_to trampoline d nm s =
     (case s of (mc, m) \<Rightarrow>
      (case load_elf_into_new_space map_to (c_cr3 (processor mc)) d m of
         (m1, Inl e) \<Rightarrow> ((mc, m1), Inl e)
       | (m1, Inr (pml4, entry, stack_ptr)) \<Rightarrow>
           (case alloc 0 nm (table mc) of (t1, k) \<Rightarrow>
              if k = 0 then ((mc\<lparr>table := t1\<rparr>, m1), Inl ''process table full'')
              else
                let t2 = with_proc k (\<lambda>p. p\<lparr>entry_point := entry, user_rsp := stack_ptr, cr3 := pml4, state := Ready\<rparr>) t1;
                    mc2 = mc\<lparr>table := t2\<rparr>
                in case find_slot k t2 of
                     None \<Rightarrow> ((mc2, m1), Inl ''process slot not found'')
                   | Some i \<Rightarrow> ((init_process_stack i trampoline mc2, m1), Inr k))))"

text \<open>\<^verbatim>\<open>path.rsplit('/').next()\<close>: the part after the last slash.\<close>

definition last_component :: "bytes \<Rightarrow> bytes" where
  "last_component path = last (split_at 0x2F path)"

definition spawn_user_process_from_path :: "mapper \<Rightarrow> u64 \<Rightarrow> bytes \<Rightarrow> Vfs \<times> machine \<times> memory
    \<Rightarrow> (Vfs \<times> machine \<times> memory) \<times> u64 result" where
  "spawn_user_process_from_path map_to trampoline path s =
     (case s of (v, mc, m) \<Rightarrow>
      (case read_all path v of
         (v', Inl e) \<Rightarrow> ((v', mc, m), Inl e)
       | (v', Inr d) \<Rightarrow>
           if d = [] then ((v', mc, m), Inl ''ELF file is empty'')
           else case spawn_user_process map_to trampoline d (last_component path) (mc, m) of
             ((mc', m'), Inl e) \<Rightarrow> ((v', mc', m'), Inl e)
           | ((mc', m'), Inr k) \<Rightarrow> ((v', mc', m'), Inr (ucast k))))"

section \<open>Copying a segment page by page\<close>

lemma unat_low12: "unat ((x :: u64) AND 0xfff) = unat x mod 4096"
  unfolding fff_take_bit by (simp add: unat_take_bit_mod)

text \<open>The part of the file that belongs into a page, in unbounded arithmetic.\<close>

lemma file_part_nat:
  assumes "aligned page" "unat page + 4096 < 2 ^ 64" "unat (vaddr seg) + unat (filesz seg) < 2 ^ 64"
    "unat (vaddr seg) < unat page + 4096"
  defines "v \<equiv> unat (vaddr seg)" and "f \<equiv> unat (filesz seg)" and "p \<equiv> unat page"
  shows "case file_part seg page of
      None \<Rightarrow> f \<le> p - v
    | Some (dst, src, n) \<Rightarrow> p - v < f \<and> unat dst = v - p \<and> src = seg_offset seg + of_nat (p - v) \<and>
        unat n = min f (p + 4096 - v) - (p - v)"
proof -
  have pe: "unat (page + 4096) = p + 4096" "unat (vaddr seg + filesz seg) = v + f"
    using assms(2,3) unat_add_lem [of page 4096] unat_add_lem [of "vaddr seg" "filesz seg"] by (simp_all add: p_def v_def f_def)
  define s where "s = (if vaddr seg < page then page - vaddr seg else 0)"
  define e where "e = (if vaddr seg + filesz seg < page + 4096 then filesz seg else page + 4096 - vaddr seg)"
  have s: "unat s = p - v" by (simp add: s_def p_def v_def word_less_nat_alt unat_sub_if')
  have e: "unat e = min f (p + 4096 - v)"
    using assms(4) pe by (auto simp: e_def word_less_nat_alt unat_sub_if' v_def f_def p_def)
  define dst where "dst = (if page < vaddr seg then vaddr seg else page) AND 0xfff"
  have a: "p mod 4096 = 0" using assms(1) by (simp add: aligned_iff p_def mod_eq_0_iff_dvd [symmetric])
  have "v mod 4096 = v - p" if "p < v"
  proof -
    have "v = p + (v - p)" "v - p < 4096" using that assms(4) by (simp_all add: p_def v_def)
    then show ?thesis using a by (metis add.left_neutral mod_add_left_eq mod_less)
  qed
  then have d: "unat dst = v - p" using a by (auto simp: dst_def unat_low12 word_less_nat_alt p_def v_def)
  have fp: "file_part seg page = (if s < e \<and> s < filesz seg then Some (dst, seg_offset seg + s, e - s) else None)"
    by (simp add: file_part_def s_def e_def dst_def Let_def)
  have n: "unat (e - s) = min f (p + 4096 - v) - (p - v)" if "s < e"
    using that s e by (simp add: word_less_nat_alt unat_sub_if')
  have "s = of_nat (p - v)" by (simp flip: s)
  moreover have "s < e \<and> s < filesz seg \<longleftrightarrow> p - v < f"
    using s e assms(4) by (auto simp: word_less_nat_alt f_def p_def v_def)
  ultimately show ?thesis using fp d n by auto
qed

text \<open>
  Loading is exact and stays in the page. For a page of a segment whose file data lies
  in the image (no addresses wrapping round), the loader copies into the frame exactly the
  bytes of the file that belong to this page, each at its place, and changes nothing else, in
  this frame or any other.
\<close>

theorem copy_file_part_correct:
  assumes al: "aligned page" "aligned frame"
    and nw: "unat page + 4096 < 2 ^ 64" "unat (vaddr seg) + unat (filesz seg) < 2 ^ 64" "unat (vaddr seg) < unat page + 4096"
    and d: "unat (seg_offset seg) + unat (filesz seg) \<le> length d" "length d < 2 ^ 64"
  shows "\<exists>m'. copy_file_part d seg page frame m = (m', Inr ()) \<and> frame_alloc m' = frame_alloc m \<and>
    (\<forall>k<4096. ram m' (frame + of_nat k) =
       (if unat (vaddr seg) \<le> unat page + k \<and> unat page + k < unat (vaddr seg) + unat (filesz seg)
        then d ! (unat (seg_offset seg) + (unat page + k - unat (vaddr seg))) else ram m (frame + of_nat k))) \<and>
    (\<forall>a. \<not> a - frame < 4096 \<longrightarrow> ram m' a = ram m a)"
proof -
  define v where "v = unat (vaddr seg)"
  define f where "f = unat (filesz seg)"
  define p where "p = unat page"
  define o' where "o' = unat (seg_offset seg)"
  note fp = file_part_nat [OF al(1) nw, folded v_def f_def p_def]
  show ?thesis
  proof (cases "file_part seg page")
    case None
    then have "f \<le> p - v" using fp by simp
    then show ?thesis using None by (auto simp: copy_file_part_def v_def f_def p_def)
  next
    case (Some x)
    obtain dst src n where x: "x = (dst, src, n)" by (cases x)
    have h: "p - v < f" "unat dst = v - p" "src = seg_offset seg + of_nat (p - v)" "unat n = min f (p + 4096 - v) - (p - v)"
      using fp Some x by simp_all
    have o: "o' + f \<le> length d" "v < p + 4096" using d(1) nw(3) by (simp_all add: o'_def f_def v_def p_def)
    have src: "unat src = o' + (p - v)"
      using h(1,3) o d(2) by (simp add: unat_add_offset o'_def)
    have n: "unat src + unat n \<le> length d" using src h(1,4) o by (auto simp: min_def)
    have sn: "unat (src + n) = unat src + unat n" using n d(2) unat_add_lem [of src n] by simp
    define m' where "m' = m\<lparr>ram := poke (frame + dst) (slice (unat src) (unat src + unat n) d) (ram m)\<rparr>"
    have c: "copy_file_part d seg page frame m = (m', Inr ())"
      using Some x n sn by (simp add: copy_file_part_def m'_def)
    let ?b = "slice (unat src) (unat src + unat n) d"
    have lb: "length ?b = unat n" using n by simp
    have rm: "ram m' = poke (frame + dst) ?b (ram m)" by (simp add: m'_def)
    have dn: "unat dst + unat n \<le> 4096" using h(2,4) o(2) by linarith
    note pf = poke_frame [of dst ?b, unfolded lb, OF dn, where m = "ram m" and frame = frame, folded rm]
    have i: "unat dst \<le> k \<and> k < unat dst + unat n \<longleftrightarrow> v \<le> p + k \<and> p + k < v + f" if "k < 4096" for k
      using h(1,2,4) o(2) that by (intro iffI conjI; elim conjE; linarith)
    have b: "?b ! (k - unat dst) = d ! (o' + (p + k - v))" if "unat dst \<le> k" "k < unat dst + unat n" for k
    proof -
      have "?b ! (k - unat dst) = d ! (unat src + (k - unat dst))" using that n by (intro nth_slice) linarith+
      moreover have "unat src + (k - unat dst) = o' + (p + k - v)" using src h(2) that by auto
      ultimately show ?thesis by simp
    qed
    have "ram m' (frame + of_nat k) = (if v \<le> p + k \<and> p + k < v + f then d ! (o' + (p + k - v))
        else ram m (frame + of_nat k))" if "k < 4096" for k
      using pf(1) [OF that] i [OF that] b [of k] by metis
    then show ?thesis using c pf(2) by (intro exI [of _ m']) (simp add: m'_def v_def p_def f_def o'_def)
  qed
qed

theorem copy_file_part_correct_witness:
  "\<exists>m'. copy_file_part [1, 2, 3] \<lparr>vaddr = 0x1ffe, seg_offset = 0, filesz = 3, memsz = 3, seg_flags = 5\<rparr> 0x1000 0x7000 demo_memory = (m', Inr ()) \<and>
     ram m' (0x7000 + of_nat 0xffe) = 1 \<and> ram m' (0x7000 + of_nat 0xfff) = 2"
proof -
  let ?s = "\<lparr>vaddr = 0x1ffe, seg_offset = 0, filesz = 3, memsz = 3, seg_flags = 5\<rparr>"
  obtain m' where m': "copy_file_part [1, 2, 3] ?s 0x1000 0x7000 demo_memory = (m', Inr ())"
    "\<forall>k<4096. ram m' (0x7000 + of_nat k) = (if unat (vaddr ?s) \<le> unat (0x1000 :: u64) + k \<and>
        unat (0x1000 :: u64) + k < unat (vaddr ?s) + unat (filesz ?s)
      then [1, 2, 3] ! (unat (seg_offset ?s) + (unat (0x1000 :: u64) + k - unat (vaddr ?s))) else ram demo_memory (0x7000 + of_nat k))"
    using copy_file_part_correct [of "0x1000" "0x7000" ?s "[1, 2, 3]" demo_memory] by (auto simp: aligned_def)
  from m'(2) have "ram m' (0x7000 + of_nat 0xffe) = 1" "ram m' (0x7000 + of_nat 0xfff) = 2"
    by (subst m'(2) [rule_format], simp, simp)+
  with m'(1) show ?thesis by blast
qed

section \<open>Parsing what an image holds\<close>

text \<open>The layout of an executable with the program headers right after the file header.\<close>

definition elf_header :: "u64 \<Rightarrow> u16 \<Rightarrow> bytes" where
  "elf_header entry phnum = ELF_MAGIC @ [2, 1, 1, 0] @ replicate 8 0 @ to_le 2 ET_EXEC @ to_le 2 (0x3E :: u16) @ to_le 4 (1 :: u32) @
     to_le 8 entry @ to_le 8 (64 :: u64) @ to_le 8 (0 :: u64) @ to_le 4 (0 :: u32) @ to_le 2 (64 :: u16) @ to_le 2 (56 :: u16) @
     to_le 2 phnum @ replicate 6 0"

definition phdr_bytes :: "ElfSegment \<Rightarrow> bytes" where
  "phdr_bytes seg = to_le 4 PT_LOAD @ to_le 4 (seg_flags seg) @ to_le 8 (seg_offset seg) @ to_le 8 (vaddr seg) @ to_le 8 (vaddr seg) @
     to_le 8 (filesz seg) @ to_le 8 (memsz seg) @ to_le 8 (4096 :: u64)"

definition elf_image :: "u64 \<Rightarrow> ElfSegment list \<Rightarrow> bytes \<Rightarrow> bytes" where
  "elf_image entry segs payload = elf_header entry (of_nat (length segs)) @ concat (map phdr_bytes segs) @ payload"

lemma length_elf_header [simp]: "length (elf_header entry n) = 64"
  by (simp add: elf_header_def ELF_MAGIC_def)

lemma length_phdr_bytes [simp]: "length (phdr_bytes seg) = 56"
  by (simp add: phdr_bytes_def)

lemma length_phdrs [simp]: "length (concat (map phdr_bytes segs)) = 56 * length segs"
  by (induction segs) simp_all

lemma le_field_slice: "b \<le> n \<Longrightarrow> le_field (k + a) (k + b) d = le_field a b (slice k (k + n) d)"
  by (simp add: le_field_def slice_slice)

lemma slice_prefix: "b \<le> length x \<Longrightarrow> slice a b (x @ y) = slice a b x"
  by (simp add: slice_def drop_append take_append)

lemma header_fields:
  fixes entry :: u64 and n :: u16 and r :: bytes
  defines "d \<equiv> elf_header entry n @ r"
  shows "slice 0 4 d = ELF_MAGIC" "d ! 4 = 2" "d ! 5 = 1" "le_field 16 18 d = (2 :: u16)" "le_field 18 20 d = (0x3E :: u16)"
    "le_field 24 32 d = entry" "le_field 32 40 d = (64 :: u64)" "le_field 54 56 d = (56 :: u16)" "le_field 56 58 d = n"
  unfolding d_def le_field_def
  by (simp_all only: slice_prefix length_elf_header numeral_le_iff le_num_simps)
    (simp_all add: elf_header_def ELF_MAGIC_def ET_EXEC_def slice_def nth_append from_le_to_le)

lemma phdr_fields:
  "le_field 0 4 (phdr_bytes s) = PT_LOAD" "segment_at (phdr_bytes s) 0 = s"
  by (simp_all add: phdr_bytes_def le_field_def slice_def from_le_to_le segment_at_def)

lemma segment_at_slice: "segment_at d k = segment_at (slice k (k + 56) d) 0"
  by (simp add: segment_at_def le_field_def slice_slice)

lemma image_phdr:
  assumes "i < length segs"
  shows "slice (64 + 56 * i) (64 + 56 * i + 56) (elf_image entry segs payload) = phdr_bytes (segs ! i)"
proof -
  have "slice (64 + 56 * i) (64 + 56 * i + 56) (elf_image entry segs payload) =
      slice (56 * i) (56 * i + 56) (concat (map phdr_bytes segs) @ payload)"
    by (simp add: slice_def elf_image_def)
  also have "\<dots> = slice (56 * i) (56 * i + 56) (concat (map phdr_bytes segs))"
    using assms length_phdrs [of segs] by (intro slice_prefix) linarith
  also have "\<dots> = phdr_bytes (segs ! i)" using assms by (subst slice_concat) auto
  finally show ?thesis .
qed

lemma collect_image:
  assumes "length (elf_image entry segs payload) < 2 ^ 64" "i \<le> length segs"
  shows "collect_segments (elf_image entry segs payload) 64 56 [i..<length segs] = Inr (drop i segs)"
  using assms(2)
proof (induction "length segs - i" arbitrary: i)
  case 0
  then show ?case by simp
next
  case (Suc k)
  let ?d = "elf_image entry segs payload"
  have i: "i < length segs" using Suc.hyps(2) by simp
  have l: "64 + 56 * i + 56 \<le> length ?d"
    using i by (simp only: elf_image_def length_append length_elf_header length_phdrs)
  have o: "64 + of_nat i * ucast (56 :: u16) = (of_nat (64 + 56 * i) :: u64)" by simp
  have u: "unat (of_nat (64 + 56 * i) :: u64) = 64 + 56 * i" "unat (of_nat (64 + 56 * i) + 56 :: u64) = 64 + 56 * i + 56"
    using l assms(1) unat_offset [of "64 + 56 * i"] unat_offset [of "64 + 56 * i + 56"] by (simp_all add: add.assoc)
  have n: "\<not> length ?d < unat (of_nat (64 + 56 * i) + 56 :: u64)" "\<not> (of_nat (64 + 56 * i) + 56 :: u64) < of_nat (64 + 56 * i)"
    unfolding word_less_nat_alt u using l by simp_all
  have ty: "le_field (64 + 56 * i) (64 + 56 * i + 4) ?d = PT_LOAD"
  proof -
    have "le_field (64 + 56 * i + 0) (64 + 56 * i + 4) ?d = (le_field 0 4 (slice (64 + 56 * i) (64 + 56 * i + 56) ?d) :: u32)"
      by (rule le_field_slice) simp
    then show ?thesis unfolding image_phdr [OF i] phdr_fields(1) by simp
  qed
  have sg: "segment_at ?d (64 + 56 * i) = segs ! i"
    using segment_at_slice [of ?d "64 + 56 * i"] image_phdr [OF i] phdr_fields(2) by simp
  have "collect_segments ?d 64 56 [Suc i..<length segs] = Inr (drop (Suc i) segs)" using Suc by simp
  moreover have "[i..<length segs] = i # [Suc i..<length segs]" using i by (rule upt_conv_Cons)
  ultimately show ?case using n ty sg i by (simp only: collect_segments.simps o u Let_def if_False) (simp add: Cons_nth_drop_Suc)
qed

text \<open>
  C20. Parsing an executable gives back what it was made of. For any entry point and any list of
  loadable segments, laid out as a file header, program headers and a payload,
  \<^verbatim>\<open>parse_elf_segments\<close> returns the entry point and exactly these segments in order, and
  \<^verbatim>\<open>load_elf\<close> reports the same entry point.
\<close>

theorem parse_elf_roundtrip:
  assumes "length segs < 2 ^ 16" "length (elf_image entry segs payload) < 2 ^ 64"
  shows "parse_elf_segments (elf_image entry segs payload) = Inr (entry, segs) \<and>
    validate_header (parse_ehdr (elf_image entry segs payload)) = Inr () \<and>
    e_entry (parse_ehdr (elf_image entry segs payload)) = entry"
proof -
  let ?n = "of_nat (length segs) :: u16"
  have d: "elf_image entry segs payload = elf_header entry ?n @ concat (map phdr_bytes segs) @ payload" by (simp add: elf_image_def)
  have n: "unat ?n = length segs" using assms(1) by (intro of_nat_inverse [OF refl]) simp
  note h = header_fields [of entry ?n "concat (map phdr_bytes segs) @ payload", folded d]
  have l: "\<not> length (elf_image entry segs payload) < 64" by (simp add: elf_image_def)
  have p: "parse_elf_segments (elf_image entry segs payload) = Inr (entry, segs)"
    using collect_image [OF assms(2), of 0] by (simp add: parse_elf_segments_def h l n)
  have "slice 0 4 (slice 0 16 (elf_image entry segs payload)) = ELF_MAGIC"
    "slice 0 16 (elf_image entry segs payload) ! 4 = 2" "slice 0 16 (elf_image entry segs payload) ! 5 = 1"
    using h(1-3) l by (simp_all add: slice_def)
  then show ?thesis using p h(4-6)
    by (simp add: validate_header_def validate_header_raw_def parse_ehdr_def ELFCLASS64_def ELFDATA2LSB_def ET_EXEC_def)
qed

theorem parse_elf_roundtrip_witness:
  "parse_elf_segments (elf_image 0x401000 [\<lparr>vaddr = 0x401000, seg_offset = 0x1000, filesz = 80, memsz = 96, seg_flags = 5\<rparr>] []) =
     Inr (0x401000, [\<lparr>vaddr = 0x401000, seg_offset = 0x1000, filesz = 80, memsz = 96, seg_flags = 5\<rparr>])"
  using parse_elf_roundtrip [of "[\<lparr>vaddr = 0x401000, seg_offset = 0x1000, filesz = 80, memsz = 96, seg_flags = 5\<rparr>]" "0x401000" "[]"]
  by (simp add: elf_image_def)

end
