(* ===== verification/Disk_Image.thy ===== *)
theory Disk_Image
  imports Fat32
begin

text \<open>
  The disk image that the build script \<^verbatim>\<open>build.rs\<close> makes: the boot image of the bootloader with a FAT32
  partition behind it, which holds the user programs. The properties: the kernel mounts this
  partition and reads back every file, and it does so only for a boot image of whole sectors.
  The boot image and the precompiled program \<^verbatim>\<open>user/sysutils.elf\<close> are arguments; \<open>None\<close> is a
  panic of the script.
\<close>

section \<open>Files and geometry\<close>

definition FAT32_SECTORS :: u32 where "FAT32_SECTORS = 16384"
definition FAT32_RSVD_SEC_CNT :: u16 where "FAT32_RSVD_SEC_CNT = 32"
definition FAT32_NUM_FATS :: u8 where "FAT32_NUM_FATS = 2"
definition FAT32_ROOT_CLUSTER :: u32 where "FAT32_ROOT_CLUSTER = 2"
definition FAT32_FAT_SZ :: u32 where "FAT32_FAT_SZ = 126"
definition FAT32_DATA_START :: u32 where "FAT32_DATA_START = 32 + 2 * 126"
definition SYSUTILS_START_CLUSTER :: nat where "SYSUTILS_START_CLUSTER = 5"

definition HELLO_ELF :: bytes where
  "HELLO_ELF =
     [0x7f, 0x45, 0x4c, 0x46, 0x02, 0x01, 0x01, 0x00, 0x00, 0x00, 0x00, 0x00, 0x00, 0x00, 0x00, 0x00,
     0x02, 0x00, 0x3e, 0x00, 0x01, 0x00, 0x00, 0x00, 0x78, 0x00, 0x40, 0x00, 0x00, 0x00, 0x00, 0x00,
     0x40, 0x00, 0x00, 0x00, 0x00, 0x00, 0x00, 0x00, 0x00, 0x00, 0x00, 0x00, 0x00, 0x00, 0x00, 0x00,
     0x00, 0x00, 0x00, 0x00, 0x40, 0x00, 0x38, 0x00, 0x01, 0x00, 0x00, 0x00, 0x00, 0x00, 0x00, 0x00,
     0x01, 0x00, 0x00, 0x00, 0x05, 0x00, 0x00, 0x00, 0x00, 0x00, 0x00, 0x00, 0x00, 0x00, 0x00, 0x00,
     0x00, 0x00, 0x40, 0x00, 0x00, 0x00, 0x00, 0x00, 0x00, 0x00, 0x40, 0x00, 0x00, 0x00, 0x00, 0x00,
     0xb9, 0x00, 0x00, 0x00, 0x00, 0x00, 0x00, 0x00, 0xb9, 0x00, 0x00, 0x00, 0x00, 0x00, 0x00, 0x00,
     0x00, 0x10, 0x00, 0x00, 0x00, 0x00, 0x00, 0x00, 0x48, 0xc7, 0xc0, 0x03, 0x00, 0x00, 0x00, 0x48,
     0xc7, 0xc7, 0x01, 0x00, 0x00, 0x00, 0x48, 0x8d, 0x35, 0x15, 0x00, 0x00, 0x00, 0x48, 0xc7, 0xc2,
     0x16, 0x00, 0x00, 0x00, 0xcd, 0x80, 0x48, 0xc7, 0xc0, 0x0b, 0x00, 0x00, 0x00, 0x48, 0x31, 0xff,
     0xcd, 0x80, 0x48, 0x65, 0x6c, 0x6c, 0x6f, 0x20, 0x66, 0x72, 0x6f, 0x6d, 0x20, 0x2f, 0x62, 0x69,
     0x6e, 0x2f, 0x68, 0x65, 0x6c, 0x6c, 0x6f, 0x21, 0x0a]"

definition FORKTEST_ELF :: bytes where
  "FORKTEST_ELF =
     [0x7f, 0x45, 0x4c, 0x46, 0x02, 0x01, 0x01, 0x00, 0x00, 0x00, 0x00, 0x00, 0x00, 0x00, 0x00, 0x00,
     0x02, 0x00, 0x3e, 0x00, 0x01, 0x00, 0x00, 0x00, 0x78, 0x00, 0x40, 0x00, 0x00, 0x00, 0x00, 0x00,
     0x40, 0x00, 0x00, 0x00, 0x00, 0x00, 0x00, 0x00, 0x00, 0x00, 0x00, 0x00, 0x00, 0x00, 0x00, 0x00,
     0x00, 0x00, 0x00, 0x00, 0x40, 0x00, 0x38, 0x00, 0x01, 0x00, 0x00, 0x00, 0x00, 0x00, 0x00, 0x00,
     0x01, 0x00, 0x00, 0x00, 0x05, 0x00, 0x00, 0x00, 0x00, 0x00, 0x00, 0x00, 0x00, 0x00, 0x00, 0x00,
     0x00, 0x00, 0x40, 0x00, 0x00, 0x00, 0x00, 0x00, 0x00, 0x00, 0x40, 0x00, 0x00, 0x00, 0x00, 0x00,
     0x1d, 0x01, 0x00, 0x00, 0x00, 0x00, 0x00, 0x00, 0x1d, 0x01, 0x00, 0x00, 0x00, 0x00, 0x00, 0x00,
     0x00, 0x10, 0x00, 0x00, 0x00, 0x00, 0x00, 0x00, 0x48, 0xc7, 0xc0, 0x03, 0x00, 0x00, 0x00, 0x48,
     0xc7, 0xc7, 0x01, 0x00, 0x00, 0x00, 0x48, 0x8d, 0x35, 0x7d, 0x00, 0x00, 0x00, 0x48, 0xc7, 0xc2,
     0x06, 0x00, 0x00, 0x00, 0xcd, 0x80, 0x48, 0xc7, 0xc0, 0x14, 0x00, 0x00, 0x00, 0xcd, 0x80, 0x48,
     0x89, 0xc3, 0x48, 0x85, 0xc0, 0x75, 0x2a, 0x48, 0xc7, 0xc0, 0x03, 0x00, 0x00, 0x00, 0x48, 0xc7,
     0xc7, 0x01, 0x00, 0x00, 0x00, 0x48, 0x8d, 0x35, 0x54, 0x00, 0x00, 0x00, 0x48, 0xc7, 0xc2, 0x06,
     0x00, 0x00, 0x00, 0xcd, 0x80, 0x48, 0xc7, 0xc0, 0x0b, 0x00, 0x00, 0x00, 0x48, 0x31, 0xff, 0xcd,
     0x80, 0x48, 0xc7, 0xc0, 0x03, 0x00, 0x00, 0x00, 0x48, 0xc7, 0xc7, 0x01, 0x00, 0x00, 0x00, 0x48,
     0x8d, 0x35, 0x30, 0x00, 0x00, 0x00, 0x48, 0xc7, 0xc2, 0x07, 0x00, 0x00, 0x00, 0xcd, 0x80, 0x48,
     0x89, 0xdf, 0x48, 0x31, 0xf6, 0x48, 0xc7, 0xc0, 0x15, 0x00, 0x00, 0x00, 0xcd, 0x80, 0x48, 0xc7,
     0xc0, 0x0b, 0x00, 0x00, 0x00, 0x48, 0x31, 0xff, 0xcd, 0x80, 0x66, 0x6f, 0x72, 0x6b, 0x21, 0x0a,
     0x63, 0x68, 0x69, 0x6c, 0x64, 0x0a, 0x70, 0x61, 0x72, 0x65, 0x6e, 0x74, 0x0a]"

definition README_TEXT :: bytes where
  "README_TEXT =
     as_bytes ''AeroOS - a hobby x86_64 kernel in Rust.'' @ [0x0A] @
     as_bytes ''Features: serial/VGA console, PS/2 input, ATA PIO disk, FAT32, ELF loader,'' @ [0x0A] @
     as_bytes ''preemptive scheduler, fork/exec/waitpid, signals, and sysutils user-space'' @ [0x0A] @
     as_bytes ''tools (ls/cat/ps/kill).'' @ [0x0A]"

section \<open>The parts of the partition\<close>

text \<open>A sequence of assignments to ranges of a buffer.\<close>

fun put_all :: "(nat \<times> bytes) list \<Rightarrow> bytes \<Rightarrow> bytes" where
  "put_all [] b = b"
| "put_all ((off, src) # ws) b = put_all ws (splice off src b)"

definition make_bpb :: bytes where
  "make_bpb = put_all
     [(0, [0xEB]), (1, [0x3C]), (2, [0x90]), (3, as_bytes ''AEROS   ''),
      (11, to_le 2 (512 :: u16)), (13, [1]), (14, to_le 2 FAT32_RSVD_SEC_CNT), (16, [FAT32_NUM_FATS]),
      (17, to_le 2 (0 :: u16)), (19, to_le 2 (0 :: u16)), (21, [0xF8]), (22, to_le 2 (0 :: u16)),
      (24, to_le 2 (63 :: u16)), (26, to_le 2 (255 :: u16)), (28, to_le 4 (0 :: u32)),
      (32, to_le 4 FAT32_SECTORS), (36, to_le 4 FAT32_FAT_SZ), (40, to_le 2 (0 :: u16)), (42, to_le 2 (0 :: u16)),
      (44, to_le 4 FAT32_ROOT_CLUSTER), (48, to_le 2 (1 :: u16)), (50, to_le 2 (6 :: u16)),
      (64, [0x80]), (66, [0x29]), (67, to_le 4 (0x12345678 :: u32)), (71, as_bytes ''AEROS DISK ''),
      (82, as_bytes ''FAT32   ''), (510, [0x55]), (511, [0xAA])] (replicate 512 0)"

definition sysutils_clusters :: "bytes \<Rightarrow> nat" where
  "sysutils_clusters sysutils = (length sysutils + 511) div 512"

fun set_entries :: "(nat \<times> u32) list \<Rightarrow> bytes \<Rightarrow> bytes option" where
  "set_entries [] fat = Some fat"
| "set_entries ((idx, v) # es) fat =
     (if idx * 4 + 4 \<le> length fat then set_entries es (splice (idx * 4) (to_le 4 v) fat) else None)"

definition fat_entries :: "nat \<Rightarrow> (nat \<times> u32) list" where
  "fat_entries n =
     [(0, 0x0FFFFFF8), (1, 0x0FFFFFFF), (2, 0x0FFFFFFF), (3, 0x0FFFFFFF), (4, 0x0FFFFFFF)] @
     map (\<lambda>i. (SYSUTILS_START_CLUSTER + i,
               if i + 1 = n then 0x0FFFFFFF else of_nat (SYSUTILS_START_CLUSTER + i + 1))) [0..<n] @
     [(SYSUTILS_START_CLUSTER + n, 0x0FFFFFFF)]"

definition make_fat :: "bytes \<Rightarrow> bytes option" where
  "make_fat sysutils = set_entries (fat_entries (sysutils_clusters sysutils)) (replicate (unat FAT32_FAT_SZ * 512) 0)"

text \<open>The entry of a file at an offset of the root directory; the high half of the cluster number
  stays zero.\<close>

definition file_entry :: "nat \<Rightarrow> string \<Rightarrow> u16 \<Rightarrow> u32 \<Rightarrow> (nat \<times> bytes) list" where
  "file_entry e nm cluster sz =
     [(e, as_bytes nm), (e + 11, [0x20]), (e + 13, [0x10]), (e + 14, to_le 2 (0x8A17 :: u16)),
      (e + 16, to_le 2 (0x4A4B :: u16)), (e + 18, to_le 2 (0x4A4B :: u16)), (e + 22, to_le 2 (0x8A17 :: u16)),
      (e + 24, to_le 2 (0x4A4B :: u16)), (e + 26, to_le 2 cluster), (e + 28, to_le 4 sz)]"

definition make_root_cluster :: "bytes \<Rightarrow> bytes" where
  "make_root_cluster sysutils = put_all
     ([(0, as_bytes ''AEROS DISK ''), (11, [0x08]), (13, [0x10]), (14, to_le 2 (0x8A17 :: u16)), (16, to_le 2 (0x4A4B :: u16))] @
      file_entry 32 ''HELLO      '' 3 (of_nat (length HELLO_ELF)) @
      file_entry 64 ''FORKTEST   '' 4 (of_nat (length FORKTEST_ELF)) @
      file_entry 96 ''SYSUTILS   '' (of_nat SYSUTILS_START_CLUSTER) (of_nat (length sysutils)) @
      file_entry 128 ''README     '' (of_nat SYSUTILS_START_CLUSTER + of_nat (sysutils_clusters sysutils)) (of_nat (length README_TEXT)))
     (replicate 512 0)"

definition one_cluster :: "bytes \<Rightarrow> bytes" where
  "one_cluster b = splice 0 b (replicate 512 0)"

fun chunk_clusters :: "nat \<Rightarrow> bytes \<Rightarrow> bytes list" where
  "chunk_clusters 0 remaining = []"
| "chunk_clusters (Suc n) remaining = one_cluster (take 512 remaining) # chunk_clusters n (drop 512 remaining)"

definition data_clusters :: "bytes \<Rightarrow> bytes list" where
  "data_clusters sysutils =
     [make_root_cluster sysutils, one_cluster HELLO_ELF, one_cluster FORKTEST_ELF] @
     chunk_clusters (sysutils_clusters sysutils) sysutils @ [one_cluster README_TEXT]"

definition fsinfo :: bytes where
  "fsinfo = put_all [(0, as_bytes ''RRaA''), (510, to_le 2 (0xAA55 :: u16))] (replicate 512 0)"

text \<open>Data that does not fit makes the number of remaining sectors wrap around, and the allocation of
  that many zeros panics.\<close>

definition make_fat32_partition :: "bytes \<Rightarrow> bytes option" where
  "make_fat32_partition sysutils =
     (case make_fat sysutils of
        None \<Rightarrow> None
      | Some fat \<Rightarrow>
          let img = make_bpb @ fsinfo @ replicate (30 * 512) 0 @ fat @ fat @ concat (data_clusters sysutils);
              data_sectors = unat FAT32_SECTORS - unat FAT32_DATA_START;
              used = length img div 512 - unat FAT32_DATA_START
          in if data_sectors < used then None else Some (img @ replicate ((data_sectors - used) * 512) 0))"

section \<open>The whole image\<close>

text \<open>To a sector boundary.\<close>

definition padded :: "bytes \<Rightarrow> bytes" where
  "padded boot = (if length boot mod 512 \<noteq> 0 then boot @ replicate (512 - length boot mod 512) 0 else boot)"

definition append_partition :: "bytes \<Rightarrow> bytes \<Rightarrow> bytes option" where
  "append_partition sysutils boot =
     (let boot_sectors = of_nat (length boot div 512) :: u32
      in case make_fat32_partition sysutils of
           None \<Rightarrow> None
         | Some fat32 \<Rightarrow>
             let img = padded boot @ fat32 in
             if img ! 510 \<noteq> 0x55 \<or> img ! 511 \<noteq> 0xAA then None
             else let entry = 446 + 2 * 16 in
               Some (put_all [(entry, [0]), (entry + 4, [0x0C]), (entry + 8, to_le 4 boot_sectors),
                              (entry + 12, to_le 4 FAT32_SECTORS), (510, [0x55]), (511, [0xAA])] img))"

text \<open>A drive with an image.\<close>

definition drive_of :: "bytes \<Rightarrow> disk" where
  "drive_of img =
     \<lparr>disk_present = True, busy = False,
      image = (\<lambda>l. if 512 * unat l + 512 \<le> length img then slice (512 * unat l) (512 * unat l + 512) img else replicate 512 0),
      faulty = (\<lambda>_. False), total_sectors = of_nat (length img div 512)\<rparr>"

lemma drive_of_ok: "disk_ok (drive_of img)"
  by (simp add: disk_ok_def drive_of_def)

lemma drive_bytes_slice:
  assumes "512 * (unat l + n) \<le> length img" "unat l + n \<le> 2 ^ 28"
  shows "disk_bytes (drive_of img) l n = slice (512 * unat l) (512 * (unat l + n)) img"
  using assms
proof (induction n)
  case (Suc n)
  have "unat (l + of_nat n) = unat l + n" using Suc.prems unat_lba_add [of l n n] by simp
  then have "image (drive_of img) (l + of_nat n) = slice (512 * (unat l + n)) (512 * (unat l + Suc n)) img"
    using Suc.prems by (simp add: drive_of_def algebra_simps)
  moreover have "slice a b img @ slice b c img = slice a c img" if "a \<le> b" "b \<le> c" for a b c
    using that take_add [of "b - a" "c - b" "drop a img"] by (simp add: slice_def)
  ultimately show ?case using Suc disk_bytes_add [of "drive_of img" l n 1] by (simp add: disk_bytes_def)
qed (simp add: disk_bytes_def slice_def)

section \<open>Reading the parts\<close>

lemma slice_splice_inside:
  assumes "off + length src \<le> length dst" "off \<le> a" "b \<le> off + length src"
  shows "slice a b (splice off src dst) = slice (a - off) (b - off) src"
  by (rule nth_equalityI) (use assms in \<open>auto simp: nth_slice nth_splice\<close>)

lemma as_bytes_length [simp]: "length (as_bytes s) = length s"
  by (simp add: as_bytes_def)

lemma as_bytes_Nil [simp]: "as_bytes s = [] \<longleftrightarrow> s = []"
  by (simp add: as_bytes_def)

lemma slice_replicate: "slice a b (replicate n x) = replicate (min (n - a) (b - a)) x"
  by (simp add: slice_def min.commute)

lemma to_le_not_Nil [simp]: "0 < n \<Longrightarrow> to_le n w \<noteq> []"
  by (simp add: to_le_def)

definition inside :: "nat \<Rightarrow> (nat \<times> bytes) list \<Rightarrow> bool" where
  "inside n ws \<longleftrightarrow> (\<forall>(off, src) \<in> set ws. off + length src \<le> n)"

lemma length_put_all [simp]: "inside (length b) ws \<Longrightarrow> length (put_all ws b) = length b"
  by (induction ws b rule: put_all.induct) (auto simp: inside_def)

lemma put_all_append: "inside (length b) ws \<Longrightarrow> put_all ws (b @ c) = put_all ws b @ c"
  by (induction ws b rule: put_all.induct) (auto simp: splice_def inside_def)

lemma put_all_snoc: "put_all (ws @ [(off, src)]) b = splice off src (put_all ws b)"
  by (induction ws b rule: put_all.induct) auto

text \<open>The last assignment that touches a range decides it.\<close>

lemma slice_put_all:
  assumes "inside (length b) ws"
  shows "slice i j (put_all ws b) =
    (case find (\<lambda>(off, src). off < j \<and> i < off + length src) (rev ws) of
       None \<Rightarrow> slice i j b
     | Some (off, src) \<Rightarrow> if off \<le> i \<and> j \<le> off + length src then slice (i - off) (j - off) src else slice i j (put_all ws b))"
  using assms
proof (induction ws rule: rev_induct)
  case (snoc w ws)
  obtain off src where w: "w = (off, src)" by (cases w)
  have i: "inside (length b) ws" "off + length src \<le> length (put_all ws b)" using snoc.prems w by (auto simp: inside_def)
  show ?case
  proof (cases "off < j \<and> i < off + length src")
    case True
    then show ?thesis using i(2) by (simp add: w put_all_snoc slice_splice_inside)
  next
    case False
    then have "slice i j (put_all (ws @ [w]) b) = slice i j (put_all ws b)"
      using i(2) by (auto simp: w put_all_snoc slice_splice_other)
    then show ?thesis using snoc.IH [OF i(1)] False by (auto simp: w split: option.splits)
  qed
qed simp

lemma nth_put_all:
  assumes "inside (length b) ws" "i < length b"
  shows "put_all ws b ! i =
    (case find (\<lambda>(off, src). off \<le> i \<and> i < off + length src) (rev ws) of None \<Rightarrow> b ! i | Some (off, src) \<Rightarrow> src ! (i - off))"
  using assms
proof (induction ws rule: rev_induct)
  case (snoc w ws)
  obtain off src where w: "w = (off, src)" by (cases w)
  have i: "inside (length b) ws" "off + length src \<le> length (put_all ws b)" "i < length (put_all ws b)"
    using snoc.prems w by (auto simp: inside_def)
  show ?case using snoc.IH [OF i(1) snoc.prems(2)] i(2,3) by (auto simp: w put_all_snoc nth_splice)
qed simp

lemma bpb_fields:
  "length make_bpb = 512" "make_bpb ! 510 = 0x55" "make_bpb ! 511 = 0xAA"
  "from_le (slice 11 13 make_bpb) = (512 :: u16)" "make_bpb ! 13 = 1" "from_le (slice 14 16 make_bpb) = (32 :: u16)"
  "make_bpb ! 16 = 2" "from_le (slice 36 40 make_bpb) = (126 :: u32)" "from_le (slice 44 48 make_bpb) = (2 :: u32)"
  unfolding make_bpb_def
  by (simp_all add: length_put_all slice_put_all nth_put_all inside_def from_le_to_le
      FAT32_RSVD_SEC_CNT_def FAT32_NUM_FATS_def FAT32_FAT_SZ_def FAT32_ROOT_CLUSTER_def del: put_all.simps)

text \<open>The fields of the five entries of the root directory: name, attributes, cluster and size.\<close>

lemma slot_field: "b \<le> 32 \<Longrightarrow> slice a b (slot cl k) = slice (32 * k + a) (32 * k + b) cl"
  unfolding slot_def by (subst slice_slice) (simp_all add: mult.commute)

lemma slot_byte: "i < 32 \<Longrightarrow> 32 * k + 32 \<le> length cl \<Longrightarrow> slot cl k ! i = cl ! (32 * k + i)"
  unfolding slot_def by (subst nth_slice) (simp_all add: mult.commute)

lemma root_length: "length (make_root_cluster s) = 512"
  unfolding make_root_cluster_def file_entry_def by (simp add: inside_def del: put_all.simps)

lemma root_names:
  "slice 0 11 (make_root_cluster s) = as_bytes ''AEROS DISK ''" "slice 32 43 (make_root_cluster s) = as_bytes ''HELLO      ''"
  "slice 64 75 (make_root_cluster s) = as_bytes ''FORKTEST   ''" "slice 96 107 (make_root_cluster s) = as_bytes ''SYSUTILS   ''"
  "slice 128 139 (make_root_cluster s) = as_bytes ''README     ''"
  unfolding make_root_cluster_def file_entry_def
  by (simp_all add: slice_put_all inside_def del: put_all.simps)

lemma root_attrs:
  "make_root_cluster s ! 11 = 0x08" "make_root_cluster s ! 43 = 0x20" "make_root_cluster s ! 75 = 0x20"
  "make_root_cluster s ! 107 = 0x20" "make_root_cluster s ! 139 = 0x20"
  unfolding make_root_cluster_def file_entry_def
  by (simp_all add: nth_put_all inside_def del: put_all.simps)

lemma root_clusters:
  "slice 52 54 (make_root_cluster s) = replicate 2 0" "slice 84 86 (make_root_cluster s) = replicate 2 0"
  "slice 116 118 (make_root_cluster s) = replicate 2 0" "slice 148 150 (make_root_cluster s) = replicate 2 0"
  "slice 58 60 (make_root_cluster s) = to_le 2 (3 :: u16)" "slice 90 92 (make_root_cluster s) = to_le 2 (4 :: u16)"
  "slice 122 124 (make_root_cluster s) = to_le 2 (5 :: u16)"
  "slice 154 156 (make_root_cluster s) = to_le 2 (of_nat (5 + sysutils_clusters s) :: u16)"
  unfolding make_root_cluster_def file_entry_def
  by (simp_all add: slice_put_all inside_def SYSUTILS_START_CLUSTER_def slice_replicate del: put_all.simps)

lemma root_sizes:
  "slice 60 64 (make_root_cluster s) = to_le 4 (of_nat (length HELLO_ELF) :: u32)"
  "slice 92 96 (make_root_cluster s) = to_le 4 (of_nat (length FORKTEST_ELF) :: u32)"
  "slice 124 128 (make_root_cluster s) = to_le 4 (of_nat (length s) :: u32)"
  "slice 156 160 (make_root_cluster s) = to_le 4 (of_nat (length README_TEXT) :: u32)"
  unfolding make_root_cluster_def file_entry_def
  by (simp_all add: slice_put_all inside_def del: put_all.simps)

section \<open>The allocation table\<close>

definition table_of :: "bytes \<Rightarrow> u32 list" where
  "table_of fat = map (\<lambda>i. from_le (slice (4 * i) (4 * i + 4) fat)) [0..<length fat div 4]"

lemma length_table_of [simp]: "length (table_of fat) = length fat div 4"
  by (simp add: table_of_def)

lemma table_splice:
  assumes "idx * 4 + 4 \<le> length fat"
  shows "table_of (splice (idx * 4) (to_le 4 v) fat) = (table_of fat)[idx := v]"
proof (rule nth_equalityI)
  fix i assume "i < length (table_of (splice (idx * 4) (to_le 4 v) fat))"
  then have i: "i < length fat div 4" using assms by simp
  have "idx * 4 + length (to_le 4 v) \<le> length fat" using assms by simp
  note slice_splice_same [OF this] slice_splice_other [OF this, of "4 * i + 4" "4 * i"]
  moreover have "i \<noteq> idx \<Longrightarrow> 4 * i + 4 \<le> idx * 4 \<or> idx * 4 + 4 \<le> 4 * i" by arith
  ultimately show "table_of (splice (idx * 4) (to_le 4 v) fat) ! i = (table_of fat)[idx := v] ! i"
    using i assms by (cases "i = idx") (auto simp: table_of_def mult.commute from_le_to_le nth_list_update)
qed (use assms in simp)

lemma set_entries_keeps:
  "set_entries es fat = Some fat' \<Longrightarrow> length fat' = length fat \<and> (\<forall>j. j \<notin> fst ` set es \<longrightarrow> table_of fat' ! j = table_of fat ! j)"
  by (induction es fat rule: set_entries.induct) (auto simp: table_splice split: if_splits)

lemma set_entries_entry:
  "set_entries es fat = Some fat' \<Longrightarrow> distinct (map fst es) \<Longrightarrow> (j, v) \<in> set es \<Longrightarrow> table_of fat' ! j = v"
proof (induction es fat rule: set_entries.induct)
  case (2 idx w es fat)
  let ?fat = "splice (idx * 4) (to_le 4 w) fat"
  have le: "idx * 4 + 4 \<le> length fat" and s: "set_entries es ?fat = Some fat'" using 2(2) by (auto split: if_splits)
  show ?case
  proof (cases "(j, v) \<in> set es")
    case True
    then show ?thesis using 2(1) [OF le s] 2(3) by simp
  next
    case False
    then show ?thesis using set_entries_keeps [OF s] 2(3,4) le by (auto simp: table_splice image_iff)
  qed
qed simp

lemma set_entries_total: "\<forall>(j, v) \<in> set es. j * 4 + 4 \<le> length fat \<Longrightarrow> \<exists>fat'. set_entries es fat = Some fat'"
  by (induction es fat rule: set_entries.induct) auto

lemma make_fat_total:
  assumes "sysutils_clusters s \<le> 16122"
  shows "\<exists>fat. make_fat s = Some fat"
  unfolding make_fat_def using assms
  by (intro set_entries_total) (auto simp: fat_entries_def SYSUTILS_START_CLUSTER_def FAT32_FAT_SZ_def)

lemma fat_entries_distinct: "distinct (map fst (fat_entries n))"
  by (auto simp: fat_entries_def SYSUTILS_START_CLUSTER_def distinct_map inj_on_def comp_def)

lemma make_fat_table:
  assumes "make_fat s = Some fat"
  shows "length fat = 64512" "table_of fat ! 2 = FAT_EOC" "table_of fat ! 3 = FAT_EOC" "table_of fat ! 4 = FAT_EOC"
    "table_of fat ! (5 + sysutils_clusters s) = FAT_EOC"
    "i < sysutils_clusters s \<Longrightarrow> table_of fat ! (5 + i) = (if i + 1 = sysutils_clusters s then FAT_EOC else of_nat (6 + i))"
proof -
  note s = assms [unfolded make_fat_def]
  note entry = set_entries_entry [OF s fat_entries_distinct]
  show "length fat = 64512" using set_entries_keeps [OF s] by (simp add: FAT32_FAT_SZ_def)
  show "table_of fat ! 2 = FAT_EOC" "table_of fat ! 3 = FAT_EOC" "table_of fat ! 4 = FAT_EOC"
    "table_of fat ! (5 + sysutils_clusters s) = FAT_EOC"
    by (rule entry, simp add: fat_entries_def FAT_EOC_def SYSUTILS_START_CLUSTER_def)+
  show "table_of fat ! (5 + i) = (if i + 1 = sysutils_clusters s then FAT_EOC else of_nat (6 + i))" if "i < sysutils_clusters s"
    using that by (intro entry) (auto simp: fat_entries_def FAT_EOC_def SYSUTILS_START_CLUSTER_def image_iff)
qed

text \<open>The clusters of the four files.\<close>

definition sysutils_chain :: "bytes \<Rightarrow> u32 list" where
  "sysutils_chain s = map of_nat [5..<5 + sysutils_clusters s]"

lemma sysutils_is_chain:
  assumes "make_fat s = Some fat" "sysutils_clusters s \<le> 16122"
  shows "is_chain (table_of fat) (sysutils_chain s)"
proof -
  let ?n = "sysutils_clusters s"
  have u: "unat (of_nat j :: u32) = j" if "j \<le> 16128" for j using that by (intro of_nat_inverse [OF refl]) simp
  have "is_chain (table_of fat) (map of_nat [5 + (?n - k)..<5 + ?n])" if "k \<le> ?n" for k
    using that
  proof (induction k)
    case (Suc k)
    define i where "i = ?n - Suc k"
    have i: "i < ?n" "?n - k = Suc i" "k = 0 \<longleftrightarrow> i + 1 = ?n" "5 + (?n - k) = 6 + i" using Suc.prems by (auto simp: i_def)
    have up: "[5 + i..<5 + ?n] = (5 + i) # [6 + i..<5 + ?n]" using i(1) by (simp add: upt_conv_Cons)
    have IH: "is_chain (table_of fat) (map of_nat [6 + i..<5 + ?n])" using Suc.IH Suc.prems unfolding i(4) by simp
    have t: "table_of fat ! (5 + i) = (if i + 1 = ?n then FAT_EOC else of_nat (6 + i))"
      using make_fat_table(6) [OF assms(1) i(1)] .
    have e: "of_nat (6 + i) < FAT_EOC - 1" using u [of "6 + i"] i(1) assms(2) by (simp add: FAT_EOC_def word_less_nat_alt)
    have b: "unat (of_nat (5 + i) :: u32) = 5 + i" "2 \<le> 5 + i" "5 + i < length (table_of fat)"
      using u [of "5 + i"] i(1) assms(2) make_fat_table(1) [OF assms(1)] by auto
    have "is_chain (table_of fat) (map of_nat [5 + i..<5 + ?n])"
    proof (cases "i + 1 = ?n")
      case True
      then show ?thesis using b t unfolding up list.map(2) is_chain.simps b(1) by (simp add: FAT_EOC_def)
    next
      case False
      then have "[6 + i..<5 + ?n] = (6 + i) # [7 + i..<5 + ?n]" using i(1) by (simp add: upt_conv_Cons)
      then show ?thesis using b t e IH False unfolding up list.map(2) is_chain.simps(2) b(1) by simp
    qed
    then show ?case by (simp only: i_def)
  qed simp
  from this [of ?n] show ?thesis by (simp add: sysutils_chain_def)
qed

lemma one_is_chain:
  assumes "make_fat s = Some fat" "sysutils_clusters s \<le> 16122"
  shows "is_chain (table_of fat) [2]" "is_chain (table_of fat) [3]" "is_chain (table_of fat) [4]"
    "is_chain (table_of fat) [of_nat (5 + sysutils_clusters s)]"
proof -
  have u: "unat (of_nat (5 + sysutils_clusters s) :: u32) = 5 + sysutils_clusters s"
    using assms(2) by (intro of_nat_inverse [OF refl]) simp
  note t = make_fat_table [OF assms(1)]
  show "is_chain (table_of fat) [2]" "is_chain (table_of fat) [3]" "is_chain (table_of fat) [4]"
    using t by (simp_all add: FAT_EOC_def word_le_nat_alt)
  show "is_chain (table_of fat) [of_nat (5 + sysutils_clusters s)]"
    using t(1,5) assms(2) unfolding is_chain.simps u by (simp add: FAT_EOC_def)
qed

section \<open>The partition\<close>

lemma length_one_cluster [simp]: "length b \<le> 512 \<Longrightarrow> length (one_cluster b) = 512"
  by (simp add: one_cluster_def)

lemma chunk_clusters_512: "b \<in> set (chunk_clusters n s) \<Longrightarrow> length b = 512"
  by (induction n s rule: chunk_clusters.induct) auto

lemma length_chunk_clusters [simp]: "length (chunk_clusters n s) = n"
  by (induction n s rule: chunk_clusters.induct) auto

lemma one_cluster_take: "take (length b) (one_cluster b) = b"
  by (simp add: one_cluster_def splice_def)

lemma concat_chunk_clusters:
  "length s \<le> 512 * n \<Longrightarrow> take (length s) (concat (chunk_clusters n s)) = s"
proof (induction n s rule: chunk_clusters.induct)
  case (2 n s)
  show ?case
  proof (cases "length s \<le> 512")
    case True
    then show ?thesis using one_cluster_take [of s] by simp
  next
    case False
    then have "one_cluster (take 512 s) = take 512 s" by (simp add: one_cluster_def splice_def)
    moreover have "take (length s - 512) (concat (chunk_clusters n (drop 512 s))) = drop 512 s" using 2 by simp
    ultimately show ?thesis using False by simp
  qed
qed simp

lemma sysutils_covered: "length s \<le> 512 * sysutils_clusters s"
  by (simp add: sysutils_clusters_def)

lemma small_files: "length HELLO_ELF = 185" "length FORKTEST_ELF = 285" "length README_TEXT = 213"
  by (simp_all add: HELLO_ELF_def FORKTEST_ELF_def README_TEXT_def)

lemma data_clusters_512: "b \<in> set (data_clusters s) \<Longrightarrow> length b = 512"
  by (auto simp: data_clusters_def small_files root_length dest: chunk_clusters_512)

lemma length_data_clusters [simp]: "length (data_clusters s) = 4 + sysutils_clusters s"
  by (simp add: data_clusters_def)

lemma partition_total:
  assumes "sysutils_clusters s \<le> 16096"
  obtains fat where "make_fat s = Some fat" "length fat = 64512"
    "make_fat32_partition s = Some ((make_bpb @ fsinfo @ replicate (30 * 512) 0 @ fat @ fat @ concat (data_clusters s)) @
       replicate ((16096 - sysutils_clusters s) * 512) 0)"
proof -
  obtain fat where f: "make_fat s = Some fat" using make_fat_total [of s] assms by auto
  have l: "length fat = 64512" "length fsinfo = 512"
    using make_fat_table(1) [OF f] by (simp_all add: fsinfo_def inside_def del: put_all.simps)
  have c: "length (concat (data_clusters s)) = 512 * (4 + sysutils_clusters s)"
    using length_concat_const [of "data_clusters s" 512] data_clusters_512 by simp
  have "(512 + (512 + (15360 + (64512 + (64512 + 512 * (4 + sysutils_clusters s)))))) div 512 = 288 + sysutils_clusters s" by simp
  then show ?thesis using f l c assms
    by (intro that [OF f l(1)]) (simp add: make_fat32_partition_def Let_def bpb_fields(1) FAT32_SECTORS_def FAT32_DATA_START_def)
qed

lemma slice_blocks:
  "length xs = 512 * k \<Longrightarrow> slice (512 * (k + i)) (512 * (k + j)) (xs @ ys) = slice (512 * i) (512 * j) ys"
  by (subst slice_append_right) (simp_all add: algebra_simps)

text \<open>Where the parts of a partition are, in sectors.\<close>

lemma partition_parts:
  assumes "make_fat s = Some fat" "make_fat32_partition s = Some p" "sysutils_clusters s \<le> 16096"
  shows "length p = 512 * 16384" "slice 0 512 p = make_bpb" "slice (512 * 32) (512 * (32 + 126)) p = fat"
    "i < 4 + sysutils_clusters s \<Longrightarrow> slice (512 * (284 + i)) (512 * (284 + i) + 512) p = data_clusters s ! i"
proof -
  have l: "length fat = 64512" "length make_bpb = 512" "length fsinfo = 512"
    using make_fat_table(1) [OF assms(1)] bpb_fields(1) by (simp_all add: fsinfo_def inside_def del: put_all.simps)
  define h where "h = make_bpb @ fsinfo @ replicate (30 * 512) (0 :: u8)"
  define r where "r = concat (data_clusters s) @ replicate ((16096 - sysutils_clusters s) * 512) (0 :: u8)"
  have p: "p = h @ (fat @ (fat @ r))"
    using partition_total [OF assms(3)] assms(1,2) by (metis (no_types, lifting) append_assoc h_def r_def option.inject)
  have h: "length h = 512 * 32" using l by (simp add: h_def)
  have c: "length (concat (data_clusters s)) = 512 * (4 + sysutils_clusters s)"
    using length_concat_const [of "data_clusters s" 512] data_clusters_512 by simp
  show "length p = 512 * 16384" using h l c assms(3) by (simp add: p r_def)
  show "slice 0 512 p = make_bpb" using l(2) by (simp add: p h_def slice_def)
  show "slice (512 * 32) (512 * (32 + 126)) p = fat"
    using slice_blocks [OF h, of 0 126 "fat @ (fat @ r)"] l(1) by (simp add: p slice_def)
  assume i: "i < 4 + sysutils_clusters s"
  have "length (h @ fat @ fat) = 512 * 284" using h l by simp
  from slice_blocks [OF this, of i "i + 1" r] have "slice (512 * (284 + i)) (512 * (284 + i) + 512) p = slice (512 * i) (512 * i + 512) r"
    by (simp add: p algebra_simps)
  also have "\<dots> = slice (512 * i) (512 * i + 512) (concat (data_clusters s))" using c i by (simp add: r_def)
  also have "\<dots> = data_clusters s ! i" using i data_clusters_512 by (intro slice_concat) auto
  finally show "slice (512 * (284 + i)) (512 * (284 + i) + 512) p = data_clusters s ! i" .
qed

section \<open>The image\<close>

definition mbr_writes :: "nat \<Rightarrow> (nat \<times> bytes) list" where
  "mbr_writes b = [(478, [0]), (482, [0x0C]), (486, to_le 4 (of_nat b :: u32)), (490, to_le 4 FAT32_SECTORS), (510, [0x55]), (511, [0xAA])]"

lemma padded_append: obtains k where "padded boot = boot @ replicate k 0"
  using append_Nil2 [of boot] unfolding padded_def by (metis replicate_0)

lemma length_padded: "length boot \<le> length (padded boot)" "length boot mod 512 \<noteq> 0 \<Longrightarrow> length (padded boot) = 512 * (length boot div 512 + 1)"
proof -
  show "length boot \<le> length (padded boot)" by (rule padded_append [of boot]) simp
  have "n + (512 - r) = 512 * (q + 1)" if "512 * q + r = n" "r < 512" for n q r :: nat using that by simp
  from this [OF mult_div_mod_eq, of "length boot"] show "length boot mod 512 \<noteq> 0 \<Longrightarrow> length (padded boot) = 512 * (length boot div 512 + 1)"
    unfolding padded_def by (simp only: if_True length_append length_replicate not_False_eq_True)
qed

lemma mbr_writes_inside: "512 \<le> length m \<Longrightarrow> inside (length m) (mbr_writes b)"
  by (simp add: inside_def mbr_writes_def)

lemma append_partition_ok:
  assumes "512 \<le> length boot" "boot ! 510 = 0x55" "boot ! 511 = 0xAA" "make_fat32_partition s = Some p"
  shows "append_partition s boot = Some (put_all (mbr_writes (length boot div 512)) (padded boot) @ p)"
proof -
  have i: "inside (length (padded boot)) (mbr_writes (length boot div 512))" using assms(1) length_padded(1) [of boot] by (intro mbr_writes_inside) linarith
  obtain k where "padded boot = boot @ replicate k 0" by (rule padded_append)
  then have "(padded boot @ p) ! j = boot ! j" if "j < 512" for j using that assms(1) by (simp add: nth_append)
  then show ?thesis
    using assms put_all_append [OF i, of p] by (simp add: append_partition_def mbr_writes_def del: put_all.simps)
qed

lemma mbr_fields:
  fixes b :: nat
  assumes "512 \<le> length boot"
  defines "mbr \<equiv> put_all (mbr_writes b) boot"
  shows "length mbr = length boot" "mbr ! 510 = 0x55" "mbr ! 511 = 0xAA" "mbr ! 482 = 0x0C" "mbr ! 498 = boot ! 498"
    "from_le (slice 486 490 mbr) = (of_nat b :: u32)" "from_le (slice 490 494 mbr) = (16384 :: u32)"
    "512 \<le> i \<Longrightarrow> i < length boot \<Longrightarrow> mbr ! i = boot ! i"
proof -
  have i: "inside (length boot) (mbr_writes b)" "511 < length boot" using assms(1) mbr_writes_inside by simp_all
  show "length mbr = length boot" using i assms(1) by (simp add: mbr_def)
  show "mbr ! 510 = 0x55" "mbr ! 511 = 0xAA" "mbr ! 482 = 0x0C" "mbr ! 498 = boot ! 498"
    "512 \<le> i \<Longrightarrow> i < length boot \<Longrightarrow> mbr ! i = boot ! i"
    using i nth_put_all [OF i(1)] by (simp_all add: mbr_def mbr_writes_def del: put_all.simps)
  show "from_le (slice 486 490 mbr) = (of_nat b :: u32)" "from_le (slice 490 494 mbr) = (16384 :: u32)"
    using slice_put_all [OF i(1)] by (simp_all add: mbr_def mbr_writes_def from_le_to_le FAT32_SECTORS_def del: put_all.simps)
qed

lemma image_partition:
  assumes "512 \<le> length boot" "boot ! 498 \<noteq> 0x0C" "boot ! 498 \<noteq> 0x0B" "b < 2 ^ 32"
  shows "find_fat32_partition (drive_of (put_all (mbr_writes b) boot @ p)) = Some (of_nat b, 16384)"
proof -
  let ?m = "put_all (mbr_writes b) boot"
  note m = mbr_fields [OF assms(1)]
  have "read_sector 0 (drive_of (?m @ p)) = Some (slice 0 512 (?m @ p))"
    using read_sectors_ok [OF drive_of_ok, of 0 1] drive_bytes_slice [of 0 1 "?m @ p"] m(1) assms(1) by (simp add: read_sector_def)
  also have "slice 0 512 (?m @ p) = slice 0 512 ?m" using m(1) assms(1) by simp
  finally have r: "read_sector 0 (drive_of (?m @ p)) = Some (slice 0 512 ?m)" .
  have n: "slice 0 512 ?m ! i = ?m ! i" if "i < 512" for i using that m(1) assms(1) nth_slice [of i 512 0 ?m] by simp
  have s: "slice i j (slice 0 512 ?m) = slice i j ?m" if "j \<le> 512" for i j using that slice_slice [of 0 j 512 i ?m] by simp
  have u: "ucast (of_nat b :: u32) = (of_nat b :: u64)"
    using assms(4) by (intro word_unat_eq_iff [THEN iffD2]) (simp add: unat_ucast_up unat_of_nat)
  have "rev [0..<4] = [3, 2, 1, 0 :: nat]" by (simp add: upt_rec)
  then show ?thesis using m(2,3,4,5,6,7) assms(2,3) by (simp add: find_fat32_partition_def r n s u)
qed

section \<open>Mounting\<close>

definition mounted :: "nat \<Rightarrow> bytes \<Rightarrow> Fat32Inner" where
  "mounted b fat =
     \<lparr>part_start_lba = of_nat b, bytes_per_sector = 512, sectors_per_cluster = 1, rsvd_sec_cnt = 32, num_fats = 2,
      fat_sz32 = 126, root_cluster = 2, data_start_lba = of_nat b + 284, fat_cache = table_of fat,
      fat_inodes = [(1, \<lparr>fi_first_cluster = 2, fi_size = 0, fi_is_dir = True\<rparr>)], fat_next_inode = 2\<rparr>"

lemma unat_of_nat_add: "b + k < 2 ^ 64 \<Longrightarrow> unat (of_nat b + of_nat k :: u64) = b + k"
  using of_nat_inverse [of "b + k" "of_nat (b + k) :: u64"] by simp

lemma mounted_ok:
  assumes "length fat = 64512" "b + 16410 \<le> 2 ^ 28"
  shows "vol_ok (mounted b fat)"
  using assms unat_of_nat_add [of b 284] unat_of_nat_add [of b 32]
  by (simp add: vol_ok_def mounted_def fat_start_def)

lemma image_mounts:
  assumes "length boot = 512 * b" "0 < b" "boot ! 498 \<noteq> 0x0C" "boot ! 498 \<noteq> 0x0B" "b + 16410 \<le> 2 ^ 28"
    and "make_fat s = Some fat" "make_fat32_partition s = Some p" "sysutils_clusters s \<le> 16096"
  shows "fat_init (drive_of (put_all (mbr_writes b) boot @ p)) = Some (mounted b fat)"
proof -
  let ?d = "drive_of (put_all (mbr_writes b) boot @ p)"
  have m: "length (put_all (mbr_writes b) boot) = 512 * b" using mbr_fields(1) [of boot b] assms(1,2) by simp
  note parts = partition_parts [OF assms(6,7,8)]
  have u: "unat (of_nat b :: u64) = b" "unat (of_nat b + 32 :: u64) = b + 32"
    using unat_of_nat_add [of b 0] unat_of_nat_add [of b 32] assms(5) by simp_all
  have "read_sector (of_nat b) ?d = Some (slice (512 * b) (512 * (b + 1)) (put_all (mbr_writes b) boot @ p))"
    using read_sectors_ok [OF drive_of_ok, of "of_nat b" 1] drive_bytes_slice [of "of_nat b" 1] m parts(1) assms(5) u
    by (simp add: read_sector_def)
  then have bpb: "read_sector (of_nat b) ?d = Some make_bpb" using slice_blocks [OF m, of 0 1 p] parts(2) by simp
  have "read_sectors (of_nat b + 32) (512 * 126) ?d = Some (slice (512 * (b + 32)) (512 * (b + (32 + 126))) (put_all (mbr_writes b) boot @ p))"
    using read_sectors_ok [OF drive_of_ok, of "of_nat b + 32" 126] drive_bytes_slice [of "of_nat b + 32" 126] m parts(1) assms(5) u
    by (simp add: add.assoc)
  then have fat: "read_sectors (of_nat b + 32) 64512 ?d = Some fat" using slice_blocks [OF m, of 32 "32 + 126" p] parts(3) by simp
  have "map (\<lambda>i. from_le (slice (4 * i) (4 * i + 4) fat)) [0..<16128] = table_of fat"
    using make_fat_table(1) [OF assms(6)] by (simp add: table_of_def)
  moreover have "disk_present ?d" by (simp add: drive_of_def)
  ultimately show ?thesis
    using image_partition [OF _ assms(3,4), of b p] assms(1,2,5) bpb fat
    by (simp add: fat_init_def bpb_fields load_fat_def fat_start_def fat_bytes_def Let_def mounted_def intern_inode_def)
qed

lemma image_cluster:
  assumes "length boot = 512 * b" "0 < b" "b + 16410 \<le> 2 ^ 28"
    and "make_fat s = Some fat" "make_fat32_partition s = Some p" "sysutils_clusters s \<le> 16096"
    and "i < 4 + sysutils_clusters s"
  shows "cluster_bytes (mounted b fat) (drive_of (put_all (mbr_writes b) boot @ p)) (of_nat (2 + i)) = data_clusters s ! i"
proof -
  let ?v = "mounted b fat"
  have m: "length (put_all (mbr_writes b) boot) = 512 * b" using mbr_fields(1) [of boot b] assms(1,2) by simp
  note parts = partition_parts [OF assms(4,5,6)]
  have u: "unat (of_nat (2 + i) :: u32) = 2 + i" using assms(6,7) by (intro of_nat_inverse [OF refl]) simp
  have v: "vol_ok ?v" using mounted_ok make_fat_table(1) [OF assms(4)] assms(3) by simp
  have c: "valid_cluster ?v (of_nat (2 + i))"
    unfolding valid_cluster_def u using assms(6,7) make_fat_table(1) [OF assms(4)] by (simp add: mounted_def)
  have l: "unat (cluster_to_lba ?v (of_nat (2 + i))) = b + (284 + i)" "unat (cluster_to_lba ?v (of_nat (2 + i))) + 1 \<le> 2 ^ 28"
    using cluster_lba [OF v c] unat_of_nat_add [of b 284] assms(3) unfolding u by (simp_all add: mounted_def)
  have "disk_bytes (drive_of (put_all (mbr_writes b) boot @ p)) (cluster_to_lba ?v (of_nat (2 + i))) 1 =
      slice (512 * (b + (284 + i))) (512 * (b + (284 + i + 1))) (put_all (mbr_writes b) boot @ p)"
    using drive_bytes_slice [OF _ l(2), of "put_all (mbr_writes b) boot @ p"] m parts(1) assms(6,7) l(1) by (simp add: algebra_simps)
  also have "\<dots> = data_clusters s ! i" using slice_blocks [OF m, of "284 + i" "284 + i + 1" p] parts(4) [OF assms(7)] by (simp add: algebra_simps)
  finally show ?thesis by (simp add: cluster_bytes_def mounted_def)
qed

section \<open>Finding and reading the files\<close>

abbreviation root_listing :: "bytes \<Rightarrow> RawDirEntry list" where
  "root_listing s \<equiv> map (\<lambda>i. parse_entry (slot (make_root_cluster s) i)) [0..<16]"

lemma entry_name: "re_name (parse_entry b) = slice 0 11 b" "re_attr (parse_entry b) = b ! 11"
  by (simp_all add: parse_entry_def)

lemma root_find:
  "find (has_name (as_bytes ''HELLO      '')) (root_listing s) = Some (parse_entry (slot (make_root_cluster s) 1))"
  "find (has_name (as_bytes ''FORKTEST   '')) (root_listing s) = Some (parse_entry (slot (make_root_cluster s) 2))"
  "find (has_name (as_bytes ''SYSUTILS   '')) (root_listing s) = Some (parse_entry (slot (make_root_cluster s) 3))"
  "find (has_name (as_bytes ''README     '')) (root_listing s) = Some (parse_entry (slot (make_root_cluster s) 4))"
proof -
  have u: "[0..<16] = [0, 1, 2, 3, 4] @ [5..<16]" by (simp add: upt_rec)
  show "find (has_name (as_bytes ''HELLO      '')) (root_listing s) = Some (parse_entry (slot (make_root_cluster s) 1))"
    "find (has_name (as_bytes ''FORKTEST   '')) (root_listing s) = Some (parse_entry (slot (make_root_cluster s) 2))"
    "find (has_name (as_bytes ''SYSUTILS   '')) (root_listing s) = Some (parse_entry (slot (make_root_cluster s) 3))"
    "find (has_name (as_bytes ''README     '')) (root_listing s) = Some (parse_entry (slot (make_root_cluster s) 4))"
    by (simp_all add: u has_name_def is_free_def is_lfn_def ATTR_LFN_def entry_name slot_field slot_byte root_length root_names root_attrs
        as_bytes_def of_char_def)
qed

lemma from_le_zeros: "from_le (replicate n 0) = 0"
  by (induction n) simp_all

lemma root_entries:
  assumes "sysutils_clusters s \<le> 16096"
  defines "e \<equiv> \<lambda>k. parse_entry (slot (make_root_cluster s) k)"
  shows "first_cluster (e 1) = 3" "first_cluster (e 2) = 4" "first_cluster (e 3) = 5" "first_cluster (e 4) = of_nat (5 + sysutils_clusters s)"
    "file_size (e 1) = of_nat (length HELLO_ELF)" "file_size (e 2) = of_nat (length FORKTEST_ELF)"
    "file_size (e 3) = of_nat (length s)" "file_size (e 4) = of_nat (length README_TEXT)"
    "\<not> is_dir (e 1)" "\<not> is_dir (e 2)" "\<not> is_dir (e 3)" "\<not> is_dir (e 4)"
proof -
  note fields = e_def parse_entry_def first_cluster_def is_dir_def ATTR_DIR_def slot_field slot_byte root_length root_clusters root_sizes
    root_attrs from_le_to_le from_le_zeros
  show "first_cluster (e 1) = 3" "first_cluster (e 2) = 4" "first_cluster (e 3) = 5" by (simp_all add: fields)
  have "unat (of_nat (5 + sysutils_clusters s) :: u16) = 5 + sysutils_clusters s" using assms(1) by (intro of_nat_inverse [OF refl]) simp
  moreover have "unat (of_nat (5 + sysutils_clusters s) :: u32) = 5 + sysutils_clusters s" using assms(1) by (intro of_nat_inverse [OF refl]) simp
  ultimately have "ucast (of_nat (5 + sysutils_clusters s) :: u16) = (of_nat (5 + sysutils_clusters s) :: u32)"
    by (intro word_unat_eq_iff [THEN iffD2]) (subst unat_ucast_up, simp_all only:, simp)
  then show "first_cluster (e 4) = of_nat (5 + sysutils_clusters s)" by (simp add: fields del: of_nat_add)
  show "file_size (e 1) = of_nat (length HELLO_ELF)" "file_size (e 2) = of_nat (length FORKTEST_ELF)"
    "file_size (e 3) = of_nat (length s)" "file_size (e 4) = of_nat (length README_TEXT)"
    "\<not> is_dir (e 1)" "\<not> is_dir (e 2)" "\<not> is_dir (e 3)" "\<not> is_dir (e 4)"
    by (simp_all add: fields)
qed

lemma short_names:
  "to_short_name (as_bytes ''hello'') = as_bytes ''HELLO      ''" "to_short_name (as_bytes ''forktest'') = as_bytes ''FORKTEST   ''"
  "to_short_name (as_bytes ''sysutils'') = as_bytes ''SYSUTILS   ''" "to_short_name (as_bytes ''readme'') = as_bytes ''README     ''"
  by code_simp+

text \<open>A file is found under its name, and reading it gives its contents.\<close>

definition holds_file :: "Fat32Inner \<Rightarrow> disk \<Rightarrow> string \<Rightarrow> bytes \<Rightarrow> bool" where
  "holds_file v d nm content \<longleftrightarrow> (\<exists>v' i. fat_lookup 1 (as_bytes nm) (v, d) = ((v', d), Inr i) \<and> fat_size i (v', d) = of_nat (length content) \<and>
     fat_read i 0 (length content) (v', d) = ((v', d), Inr content))"

lemma holds_fileI:
  assumes "vol_ok (mounted b fat)" "disk_ok d" "is_chain (table_of fat) [2]"
    and "cluster_bytes (mounted b fat) d 2 = make_root_cluster s"
    and "find (has_name (to_short_name (as_bytes nm))) (root_listing s) = Some e" "\<not> is_dir e"
    and "is_chain (table_of fat) cs" "cs \<noteq> []" "length cs \<le> CHAIN_LIMIT" "first_cluster e = hd cs"
    and "file_size e = of_nat (length content)" "length content \<le> 512 * length cs" "length content < 2 ^ 32"
    and "take (length content) (chain_bytes (mounted b fat) d cs) = content"
  shows "holds_file (mounted b fat) d nm content"
proof -
  let ?v = "mounted b fat"
  let ?n = "\<lparr>fi_first_cluster = first_cluster e, fi_size = file_size e, fi_is_dir = False\<rparr>"
  let ?v' = "?v\<lparr>fat_next_inode := 3, fat_inodes := fat_inodes ?v @ [(2, ?n)]\<rparr>"
  have c: "cluster_chain ?v 2 = [2]" "valid_cluster ?v 2"
    using cluster_chain_hd [of ?v "[2]"] is_chain_valid [of ?v "[2]"] assms(3) by (simp_all add: mounted_def CHAIN_LIMIT_def)
  have b: "bytes_per_cluster ?v = 512" by (simp add: mounted_def bytes_per_cluster_def)
  have "read_dir_raw ?v 2 d = root_listing s"
    using read_cluster_ok [OF assms(1,2) c(2), of 512] by (simp add: read_dir_raw_def c b assms(4))
  then have l: "fat_lookup 1 (as_bytes nm) (?v, d) = ((?v', d), Inr 2)"
    using assms(5,6) by (simp add: fat_lookup_def get_inode_def mounted_def intern_inode_def same_file_def)
  have "vol_ok ?v' = vol_ok ?v" by (simp add: vol_ok_def fat_start_def)
  then have v: "vol_ok ?v'" using assms(1) by blast
  have u: "unat (file_size e) = length content" using assms(11,13) by (simp add: unat_of_nat)
  have f: "fat_file ?v' 2 ?n cs"
    using assms(7,8,9,10,12) u by (simp add: fat_file_def get_inode_def mounted_def bytes_per_cluster_def)
  have "chain_bytes ?v' d cs = chain_bytes ?v d cs" by (simp add: chain_bytes_def cluster_bytes_def [abs_def] cluster_to_lba_def)
  then have r: "fat_read 2 0 (length content) (?v', d) = ((?v', d), Inr content)"
    using fat_read_range [OF v assms(2) f, of 0 "length content"] assms(13,14) u by simp
  have "ucast (file_size e) = (of_nat (length content) :: u64)"
    using u assms(13) by (intro word_unat_eq_iff [THEN iffD2]) (simp add: unat_ucast_up unat_of_nat)
  then have "fat_size 2 (?v', d) = of_nat (length content)" by (simp add: fat_size_def get_inode_def mounted_def)
  with l r show ?thesis unfolding holds_file_def by blast
qed

lemma image_files:
  assumes "length boot = 512 * b" "0 < b" "b + 16410 \<le> 2 ^ 28"
    and "make_fat s = Some fat" "make_fat32_partition s = Some p" "sysutils_clusters s \<le> 16096" "s \<noteq> []"
  defines "d \<equiv> drive_of (put_all (mbr_writes b) boot @ p)"
  shows "holds_file (mounted b fat) d ''hello'' HELLO_ELF" "holds_file (mounted b fat) d ''forktest'' FORKTEST_ELF"
    "holds_file (mounted b fat) d ''sysutils'' s" "holds_file (mounted b fat) d ''readme'' README_TEXT"
proof -
  let ?n = "sysutils_clusters s"
  have v: "vol_ok (mounted b fat)" using mounted_ok make_fat_table(1) [OF assms(4)] assms(3) by simp
  have n: "?n \<le> 16122" "0 < ?n" using assms(6,7) sysutils_covered [of s] by (auto intro: Nat.gr0I)
  note chains = one_is_chain [OF assms(4) n(1)] sysutils_is_chain [OF assms(4) n(1)]
  have cl: "cluster_bytes (mounted b fat) d (of_nat (2 + i)) = data_clusters s ! i" if "i < 4 + ?n" for i
    unfolding d_def using that by (intro image_cluster assms(1-6))
  have root: "cluster_bytes (mounted b fat) d 2 = make_root_cluster s" using cl [of 0] by (simp add: data_clusters_def)
  note holds = holds_fileI [OF v drive_of_ok [of "put_all (mbr_writes b) boot @ p", folded d_def] chains(1) root]
  note e = root_entries [OF assms(6)]
  show "holds_file (mounted b fat) d ''hello'' HELLO_ELF"
    using chains(2) cl [of 1] one_cluster_take [of HELLO_ELF] e
    by (intro holds [where cs = "[3]"]) (simp_all add: short_names root_find small_files CHAIN_LIMIT_def chain_bytes_def data_clusters_def)
  show "holds_file (mounted b fat) d ''forktest'' FORKTEST_ELF"
    using chains(3) cl [of 2] one_cluster_take [of FORKTEST_ELF] e
    by (intro holds [where cs = "[4]"]) (simp_all add: short_names root_find small_files CHAIN_LIMIT_def chain_bytes_def data_clusters_def)
  have "data_clusters s ! (3 + ?n) = one_cluster README_TEXT" by (simp add: data_clusters_def nth_append)
  then have "cluster_bytes (mounted b fat) d (of_nat (5 + ?n)) = one_cluster README_TEXT" using cl [of "3 + ?n"] by (simp add: add.assoc)
  then show "holds_file (mounted b fat) d ''readme'' README_TEXT"
    using chains(4) one_cluster_take [of README_TEXT] e
    by (intro holds [where cs = "[of_nat (5 + ?n)]"]) (simp_all add: short_names root_find small_files CHAIN_LIMIT_def chain_bytes_def)
  have "map (cluster_bytes (mounted b fat) d) (sysutils_chain s) = chunk_clusters ?n s"
  proof (rule nth_equalityI)
    fix i assume "i < length (map (cluster_bytes (mounted b fat) d) (sysutils_chain s))"
    then have i: "i < ?n" by (simp add: sysutils_chain_def)
    then have "data_clusters s ! (3 + i) = chunk_clusters ?n s ! i" by (simp add: data_clusters_def nth_append)
    then show "map (cluster_bytes (mounted b fat) d) (sysutils_chain s) ! i = chunk_clusters ?n s ! i"
      using cl [of "3 + i"] i by (simp add: sysutils_chain_def add.assoc)
  qed (simp add: sysutils_chain_def)
  then have "take (length s) (chain_bytes (mounted b fat) d (sysutils_chain s)) = s"
    using concat_chunk_clusters [OF sysutils_covered] by (simp add: chain_bytes_def)
  moreover have "length s < 2 ^ 32" using sysutils_covered [of s] assms(6) by simp
  moreover have "hd (sysutils_chain s) = 5" "sysutils_chain s \<noteq> []" "length (sysutils_chain s) = ?n"
    using n(2) by (simp_all add: sysutils_chain_def upt_conv_Cons)
  ultimately show "holds_file (mounted b fat) d ''sysutils'' s"
    using chains(5) e n sysutils_covered [of s]
    by (intro holds [where cs = "sysutils_chain s"]) (simp_all add: short_names root_find CHAIN_LIMIT_def)
qed

section \<open>Properties\<close>

lemma built_disk:
  assumes "512 \<le> length boot" "length boot mod 512 = 0" "boot ! 510 = 0x55" "boot ! 511 = 0xAA"
    and "boot ! 498 \<noteq> 0x0C" "boot ! 498 \<noteq> 0x0B" "length boot div 512 + 16410 \<le> 2 ^ 28"
    and "sysutils \<noteq> []" "length sysutils \<le> 512 * 16096"
  shows "\<exists>img v. append_partition sysutils boot = Some img \<and> fat_init (drive_of img) = Some v \<and> vol_ok v \<and>
    holds_file v (drive_of img) ''hello'' HELLO_ELF \<and> holds_file v (drive_of img) ''forktest'' FORKTEST_ELF \<and>
    holds_file v (drive_of img) ''sysutils'' sysutils \<and> holds_file v (drive_of img) ''readme'' README_TEXT"
proof -
  define b where "b = length boot div 512"
  have b: "length boot = 512 * b" "0 < b" "b + 16410 \<le> 2 ^ 28" "padded boot = boot" using assms(1,2,7) by (auto simp: b_def padded_def)
  have n: "sysutils_clusters sysutils \<le> 16096" using assms(9) by (simp add: sysutils_clusters_def)
  obtain fat p where f: "make_fat sysutils = Some fat" "make_fat32_partition sysutils = Some p" using partition_total [OF n] by blast
  have "append_partition sysutils boot = Some (put_all (mbr_writes b) boot @ p)"
    using append_partition_ok [OF assms(1,3,4) f(2)] b(4) by (simp add: b_def)
  moreover have "fat_init (drive_of (put_all (mbr_writes b) boot @ p)) = Some (mounted b fat)"
    by (rule image_mounts [OF b(1,2) assms(5,6) b(3) f n])
  moreover have "vol_ok (mounted b fat)" using mounted_ok make_fat_table(1) [OF f(1)] b(3) by simp
  ultimately show ?thesis using image_files [OF b(1,2,3) f n assms(8)] by blast
qed

text \<open>
  C27. For a boot image of whole sectors with a valid boot record whose fourth partition is not a
  FAT32 partition, and a \<^verbatim>\<open>sysutils\<close> program that fits, the build script makes an image that the
  kernel mounts; its root directory holds the four files, each of which is found by name with
  its size and read back byte for byte.
\<close>

theorem built_disk_mounts:
  assumes "512 \<le> length boot" "length boot mod 512 = 0" "boot ! 510 = 0x55" "boot ! 511 = 0xAA"
    and "boot ! 498 \<noteq> 0x0C" "boot ! 498 \<noteq> 0x0B" "length boot div 512 + 16410 \<le> 2 ^ 28"
    and "sysutils \<noteq> []" "length sysutils \<le> 512 * 16096"
  shows "\<exists>img v. append_partition sysutils boot = Some img \<and> fat_init (drive_of img) = Some v \<and> vol_ok v \<and>
    holds_file v (drive_of img) ''hello'' HELLO_ELF \<and> holds_file v (drive_of img) ''forktest'' FORKTEST_ELF \<and>
    holds_file v (drive_of img) ''sysutils'' sysutils \<and> holds_file v (drive_of img) ''readme'' README_TEXT"
  by (rule built_disk [OF assms])

theorem built_disk_mounts_witness:
  "\<exists>img v. append_partition [0x7F] (replicate 510 0 @ [0x55, 0xAA]) = Some img \<and> fat_init (drive_of img) = Some v \<and>
     holds_file v (drive_of img) ''sysutils'' [0x7F]"
  using built_disk_mounts [of "replicate 510 0 @ [0x55, 0xAA]" "[0x7F]"] by (auto simp: nth_append)

text \<open>
  The start of the partition is computed from the length of the boot image before it is padded:
  for a boot image that is not a whole number of sectors the boot record points to the padded
  last sector of the boot image, and the kernel mounts nothing.
\<close>

theorem unaligned_boot_not_mounted:
  assumes "512 \<le> length boot" "length boot mod 512 \<noteq> 0" "boot ! 510 = 0x55" "boot ! 511 = 0xAA"
    and "boot ! 498 \<noteq> 0x0C" "boot ! 498 \<noteq> 0x0B" "length boot div 512 < 2 ^ 28" "length sysutils \<le> 512 * 16096"
  shows "\<exists>img. append_partition sysutils boot = Some img \<and> fat_init (drive_of img) = None"
proof -
  define b where "b = length boot div 512"
  let ?m = "put_all (mbr_writes b) (padded boot)"
  have b: "0 < b" "512 * b \<le> length boot" "length boot < 512 * b + 512" "512 \<le> length (padded boot)"
    using assms(1) length_padded(1) [of boot] by (auto simp: b_def)
  have l: "length (padded boot) = 512 * (b + 1)" using length_padded(2) [OF assms(2)] by (simp add: b_def)
  have "sysutils_clusters sysutils \<le> 16096" using assms(8) by (simp add: sysutils_clusters_def)
  then obtain p where p: "make_fat32_partition sysutils = Some p" using partition_total by blast
  obtain k where k: "padded boot = boot @ replicate k 0" by (rule padded_append)
  have z: "padded boot ! (512 * b + 511) = 0" using l b(3) by (simp add: k nth_append)
  have "padded boot ! 498 = boot ! 498" using assms(1) by (simp add: k nth_append)
  then have part: "find_fat32_partition (drive_of (?m @ p)) = Some (of_nat b, 16384)"
    using image_partition [OF b(4), of b p] assms(5,6,7) by (simp add: b_def)
  have u: "unat (of_nat b :: u64) = b" using unat_of_nat_add [of b 0] assms(7) by (simp add: b_def)
  note m = mbr_fields(1) [OF b(4), of b] mbr_fields(8) [OF b(4), of "512 * b + 511" b]
  have "read_sector (of_nat b) (drive_of (?m @ p)) = Some (slice (512 * b) (512 * (b + 1)) ?m)"
    using read_sectors_ok [OF drive_of_ok, of "of_nat b" 1] drive_bytes_slice [of "of_nat b" 1 "?m @ p"] m(1) l u assms(7)
    by (simp add: read_sector_def b_def)
  moreover have "slice (512 * b) (512 * (b + 1)) ?m ! 511 = 0"
    using nth_slice [of 511 "512 * (b + 1)" "512 * b" ?m] m l b(1) z by simp
  ultimately have "fat_init (drive_of (?m @ p)) = None" using part by (simp add: fat_init_def drive_of_def)
  then show ?thesis using append_partition_ok [OF assms(1,3,4) p] by (auto simp: b_def)
qed

theorem unaligned_boot_not_mounted_witness:
  "\<exists>img. append_partition [0x7F] (replicate 510 0 @ [0x55, 0xAA, 1]) = Some img \<and> fat_init (drive_of img) = None"
  using unaligned_boot_not_mounted [of "replicate 510 0 @ [0x55, 0xAA, 1]" "[0x7F]"] by (simp add: nth_append)

end
