(* ===== verification/User_Programs.thy ===== *)
theory User_Programs
  imports Elf Disk_Image
begin

text \<open>
  The two user programs that the kernel embeds as bytes (\<^verbatim>\<open>kernel/src/fs/initramfs.rs\<close>): that they are the ones
  the build script puts on the disk, and that the program loader accepts them.
\<close>

definition initramfs_HELLO :: bytes where
  "initramfs_HELLO =
     [0x7f, 0x45, 0x4c, 0x46, 0x02, 0x01, 0x01, 0x00, 0x00, 0x00, 0x00, 0x00, 0x00, 0x00, 0x00, 0x00,
     0x02, 0x00, 0x3e, 0x00, 0x01, 0x00, 0x00, 0x00, 0x78, 0x00, 0x40, 0x00, 0x00, 0x00, 0x00, 0x00,
     0x40, 0x00, 0x00, 0x00, 0x00, 0x00, 0x00, 0x00, 0x00, 0x00, 0x00, 0x00, 0x00, 0x00, 0x00, 0x00,
     0x00, 0x00, 0x00, 0x00, 0x40, 0x00, 0x38, 0x00, 0x01, 0x00, 0x00, 0x00, 0x00, 0x00, 0x00, 0x00,
     0x01, 0x00, 0x00, 0x00, 0x05, 0x00, 0x00, 0x00, 0x00, 0x00, 0x00, 0x00, 0x00, 0x00, 0x00, 0x00,
     0x00, 0x00, 0x40, 0x00, 0x00, 0x00, 0x00, 0x00, 0x00, 0x00, 0x40, 0x00, 0x00, 0x00, 0x00, 0x00,
     0xb9, 0x00, 0x00, 0x00, 0x00, 0x00, 0x00, 0x00, 0xb9, 0x00, 0x00, 0x00, 0x00, 0x00, 0x00, 0x00,
     0x00, 0x10, 0x00, 0x00, 0x00, 0x00, 0x00, 0x00, 0x48, 0xc7, 0xc0, 0x03, 0x00, 0x00, 0x00, 0x48,
     0xc7, 0xc7, 0x01, 0x00, 0x00, 0x00, 0x48, 0x8d, 0x35, 0x15, 0x00, 0x00, 0x00, 0x48, 0xc7, 0xc2,
     0x16, 0x00, 0x00, 0x00, 0xcd, 0x80, 0x48, 0xc7, 0xc0, 0x0b, 0x00, 0x00, 0x00, 0x48, 0x31, 0xff,
     0xcd, 0x80, 0x48, 0x65, 0x6c, 0x6c, 0x6f, 0x20, 0x66, 0x72, 0x6f, 0x6d, 0x20, 0x2f, 0x62, 0x69,
     0x6e, 0x2f, 0x68, 0x65, 0x6c, 0x6c, 0x6f, 0x21, 0x0a]"

definition initramfs_FORKTEST :: bytes where
  "initramfs_FORKTEST =
     [0x7f, 0x45, 0x4c, 0x46, 0x02, 0x01, 0x01, 0x00, 0x00, 0x00, 0x00, 0x00, 0x00, 0x00, 0x00, 0x00,
     0x02, 0x00, 0x3e, 0x00, 0x01, 0x00, 0x00, 0x00, 0x78, 0x00, 0x40, 0x00, 0x00, 0x00, 0x00, 0x00,
     0x40, 0x00, 0x00, 0x00, 0x00, 0x00, 0x00, 0x00, 0x00, 0x00, 0x00, 0x00, 0x00, 0x00, 0x00, 0x00,
     0x00, 0x00, 0x00, 0x00, 0x40, 0x00, 0x38, 0x00, 0x01, 0x00, 0x00, 0x00, 0x00, 0x00, 0x00, 0x00,
     0x01, 0x00, 0x00, 0x00, 0x05, 0x00, 0x00, 0x00, 0x00, 0x00, 0x00, 0x00, 0x00, 0x00, 0x00, 0x00,
     0x00, 0x00, 0x40, 0x00, 0x00, 0x00, 0x00, 0x00, 0x00, 0x00, 0x40, 0x00, 0x00, 0x00, 0x00, 0x00,
     0x1d, 0x01, 0x00, 0x00, 0x00, 0x00, 0x00, 0x00, 0x1d, 0x01, 0x00, 0x00, 0x00, 0x00, 0x00, 0x00,
     0x00, 0x10, 0x00, 0x00, 0x00, 0x00, 0x00, 0x00, 0x48, 0xc7, 0xc0, 0x03, 0x00, 0x00, 0x00, 0x48,
     0xc7, 0xc7, 0x01, 0x00, 0x00, 0x00, 0x48, 0x8d, 0x35, 0x7d, 0x00, 0x00, 0x00, 0x48, 0xc7, 0xc2,
     0x06, 0x00, 0x00, 0x00, 0xcd, 0x80, 0x48, 0xc7, 0xc0, 0x14, 0x00, 0x00, 0x00, 0xcd, 0x80, 0x48,
     0x89, 0xc3, 0x48, 0x85, 0xc0, 0x75, 0x2a, 0x48, 0xc7, 0xc0, 0x03, 0x00, 0x00, 0x00, 0x48, 0xc7,
     0xc7, 0x01, 0x00, 0x00, 0x00, 0x48, 0x8d, 0x35, 0x54, 0x00, 0x00, 0x00, 0x48, 0xc7, 0xc2, 0x06,
     0x00, 0x00, 0x00, 0xcd, 0x80, 0x48, 0xc7, 0xc0, 0x0b, 0x00, 0x00, 0x00, 0x48, 0x31, 0xff, 0xcd,
     0x80, 0x48, 0xc7, 0xc0, 0x03, 0x00, 0x00, 0x00, 0x48, 0xc7, 0xc7, 0x01, 0x00, 0x00, 0x00, 0x48,
     0x8d, 0x35, 0x30, 0x00, 0x00, 0x00, 0x48, 0xc7, 0xc2, 0x07, 0x00, 0x00, 0x00, 0xcd, 0x80, 0x48,
     0x89, 0xdf, 0x48, 0x31, 0xf6, 0x48, 0xc7, 0xc0, 0x15, 0x00, 0x00, 0x00, 0xcd, 0x80, 0x48, 0xc7,
     0xc0, 0x0b, 0x00, 0x00, 0x00, 0x48, 0x31, 0xff, 0xcd, 0x80, 0x66, 0x6f, 0x72, 0x6b, 0x21, 0x0a,
     0x63, 0x68, 0x69, 0x6c, 0x64, 0x0a, 0x70, 0x61, 0x72, 0x65, 0x6e, 0x74, 0x0a]"

definition initramfs_README :: bytes where
  "initramfs_README =
     as_bytes ''AeroOS - a hobby x86_64 kernel in Rust.'' @ [0x0A] @
     as_bytes ''Features: serial/VGA console, PS/2 input, ATA PIO disk, FAT32, ELF loader,'' @ [0x0A] @
     as_bytes ''preemptive scheduler, fork/exec/waitpid, signals, and sysutils user-space'' @ [0x0A] @
     as_bytes ''tools (ls/cat/ps/kill). Boot: hello + sysutils (Ring3).'' @ [0x0A]"

definition initramfs_contents :: "bytes \<Rightarrow> (string \<times> bytes) list" where
  "initramfs_contents sysutils = initramfs_files initramfs_HELLO initramfs_FORKTEST sysutils initramfs_README"

text \<open>One segment, readable and executable, that covers the whole file and holds the entry point.\<close>

definition whole_file :: "bytes \<Rightarrow> ElfSegment" where
  "whole_file b = \<lparr>vaddr = 0x400000, seg_offset = 0, filesz = of_nat (length b), memsz = of_nat (length b), seg_flags = 5\<rparr>"

text \<open>
  The programs in the initial file system are byte for byte those on the disk, and the loader
  accepts them: each is a single segment over the whole file, entered behind its headers.
\<close>

theorem user_programs_load:
  "initramfs_HELLO = HELLO_ELF \<and> initramfs_FORKTEST = FORKTEST_ELF \<and>
   parse_elf_segments HELLO_ELF = Inr (0x400078, [whole_file HELLO_ELF]) \<and>
   parse_elf_segments FORKTEST_ELF = Inr (0x400078, [whole_file FORKTEST_ELF])"
proof (intro conjI)
  show "initramfs_HELLO = HELLO_ELF" by (simp only: initramfs_HELLO_def HELLO_ELF_def)
  show "initramfs_FORKTEST = FORKTEST_ELF" by (simp only: initramfs_FORKTEST_def FORKTEST_ELF_def)
  show "parse_elf_segments HELLO_ELF = Inr (0x400078, [whole_file HELLO_ELF])" by code_simp
  show "parse_elf_segments FORKTEST_ELF = Inr (0x400078, [whole_file FORKTEST_ELF])" by code_simp
qed

end
