(* ===== verification/Raster.thy ===== *)
theory Raster
  imports User_Memory
begin

text \<open>
  The contract of the drawing surfaces: the kernel's framebuffer and the off-screen buffers of the
  window manager and the desktop shell. Each provides one operation that
  changes a pixel; filling rectangles and copying images are loops over it.
\<close>

locale raster =
  fixes inv :: "'s \<Rightarrow> bool"
    and shown :: "'s \<Rightarrow> 'p \<Rightarrow> bool"
    and pixel :: "'s \<Rightarrow> 'p \<Rightarrow> 'c"
    and rest :: "'s \<Rightarrow> 'r"
    and put :: "'p \<Rightarrow> 'c \<Rightarrow> 's \<Rightarrow> 's"
  assumes put_inv: "inv s \<Longrightarrow> inv (put p c s)"
    and put_shown: "inv s \<Longrightarrow> shown (put p c s) = shown s"
    and put_rest: "inv s \<Longrightarrow> rest (put p c s) = rest s"
    and put_pixel: "inv s \<Longrightarrow> shown s q \<Longrightarrow> pixel (put p c s) q = (if q = p then c else pixel s q)"
begin

text \<open>A picture is a list of coloured points; the last point at a place wins.\<close>

definition paint :: "('p \<times> 'c) list \<Rightarrow> 's \<Rightarrow> 's" where
  "paint ps s = fold (\<lambda>(p, c). put p c) ps s"

lemma paint_append: "paint (ps @ qs) s = paint qs (paint ps s)"
  by (simp add: paint_def)

lemma paint_keeps: "inv s \<Longrightarrow> inv (paint ps s) \<and> shown (paint ps s) = shown s \<and> rest (paint ps s) = rest s"
proof (induction ps arbitrary: s)
  case Nil
  then show ?case by (simp add: paint_def)
next
  case (Cons pc ps)
  obtain p c where "pc = (p, c)" by fastforce
  then show ?case using Cons.IH [of "put p c s"] Cons.prems by (simp add: paint_def put_inv put_shown put_rest)
qed

lemma paint_pixel:
  "inv s \<Longrightarrow> shown s q \<Longrightarrow> pixel (paint ps s) q = (case map_of (rev ps) q of Some c \<Rightarrow> c | None \<Rightarrow> pixel s q)"
proof (induction ps rule: rev_induct)
  case Nil
  then show ?case by (simp add: paint_def)
next
  case (snoc pc ps)
  obtain p c where pc: "pc = (p, c)" by fastforce
  have i: "inv (paint ps s)" "shown (paint ps s) q" using paint_keeps [of s ps] snoc.prems by simp_all
  have "paint (ps @ [pc]) s = put p c (paint ps s)" by (simp add: paint_def pc)
  then show ?case using put_pixel [OF i] snoc.IH [OF snoc.prems] by (simp add: pc)
qed

text \<open>One colour for a set of points.\<close>

lemma paint_area:
  assumes "inv s" "shown s q"
  shows "pixel (paint (map (\<lambda>p. (p, c)) ps) s) q = (if q \<in> set ps then c else pixel s q)"
proof -
  have "map_of (rev (map (\<lambda>p. (p, c)) ps)) q = (if q \<in> set ps then Some c else None)"
    by (induction ps rule: rev_induct) simp_all
  then show ?thesis using paint_pixel [OF assms] by simp
qed

end

text \<open>Nested loops over rows and columns as one list of points.\<close>

definition grid :: "'x list \<Rightarrow> 'y list \<Rightarrow> ('x \<times> 'y) list" where
  "grid xs ys = concat (map (\<lambda>y. map (\<lambda>x. (x, y)) xs) ys)"

lemma fold_nested: "fold (\<lambda>y s. fold (\<lambda>x s. f x y s) xs s) ys s = fold (\<lambda>(x, y) s. f x y s) (grid xs ys) s"
proof (induction ys arbitrary: s)
  case (Cons y ys)
  have "fold (\<lambda>x s. f x y s) xs s = fold (\<lambda>(x, y) s. f x y s) (map (\<lambda>x. (x, y)) xs) s" for s
    by (induction xs arbitrary: s) simp_all
  then show ?case using Cons.IH by (simp add: grid_def)
qed (simp add: grid_def)

lemma grid_map: "grid (map f xs) (map g ys) = map (\<lambda>(x, y). (f x, g y)) (grid xs ys)"
  by (simp add: grid_def map_concat comp_def)

lemma set_grid [simp]: "set (grid xs ys) = set xs \<times> set ys"
  by (auto simp: grid_def)

text \<open>Row-major offsets inside a surface of \<open>s\<close> pixels per row and \<open>k\<close> bytes per pixel.\<close>

lemma offset_bound:
  fixes x y s h k :: nat
  assumes "x < s" "y < h"
  shows "(y * s + x) * k + k \<le> h * s * k"
proof -
  have "y * s + x + 1 \<le> (y + 1) * s" using assms(1) by simp
  also have "\<dots> \<le> h * s" using assms(2) by (intro mult_le_mono1) simp
  finally have "(y * s + x + 1) * k \<le> h * s * k" by (rule mult_le_mono1)
  then show ?thesis by (simp add: algebra_simps)
qed

lemma offset_apart:
  fixes x y x' y' s k :: nat
  assumes "x < s" "x' < s" "(x, y) \<noteq> (x', y')"
  shows "(y * s + x) * k + k \<le> (y' * s + x') * k \<or> (y' * s + x') * k + k \<le> (y * s + x) * k"
proof -
  have "y * s + x \<noteq> y' * s + x'"
  proof
    assume e: "y * s + x = y' * s + x'"
    then have "(y * s + x) div s = (y' * s + x') div s" "(y * s + x) mod s = (y' * s + x') mod s" by simp_all
    with assms show False by simp
  qed
  then have "y * s + x + 1 \<le> y' * s + x' \<or> y' * s + x' + 1 \<le> y * s + x" by linarith
  then have "(y * s + x + 1) * k \<le> (y' * s + x') * k \<or> (y' * s + x' + 1) * k \<le> (y * s + x) * k"
    by (meson mult_le_mono1)
  then show ?thesis by (simp add: algebra_simps)
qed

end
