(* ===== verification/Graphics.thy ===== *)
theory Graphics
  imports Raster
begin

text \<open>
  The kernel's framebuffer library \<^verbatim>\<open>kernel/src/graphics/mod.rs\<close>. The state is the
  geometry the boot loader reports and a pointer; pixels are written to memory through it
  without further checks, so memory outside the framebuffer is part of the model.
\<close>

datatype PixelFormat = Rgb | Bgr | OtherFormat

record FrameBufferInfo =
  fi_width :: u64
  fi_height :: u64
  fi_stride :: u64
  fi_bpp :: u64
  fi_format :: PixelFormat

record GraphicsState =
  g_info :: "FrameBufferInfo option"
  g_buffer :: u64
  g_len :: u64

record Color =
  red :: u8
  green :: u8
  blue :: u8

definition graphics_init :: "FrameBufferInfo \<Rightarrow> u64 \<Rightarrow> u64 \<Rightarrow> GraphicsState" where
  "graphics_init info ptr len = \<lparr>g_info = Some info, g_buffer = ptr, g_len = len\<rparr>"

definition is_ready :: "GraphicsState \<Rightarrow> bool" where
  "is_ready g \<longleftrightarrow> g_info g \<noteq> None"

definition width :: "GraphicsState \<Rightarrow> u64" where
  "width g = (case g_info g of Some i \<Rightarrow> fi_width i | None \<Rightarrow> 0)"

definition height :: "GraphicsState \<Rightarrow> u64" where
  "height g = (case g_info g of Some i \<Rightarrow> fi_height i | None \<Rightarrow> 0)"

definition bytes_per_pixel :: "GraphicsState \<Rightarrow> u64" where
  "bytes_per_pixel g = (case g_info g of Some i \<Rightarrow> fi_bpp i | None \<Rightarrow> 0)"

fun color_bytes :: "PixelFormat \<Rightarrow> Color \<Rightarrow> bytes" where
  "color_bytes Rgb c = [red c, green c, blue c]"
| "color_bytes Bgr c = [blue c, green c, red c]"
| "color_bytes OtherFormat c = [red c, green c, blue c]"

definition draw_pixel :: "u64 \<Rightarrow> u64 \<Rightarrow> Color \<Rightarrow> GraphicsState \<Rightarrow> (u64 \<Rightarrow> u8) \<Rightarrow> (u64 \<Rightarrow> u8)" where
  "draw_pixel x y color g m =
     (case g_info g of
        None \<Rightarrow> m
      | Some info \<Rightarrow>
          if fi_width info \<le> x \<or> fi_height info \<le> y then m
          else let offset = (y * fi_stride info + x) * fi_bpp info in
            if g_len g < offset + fi_bpp info then m
            else poke (g_buffer g + offset) (color_bytes (fi_format info) color) m)"

definition fill_rect :: "u64 \<Rightarrow> u64 \<Rightarrow> u64 \<Rightarrow> u64 \<Rightarrow> Color \<Rightarrow> GraphicsState \<Rightarrow> (u64 \<Rightarrow> u8) \<Rightarrow> (u64 \<Rightarrow> u8)" where
  "fill_rect x y w h color g m =
     fold (\<lambda>j m. fold (\<lambda>i m. draw_pixel (x + of_nat i) (y + of_nat j) color g m) [0..<unat w] m) [0..<unat h] m"

text \<open>One row of the gradient; the division panics (\<open>None\<close>) if the height is a multiple of
  \<open>2 ^ 32\<close>.\<close>

definition blend :: "u32 \<Rightarrow> u8 \<Rightarrow> u8 \<Rightarrow> u8" where
  "blend t top_c bottom_c = ucast ((ucast top_c * (256 - t) + ucast bottom_c * t) div 256)"

definition gradient_color :: "Color \<Rightarrow> Color \<Rightarrow> u64 \<Rightarrow> u64 \<Rightarrow> Color" where
  "gradient_color top_c bottom_c h y =
     (let t = (ucast y * 256) div ucast h in
      \<lparr>red = blend t (red top_c) (red bottom_c), green = blend t (green top_c) (green bottom_c),
       blue = blend t (blue top_c) (blue bottom_c)\<rparr>)"

definition draw_gradient :: "Color \<Rightarrow> Color \<Rightarrow> GraphicsState \<Rightarrow> (u64 \<Rightarrow> u8) \<Rightarrow> (u64 \<Rightarrow> u8) option" where
  "draw_gradient top_c bottom_c g m =
     (let h = height g; w = width g in
      if h = 0 \<or> w = 0 then Some m
      else if ucast h = (0 :: u32) then None
      else Some (fold (\<lambda>y m. fold (\<lambda>x m. draw_pixel (of_nat x) (of_nat y) (gradient_color top_c bottom_c h (of_nat y)) g m)
                   [0..<unat w] m) [0..<unat h] m))"

definition graphics_clear :: "Color \<Rightarrow> GraphicsState \<Rightarrow> (u64 \<Rightarrow> u8) \<Rightarrow> (u64 \<Rightarrow> u8)" where
  "graphics_clear color g = fill_rect 0 0 (width g) (height g) color g"

fun format_code :: "PixelFormat \<Rightarrow> u32" where
  "format_code Rgb = 0"
| "format_code Bgr = 1"
| "format_code OtherFormat = 2"

definition get_fb_state :: "GraphicsState \<Rightarrow> (u64 \<times> u64 \<times> u32 \<times> u32 \<times> u32 \<times> u32 \<times> u32) option" where
  "get_fb_state g =
     (case g_info g of
        None \<Rightarrow> None
      | Some i \<Rightarrow> Some (g_buffer g, g_len g, ucast (fi_width i), ucast (fi_height i), ucast (fi_stride i),
          ucast (fi_bpp i), format_code (fi_format i)))"

definition framebuffer_info :: "GraphicsState \<Rightarrow> (u64 \<times> u64) option" where
  "framebuffer_info g = (case g_info g of None \<Rightarrow> None | Some _ \<Rightarrow> Some (g_buffer g, g_len g))"

section \<open>The framebuffer as a raster\<close>

text \<open>A framebuffer whose rows lie inside the mapped memory and whose pixels have room for
  three colours.\<close>

definition fb_wf :: "GraphicsState \<Rightarrow> bool" where
  "fb_wf g \<longleftrightarrow> (\<exists>i. g_info g = Some i \<and> 3 \<le> unat (fi_bpp i) \<and> unat (fi_width i) \<le> unat (fi_stride i) \<and>
     unat (fi_height i) * unat (fi_stride i) * unat (fi_bpp i) \<le> unat (g_len g) \<and>
     unat (g_buffer g) + unat (g_len g) \<le> 2 ^ 64)"

definition pixel_offset :: "FrameBufferInfo \<Rightarrow> u64 \<Rightarrow> u64 \<Rightarrow> nat" where
  "pixel_offset i x y = (unat y * unat (fi_stride i) + unat x) * unat (fi_bpp i)"

fun color_of :: "PixelFormat \<Rightarrow> bytes \<Rightarrow> Color" where
  "color_of Bgr b = \<lparr>red = b ! 2, green = b ! 1, blue = b ! 0\<rparr>"
| "color_of f b = \<lparr>red = b ! 0, green = b ! 1, blue = b ! 2\<rparr>"

definition on_screen :: "GraphicsState \<Rightarrow> u64 \<times> u64 \<Rightarrow> bool" where
  "on_screen g p \<longleftrightarrow> fst p < width g \<and> snd p < height g"

definition fb_pixel :: "GraphicsState \<Rightarrow> (u64 \<Rightarrow> u8) \<Rightarrow> u64 \<times> u64 \<Rightarrow> Color" where
  "fb_pixel g m p = (case g_info g of Some i \<Rightarrow>
     color_of (fi_format i) (peek (g_buffer g + of_nat (pixel_offset i (fst p) (snd p))) 3 m))"

text \<open>Memory outside the framebuffer.\<close>

definition fb_outside :: "GraphicsState \<Rightarrow> (u64 \<Rightarrow> u8) \<Rightarrow> u64 \<Rightarrow> u8" where
  "fb_outside g m a = (if a - g_buffer g < g_len g then 0 else m a)"

lemma color_of_bytes [simp]: "color_of f (color_bytes f c) = c"
  by (cases f) simp_all

lemma length_color_bytes [simp]: "length (color_bytes f c) = 3"
  by (cases f) simp_all

lemma pixel_in_fb:
  assumes "fb_wf g" "g_info g = Some i" "x < fi_width i" "y < fi_height i"
  shows "pixel_offset i x y + unat (fi_bpp i) \<le> unat (g_len g)"
    "(y * fi_stride i + x) * fi_bpp i = of_nat (pixel_offset i x y)"
    "unat (of_nat (pixel_offset i x y) :: u64) = pixel_offset i x y"
    "unat (g_buffer g + of_nat (pixel_offset i x y)) = unat (g_buffer g) + pixel_offset i x y"
proof -
  have b: "unat (fi_height i) * unat (fi_stride i) * unat (fi_bpp i) \<le> unat (g_len g)"
    "unat (g_buffer g) + unat (g_len g) \<le> 2 ^ 64" "3 \<le> unat (fi_bpp i)" "unat x < unat (fi_stride i)" "unat y < unat (fi_height i)"
    using assms by (auto simp: fb_wf_def word_less_nat_alt)
  show 1: "pixel_offset i x y + unat (fi_bpp i) \<le> unat (g_len g)"
    using offset_bound [OF b(4,5), of "unat (fi_bpp i)"] b(1) by (simp add: pixel_offset_def)
  show "(y * fi_stride i + x) * fi_bpp i = of_nat (pixel_offset i x y)" by (simp add: pixel_offset_def)
  have lt: "pixel_offset i x y < unat (g_len g)" using 1 b(3) by simp
  then show 3: "unat (of_nat (pixel_offset i x y) :: u64) = pixel_offset i x y"
    using u64_bound [of "g_len g"] by (intro unat_offset) simp
  show "unat (g_buffer g + of_nat (pixel_offset i x y)) = unat (g_buffer g) + pixel_offset i x y"
    using unat_add_lem [of "g_buffer g" "of_nat (pixel_offset i x y)"] 3 lt b(2) by simp
qed

text \<open>On the screen, \<open>draw_pixel\<close> stores the three colour bytes of its pixel.\<close>

lemma draw_pixel_on_screen:
  assumes "fb_wf g" "g_info g = Some i" "on_screen g (x, y)"
  shows "draw_pixel x y c g m = poke (g_buffer g + of_nat (pixel_offset i x y)) (color_bytes (fi_format i) c) m"
proof -
  have xy: "x < fi_width i" "y < fi_height i" using assms by (simp_all add: on_screen_def width_def height_def)
  note p = pixel_in_fb [OF assms(1,2) xy]
  have "unat (of_nat (pixel_offset i x y) + fi_bpp i) = pixel_offset i x y + unat (fi_bpp i)"
    using unat_add_lem [of "of_nat (pixel_offset i x y)" "fi_bpp i"] p(1,3) u64_bound [of "g_len g"] by simp
  then have "\<not> g_len g < (y * fi_stride i + x) * fi_bpp i + fi_bpp i"
    using p(1,2) by (simp add: word_less_nat_alt)
  with xy p(2) show ?thesis by (simp add: draw_pixel_def assms(2) Let_def not_le [symmetric])
qed

lemma draw_pixel_off_screen: "\<not> on_screen g (x, y) \<Longrightarrow> draw_pixel x y c g m = m"
  by (cases "g_info g") (auto simp: draw_pixel_def on_screen_def width_def height_def)

lemma draw_pixel_outside:
  assumes "fb_wf g"
  shows "fb_outside g (draw_pixel x y c g m) = fb_outside g m"
proof (cases "on_screen g (x, y)")
  case True
  obtain i where i: "g_info g = Some i" "3 \<le> unat (fi_bpp i)" using assms by (auto simp: fb_wf_def)
  have w: "x < fi_width i" "y < fi_height i" using True i by (simp_all add: on_screen_def width_def height_def)
  note p = pixel_in_fb [OF assms i(1) w]
  show ?thesis
  proof (rule ext)
    fix a
    show "fb_outside g (draw_pixel x y c g m) a = fb_outside g m a"
    proof (cases "a - g_buffer g < g_len g")
      case False
      define d where "d = a - g_buffer g"
      have l: "unat (g_len g) \<le> unat d" using False by (simp add: d_def word_less_nat_alt)
      have e: "a - (g_buffer g + of_nat (pixel_offset i x y)) = d - of_nat (pixel_offset i x y)" by (simp add: d_def)
      have "unat (d - of_nat (pixel_offset i x y)) = unat d - pixel_offset i x y"
        using l p(1,3) unat_sub [of "of_nat (pixel_offset i x y)" d] by (simp add: word_le_nat_alt)
      moreover have "3 \<le> unat d - pixel_offset i x y" using l p(1) i(2) by linarith
      ultimately have "3 \<le> unat (a - (g_buffer g + of_nat (pixel_offset i x y)))" by (simp only: e)
      then show ?thesis using False draw_pixel_on_screen [OF assms i(1) True] by (simp add: fb_outside_def poke_outside)
    qed (simp add: fb_outside_def)
  qed
qed (simp add: draw_pixel_off_screen)

text \<open>Different pixels do not overlap.\<close>

lemma pixels_apart:
  assumes "fb_wf g" "g_info g = Some i" "x < fi_width i" "x' < fi_width i" "(x', y') \<noteq> (x, y)"
  shows "pixel_offset i x y + 3 \<le> pixel_offset i x' y' \<or> pixel_offset i x' y' + 3 \<le> pixel_offset i x y"
proof -
  have i: "3 \<le> unat (fi_bpp i)" "unat x < unat (fi_stride i)" "unat x' < unat (fi_stride i)"
    using assms by (auto simp: fb_wf_def word_less_nat_alt)
  have "(unat x, unat y) \<noteq> (unat x', unat y')" using assms(5) by (auto simp: word_unat_eq_iff)
  from offset_apart [OF i(2,3) this, of "unat (fi_bpp i)"] i(1) show ?thesis by (auto simp: pixel_offset_def)
qed

lemma draw_pixel_pixel:
  assumes w: "fb_wf g" and q: "on_screen g (x', y')"
  shows "fb_pixel g (draw_pixel x y c g m) (x', y') = (if (x', y') = (x, y) then c else fb_pixel g m (x', y'))"
proof (cases "on_screen g (x, y)")
  case True
  obtain i where i: "g_info g = Some i" "3 \<le> unat (fi_bpp i)" "unat (g_buffer g) + unat (g_len g) \<le> 2 ^ 64"
    using w by (auto simp: fb_wf_def)
  have xy: "x < fi_width i" "y < fi_height i" "x' < fi_width i" "y' < fi_height i"
    using True q by (simp_all add: on_screen_def width_def height_def i)
  note p' = pixel_in_fb [OF w i(1) xy(1,2)] and q' = pixel_in_fb [OF w i(1) xy(3,4)]
  note d = draw_pixel_on_screen [OF w i(1) True]
  show ?thesis
  proof (cases "(x', y') = (x, y)")
    case True
    have "peek a 3 (poke a (color_bytes f c) m) = color_bytes f c" for a f
      using peek_poke_same [of "color_bytes f c" a m] by simp
    then show ?thesis using True d by (simp add: fb_pixel_def i(1))
  next
    case False
    have "peek (g_buffer g + of_nat (pixel_offset i x' y')) 3
          (poke (g_buffer g + of_nat (pixel_offset i x y)) (color_bytes (fi_format i) c) m) =
        peek (g_buffer g + of_nat (pixel_offset i x' y')) 3 m"
      using p'(1,4) q'(1,4) i(2,3) pixels_apart [OF w i(1) xy(1,3) False] by (intro peek_poke_other) auto
    then show ?thesis using False d by (auto simp: fb_pixel_def i(1))
  qed
qed (use q in \<open>auto simp: draw_pixel_off_screen\<close>)

interpretation fb: raster
  "\<lambda>(g, m). fb_wf g" "\<lambda>(g, m). on_screen g" "\<lambda>(g, m). fb_pixel g m" "\<lambda>(g, m). (g, fb_outside g m)"
  "\<lambda>(x, y) c (g, m). (g, draw_pixel x y c g m)"
  by unfold_locales (auto simp: draw_pixel_outside draw_pixel_pixel split: if_splits)

section \<open>Filling\<close>

text \<open>A rectangle is a list of points; coordinates that wrap round are allowed.\<close>

definition rect_points :: "u64 \<Rightarrow> u64 \<Rightarrow> u64 \<Rightarrow> u64 \<Rightarrow> (u64 \<times> u64) list" where
  "rect_points x y w h = grid (map (\<lambda>i. x + of_nat i) [0..<unat w]) (map (\<lambda>j. y + of_nat j) [0..<unat h])"

lemma fold_draw_paint:
  "fold (\<lambda>(x, y) m. draw_pixel x y (c (x, y)) g m) ps m = snd (fb.paint (map (\<lambda>p. (p, c p)) ps) (g, m))
   \<and> fst (fb.paint (map (\<lambda>p. (p, c p)) ps) (g, m)) = g"
proof (induction ps arbitrary: m)
  case Nil
  then show ?case by (simp add: fb.paint_def)
next
  case (Cons p ps)
  obtain x y where "p = (x, y)" by fastforce
  then show ?case using Cons.IH [of "draw_pixel x y (c p) g m"] by (simp add: fb.paint_def)
qed

lemma fill_rect_paint:
  "(g, fill_rect x y w h c g m) = fb.paint (map (\<lambda>p. (p, c)) (rect_points x y w h)) (g, m)"
proof -
  have "fill_rect x y w h c g m = fold (\<lambda>(x, y) m. draw_pixel x y c g m) (rect_points x y w h) m"
    unfolding fill_rect_def rect_points_def grid_map fold_nested [of "\<lambda>i j. draw_pixel (x + of_nat i) (y + of_nat j) c g"]
    by (simp add: fold_map comp_def case_prod_unfold)
  then show ?thesis using fold_draw_paint [of "\<lambda>_. c" g "rect_points x y w h" m] by (simp add: prod_eq_iff)
qed

lemma add_offset_iff:
  fixes x w a :: u64
  assumes "unat x + unat w \<le> 2 ^ 64"
  shows "a \<in> (\<lambda>i. x + of_nat i) ` {0..<unat w} \<longleftrightarrow> unat x \<le> unat a \<and> unat a < unat x + unat w"
proof
  assume "a \<in> (\<lambda>i. x + of_nat i) ` {0..<unat w}"
  then obtain i where "i < unat w" "a = x + of_nat i" by auto
  with assms show "unat x \<le> unat a \<and> unat a < unat x + unat w" by (simp add: unat_add_offset)
next
  assume r: "unat x \<le> unat a \<and> unat a < unat x + unat w"
  have "a = x + of_nat (unat a - unat x)" using r by (simp add: of_nat_diff)
  then show "a \<in> (\<lambda>i. x + of_nat i) ` {0..<unat w}" by (rule image_eqI) (use r in auto)
qed

lemma set_rect_points:
  "unat x + unat w \<le> 2 ^ 64 \<Longrightarrow> unat y + unat h \<le> 2 ^ 64 \<Longrightarrow>
   (a, b) \<in> set (rect_points x y w h) \<longleftrightarrow>
     unat x \<le> unat a \<and> unat a < unat x + unat w \<and> unat y \<le> unat b \<and> unat b < unat y + unat h"
  by (simp only: rect_points_def set_grid set_map set_upt mem_Sigma_iff add_offset_iff conj_assoc)

text \<open>
  Drawing is confined and exact. On a framebuffer with at least three bytes per pixel whose
  rows fit the mapped memory, \<^verbatim>\<open>fill_rect\<close> changes no byte outside the framebuffer, gives
  the colour to exactly the screen pixels of the rectangle (clipped at the edges of the
  screen) and leaves every other pixel.
\<close>

theorem fill_rect_correct:
  assumes "fb_wf g" "unat x + unat w \<le> 2 ^ 64" "unat y + unat h \<le> 2 ^ 64"
  shows "(\<forall>a. \<not> a - g_buffer g < g_len g \<longrightarrow> fill_rect x y w h c g m a = m a) \<and>
    (\<forall>px py. px < width g \<and> py < height g \<longrightarrow> fb_pixel g (fill_rect x y w h c g m) (px, py) =
      (if unat x \<le> unat px \<and> unat px < unat x + unat w \<and> unat y \<le> unat py \<and> unat py < unat y + unat h
       then c else fb_pixel g m (px, py)))"
proof (intro conjI allI impI)
  fix a assume "\<not> a - g_buffer g < g_len g"
  moreover have "fb_outside g (fill_rect x y w h c g m) = fb_outside g m"
    using fb.paint_keeps [of "(g, m)" "map (\<lambda>p. (p, c)) (rect_points x y w h)"] assms(1)
    unfolding fill_rect_paint [symmetric] by simp
  ultimately show "fill_rect x y w h c g m a = m a" by (metis fb_outside_def)
next
  fix px py assume "px < width g \<and> py < height g"
  then show "fb_pixel g (fill_rect x y w h c g m) (px, py) =
      (if unat x \<le> unat px \<and> unat px < unat x + unat w \<and> unat y \<le> unat py \<and> unat py < unat y + unat h
       then c else fb_pixel g m (px, py))"
    using fb.paint_area [of "(g, m)" "(px, py)" c "rect_points x y w h"] assms
    unfolding fill_rect_paint [symmetric] by (simp add: on_screen_def set_rect_points)
qed

section \<open>The gradient\<close>

text \<open>The fixed-point blend stays between its two ends.\<close>

lemma blend_between:
  assumes "unat t \<le> 256"
  shows "min (unat a) (unat b) \<le> unat (blend t a b) \<and> unat (blend t a b) \<le> max (unat a) (unat b)"
proof -
  define x where "x = unat a"
  define y where "y = unat b"
  define k where "k = unat t"
  have xy: "x < 256" "y < 256" using unsigned_less [of a] unsigned_less [of b] by (simp_all add: x_def y_def)
  have k: "k \<le> 256" using assms by (simp add: k_def)
  have s: "unat (256 - t) = 256 - k" using assms by (simp add: unat_sub_if' k_def)
  have hi: "x * (256 - k) + y * k \<le> max x y * 256"
  proof -
    have "x * (256 - k) + y * k \<le> max x y * (256 - k) + max x y * k" by (intro add_mono mult_le_mono1) simp_all
    also have "\<dots> = max x y * 256" using k by (simp add: add_mult_distrib2 [symmetric])
    finally show ?thesis .
  qed
  have lo: "min x y * 256 \<le> x * (256 - k) + y * k"
  proof -
    have "min x y * 256 = min x y * (256 - k) + min x y * k" using k by (simp add: add_mult_distrib2 [symmetric])
    also have "\<dots> \<le> x * (256 - k) + y * k" by (intro add_mono mult_le_mono1) simp_all
    finally show ?thesis .
  qed
  have "max x y < 256" using xy by simp
  then have small: "x * (256 - k) + y * k < 65536" using hi by linarith
  have "unat (ucast a * (256 - t) + ucast b * t :: u32) = (x * (256 - k) + y * k) mod 2 ^ 32"
    by (simp add: unat_word_ariths s unat_ucast_up x_def y_def k_def mod_simps)
  then have u: "unat ((ucast a * (256 - t) + ucast b * t :: u32) div 256) = (x * (256 - k) + y * k) div 256"
    using small by (simp add: unat_div)
  have d: "(x * (256 - k) + y * k) div 256 \<le> max x y" "min x y \<le> (x * (256 - k) + y * k) div 256"
    using hi lo by (simp_all add: div_le_mono less_mult_imp_div_less flip: less_Suc_eq_le)
  have "(x * (256 - k) + y * k) div 256 < 256" using d(1) \<open>max x y < 256\<close> by (rule le_less_trans)
  then have "(x * (256 - k) + y * k) div 256 < 2 ^ 8" by simp
  then have "unat (blend t a b) = (x * (256 - k) + y * k) div 256"
    unfolding blend_def by (simp add: unsigned_ucast_eq u take_bit_nat_eq_self del: power_numeral)
  then show ?thesis using d by (simp add: x_def y_def)
qed

definition between :: "u8 \<Rightarrow> u8 \<Rightarrow> u8 \<Rightarrow> bool" where
  "between a b c \<longleftrightarrow> min (unat a) (unat b) \<le> unat c \<and> unat c \<le> max (unat a) (unat b)"

lemma gradient_color_between:
  assumes "y < h" "unat h < 2 ^ 24"
  shows "between (red t) (red b) (red (gradient_color t b h y)) \<and>
    between (green t) (green b) (green (gradient_color t b h y)) \<and>
    between (blue t) (blue b) (blue (gradient_color t b h y))"
proof -
  have y: "unat y < unat h" using assms(1) by (simp add: word_less_nat_alt)
  then have u: "unat (ucast y :: u32) = unat y" "unat (ucast h :: u32) = unat h"
    using assms(2) by (simp_all add: unsigned_ucast_eq take_bit_nat_eq_self)
  have "unat (ucast y * 256 :: u32) = unat y * 256"
    using u y assms(2) by (simp add: unat_word_ariths)
  then have "unat ((ucast y * 256 :: u32) div ucast h) = unat y * 256 div unat h" using u by (simp add: unat_div)
  moreover have "unat y * 256 div unat h \<le> 256"
    using y by (metis div_le_mono less_imp_le mult_le_mono1 nonzero_mult_div_cancel_left less_nat_zero_code neq0_conv)
  ultimately have "unat ((ucast y * 256 :: u32) div ucast h) \<le> 256" by simp
  from blend_between [OF this] show ?thesis by (simp add: gradient_color_def Let_def between_def)
qed

text \<open>
  The gradient. On a well-formed framebuffer of fewer than \<open>2 ^ 24\<close> rows,
  \<^verbatim>\<open>draw_gradient\<close> does not panic, changes no byte outside the framebuffer, and gives every
  pixel the colour computed for its row; the fixed-point arithmetic does not overflow, so each
  channel lies between its values at the two ends.
\<close>

theorem draw_gradient_correct:
  assumes "fb_wf g" "unat (height g) < 2 ^ 24"
  shows "\<exists>m'. draw_gradient t b g m = Some m' \<and> (\<forall>a. \<not> a - g_buffer g < g_len g \<longrightarrow> m' a = m a) \<and>
    (\<forall>x y. x < width g \<and> y < height g \<longrightarrow>
       (let c = fb_pixel g m' (x, y) in c = gradient_color t b (height g) y \<and>
          between (red t) (red b) (red c) \<and> between (green t) (green b) (green c) \<and> between (blue t) (blue b) (blue c)))"
proof (cases "height g = 0 \<or> width g = 0")
  case True
  then show ?thesis by (auto simp: draw_gradient_def)
next
  case False
  define ps where "ps = rect_points 0 0 (width g) (height g)"
  define col where "col p = gradient_color t b (height g) (snd p)" for p :: "u64 \<times> u64"
  define s' where "s' = fb.paint (map (\<lambda>p. (p, col p)) ps) (g, m)"
  have "unat (ucast (height g) :: u32) = unat (height g)"
    using assms(2) by (simp add: unsigned_ucast_eq take_bit_nat_eq_self)
  then have h: "ucast (height g) \<noteq> (0 :: u32)" using False by (metis unat_0 word_unat_eq_iff)
  have "draw_gradient t b g m = Some (fold (\<lambda>(x, y) m. draw_pixel x y (col (x, y)) g m) ps m)"
    using False h fold_nested [of "\<lambda>x y. draw_pixel (of_nat x) (of_nat y) (gradient_color t b (height g) (of_nat y)) g"
        "[0..<unat (width g)]" "[0..<unat (height g)]" m]
    unfolding draw_gradient_def ps_def rect_points_def grid_map
    by (simp add: fold_map comp_def case_prod_unfold col_def Let_def)
  then have d: "draw_gradient t b g m = Some (snd s')" "fst s' = g"
    using fold_draw_paint [of col g ps m] by (simp_all add: s'_def)
  have o: "fb_outside g (snd s') = fb_outside g m"
    using fb.paint_keeps [of "(g, m)" "map (\<lambda>p. (p, col p)) ps"] assms(1) d(2)
    by (auto simp: s'_def case_prod_unfold)
  have p: "fb_pixel g (snd s') (x, y) = gradient_color t b (height g) y" if "x < width g" "y < height g" for x y
  proof -
    have "(x, y) \<in> set ps" using that u64_bound [of "width g"] u64_bound [of "height g"]
      by (simp add: ps_def set_rect_points word_less_nat_alt)
    then have "map_of (rev (map (\<lambda>p. (p, col p)) ps)) (x, y) = Some (col (x, y))"
      by (simp add: rev_map map_of_map_restrict)
    then show ?thesis using fb.paint_pixel [of "(g, m)" "(x, y)" "map (\<lambda>p. (p, col p)) ps"] assms(1) that d(2)
      by (auto simp: on_screen_def s'_def case_prod_unfold col_def)
  qed
  have "snd s' a = m a" if "\<not> a - g_buffer g < g_len g" for a
    using that o by (metis fb_outside_def)
  then show ?thesis
    using d(1) p gradient_color_between [OF _ assms(2)] by (intro exI [of _ "snd s'"]) (auto simp: Let_def)
qed

definition demo_fb :: GraphicsState where
  "demo_fb = \<lparr>g_info = Some \<lparr>fi_width = 4, fi_height = 3, fi_stride = 5, fi_bpp = 4, fi_format = Bgr\<rparr>,
     g_buffer = 0x1000, g_len = 60\<rparr>"

theorem fill_rect_correct_witness:
  "fb_pixel demo_fb (fill_rect 1 1 9 1 \<lparr>red = 7, green = 8, blue = 9\<rparr> demo_fb (\<lambda>_. 0)) (3, 1) = \<lparr>red = 7, green = 8, blue = 9\<rparr>"
  using fill_rect_correct [of demo_fb 1 9 1 1 "\<lparr>red = 7, green = 8, blue = 9\<rparr>" "\<lambda>_. 0"]
  by (simp add: demo_fb_def fb_wf_def width_def height_def word_less_nat_alt)

theorem draw_gradient_correct_witness:
  "\<exists>m'. draw_gradient \<lparr>red = 0, green = 0, blue = 0\<rparr> \<lparr>red = 255, green = 255, blue = 255\<rparr> demo_fb (\<lambda>_. 0) = Some m' \<and>
     fb_pixel demo_fb m' (0, 1) = \<lparr>red = 84, green = 84, blue = 84\<rparr>"
proof -
  have "fb_wf demo_fb" "unat (height demo_fb) < 2 ^ 24" "0 < width demo_fb" "1 < height demo_fb"
    by (simp_all add: demo_fb_def fb_wf_def width_def height_def)
  moreover have "gradient_color \<lparr>red = 0, green = 0, blue = 0\<rparr> \<lparr>red = 255, green = 255, blue = 255\<rparr> (height demo_fb) 1 =
      \<lparr>red = 84, green = 84, blue = 84\<rparr>"
    by (simp add: gradient_color_def blend_def demo_fb_def height_def Let_def)
  ultimately show ?thesis
    using draw_gradient_correct [of demo_fb "\<lparr>red = 0, green = 0, blue = 0\<rparr>" "\<lparr>red = 255, green = 255, blue = 255\<rparr>" "\<lambda>_. 0"]
    by (auto simp: Let_def)
qed

end
