(* ===== verification/Boot.thy ===== *)
theory Boot
  imports Elf Graphics
begin

text \<open>
  The end of the boot sequence (\<^verbatim>\<open>kernel/src/lib.rs\<close>, \<^verbatim>\<open>kernel/src/boot_service.rs\<close>): the process slots of the
  window manager and the shell, the first user processes and the start of the scheduler, and the
  keyboard echo of \<^verbatim>\<open>kernel/src/shell_host.rs\<close>. Console messages are left out, and so is the
  initialisation of the USB controller between the two steps (theory \<open>Uhci\<close>), which writes to
  ports only.
\<close>

section \<open>The first processes\<close>

definition launch_system :: "machine \<Rightarrow> machine" where
  "launch_system mc =
     (let t1 = fst (alloc 0 (as_bytes ''wm'') (table mc)); t2 = fst (alloc 0 (as_bytes ''flutter_shell'') t1)
      in mc\<lparr>table := t2\<rparr>)"

type_synonym boot_state = "Vfs \<times> machine \<times> memory"

definition spawn_path :: "mapper \<Rightarrow> u64 \<Rightarrow> bytes \<Rightarrow> boot_state \<times> bool \<Rightarrow> boot_state \<times> bool" where
  "spawn_path map_to trampoline path = (\<lambda>(s, launched).
     case spawn_user_process_from_path map_to trampoline path s of
       (s', Inr _) \<Rightarrow> (s', True)
     | (s', Inl _) \<Rightarrow> (s', launched))"

text \<open>From the disk if there is one, else from the initial file system.\<close>

definition launch_users :: "mapper \<Rightarrow> u64 \<Rightarrow> bool \<Rightarrow> boot_state \<Rightarrow> boot_state \<times> bool" where
  "launch_users map_to trampoline disk s =
     (let r = (if disk then spawn_path map_to trampoline (as_bytes ''/disk/sysutils'')
                              (spawn_path map_to trampoline (as_bytes ''/disk/hello'') (s, False))
               else (s, False))
      in if snd r then r
         else spawn_path map_to trampoline (as_bytes ''/bin/sysutils'') (spawn_path map_to trampoline (as_bytes ''/bin/hello'') r))"

text \<open>The result says whether the scheduler runs; otherwise the kernel falls back to a built-in
  test program.\<close>

definition start_processes :: "mapper \<Rightarrow> u64 \<Rightarrow> bool \<Rightarrow> boot_state \<Rightarrow> boot_state \<times> bool" where
  "start_processes map_to trampoline disk s =
     (case s of (v, mc, m) \<Rightarrow>
        case launch_users map_to trampoline disk (v, launch_system mc, m) of
          ((v', mc', m'), launched) \<Rightarrow>
            if launched then ((v', start_scheduler mc', m'), True) else ((v', mc', m'), False))"

section \<open>Keyboard echo\<close>

abbreviation color :: "u8 \<Rightarrow> u8 \<Rightarrow> u8 \<Rightarrow> Color" where
  "color r g b \<equiv> \<lparr>red = r, green = g, blue = b\<rparr>"

definition palette :: "u8 \<Rightarrow> Color" where
  "palette h =
     (let k = h mod 6 in
      if k = 0 then color 0x1d 0x4e 0x89 else if k = 1 then color 0 0xff 0 else if k = 2 then color 0xff 0xbf 0
      else if k = 3 then color 0xff 0x69 0xb4 else if k = 4 then color 0x8a 0x2b 0xe2 else color 0xff 0xff 0xff)"

definition sat_sub64 :: "u64 \<Rightarrow> u64 \<Rightarrow> u64" where "sat_sub64 a b = (if b \<le> a then a - b else 0)"
definition sat_add64 :: "u64 \<Rightarrow> u64 \<Rightarrow> u64" where "sat_add64 a b = (if unat a + unat b < 2 ^ 64 then a + b else - 1)"

text \<open>The gradient panics (\<open>None\<close>) on a height that is a multiple of \<open>2 ^ 32\<close>.\<close>

definition draw_desktop :: "GraphicsState \<Rightarrow> (u64 \<Rightarrow> u8) \<Rightarrow> (u64 \<Rightarrow> u8) option" where
  "draw_desktop g m =
     (let w = width g; h = height g in
      if w = 0 \<or> h = 0 then Some m
      else case draw_gradient (color 0x0b 0x12 0x2a) (color 0x1a 0x1a 0x2a) g m of
        None \<Rightarrow> None
      | Some m1 \<Rightarrow>
          let m2 = fill_rect 0 0 w 30 (color 0x1d 0x4e 0x89) g m1;
              m3 = fill_rect 10 7 16 16 (color 0xff 0xff 0xff) g m2;
              wx = w div 4; wy = 64; ww = w div 2; wh = sat_sub64 h 96;
              m4 = fill_rect wx wy ww 28 (color 0x1e 0x29 0x3b) g m3;
              m5 = fill_rect wx (wy + 28) ww (sat_sub64 wh 28) (color 0x0f 0x17 0x24) g m4
          in Some (fill_rect 0 30 w 2 (color 0x1d 0x4e 0x89) g m5))"

record echo =
  ec_x :: u64
  ec_y :: u64
  ec_hue :: u8

definition echo_start :: echo where "echo_start = \<lparr>ec_x = 20, ec_y = 72, ec_hue = 0\<rparr>"

text \<open>The next position.\<close>

definition echo_advance :: "u64 \<Rightarrow> u64 \<Rightarrow> echo \<Rightarrow> echo" where
  "echo_advance w h e =
     (let cx = ec_x e + 16; hue = ec_hue e + 1 in
      if cx + 14 > sat_sub64 w 8 then
        let cy = sat_add64 (ec_y e) 24 in
        \<lparr>ec_x = 20, ec_y = (if cy + 20 > sat_sub64 h 40 then 72 else cy), ec_hue = hue\<rparr>
      else \<lparr>ec_x = cx, ec_y = ec_y e, ec_hue = hue\<rparr>)"

text \<open>One code from the keyboard: releases and prefixes are ignored, other keys give a block.\<close>

definition echo_key :: "GraphicsState \<Rightarrow> u8 \<Rightarrow> echo \<times> (u64 \<Rightarrow> u8) \<Rightarrow> echo \<times> (u64 \<Rightarrow> u8)" where
  "echo_key g scancode = (\<lambda>(e, m).
     if scancode \<ge> 0x80 \<or> scancode = 0xe0 \<or> scancode = 0xe1 then (e, m)
     else (echo_advance (width g) (height g) e, fill_rect (ec_x e) (ec_y e) 14 20 (palette (ec_hue e)) g m))"

section \<open>Properties of the first processes\<close>

definition ready_stacks :: "machine \<Rightarrow> bool" where
  "ready_stacks mc \<longleftrightarrow> pt_wf (table mc) \<and> length (stacks mc) = MAX_PROCESSES \<and>
     (\<forall>i < MAX_PROCESSES. state (processes (table mc) ! i) = Ready \<longrightarrow> initialised (stacks mc ! i)) \<and>
     current_pid (table mc) = 0 \<and> (\<forall>i < MAX_PROCESSES. state (processes (table mc) ! i) \<noteq> Running)"

definition keeps_procs :: "ProcessTable \<Rightarrow> ProcessTable \<Rightarrow> bool" where
  "keeps_procs t t' \<longleftrightarrow> (\<forall>k p. proc_map t k = Some p \<longrightarrow> proc_map t' k = Some p)"

lemma keeps_procs_trans: "keeps_procs a b \<Longrightarrow> keeps_procs b c \<Longrightarrow> keeps_procs a c"
  by (simp add: keeps_procs_def)

lemma alloc_ready:
  assumes r: "ready_stacks mc" and n: "next_pid (table mc) + 1 \<noteq> 0" and a: "alloc parent nm (table mc) = (t', k)"
  shows "ready_stacks (mc\<lparr>table := t'\<rparr>)" "keeps_procs (table mc) t'" "k \<noteq> 0 \<Longrightarrow> k = next_pid (table mc) \<and> next_pid t' = k + 1"
    "k \<noteq> 0 \<Longrightarrow> proc_map t' k = Some (new_process k parent nm)" "k = 0 \<Longrightarrow> t' = table mc"
    "k \<noteq> 0 \<Longrightarrow> proc_map (table mc) k = None"
proof -
  have w: "pt_wf (table mc)" using r by (simp add: ready_stacks_def)
  show z: "k = 0 \<Longrightarrow> t' = table mc" using alloc_zero [OF w] a by simp
  show "k \<noteq> 0 \<Longrightarrow> proc_map t' k = Some (new_process k parent nm)" using alloc_spec [OF w n a] by simp
  show k: "k \<noteq> 0 \<Longrightarrow> k = next_pid (table mc) \<and> next_pid t' = k + 1"
    using a by (auto simp: alloc_def Let_def split: option.splits)
  show f: "proc_map (table mc) k = None" if "k \<noteq> 0"
    using k [OF that] pt_wfD(4) [OF w] unfolding proc_map_None_iff [OF w] by (metis order_less_irrefl)
  show "keeps_procs (table mc) t'"
  proof (cases "k = 0")
    case False
    from f [OF this] show ?thesis using alloc_spec(3) [OF w n a False] by (auto simp: keeps_procs_def)
  qed (use z in \<open>simp add: keeps_procs_def\<close>)
  show "ready_stacks (mc\<lparr>table := t'\<rparr>)"
  proof (cases "k = 0")
    case False
    from a False obtain i where i: "i < MAX_PROCESSES" "t' = modify i (init_process k parent nm) (table mc\<lparr>next_pid := next_pid (table mc) + 1\<rparr>)"
      by (auto simp: alloc_def Let_def find_upt_Some_iff split: option.splits)
    have "state (processes t' ! j) = st \<Longrightarrow> st \<in> {Ready, Running} \<Longrightarrow> state (processes (table mc) ! j) = st"
      if "j < MAX_PROCESSES" for j st
      using i that pt_wfD(1) [OF w] by (auto simp: modify_nth split: if_splits)
    moreover have "current_pid t' = current_pid (table mc)" using i(2) by (simp add: modify_def)
    ultimately show ?thesis using r alloc_spec(2) [OF w n a False] unfolding ready_stacks_def by fastforce
  qed (use z r in simp)
qed

lemma spawn_ready:
  assumes r: "ready_stacks mc" and n: "next_pid (table mc) + 1 \<noteq> 0"
    and s: "spawn_user_process map_to trampoline d nm (mc, m) = ((mc', m'), res)"
  shows "ready_stacks mc' \<and> keeps_procs (table mc) (table mc') \<and> next_pid (table mc') \<in> {next_pid (table mc), next_pid (table mc) + 1} \<and>
    sched mc' = sched mc \<and> (\<forall>k. res = Inr k \<longrightarrow> (\<exists>p. proc_map (table mc') k = Some p \<and> state p = Ready \<and> parent_pid p = 0))"
proof -
  obtain m1 res1 where l: "load_elf_into_new_space map_to (c_cr3 (processor mc)) d m = (m1, res1)" by fastforce
  show ?thesis
  proof (cases res1)
    case (Inl e)
    then show ?thesis using s l r by (auto simp: spawn_user_process_def keeps_procs_def)
  next
    case (Inr x)
    obtain pml4 entry stack_ptr where x: "x = (pml4, entry, stack_ptr)" by (metis prod_cases3)
    obtain t1 k where a: "alloc 0 nm (table mc) = (t1, k)" by fastforce
    note al = alloc_ready [OF r n a]
    show ?thesis
    proof (cases "k = 0")
      case True
      then show ?thesis using s l Inr x a al(1,5) r by (auto simp: spawn_user_process_def keeps_procs_def)
    next
      case False
      let ?f = "\<lambda>p. p\<lparr>entry_point := entry, user_rsp := stack_ptr, cr3 := pml4, state := Ready\<rparr>"
      let ?t = "with_proc k ?f t1"
      have w: "pt_wf t1" using al(1) by (simp add: ready_stacks_def)
      have f: "proc_wf (?f p) \<and> pid (?f p) = k" if "proc_wf p" "pid p = k" for p using that False by (simp add: proc_wf_def)
      have m: "proc_map ?t = (proc_map t1)(k \<mapsto> ?f (new_process k 0 nm))"
        using with_proc_map [OF w False f] al(4) [OF False] by simp
      have wt: "pt_wf ?t" by (rule with_proc_wf [OF w False f])
      obtain i where i: "find_slot k ?t = Some i"
        using m by (cases "find_slot k ?t") (auto simp: find_slot_eq proc_map_def get_eq_get_mut fun_eq_iff split: if_splits dest: spec [of _ k])
      have i': "i < MAX_PROCESSES" "pid (processes ?t ! i) = k" using i get_mut_Some [OF wt False] by (auto simp: find_slot_eq)
      have e: "mc' = init_process_stack i trampoline (mc\<lparr>table := ?t\<rparr>)" "res = Inr k"
        using s l Inr x a False i by (simp_all add: spawn_user_process_def)
      have st: "stacks mc' ! j = (if j = i then stacks mc' ! i else stacks mc ! j)" "initialised (stacks mc' ! i)" for j
        using i'(1) r by (auto simp: e init_process_stack_def setup_initial_context_def Let_def ready_stacks_def)
      have t': "table mc' = ?t" "sched mc' = sched mc" "length (stacks mc') = length (stacks mc)"
        by (simp_all add: e init_process_stack_def setup_initial_context_def Let_def)
      have "initialised (stacks mc' ! j)" if j: "j < MAX_PROCESSES" "state (processes ?t ! j) = Ready" for j
      proof (cases "j = i")
        case False
        then have "pid (processes t1 ! j) \<noteq> k"
          using i' j(1) pt_wfD(5) [OF wt, of i j] with_proc_nth [OF w \<open>k \<noteq> 0\<close> j(1), of ?f] \<open>k \<noteq> 0\<close> by (auto split: if_splits)
        then have "state (processes t1 ! j) = Ready" using j(2) with_proc_nth [OF w \<open>k \<noteq> 0\<close> j(1), of ?f] by simp
        then show ?thesis using al(1) j(1) st(1) [of j] False by (simp add: ready_stacks_def)
      qed (use st(2) in simp)
      moreover have "state (processes ?t ! j) \<noteq> Running" if "j < MAX_PROCESSES" for j
        using al(1) with_proc_nth [OF w \<open>k \<noteq> 0\<close> that, of ?f] that by (auto simp: ready_stacks_def)
      moreover have "current_pid ?t = 0" using al(1) by (simp add: ready_stacks_def)
      ultimately have "ready_stacks mc'" using wt r t' by (simp add: ready_stacks_def)
      moreover have "keeps_procs (table mc) ?t"
        using al(2) m al(6) [OF False] by (auto simp: keeps_procs_def)
      moreover have "state (?f (new_process k 0 nm)) = Ready" "parent_pid (?f (new_process k 0 nm)) = 0"
        by (simp_all add: new_process_def init_process_def set_name_def Let_def)
      ultimately show ?thesis using t' e(2) m al(3) [OF False] by auto
    qed
  qed
qed

text \<open>What holds while the first processes are started, for a table that began as \<open>t0\<close>.\<close>

definition boot_inv :: "ProcessTable \<Rightarrow> Scheduler \<Rightarrow> nat \<Rightarrow> boot_state \<times> bool \<Rightarrow> bool" where
  "boot_inv t0 sc n = (\<lambda>((v, mc, m), launched). ready_stacks mc \<and> unat (next_pid (table mc)) \<le> n \<and> keeps_procs t0 (table mc) \<and>
     sched mc = sc \<and> (launched \<longrightarrow> (\<exists>k p. proc_map (table mc) k = Some p \<and> state p = Ready)))"

lemma small_next: "unat (x :: u32) \<le> n \<Longrightarrow> n < 100 \<Longrightarrow> x + 1 \<noteq> 0 \<and> unat (x + 1) \<le> n + 1"
proof -
  assume a: "unat x \<le> n" "n < 100"
  then have "unat (x + 1) = unat x + 1" by (subst unat_add_lem [THEN iffD1]) simp_all
  then show ?thesis using a by (metis add_le_mono1 add_eq_0_iff_both_eq_0 one_neq_zero unat_0)
qed

lemma spawn_path_inv:
  assumes "boot_inv t0 sc n s" "n < 100"
  shows "boot_inv t0 sc (n + 1) (spawn_path map_to trampoline path s)"
proof -
  obtain v mc m launched where s: "s = ((v, mc, m), launched)" by (metis prod_cases3 surj_pair)
  have i: "ready_stacks mc" "unat (next_pid (table mc)) \<le> n" "keeps_procs t0 (table mc)" "sched mc = sc"
    "launched \<Longrightarrow> \<exists>k p. proc_map (table mc) k = Some p \<and> state p = Ready" using assms(1) by (auto simp: boot_inv_def s)
  have same: "boot_inv t0 sc (n + 1) ((v', mc, m), launched)" for v' using i by (auto simp: boot_inv_def)
  obtain v' d where r: "read_all path v = (v', d)" by fastforce
  show ?thesis
  proof (cases d)
    case (Inl e)
    then show ?thesis using same by (simp add: spawn_path_def spawn_user_process_from_path_def s r)
  next
    case (Inr b)
    show ?thesis
    proof (cases "b = []")
      case True
      then show ?thesis using Inr same by (simp add: spawn_path_def spawn_user_process_from_path_def s r)
    next
      case False
      obtain mc' m' res where sp: "spawn_user_process map_to trampoline b (last_component path) (mc, m) = ((mc', m'), res)"
        by (metis surj_pair)
      note nx = small_next [OF i(2) assms(2)]
      note k = spawn_ready [OF i(1) nx [THEN conjunct1] sp]
      have "unat (next_pid (table mc')) \<le> n + 1" using k i(2) nx by auto
      moreover have "keeps_procs t0 (table mc')" using k i(3) keeps_procs_trans by blast
      moreover have "\<exists>k p. proc_map (table mc') k = Some p \<and> state p = Ready" if "launched \<or> (\<exists>k. res = Inr k)"
        using that i(5) k unfolding keeps_procs_def by blast
      ultimately show ?thesis using k i(4) False
        by (cases res) (auto simp: boot_inv_def spawn_path_def spawn_user_process_from_path_def s r Inr sp)
    qed
  qed
qed

lemma first_processes:
  assumes "table mc = pt_new" "length (stacks mc) = MAX_PROCESSES"
    and "launch_users map_to trampoline disk (v, launch_system mc, m) = ((v', mc', m'), launched)"
  shows "ready_stacks mc' \<and> proc_map (table mc') 1 = Some (new_process 1 0 (as_bytes ''wm'')) \<and>
    proc_map (table mc') 2 = Some (new_process 2 0 (as_bytes ''flutter_shell'')) \<and>
    sched mc' = sched mc \<and> (launched \<longrightarrow> (\<exists>k p. proc_map (table mc') k = Some p \<and> state p = Ready))"
proof -
  have r0: "ready_stacks mc" using assms(1,2) pt_new_wf by (simp add: ready_stacks_def pt_new_def)
  obtain t1 k1 where a1: "alloc 0 (as_bytes ''wm'') pt_new = (t1, k1)" by fastforce
  have k1: "k1 = 1" "next_pid t1 = 2" using a1 by (auto simp: alloc_def pt_new_def MAX_PROCESSES_def upt_rec Let_def)
  note al1 = alloc_ready [OF r0, of 0 "as_bytes ''wm''" t1 k1, unfolded assms(1)]
  have r1: "ready_stacks (mc\<lparr>table := t1\<rparr>)" "proc_map t1 1 = Some (new_process 1 0 (as_bytes ''wm''))"
    using al1(1,4) a1 k1 by (simp_all add: pt_new_def)
  obtain t2 k2 where a2: "alloc 0 (as_bytes ''flutter_shell'') t1 = (t2, k2)" by fastforce
  have "pid (processes t1 ! 1) = 0" using a1 by (auto simp: alloc_def pt_new_def MAX_PROCESSES_def upt_rec Let_def modify_def)
  then have nz: "k2 \<noteq> 0" using alloc_eq_zero_iff [of t1 0 "as_bytes ''flutter_shell''"] a2 r1(1) by (auto simp: ready_stacks_def MAX_PROCESSES_def)
  note al2 = alloc_ready [OF r1(1), of 0 "as_bytes ''flutter_shell''" t2 k2]
  have r2: "ready_stacks (mc\<lparr>table := t2\<rparr>)" "k2 = 2" "next_pid t2 = 3" "keeps_procs t1 t2" "proc_map t2 2 = Some (new_process 2 0 (as_bytes ''flutter_shell''))"
    using al2(1,2,3,4) a2 k1 nz by simp_all
  have t2: "proc_map t2 1 = Some (new_process 1 0 (as_bytes ''wm''))" using r2(4) r1(2) by (simp add: keeps_procs_def)
  have ls: "launch_system mc = mc\<lparr>table := t2\<rparr>" by (simp add: launch_system_def assms(1) a1 a2)
  let ?s = "(v, launch_system mc, m)"
  have i: "boot_inv t2 (sched mc) 3 (?s, False)" using r2 by (simp add: boot_inv_def ls keeps_procs_def)
  have up: "boot_inv t0 sc n x \<Longrightarrow> boot_inv t0 sc (n + 2) x" for t0 sc n x by (auto simp: boot_inv_def)
  note two = spawn_path_inv [OF spawn_path_inv]
  have "boot_inv t2 (sched mc) 7 (launch_users map_to trampoline disk ?s)"
    using two [OF i] two [OF two [OF i]] up [OF two [OF i]] up [OF up [OF i]] up [OF i]
    by (auto simp: launch_users_def Let_def)
  then show ?thesis using assms(3) r2(5) t2
    by (auto simp: boot_inv_def keeps_procs_def)
qed

text \<open>
  The first processes. Whatever is on the disk and in the initial file system, after the boot
  sequence process 1 is the slot of the window manager and process 2 that of the shell, both blocked;
  every ready process has a prepared kernel stack, so the scheduler can switch to it; and the
  scheduler is started only when there is a ready process.\<close>

theorem boot_processes:
  assumes "table mc = pt_new" "length (stacks mc) = MAX_PROCESSES"
    and "start_processes map_to trampoline disk (v, mc, m) = ((v', mc', m'), launched)"
  shows "ready_stacks mc' \<and> proc_map (table mc') 1 = Some (new_process 1 0 (as_bytes ''wm'')) \<and>
    proc_map (table mc') 2 = Some (new_process 2 0 (as_bytes ''flutter_shell'')) \<and>
    (if launched then active (sched mc') \<and> (\<exists>k p. proc_map (table mc') k = Some p \<and> state p = Ready) else sched mc' = sched mc)"
proof -
  obtain v1 mc1 m1 l where l: "launch_users map_to trampoline disk (v, launch_system mc, m) = ((v1, mc1, m1), l)" by (metis prod_cases3 surj_pair)
  from first_processes [OF assms(1,2) l] assms(3) l show ?thesis
    by (auto simp: start_processes_def start_scheduler_def ready_stacks_def split: if_splits) blast
qed

text \<open>Without any file system.\<close>

theorem boot_processes_witness:
  "\<exists>v' mc' m' launched.
     start_processes (\<lambda>_ _ _ _ m. (m, False)) 0 False (\<lparr>mounts = [], devices = \<lparr>dv_disk = blank_disk, dv_keys = sb_new, dv_serial = [], dv_fb = None\<rparr>\<rparr>,
       demo_machine\<lparr>table := pt_new\<rparr>, demo_memory) = ((v', mc', m'), launched) \<and>
     proc_map (table mc') 1 = Some (new_process 1 0 (as_bytes ''wm'')) \<and> state (new_process 1 0 (as_bytes ''wm'')) = Blocked"
  (is "\<exists>v' mc' m' launched. ?r = _ \<and> _")
proof -
  obtain v' mc' m' launched where r: "?r = ((v', mc', m'), launched)" by (metis prod_cases3 surj_pair)
  have "length (stacks (demo_machine\<lparr>table := pt_new\<rparr>)) = MAX_PROCESSES" by (simp add: demo_machine_def MAX_PROCESSES_def)
  from boot_processes [OF _ this r] show ?thesis using r by (simp add: new_process_def)
qed

section \<open>Properties of the echo\<close>

text \<open>
  The blocks of the keyboard echo stay in the free area of the screen, whatever is typed.\<close>

definition echo_inside :: "u64 \<Rightarrow> u64 \<Rightarrow> echo \<Rightarrow> bool" where
  "echo_inside w h e \<longleftrightarrow> unat (ec_x e) + 14 + 8 \<le> unat w \<and> unat (ec_y e) + 20 + 40 \<le> unat h"

lemma echo_advance_inside:
  assumes "echo_inside w h e" "42 \<le> unat w" "132 \<le> unat h" "unat w < 2 ^ 63" "unat h < 2 ^ 63"
  shows "echo_inside w h (echo_advance w h e)"
proof -
  have x: "unat (ec_x e + 16) = unat (ec_x e) + 16" "unat (ec_x e + 16 + 14) = unat (ec_x e) + 30"
    using assms unat_add_offset [of "ec_x e" 16] unat_add_offset [of "ec_x e" 30] by (simp_all add: echo_inside_def add.assoc)
  have y: "sat_add64 (ec_y e) 24 = ec_y e + 24" "unat (ec_y e + 24) = unat (ec_y e) + 24" "unat (ec_y e + 24 + 20) = unat (ec_y e) + 44"
    using assms unat_add_offset [of "ec_y e" 24] unat_add_offset [of "ec_y e" 44] by (simp_all add: echo_inside_def add.assoc sat_add64_def)
  have s: "unat (sat_sub64 w 8) = unat w - 8" "unat (sat_sub64 h 40) = unat h - 40"
    using assms(2,3) by (simp_all add: sat_sub64_def word_le_nat_alt unat_sub)
  show ?thesis using assms x y s by (auto simp: echo_inside_def echo_advance_def Let_def word_less_nat_alt)
qed

end
