(* ===== verification/Boot_Files.thy ===== *)
theory Boot_Files
  imports User_Programs Boot
begin

text \<open>
  The file systems after boot: the calls of \<^verbatim>\<open>kernel_main\<close> (\<^verbatim>\<open>kernel/src/lib.rs\<close>) that mount and fill them,
  over the disk image of the build script. The properties: every program is found under its path,
  in the initial file system and on the disk, and starting a program from the disk starts the
  bytes that the build script put there.
\<close>

section \<open>Mounting\<close>

definition mount_file_systems :: "bytes \<Rightarrow> devices \<Rightarrow> Vfs" where
  "mount_file_systems sysutils dv =
     devfs_init (fst (fat32_init (initramfs_init (initramfs_contents sysutils) (tmpfs_init \<lparr>mounts = [], devices = dv\<rparr>))))"

section \<open>The initial file system\<close>

abbreviation regular :: "bytes \<Rightarrow> TmpfsInode" where
  "regular b \<equiv> \<lparr>ino_type = Regular, data = b, children = []\<rparr>"

abbreviation directory :: "(string \<times> u64) list \<Rightarrow> TmpfsInode" where
  "directory es \<equiv> \<lparr>ino_type = Directory, data = [], children = map (\<lambda>(nm, i). (as_bytes nm, i)) es\<rparr>"

definition initramfs_tree :: "bytes \<Rightarrow> bytes \<Rightarrow> bytes \<Rightarrow> bytes \<Rightarrow> Tmpfs" where
  "initramfs_tree hello forktest sysutils readme =
     \<lparr>inodes = [1 \<mapsto> directory [(''README'', 6), (''bin'', 2)],
                2 \<mapsto> directory [(''forktest'', 4), (''hello'', 3), (''sysutils'', 5)],
                3 \<mapsto> regular hello, 4 \<mapsto> regular forktest, 5 \<mapsto> regular sysutils, 6 \<mapsto> regular readme],
      next_inode = 7, tm_root = 1\<rparr>"

abbreviation root_vfs :: "Tmpfs \<Rightarrow> devices \<Rightarrow> Vfs" where
  "root_vfs t dv \<equiv> \<lparr>mounts = [\<lparr>mount_point = [0x2F], mount_root = 1, ops = FsTmpfs t\<rparr>], devices = dv\<rparr>"

lemma tmpfs_init_empty: "tmpfs_init \<lparr>mounts = [], devices = dv\<rparr> = root_vfs tmpfs_new dv"
  by (simp add: tmpfs_init_def vfs_mount_def root_inode_def)

lemma mount_root_vfs: "find_mount (0x2F # p) (root_vfs t dv) = Some (0, if p = [] then [] else p)"
  by (simp add: find_mount_def mount_matches_def mount_relative_def starts_with_def)

lemma create_in_root:
  assumes "split_parent_name (0x2F # p) = (parent, nm)" "resolve parent (root_vfs t dv) = (root_vfs t dv, Inr (0, dir))"
    and "tm_create dir nm t = (t1, Inr i)" "tm_write i 0 b t1 = (t2, Inr n)"
  shows "create_file_with_data (0x2F # p) b (root_vfs t dv) = (root_vfs t2 dv, Inr ())"
  using assms
  by (simp add: create_file_with_data_def mount_root_vfs on_mount_def dyn_ops_def dispatch_def tmpfs_ops_def)

lemma mkdir_in_root:
  assumes "split_parent_name (0x2F # p) = (parent, nm)" "resolve parent (root_vfs t dv) = (root_vfs t dv, Inr (0, dir))"
    and "tm_mkdir dir nm t = (t1, Inr i)"
  shows "vfs_mkdir (0x2F # p) (root_vfs t dv) = (root_vfs t1 dv, Inr ())"
  using assms
  by (simp add: vfs_mkdir_def mount_root_vfs on_mount_def dyn_ops_def dispatch_def tmpfs_ops_def)

lemma resolve_slash: "resolve [0x2F] (root_vfs t dv) = (root_vfs t dv, Inr (0, 1))"
  by (simp add: resolve_def mount_root_vfs)

lemma resolve_bin:
  assumes "inodes t 1 = Some d" "ino_type d = Directory" "map_of (children d) (as_bytes ''bin'') = Some 2"
  shows "resolve (as_bytes ''/bin'') (root_vfs t dv) = (root_vfs t dv, Inr (0, 2))"
proof -
  have "as_bytes ''/bin'' = 0x2F # as_bytes ''bin''" "as_bytes ''bin'' \<noteq> []" "as_bytes ''bin'' \<noteq> [0x2F]"
    "components (as_bytes ''bin'') = [as_bytes ''bin'']" by code_simp+
  then show ?thesis using assms
    by (simp add: resolve_def mount_root_vfs on_mount_def at_mount_def dyn_ops_def dispatch_def observe_def tmpfs_ops_def
        tm_file_type_def tm_lookup_def)
qed

text \<open>Writing into a new file.\<close>

lemma write_new_file:
  assumes "inodes t i = Some (regular [])" "length b < 2 ^ 64"
  shows "tm_write i 0 b t = (t\<lparr>inodes := (inodes t)(i \<mapsto> regular b)\<rparr>, Inr (length b))"
  using assms by (cases "b = []") (simp_all add: tm_write_def resize_def splice_def)

lemma parents:
  "split_parent_name (as_bytes ''/bin'') = ([0x2F], as_bytes ''bin'')"
  "split_parent_name (as_bytes ''/bin/hello'') = (as_bytes ''/bin'', as_bytes ''hello'')"
  "split_parent_name (as_bytes ''/bin/forktest'') = (as_bytes ''/bin'', as_bytes ''forktest'')"
  "split_parent_name (as_bytes ''/bin/sysutils'') = (as_bytes ''/bin'', as_bytes ''sysutils'')"
  "split_parent_name (as_bytes ''/README'') = ([0x2F], as_bytes ''README'')"
  by code_simp+

lemma slash_string: "as_bytes (CHR ''/'' # p) = 0x2F # as_bytes p"
  by (simp add: as_bytes_def)

text \<open>One file of the initial file system: it gets the next inode and a place in its directory.\<close>

lemma create_file_step:
  assumes "split_parent_name (0x2F # p) = (parent, nm)" "resolve parent (root_vfs t dv) = (root_vfs t dv, Inr (0, dir))"
    and "inodes t dir = Some d" "ino_type d = Directory" "map_of (children d) nm = None" "dir \<noteq> next_inode t" "length b < 2 ^ 64"
  shows "create_file_with_data (0x2F # p) b (root_vfs t dv) =
    (root_vfs (t\<lparr>next_inode := next_inode t + 1,
       inodes := (inodes t)(next_inode t \<mapsto> regular b, dir \<mapsto> d\<lparr>children := bt_insert nm (next_inode t) (children d)\<rparr>)\<rparr>) dv, Inr ())"
proof -
  let ?t1 = "t\<lparr>next_inode := next_inode t + 1,
    inodes := (inodes t)(next_inode t \<mapsto> regular [], dir \<mapsto> d\<lparr>children := bt_insert nm (next_inode t) (children d)\<rparr>)\<rparr>"
  have "tm_create dir nm t = (?t1, Inr (next_inode t))"
    using assms(3-6) by (simp add: tm_create_def add_child_def Let_def)
  from create_in_root [OF assms(1,2) this write_new_file [OF _ assms(7)]] show ?thesis
    using assms(6) by (simp add: fun_upd_twist)
qed

lemma name_order:
  "as_bytes ''forktest'' < as_bytes ''hello''" "as_bytes ''hello'' < as_bytes ''sysutils''" "as_bytes ''forktest'' < as_bytes ''sysutils''"
  "as_bytes ''README'' < as_bytes ''bin''"
  by code_simp+

lemmas names_differ = name_order [THEN less_imp_neq] name_order [THEN less_imp_neq, symmetric] name_order [THEN order_less_not_sym]

lemma initramfs_built:
  assumes "length hello < 2 ^ 64" "length forktest < 2 ^ 64" "length sysutils < 2 ^ 64" "length readme < 2 ^ 64"
  shows "initramfs_init (initramfs_files hello forktest sysutils readme) (root_vfs tmpfs_new dv) =
    root_vfs (initramfs_tree hello forktest sysutils readme) dv"
proof -
  define t1 where "t1 = \<lparr>inodes = [1 \<mapsto> directory [(''bin'', 2)], 2 \<mapsto> directory []], next_inode = 3, tm_root = 1\<rparr>"
  define t2 where "t2 = \<lparr>inodes = [1 \<mapsto> directory [(''bin'', 2)], 2 \<mapsto> directory [(''hello'', 3)], 3 \<mapsto> regular hello], next_inode = 4, tm_root = 1\<rparr>"
  define t3 where "t3 = \<lparr>inodes = [1 \<mapsto> directory [(''bin'', 2)], 2 \<mapsto> directory [(''forktest'', 4), (''hello'', 3)],
    3 \<mapsto> regular hello, 4 \<mapsto> regular forktest], next_inode = 5, tm_root = 1\<rparr>"
  define t4 where "t4 = \<lparr>inodes = [1 \<mapsto> directory [(''bin'', 2)], 2 \<mapsto> directory [(''forktest'', 4), (''hello'', 3), (''sysutils'', 5)],
    3 \<mapsto> regular hello, 4 \<mapsto> regular forktest, 5 \<mapsto> regular sysutils], next_inode = 6, tm_root = 1\<rparr>"
  note p = parents [unfolded slash_string [of "''bin''"] slash_string [of "''bin/hello''"] slash_string [of "''bin/forktest''"]
    slash_string [of "''bin/sysutils''"] slash_string [of "''README''"]]
  note small = assms [simplified]
  note bin = resolve_bin [unfolded slash_string [of "''bin''"]]
  have "tm_mkdir 1 (as_bytes ''bin'') tmpfs_new = (t1, Inr 2)"
    by (simp add: tm_mkdir_def add_child_def tmpfs_new_def t1_def Let_def fun_upd_twist)
  from mkdir_in_root [OF p(1) resolve_slash this] have s1: "vfs_mkdir (0x2F # as_bytes ''bin'') (root_vfs tmpfs_new dv) = (root_vfs t1 dv, Inr ())" .
  have "create_file_with_data (0x2F # as_bytes ''bin/hello'') hello (root_vfs t1 dv) = (root_vfs t2 dv, Inr ())"
    by (subst create_file_step [OF p(2) bin]) (auto simp: t1_def t2_def small fun_eq_iff)
  moreover have "create_file_with_data (0x2F # as_bytes ''bin/forktest'') forktest (root_vfs t2 dv) = (root_vfs t3 dv, Inr ())"
    by (subst create_file_step [OF p(3) bin]) (auto simp: t2_def t3_def small names_differ name_order fun_eq_iff)
  moreover have "create_file_with_data (0x2F # as_bytes ''bin/sysutils'') sysutils (root_vfs t3 dv) = (root_vfs t4 dv, Inr ())"
    by (subst create_file_step [OF p(4) bin]) (auto simp: t3_def t4_def small names_differ name_order fun_eq_iff)
  moreover have "create_file_with_data (0x2F # as_bytes ''README'') readme (root_vfs t4 dv) =
      (root_vfs (initramfs_tree hello forktest sysutils readme) dv, Inr ())"
    by (subst create_file_step [OF p(5) resolve_slash]) (auto simp: t4_def initramfs_tree_def small names_differ name_order fun_eq_iff)
  ultimately show ?thesis using s1 by (simp add: initramfs_init_def initramfs_files_def slash_string)
qed

section \<open>Reading by path\<close>

definition boot_vfs :: "Fat32Inner \<Rightarrow> Tmpfs \<Rightarrow> devices \<Rightarrow> Vfs" where
  "boot_vfs v t dv =
     \<lparr>mounts = [\<lparr>mount_point = as_bytes ''/disk'', mount_root = 1, ops = FsFat v\<rparr>,
                \<lparr>mount_point = as_bytes ''/dev'', mount_root = DIR_INODE, ops = FsDevfs\<rparr>,
                \<lparr>mount_point = [0x2F], mount_root = 1, ops = FsTmpfs t\<rparr>], devices = dv\<rparr>"

lemma file_systems_mounted:
  assumes "fat_init (dv_disk dv) = Some v" "length sysutils < 2 ^ 64"
  shows "mount_file_systems sysutils dv = boot_vfs v (initramfs_tree HELLO_ELF FORKTEST_ELF sysutils initramfs_README) dv"
proof -
  have "initramfs_HELLO = HELLO_ELF" "initramfs_FORKTEST = FORKTEST_ELF" "length initramfs_README = 245"
    by (simp_all only: initramfs_HELLO_def HELLO_ELF_def initramfs_FORKTEST_def FORKTEST_ELF_def) (simp add: initramfs_README_def)
  then show ?thesis
    using assms initramfs_built [of HELLO_ELF FORKTEST_ELF sysutils initramfs_README dv] small_files
    by (simp add: mount_file_systems_def tmpfs_init_empty initramfs_contents_def fat32_init_def devfs_init_def vfs_mount_def boot_vfs_def)
qed

lemma boot_paths:
  "find_mount (slash_path [as_bytes ''bin'', as_bytes ''hello'']) (boot_vfs v t dv) = Some (2, as_bytes ''bin/hello'')"
  "find_mount (slash_path [as_bytes ''bin'', as_bytes ''forktest'']) (boot_vfs v t dv) = Some (2, as_bytes ''bin/forktest'')"
  "find_mount (slash_path [as_bytes ''bin'', as_bytes ''sysutils'']) (boot_vfs v t dv) = Some (2, as_bytes ''bin/sysutils'')"
  "find_mount (slash_path [as_bytes ''README'']) (boot_vfs v t dv) = Some (2, as_bytes ''README'')"
  by code_simp+

lemma boot_names: "good_name (as_bytes ''bin'')" "good_name (as_bytes ''hello'')" "good_name (as_bytes ''forktest'')"
  "good_name (as_bytes ''sysutils'')" "good_name (as_bytes ''README'')" "good_name (as_bytes ''readme'')"
  by (simp_all add: good_name_def as_bytes_def of_char_def)

lemma root_boot: "root_at (boot_vfs v t dv) 2 t"
  by (simp add: root_at_def boot_vfs_def)

text \<open>A file of the disk, by its path.\<close>

lemma fat_lookup_dir: "fat_lookup i nm (v, d) = (vd, Inr j) \<Longrightarrow> fat_file_type i (v, d) = Directory"
  by (auto simp: fat_lookup_def fat_file_type_def split: option.splits if_splits)

lemma disk_file_mount:
  assumes "good_name nm"
  shows "find_mount (as_bytes ''/disk'' @ 0x2F # nm) (boot_vfs v t dv) = Some (0, 0x2F # nm)"
    "components (0x2F # nm) = [nm]"
proof -
  have "take 6 (as_bytes ''/disk'' @ 0x2F # nm) = as_bytes ''/disk'' @ [0x2F]" by (simp add: as_bytes_def)
  then have "mount_matches (as_bytes ''/disk'') (as_bytes ''/disk'' @ 0x2F # nm)"
    by (simp add: mount_matches_def starts_with_def)
  moreover have "mount_relative (as_bytes ''/disk'') (as_bytes ''/disk'' @ 0x2F # nm) = 0x2F # nm"
    by (simp add: mount_relative_def)
  ultimately show "find_mount (as_bytes ''/disk'' @ 0x2F # nm) (boot_vfs v t dv) = Some (0, 0x2F # nm)"
    by (simp add: find_mount_def boot_vfs_def upt_conv_Cons)
  show "components (0x2F # nm) = [nm]"
    using components_names [of "[nm]"] assms by (simp add: slash_path_def components_def trim_matches_def)
qed

lemma read_all_disk:
  assumes "holds_file v (dv_disk dv) nm content" "good_name (as_bytes nm)" "length content < 2 ^ 64"
  shows "\<exists>v'. read_all (as_bytes ''/disk'' @ 0x2F # as_bytes nm) (boot_vfs v t dv) = (boot_vfs v' t dv, Inr content)"
proof -
  let ?d = "dv_disk dv"
  obtain v' i where h: "fat_lookup 1 (as_bytes nm) (v, ?d) = ((v', ?d), Inr i)" "fat_size i (v', ?d) = of_nat (length content)"
    "fat_read i 0 (length content) (v', ?d) = ((v', ?d), Inr content)"
    using assms(1) by (auto simp: holds_file_def)
  have on: "on_mount 0 (fo_lookup dyn_ops 1 (as_bytes nm)) (boot_vfs v t dv) = (boot_vfs v' t dv, Inr i)"
    "at_mount 0 (fo_file_type dyn_ops 1) (boot_vfs v t dv) = Directory"
    "at_mount 0 (fo_size dyn_ops i) (boot_vfs v' t dv) = of_nat (length content)"
    "on_mount 0 (fo_read dyn_ops i 0 (length content)) (boot_vfs v' t dv) = (boot_vfs v' t dv, Inr content)"
    using h fat_lookup_dir [OF h(1)]
    by (simp_all add: on_mount_def at_mount_def dyn_ops_def dispatch_def observe_def fat_ops_def boot_vfs_def)
  have "resolve (as_bytes ''/disk'' @ 0x2F # as_bytes nm) (boot_vfs v t dv) = (boot_vfs v' t dv, Inr (0, i))"
    using disk_file_mount [OF assms(2)] on(1,2) assms(2) by (simp add: resolve_def good_name_def boot_vfs_def)
  moreover have "read_rest (length content) \<lparr>vf_inode = i, vf_mount = 0, vf_offset = 0, vf_type = x\<rparr> (boot_vfs v' t dv) =
      (boot_vfs v' t dv, Inr content)" for x
    using on(4) by (subst read_rest.simps) (simp add: vfs_read_def read_rest.simps [of 0])
  moreover have "unat (of_nat (length content) :: u64) = length content" using assms(3) by (intro of_nat_inverse [OF refl]) simp
  ultimately show ?thesis using on(3)
    by (intro exI [of _ v']) (simp add: read_all_def vfs_open_def opened_def vfs_size_def)
qed

lemma initramfs_tree_files:
  fixes hello forktest sysutils readme :: bytes
  defines "t \<equiv> initramfs_tree hello forktest sysutils readme"
  shows "tm_wf t" "file_at t [as_bytes ''bin'', as_bytes ''hello''] = Some hello"
    "file_at t [as_bytes ''bin'', as_bytes ''forktest''] = Some forktest"
    "file_at t [as_bytes ''bin'', as_bytes ''sysutils''] = Some sysutils" "file_at t [as_bytes ''README''] = Some readme"
proof -
  show "tm_wf t" by (auto simp: t_def tm_wf_def initramfs_tree_def bt_wf_def name_order split: if_splits)
  show "file_at t [as_bytes ''bin'', as_bytes ''hello''] = Some hello" "file_at t [as_bytes ''bin'', as_bytes ''forktest''] = Some forktest"
    "file_at t [as_bytes ''bin'', as_bytes ''sysutils''] = Some sysutils" "file_at t [as_bytes ''README''] = Some readme"
    by (simp_all add: t_def file_at_def tm_names_def tm_contents_def initramfs_tree_def names_differ)
qed

lemma files_after_boot:
  assumes "512 \<le> length boot" "length boot mod 512 = 0" "boot ! 510 = 0x55" "boot ! 511 = 0xAA"
    and "boot ! 498 \<noteq> 0x0C" "boot ! 498 \<noteq> 0x0B" "length boot div 512 + 16410 \<le> 2 ^ 28"
    and "sysutils \<noteq> []" "length sysutils \<le> 512 * 16096"
    and "append_partition sysutils boot = Some img" "dv_disk dv = drive_of img"
  defines "s \<equiv> mount_file_systems sysutils dv"
  shows "read_all (slash_path [as_bytes ''bin'', as_bytes ''hello'']) s = (s, Inr HELLO_ELF) \<and>
    read_all (slash_path [as_bytes ''bin'', as_bytes ''forktest'']) s = (s, Inr FORKTEST_ELF) \<and>
    read_all (slash_path [as_bytes ''bin'', as_bytes ''sysutils'']) s = (s, Inr sysutils) \<and>
    read_all (slash_path [as_bytes ''README'']) s = (s, Inr initramfs_README) \<and>
    (\<exists>s'. read_all (as_bytes ''/disk/hello'') s = (s', Inr HELLO_ELF) \<and>
       spawn_user_process_from_path map_to trampoline (as_bytes ''/disk/hello'') (s, mc, m) =
         (case spawn_user_process map_to trampoline HELLO_ELF (as_bytes ''hello'') (mc, m) of
            ((mc', m'), r) \<Rightarrow> ((s', mc', m'), map_sum id ucast r))) \<and>
    (\<exists>s'. read_all (as_bytes ''/disk/forktest'') s = (s', Inr FORKTEST_ELF)) \<and>
    (\<exists>s'. read_all (as_bytes ''/disk/sysutils'') s = (s', Inr sysutils)) \<and>
    (\<exists>s'. read_all (as_bytes ''/disk/readme'') s = (s', Inr README_TEXT))"
proof -
  from built_disk [OF assms(1-9)] assms(10) obtain v where
    v: "fat_init (dv_disk dv) = Some v" "holds_file v (dv_disk dv) ''hello'' HELLO_ELF" "holds_file v (dv_disk dv) ''forktest'' FORKTEST_ELF"
      "holds_file v (dv_disk dv) ''sysutils'' sysutils" "holds_file v (dv_disk dv) ''readme'' README_TEXT"
    unfolding assms(11) by auto
  define t where "t = initramfs_tree HELLO_ELF FORKTEST_ELF sysutils initramfs_README"
  have n: "length sysutils < 2 ^ 64" "length initramfs_README = 245" using assms(9) by (simp_all add: initramfs_README_def)
  have s: "s = boot_vfs v t dv" using file_systems_mounted [OF v(1) n(1)] by (simp add: s_def t_def)
  note files = initramfs_tree_files [of HELLO_ELF FORKTEST_ELF sysutils initramfs_README, folded t_def]
  have disk: "\<exists>v'. read_all (as_bytes ''/disk'' @ 0x2F # as_bytes nm) s = (boot_vfs v' t dv, Inr c)"
    if "holds_file v (dv_disk dv) nm c" "good_name (as_bytes nm)" "length c < 2 ^ 64" for nm c
    unfolding s by (rule read_all_disk [OF that])
  have p: "as_bytes ''/disk'' @ 0x2F # as_bytes nm = as_bytes (''/disk/'' @ nm)" for nm by (simp add: as_bytes_def)
  have bin: "read_all (slash_path cs) s = (s, Inr c)"
    if "find_mount (slash_path cs) (boot_vfs v t dv) = Some (2, rel)" "\<forall>c \<in> set cs. good_name c" "file_at t cs = Some c" "length c < 2 ^ 64" for cs rel c
    unfolding s by (rule read_all_tmpfs [OF root_boot files(1) that])
  obtain s' where h: "read_all (as_bytes ''/disk/hello'') s = (s', Inr HELLO_ELF)"
    using disk [OF v(2)] p [of "''hello''"] by (auto simp: boot_names small_files)
  have "last_component (as_bytes ''/disk/hello'') = as_bytes ''hello''" "HELLO_ELF \<noteq> []" by code_simp (simp add: HELLO_ELF_def)
  then have "spawn_user_process_from_path map_to trampoline (as_bytes ''/disk/hello'') (s, mc, m) =
         (case spawn_user_process map_to trampoline HELLO_ELF (as_bytes ''hello'') (mc, m) of
            ((mc', m'), r) \<Rightarrow> ((s', mc', m'), map_sum id ucast r))"
    using h by (simp add: spawn_user_process_from_path_def split: prod.split sum.split)
  with h show ?thesis
    using bin [OF boot_paths(1) _ files(2)] bin [OF boot_paths(2) _ files(3)] bin [OF boot_paths(3) _ files(4)] bin [OF boot_paths(4) _ files(5)]
      disk [OF v(3)] disk [OF v(4)] disk [OF v(5)] p [of "''forktest''"] p [of "''sysutils''"] p [of "''readme''"] n
    by (auto simp: boot_names small_files)
qed



end
