(* ===== verification/Trampoline.thy ===== *)
theory Trampoline
  imports Sched
begin

text \<open>
  Entering and leaving the kernel, \<^verbatim>\<open>kernel/src/syscall_trampoline.rs\<close> and
  \<^verbatim>\<open>user_trampoline\<close> of \<^verbatim>\<open>userproc.rs\<close>: the register frame that \<^verbatim>\<open>int 0x80\<close> leaves on
  the kernel stack, and how the trampoline and \<^verbatim>\<open>iretq\<close> take it back. The registers of user
  mode are an \<open>InterruptContext\<close>.
\<close>

record InterruptContext =
  i_r15 :: u64  i_r14 :: u64  i_r13 :: u64  i_r12 :: u64  i_r11 :: u64
  i_r10 :: u64  i_r9 :: u64  i_r8 :: u64  i_rbp :: u64  i_rdi :: u64
  i_rsi :: u64  i_rdx :: u64  i_rcx :: u64  i_rbx :: u64  i_rax :: u64
  i_rip :: u64  i_cs :: u64  i_rflags :: u64  i_rsp :: u64  i_ss :: u64

text \<open>The fields in memory order, low addresses first.\<close>

definition ctx_words :: "InterruptContext \<Rightarrow> u64 list" where
  "ctx_words c = [i_r15 c, i_r14 c, i_r13 c, i_r12 c, i_r11 c, i_r10 c, i_r9 c, i_r8 c, i_rbp c, i_rdi c,
     i_rsi c, i_rdx c, i_rcx c, i_rbx c, i_rax c, i_rip c, i_cs c, i_rflags c, i_rsp c, i_ss c]"

definition push_word :: "u64 \<Rightarrow> u64 \<times> ram \<Rightarrow> u64 \<times> ram" where
  "push_word v = (\<lambda>(sp, k). (sp - 8, wr64 (sp - 8) v k))"

text \<open>The processor pushes \<^verbatim>\<open>ss, rsp, rflags, cs, rip\<close> on the stack of the privilege change,
  the trampoline pushes \<^verbatim>\<open>rax\<close> to \<^verbatim>\<open>r15\<close>; the result is the stack pointer it hands to
  \<^verbatim>\<open>syscall_dispatch\<close>.\<close>

definition syscall_trampoline_entry :: "InterruptContext \<Rightarrow> u64 \<times> ram \<Rightarrow> u64 \<times> ram" where
  "syscall_trampoline_entry c s =
     push_word (i_r15 c) (push_word (i_r14 c) (push_word (i_r13 c) (push_word (i_r12 c) (push_word (i_r11 c)
     (push_word (i_r10 c) (push_word (i_r9 c) (push_word (i_r8 c) (push_word (i_rbp c) (push_word (i_rdi c)
     (push_word (i_rsi c) (push_word (i_rdx c) (push_word (i_rcx c) (push_word (i_rbx c) (push_word (i_rax c)
     (push_word (i_rip c) (push_word (i_cs c) (push_word (i_rflags c) (push_word (i_rsp c) (push_word (i_ss c) s)))))))))))))))))))"

text \<open>From \<^verbatim>\<open>syscall_trampoline_after_call\<close> on: the registers are popped and \<^verbatim>\<open>iretq\<close> takes
  the rest.\<close>

definition syscall_trampoline_after_call :: "u64 \<Rightarrow> ram \<Rightarrow> InterruptContext" where
  "syscall_trampoline_after_call sp k =
     \<lparr>i_r15 = rd64 k sp, i_r14 = rd64 k (sp + 8), i_r13 = rd64 k (sp + 16), i_r12 = rd64 k (sp + 24),
      i_r11 = rd64 k (sp + 32), i_r10 = rd64 k (sp + 40), i_r9 = rd64 k (sp + 48), i_r8 = rd64 k (sp + 56),
      i_rbp = rd64 k (sp + 64), i_rdi = rd64 k (sp + 72), i_rsi = rd64 k (sp + 80), i_rdx = rd64 k (sp + 88),
      i_rcx = rd64 k (sp + 96), i_rbx = rd64 k (sp + 104), i_rax = rd64 k (sp + 112), i_rip = rd64 k (sp + 120),
      i_cs = rd64 k (sp + 128), i_rflags = rd64 k (sp + 136), i_rsp = rd64 k (sp + 144), i_ss = rd64 k (sp + 152)\<rparr>"

text \<open>The first entry into user mode. The selectors are those the segment table hands out.\<close>

definition enter_usermode :: "u64 \<Rightarrow> u64 \<Rightarrow> u64 \<Rightarrow> u64 \<Rightarrow> InterruptContext" where
  "enter_usermode user_code_sel user_data_sel entry user_stack =
     \<lparr>i_r15 = 0, i_r14 = 0, i_r13 = 0, i_r12 = 0, i_r11 = 0, i_r10 = 0, i_r9 = 0, i_r8 = 0, i_rbp = 0, i_rdi = 0,
      i_rsi = 0, i_rdx = 0, i_rcx = 0, i_rbx = 0, i_rax = 0, i_rip = entry, i_cs = user_code_sel,
      i_rflags = 0x200 OR 0x2, i_rsp = user_stack, i_ss = user_data_sel\<rparr>"

text \<open>\<^verbatim>\<open>user_trampoline\<close>: \<open>None\<close> when one of its expectations panics. The result is the
  page table that is active and the user registers.\<close>

definition user_trampoline :: "u64 \<Rightarrow> u64 \<Rightarrow> machine \<Rightarrow> (u64 \<times> InterruptContext) option" where
  "user_trampoline user_code_sel user_data_sel m =
     (case get (current_pid (table m)) (table m) of
        None \<Rightarrow> None
      | Some proc \<Rightarrow>
          let regs = enter_usermode user_code_sel user_data_sel (entry_point proc) (user_rsp proc) in
          if cr3 proc = 0 then Some (c_cr3 (processor m), regs)
          else if cr3 proc AND 0xfff = 0 then Some (cr3 proc, regs) else None)"

section \<open>Words on a stack\<close>

definition words_at :: "u64 \<Rightarrow> nat \<Rightarrow> ram \<Rightarrow> u64 list" where
  "words_at p n k = map (\<lambda>i. rd64 k (p + 8 * of_nat i)) [0..<n]"

lemma length_words_at [simp]: "length (words_at p n k) = n"
  by (simp add: words_at_def)

lemma nth_words_at [simp]: "i < n \<Longrightarrow> words_at p n k ! i = rd64 k (p + 8 * of_nat i)"
  by (simp add: words_at_def)

lemma words_at_append: "words_at p (a + b) k = words_at p a k @ words_at (p + 8 * of_nat a) b k"
  by (rule nth_equalityI) (auto simp: nth_append words_at_def algebra_simps)

text \<open>Pushing a list, its last element first, leaves the list in memory order.\<close>

lemma push_words:
  assumes "length ws < 2 ^ 32" "fold push_word (rev ws) (sp, k) = (sp', k')"
  shows "sp' = sp - 8 * of_nat (length ws) \<and> words_at sp' (length ws) k' = ws"
  using assms
proof (induction ws arbitrary: sp' k')
  case Nil
  then show ?case by (simp add: words_at_def)
next
  case (Cons w ws)
  obtain s1 k1 where 1: "fold push_word (rev ws) (sp, k) = (s1, k1)" by fastforce
  have ih: "s1 = sp - 8 * of_nat (length ws)" "words_at s1 (length ws) k1 = ws" using Cons 1 by auto
  have "push_word w (s1, k1) = (sp', k')" using Cons.prems 1 by simp
  then have e: "sp' = s1 - 8" "k' = wr64 (s1 - 8) w k1" by (auto simp: push_word_def)
  have "rd64 k' (s1 + 8 * of_nat i) = rd64 k1 (s1 + 8 * of_nat i)" if "i < length ws" for i
  proof -
    define x where "x = (8 * of_nat i + 8 :: u64)"
    have "8 * i + 8 < 2 ^ 64" using that Cons.prems(1) by simp
    then have x: "unat x = 8 * i + 8" using of_nat_inverse [of "8 * i + 8" x] by (simp add: x_def)
    then have "unat (- x) = 2 ^ 64 - (8 * i + 8)" using unat_sub_if' [of 0 x] by simp
    then have "8 \<le> unat x" "8 \<le> unat (- x)" using x that Cons.prems(1) by simp_all
    moreover have "s1 + 8 * of_nat i - (s1 - 8) = x" "s1 - 8 - (s1 + 8 * of_nat i) = - x" by (simp_all add: x_def)
    ultimately show ?thesis unfolding e by (intro rd64_wr64_other) (simp_all add: word_le_nat_alt)
  qed
  then have "words_at s1 (length ws) k' = ws" using ih(2) by (metis (no_types, lifting) length_words_at nth_equalityI nth_words_at)
  moreover have "words_at (s1 - 8) 1 k' = [w]" by (simp add: words_at_def e rd64_wr64_same)
  ultimately have "words_at sp' (Suc (length ws)) k' = w # ws" using words_at_append [of "s1 - 8" 1 "length ws" k'] e(1) by simp
  then show ?case using e(1) ih(1) by simp
qed

lemma after_call_words:
  "words_at sp 20 k = ctx_words c \<Longrightarrow> syscall_trampoline_after_call sp k = c"
proof -
  assume "words_at sp 20 k = ctx_words c"
  then have "words_at sp 20 k ! i = ctx_words c ! i" for i by simp
  from this [of 0] this [of 1] this [of 2] this [of 3] this [of 4] this [of 5] this [of 6] this [of 7] this [of 8] this [of 9]
    this [of 10] this [of 11] this [of 12] this [of 13] this [of 14] this [of 15] this [of 16] this [of 17] this [of 18] this [of 19]
  show ?thesis by (cases c) (simp add: ctx_words_def syscall_trampoline_after_call_def)
qed

lemma entry_words: "syscall_trampoline_entry c s = fold push_word (rev (ctx_words c)) s"
  by (simp add: syscall_trampoline_entry_def ctx_words_def)

lemma length_ctx_words [simp]: "length (ctx_words c) = 20"
  by (simp add: ctx_words_def)

text \<open>What \<^verbatim>\<open>syscall_dispatch\<close> writes: the result replaces the saved \<^verbatim>\<open>rax\<close>.\<close>

definition store_retval :: "u64 \<Rightarrow> i64 \<Rightarrow> ram \<Rightarrow> ram" where
  "store_retval sp retval k = wr64 (sp + 112) retval k"

lemma words_at_cong:
  assumes "\<And>a. unat (a - p) < 8 * n \<Longrightarrow> k' a = k a" "8 * n \<le> 2 ^ 64"
  shows "words_at p n k' = words_at p n k"
proof -
  have "rd64 k' (p + 8 * of_nat i) = rd64 k (p + 8 * of_nat i)" if "i < n" for i
  proof (rule rd64_cong)
    fix j :: nat assume j: "j < 8"
    have "8 * i + j < 2 ^ 64" using that j assms(2) by linarith
    then have "unat (8 * of_nat i + of_nat j :: u64) = 8 * i + j"
      using of_nat_inverse [of "8 * i + j" "8 * of_nat i + of_nat j :: u64"] by simp
    then show "k' (p + 8 * of_nat i + of_nat j) = k (p + 8 * of_nat i + of_nat j)"
      using that j by (intro assms(1)) (simp add: add.assoc)
  qed
  then show ?thesis by (simp add: words_at_def)
qed

lemma retval_words:
  assumes "words_at sp 20 k = ctx_words c"
  shows "words_at sp 20 (store_retval sp v k) = ctx_words (c\<lparr>i_rax := v\<rparr>)"
proof (rule nth_equalityI)
  fix i assume "i < length (words_at sp 20 (store_retval sp v k))"
  then have i: "i < 20" by simp
  have "rd64 (store_retval sp v k) (sp + 8 * of_nat i) = (if i = 14 then v else rd64 k (sp + 8 * of_nat i))"
  proof (cases "i = 14")
    case False
    have "i \<in> {..<14} \<union> {15..<20}" using i False by auto
    then have "8 \<le> 8 * of_nat i - (112 :: u64) \<and> 8 \<le> (112 :: u64) - 8 * of_nat i"
      by (auto simp: lessThan_nat_numeral lessThan_Suc atLeastLessThan_nat_numeral)
    then show ?thesis using False rd64_wr64_other [of "sp + 8 * of_nat i" "sp + 112" v k] by (simp add: store_retval_def)
  qed (simp add: store_retval_def rd64_wr64_same)
  moreover have "rd64 k (sp + 8 * of_nat i) = ctx_words c ! i" using assms i by (metis nth_words_at)
  moreover have "ctx_words (c\<lparr>i_rax := v\<rparr>) = (ctx_words c)[14 := v]" by (simp add: ctx_words_def)
  ultimately show "words_at sp 20 (store_retval sp v k) ! i = ctx_words (c\<lparr>i_rax := v\<rparr>) ! i"
    using i by (simp add: nth_list_update)
qed simp

text \<open>
  C9. A system call changes no register but the result. Whatever the kernel does between entry
  and exit, if it leaves the saved frame alone except for storing its result, the program
  continues with all its registers, flags, stack and instruction pointer as they were and the
  result in \<^verbatim>\<open>rax\<close>.
\<close>

theorem syscall_preserves_registers:
  assumes "syscall_trampoline_entry c (rsp0, k) = (sp, k1)"
    and "\<forall>a. unat (a - sp) < 160 \<longrightarrow> k2 a = k1 a"
  shows "sp = rsp0 - 160 \<and> syscall_trampoline_after_call sp (store_retval sp v k2) = c\<lparr>i_rax := v\<rparr>"
proof -
  have "sp = rsp0 - 8 * of_nat (length (ctx_words c)) \<and> words_at sp (length (ctx_words c)) k1 = ctx_words c"
    using assms(1) unfolding entry_words by (intro push_words) simp_all
  then have "sp = rsp0 - 160" "words_at sp 20 k1 = ctx_words c" by auto
  moreover have "words_at sp 20 k2 = words_at sp 20 k1" using assms(2) by (intro words_at_cong) simp_all
  ultimately show ?thesis using after_call_words [OF retval_words [of sp k2 c v]] by simp
qed

definition demo_regs :: InterruptContext where
  "demo_regs = (enter_usermode 0x33 0x2b 0x401000 0x7fff00000000)\<lparr>i_rax := 13, i_rbx := 5\<rparr>"

theorem syscall_preserves_registers_witness:
  "\<exists>sp k1. syscall_trampoline_entry demo_regs (0x18000, \<lambda>_. 0) = (sp, k1) \<and>
     syscall_trampoline_after_call sp (store_retval sp 7 k1) = demo_regs\<lparr>i_rax := 7\<rparr>"
proof -
  obtain sp k1 where s: "syscall_trampoline_entry demo_regs (0x18000, \<lambda>_. 0) = (sp, k1)" by fastforce
  from syscall_preserves_registers [OF s, of k1 7] s show ?thesis by auto
qed

end
