(* ===== verification/Console.thy ===== *)
theory Console
  imports Prelude
begin

text \<open>
  The text console \<^verbatim>\<open>kernel/src/vga_buffer.rs\<close>: a cursor over 25 rows of 80 cells. Cells are
  addressed by \<open>row * 80 + column\<close> without a bounds check, so that the cursor stays in range
  is what keeps the writes inside the buffer.
\<close>

section \<open>Data and operations\<close>

datatype Color = Black | Blue | Green | Cyan | Red | Magenta | Brown | LightGray | DarkGray | LightBlue
  | LightGreen | LightCyan | LightRed | Pink | Yellow | White

fun color_num :: "Color \<Rightarrow> u8" where
  "color_num Black = 0" | "color_num Blue = 1" | "color_num Green = 2" | "color_num Cyan = 3"
| "color_num Red = 4" | "color_num Magenta = 5" | "color_num Brown = 6" | "color_num LightGray = 7"
| "color_num DarkGray = 8" | "color_num LightBlue = 9" | "color_num LightGreen = 10" | "color_num LightCyan = 11"
| "color_num LightRed = 12" | "color_num Pink = 13" | "color_num Yellow = 14" | "color_num White = 15"

definition color_code :: "Color \<Rightarrow> Color \<Rightarrow> u8" where
  "color_code foreground background = push_bit 4 (color_num background) OR color_num foreground"

record ScreenChar =
  ascii_character :: u8
  char_color :: u8

definition BUFFER_HEIGHT :: nat where "BUFFER_HEIGHT = 25"
definition BUFFER_WIDTH :: nat where "BUFFER_WIDTH = 80"

record Writer =
  column_position :: nat
  row_position :: nat
  w_color :: u8
  cells :: "ScreenChar list"
  ready :: bool

definition store_cell :: "nat \<Rightarrow> ScreenChar \<Rightarrow> Writer \<Rightarrow> Writer" where
  "store_cell i c w = w\<lparr>cells := (cells w)[i := c]\<rparr>"

definition clear_row :: "nat \<Rightarrow> Writer \<Rightarrow> Writer" where
  "clear_row row w =
     fold (\<lambda>col. store_cell (row * BUFFER_WIDTH + col) \<lparr>ascii_character = 0x20, char_color = w_color w\<rparr>) [0..<BUFFER_WIDTH] w"

text \<open>The two loops of \<^verbatim>\<open>new_line\<close>: a row is copied cell by cell to the row above it.\<close>

definition copy_row_up :: "nat \<Rightarrow> nat \<Rightarrow> Writer \<Rightarrow> Writer" where
  "copy_row_up n row w =
     fold (\<lambda>col w. store_cell ((row - 1) * BUFFER_WIDTH + col) (cells w ! (row * BUFFER_WIDTH + col)) w) [0..<n] w"

definition scroll :: "Writer \<Rightarrow> Writer" where
  "scroll w = fold (copy_row_up BUFFER_WIDTH) [1..<BUFFER_HEIGHT] w"

definition new_line :: "Writer \<Rightarrow> Writer" where
  "new_line w =
     (let w1 = clear_row (BUFFER_HEIGHT - 1) (scroll w);
          w2 = w1\<lparr>column_position := 0\<rparr>
      in if row_position w2 < BUFFER_HEIGHT - 1 then w2\<lparr>row_position := row_position w2 + 1\<rparr> else w2)"

definition write_byte :: "u8 \<Rightarrow> Writer \<Rightarrow> Writer" where
  "write_byte byte w =
     (if byte = 0x0a then new_line w
      else if byte = 0x0d then w\<lparr>column_position := 0\<rparr>
      else
        let w1 = (if BUFFER_WIDTH \<le> column_position w then new_line w else w);
            w2 = store_cell (row_position w1 * BUFFER_WIDTH + column_position w1)
                   \<lparr>ascii_character = byte, char_color = w_color w1\<rparr> w1
        in w2\<lparr>column_position := column_position w2 + 1\<rparr>)"

definition set_colors :: "Color \<Rightarrow> Color \<Rightarrow> Writer \<Rightarrow> Writer" where
  "set_colors foreground background w = w\<lparr>w_color := color_code foreground background\<rparr>"

definition write_str :: "bytes \<Rightarrow> Writer \<Rightarrow> Writer" where
  "write_str s w = fold write_byte s w"

definition clear_rows :: "Writer \<Rightarrow> Writer" where
  "clear_rows w = fold clear_row [0..<BUFFER_HEIGHT] w"

text \<open>The writer as declared, over the cells \<open>cs\<close> found at the buffer's address.\<close>

definition initial_writer :: "ScreenChar list \<Rightarrow> Writer" where
  "initial_writer cs = \<lparr>column_position = 0, row_position = 0, w_color = color_code LightGreen Black, cells = cs, ready = False\<rparr>"

definition vga_init :: "Writer \<Rightarrow> Writer" where
  "vga_init w = clear_rows (w\<lparr>ready := True\<rparr>)"

definition vga_print :: "bytes \<Rightarrow> Writer \<Rightarrow> Writer" where
  "vga_print s w = (if ready w then write_str s w else w)"

definition clear_screen :: "Writer \<Rightarrow> Writer" where
  "clear_screen w = (if ready w then clear_rows w else w)"

section \<open>The cursor stays on the screen\<close>

definition console_wf :: "Writer \<Rightarrow> bool" where
  "console_wf w \<longleftrightarrow> column_position w \<le> BUFFER_WIDTH \<and> row_position w < BUFFER_HEIGHT \<and>
     length (cells w) = BUFFER_HEIGHT * BUFFER_WIDTH"

text \<open>What a loop of cell stores leaves alone.\<close>

definition same_cursor :: "Writer \<Rightarrow> Writer \<Rightarrow> bool" where
  "same_cursor w w' \<longleftrightarrow> column_position w' = column_position w \<and> row_position w' = row_position w \<and>
     w_color w' = w_color w \<and> ready w' = ready w \<and> length (cells w') = length (cells w)"

lemma same_cursor_refl [simp]: "same_cursor w w"
  by (simp add: same_cursor_def)

lemma same_cursor_trans: "same_cursor a b \<Longrightarrow> same_cursor b c \<Longrightarrow> same_cursor a c"
  by (simp add: same_cursor_def)

lemma store_cell_same [simp]: "same_cursor w (store_cell i c w)"
  by (simp add: same_cursor_def store_cell_def)

lemma fold_same_cursor:
  "(\<And>x w. same_cursor w (f x w)) \<Longrightarrow> same_cursor w (fold f xs w)"
  by (induction xs arbitrary: w) (auto intro: same_cursor_trans)

lemma clear_row_same [simp]: "same_cursor w (clear_row row w)"
  unfolding clear_row_def by (rule fold_same_cursor) simp

lemma scroll_same [simp]: "same_cursor w (scroll w)"
  unfolding scroll_def copy_row_up_def by (intro fold_same_cursor) simp

lemma clear_rows_same [simp]: "same_cursor w (clear_rows w)"
  unfolding clear_rows_def by (rule fold_same_cursor) simp

lemma same_cursor_wf: "same_cursor w w' \<Longrightarrow> console_wf w \<Longrightarrow> console_wf w'"
  by (simp add: same_cursor_def console_wf_def)

lemma new_line_wf: "console_wf w \<Longrightarrow> console_wf (new_line w) \<and> column_position (new_line w) = 0"
  using same_cursor_wf [OF same_cursor_trans [OF scroll_same clear_row_same], of w "BUFFER_HEIGHT - 1"]
  by (auto simp: new_line_def Let_def console_wf_def BUFFER_HEIGHT_def)

lemma write_byte_wf: "console_wf w \<Longrightarrow> console_wf (write_byte b w)"
proof (cases "b = 0x0a \<or> b = 0x0d")
  case True
  assume "console_wf w"
  with True show ?thesis using new_line_wf [of w] by (auto simp: write_byte_def console_wf_def)
next
  case False
  assume w: "console_wf w"
  define w1 where "w1 = (if BUFFER_WIDTH \<le> column_position w then new_line w else w)"
  have "console_wf w1" "column_position w1 < BUFFER_WIDTH"
    using w new_line_wf [of w] by (auto simp: w1_def BUFFER_WIDTH_def)
  then show ?thesis using False by (simp add: write_byte_def w1_def [symmetric] Let_def store_cell_def console_wf_def)
qed

text \<open>The index a character is stored at, when the cursor is on the screen.\<close>

lemma cell_in_range:
  "console_wf w \<Longrightarrow> column_position w < BUFFER_WIDTH \<Longrightarrow>
   row_position w * BUFFER_WIDTH + column_position w < length (cells w)"
  by (auto simp: console_wf_def BUFFER_WIDTH_def BUFFER_HEIGHT_def)

lemma write_str_wf: "console_wf w \<Longrightarrow> console_wf (write_str s w)"
  unfolding write_str_def by (induction s arbitrary: w) (auto simp: write_byte_wf)

section \<open>Scrolling\<close>

lemma copy_row_up_cells:
  assumes "length (cells w) = 2000" "1 \<le> r" "r < 25" "n \<le> 80"
  shows "cells (copy_row_up n r w) =
    map (\<lambda>i. if (r - 1) * 80 \<le> i \<and> i < (r - 1) * 80 + n then cells w ! (i + 80) else cells w ! i) [0..<2000]"
  using assms(4)
proof (induction n)
  case 0
  then show ?case using assms by (auto intro!: nth_equalityI simp: copy_row_up_def)
next
  case (Suc n)
  define p where "p = (r - 1) * 80"
  have r: "r * 80 = p + 80" using assms(2) by (cases r) (simp_all add: p_def)
  have p: "p + n < 1920" using assms(3) Suc.prems r by linarith
  have c: "cells (copy_row_up n r w) = map (\<lambda>i. if p \<le> i \<and> i < p + n then cells w ! (i + 80) else cells w ! i) [0..<2000]"
    using Suc by (simp add: p_def)
  have "cells (copy_row_up (Suc n) r w) = (cells (copy_row_up n r w))[p + n := cells (copy_row_up n r w) ! (p + 80 + n)]"
    using r by (simp add: copy_row_up_def store_cell_def BUFFER_WIDTH_def p_def)
  also have "\<dots> = map (\<lambda>i. if p \<le> i \<and> i < p + Suc n then cells w ! (i + 80) else cells w ! i) [0..<2000]"
    unfolding c using p by (intro nth_equalityI) (auto simp: nth_list_update less_Suc_eq ac_simps)
  finally show ?case by (simp add: p_def)
qed

lemma scroll_rows:
  assumes "length (cells w) = 2000" "k \<le> 24"
  shows "cells (fold (copy_row_up 80) [1..<Suc k] w) =
    map (\<lambda>i. if i < k * 80 then cells w ! (i + 80) else cells w ! i) [0..<2000]"
  using assms(2)
proof (induction k)
  case 0
  then show ?case using assms by (auto intro!: nth_equalityI)
next
  case (Suc k)
  let ?w = "fold (copy_row_up 80) [1..<Suc k] w"
  have c: "cells ?w = map (\<lambda>i. if i < k * 80 then cells w ! (i + 80) else cells w ! i) [0..<2000]" using Suc by simp
  have "fold (copy_row_up 80) [1..<Suc (Suc k)] w = copy_row_up 80 (Suc k) ?w" by simp
  then have "cells (fold (copy_row_up 80) [1..<Suc (Suc k)] w) =
      map (\<lambda>i. if k * 80 \<le> i \<and> i < k * 80 + 80 then cells ?w ! (i + 80) else cells ?w ! i) [0..<2000]"
    using copy_row_up_cells [of ?w "Suc k" 80] c Suc.prems by simp
  also have "\<dots> = map (\<lambda>i. if i < Suc k * 80 then cells w ! (i + 80) else cells w ! i) [0..<2000]"
    using Suc.prems unfolding c by (intro map_cong refl) auto
  finally show ?case .
qed

lemma scroll_cells:
  "console_wf w \<Longrightarrow> cells (scroll w) = map (\<lambda>i. if i < 1920 then cells w ! (i + 80) else cells w ! i) [0..<2000]"
  using scroll_rows [of w 24] by (simp add: scroll_def console_wf_def BUFFER_HEIGHT_def BUFFER_WIDTH_def)

lemma clear_row_cells:
  assumes "length (cells w) = 2000" "r < 25"
  shows "cells (clear_row r w) = map (\<lambda>i. if r * 80 \<le> i \<and> i < r * 80 + 80
    then \<lparr>ascii_character = 0x20, char_color = w_color w\<rparr> else cells w ! i) [0..<2000]"
proof -
  have "cells (fold (\<lambda>col. store_cell (r * 80 + col) b) [0..<n] w) =
      map (\<lambda>i. if r * 80 \<le> i \<and> i < r * 80 + n then b else cells w ! i) [0..<2000]" if "n \<le> 80" for n b
    using that
  proof (induction n)
    case 0
    then show ?case using assms by (auto intro!: nth_equalityI)
  next
    case (Suc n)
    then show ?case using assms by (auto intro!: nth_equalityI simp: store_cell_def nth_list_update less_Suc_eq)
  qed
  then show ?thesis by (simp add: clear_row_def BUFFER_WIDTH_def)
qed

lemma clear_rows_cells:
  assumes "length (cells w) = 2000" "k \<le> 25"
  shows "cells (fold clear_row [0..<k] w) =
    map (\<lambda>i. if i < k * 80 then \<lparr>ascii_character = 0x20, char_color = w_color w\<rparr> else cells w ! i) [0..<2000]"
  using assms(2)
proof (induction k)
  case 0
  then show ?case using assms by (auto intro!: nth_equalityI)
next
  case (Suc k)
  have "same_cursor w (fold clear_row [0..<k] w)" by (rule fold_same_cursor) simp
  then have "length (cells (fold clear_row [0..<k] w)) = 2000" "w_color (fold clear_row [0..<k] w) = w_color w"
    using assms(1) by (simp_all add: same_cursor_def)
  then have "cells (fold clear_row [0..<Suc k] w) = map (\<lambda>i. if k * 80 \<le> i \<and> i < k * 80 + 80
      then \<lparr>ascii_character = 0x20, char_color = w_color w\<rparr> else cells (fold clear_row [0..<k] w) ! i) [0..<2000]"
    using clear_row_cells [of "fold clear_row [0..<k] w" k] Suc.prems by simp
  also have "\<dots> = map (\<lambda>i. if i < Suc k * 80 then \<lparr>ascii_character = 0x20, char_color = w_color w\<rparr> else cells w ! i) [0..<2000]"
    using Suc by (intro map_cong refl) auto
  finally show ?case .
qed

text \<open>\<open>new_line\<close> always scrolls.\<close>

lemma new_line_cells:
  assumes "console_wf w"
  shows "cells (new_line w) = drop 80 (cells w) @ replicate 80 \<lparr>ascii_character = 0x20, char_color = w_color w\<rparr>"
proof -
  have l: "length (cells w) = 2000" "length (cells (scroll w)) = 2000" "w_color (scroll w) = w_color w"
    using assms scroll_same [of w] by (simp_all add: console_wf_def same_cursor_def BUFFER_HEIGHT_def BUFFER_WIDTH_def)
  have "cells (new_line w) = cells (clear_row 24 (scroll w))" by (simp add: new_line_def Let_def BUFFER_HEIGHT_def)
  also have "\<dots> = drop 80 (cells w) @ replicate 80 \<lparr>ascii_character = 0x20, char_color = w_color w\<rparr>"
    unfolding clear_row_cells [OF l(2), of 24, simplified] scroll_cells [OF assms] using l(1,3)
    by (intro nth_equalityI) (auto simp: nth_append add.commute)
  finally show ?thesis .
qed

section \<open>The first lines\<close>

lemma write_plain:
  assumes "console_wf w" "\<forall>b \<in> set s. b \<noteq> 0x0a \<and> b \<noteq> 0x0d" "column_position w + length s \<le> 80"
  shows "row_position (write_str s w) = row_position w \<and> w_color (write_str s w) = w_color w \<and>
    drop ((row_position w + 1) * 80) (cells (write_str s w)) = drop ((row_position w + 1) * 80) (cells w)"
  using assms
proof (induction s arbitrary: w)
  case Nil
  then show ?case by (simp add: write_str_def)
next
  case (Cons b s)
  have c: "column_position w < 80" using Cons.prems(3) by simp
  let ?c = "\<lparr>ascii_character = b, char_color = w_color w\<rparr>"
  have e: "write_byte b w = (store_cell (row_position w * 80 + column_position w) ?c w)\<lparr>column_position := column_position w + 1\<rparr>"
    using Cons.prems c by (simp add: write_byte_def Let_def BUFFER_WIDTH_def store_cell_def)
  have "row_position (write_byte b w) = row_position w" "w_color (write_byte b w) = w_color w"
      "column_position (write_byte b w) = column_position w + 1"
      "drop ((row_position w + 1) * 80) (cells (write_byte b w)) = drop ((row_position w + 1) * 80) (cells w)"
    using c by (simp_all add: e store_cell_def)
  with Cons.IH [of "write_byte b w"] write_byte_wf [OF Cons.prems(1), of b] Cons.prems show ?case
    by (simp add: write_str_def)
qed



text \<open>
  The first line is lost. \<^verbatim>\<open>new_line\<close> scrolls even while there are free rows below
  the cursor, so a line printed on a freshly initialised console (80 characters at most, then
  a newline) leaves the screen completely blank with the cursor in row 1.
\<close>

theorem first_line_lost:
  assumes "length cs = 2000" "\<forall>b \<in> set s. b \<noteq> 0x0a \<and> b \<noteq> 0x0d" "length s \<le> 80"
  shows "cells (vga_print (s @ [0x0a]) (vga_init (initial_writer cs))) =
      replicate 2000 \<lparr>ascii_character = 0x20, char_color = color_code LightGreen Black\<rparr> \<and>
    row_position (vga_print (s @ [0x0a]) (vga_init (initial_writer cs))) = 1"
proof -
  define w where "w = vga_init (initial_writer cs)"
  let ?b = "\<lparr>ascii_character = 0x20, char_color = color_code LightGreen Black\<rparr>"
  have sc: "same_cursor ((initial_writer cs)\<lparr>ready := True\<rparr>) w" by (simp add: w_def vga_init_def)
  then have w: "console_wf w" "row_position w = 0" "column_position w = 0" "w_color w = color_code LightGreen Black" "ready w"
    using assms(1) by (simp_all add: same_cursor_def console_wf_def initial_writer_def BUFFER_HEIGHT_def BUFFER_WIDTH_def)
  have blank: "cells w = replicate 2000 ?b"
    using clear_rows_cells [of "(initial_writer cs)\<lparr>ready := True\<rparr>" 25] assms(1)
    by (auto simp: w_def vga_init_def clear_rows_def initial_writer_def BUFFER_HEIGHT_def intro!: nth_equalityI)
  let ?w = "write_str s w"
  have p: "row_position ?w = 0" "w_color ?w = color_code LightGreen Black" "drop 80 (cells ?w) = drop 80 (cells w)"
    using write_plain [OF w(1) assms(2)] w assms(3) by simp_all
  have n: "vga_print (s @ [0x0a]) w = new_line ?w" using w(5) by (simp add: vga_print_def write_str_def write_byte_def)
  have "cells (new_line ?w) = drop 80 (replicate 2000 ?b) @ replicate 80 ?b"
    using new_line_cells [OF write_str_wf [OF w(1)], of s] p blank by simp
  moreover have "row_position (clear_row 24 (scroll ?w)) = 0"
    using p(1) same_cursor_trans [OF scroll_same clear_row_same, of ?w 24] by (simp add: same_cursor_def)
  ultimately show ?thesis unfolding w_def [symmetric] n
    by (simp add: replicate_add [symmetric] new_line_def Let_def BUFFER_HEIGHT_def)
qed

theorem first_line_lost_witness:
  "row_position (vga_print (as_bytes ''Hello'' @ [0x0a]) (vga_init (initial_writer
     (replicate 2000 \<lparr>ascii_character = 0, char_color = 0\<rparr>)))) = 1"
  using first_line_lost [of "replicate 2000 \<lparr>ascii_character = 0, char_color = 0\<rparr>" "as_bytes ''Hello''"]
  by (simp add: as_bytes_def)

end
