(* ===== verification/Syscalls.thy ===== *)
theory Syscalls
  imports Elf Trampoline Graphics Console
begin

text \<open>
  System calls, first part: \<^verbatim>\<open>kernel/src/syscalls/mod.rs\<close> without the calls about processes.
  The kernel state gathers the states of the components. Pointers from user mode are followed
  without a check, in the memory of the active address space, which is also where the kernel's
  own data lives; so memory is the one of the machine. Console messages of the kernel itself are
  left out.
\<close>

section \<open>State and outcomes\<close>

record kernel =
  k_machine :: machine
  k_memory :: memory
  k_vfs :: Vfs
  k_mouse :: MouseState
  k_ticks :: u64
  k_fds :: FdTable
  k_cwd :: bytes
  k_console :: Writer
  k_stdin :: bytes
  k_graphics :: GraphicsState
  k_interrupts :: bool

text \<open>A call returns a value, gives up the processor inside a loop it comes back to
  (\<open>Again\<close>), leaves for good (\<open>Gone\<close>), panics (\<open>Halted\<close>) or waits for what cannot
  happen (\<open>Stuck\<close>).\<close>

datatype outcome = Ret i64 | Again | Gone | Halted | Stuck

abbreviation proc_table :: "kernel \<Rightarrow> ProcessTable" where "proc_table k \<equiv> table (k_machine k)"
abbreviation memory_of :: "kernel \<Rightarrow> u64 \<Rightarrow> u8" where "memory_of k \<equiv> kmem (k_machine k)"

definition set_table :: "ProcessTable \<Rightarrow> kernel \<Rightarrow> kernel" where
  "set_table t k = k\<lparr>k_machine := (k_machine k)\<lparr>table := t\<rparr>\<rparr>"

definition set_mem :: "(u64 \<Rightarrow> u8) \<Rightarrow> kernel \<Rightarrow> kernel" where
  "set_mem m k = k\<lparr>k_machine := (k_machine k)\<lparr>kmem := m\<rparr>\<rparr>"

definition errno :: "Errno \<Rightarrow> outcome" where
  "errno e = Ret (as_i64 e)"

definition EPERM :: i64 where "EPERM = - 1"
definition ENOTDIR :: i64 where "ENOTDIR = - 20"
definition ECHILD :: i64 where "ECHILD = - 10"

definition with_fd_table_mut :: "(FdTable \<Rightarrow> FdTable \<times> 'a) \<Rightarrow> kernel \<Rightarrow> kernel \<times> 'a" where
  "with_fd_table_mut f k =
     (let cur = current_pid (proc_table k) in
      case (if cur = 0 then None else get_mut cur (proc_table k)) of
        Some i \<Rightarrow>
          (case f (fd_table (processes (proc_table k) ! i)) of (t, r) \<Rightarrow>
             (set_table (modify i (\<lambda>p. p\<lparr>fd_table := t\<rparr>) (proc_table k)) k, r))
      | None \<Rightarrow> (case f (k_fds k) of (t, r) \<Rightarrow> (k\<lparr>k_fds := t\<rparr>, r)))"

definition check_perm :: "Resource \<Rightarrow> kernel \<Rightarrow> bool" where
  "check_perm resource k = check_permission (current_pid (proc_table k)) resource (proc_table k)"

text \<open>A call into the file systems. \<^verbatim>\<open>/dev/framebuffer\<close> is the framebuffer's memory.\<close>

definition with_vfs :: "(Vfs \<Rightarrow> Vfs \<times> 'a) \<Rightarrow> kernel \<Rightarrow> kernel \<times> 'a" where
  "with_vfs f k =
     (let fb = framebuffer_info (k_graphics k);
          v = (k_vfs k)\<lparr>devices := (devices (k_vfs k))\<lparr>dv_fb := map_option (\<lambda>(base, len). peek base (unat len) (memory_of k)) fb\<rparr>\<rparr>
      in case f v of (v', r) \<Rightarrow>
        let k' = k\<lparr>k_vfs := v'\<rparr> in
        (case (fb, dv_fb (devices v')) of
           (Some (base, _), Some b) \<Rightarrow> (set_mem (poke base b (memory_of k)) k', r)
         | _ \<Rightarrow> (k', r)))"

section \<open>Files\<close>

definition read_path :: "u64 \<Rightarrow> kernel \<Rightarrow> Errno + bytes" where
  "read_path path k =
     (if path = 0 then Inl efault
      else case c_string 256 path (memory_of k) of
        None \<Rightarrow> Inl einval
      | Some s \<Rightarrow> if utf8_valid s then Inr s else Inl einval)"

text \<open>A panic in a component, or a copy out of bounds, is not an error the call can return.\<close>

definition vfs_error :: "string \<Rightarrow> i64 \<Rightarrow> outcome" where
  "vfs_error e code = (if e = panic \<or> e = ''out of bounds copy'' then Halted else Ret code)"

definition sys_open :: "u64 \<Rightarrow> u32 \<Rightarrow> kernel \<Rightarrow> kernel \<times> outcome" where
  "sys_open path flags k =
     (case read_path path k of
        Inl e \<Rightarrow> (k, errno e)
      | Inr s \<Rightarrow>
          (case with_vfs (vfs_open s (flags AND 0x40 \<noteq> 0)) k of
             (k1, Inl e) \<Rightarrow> (k1, vfs_error e (as_i64 enoent))
           | (k1, Inr file) \<Rightarrow>
               (case with_fd_table_mut (fd_alloc (VfsFile (vf_mount file) (vf_inode file) 0)) k1 of
                  (k2, Some fd) \<Rightarrow> (k2, Ret (of_nat fd))
                | (k2, None) \<Rightarrow> (k2, errno enomem))))"

text \<open>\<^verbatim>\<open>fd as usize\<close> extends the sign.\<close>

definition fd_index :: "i32 \<Rightarrow> nat" where
  "fd_index fd = unat (scast fd :: u64)"

definition fd_kind :: "i32 \<Rightarrow> kernel \<Rightarrow> FdKind option" where
  "fd_kind fd k = snd (with_fd_table_mut (\<lambda>t. (t, map_option kind (fd_get t (fd_index fd)))) k)"

definition yielding :: "kernel \<Rightarrow> kernel \<times> outcome" where
  "yielding k =
     (case yield_now no_locks (k_machine k) of
        None \<Rightarrow> (k, Stuck)
      | Some m \<Rightarrow> (k\<lparr>k_machine := m\<rparr>, Again))"

text \<open>Standard input: at least one byte is read even for a count of zero.\<close>

definition read_stdin :: "u64 \<Rightarrow> u64 \<Rightarrow> kernel \<Rightarrow> kernel \<times> outcome" where
  "read_stdin dst count k =
     (case k_stdin k of
        [] \<Rightarrow> yielding k
      | b # rest \<Rightarrow>
          let n = min (length rest) (unat count - 1)
          in (set_mem (poke dst (b # take n rest) (memory_of k)) (k\<lparr>k_stdin := drop n rest\<rparr>), Ret (of_nat (n + 1))))"

definition sys_read :: "i32 \<Rightarrow> u64 \<Rightarrow> u64 \<Rightarrow> kernel \<Rightarrow> kernel \<times> outcome" where
  "sys_read fd dst count k =
     (if dst = 0 then (k, errno efault)
      else if fd = 0 then read_stdin dst count k
      else case fd_kind fd k of
        Some (VfsFile m i off) \<Rightarrow>
          (case with_vfs (vfs_read \<lparr>vf_inode = i, vf_mount = m, vf_offset = off, vf_type = Regular\<rparr> (unat count)) k of
             (k1, file, r) \<Rightarrow>
               let k2 = (case r of Inr b \<Rightarrow> set_mem (poke dst b (memory_of k1)) k1 | Inl _ \<Rightarrow> k1);
                   k3 = fst (with_fd_table_mut (\<lambda>t. (update_vfs_offset (fd_index fd) (vf_offset file) t, ())) k2)
               in case r of
                    Inr b \<Rightarrow> (k3, Ret (of_nat (length b)))
                  | Inl e \<Rightarrow> (k3, vfs_error e (as_i64 einval)))
      | Some _ \<Rightarrow> (k, errno enosys)
      | None \<Rightarrow> (k, errno ebadf))"

text \<open>Text printed for a user's bytes.\<close>

definition printable :: "bytes \<Rightarrow> bytes" where
  "printable b = (if utf8_valid b then b else as_bytes ''<utf8 error>'')"

definition serial_print :: "bytes \<Rightarrow> kernel \<Rightarrow> kernel" where
  "serial_print b k = k\<lparr>k_vfs := (k_vfs k)\<lparr>devices := (devices (k_vfs k))\<lparr>dv_serial := dv_serial (devices (k_vfs k)) @ b\<rparr>\<rparr>\<rparr>"

definition sys_write :: "i32 \<Rightarrow> u64 \<Rightarrow> u64 \<Rightarrow> kernel \<Rightarrow> kernel \<times> outcome" where
  "sys_write fd src count k =
     (if src = 0 then (k, errno efault)
      else let b = peek src (unat count) (memory_of k) in
        if fd = 1 then
          (let k1 = serial_print (printable b) k in (k1\<lparr>k_console := vga_print (printable b) (k_console k1)\<rparr>, Ret count))
        else if fd = 2 then (serial_print (printable b) k, Ret count)
        else case fd_kind fd k of
          Some (VfsFile m i off) \<Rightarrow>
            (case with_vfs (vfs_write \<lparr>vf_inode = i, vf_mount = m, vf_offset = off, vf_type = Regular\<rparr> b) k of
               (k1, file, r) \<Rightarrow>
                 let k2 = fst (with_fd_table_mut (\<lambda>t. (update_vfs_offset (fd_index fd) (vf_offset file) t, ())) k1)
                 in case r of
                      Inr n \<Rightarrow> (k2, Ret (of_nat n))
                    | Inl e \<Rightarrow> (k2, vfs_error e (as_i64 einval)))
        | _ \<Rightarrow> (k, errno ebadf))"

definition sys_close :: "i32 \<Rightarrow> kernel \<Rightarrow> kernel \<times> outcome" where
  "sys_close fd k =
     (if sint fd < 3 then (k, errno ebadf)
      else case with_fd_table_mut (fd_close (fd_index fd)) k of
        (k1, True) \<Rightarrow> (k1, Ret 0)
      | (k1, False) \<Rightarrow> (k1, errno ebadf))"

section \<open>Directories\<close>

text \<open>\<^verbatim>\<open>rsplit_once('/')\<close> and \<^verbatim>\<open>rsplit('/').next()\<close>: unlike \<open>split_parent_name\<close>, the
  parent of \<open>/name\<close> is the empty string.\<close>

definition path_parent :: "bytes \<Rightarrow> bytes" where
  "path_parent path = (case rfind 0x2F path of Some i \<Rightarrow> take i path | None \<Rightarrow> [0x2F])"

definition at_parent :: "(u64 \<Rightarrow> bytes \<Rightarrow> fs \<times> devices \<Rightarrow> (fs \<times> devices) \<times> 'a result) \<Rightarrow> i64 \<Rightarrow> u64 \<Rightarrow> kernel \<Rightarrow> kernel \<times> outcome" where
  "at_parent operation code path k =
     (case read_path path k of
        Inl e \<Rightarrow> (k, errno e)
      | Inr s \<Rightarrow>
          (case find_mount s (k_vfs k) of
             None \<Rightarrow> (k, errno enoent)
           | Some (i, _) \<Rightarrow>
               (case with_vfs (resolve (path_parent s)) k of
                  (k1, Inl e) \<Rightarrow> (k1, vfs_error e (as_i64 enoent))
                | (k1, Inr (_, parent_inode)) \<Rightarrow>
                    (case with_vfs (on_mount i (operation parent_inode (last_component s))) k1 of
                       (k2, Inl e) \<Rightarrow> (k2, vfs_error e code)
                     | (k2, Inr _) \<Rightarrow> (k2, Ret 0)))))"

definition sys_mkdir :: "u64 \<Rightarrow> kernel \<Rightarrow> kernel \<times> outcome" where
  "sys_mkdir = at_parent (fo_mkdir dyn_ops) (as_i64 einval)"

definition sys_unlink :: "u64 \<Rightarrow> kernel \<Rightarrow> kernel \<times> outcome" where
  "sys_unlink = at_parent (fo_unlink dyn_ops) (as_i64 enoent)"

fun type_mode :: "FileType \<Rightarrow> u32" where
  "type_mode Directory = 0x4000"
| "type_mode Regular = 0x8000"
| "type_mode CharDevice = 0x2000"
| "type_mode BlockDevice = 0x6000"

definition sys_stat :: "u64 \<Rightarrow> u64 \<Rightarrow> kernel \<Rightarrow> kernel \<times> outcome" where
  "sys_stat path dst k =
     (case read_path path k of
        Inl e \<Rightarrow> (k, errno e)
      | Inr s \<Rightarrow>
          if dst = 0 then (k, errno efault)
          else case with_vfs (\<lambda>v. case resolve s v of
                 (v', Inl e) \<Rightarrow> (v', Inl e)
               | (v', Inr (i, inode)) \<Rightarrow> (v', Inr (at_mount i (fo_file_type dyn_ops inode) v', at_mount i (fo_size dyn_ops inode) v'))) k of
            (k1, Inl e) \<Rightarrow> (k1, vfs_error e (as_i64 enoent))
          | (k1, Inr (ft, sz)) \<Rightarrow>
              (set_mem (poke (dst + 8) (to_le 4 (type_mode ft)) (poke dst (to_le 8 sz) (memory_of k1))) k1, Ret 0))"

definition sys_chdir :: "u64 \<Rightarrow> kernel \<Rightarrow> kernel \<times> outcome" where
  "sys_chdir path k =
     (case read_path path k of
        Inl e \<Rightarrow> (k, errno e)
      | Inr s \<Rightarrow>
          (case with_vfs (\<lambda>v. case resolve s v of
               (v', Inl e) \<Rightarrow> (v', Inl e)
             | (v', Inr (i, inode)) \<Rightarrow> (v', Inr (at_mount i (fo_file_type dyn_ops inode) v'))) k of
             (k1, Inl e) \<Rightarrow> (k1, vfs_error e (as_i64 enoent))
           | (k1, Inr ft) \<Rightarrow> if ft \<noteq> Directory then (k1, Ret ENOTDIR) else (k1\<lparr>k_cwd := s\<rparr>, Ret 0)))"

definition sys_getcwd :: "u64 \<Rightarrow> u64 \<Rightarrow> kernel \<Rightarrow> kernel \<times> outcome" where
  "sys_getcwd dst sz k =
     (if dst = 0 \<or> sz = 0 then (k, errno efault)
      else if unat sz < length (k_cwd k) + 1 then (k, errno einval)
      else (set_mem (poke dst (k_cwd k @ [0]) (memory_of k)) k, Ret 0))"

fun type_byte :: "FileType \<Rightarrow> u8" where
  "type_byte Regular = 1"
| "type_byte Directory = 2"
| "type_byte CharDevice = 3"
| "type_byte BlockDevice = 4"

text \<open>One entry of 72 bytes: the type, the name with its terminator, and seven zeros at the
  end; what lies between keeps its old contents.\<close>

definition put_dirent :: "u64 \<Rightarrow> DirEntry \<Rightarrow> (u64 \<Rightarrow> u8) \<Rightarrow> (u64 \<Rightarrow> u8)" where
  "put_dirent a e m =
     (let nm = take 63 (de_name e) in
      poke (a + 65) (replicate 7 0) (poke (a + 1) (nm @ [0]) (poke a [type_byte (de_type e)] m)))"

fun put_dirents :: "u64 \<Rightarrow> nat \<Rightarrow> nat \<Rightarrow> DirEntry list \<Rightarrow> (u64 \<Rightarrow> u8) \<Rightarrow> (u64 \<Rightarrow> u8) \<times> nat" where
  "put_dirents dst count written [] m = (m, written)"
| "put_dirents dst count written (e # es) m =
     (if count < written + 72 then (m, written)
      else put_dirents dst count (written + 72) es (put_dirent (dst + of_nat written) e m))"

definition sys_getdents :: "u64 \<Rightarrow> u64 \<Rightarrow> u64 \<Rightarrow> kernel \<Rightarrow> kernel \<times> outcome" where
  "sys_getdents path dst count k =
     (case read_path path k of
        Inl e \<Rightarrow> (k, errno e)
      | Inr s \<Rightarrow>
          if dst = 0 then (k, errno efault)
          else case with_vfs (vfs_readdir s) k of
            (k1, Inl e) \<Rightarrow> (k1, vfs_error e ENOTDIR)
          | (k1, Inr es) \<Rightarrow>
              (case put_dirents dst (unat count) 0 es (memory_of k1) of
                 (m, n) \<Rightarrow> (set_mem m k1, Ret (of_nat n))))"

end
