(* ===== verification/Sys_Process.thy ===== *)
theory Sys_Process
  imports Syscalls
begin

text \<open>
  System calls, second part: time, screen, input and processes, the dispatcher of
  \<^verbatim>\<open>kernel/src/syscalls/mod.rs\<close> with \<^verbatim>\<open>syscall_dispatch\<close>, and the interrupt handlers of
  \<^verbatim>\<open>interrupts/idt.rs\<close>.
\<close>

section \<open>Memory and time\<close>

text \<open>\<open>heap_alloc\<close> is the kernel's allocator for a layout of the given size and 4096-byte
  alignment; sizes that do not fit a layout are refused before.\<close>

definition sys_mmap :: "(u64 \<Rightarrow> kernel \<Rightarrow> kernel \<times> u64) \<Rightarrow> u64 \<Rightarrow> kernel \<Rightarrow> kernel \<times> outcome" where
  "sys_mmap heap_alloc len k =
     (if len = 0 then (k, errno einval)
      else if 0x7FFFFFFFFFFFF000 < len then (k, errno einval)
      else case heap_alloc len k of (k1, p) \<Rightarrow> if p = 0 then (k1, errno enomem) else (k1, Ret p))"

text \<open>The waiting loop, one timer tick per round. With interrupts disabled \<^verbatim>\<open>hlt\<close> does not
  return.\<close>

function sleep_until :: "u64 \<Rightarrow> u64 \<Rightarrow> u64" where
  "sleep_until target ticks = (if ticks < target then sleep_until target (time_tick ticks) else ticks)"
  by pat_completeness auto
termination
proof (relation "measure (\<lambda>(target, ticks). unat target - unat ticks)")
  fix target ticks :: u64 assume l: "ticks < target"
  then have "unat ticks + 1 < 2 ^ 64" using u64_bound [of target] by (simp add: word_less_nat_alt)
  then have "unat (ticks + 1) = Suc (unat ticks)" using unat_add_offset [of ticks 1] by simp
  then show "((target, time_tick ticks), target, ticks) \<in> measure (\<lambda>(target, ticks). unat target - unat ticks)"
    using l by (simp add: time_tick_def word_less_nat_alt)
qed simp

declare sleep_until.simps [simp del]

definition sys_nanosleep :: "u64 \<Rightarrow> kernel \<Rightarrow> kernel \<times> outcome" where
  "sys_nanosleep req_ticks k =
     (let target = k_ticks k + req_ticks in
      if k_ticks k < target \<and> \<not> k_interrupts k then (k, Stuck)
      else (k\<lparr>k_ticks := sleep_until target (k_ticks k)\<rparr>, Ret 0))"

definition sys_clock_gettime :: "u64 \<Rightarrow> u64 \<Rightarrow> kernel \<Rightarrow> kernel \<times> outcome" where
  "sys_clock_gettime clk_id tp k =
     (if tp = 0 then (k, errno efault)
      else if clk_id \<noteq> 1 then (k, errno einval)
      else case system_time (k_ticks k) of (secs, nanos) \<Rightarrow>
        (set_mem (wr64 (tp + 8) nanos (wr64 tp secs (memory_of k))) k, Ret 0))"

section \<open>Screen and input\<close>

definition sys_get_framebuffer_info :: "u64 \<Rightarrow> kernel \<Rightarrow> kernel \<times> outcome" where
  "sys_get_framebuffer_info info_ptr k =
     (if info_ptr = 0 then (k, errno efault)
      else case get_fb_state (k_graphics k) of
        None \<Rightarrow> (k, errno enosys)
      | Some (fb_addr, fb_len, w, h, stride, bpp, format) \<Rightarrow>
          (set_mem (wr64 (info_ptr + 48) fb_len (wr64 (info_ptr + 40) (ucast format) (wr64 (info_ptr + 32) (ucast bpp)
             (wr64 (info_ptr + 24) (ucast stride) (wr64 (info_ptr + 16) (ucast h) (wr64 (info_ptr + 8) (ucast w)
             (wr64 info_ptr fb_addr (memory_of k)))))))) k, Ret 0))"

text \<open>The rows of \<^verbatim>\<open>fb_commit\<close>, up to the first that does not fit.\<close>

fun commit_rows :: "u64 \<Rightarrow> u64 \<Rightarrow> u64 \<Rightarrow> u64 \<Rightarrow> u64 \<Rightarrow> u64 \<Rightarrow> u64 \<Rightarrow> u64 \<Rightarrow> nat list \<Rightarrow> (u64 \<Rightarrow> u8) \<Rightarrow> (u64 \<Rightarrow> u8)" where
  "commit_rows src dst fb_len x y stride bpp row_bytes [] m = m"
| "commit_rows src dst fb_len x y stride bpp row_bytes (row # rows) m =
     (let src_off = of_nat row * row_bytes;
          dst_off = ((y + of_nat row) * stride + x) * bpp
      in if fb_len < dst_off + row_bytes then m
         else commit_rows src dst fb_len x y stride bpp row_bytes rows
                (poke (dst + dst_off) (peek (src + src_off) (unat row_bytes) m) m))"

definition sys_fb_commit :: "u64 \<Rightarrow> u64 \<Rightarrow> u64 \<Rightarrow> u64 \<Rightarrow> u64 \<Rightarrow> kernel \<Rightarrow> kernel \<times> outcome" where
  "sys_fb_commit buf_ptr x y w h k =
     (if buf_ptr = 0 then (k, errno efault)
      else if w = 0 \<or> h = 0 then (k, errno einval)
      else case get_fb_state (k_graphics k) of
        None \<Rightarrow> (k, errno enosys)
      | Some (fb_addr, fb_len, fb_width, fb_height, fb_stride, bpp, _) \<Rightarrow>
          if ucast fb_width \<le> x \<or> ucast fb_height \<le> y then (k, errno einval)
          else
            let x_end = (if x + w < x then ucast fb_width else x + w);
                y_end = (if y + h < y then ucast fb_height else y + h)
            in if ucast fb_width < x_end \<or> ucast fb_height < y_end then (k, errno einval)
               else (set_mem (commit_rows buf_ptr fb_addr fb_len x y (ucast fb_stride) (ucast bpp) (w * ucast bpp)
                       [0..<unat h] (memory_of k)) k, Ret 0))"

text \<open>\<^verbatim>\<open>InputEvent\<close> is a packed structure.\<close>

definition event_bytes :: "InputEvent \<Rightarrow> bytes" where
  "event_bytes e = to_le 4 (event_type e) @ to_le 4 (keycode e) @ to_le 4 (key_char e) @ [key_pressed e, mouse_buttons e] @
     to_le 2 (mouse_dx e) @ to_le 2 (mouse_dy e)"

definition set_keys :: "ScancodeBuffer \<Rightarrow> kernel \<Rightarrow> kernel" where
  "set_keys q k = k\<lparr>k_vfs := (k_vfs k)\<lparr>devices := (devices (k_vfs k))\<lparr>dv_keys := q\<rparr>\<rparr>\<rparr>"

definition sys_poll_input :: "u64 \<Rightarrow> kernel \<Rightarrow> kernel \<times> outcome" where
  "sys_poll_input event_ptr k =
     (if event_ptr = 0 then (k, errno efault)
      else case poll_next False \<lparr>scancodes = dv_keys (devices (k_vfs k)), mouse = k_mouse k\<rparr> of
        None \<Rightarrow> (k, Stuck)
      | Some (s, ev, ret) \<Rightarrow>
          let k1 = set_keys (scancodes s) (k\<lparr>k_mouse := mouse s\<rparr>) in
          (case ev of
             Some e \<Rightarrow> (set_mem (poke event_ptr (event_bytes e) (memory_of k1)) k1, Ret ret)
           | None \<Rightarrow> (k1, Ret ret)))"

section \<open>Processes\<close>

definition sys_exit :: "i32 \<Rightarrow> kernel \<Rightarrow> kernel \<times> outcome" where
  "sys_exit status k =
     (let k1 = set_table (fst (mark_exit (current_pid (proc_table k)) status (proc_table k))) k
      in case switch_to_next no_locks (k_machine k1) of
           None \<Rightarrow> (k1, Stuck)
         | Some m \<Rightarrow> (k1\<lparr>k_machine := m\<rparr>, Gone))"

definition sys_getpid :: "kernel \<Rightarrow> kernel \<times> outcome" where
  "sys_getpid k = (k, Ret (ucast (current_pid (proc_table k))))"

definition sys_getppid :: "kernel \<Rightarrow> kernel \<times> outcome" where
  "sys_getppid k =
     (let current = current_pid (proc_table k) in
      if current = 0 then (k, Ret 0)
      else (k, Ret (case get current (proc_table k) of Some p \<Rightarrow> ucast (parent_pid p) | None \<Rightarrow> 0)))"

fun state_num :: "ProcessState \<Rightarrow> u64" where
  "state_num PFree = 0"
| "state_num Ready = 1"
| "state_num Running = 2"
| "state_num Blocked = 3"
| "state_num Zombie = 4"

definition proc_info :: "Process \<Rightarrow> bytes" where
  "proc_info p = to_le 8 (ucast (pid p) :: u64) @ to_le 8 (ucast (parent_pid p) :: u64) @ to_le 8 (state_num (state p)) @ name p"

fun put_procs :: "u64 \<Rightarrow> nat \<Rightarrow> nat \<Rightarrow> Process list \<Rightarrow> (u64 \<Rightarrow> u8) \<Rightarrow> (u64 \<Rightarrow> u8) \<times> nat" where
  "put_procs dst count written [] m = (m, written)"
| "put_procs dst count written (p # ps) m =
     (if pid p = 0 then put_procs dst count written ps m
      else if count \<le> written then (m, written)
      else put_procs dst count (written + 1) ps (poke (dst + of_nat (written * 40)) (proc_info p) m))"

definition sys_getprocs :: "u64 \<Rightarrow> u64 \<Rightarrow> kernel \<Rightarrow> kernel \<times> outcome" where
  "sys_getprocs dst count k =
     (if dst = 0 then (k, errno efault)
      else case put_procs dst (unat count) 0 (processes (proc_table k)) (memory_of k) of
        (m, n) \<Rightarrow> (set_mem m k, Ret (of_nat n)))"

text \<open>The kernel stack of a forked child: what \<^verbatim>\<open>iretq\<close> takes, the registers with \<open>rax\<close>
  cleared, the return address and six cleared registers for \<open>switch_context\<close>.\<close>

definition fork_stack :: "u64 \<Rightarrow> InterruptContext \<Rightarrow> ProcessKernelStack \<times> ram \<Rightarrow> ProcessKernelStack \<times> ram" where
  "fork_stack after_call ctx s =
     (case s of (st, m) \<Rightarrow>
      let frame = fold push_word [i_ss ctx, i_rsp ctx, i_rflags ctx, i_cs ctx, i_rip ctx] (stack_top st, m);
          gprs = [i_r15 ctx, i_r14 ctx, i_r13 ctx, i_r12 ctx, i_r11 ctx, i_r10 ctx, i_r9 ctx, i_r8 ctx, i_rbp ctx,
                  i_rdi ctx, i_rsi ctx, i_rdx ctx, i_rcx ctx, i_rbx ctx, 0];
          regs = fold push_word (rev gprs) frame
      in case fold push_word [after_call, 0, 0, 0, 0, 0, 0] regs of
           (sp, m') \<Rightarrow> (st\<lparr>saved_rsp := sp, initialised := True\<rparr>, m'))"

text \<open>\<open>ctx\<close> is the saved context (\<open>None\<close> for a null pointer). Interrupts are disabled
  while the slot is filled and enabled afterwards, but not when the table is full.\<close>

definition sys_fork :: "mapper \<Rightarrow> u64 \<Rightarrow> InterruptContext option \<Rightarrow> kernel \<Rightarrow> kernel \<times> outcome" where
  "sys_fork map_to after_call ctx k =
     (let parent = current_pid (proc_table k) in
      if parent = 0 then (k, errno enosys)
      else case ctx of
        None \<Rightarrow> (k, errno einval)
      | Some c \<Rightarrow>
          (case get parent (proc_table k) of
             None \<Rightarrow> (k, errno enosys)
           | Some p \<Rightarrow>
               (case from_cr3 (cr3 p) of
                  None \<Rightarrow> (k, errno enosys)
                | Some parent_as \<Rightarrow>
                    (case clone_user_space map_to (c_cr3 (processor (k_machine k))) parent_as (k_memory k) of
                       (mem, Inl e) \<Rightarrow> (k\<lparr>k_memory := mem\<rparr>, if e = panic then Halted else errno enomem)
                     | (mem, Inr child_cr3) \<Rightarrow>
                         (case alloc parent (as_bytes ''fork'') (proc_table k) of (t1, child) \<Rightarrow>
                            if child = 0 then (set_table t1 (k\<lparr>k_memory := mem, k_interrupts := False\<rparr>), errno enomem)
                            else case find_slot child t1 of
                              None \<Rightarrow> (set_table t1 (k\<lparr>k_memory := mem, k_interrupts := False\<rparr>), Halted)
                            | Some i \<Rightarrow>
                                let t2 = modify i (\<lambda>q. (set_name (name p) (q\<lparr>entry_point := entry_point p, user_rsp := i_rsp c,
                                           cr3 := child_cr3, fd_table := fd_table p\<rparr>))\<lparr>state := Ready\<rparr>) t1;
                                    k1 = set_table t2 (k\<lparr>k_memory := mem, k_interrupts := True\<rparr>)
                                in case fork_stack after_call c (stacks (k_machine k1) ! i, memory_of k1) of
                                     (st, m) \<Rightarrow>
                                       (k1\<lparr>k_machine := (k_machine k1)\<lparr>stacks := (stacks (k_machine k1))[i := st], kmem := m\<rparr>\<rparr>,
                                        Ret (ucast child)))))))"

definition wait_target :: "u64 \<Rightarrow> ProcessTable \<Rightarrow> nat option" where
  "wait_target k t = position (\<lambda>p. pid p \<noteq> 0 \<and> parent_pid p = current_pid t \<and> (k = - 1 \<or> ucast (pid p) = k)) (processes t)"

text \<open>One round of the loop of \<^verbatim>\<open>waitpid\<close>: it looks at the first matching child only.\<close>

definition sys_waitpid :: "u64 \<Rightarrow> u64 \<Rightarrow> kernel \<Rightarrow> kernel \<times> outcome" where
  "sys_waitpid child status_ptr k =
     (case wait_target child (proc_table k) of
        None \<Rightarrow> (k, Ret ECHILD)
      | Some i \<Rightarrow>
          let p = processes (proc_table k) ! i in
          if state p = Zombie then
            (let k1 = (if status_ptr \<noteq> 0 then set_mem (poke status_ptr (to_le 4 (exit_code p)) (memory_of k)) k else k)
             in case free_process (pid p) (proc_table k1, k_memory k1) of
                  ((t, mem), _) \<Rightarrow> (set_table t (k1\<lparr>k_memory := mem\<rparr>), Ret (ucast (pid p))))
          else yielding k)"

section \<open>Replacing the program\<close>

text \<open>At most 16 arguments of at most 64 bytes, together at most 512 bytes.\<close>

definition arg_length :: "u64 \<Rightarrow> (u64 \<Rightarrow> u8) \<Rightarrow> nat" where
  "arg_length p m = (case find (\<lambda>i. m (p + of_nat i) = 0) [0..<64] of Some l \<Rightarrow> l | None \<Rightarrow> 64)"

fun collect_args :: "u64 \<Rightarrow> (u64 \<Rightarrow> u8) \<Rightarrow> nat \<Rightarrow> nat list \<Rightarrow> bytes list" where
  "collect_args argv m used [] = []"
| "collect_args argv m used (i # is) =
     (let p = rd64 m (argv + 8 * of_nat i) in
      if p = 0 then []
      else let l = arg_length p m in
        if l = 0 then []
        else if 512 < used + l + 1 then []
        else peek p l m # collect_args argv m (used + l + 1) is)"

text \<open>The arguments on the new stack. \<open>p\<close> is the physical address that the loader's
  \<^verbatim>\<open>translate(USER_STACK_TOP - 1)\<close> gave, taken as the start of the stack's top page.\<close>

definition push_string :: "u64 \<Rightarrow> u64 \<Rightarrow> bytes \<Rightarrow> u64 \<times> ram \<times> u64 list \<Rightarrow> u64 \<times> ram \<times> u64 list" where
  "push_string page_base p arg = (\<lambda>(sp, m, ptrs).
     let sp' = sp - of_nat (length arg + 1) in (sp', poke sp' (arg @ [0]) m, (page_base + (sp' - p)) # ptrs))"

definition push_args :: "u64 \<Rightarrow> bytes list \<Rightarrow> ram \<Rightarrow> u64 \<times> ram" where
  "push_args p args m =
     (let page_base = USER_STACK_TOP - 4096 in
      case fold (push_string page_base p) (rev args) (p + 4096, m, []) of
        (sp1, m1, ptrs) \<Rightarrow>
          (case push_word (of_nat (length args)) (push_word 0 (fold push_word (rev ptrs) (sp1 AND NOT 7, m1))) of
             (sp, m2) \<Rightarrow> (page_base + (sp - p), m2)))"

definition contains_dots :: "bytes \<Rightarrow> bool" where
  "contains_dots s \<longleftrightarrow> (\<exists>i < length s - 1. s ! i = 0x2E \<and> s ! (i + 1) = 0x2E)"

definition padded_name :: "bytes \<Rightarrow> bytes" where
  "padded_name nm = take 15 nm @ replicate (16 - min (length nm) 15) 0"

definition free_old_space :: "u64 \<Rightarrow> kernel \<Rightarrow> kernel" where
  "free_old_space new_cr3 k =
     (let old_cr3 = (case get (current_pid (proc_table k)) (proc_table k) of Some p \<Rightarrow> cr3 p | None \<Rightarrow> 0) in
      if old_cr3 \<noteq> 0 \<and> old_cr3 \<noteq> new_cr3 \<and> old_cr3 AND 0xfff = 0
      then k\<lparr>k_memory := dealloc_user old_cr3 (k_memory k)\<rparr> else k)"

definition replace_image :: "u64 \<Rightarrow> bytes \<Rightarrow> u64 \<Rightarrow> u64 \<Rightarrow> u64 \<Rightarrow> kernel \<Rightarrow> kernel \<times> outcome" where
  "replace_image trampoline path entry new_rsp new_cr3 k =
     (let cur = current_pid (proc_table k);
          t = with_proc cur (\<lambda>p. p\<lparr>entry_point := entry, user_rsp := new_rsp, cr3 := new_cr3,
                name := padded_name (last_component path), state := Ready\<rparr>) (proc_table k);
          i = (case find_slot cur t of Some i \<Rightarrow> i | None \<Rightarrow> 0);
          m = init_process_stack i trampoline ((k_machine k)\<lparr>table := t\<rparr>)
      in case restart_current no_locks m of
           None \<Rightarrow> (k\<lparr>k_machine := m\<rparr>, Stuck)
         | Some m' \<Rightarrow> (k\<lparr>k_machine := m'\<rparr>, if cur = 0 then Ret 0 else Gone))"

definition sys_exec :: "mapper \<Rightarrow> u64 \<Rightarrow> u64 \<Rightarrow> u64 \<Rightarrow> kernel \<Rightarrow> kernel \<times> outcome" where
  "sys_exec map_to trampoline path argv k =
     (if path = 0 then (k, errno efault)
      else case c_string 256 path (memory_of k) of
        None \<Rightarrow> (k, errno einval)
      | Some raw \<Rightarrow>
          if raw = [] \<or> hd raw \<noteq> 0x2F then (k, errno einval)
          else let s = str_or_empty raw in
            if contains_dots s then (k, errno einval)
            else case with_vfs (read_all s) k of
              (k1, Inl e) \<Rightarrow> (k1, vfs_error e (as_i64 enoent))
            | (k1, Inr d) \<Rightarrow>
                if d = [] then (k1, errno enoent)
                else case load_elf_into_new_space map_to (c_cr3 (processor (k_machine k1))) d (k_memory k1) of
                  (mem, Inl e) \<Rightarrow> (k1\<lparr>k_memory := mem\<rparr>, vfs_error e (as_i64 enoent))
                | (mem, Inr (pml4, entry, _)) \<Rightarrow>
                    let args = (if argv = 0 then [] else collect_args argv (memory_of k1) 0 [0..<16]) in
                    (case translate (ram mem) pml4 (USER_STACK_TOP - 1) of
                       None \<Rightarrow> (k1\<lparr>k_memory := mem\<rparr>, errno efault)
                     | Some p \<Rightarrow>
                         (case push_args p args (ram mem) of
                            (new_rsp, r) \<Rightarrow>
                              replace_image trampoline s entry new_rsp pml4
                                (free_old_space pml4 (k1\<lparr>k_memory := mem\<lparr>ram := r\<rparr>\<rparr>)))))"

section \<open>Dispatch\<close>

datatype SyscallNum = Open | Read | Write | Mmap | Nanosleep | ClockGettime | GetFramebufferInfo | FbCommit | PollInput
  | Kill | Exit | Exec | Getpid | Close | Mkdir | Unlink | Stat | Chdir | Getcwd | Fork | Waitpid | Getppid | Getdents | Getprocs

definition from_u64 :: "u64 \<Rightarrow> SyscallNum option" where
  "from_u64 n = map_of [(1, Open), (2, Read), (3, Write), (4, Mmap), (5, Nanosleep), (6, ClockGettime),
     (7, GetFramebufferInfo), (8, FbCommit), (9, PollInput), (10, Kill), (11, Exit), (12, Exec), (13, Getpid),
     (14, Close), (15, Mkdir), (16, Unlink), (17, Stat), (18, Chdir), (19, Getcwd), (20, Fork), (21, Waitpid),
     (22, Getppid), (23, Getdents), (24, Getprocs)] n"

fun perm_resource :: "SyscallNum \<Rightarrow> Resource option" where
  "perm_resource GetFramebufferInfo = Some RFramebuffer"
| "perm_resource FbCommit = Some RFramebuffer"
| "perm_resource PollInput = Some InputEvents"
| "perm_resource Kill = Some ProcessControl"
| "perm_resource Exec = Some RExec"
| "perm_resource _ = None"

text \<open>What the calls take from outside the kernel's sources, and two code addresses.\<close>

record env =
  e_map_to :: mapper
  e_heap :: "u64 \<Rightarrow> kernel \<Rightarrow> kernel \<times> u64"
  e_trampoline :: u64
  e_after_call :: u64

fun perform :: "env \<Rightarrow> SyscallNum \<Rightarrow> u64 \<Rightarrow> u64 \<Rightarrow> u64 \<Rightarrow> u64 \<Rightarrow> u64 \<Rightarrow> InterruptContext option \<Rightarrow> kernel \<Rightarrow> kernel \<times> outcome" where
  "perform ev Open a0 a1 a2 a3 a4 ctx k = sys_open a0 (ucast a1) k"
| "perform ev Read a0 a1 a2 a3 a4 ctx k = sys_read (ucast a0) a1 a2 k"
| "perform ev Write a0 a1 a2 a3 a4 ctx k = sys_write (ucast a0) a1 a2 k"
| "perform ev Mmap a0 a1 a2 a3 a4 ctx k = sys_mmap (e_heap ev) a1 k"
| "perform ev Nanosleep a0 a1 a2 a3 a4 ctx k = sys_nanosleep a0 k"
| "perform ev ClockGettime a0 a1 a2 a3 a4 ctx k = sys_clock_gettime a0 a1 k"
| "perform ev GetFramebufferInfo a0 a1 a2 a3 a4 ctx k = sys_get_framebuffer_info a0 k"
| "perform ev FbCommit a0 a1 a2 a3 a4 ctx k = sys_fb_commit a0 a1 a2 a3 a4 k"
| "perform ev PollInput a0 a1 a2 a3 a4 ctx k = sys_poll_input a0 k"
| "perform ev Kill a0 a1 a2 a3 a4 ctx k =
     (case sys_kill (ucast a0) (ucast a1) (proc_table k) of (t, r) \<Rightarrow> (set_table t k, Ret r))"
| "perform ev Exit a0 a1 a2 a3 a4 ctx k = sys_exit (ucast a0) k"
| "perform ev Exec a0 a1 a2 a3 a4 ctx k = sys_exec (e_map_to ev) (e_trampoline ev) a0 a1 k"
| "perform ev Getdents a0 a1 a2 a3 a4 ctx k = sys_getdents a0 a1 a2 k"
| "perform ev Getprocs a0 a1 a2 a3 a4 ctx k = sys_getprocs a0 a1 k"
| "perform ev Getpid a0 a1 a2 a3 a4 ctx k = sys_getpid k"
| "perform ev Close a0 a1 a2 a3 a4 ctx k = sys_close (ucast a0) k"
| "perform ev Mkdir a0 a1 a2 a3 a4 ctx k = sys_mkdir a0 k"
| "perform ev Unlink a0 a1 a2 a3 a4 ctx k = sys_unlink a0 k"
| "perform ev Stat a0 a1 a2 a3 a4 ctx k = sys_stat a0 a1 k"
| "perform ev Chdir a0 a1 a2 a3 a4 ctx k = sys_chdir a0 k"
| "perform ev Getcwd a0 a1 a2 a3 a4 ctx k = sys_getcwd a0 a1 k"
| "perform ev Fork a0 a1 a2 a3 a4 ctx k = sys_fork (e_map_to ev) (e_after_call ev) ctx k"
| "perform ev Waitpid a0 a1 a2 a3 a4 ctx k = sys_waitpid a0 a1 k"
| "perform ev Getppid a0 a1 a2 a3 a4 ctx k = sys_getppid k"

definition dispatch_syscall :: "env \<Rightarrow> u64 \<Rightarrow> u64 \<Rightarrow> u64 \<Rightarrow> u64 \<Rightarrow> u64 \<Rightarrow> u64 \<Rightarrow> InterruptContext option \<Rightarrow> kernel \<Rightarrow> kernel \<times> outcome" where
  "dispatch_syscall ev num a0 a1 a2 a3 a4 ctx k =
     (case from_u64 num of
        None \<Rightarrow> (k, errno enosys)
      | Some call \<Rightarrow>
          if (case perm_resource call of Some res \<Rightarrow> \<not> check_perm res k | None \<Rightarrow> False) then (k, Ret EPERM)
          else perform ev call a0 a1 a2 a3 a4 ctx k)"

text \<open>\<^verbatim>\<open>syscall_dispatch\<close>: the registers as the program gets them back when the call returns.\<close>

definition syscall_dispatch :: "env \<Rightarrow> InterruptContext \<Rightarrow> kernel \<Rightarrow> kernel \<times> (outcome + InterruptContext)" where
  "syscall_dispatch ev ctx k =
     (case dispatch_syscall ev (i_rax ctx) (i_rdi ctx) (i_rsi ctx) (i_rdx ctx) (i_r10 ctx) (i_r8 ctx) (Some ctx) k of
        (k', Ret v) \<Rightarrow> (k', Inr (ctx\<lparr>i_rax := v\<rparr>))
      | (k', other) \<Rightarrow> (k', Inl other))"

section \<open>Interrupts\<close>

definition timer_interrupt :: "locks \<Rightarrow> kernel \<Rightarrow> kernel \<times> outcome" where
  "timer_interrupt l k =
     (let k1 = k\<lparr>k_ticks := time_tick (k_ticks k)\<rparr> in
      case on_timer_tick l (k_machine k1) of
        None \<Rightarrow> (k1, Stuck)
      | Some m \<Rightarrow> (k1\<lparr>k_machine := m\<rparr>, Ret 0))"

definition keyboard_interrupt :: "u8 \<Rightarrow> kernel \<Rightarrow> kernel" where
  "keyboard_interrupt scancode k = set_keys (sb_push scancode (dv_keys (devices (k_vfs k)))) k"

definition mouse_interrupt :: "u8 \<Rightarrow> kernel \<Rightarrow> kernel" where
  "mouse_interrupt b k = k\<lparr>k_mouse := on_byte b (k_mouse k)\<rparr>"

text \<open>A page fault ends the process that caused it; in the kernel it is a panic.\<close>

definition page_fault_handler :: "bool \<Rightarrow> kernel \<Rightarrow> kernel \<times> outcome" where
  "page_fault_handler in_user_mode k =
     (if in_user_mode then
        (let k1 = set_table (fst (mark_exit (current_pid (proc_table k)) 139 (proc_table k))) k
         in case switch_to_next no_locks (k_machine k1) of
              None \<Rightarrow> (k1, Stuck)
            | Some m \<Rightarrow> (k1\<lparr>k_machine := m\<rparr>, Gone))
      else (k, Halted))"

section \<open>A kernel to evaluate with\<close>

definition demo_kernel :: kernel where
  "demo_kernel = \<lparr>k_machine = demo_machine, k_memory = demo_memory,
     k_vfs = \<lparr>mounts = [\<lparr>mount_point = [0x2F], mount_root = 1, ops = FsTmpfs tmpfs_new\<rparr>],
       devices = \<lparr>dv_disk = blank_disk, dv_keys = sb_new, dv_serial = [], dv_fb = None\<rparr>\<rparr>,
     k_mouse = mouse_new, k_ticks = 0, k_fds = fd_new, k_cwd = [], k_console = initial_writer [], k_stdin = [],
     k_graphics = \<lparr>g_info = None, g_buffer = 0, g_len = 0\<rparr>, k_interrupts = False\<rparr>"

end
