(* ===== verification/Interrupts.thy ===== *)
theory Interrupts
  imports Sys_Process
begin

text \<open>
  Descriptor tables and interrupt delivery: the segments and the task state segment of
  \<^verbatim>\<open>kernel/src/interrupts/gdt.rs\<close>, the table of handlers in \<^verbatim>\<open>interrupts/idt.rs\<close>, the
  vectors and masks of \<^verbatim>\<open>interrupts/mod.rs\<close> and the timer's divisor in \<^verbatim>\<open>syscalls/time.rs\<close>. The
  8259 controllers (crate \<^verbatim>\<open>pic8259\<close>) and the table of the crate \<^verbatim>\<open>x86_64\<close> are arguments.
  The bodies of the handlers that change the kernel are in theory \<open>Sys_Process\<close>; here they are put
  behind the table, with the end-of-interrupt message that the hardware handlers send last.
\<close>

unbundle bit_operations_syntax

section \<open>Segments\<close>

datatype descriptor = kernel_code_segment | kernel_data_segment | tss_segment | user_data_segment | user_code_segment

text \<open>The selectors in the order of the tuple in the source.\<close>

record selectors =
  sel_kernel_code :: u16
  sel_kernel_data :: u16
  sel_tss :: u16
  sel_user_data :: u16
  sel_user_code :: u16

definition GDT :: "(descriptor \<Rightarrow> 'g \<Rightarrow> 'g \<times> u16) \<Rightarrow> 'g \<Rightarrow> 'g \<times> selectors" where
  "GDT append_entry g =
     (case append_entry kernel_code_segment g of (g1, kernel_code) \<Rightarrow>
      case append_entry kernel_data_segment g1 of (g2, kernel_data) \<Rightarrow>
      case append_entry tss_segment g2 of (g3, tss) \<Rightarrow>
      case append_entry user_data_segment g3 of (g4, user_data) \<Rightarrow>
      case append_entry user_code_segment g4 of (g5, user_code) \<Rightarrow>
        (g5, \<lparr>sel_kernel_code = kernel_code, sel_kernel_data = kernel_data, sel_tss = tss,
              sel_user_data = user_data, sel_user_code = user_code\<rparr>))"

definition KERNEL_STACK_SIZE :: u64 where "KERNEL_STACK_SIZE = 64 * 1024"
definition DOUBLE_FAULT_IST :: nat where "DOUBLE_FAULT_IST = 0"

record task_state =
  privilege_stack_table :: "u64 list"
  interrupt_stack_table :: "u64 list"

text \<open>The addresses of the two static stacks are arguments.\<close>

definition TSS :: "u64 \<Rightarrow> u64 \<Rightarrow> task_state" where
  "TSS kernel_stack double_fault_stack =
     \<lparr>privilege_stack_table = (replicate 3 0)[0 := kernel_stack + KERNEL_STACK_SIZE],
      interrupt_stack_table = (replicate 7 0)[DOUBLE_FAULT_IST := double_fault_stack + 20480]\<rparr>"

record segment_registers =
  r_cs :: u16
  r_ss :: u16
  r_ds :: u16
  r_es :: u16
  r_tr :: u16

definition gdt_init :: "selectors \<Rightarrow> segment_registers \<Rightarrow> segment_registers" where
  "gdt_init sel r = r\<lparr>r_cs := sel_kernel_code sel, r_ss := sel_kernel_data sel, r_ds := sel_kernel_data sel,
     r_es := sel_kernel_data sel, r_tr := sel_tss sel\<rparr>"

section \<open>Vectors\<close>

definition PIC_1_OFFSET :: u8 where "PIC_1_OFFSET = 0x20"
definition PIC_2_OFFSET :: u8 where "PIC_2_OFFSET = 0x28"

datatype InterruptIndex = Timer | Keyboard | Mouse | IdePrimary | IdeSecondary

primrec as_u8 :: "InterruptIndex \<Rightarrow> u8" where
  "as_u8 Timer = PIC_1_OFFSET"
| "as_u8 Keyboard = PIC_1_OFFSET + 1"
| "as_u8 Mouse = PIC_2_OFFSET + 4"
| "as_u8 IdePrimary = PIC_2_OFFSET + 6"
| "as_u8 IdeSecondary = PIC_2_OFFSET + 7"

datatype handler =
    breakpoint_handler | double_fault_handler | page_fault | general_protection_handler
  | stack_segment_handler | invalid_opcode_handler | divide_error_handler
  | timer_interrupt_handler | keyboard_interrupt_handler | mouse_interrupt_handler | ide_interrupt_handler
  | syscall_handler

text \<open>A gate names its handler, whether user mode may call it with \<^verbatim>\<open>int\<close>, and the stack it
  switches to.\<close>

record gate =
  handler_fn :: handler
  ring3 :: bool
  stack_index :: "nat option"

abbreviation kernel_gate :: "handler \<Rightarrow> gate" where
  "kernel_gate h \<equiv> \<lparr>handler_fn = h, ring3 = False, stack_index = None\<rparr>"

text \<open>The named fields of the table are the vectors that the processor gives to the exceptions.\<close>

definition IDT :: "u8 \<rightharpoonup> gate" where
  "IDT = Map.empty(
     3 \<mapsto> kernel_gate breakpoint_handler,
     8 \<mapsto> \<lparr>handler_fn = double_fault_handler, ring3 = False, stack_index = Some DOUBLE_FAULT_IST\<rparr>,
     14 \<mapsto> kernel_gate page_fault,
     13 \<mapsto> kernel_gate general_protection_handler,
     12 \<mapsto> kernel_gate stack_segment_handler,
     6 \<mapsto> kernel_gate invalid_opcode_handler,
     0 \<mapsto> kernel_gate divide_error_handler,
     as_u8 Timer \<mapsto> kernel_gate timer_interrupt_handler,
     as_u8 Keyboard \<mapsto> kernel_gate keyboard_interrupt_handler,
     as_u8 Mouse \<mapsto> kernel_gate mouse_interrupt_handler,
     as_u8 IdePrimary \<mapsto> kernel_gate ide_interrupt_handler,
     as_u8 IdeSecondary \<mapsto> kernel_gate ide_interrupt_handler,
     0x80 \<mapsto> \<lparr>handler_fn = syscall_handler, ring3 = True, stack_index = None\<rparr>)"

section \<open>Exceptions\<close>

text \<open>
  What the handlers of the exceptions do. A vector without a gate makes the processor look for
  the gate of the resulting fault (vector 11), which has none either, and so ends in the double
  fault handler.
\<close>

definition exception_handler :: "handler \<Rightarrow> bool \<Rightarrow> kernel \<Rightarrow> kernel \<times> outcome" where
  "exception_handler h in_user_mode k =
     (case h of
        breakpoint_handler \<Rightarrow> (k, Ret 0)
      | page_fault \<Rightarrow> page_fault_handler in_user_mode k
      | _ \<Rightarrow> (k, Halted))"

definition raise_exception :: "u8 \<Rightarrow> bool \<Rightarrow> kernel \<Rightarrow> kernel \<times> outcome" where
  "raise_exception v in_user_mode k =
     (case IDT v of
        None \<Rightarrow> exception_handler double_fault_handler in_user_mode k
      | Some g \<Rightarrow> exception_handler (handler_fn g) in_user_mode k)"

text \<open>The instruction \<^verbatim>\<open>int v\<close> in user mode: without a gate open to user mode it is a general
  protection fault, else the trampoline runs (the only such gate is the system call).\<close>

definition user_int :: "env \<Rightarrow> u8 \<Rightarrow> InterruptContext \<Rightarrow> kernel \<Rightarrow> kernel \<times> (outcome + InterruptContext)" where
  "user_int ev v ctx k =
     (case IDT v of
        Some g \<Rightarrow>
          if ring3 g then syscall_dispatch ev ctx k
          else (case raise_exception 13 True k of (k', out) \<Rightarrow> (k', Inl out))
      | None \<Rightarrow> (case raise_exception 13 True k of (k', out) \<Rightarrow> (k', Inl out)))"

section \<open>Interrupts from the controllers\<close>

text \<open>
  The two cascaded controllers, as the crate offers them: \<open>pic_accepts v p\<close> says that they would
  pass the interrupt \<open>v\<close> on to the processor if its line were raised, \<open>pic_acknowledge v p\<close> is their state
  when the processor has taken it.
\<close>

record 'p pic_ops =
  pic_accepts :: "u8 \<Rightarrow> 'p \<Rightarrow> bool"
  pic_acknowledge :: "u8 \<Rightarrow> 'p \<Rightarrow> 'p"
  notify_end_of_interrupt :: "u8 \<Rightarrow> 'p \<Rightarrow> 'p"
  pic_initialize :: "'p \<Rightarrow> 'p"
  write_masks :: "u8 \<Rightarrow> u8 \<Rightarrow> 'p \<Rightarrow> 'p"

text \<open>The controllers as \<open>interrupts::init\<close> and \<open>enable_input\<close> leave them; only the second is
  called when the kernel starts, after \<open>pic_initialize\<close>.\<close>

definition enable_input :: "'p pic_ops \<Rightarrow> 'p \<Rightarrow> 'p" where
  "enable_input pc p = write_masks pc 0xF8 0xEF p"

definition enable_keyboard :: "'p pic_ops \<Rightarrow> 'p \<Rightarrow> 'p" where
  "enable_keyboard pc p = enable_input pc p"

definition interrupts_init :: "'p pic_ops \<Rightarrow> selectors \<Rightarrow> segment_registers \<times> (u8 \<rightharpoonup> gate) option \<times> 'p \<times> bool \<Rightarrow>
    segment_registers \<times> (u8 \<rightharpoonup> gate) option \<times> 'p \<times> bool" where
  "interrupts_init pc sel =
     (\<lambda>(r, idt, p, enabled). (gdt_init sel r, Some IDT, write_masks pc 0xF8 0xEF (pic_initialize pc p), True))"

text \<open>
  The kernel with its controllers. \<open>q_owed\<close> lists the processes that lost the processor inside the
  timer handler: the rest of their handler, with the end-of-interrupt message, runs when they are
  switched in again.
\<close>

record 'p irq_state =
  q_kernel :: kernel
  q_pics :: 'p
  q_owed :: "u32 list"

abbreviation q_current :: "'p irq_state \<Rightarrow> u32" where
  "q_current s \<equiv> current_pid (proc_table (q_kernel s))"

text \<open>The processor is with another process than before: it continues where that one stopped.\<close>

definition resume_handler :: "'p pic_ops \<Rightarrow> u32 \<Rightarrow> 'p irq_state \<Rightarrow> 'p irq_state" where
  "resume_handler pc old s =
     (if q_current s \<noteq> old \<and> q_current s \<in> set (q_owed s)
      then s\<lparr>q_pics := notify_end_of_interrupt pc (as_u8 Timer) (q_pics s), q_owed := removeAll (q_current s) (q_owed s)\<rparr>
      else s)"

text \<open>
  The timer handler. If the scheduler switches, what follows the call waits on the stack of the
  process that leaves; the idle loop (process 0) has no slot to save its stack pointer in, so for
  it nothing is kept.
\<close>

definition timer_irq :: "'p pic_ops \<Rightarrow> locks \<Rightarrow> 'p irq_state \<Rightarrow> 'p irq_state" where
  "timer_irq pc l s =
     (let old = q_current s;
          s1 = s\<lparr>q_pics := pic_acknowledge pc (as_u8 Timer) (q_pics s), q_kernel := fst (timer_interrupt l (q_kernel s))\<rparr>
      in if q_current s1 = old
         then s1\<lparr>q_pics := notify_end_of_interrupt pc (as_u8 Timer) (q_pics s1)\<rparr>
         else resume_handler pc old (s1\<lparr>q_owed := (if old = 0 then q_owed s else old # q_owed s)\<rparr>))"

text \<open>The other hardware handlers; the byte is what port \<^verbatim>\<open>0x60\<close> holds.\<close>

definition device_irq :: "'p pic_ops \<Rightarrow> InterruptIndex \<Rightarrow> u8 \<Rightarrow> 'p irq_state \<Rightarrow> 'p irq_state" where
  "device_irq pc v b s =
     (let s1 = s\<lparr>q_pics := pic_acknowledge pc (as_u8 v) (q_pics s)\<rparr> in
      case v of
        Keyboard \<Rightarrow> s1\<lparr>q_kernel := keyboard_interrupt b (q_kernel s),
                       q_pics := notify_end_of_interrupt pc (as_u8 Keyboard) (q_pics s1)\<rparr>
      | Mouse \<Rightarrow> s1\<lparr>q_kernel := mouse_interrupt b (q_kernel s),
                    q_pics := notify_end_of_interrupt pc (as_u8 Mouse) (q_pics s1)\<rparr>
      | _ \<Rightarrow> s1\<lparr>q_pics := notify_end_of_interrupt pc (as_u8 IdePrimary) (q_pics s1)\<rparr>)"

text \<open>
  One step: an interrupt that the controllers pass on, or anything that the kernel and the
  processes do between interrupts (any new state of the kernel).
\<close>

inductive irq_step :: "'p pic_ops \<Rightarrow> 'p irq_state \<Rightarrow> 'p irq_state \<Rightarrow> bool" for pc where
  step_timer: "pic_accepts pc (as_u8 Timer) (q_pics s) \<Longrightarrow> irq_step pc s (timer_irq pc l s)"
| step_device: "v \<noteq> Timer \<Longrightarrow> pic_accepts pc (as_u8 v) (q_pics s) \<Longrightarrow> irq_step pc s (device_irq pc v b s)"
| step_kernel: "irq_step pc s (resume_handler pc (q_current s) (s\<lparr>q_kernel := k\<rparr>))"

inductive irq_reach :: "'p pic_ops \<Rightarrow> 'p irq_state \<Rightarrow> 'p irq_state \<Rightarrow> bool" for pc where
  irq_refl: "irq_reach pc s s"
| irq_trans: "irq_reach pc s s' \<Longrightarrow> irq_step pc s' s'' \<Longrightarrow> irq_reach pc s s''"

section \<open>The timer of the machine\<close>

text \<open>The bytes that \<open>time::init\<close> writes, with their ports.\<close>

definition time_init :: "(u16 \<times> u8) list" where
  "time_init = (let divisor = 1193 :: u16 in
     [(0x43, 0x36), (0x40, ucast (divisor AND 0xFF)), (0x40, ucast (drop_bit 8 divisor))])"

section \<open>Lemmas\<close>

declare as_u8.simps [simp del]
lemmas vector_defs = as_u8.simps PIC_1_OFFSET_def PIC_2_OFFSET_def

lemma timer_kernel:
  "on_timer_tick l (k_machine k) = Some m \<Longrightarrow> k_machine (fst (timer_interrupt l k)) = m"
  by (simp add: timer_interrupt_def)

text \<open>The idle loop has no slot: a switch away from it saves nothing.\<close>

lemma idle_schedule:
  assumes i: "sched_inv (table m)" and c: "current_pid (table m) = 0" and r: "proc_map (table m) k = Some p" "state p = Ready"
    and a: "\<forall>j < MAX_PROCESSES. state (processes (table m) ! j) = Ready \<longrightarrow> initialised (stacks m ! j)"
  shows "\<exists>m'. schedule no_locks m = Some m' \<and> current_pid (table m') \<noteq> 0 \<and> stacks m' = stacks m"
proof -
  note w = sched_inv_wf [OF i]
  have nl: "\<not> table_held no_locks" by (simp add: no_locks_def)
  obtain j where j: "j < 32" "processes (table m) ! j = p" "pid p = k"
    using r(1) by (auto simp: proc_map_Some_iff [OF w] MAX_PROCESSES_def)
  have "k \<noteq> 0" using r(1) proc_map_Some_iff [OF w] by auto
  then have "ready_at (table m) j" using r(2) j by (simp add: ready_at_def)
  then have "find_next_ready no_locks 0 (table m) \<noteq> None" using find_next_ready_None [OF w nl] j(1) by blast
  then obtain n where n: "find_next_ready no_locks 0 (table m) = Some n" by blast
  obtain d where d: "ready_at (table m) ((slot_of 0 (table m) + d) mod 32)" "n = pid (processes (table m) ! ((slot_of 0 (table m) + d) mod 32))"
    using n find_next_ready_Some [OF w nl] by blast
  define q where "q = (slot_of 0 (table m) + d) mod 32"
  have q: "q < 32" "pid (processes (table m) ! q) = n" "initialised (stacks m ! q)"
    using d a by (simp_all add: q_def ready_at_def MAX_PROCESSES_def)
  have nz: "n \<noteq> 0" by (rule find_next_ready_nonzero [OF n])
  have s: "find_slot n (table m) = Some q"
    using get_mut_Some [OF w nz] q by (simp add: find_slot_eq MAX_PROCESSES_def)
  show ?thesis using n nz s q(3) c
    by (auto simp: schedule_def do_context_switch_def no_locks_def store_rsp_def Let_def split: prod.splits)
qed

lemma idle_tick:
  assumes "sched_inv (table m)" "current_pid (table m) = 0" "proc_map (table m) k = Some p" "state p = Ready"
    and "\<forall>j < MAX_PROCESSES. state (processes (table m) ! j) = Ready \<longrightarrow> initialised (stacks m ! j)"
    and s: "active (sched m)" "current_slice (sched m) \<le> 1"
  shows "\<exists>m'. on_timer_tick no_locks m = Some m' \<and> current_pid (table m') \<noteq> 0 \<and> stacks m' = stacks m"
proof -
  have "current_slice (sched m) = 0 \<or> current_slice (sched m) = 1"
    using s(2) by (simp add: word_le_nat_alt word_unat_eq_iff) linarith
  then have z: "current_slice (sched (count_slice m)) = 0" by (auto simp: count_slice_def)
  have "on_timer_tick no_locks m = schedule no_locks (count_slice m)"
    using s(1) z unfolding on_timer_tick_def Let_def count_slice_def [symmetric] by (simp add: no_locks_def)
  with idle_schedule [of "count_slice m" k p] assms(1-5) show ?thesis by simp
qed

text \<open>Until its end-of-interrupt message the timer's interrupt, the one of the highest priority,
  keeps every other one back.\<close>

definition fully_nested :: "'p pic_ops \<Rightarrow> bool" where
  "fully_nested pc \<longleftrightarrow> (\<forall>v p. \<not> pic_accepts pc (as_u8 v) (pic_acknowledge pc (as_u8 Timer) p))"

text \<open>No interrupt is on its way and no process will send the missing message.\<close>

definition deaf :: "'p pic_ops \<Rightarrow> 'p irq_state \<Rightarrow> bool" where
  "deaf pc s \<longleftrightarrow> q_owed s = [] \<and> (\<forall>v. \<not> pic_accepts pc (as_u8 v) (q_pics s))"

lemma deaf_step:
  assumes "irq_step pc s s'" "deaf pc s"
  shows "deaf pc s'"
  using assms by cases (auto simp: deaf_def resume_handler_def)

lemma deaf_reach: "irq_reach pc s s' \<Longrightarrow> deaf pc s \<Longrightarrow> deaf pc s'"
  by (induction rule: irq_reach.induct) (auto intro: deaf_step)

text \<open>At most one process owes a message, it is not the one that runs, and meanwhile no interrupt
  is accepted.\<close>

definition owed_inv :: "'p pic_ops \<Rightarrow> 'p irq_state \<Rightarrow> bool" where
  "owed_inv pc s \<longleftrightarrow> q_owed s = [] \<or>
     (\<exists>k. q_owed s = [k] \<and> k \<noteq> q_current s \<and> (\<forall>v. \<not> pic_accepts pc (as_u8 v) (q_pics s)))"

lemma device_irq_owed [simp]: "q_owed (device_irq pc v b s) = q_owed s"
  by (simp add: device_irq_def Let_def split: InterruptIndex.split)

lemma timer_irq_owed:
  assumes "fully_nested pc" "q_owed s = []"
  shows "owed_inv pc (timer_irq pc l s)"
  using assms by (auto simp: timer_irq_def resume_handler_def owed_inv_def fully_nested_def Let_def)

lemma owed_step:
  assumes "irq_step pc s s'" "fully_nested pc" "owed_inv pc s"
  shows "owed_inv pc s'"
  using assms(1)
proof cases
  case (step_timer l)
  then have "q_owed s = []" using assms(3) by (auto simp: owed_inv_def)
  with step_timer show ?thesis using timer_irq_owed [OF assms(2)] by simp
next
  case (step_device v b)
  then have "q_owed s = []" using assms(3) by (auto simp: owed_inv_def)
  with step_device show ?thesis by (simp add: owed_inv_def)
next
  case (step_kernel k)
  with assms(3) show ?thesis by (auto simp: owed_inv_def resume_handler_def)
qed

lemma owed_reach: "irq_reach pc s s' \<Longrightarrow> fully_nested pc \<Longrightarrow> owed_inv pc s \<Longrightarrow> owed_inv pc s'"
  by (induction rule: irq_reach.induct) (auto intro: owed_step)

lemma user_gate: "(\<exists>g. IDT v = Some g \<and> ring3 g) \<longleftrightarrow> v = 0x80"
  by (simp add: IDT_def vector_defs)

lemma fault_gate: "raise_exception 13 True k = (k, Halted)"
  by (simp add: raise_exception_def IDT_def vector_defs exception_handler_def)

lemma exception_outcome:
  "v < 0x20 \<Longrightarrow> raise_exception v in_user_mode k =
     (if v = 3 then (k, Ret 0) else if v = 14 then page_fault_handler in_user_mode k else (k, Halted))"
  by (simp add: raise_exception_def IDT_def vector_defs exception_handler_def)

text \<open>The idle loop loses its message when a tick switches away from it, and keeps the processor
  while its slice lasts.\<close>

lemma idle_switch_deaf:
  assumes "fully_nested pc" "q_owed s = []"
    and "sched_inv (proc_table (q_kernel s))" "q_current s = 0"
    and "proc_map (proc_table (q_kernel s)) k = Some p" "state p = Ready"
    and "\<forall>j < MAX_PROCESSES. state (processes (proc_table (q_kernel s)) ! j) = Ready \<longrightarrow> initialised (stacks (k_machine (q_kernel s)) ! j)"
    and "active (sched (k_machine (q_kernel s)))" "current_slice (sched (k_machine (q_kernel s))) \<le> 1"
  shows "q_current (timer_irq pc no_locks s) \<noteq> 0 \<and>
    stacks (k_machine (q_kernel (timer_irq pc no_locks s))) = stacks (k_machine (q_kernel s)) \<and> deaf pc (timer_irq pc no_locks s)"
proof -
  obtain m' where m': "on_timer_tick no_locks (k_machine (q_kernel s)) = Some m'"
    "current_pid (table m') \<noteq> 0" "stacks m' = stacks (k_machine (q_kernel s))"
    using idle_tick [OF assms(3-9)] by blast
  note t = timer_kernel [OF m'(1)]
  have "q_kernel (timer_irq pc no_locks s) = fst (timer_interrupt no_locks (q_kernel s))" "q_owed (timer_irq pc no_locks s) = []"
    "q_pics (timer_irq pc no_locks s) = pic_acknowledge pc (as_u8 Timer) (q_pics s)"
    using assms(2,4) m'(2) t by (simp_all add: timer_irq_def resume_handler_def Let_def)
  then show ?thesis using assms(1) m'(2,3) t by (simp add: deaf_def fully_nested_def)
qed

lemma idle_tick_counts:
  assumes "q_current s = 0" "active (sched (k_machine (q_kernel s)))" "1 < current_slice (sched (k_machine (q_kernel s)))"
  shows "timer_irq pc no_locks s = s\<lparr>q_pics := notify_end_of_interrupt pc (as_u8 Timer) (pic_acknowledge pc (as_u8 Timer) (q_pics s)),
    q_kernel := (q_kernel s)\<lparr>k_ticks := time_tick (k_ticks (q_kernel s)), k_machine := count_slice (k_machine (q_kernel s))\<rparr>\<rparr>"
proof -
  let ?m = "k_machine (q_kernel s)"
  have c: "current_slice (sched ?m) > 0" using assms(3) by (simp add: word_less_nat_alt)
  have "current_slice (sched ?m) - 1 \<noteq> 0" using assms(3) by auto
  then have "current_slice (sched (count_slice ?m)) \<noteq> 0" using c by (simp add: count_slice_def)
  then have "on_timer_tick no_locks ?m = Some (count_slice ?m)"
    using assms(1,2) unfolding on_timer_tick_def Let_def count_slice_def [symmetric] by (simp add: no_locks_def)
  then have "fst (timer_interrupt no_locks (q_kernel s)) =
      (q_kernel s)\<lparr>k_ticks := time_tick (k_ticks (q_kernel s)), k_machine := count_slice ?m\<rparr>"
    by (simp add: timer_interrupt_def)
  then show ?thesis using assms(1) by (simp add: timer_irq_def Let_def)
qed

section \<open>Controllers and states to evaluate with\<close>

text \<open>One pair of mask bytes and the vectors in service, the latest first; a smaller vector has the
  higher priority.\<close>

definition demo_pics :: "(u8 list \<times> u8 \<times> u8) pic_ops" where
  "demo_pics = \<lparr>pic_accepts = (\<lambda>v (is, m1, m2).
       (if v < 0x28 then 0x20 \<le> v \<and> v \<noteq> 0x22 \<and> \<not> bit m1 (unat (v - 0x20)) else v < 0x30 \<and> \<not> bit m2 (unat (v - 0x28))) \<and>
       (\<forall>u \<in> set is. v < u)),
     pic_acknowledge = (\<lambda>v (is, m). (v # is, m)),
     notify_end_of_interrupt = (\<lambda>v (is, m). (tl is, m)),
     pic_initialize = (\<lambda>p. p),
     write_masks = (\<lambda>m1 m2 (is, _). (is, m1, m2))\<rparr>"

definition idle_kernel :: kernel where
  "idle_kernel = demo_kernel\<lparr>k_machine := demo_machine\<lparr>
     table := with_proc 1 (\<lambda>p. p\<lparr>state := Ready\<rparr>) demo_table,
     sched := \<lparr>current_slice = 1, default_slice = 5, active = True\<rparr>\<rparr>\<rparr>"

definition idle_state :: "(u8 list \<times> u8 \<times> u8) irq_state" where
  "idle_state = \<lparr>q_kernel = idle_kernel, q_pics = ([], 0xF8, 0xEF), q_owed = []\<rparr>"

lemma as_u8_ge: "PIC_1_OFFSET \<le> as_u8 v"
  by (cases v) (simp_all add: vector_defs)

lemma demo_pics_nested: "fully_nested demo_pics"
proof -
  have "\<not> as_u8 v < as_u8 Timer" for v using as_u8_ge [of v] by (simp add: as_u8.simps not_less)
  then show ?thesis by (simp add: fully_nested_def demo_pics_def split: prod.split)
qed

lemma idle_kernel_simps:
  "sched_inv (proc_table idle_kernel)" "current_pid (proc_table idle_kernel) = 0"
  "proc_map (proc_table idle_kernel) 1 = Some (demo_process\<lparr>state := Ready\<rparr>)"
  "\<forall>j < MAX_PROCESSES. initialised (stacks (k_machine idle_kernel) ! j)"
proof -
  have t: "table demo_machine = demo_table" by (simp add: demo_machine_def)
  show "sched_inv (proc_table idle_kernel)"
    using demote_inv [OF demo_machine_inv, of 1 Ready "\<lambda>_. True"] by (simp add: idle_kernel_def t)
  show "proc_map (proc_table idle_kernel) 1 = Some (demo_process\<lparr>state := Ready\<rparr>)"
    using with_proc_map [OF demo_table_wf, of 1 "\<lambda>p. p\<lparr>state := Ready\<rparr>"]
    by (simp add: idle_kernel_def demo_table_map proc_wf_def)
  have "current_pid demo_table = 0" by (simp add: demo_table_def alloc_def pt_new_def MAX_PROCESSES_def upt_rec)
  then show "current_pid (proc_table idle_kernel) = 0" by (simp add: idle_kernel_def)
  show "\<forall>j < MAX_PROCESSES. initialised (stacks (k_machine idle_kernel) ! j)"
    by (simp add: idle_kernel_def demo_machine_def MAX_PROCESSES_def)
qed

text \<open>The same kernel with a process that is not in the table as the current one (it has just been
  released): the tick leaves it for process 1.\<close>

definition owing_state :: "(u8 list \<times> u8 \<times> u8) irq_state" where
  "owing_state = \<lparr>q_kernel = set_table ((proc_table idle_kernel)\<lparr>current_pid := 7\<rparr>) idle_kernel, q_pics = ([], 0xF8, 0xEF), q_owed = []\<rparr>"

lemma owing_tick: "q_owed (timer_irq demo_pics no_locks owing_state) = [7]"
proof -
  define m where "m = k_machine (q_kernel owing_state)"
  have t: "table m = (proc_table idle_kernel)\<lparr>current_pid := 7\<rparr>" "sched m = sched (k_machine idle_kernel)" "stacks m = stacks (k_machine idle_kernel)"
    by (simp_all add: m_def owing_state_def set_table_def)
  have pc: "proc_map (x\<lparr>current_pid := c\<rparr>) = proc_map x" for x c by (rule ext) (simp add: proc_map_def get_def)
  have pm: "proc_map (table m) = [1 \<mapsto> demo_process\<lparr>state := Ready\<rparr>]"
    using with_proc_map [OF demo_table_wf, of 1 "\<lambda>p. p\<lparr>state := Ready\<rparr>"]
    by (simp add: t(1) idle_kernel_def demo_table_map proc_wf_def pc)
  have i: "sched_inv (table m)"
    using idle_kernel_simps(1) pm sched_inv_wf [OF idle_kernel_simps(1)] unfolding sched_inv_map
    by (auto simp: t(1) pt_wf_def split: if_splits)
  note w = sched_inv_wf [OF i]
  have nl: "\<not> table_held no_locks" by (simp add: no_locks_def)
  obtain j where j: "j < 32" "processes (table m) ! j = demo_process\<lparr>state := Ready\<rparr>"
    using pm proc_map_Some_iff [OF w, of 1 "demo_process\<lparr>state := Ready\<rparr>"] by (auto simp: MAX_PROCESSES_def)
  have "ready_at (table m) j" using j by (simp add: ready_at_def)
  then have "find_next_ready no_locks 7 (table m) \<noteq> None" using find_next_ready_None [OF w nl] j(1) by blast
  then obtain n where n: "find_next_ready no_locks 7 (table m) = Some n" by blast
  have "n \<noteq> 7"
  proof
    assume "n = 7"
    then obtain q where q: "q < 32" "pid (processes (table m) ! q) = 7"
      using n find_next_ready_Some [OF w nl] by (metis mod_less_divisor zero_less_numeral)
    then have "proc_map (table m) 7 = Some (processes (table m) ! q)"
      using proc_map_nth [OF w, of q] by (simp add: MAX_PROCESSES_def)
    then show False by (simp add: pm)
  qed
  define m1 where "m1 = count_slice m"
  have m1: "table m1 = table m" "all_initialised m1" "current_slice (sched m1) = 0"
    using t(2,3) idle_kernel_simps(4)
    by (auto simp: m1_def count_slice_def idle_kernel_def all_initialised_def demo_machine_def MAX_PROCESSES_def)
  have "current_pid (table m1) = 7" by (simp add: m1 t)
  with schedule_switches [of m1 n] m1 i n \<open>n \<noteq> 7\<close> obtain m' where m': "schedule no_locks m1 = Some m'" "current_pid (table m') = n"
    by auto
  have "active (sched m)" by (simp add: t idle_kernel_def)
  then have "on_timer_tick no_locks m = Some m'"
    using m'(1) m1(3) unfolding m1_def on_timer_tick_def Let_def count_slice_def [symmetric] by (simp add: no_locks_def)
  from timer_kernel [OF this [unfolded m_def]] m'(2) \<open>n \<noteq> 7\<close> show ?thesis
    by (simp add: timer_irq_def resume_handler_def Let_def owing_state_def set_table_def)
qed

section \<open>Properties\<close>

text \<open>
  Preemption ends with the first switch. When the idle loop is interrupted by the timer
  with its slice used up and some process is ready, the processor goes to a process while the
  rest of the handler, with the end-of-interrupt message, is lost (no kernel stack keeps it):
  whatever happens afterwards, the controllers never pass on another interrupt of the timer,
  the keyboard or the mouse.
\<close>

theorem preemption_lost:
  assumes "fully_nested pc" "q_owed s = []"
    and "sched_inv (proc_table (q_kernel s))" "q_current s = 0"
    and "proc_map (proc_table (q_kernel s)) k = Some p" "state p = Ready"
    and "\<forall>j < MAX_PROCESSES. state (processes (proc_table (q_kernel s)) ! j) = Ready \<longrightarrow> initialised (stacks (k_machine (q_kernel s)) ! j)"
    and "active (sched (k_machine (q_kernel s)))" "current_slice (sched (k_machine (q_kernel s))) \<le> 1"
  defines "s1 \<equiv> timer_irq pc no_locks s"
  shows "q_current s1 \<noteq> 0 \<and> stacks (k_machine (q_kernel s1)) = stacks (k_machine (q_kernel s)) \<and>
    (\<forall>s' v. irq_reach pc s1 s' \<longrightarrow> \<not> pic_accepts pc (as_u8 v) (q_pics s'))"
  using idle_switch_deaf [OF assms(1-9)] deaf_reach [of pc s1] unfolding s1_def [symmetric] by (auto simp: deaf_def)

theorem preemption_lost_witness:
  "pic_accepts demo_pics (as_u8 Timer) (q_pics idle_state) \<and>
   (\<forall>s'. irq_reach demo_pics (timer_irq demo_pics no_locks idle_state) s' \<longrightarrow>
      \<not> pic_accepts demo_pics (as_u8 Keyboard) (q_pics s'))"
proof -
  have i: "q_kernel idle_state = idle_kernel" "q_owed idle_state = []" by (simp_all add: idle_state_def)
  have a: "active (sched (k_machine idle_kernel))" "current_slice (sched (k_machine idle_kernel)) \<le> 1"
    by (simp_all add: idle_kernel_def)
  have r: "state (demo_process\<lparr>state := Ready\<rparr>) = Ready" by simp
  have ac: "pic_accepts demo_pics (as_u8 Timer) (q_pics idle_state)"
    by (simp add: idle_state_def demo_pics_def vector_defs)
  from preemption_lost [OF demo_pics_nested i(2), unfolded i, OF idle_kernel_simps(1-3) r _ a] idle_kernel_simps(4) ac
  show ?thesis by blast
qed



text \<open>
  Interrupt instructions of user mode. Number \<^verbatim>\<open>0x80\<close> enters the dispatcher of the system
  calls; every other number, the breakpoint's included, and every exception of user mode but the
  page fault and the breakpoint stop the whole kernel, not the process.
\<close>

theorem user_int_result:
  "user_int ev v ctx k = (if v = 0x80 then syscall_dispatch ev ctx k else (k, Inl Halted)) \<and>
   (u < 0x20 \<and> u \<noteq> 3 \<and> u \<noteq> 14 \<longrightarrow> raise_exception u True k = (k, Halted)) \<and>
   (\<forall>m. switch_to_next no_locks (k_machine (set_table (fst (mark_exit (current_pid (proc_table k)) 139 (proc_table k))) k)) = Some m \<longrightarrow>
      raise_exception 14 True k = (set_table (fst (mark_exit (current_pid (proc_table k)) 139 (proc_table k))) k\<lparr>k_machine := m\<rparr>, Gone))"
proof -
  have "user_int ev v ctx k = (if v = 0x80 then syscall_dispatch ev ctx k else (k, Inl Halted))"
  proof (cases "v = 0x80")
    case True
    then obtain g where "IDT v = Some g" "ring3 g" using user_gate by blast
    with True show ?thesis by (simp add: user_int_def)
  next
    case False
    then have "\<not> ring3 g" if "IDT v = Some g" for g using that user_gate by blast
    with False show ?thesis by (simp add: user_int_def fault_gate split: option.split)
  qed
  then show ?thesis by (simp add: exception_outcome page_fault_handler_def Let_def)
qed

theorem user_int_result_witness:
  "\<forall>ev ctx. user_int ev 3 ctx demo_kernel = (demo_kernel, Inl Halted) \<and>
     raise_exception 13 True demo_kernel = (demo_kernel, Halted)"
  using user_int_result [of _ 3 _ demo_kernel 13] by simp

text \<open>The descriptor table appends one entry for a segment and two for the task state segment.\<close>

lemma gdt_selectors:
  assumes "\<And>d g. append_entry d g = (add d g, of_nat (8 * count_of g) OR (if d \<in> {user_data_segment, user_code_segment} then 3 else 0))"
    and "\<And>d g. count_of (add d g) = count_of g + (if d = tss_segment then 2 else 1)" and "count_of g = 1"
  shows "snd (GDT append_entry g) = \<lparr>sel_kernel_code = 0x08, sel_kernel_data = 0x10, sel_tss = 0x18,
    sel_user_data = 0x2B, sel_user_code = 0x33\<rparr>"
  using assms by (simp add: GDT_def)

text \<open>Every interrupt that the masks let through has its own handler.\<close>

lemma enabled_lines_handled:
  assumes "\<And>v m1 m2 p. pic_accepts pc v (write_masks pc m1 m2 p) \<Longrightarrow>
      \<exists>i<8. (v = PIC_1_OFFSET + of_nat i \<and> i \<noteq> 2 \<and> \<not> bit m1 i) \<or> (v = PIC_2_OFFSET + of_nat i \<and> \<not> bit m2 i)"
    and "pic_accepts pc v (enable_keyboard pc p)"
  shows "map_option handler_fn (IDT v) \<in> Some ` {timer_interrupt_handler, keyboard_interrupt_handler, mouse_interrupt_handler}"
proof -
  obtain i where i: "i < 8" "(v = PIC_1_OFFSET + of_nat i \<and> i \<noteq> 2 \<and> \<not> bit (0xF8 :: u8) i) \<or> (v = PIC_2_OFFSET + of_nat i \<and> \<not> bit (0xEF :: u8) i)"
    using assms(1) [OF assms(2) [unfolded enable_keyboard_def enable_input_def]] by blast
  have "i = 0 \<or> i = 1 \<or> i = 2 \<or> i = 3 \<or> i = 4 \<or> i = 5 \<or> i = 6 \<or> i = 7" using i(1) by linarith
  then have "v = 0x20 \<or> v = 0x21 \<or> v = 0x2C"
    by (elim disjE) (use i(2) in \<open>simp_all add: vector_defs\<close>)
  then show ?thesis by (auto simp: IDT_def vector_defs)
qed

end
