(* ===== verification/Uhci.thy ===== *)
theory Uhci
  imports Prelude
begin

text \<open>
  The USB host controller (\<^verbatim>\<open>kernel/src/usb/uhci.rs\<close>): its registers, descriptors and initialisation.
  The controller hardware is a pair of functions on a device state, one for reading and one for
  writing a 16-bit port. The property: the initialisation ends whatever the device answers, with
  a fixed sequence of writes.
\<close>

definition USBCMD :: u16 where "USBCMD = 0x00"
definition USBSTS :: u16 where "USBSTS = 0x02"
definition USBINTR :: u16 where "USBINTR = 0x04"
definition PORTSC1 :: u16 where "PORTSC1 = 0x0D"
definition PORTSC2 :: u16 where "PORTSC2 = 0x12"

definition CMD_RS :: u16 where "CMD_RS = 0x0001"
definition CMD_HCRESET :: u16 where "CMD_HCRESET = 0x0002"
definition CMD_CF :: u16 where "CMD_CF = 0x0080"
definition PORT_RESET :: u16 where "PORT_RESET = 0x0200"

record TransferDescriptor =
  td_link_ptr :: u32
  td_control :: u32
  td_token :: u32
  td_buffer_ptr :: u32

definition td_new :: TransferDescriptor where
  "td_new = \<lparr>td_link_ptr = 1, td_control = 0, td_token = 0, td_buffer_ptr = 0\<rparr>"

record QueueHead =
  qh_head_ptr :: u32
  qh_element_ptr :: u32

definition qh_new :: QueueHead where "qh_new = \<lparr>qh_head_ptr = 1, qh_element_ptr = 1\<rparr>"

record UhciController =
  io_base :: u16
  num_ports :: u8
  uhci_initialised :: bool

definition uhci_new :: UhciController where
  "uhci_new = \<lparr>io_base = 0, num_ports = 2, uhci_initialised = False\<rparr>"

text \<open>The device: reading and writing a port.\<close>

record 'd ports =
  port_in :: "u16 \<Rightarrow> 'd \<Rightarrow> 'd \<times> u16"
  port_out :: "u16 \<Rightarrow> u16 \<Rightarrow> 'd \<Rightarrow> 'd"

definition read16 :: "'d ports \<Rightarrow> UhciController \<Rightarrow> u16 \<Rightarrow> 'd \<Rightarrow> 'd \<times> u16" where
  "read16 io c offset d = port_in io (io_base c + offset) d"

definition write16 :: "'d ports \<Rightarrow> UhciController \<Rightarrow> u16 \<Rightarrow> u16 \<Rightarrow> 'd \<Rightarrow> 'd" where
  "write16 io c offset v d = port_out io (io_base c + offset) v d"

text \<open>Waiting for the end of the reset: at most 1001 rounds, counted by \<open>timeout\<close>.\<close>

function wait_reset :: "'d ports \<Rightarrow> UhciController \<Rightarrow> nat \<Rightarrow> 'd \<Rightarrow> 'd" where
  "wait_reset io c timeout d =
     (case read16 io c USBCMD d of (d1, v) \<Rightarrow>
        if v AND CMD_HCRESET \<noteq> 0 then
          (if timeout + 1 > 1000 then d1 else wait_reset io c (timeout + 1) d1)
        else d1)"
  by pat_completeness auto
termination by (relation "measure (\<lambda>(io, c, timeout, d). 1001 - timeout)") auto

declare wait_reset.simps [simp del]

definition uhci_reset :: "'d ports \<Rightarrow> UhciController \<Rightarrow> 'd \<Rightarrow> 'd" where
  "uhci_reset io c d = wait_reset io c 0 (write16 io c USBCMD CMD_HCRESET d)"

text \<open>Resetting one port: the busy wait does nothing, the connection bit is only printed.\<close>

definition reset_port :: "'d ports \<Rightarrow> UhciController \<Rightarrow> nat \<Rightarrow> 'd \<Rightarrow> 'd" where
  "reset_port io c port_num d =
     (let port_reg = (if port_num = 1 then PORTSC1 else PORTSC2);
          d1 = write16 io c port_reg PORT_RESET d;
          d2 = write16 io c port_reg 0 d1
      in fst (read16 io c port_reg d2))"

definition init_controller :: "'d ports \<Rightarrow> UhciController \<Rightarrow> 'd \<Rightarrow> UhciController \<times> 'd \<times> bool" where
  "init_controller io c d =
     (let c1 = (if io_base c = 0 then c\<lparr>io_base := 0xC040\<rparr> else c);
          d1 = write16 io c1 USBINTR 0 d;
          d2 = uhci_reset io c1 d1;
          d3 = write16 io c1 USBCMD CMD_CF d2;
          d4 = write16 io c1 USBSTS 0xFF d3;
          d5 = fold (reset_port io c1) [1..<Suc (unat (num_ports c1))] d4;
          d6 = write16 io c1 USBCMD (CMD_CF OR CMD_RS) d5
      in (c1\<lparr>uhci_initialised := True\<rparr>, d6, True))"

section \<open>What the controller sees\<close>

text \<open>A device that answers reads by an arbitrary function of the history and records the writes.\<close>

definition recorder :: "((u16 \<times> u16) list \<Rightarrow> nat \<Rightarrow> u16 \<Rightarrow> u16) \<Rightarrow> ((u16 \<times> u16) list \<times> nat) ports" where
  "recorder answer = \<lparr>port_in = (\<lambda>p (ws, n). ((ws, n + 1), answer ws n p)), port_out = (\<lambda>p v (ws, n). (ws @ [(p, v)], n))\<rparr>"

lemma recorder_simps:
  "write16 (recorder answer) c off v (ws, n) = (ws @ [(io_base c + off, v)], n)"
  "read16 (recorder answer) c off (ws, n) = ((ws, n + 1), answer ws n (io_base c + off))"
  by (simp_all add: write16_def read16_def recorder_def)

lemma wait_reset_recorded:
  "\<exists>k. wait_reset (recorder answer) c t (ws, n) = (ws, n + k) \<and> k \<le> 1001 - min t 1000"
proof (induction "1001 - t" arbitrary: t n rule: less_induct)
  case less
  let ?more = "answer ws n (io_base c + USBCMD) AND CMD_HCRESET \<noteq> 0 \<and> \<not> t + 1 > 1000"
  show ?case
  proof (cases ?more)
    case True
    then have "\<not> t + 1 > 1000" by blast
    then have "1001 - (t + 1) < 1001 - t" by linarith
    from less [OF this, of "n + 1"] obtain k where
      k: "wait_reset (recorder answer) c (t + 1) (ws, n + 1) = (ws, n + 1 + k)" "k \<le> 1001 - min (t + 1) 1000" by blast
    have "wait_reset (recorder answer) c t (ws, n) = (ws, n + (k + 1))"
      using True k(1) by (subst wait_reset.simps) (simp add: recorder_simps)
    then show ?thesis using k(2) True by (intro exI [of _ "k + 1"]) auto
  next
    case False
    then have "wait_reset (recorder answer) c t (ws, n) = (ws, n + 1)"
      by (subst wait_reset.simps) (auto simp: recorder_simps)
    then show ?thesis by (intro exI [of _ 1]) auto
  qed
qed

text \<open>
  The initialisation of the host controller ends whatever the device answers, after at most
  1003 reads; it writes, in this order, the interrupt enable, the reset, the configure flag, the
  status and for each of the two ports the reset and its end, and last starts the controller.\<close>

theorem uhci_init_writes:
  "\<exists>n. init_controller (recorder answer) uhci_new ([], 0) =
     (\<lparr>io_base = 0xC040, num_ports = 2, uhci_initialised = True\<rparr>,
      ([(0xC044, 0), (0xC040, 2), (0xC040, 0x80), (0xC042, 0xFF), (0xC04D, 0x200), (0xC04D, 0), (0xC052, 0x200), (0xC052, 0), (0xC040, 0x81)], n), True)
     \<and> n \<le> 1003"
proof -
  let ?c = "\<lparr>io_base = 0xC040, num_ports = 2, uhci_initialised = False\<rparr> :: UhciController"
  obtain k where k: "wait_reset (recorder answer) ?c 0 ([(0xC044, 0), (0xC040, 2)], 0) = ([(0xC044, 0), (0xC040, 2)], k)" "k \<le> 1001"
    using wait_reset_recorded [of answer ?c 0 "[(0xC044, 0), (0xC040, 2)]" 0] by auto
  show ?thesis
    by (intro exI [of _ "k + 2"])
      (simp add: init_controller_def uhci_new_def Let_def uhci_reset_def reset_port_def recorder_simps k
        USBCMD_def USBSTS_def USBINTR_def PORTSC1_def PORTSC2_def CMD_RS_def CMD_HCRESET_def CMD_CF_def PORT_RESET_def upt_rec)
qed

end
