(* ===== verification/Ps2.thy ===== *)
theory Ps2
  imports Prelude "HOL-Library.Sublist"
begin

text \<open>
  Setting up the PS/2 mouse (the lower half of \<^verbatim>\<open>kernel/src/interrupts/mouse.rs\<close>). The controller is a pair of
  functions on a device state, one for reading and one for writing a port. The property: the
  setup ends whatever the device answers, sends no other bytes than the setup sequence, and
  reports success only when the device got all of it.
\<close>

record 'd ps2 =
  ps2_in :: "u16 \<Rightarrow> 'd \<Rightarrow> 'd \<times> u8"
  ps2_out :: "u16 \<Rightarrow> u8 \<Rightarrow> 'd \<Rightarrow> 'd"

text \<open>Polling the status register a number of times.\<close>

fun poll_status :: "'d ps2 \<Rightarrow> (u8 \<Rightarrow> bool) \<Rightarrow> nat \<Rightarrow> 'd \<Rightarrow> 'd \<times> bool" where
  "poll_status io ready 0 d = (d, False)"
| "poll_status io ready (Suc n) d =
     (case ps2_in io 0x64 d of (d1, s) \<Rightarrow> if ready s then (d1, True) else poll_status io ready n d1)"

definition WAIT_ROUNDS :: nat where "WAIT_ROUNDS = 10000000"

definition wait_write :: "'d ps2 \<Rightarrow> 'd \<Rightarrow> 'd \<times> bool" where
  "wait_write io = poll_status io (\<lambda>s. s AND 0x02 = 0) WAIT_ROUNDS"

definition wait_read :: "'d ps2 \<Rightarrow> 'd \<Rightarrow> 'd \<times> bool" where
  "wait_read io = poll_status io (\<lambda>s. s AND 0x01 \<noteq> 0) WAIT_ROUNDS"

definition send_controller_cmd :: "'d ps2 \<Rightarrow> u8 \<Rightarrow> 'd \<Rightarrow> 'd" where
  "send_controller_cmd io cmd d =
     (case wait_write io d of (d1, False) \<Rightarrow> d1 | (d1, True) \<Rightarrow> ps2_out io 0x64 cmd d1)"

definition send_mouse_cmd :: "'d ps2 \<Rightarrow> u8 \<Rightarrow> 'd \<Rightarrow> 'd \<times> bool" where
  "send_mouse_cmd io cmd d =
     (case wait_write io (send_controller_cmd io 0xD4 d) of
        (d1, False) \<Rightarrow> (d1, False)
      | (d1, True) \<Rightarrow>
          (case wait_read io (ps2_out io 0x60 cmd d1) of
             (d2, False) \<Rightarrow> (d2, False)
           | (d2, True) \<Rightarrow> (fst (ps2_in io 0x60 d2), True)))"

text \<open>The mouse commands from the reset to the start of streaming, each only after the one before.\<close>

fun send_mouse_cmds :: "'d ps2 \<Rightarrow> u8 list \<Rightarrow> 'd \<Rightarrow> 'd \<times> bool" where
  "send_mouse_cmds io [] d = (d, True)"
| "send_mouse_cmds io (c # cs) d =
     (case send_mouse_cmd io c d of (d1, False) \<Rightarrow> (d1, False) | (d1, True) \<Rightarrow> send_mouse_cmds io cs d1)"

definition configure_mouse :: "'d ps2 \<Rightarrow> 'd \<Rightarrow> 'd \<times> bool" where
  "configure_mouse io d =
     (case wait_read io (send_controller_cmd io 0x20 (send_controller_cmd io 0xA8 d)) of
        (d1, False) \<Rightarrow> (d1, False)
      | (d1, True) \<Rightarrow>
          (case ps2_in io 0x60 d1 of (d2, config) \<Rightarrow>
             let config' = (config OR (0x02 OR 0x20)) AND NOT 0x40;
                 d3 = ps2_out io 0x60 config' (fst (wait_write io (send_controller_cmd io 0x60 d2)))
             in case send_mouse_cmds io [0xFF, 0xF3, 60, 0xF4] d3 of
                  (d4, False) \<Rightarrow> (d4, False)
                | (d4, True) \<Rightarrow>
                    (case ps2_in io 0x64 d4 of (d5, s) \<Rightarrow>
                       (if s AND 0x01 \<noteq> 0 then fst (ps2_in io 0x60 d5) else d5, True))))"

text \<open>The first component is the interrupt flag.\<close>

definition mouse_init :: "'d ps2 \<Rightarrow> bool \<times> 'd \<Rightarrow> bool \<times> 'd" where
  "mouse_init io s = (True, fst (configure_mouse io (snd s)))"

section \<open>What the controller sees\<close>

text \<open>A device that answers reads by an arbitrary function of the history and records the writes.\<close>

definition ps2_recorder :: "((u16 \<times> u8) list \<Rightarrow> nat \<Rightarrow> u16 \<Rightarrow> u8) \<Rightarrow> ((u16 \<times> u8) list \<times> nat) ps2" where
  "ps2_recorder answer = \<lparr>ps2_in = (\<lambda>p (ws, n). ((ws, n + 1), answer ws n p)), ps2_out = (\<lambda>p v (ws, n). (ws @ [(p, v)], n))\<rparr>"

lemma ps2_recorder_simps [simp]:
  "ps2_in (ps2_recorder answer) p (ws, n) = ((ws, n + 1), answer ws n p)"
  "ps2_out (ps2_recorder answer) p v (ws, n) = (ws @ [(p, v)], n)"
  by (simp_all add: ps2_recorder_def)

definition sent :: "u16 \<Rightarrow> (u16 \<times> u8) list \<Rightarrow> u8 list" where
  "sent p ws = map snd (filter (\<lambda>w. fst w = p) ws)"

lemma sent_simps [simp]: "sent p [] = []" "sent p ((q, v) # ws) = (if q = p then [v] else []) @ sent p ws" "sent p (xs @ ys) = sent p xs @ sent p ys"
  by (simp_all add: sent_def)

text \<open>\<open>went s s' xs k\<close>: from \<open>s\<close> to \<open>s'\<close> the bytes \<open>xs\<close> were written and at most \<open>k\<close> reads made.\<close>

definition went :: "(u16 \<times> u8) list \<times> nat \<Rightarrow> (u16 \<times> u8) list \<times> nat \<Rightarrow> (u16 \<times> u8) list \<Rightarrow> nat \<Rightarrow> bool" where
  "went s s' xs k \<longleftrightarrow> fst s' = fst s @ xs \<and> snd s' \<le> snd s + k"

lemma went_trans: "went s s1 xs k \<Longrightarrow> went s1 s2 ys l \<Longrightarrow> went s s2 (xs @ ys) (k + l)"
  by (auto simp: went_def)

lemma went_in: "ps2_in (ps2_recorder answer) p s = (s', v) \<Longrightarrow> went s s' [] 1"
  by (cases s) (auto simp: went_def)

lemma went_out: "went s (ps2_out (ps2_recorder answer) p v s) [(p, v)] 0"
  by (cases s) (auto simp: went_def)

lemma poll_went: "poll_status (ps2_recorder answer) ready n s = (s', r) \<Longrightarrow> went s s' [] n"
proof (induction n arbitrary: s)
  case (Suc n)
  obtain s1 v where i: "ps2_in (ps2_recorder answer) 0x64 s = (s1, v)" by fastforce
  show ?case
    using Suc.prems Suc.IH [of s1] went_in [OF i] i went_trans [OF went_in [OF i], of s' "[]" n]
    by (auto simp: went_def split: if_splits)
qed (simp add: went_def)

lemmas wait_went = poll_went [of _ "\<lambda>s. s AND 0x02 = 0" WAIT_ROUNDS, folded wait_write_def]
  poll_went [of _ "\<lambda>s. s AND 0x01 \<noteq> 0" WAIT_ROUNDS, folded wait_read_def]

lemma controller_went:
  "\<exists>xs. went s (send_controller_cmd (ps2_recorder answer) c s) xs WAIT_ROUNDS \<and> sent 0x60 xs = [] \<and> subseq (sent 0x64 xs) [c]"
proof -
  obtain s1 r where w: "wait_write (ps2_recorder answer) s = (s1, r)" by fastforce
  note t = wait_went(1) [OF w]
  show ?thesis
  proof (cases r)
    case True
    then show ?thesis using w went_trans [OF t went_out [of s1 answer "0x64" c]]
      by (intro exI [of _ "[(0x64, c)]"]) (simp add: send_controller_cmd_def)
  next
    case False
    then show ?thesis using w t by (intro exI [of _ "[]"]) (simp add: send_controller_cmd_def)
  qed
qed

lemma mouse_went:
  assumes "send_mouse_cmd (ps2_recorder answer) c s = (s', ok)"
  shows "\<exists>xs. went s s' xs (3 * WAIT_ROUNDS + 1) \<and> subseq (sent 0x64 xs) [0xD4] \<and> prefix (sent 0x60 xs) [c] \<and> (ok \<longrightarrow> sent 0x60 xs = [c])"
proof -
  obtain xs where a: "went s (send_controller_cmd (ps2_recorder answer) 0xD4 s) xs WAIT_ROUNDS"
    "sent 0x60 xs = []" "subseq (sent 0x64 xs) [0xD4]" using controller_went by blast
  obtain s1 r where w: "wait_write (ps2_recorder answer) (send_controller_cmd (ps2_recorder answer) 0xD4 s) = (s1, r)" by fastforce
  note b = went_trans [OF a(1) wait_went(1) [OF w]]
  let ?s = "ps2_out (ps2_recorder answer) 0x60 c s1"
  obtain s2 q where v: "wait_read (ps2_recorder answer) ?s = (s2, q)" by fastforce
  note d = went_trans [OF went_trans [OF b went_out [of s1 answer "0x60" c]] wait_went(2) [OF v]]
  obtain s3 x where i: "ps2_in (ps2_recorder answer) 0x60 s2 = (s3, x)" by fastforce
  note e = went_trans [OF d went_in [OF i]]
  show ?thesis
  proof (cases r)
    case True
    then show ?thesis using assms w v i a d e
      by (intro exI [of _ "xs @ [(0x60, c)]"]) (auto simp: send_mouse_cmd_def went_def split: bool.splits)
  next
    case False
    then show ?thesis using assms w a b by (intro exI [of _ xs]) (auto simp: send_mouse_cmd_def went_def)
  qed
qed

lemma mouse_cmds_went:
  "send_mouse_cmds (ps2_recorder answer) cs s = (s', ok) \<Longrightarrow>
   \<exists>xs. went s s' xs (length cs * (3 * WAIT_ROUNDS + 1)) \<and> subseq (sent 0x64 xs) (replicate (length cs) 0xD4) \<and>
     prefix (sent 0x60 xs) cs \<and> (ok \<longrightarrow> sent 0x60 xs = cs)"
proof (induction cs arbitrary: s)
  case (Cons c cs)
  obtain s1 r where m: "send_mouse_cmd (ps2_recorder answer) c s = (s1, r)" by fastforce
  from mouse_went [OF m] obtain xs where xs: "went s s1 xs (3 * WAIT_ROUNDS + 1)" "subseq (sent 0x64 xs) [0xD4]"
    "prefix (sent 0x60 xs) [c]" "r \<longrightarrow> sent 0x60 xs = [c]" by blast
  show ?case
  proof (cases r)
    case True
    then obtain ys where ys: "went s1 s' ys (length cs * (3 * WAIT_ROUNDS + 1))" "subseq (sent 0x64 ys) (replicate (length cs) 0xD4)"
      "prefix (sent 0x60 ys) cs" "ok \<longrightarrow> sent 0x60 ys = cs" using Cons m by fastforce
    have "subseq (sent 0x64 xs @ sent 0x64 ys) ([0xD4] @ replicate (length cs) 0xD4)" using xs(2) ys(2) by (rule list_emb_append_mono)
    then show ?thesis using went_trans [OF xs(1) ys(1)] xs(4) ys True by (intro exI [of _ "xs @ ys"]) (simp add: algebra_simps)
  next
    case False
    have "subseq (sent 0x64 xs) ([0xD4] @ replicate (length cs) 0xD4)" using list_emb_append_mono [OF xs(2) list_emb_Nil] by simp
    moreover have "prefix (sent 0x60 xs) (c # cs)" using xs(3) by (auto simp: prefix_Cons)
    ultimately show ?thesis using xs(1) Cons.prems m False by (intro exI [of _ xs]) (auto simp: went_def)
  qed
qed (auto simp: went_def)

text \<open>
  The setup of the mouse ends whatever the controller answers, after at most 170,000,007 reads. It
  sends the controller commands in order, possibly not all of them, and the mouse a prefix of the
  configuration byte and the four commands; it succeeds only when the mouse got them all. The
  configuration byte enables the mouse interrupt and clock and disables the translation.
\<close>

theorem configure_mouse_ends:
  "\<exists>ws n ok config. configure_mouse (ps2_recorder answer) ([], 0) = ((ws, n), ok) \<and> n \<le> 17 * WAIT_ROUNDS + 7 \<and>
     subseq (sent 0x64 ws) [0xA8, 0x20, 0x60, 0xD4, 0xD4, 0xD4, 0xD4] \<and>
     prefix (sent 0x60 ws) [config, 0xFF, 0xF3, 60, 0xF4] \<and> (ok \<longrightarrow> sent 0x60 ws = [config, 0xFF, 0xF3, 60, 0xF4]) \<and>
     config AND 0x62 = 0x22"
proof -
  let ?io = "ps2_recorder answer" and ?s0 = "([], 0) :: (u16 \<times> u8) list \<times> nat"
  let ?s1 = "send_controller_cmd ?io 0xA8 ?s0"
  let ?s2 = "send_controller_cmd ?io 0x20 ?s1"
  obtain xs where xs: "went ?s0 ?s1 xs WAIT_ROUNDS" "sent 0x60 xs = []" "subseq (sent 0x64 xs) [0xA8]" using controller_went by blast
  obtain ys where ys: "went ?s1 ?s2 ys WAIT_ROUNDS" "sent 0x60 ys = []" "subseq (sent 0x64 ys) [0x20]" using controller_went by blast
  obtain s3 r where w: "wait_read ?io ?s2 = (s3, r)" by fastforce
  note t3 = went_trans [OF went_trans [OF xs(1) ys(1)] wait_went(2) [OF w]]
  have c3: "subseq (sent 0x64 (xs @ ys)) [0xA8, 0x20]" using list_emb_append_mono [OF xs(3) ys(3)] by simp
  obtain s4 cfg where i: "ps2_in ?io 0x60 s3 = (s4, cfg)" by fastforce
  define config where "config = (cfg OR (0x02 OR 0x20)) AND NOT 0x40"
  have "config AND 0x62 = (cfg OR 0x22) AND (NOT 0x40 AND 0x62)" unfolding config_def by (simp only: and.assoc) simp
  also have "\<dots> = (cfg OR 0x22) AND 0x22" by simp
  also have "\<dots> = 0x22" by (rule bit_word_eqI) (auto simp: bit_and_iff bit_or_iff)
  finally have cf: "config AND 0x62 = 0x22" .
  let ?s5 = "send_controller_cmd ?io 0x60 s4"
  obtain zs where zs: "went s4 ?s5 zs WAIT_ROUNDS" "sent 0x60 zs = []" "subseq (sent 0x64 zs) [0x60]" using controller_went by blast
  obtain s6 q where w6: "wait_write ?io ?s5 = (s6, q)" by fastforce
  note t7 = went_trans [OF went_trans [OF went_trans [OF went_trans [OF t3 went_in [OF i]] zs(1)] wait_went(1) [OF w6]] went_out [of s6 answer "0x60" config]]
  let ?s7 = "ps2_out ?io 0x60 config s6"
  obtain s8 ok where m: "send_mouse_cmds ?io [0xFF, 0xF3, 60, 0xF4] ?s7 = (s8, ok)" by fastforce
  from mouse_cmds_went [OF m] obtain vs where vs: "went ?s7 s8 vs (4 * (3 * WAIT_ROUNDS + 1))" "subseq (sent 0x64 vs) [0xD4, 0xD4, 0xD4, 0xD4]"
    "prefix (sent 0x60 vs) [0xFF, 0xF3, 60, 0xF4]" "ok \<longrightarrow> sent 0x60 vs = [0xFF, 0xF3, 60, 0xF4]" by (auto simp: numeral_eq_Suc)
  note t8 = went_trans [OF t7 vs(1)]
  let ?all = "xs @ ys @ zs @ [(0x60, config)] @ vs"
  have c8: "subseq (sent 0x64 ?all) [0xA8, 0x20, 0x60, 0xD4, 0xD4, 0xD4, 0xD4]"
    using list_emb_append_mono [OF list_emb_append_mono [OF c3 zs(3)] vs(2)] by simp
  have d8: "sent 0x60 ?all = config # sent 0x60 vs" using xs(2) ys(2) zs(2) by simp
  show ?thesis
  proof (cases r)
    case False
    then have "configure_mouse ?io ?s0 = (s3, False)" using w by (simp add: configure_mouse_def)
    moreover have "subseq (sent 0x64 (xs @ ys)) [0xA8, 0x20, 0x60, 0xD4, 0xD4, 0xD4, 0xD4]"
      using list_emb_append_mono [OF c3 list_emb_Nil, of "[0x60, 0xD4, 0xD4, 0xD4, 0xD4]"] by simp
    ultimately show ?thesis using t3 xs(2) ys(2) cf
      by (intro exI [of _ "fst s3"] exI [of _ "snd s3"] exI [of _ False] exI [of _ config]) (auto simp: went_def prod_eq_iff)
  next
    case r: True
    obtain s9 st where i9: "ps2_in ?io 0x64 s8 = (s9, st)" by fastforce
    obtain s10 x where i10: "ps2_in ?io 0x60 s9 = (s10, x)" by fastforce
    note t9 = went_trans [OF t8 went_in [OF i9]]
    note t10 = went_trans [OF t9 went_in [OF i10]]
    let ?last = "if ok then if st AND 0x01 \<noteq> 0 then s10 else s9 else s8"
    have e: "configure_mouse ?io ?s0 = (?last, ok)"
      using r w i w6 m i9 i10 unfolding config_def
      by (cases ok; cases "st AND 0x01 \<noteq> 0") (simp_all add: configure_mouse_def Let_def del: send_mouse_cmds.simps)
    moreover have "fst ?last = ?all \<and> snd ?last \<le> 17 * WAIT_ROUNDS + 7" using t8 t9 t10 by (auto simp: went_def)
    ultimately obtain n where n: "configure_mouse ?io ?s0 = ((?all, n), ok)" "n \<le> 17 * WAIT_ROUNDS + 7" by (metis prod.collapse)
    show ?thesis using n c8 d8 vs(3,4) cf by (intro exI [of _ ?all] exI [of _ n] exI [of _ ok] exI [of _ config]) simp
  qed
qed

end
