(* ===== verification/Boot_Main.thy ===== *)
theory Boot_Main
  imports Boot_Files Interrupts Uhci Ps2
begin

text \<open>
  \<^verbatim>\<open>kernel_main\<close> of \<^verbatim>\<open>kernel/src/lib.rs\<close> from its first to its last line: the initialisation of every
  component in the order of the source, the boot markers that it prints, the first processes and the
  idle loop, or the built-in test program when no process could be started. Of the console messages
  only the markers are kept, and interrupts that arrive during the boot are left out. The properties: what the
  machine looks like when the kernel is idle, and what happens in the first five timer ticks.
\<close>

section \<open>State\<close>

text \<open>What the boot loader hands over.\<close>

record boot_info =
  physical_memory_offset :: "u64 option"
  memory_regions :: "MemoryRegion list"
  framebuffer :: "(FrameBufferInfo \<times> u64 \<times> u64) option"

text \<open>The kernel with what is around it: segment registers, interrupt table, controllers, the
  timer's ports, the mouse (with the flag of its driver) and the USB controller, the heap, the kernel's page table.\<close>

record ('p, 'a, 'b) computer =
  cp_kernel :: kernel
  cp_segments :: segment_registers
  cp_idt :: "(u8 \<rightharpoonup> gate) option"
  cp_pics :: 'p
  cp_pit :: "(u16 \<times> u8) list"
  cp_mouse :: "bool \<times> 'a"
  cp_usb :: "UhciController \<times> 'b"
  cp_heap :: "(u64 \<times> u64) option"
  cp_page_table :: "u64 option"
  cp_phys_offset :: u64
  cp_markers :: "string list"

text \<open>What the code takes from elsewhere: the crates for page tables and interrupt controllers, the
  devices' ports, the answers of the disk to its probe, the included program, addresses.\<close>

record ('p, 'a, 'b) platform =
  pf_map_to :: mapper
  pf_pics :: "'p pic_ops"
  pf_ps2 :: "'a ps2"
  pf_usb :: "'b ports"
  pf_probe :: "u8 \<times> bool \<times> u8 \<times> bool \<times> u16 list"
  pf_sysutils :: bytes
  pf_selectors :: selectors
  pf_heap_start :: u64
  pf_trampoline :: u64

datatype boot_end = Idle_loop | User_mode InterruptContext | Hlt_loop | Panic_stop

section \<open>Memory\<close>

definition HEAP_SIZE :: u64 where "HEAP_SIZE = 1024 * 1024"

definition memory_init :: "u64 \<Rightarrow> u64 \<times> u64" where
  "memory_init heap_start = (heap_start, HEAP_SIZE)"

text \<open>\<^verbatim>\<open>page_table::init\<close>: the tables that the boot loader built, found through \<^verbatim>\<open>cr3\<close>.\<close>

definition page_table_init :: "u64 \<Rightarrow> ('p, 'a, 'b) computer \<Rightarrow> ('p, 'a, 'b) computer" where
  "page_table_init phys_offset c =
     c\<lparr>cp_phys_offset := phys_offset, cp_page_table := Some (c_cr3 (processor (k_machine (cp_kernel c))))\<rparr>"

definition init_memory_subsystem :: "MemoryRegion list \<Rightarrow> u64 \<Rightarrow> ('p, 'a, 'b) computer \<Rightarrow> ('p, 'a, 'b) computer option" where
  "init_memory_subsystem regions phys_offset c =
     (let k = cp_kernel c in
      case fa_init regions (frame_alloc (k_memory k)) of
        None \<Rightarrow> None
      | Some fa \<Rightarrow>
          let c1 = c\<lparr>cp_kernel := k\<lparr>k_memory := (k_memory k)\<lparr>frame_alloc := fa\<rparr>\<rparr>\<rparr>;
              c2 = page_table_init phys_offset c1
          in Some (c2\<lparr>cp_markers := cp_markers c2 @ [''MEMORY_SUBSYSTEM'']\<rparr>))"

section \<open>The disk\<close>

definition ata_init :: "u8 \<times> bool \<times> u8 \<times> bool \<times> u16 list \<Rightarrow> disk \<Rightarrow> disk" where
  "ata_init probe d =
     (case probe of (status, rdy, err, drq, ident) \<Rightarrow>
        case detect status rdy err drq ident of
          None \<Rightarrow> d
        | Some info \<Rightarrow> d\<lparr>disk_present := True, total_sectors := di_total_sectors info\<rparr>)"

section \<open>The built-in test program\<close>

definition RING3_TEST_CODE :: bytes where
  "RING3_TEST_CODE = [
     0x48, 0xC7, 0xC0, 0x03, 0x00, 0x00, 0x00,
     0x48, 0xC7, 0xC7, 0x01, 0x00, 0x00, 0x00,
     0x48, 0x8D, 0x35, 0x19, 0x00, 0x00, 0x00,
     0x48, 0xC7, 0xC2, 0x13, 0x00, 0x00, 0x00,
     0xCD, 0x80,
     0x48, 0xC7, 0xC0, 0x0B, 0x00, 0x00, 0x00,
     0x48, 0xC7, 0xC7, 0x00, 0x00, 0x00, 0x00,
     0xCD, 0x80] @ as_bytes ''Hello from Ring3!'' @ [10]"

definition launch_ring3_test :: "('p, 'a, 'b) platform \<Rightarrow> ('p, 'a, 'b) computer \<Rightarrow> ('p, 'a, 'b) computer \<times> boot_end" where
  "launch_ring3_test pf c =
     (let user_flags = 0x1 OR 0x2 OR 0x4; k = cp_kernel c in
      case map_page_alloc (pf_map_to pf) (cp_page_table c) 0x400000 user_flags (k_memory k) of
        (m1, Inl e) \<Rightarrow> (c\<lparr>cp_kernel := k\<lparr>k_memory := m1\<rparr>\<rparr>, Hlt_loop)
      | (m1, Inr code_frame) \<Rightarrow>
          let m2 = m1\<lparr>ram := poke code_frame RING3_TEST_CODE (ram m1)\<rparr> in
          (case map_page_alloc (pf_map_to pf) (cp_page_table c) (0x70000000 - 4096) user_flags m2 of
             (m3, Inl e) \<Rightarrow> (c\<lparr>cp_kernel := k\<lparr>k_memory := m3\<rparr>\<rparr>, Hlt_loop)
           | (m3, Inr _) \<Rightarrow>
               (c\<lparr>cp_kernel := k\<lparr>k_memory := m3\<rparr>\<rparr>,
                User_mode (enter_usermode (ucast (sel_user_code (pf_selectors pf))) (ucast (sel_user_data (pf_selectors pf))) 0x400000 0x70000000))))"

section \<open>The whole boot\<close>

definition mark :: "string list \<Rightarrow> ('p, 'a, 'b) computer \<Rightarrow> ('p, 'a, 'b) computer" where
  "mark names c = c\<lparr>cp_markers := cp_markers c @ names\<rparr>"

definition on_kernel :: "(kernel \<Rightarrow> kernel) \<Rightarrow> ('p, 'a, 'b) computer \<Rightarrow> ('p, 'a, 'b) computer" where
  "on_kernel f c = c\<lparr>cp_kernel := f (cp_kernel c)\<rparr>"

definition on_vfs :: "(Vfs \<Rightarrow> Vfs) \<Rightarrow> ('p, 'a, 'b) computer \<Rightarrow> ('p, 'a, 'b) computer" where
  "on_vfs f = on_kernel (\<lambda>k. k\<lparr>k_vfs := f (k_vfs k)\<rparr>)"

text \<open>Sections 0 to 4: console, segments, interrupts, heap.\<close>

definition boot_early :: "('p, 'a, 'b) platform \<Rightarrow> ('p, 'a, 'b) computer \<Rightarrow> ('p, 'a, 'b) computer" where
  "boot_early pf c =
     (let c1 = on_kernel (\<lambda>k. k\<lparr>k_console := vga_init (k_console k)\<rparr>) c;
          c2 = mark [''GDT''] (c1\<lparr>cp_segments := gdt_init (pf_selectors pf) (cp_segments c1)\<rparr>);
          c3 = mark [''IDT''] (c2\<lparr>cp_idt := Some IDT\<rparr>);
          c4 = c3\<lparr>cp_pics := pic_initialize (pf_pics pf) (cp_pics c3)\<rparr>;
          c5 = mark [''PIC''] (on_kernel (\<lambda>k. k\<lparr>k_interrupts := True\<rparr>) c4)
      in mark [''HEAP''] (c5\<lparr>cp_heap := Some (memory_init (pf_heap_start pf))\<rparr>))"

text \<open>Sections 4.6 to 5: file systems, disk, keyboard and mouse.\<close>

definition boot_devices :: "('p, 'a, 'b) platform \<Rightarrow> ('p, 'a, 'b) computer \<Rightarrow> ('p, 'a, 'b) computer" where
  "boot_devices pf c =
     (let c1 = mark [''VFS_TMPFS_INITRAMFS''] (on_vfs (\<lambda>v. initramfs_init (initramfs_contents (pf_sysutils pf)) (tmpfs_init v)) c);
          c2 = on_vfs (\<lambda>v. v\<lparr>devices := (devices v)\<lparr>dv_disk := ata_init (pf_probe pf) (dv_disk (devices v))\<rparr>\<rparr>) c1;
          c3 = on_vfs (\<lambda>v. devfs_init (fst (fat32_init v))) c2;
          c4 = mark [''ATA_DISK'', ''FAT32'', ''DEVFS''] c3;
          c5 = c4\<lparr>cp_pics := enable_keyboard (pf_pics pf) (cp_pics c4)\<rparr>
      in mark [''KEYBOARD'', ''MOUSE''] (c5\<lparr>cp_mouse := mouse_init (pf_ps2 pf) (cp_mouse c5)\<rparr>))"

text \<open>Sections 6 to 18: graphics, timer, processes, USB; the other sections only print.\<close>

definition boot_late :: "('p, 'a, 'b) platform \<Rightarrow> (FrameBufferInfo \<times> u64 \<times> u64) option \<Rightarrow> ('p, 'a, 'b) computer \<Rightarrow> ('p, 'a, 'b) computer" where
  "boot_late pf fb c =
     (let c1 = (case fb of
                 Some (info, ptr, len) \<Rightarrow> mark [''GRAPHICS''] (on_kernel (\<lambda>k. k\<lparr>k_graphics := graphics_init info ptr len\<rparr>) c)
               | None \<Rightarrow> c);
          c2 = mark [''TIME''] (c1\<lparr>cp_pit := cp_pit c1 @ time_init\<rparr>);
          c3 = mark [''SYSCALLS'', ''FLUTTER_ADAPTER'', ''WINDOW_MANAGER'', ''EXEC_LOADER''] c2;
          c4 = mark [''FLUTTER_SHELL''] (on_kernel (\<lambda>k. k\<lparr>k_machine := launch_system (k_machine k)\<rparr>) c3);
          c5 = mark [''SIGNAL_SUBSYS'', ''OOM_HANDLER''] c4;
          (u, d, _) = init_controller (pf_usb pf) (fst (cp_usb c5)) (snd (cp_usb c5))
      in mark [''UHCI_USB'', ''USB_HID_INPUT'', ''AERO_APP_FORMAT'', ''PERMISSION_SUBSYS'', ''USERMODE'', ''SCHEDULER'', ''SIGNAL'',
           ''FORK_EXEC''] (c5\<lparr>cp_usb := (u, d)\<rparr>))"

text \<open>Sections 19 and 20.\<close>

definition boot_launch :: "('p, 'a, 'b) platform \<Rightarrow> ('p, 'a, 'b) computer \<Rightarrow> ('p, 'a, 'b) computer \<times> boot_end" where
  "boot_launch pf c =
     (let k = cp_kernel c in
      case launch_users (pf_map_to pf) (pf_trampoline pf) (disk_present (dv_disk (devices (k_vfs k)))) (k_vfs k, k_machine k, k_memory k) of
        ((v, mc, m), launched) \<Rightarrow>
          let k1 = k\<lparr>k_vfs := v, k_machine := mc, k_memory := m\<rparr> in
          if launched
          then (c\<lparr>cp_kernel := k1\<lparr>k_machine := start_scheduler mc, k_interrupts := True\<rparr>\<rparr>, Idle_loop)
          else launch_ring3_test pf (c\<lparr>cp_kernel := k1\<rparr>))"

definition kernel_main :: "('p, 'a, 'b) platform \<Rightarrow> boot_info \<Rightarrow> ('p, 'a, 'b) computer \<Rightarrow> ('p, 'a, 'b) computer \<times> boot_end" where
  "kernel_main pf bi c =
     (case physical_memory_offset bi of
        None \<Rightarrow> (c, Panic_stop)
      | Some phys_offset \<Rightarrow>
          let c1 = boot_early pf c in
          case init_memory_subsystem (memory_regions bi) phys_offset c1 of
            None \<Rightarrow> (c1, Panic_stop)
          | Some c2 \<Rightarrow> boot_launch pf (boot_late pf (framebuffer bi) (boot_devices pf c2)))"

section \<open>Running out of memory, and leaving the emulator\<close>

text \<open>The handler of failed allocations panics in any case, also when memory was reclaimed.\<close>

definition alloc_error :: "ProcessTable \<times> memory \<Rightarrow> (ProcessTable \<times> memory) \<times> outcome" where
  "alloc_error s = (case handle_oom s of (s', True) \<Rightarrow> (s', Halted) | (s', False) \<Rightarrow> (s', Halted))"

datatype QemuExitCode = Success | Failed

primrec qemu_code :: "QemuExitCode \<Rightarrow> u32" where
  "qemu_code Success = 0x10"
| "qemu_code Failed = 0x11"

definition exit_qemu :: "QemuExitCode \<Rightarrow> u16 \<times> u32" where
  "exit_qemu result = (0xF4, qemu_code result)"

section \<open>Starting values\<close>

definition SCHEDULER_new :: Scheduler where
  "SCHEDULER_new = \<lparr>current_slice = 5, default_slice = 5, active = False\<rparr>"

text \<open>The kernel's static data before \<open>kernel_main\<close>; the addresses of the stacks are arguments.\<close>

definition KERNEL_STACKS_new :: "(nat \<Rightarrow> u64) \<Rightarrow> ProcessKernelStack list" where
  "KERNEL_STACKS_new bases = map (\<lambda>i. \<lparr>stack_base = bases i, saved_rsp = 0, initialised = False\<rparr>) [0..<MAX_PROCESSES]"

definition fresh :: "('p, 'a, 'b) computer \<Rightarrow> bool" where
  "fresh c \<longleftrightarrow> table (k_machine (cp_kernel c)) = pt_new \<and> sched (k_machine (cp_kernel c)) = SCHEDULER_new \<and>
     (\<exists>bases. stacks (k_machine (cp_kernel c)) = KERNEL_STACKS_new bases) \<and>
     frame_alloc (k_memory (cp_kernel c)) = fa_new \<and> mounts (k_vfs (cp_kernel c)) = [] \<and> cp_markers c = []"

section \<open>Lemmas\<close>

lemma mark_simps [simp]:
  "cp_kernel (mark xs c) = cp_kernel c" "cp_markers (mark xs c) = cp_markers c @ xs" "cp_pics (mark xs c) = cp_pics c"
  by (simp_all add: mark_def)

lemma on_kernel_simps [simp]:
  "cp_kernel (on_kernel f c) = f (cp_kernel c)" "cp_markers (on_kernel f c) = cp_markers c" "cp_pics (on_kernel f c) = cp_pics c"
  "cp_kernel (on_vfs g c) = (cp_kernel c)\<lparr>k_vfs := g (k_vfs (cp_kernel c))\<rparr>" "cp_markers (on_vfs g c) = cp_markers c"
  "cp_pics (on_vfs g c) = cp_pics c"
  by (simp_all add: on_kernel_def on_vfs_def)

lemma boot_early_simps:
  "k_machine (cp_kernel (boot_early pf c)) = k_machine (cp_kernel c)" "k_memory (cp_kernel (boot_early pf c)) = k_memory (cp_kernel c)"
  "k_vfs (cp_kernel (boot_early pf c)) = k_vfs (cp_kernel c)" "cp_markers (boot_early pf c) = cp_markers c @ [''GDT'', ''IDT'', ''PIC'', ''HEAP'']"
  by (simp_all add: boot_early_def Let_def)

lemma init_memory_simps:
  assumes "init_memory_subsystem regions off c = Some c'"
  shows "k_machine (cp_kernel c') = k_machine (cp_kernel c)" "k_vfs (cp_kernel c') = k_vfs (cp_kernel c)"
    "cp_markers c' = cp_markers c @ [''MEMORY_SUBSYSTEM'']"
  using assms by (auto simp: init_memory_subsystem_def page_table_init_def Let_def split: option.splits)

text \<open>The file systems are mounted over the disk as the driver sees it.\<close>

lemma initramfs_root:
  assumes "length sysutils < 2 ^ 64"
  shows "initramfs_init (initramfs_contents sysutils) (root_vfs tmpfs_new dv) =
    root_vfs (initramfs_tree HELLO_ELF FORKTEST_ELF sysutils initramfs_README) dv"
proof -
  have "initramfs_HELLO = HELLO_ELF" "initramfs_FORKTEST = FORKTEST_ELF" "length initramfs_README = 245"
    by (simp_all only: initramfs_HELLO_def HELLO_ELF_def initramfs_FORKTEST_def FORKTEST_ELF_def) (simp add: initramfs_README_def)
  with assms show ?thesis
    using initramfs_built [of HELLO_ELF FORKTEST_ELF sysutils initramfs_README dv] small_files
    by (simp add: initramfs_contents_def)
qed

lemma boot_devices_vfs:
  assumes "mounts (k_vfs (cp_kernel c)) = []" "length (pf_sysutils pf) < 2 ^ 64"
  shows "k_vfs (cp_kernel (boot_devices pf c)) = mount_file_systems (pf_sysutils pf)
     ((devices (k_vfs (cp_kernel c)))\<lparr>dv_disk := ata_init (pf_probe pf) (dv_disk (devices (k_vfs (cp_kernel c))))\<rparr>)"
proof -
  define dv where "dv = devices (k_vfs (cp_kernel c))"
  have v: "k_vfs (cp_kernel c) = \<lparr>mounts = [], devices = dv\<rparr>" using assms(1) by (simp add: dv_def)
  show ?thesis unfolding v
    by (simp add: boot_devices_def Let_def v tmpfs_init_empty initramfs_root [OF assms(2)] mount_file_systems_def)
qed

lemma boot_devices_simps:
  "k_machine (cp_kernel (boot_devices pf c)) = k_machine (cp_kernel c)" "k_memory (cp_kernel (boot_devices pf c)) = k_memory (cp_kernel c)"
  "cp_markers (boot_devices pf c) = cp_markers c @ [''VFS_TMPFS_INITRAMFS'', ''ATA_DISK'', ''FAT32'', ''DEVFS'', ''KEYBOARD'', ''MOUSE'']"
  by (simp_all add: boot_devices_def Let_def)

lemma boot_late_simps:
  "k_machine (cp_kernel (boot_late pf fb c)) = launch_system (k_machine (cp_kernel c))" "k_memory (cp_kernel (boot_late pf fb c)) = k_memory (cp_kernel c)"
  "k_vfs (cp_kernel (boot_late pf fb c)) = k_vfs (cp_kernel c)"
  "cp_markers (boot_late pf fb c) = cp_markers c @ (if fb \<noteq> None then [''GRAPHICS''] else []) @ [''TIME'', ''SYSCALLS'', ''FLUTTER_ADAPTER'', ''WINDOW_MANAGER'',
     ''EXEC_LOADER'', ''FLUTTER_SHELL'', ''SIGNAL_SUBSYS'', ''OOM_HANDLER'', ''UHCI_USB'', ''USB_HID_INPUT'', ''AERO_APP_FORMAT'',
     ''PERMISSION_SUBSYS'', ''USERMODE'', ''SCHEDULER'', ''SIGNAL'', ''FORK_EXEC'']"
  by (simp_all add: boot_late_def Let_def split: prod.split option.split)

lemma launch_ring3_simps:
  "launch_ring3_test pf c = (c', e) \<Longrightarrow> k_machine (cp_kernel c') = k_machine (cp_kernel c) \<and> k_vfs (cp_kernel c') = k_vfs (cp_kernel c) \<and>
     cp_markers c' = cp_markers c \<and> e \<notin> {Idle_loop, Panic_stop}"
  by (auto simp: launch_ring3_test_def Let_def split: prod.splits sum.splits)

lemma not_running_inv: "ready_stacks mc \<Longrightarrow> sched_inv (table mc)"
  by (auto simp: ready_stacks_def sched_inv_def)

text \<open>While the idle loop's slice lasts, ticks only count.\<close>

lemma idle_ticks:
  assumes "ready_stacks (k_machine (q_kernel s))" "active (sched (k_machine (q_kernel s)))" "q_owed s = []"
    and "n < unat (current_slice (sched (k_machine (q_kernel s))))"
  shows "let s' = (timer_irq pc no_locks ^^ n) s in q_owed s' = [] \<and>
    table (k_machine (q_kernel s')) = table (k_machine (q_kernel s)) \<and> stacks (k_machine (q_kernel s')) = stacks (k_machine (q_kernel s)) \<and>
    active (sched (k_machine (q_kernel s'))) \<and>
    unat (current_slice (sched (k_machine (q_kernel s')))) = unat (current_slice (sched (k_machine (q_kernel s)))) - n"
  using assms
proof (induction n arbitrary: s)
  case (Suc n)
  let ?m = "k_machine (q_kernel s)"
  have c: "q_current s = 0" using Suc.prems(1) by (simp add: ready_stacks_def)
  have l: "1 < current_slice (sched ?m)" using Suc.prems(4) by (simp add: word_less_nat_alt)
  then have "0 < current_slice (sched ?m)" by (simp add: word_less_nat_alt)
  then have cs: "count_slice ?m = ?m\<lparr>sched := (sched ?m)\<lparr>current_slice := current_slice (sched ?m) - 1\<rparr>\<rparr>" by (simp add: count_slice_def)
  have d: "unat (current_slice (sched ?m) - 1) = unat (current_slice (sched ?m)) - 1"
    using unat_sub [of 1 "current_slice (sched ?m)"] l by (simp add: word_le_nat_alt word_less_nat_alt)
  note t = idle_tick_counts [OF c Suc.prems(2) l, of pc]
  have "ready_stacks (k_machine (q_kernel (timer_irq pc no_locks s)))" using Suc.prems(1) by (simp add: t cs ready_stacks_def)
  from Suc.IH [OF this] Suc.prems(2-4) d show ?case
    by (simp add: t cs funpow_Suc_right del: funpow.simps)
qed simp

text \<open>The flag: the boot loader handed over a framebuffer.\<close>

definition boot_markers :: "bool \<Rightarrow> string list" where
  "boot_markers fb = [''GDT'', ''IDT'', ''PIC'', ''HEAP'', ''MEMORY_SUBSYSTEM'', ''VFS_TMPFS_INITRAMFS'', ''ATA_DISK'', ''FAT32'', ''DEVFS'',
     ''KEYBOARD'', ''MOUSE''] @ (if fb then [''GRAPHICS''] else []) @ [''TIME'', ''SYSCALLS'', ''FLUTTER_ADAPTER'', ''WINDOW_MANAGER'', ''EXEC_LOADER'', ''FLUTTER_SHELL'',
     ''SIGNAL_SUBSYS'', ''OOM_HANDLER'', ''UHCI_USB'', ''USB_HID_INPUT'', ''AERO_APP_FORMAT'', ''PERMISSION_SUBSYS'', ''USERMODE'', ''SCHEDULER'',
     ''SIGNAL'', ''FORK_EXEC'']"

lemma boot_state:
  assumes f: "fresh c" and off: "physical_memory_offset bi \<noteq> None" and mm: "memory_map_ok (memory_regions bi)"
    and s: "length (pf_sysutils pf) < 2 ^ 64" and r: "kernel_main pf bi c = (c', e)"
  defines "fs \<equiv> mount_file_systems (pf_sysutils pf)
    ((devices (k_vfs (cp_kernel c)))\<lparr>dv_disk := ata_init (pf_probe pf) (dv_disk (devices (k_vfs (cp_kernel c))))\<rparr>)"
  shows "e \<noteq> Panic_stop \<and> cp_markers c' = boot_markers (framebuffer bi \<noteq> None) \<and> ready_stacks (k_machine (cp_kernel c')) \<and>
    proc_map (proc_table (cp_kernel c')) 1 = Some (new_process 1 0 (as_bytes ''wm'')) \<and>
    proc_map (proc_table (cp_kernel c')) 2 = Some (new_process 2 0 (as_bytes ''flutter_shell'')) \<and>
    (\<exists>m0 mc m. fa_init (memory_regions bi) fa_new = Some (frame_alloc m0) \<and>
       launch_users (pf_map_to pf) (pf_trampoline pf) (disk_present (dv_disk (devices fs))) (fs, launch_system (k_machine (cp_kernel c)), m0) =
       ((k_vfs (cp_kernel c'), mc, m), e = Idle_loop)) \<and>
    (if e = Idle_loop
     then sched (k_machine (cp_kernel c')) = SCHEDULER_new\<lparr>active := True\<rparr> \<and> k_interrupts (cp_kernel c') \<and>
       (\<exists>k p. proc_map (proc_table (cp_kernel c')) k = Some p \<and> state p = Ready)
     else sched (k_machine (cp_kernel c')) = SCHEDULER_new)"
proof -
  obtain offs where offs: "physical_memory_offset bi = Some offs" using off by blast
  let ?c1 = "boot_early pf c"
  obtain fa where fa: "fa_init (memory_regions bi) fa_new = Some fa" using fa_init_spec [OF mm] by blast
  then obtain c2 where c2: "init_memory_subsystem (memory_regions bi) offs ?c1 = Some c2"
    using f by (auto simp: init_memory_subsystem_def boot_early_simps fresh_def Let_def)
  define c4 where "c4 = boot_late pf (framebuffer bi) (boot_devices pf c2)"
  have mc: "k_machine (cp_kernel c4) = launch_system (k_machine (cp_kernel c))"
    by (simp add: c4_def boot_late_simps boot_devices_simps init_memory_simps [OF c2] boot_early_simps)
  have "mounts (k_vfs (cp_kernel c2)) = []" using f by (simp add: init_memory_simps [OF c2] boot_early_simps fresh_def)
  then have v: "k_vfs (cp_kernel c4) = fs"
    using boot_devices_vfs [OF _ s, of c2] by (simp add: c4_def boot_late_simps init_memory_simps [OF c2] boot_early_simps fs_def)
  have m0: "frame_alloc (k_memory (cp_kernel c4)) = fa"
    using c2 fa f by (auto simp: c4_def boot_late_simps boot_devices_simps init_memory_subsystem_def page_table_init_def boot_early_simps
        fresh_def Let_def split: option.splits)
  have marks: "cp_markers c4 = boot_markers (framebuffer bi \<noteq> None)"
    using f by (simp add: c4_def boot_late_simps boot_devices_simps init_memory_simps [OF c2] boot_early_simps boot_markers_def fresh_def)
  obtain v' mc' m' launched where l: "launch_users (pf_map_to pf) (pf_trampoline pf) (disk_present (dv_disk (devices fs)))
      (fs, launch_system (k_machine (cp_kernel c)), k_memory (cp_kernel c4)) = ((v', mc', m'), launched)" by (metis prod_cases3 surj_pair)
  have st: "table (k_machine (cp_kernel c)) = pt_new" "length (stacks (k_machine (cp_kernel c))) = MAX_PROCESSES"
    "sched (k_machine (cp_kernel c)) = SCHEDULER_new" using f by (auto simp: fresh_def KERNEL_STACKS_new_def)
  note fp = first_processes [OF st(1,2) l]
  have bl: "boot_launch pf c4 = (c', e)" using r by (simp add: kernel_main_def offs c2 c4_def Let_def)
  show ?thesis
  proof (cases launched)
    case True
    with bl l v mc have e: "e = Idle_loop" "c' = c4\<lparr>cp_kernel := (cp_kernel c4)\<lparr>k_vfs := v', k_machine := start_scheduler mc', k_memory := m', k_interrupts := True\<rparr>\<rparr>"
      by (auto simp: boot_launch_def Let_def)
    then show ?thesis using fp True l marks st(3) m0 fa by (auto simp: start_scheduler_def ready_stacks_def)
  next
    case False
    with bl l v mc have "launch_ring3_test pf (c4\<lparr>cp_kernel := (cp_kernel c4)\<lparr>k_vfs := v', k_machine := mc', k_memory := m'\<rparr>\<rparr>) = (c', e)"
      by (auto simp: boot_launch_def Let_def)
    from launch_ring3_simps [OF this] show ?thesis using fp False l marks st(3) m0 fa by auto
  qed
qed

section \<open>Loading with enough frames\<close>

text \<open>A mapper that always succeeds and takes no frame; with it a program of one page takes 19
  frames: the page table, its page, and 17 pages of stack.\<close>

definition easy_mapper :: mapper where
  "easy_mapper = (\<lambda>pml4 page frame flags m. (m, True))"

lemma easy_page:
  "0 < top (frame_alloc m) \<Longrightarrow> \<exists>m' f. map_user_page_alloc easy_mapper p page fl m = (m', Inr f) \<and> top (frame_alloc m') + 1 = top (frame_alloc m)"
  by (auto simp: map_user_page_alloc_def map_user_page_def easy_mapper_def allocate_frame_def Let_def)

lemma easy_stack:
  "length pages \<le> top (frame_alloc m) \<Longrightarrow> \<exists>m'. for_each (map_stack_page easy_mapper p) pages m = (m', Inr ())"
proof (induction pages arbitrary: m)
  case (Cons a pages)
  obtain m1 f where m1: "map_user_page_alloc easy_mapper p a (PRESENT OR WRITABLE OR USER_ACCESSIBLE) m = (m1, Inr f)"
    "top (frame_alloc m1) + 1 = top (frame_alloc m)"
    using easy_page [of m p a "PRESENT OR WRITABLE OR USER_ACCESSIBLE"] Cons.prems by auto
  from Cons.IH [of m1] Cons.prems m1(2) obtain m2 where "for_each (map_stack_page easy_mapper p) pages m1 = (m2, Inr ())" by auto
  with m1(1) show ?case by (simp add: map_stack_page_def [of _ _ a])
qed simp

lemma easy_code:
  assumes "1 \<le> top (frame_alloc m)" "unat (seg_offset seg) + unat (filesz seg) \<le> length d" "page AND 0xfff = 0"
    and "\<And>dst src n. file_part seg page = Some (dst, src, n) \<Longrightarrow> unat src + unat n \<le> length d"
  shows "\<exists>m'. map_elf_page easy_mapper p d seg page m = (m', Inr ()) \<and> top (frame_alloc m) \<le> top (frame_alloc m') + 1"
proof -
  have c: "\<exists>m'. copy_file_part d seg page f m0 = (m', Inr ()) \<and> frame_alloc m' = frame_alloc m0" for f m0
    using assms(4) by (auto simp: copy_file_part_def split: option.splits prod.splits)
  show ?thesis
  proof (cases "translate (ram m) p page")
    case (Some pa)
    then have "pa AND 0xfff = 0" using translate_offset assms(3) by metis
    with Some c [of pa m] show ?thesis by (auto simp: map_elf_page_def)
  next
    case None
    obtain m1 f where m1: "map_user_page_alloc easy_mapper p page (segment_flags seg) m = (m1, Inr f)"
      "top (frame_alloc m1) + 1 = top (frame_alloc m)" using easy_page [of m p page "segment_flags seg"] assms(1) by auto
    with None c [of f "m1\<lparr>ram := zero_frame f (ram m1)\<rparr>"] show ?thesis by (auto simp: map_elf_page_def)
  qed
qed

lemma easy_load:
  assumes "19 \<le> top (frame_alloc m)"
  shows "\<exists>m' pml4. load_elf_into_new_space easy_mapper active_pml4 HELLO_ELF m = (m', Inr (pml4, 0x400078, USER_STACK_TOP))"
proof -
  have parsed: "parse_elf_segments HELLO_ELF = Inr (0x400078, [whole_file HELLO_ELF])" by code_simp
  have n: "length HELLO_ELF < 4096" by code_simp
  have part: "map_option (\<lambda>(dst, src, n). unat src + unat n \<le> length HELLO_ELF) (file_part (whole_file HELLO_ELF) 0x400000) = Some True"
    by code_simp
  have pages: "page_range (containing_page (vaddr (whole_file HELLO_ELF))) (containing_page (vaddr (whole_file HELLO_ELF) + memsz (whole_file HELLO_ELF))) = [0x400000]"
    by code_simp
  have sane: "memsz (whole_file HELLO_ELF) \<noteq> 0" "canonical (vaddr (whole_file HELLO_ELF))"
    "canonical (vaddr (whole_file HELLO_ELF) + memsz (whole_file HELLO_ELF))"
    "unat (seg_offset (whole_file HELLO_ELF)) + unat (filesz (whole_file HELLO_ELF)) \<le> length HELLO_ELF"
    by code_simp+
  have stack: "length (page_range (containing_page (USER_STACK_TOP - USER_STACK_SIZE)) (containing_page USER_STACK_TOP)) = 17"
    by (simp add: page_range_def containing_page_def USER_STACK_TOP_def USER_STACK_SIZE_def)
  obtain m1 pml4 where m1: "new_user active_pml4 m = (m1, Inr pml4)" "top (frame_alloc m1) + 1 = top (frame_alloc m)"
    using assms by (auto simp: new_user_def allocate_frame_def Let_def)
  have "\<exists>m2. map_elf_page easy_mapper pml4 HELLO_ELF (whole_file HELLO_ELF) 0x400000 m1 = (m2, Inr ()) \<and> top (frame_alloc m1) \<le> top (frame_alloc m2) + 1"
    using easy_code [of m1 "whole_file HELLO_ELF" HELLO_ELF "0x400000" pml4] part sane(4) assms m1(2) by auto
  then obtain m2 where m2: "map_elf_page easy_mapper pml4 HELLO_ELF (whole_file HELLO_ELF) 0x400000 m1 = (m2, Inr ())"
    "top (frame_alloc m1) \<le> top (frame_alloc m2) + 1" by blast
  obtain m3 where m3: "for_each (map_stack_page easy_mapper pml4)
      (page_range (containing_page (USER_STACK_TOP - USER_STACK_SIZE)) (containing_page USER_STACK_TOP)) m2 = (m3, Inr ())"
    using easy_stack [of "page_range (containing_page (USER_STACK_TOP - USER_STACK_SIZE)) (containing_page USER_STACK_TOP)" m2 pml4]
      stack m1(2) m2(2) assms by auto
  show ?thesis
    using m2(1) m3 sane by (simp add: load_elf_into_new_space_def parsed m1(1) map_elf_segment_def pages map_user_stack_def)
qed

section \<open>A computer to boot\<close>

definition demo_selectors :: selectors where
  "demo_selectors = \<lparr>sel_kernel_code = 0x08, sel_kernel_data = 0x10, sel_tss = 0x18, sel_user_data = 0x2B, sel_user_code = 0x33\<rparr>"

text \<open>A keyboard controller that never answers and a USB controller that reads as zero.\<close>

definition demo_platform :: "(u8 list \<times> u8 \<times> u8, unit, unit) platform" where
  "demo_platform = \<lparr>pf_map_to = easy_mapper, pf_pics = demo_pics, pf_ps2 = \<lparr>ps2_in = (\<lambda>p d. (d, 0)), ps2_out = (\<lambda>p v d. d)\<rparr>,
     pf_usb = \<lparr>port_in = (\<lambda>p d. (d, 0)), port_out = (\<lambda>p v d. d)\<rparr>, pf_probe = (0xFF, False, 0, False, []),
     pf_sysutils = [0x7F], pf_selectors = demo_selectors, pf_heap_start = 0, pf_trampoline = 0\<rparr>"

definition demo_computer :: "bytes \<Rightarrow> (u8 list \<times> u8 \<times> u8, unit, unit) computer" where
  "demo_computer img = \<lparr>cp_kernel = demo_kernel\<lparr>
       k_machine := demo_machine\<lparr>table := pt_new, sched := SCHEDULER_new, stacks := KERNEL_STACKS_new (\<lambda>i. of_nat (0x10000 * i))\<rparr>,
       k_memory := \<lparr>frame_alloc = fa_new, ram = (\<lambda>_. 0)\<rparr>,
       k_vfs := \<lparr>mounts = [], devices = \<lparr>dv_disk = drive_of img, dv_keys = sb_new, dv_serial = [], dv_fb = None\<rparr>\<rparr>\<rparr>,
     cp_segments = \<lparr>r_cs = 0, r_ss = 0, r_ds = 0, r_es = 0, r_tr = 0\<rparr>, cp_idt = None, cp_pics = ([], 0xFF, 0xFF), cp_pit = [],
     cp_mouse = (False, ()), cp_usb = (uhci_new, ()), cp_heap = None, cp_page_table = None, cp_phys_offset = 0, cp_markers = []\<rparr>"

definition demo_boot_info :: boot_info where
  "demo_boot_info = \<lparr>physical_memory_offset = Some 0xffff800000000000,
     memory_regions = [\<lparr>region_start = 0x100000, region_end = 0x120000, region_kind = Usable\<rparr>], framebuffer = None\<rparr>"

lemma demo_computer_fresh: "fresh (demo_computer img)"
  unfolding fresh_def demo_computer_def by auto

lemma demo_boot_info_ok:
  "physical_memory_offset demo_boot_info \<noteq> None" "memory_map_ok (memory_regions demo_boot_info)"
  "length (pf_sysutils demo_platform) < 2 ^ 64"
  by (simp_all add: demo_boot_info_def memory_map_ok_def region_ok_def demo_platform_def)

section \<open>Properties\<close>




section \<open>A boot from the disk of the build script\<close>

lemma spawned_slot:
  assumes "pt_wf t" "k \<noteq> 0" "proc_map t k = Some q" "\<And>p. proc_wf p \<Longrightarrow> pid p = k \<Longrightarrow> proc_wf (f p) \<and> pid (f p) = k"
  shows "find_slot k (with_proc k f t) \<noteq> None"
proof -
  have "proc_map (with_proc k f t) k \<noteq> None" using with_proc_map [OF assms(1,2,4)] assms(3) by simp
  then show ?thesis by (auto simp: find_slot_eq proc_map_def get_eq_get_mut split: if_splits)
qed

text \<open>With the mapper of above and 19 frames the first process starts.\<close>

lemma easy_spawn:
  assumes "table mc = pt_new" "19 \<le> top (frame_alloc m)"
  shows "\<exists>r. snd (spawn_user_process easy_mapper trampoline HELLO_ELF nm (launch_system mc, m)) = Inr r"
proof -
  obtain m1 pml4 where l: "load_elf_into_new_space easy_mapper (c_cr3 (processor (launch_system mc))) HELLO_ELF m = (m1, Inr (pml4, 0x400078, USER_STACK_TOP))"
    using easy_load [OF assms(2)] by blast
  obtain t1 k1 where a1: "alloc 0 (as_bytes ''wm'') pt_new = (t1, k1)" by fastforce
  obtain t2 k2 where a2: "alloc 0 (as_bytes ''flutter_shell'') t1 = (t2, k2)" by fastforce
  obtain t3 k where a3: "alloc 0 nm t2 = (t3, k)" by fastforce
  have k: "k1 = 1" "next_pid pt_new = 1" "next_pid t1 = 2" "k2 = 2" "next_pid t2 = 3" "k = 3"
    using a1 a2 a3 by (auto simp: alloc_def pt_new_def MAX_PROCESSES_def upt_rec Let_def modify_def)
  have w: "pt_wf t1" "pt_wf t2" "pt_wf t3" "proc_map t3 k = Some (new_process k 0 nm)"
    using alloc_spec [OF pt_new_wf _ a1] alloc_spec [of t1, OF _ _ a2] alloc_spec [of t2, OF _ _ a3] k by auto
  have t: "table (launch_system mc) = t2" by (simp add: launch_system_def assms(1) a1 a2)
  have "find_slot k (with_proc k (\<lambda>p. p\<lparr>entry_point := 0x400078, user_rsp := USER_STACK_TOP, cr3 := pml4, state := Ready\<rparr>) t3) \<noteq> None"
    by (rule spawned_slot [OF w(3) _ w(4)]) (use k in \<open>auto simp: proc_wf_def\<close>)
  then show ?thesis using a3 k by (auto simp: spawn_user_process_def l t Let_def)
qed

lemma demo_frames:
  assumes "fa_init (memory_regions demo_boot_info) fa_new = Some fa"
  shows "19 \<le> top fa"
proof (rule ccontr)
  assume n: "\<not> 19 \<le> top fa"
  have fa: "fa_wf fa" "distinct (free_frames fa)" "top fa < MAX_FRAMES \<longrightarrow> set (free_frames fa) = usable_frames (memory_regions demo_boot_info)"
    using fa_init_spec [OF demo_boot_info_ok(2)] assms by auto
  have u: "unat (of_nat (4096 * (256 + i)) :: u64) = 4096 * (256 + i)" if "i < 19" for i :: nat
    using that by (intro of_nat_inverse [OF refl]) simp
  have "(\<lambda>i. of_nat (4096 * (256 + i)) :: u64) ` {..<19} \<subseteq> usable_frames (memory_regions demo_boot_info)"
  proof
    fix a :: u64 assume "a \<in> (\<lambda>i. of_nat (4096 * (256 + i))) ` {..<19}"
    then obtain i :: nat where i: "i < 19" "a = of_nat (4096 * (256 + i))" by auto
    then show "a \<in> usable_frames (memory_regions demo_boot_info)"
      using u [OF i(1)] by (simp add: usable_frames_def region_frames_def demo_boot_info_def del: of_nat_mult of_nat_add)
  qed
  moreover have "inj_on (\<lambda>i. of_nat (4096 * (256 + i)) :: u64) {..<19}"
  proof (rule inj_onI)
    fix i j :: nat assume "i \<in> {..<19}" "j \<in> {..<19}" "(of_nat (4096 * (256 + i)) :: u64) = of_nat (4096 * (256 + j))"
    then have "4096 * (256 + i) = 4096 * (256 + j)" using u by (metis lessThan_iff)
    then show "i = j" by simp
  qed
  moreover have "set (free_frames fa) = usable_frames (memory_regions demo_boot_info)" using fa(3) n by (simp add: MAX_FRAMES_def)
  ultimately have "card {..<19 :: nat} \<le> card (set (free_frames fa))" by (metis card_image card_mono List.finite_set)
  then show False using n fa(1,2) by (simp add: distinct_card)
qed


end
