(* ===== verification/Sysutils.thy ===== *)
theory Sysutils
  imports Sys_Process
begin

text \<open>
  The user program \<^verbatim>\<open>sysutils\<close> (\<^verbatim>\<open>sysutils/src\<close>): the wrappers of the system calls, the commands
  \<^verbatim>\<open>ls\<close>, \<^verbatim>\<open>cat\<close>, \<^verbatim>\<open>ps\<close> and \<^verbatim>\<open>kill\<close>, the entry point and the interactive shell. The kernel is seen
  through its system calls: a record of functions on a state of the system, in which the buffers that
  a call reads or fills are byte strings. The properties connect the program with the kernel's side:
  what \<^verbatim>\<open>ls\<close> prints is what \<^verbatim>\<open>sys_getdents\<close> wrote.
\<close>

section \<open>System calls\<close>

record 'w os =
  os_write :: "i32 \<Rightarrow> bytes \<Rightarrow> 'w \<Rightarrow> 'w \<times> i64"
  os_read :: "i32 \<Rightarrow> nat \<Rightarrow> 'w \<Rightarrow> 'w \<times> i64 \<times> bytes"
  os_open :: "bytes \<Rightarrow> u32 \<Rightarrow> 'w \<Rightarrow> 'w \<times> i64"
  os_close :: "i32 \<Rightarrow> 'w \<Rightarrow> 'w \<times> i64"
  os_getdents :: "bytes \<Rightarrow> nat \<Rightarrow> 'w \<Rightarrow> 'w \<times> i64 \<times> bytes"
  os_getprocs :: "nat \<Rightarrow> 'w \<Rightarrow> 'w \<times> i64 \<times> bytes"
  os_kill :: "u32 \<Rightarrow> u8 \<Rightarrow> 'w \<Rightarrow> 'w \<times> i64"
  os_fork :: "'w \<Rightarrow> 'w \<times> i64"
  os_exec :: "bytes \<Rightarrow> u64 \<Rightarrow> 'w \<Rightarrow> 'w \<times> i64"
  os_waitpid :: "i64 \<Rightarrow> 'w \<Rightarrow> 'w \<times> i64 \<times> i32"

text \<open>How a program part ends: it returns, or the process exits.\<close>

datatype 'w run = Returned 'w i32 | Exited 'w i32

definition u_write :: "'w os \<Rightarrow> i32 \<Rightarrow> bytes \<Rightarrow> 'w \<Rightarrow> 'w \<times> i64" where
  "u_write os fd b w = (if b = [] then (w, 0) else os_write os fd b w)"

text \<open>The path as a C string in a buffer of 128 bytes.\<close>

definition path_cstr :: "bytes \<Rightarrow> bytes option" where
  "path_cstr path = (if 128 \<le> length path then None else Some (path @ [0]))"

definition u_open :: "'w os \<Rightarrow> bytes \<Rightarrow> u32 \<Rightarrow> 'w \<Rightarrow> 'w \<times> i64" where
  "u_open os path flags w = (case path_cstr path of None \<Rightarrow> (w, - 28) | Some p \<Rightarrow> os_open os p flags w)"

definition u_getdents :: "'w os \<Rightarrow> bytes \<Rightarrow> nat \<Rightarrow> 'w \<Rightarrow> 'w \<times> i64 \<times> bytes" where
  "u_getdents os path n w = (case path_cstr path of None \<Rightarrow> (w, - 28, []) | Some p \<Rightarrow> os_getdents os p n w)"

definition u_exec :: "'w os \<Rightarrow> bytes \<Rightarrow> u64 \<Rightarrow> 'w \<Rightarrow> 'w \<times> i64" where
  "u_exec os path argv w = (case path_cstr path of None \<Rightarrow> (w, - 28) | Some p \<Rightarrow> os_exec os p argv w)"

definition print :: "'w os \<Rightarrow> bytes \<Rightarrow> 'w \<Rightarrow> 'w" where
  "print os s w = fst (u_write os 1 s w)"

definition println :: "'w os \<Rightarrow> bytes \<Rightarrow> 'w \<Rightarrow> 'w" where
  "println os s w = fst (u_write os 1 [10] (fst (u_write os 1 s w)))"

text \<open>The digits of a number, written into the buffer from its end.\<close>

function digit_bytes :: "u64 \<Rightarrow> bytes \<Rightarrow> bytes" where
  "digit_bytes v acc = (if v = 0 then acc else digit_bytes (v div 10) ((48 + ucast (v mod 10)) # acc))"
  by pat_completeness auto
termination
  by (relation "measure (unat \<circ> fst)") (auto simp: unat_div unat_gt_0 div_less_dividend)

declare digit_bytes.simps [simp del]

definition decimal :: "u64 \<Rightarrow> bytes" where
  "decimal v = (if v = 0 then [48] else digit_bytes v [])"

definition print_u64 :: "'w os \<Rightarrow> u64 \<Rightarrow> 'w \<Rightarrow> 'w" where
  "print_u64 os v w = print os (decimal v) w"

definition print_i64 :: "'w os \<Rightarrow> i64 \<Rightarrow> 'w \<Rightarrow> 'w" where
  "print_i64 os v w = (if v <s 0 then print_u64 os (- v) (print os (as_bytes ''-'') w) else print_u64 os v w)"

definition panic :: "'w os \<Rightarrow> 'w \<Rightarrow> 'w run" where
  "panic os w = Exited (println os [] (print os (as_bytes ''sysutils: panic: '') w)) 70"

section \<open>Commands\<close>

text \<open>\<^verbatim>\<open>cat\<close>: the buffer keeps what earlier reads left behind the new data.\<close>

partial_function (option) cat_loop :: "'w os \<Rightarrow> i32 \<Rightarrow> bytes \<Rightarrow> 'w \<Rightarrow> 'w run option" where
  "cat_loop os fd bs w =
     (case os_read os fd 512 w of (w1, n, dat) \<Rightarrow>
        let bs1 = splice 0 (take 512 dat) bs in
        if n \<le>s 0 then Some (Returned (fst (os_close os fd w1)) 0)
        else if 512 < unat n then Some (panic os w1)
        else case u_write os 1 (take (unat n) bs1) w1 of (w2, r) \<Rightarrow>
          if r <s 0 then Some (Returned (fst (os_close os fd w2)) 0) else cat_loop os fd bs1 w2)"

definition cat_run :: "'w os \<Rightarrow> bytes \<Rightarrow> 'w \<Rightarrow> 'w run option" where
  "cat_run os path w =
     (case u_open os path 0 w of (w1, fd) \<Rightarrow>
        if fd <s 0 then Some (Returned (println os [] (print os path (print os (as_bytes ''cat: no such file: '') w1))) 1)
        else cat_loop os (ucast fd) (replicate 512 0) w1)"

definition ls_mark :: "u8 \<Rightarrow> bytes" where
  "ls_mark ty = as_bytes (if ty = 2 then ''d  '' else if ty = 1 then ''f  '' else if ty = 3 then ''c  '' else if ty = 4 then ''b  '' else ''?  '')"

definition c_name :: "bytes \<Rightarrow> bytes" where
  "c_name b = takeWhile (\<lambda>c. c \<noteq> 0) b"

function ls_loop :: "'w os \<Rightarrow> bytes \<Rightarrow> nat \<Rightarrow> nat \<Rightarrow> 'w \<Rightarrow> 'w run" where
  "ls_loop os bs n i w =
     (if n < i + 72 then Returned w 0
      else if length bs < i + 65 then panic os w
      else ls_loop os bs n (i + 72)
             (println os [] (print os (c_name (slice (i + 1) (i + 65) bs)) (print os (ls_mark (bs ! i)) w))))"
  by pat_completeness auto
termination by (relation "measure (\<lambda>(os, bs, n, i, w). n - i)") auto

declare ls_loop.simps [simp del]

definition ls_run :: "'w os \<Rightarrow> bytes \<Rightarrow> 'w \<Rightarrow> 'w run" where
  "ls_run os path w =
     (case u_getdents os path 4096 w of (w1, n, dat) \<Rightarrow>
        let bs = splice 0 (take 4096 dat) (replicate 4096 0) in
        if n <s 0 then Returned (println os (as_bytes [CHR 0x27]) (print os path (print os (as_bytes (''ls: cannot open '' @ [CHR 0x27])) w1))) 1
        else if n = 0 then Returned (println os (as_bytes (CHR 0x27 # '' is empty'')) (print os path (print os (as_bytes (''ls: '' @ [CHR 0x27])) w1))) 0
        else ls_loop os bs (unat n) 0 w1)"

definition state_str :: "u64 \<Rightarrow> bytes" where
  "state_str s = as_bytes (if s = 1 then ''Ready'' else if s = 2 then ''Running'' else if s = 3 then ''Blocked''
     else if s = 4 then ''Zombie'' else ''Unknown'')"

text \<open>The entries of 40 bytes are read out of the buffer.\<close>

definition ps_line :: "'w os \<Rightarrow> bytes \<Rightarrow> 'w \<Rightarrow> 'w" where
  "ps_line os e w =
     (let w1 = print os (as_bytes ''  '') (print_u64 os (from_le (slice 0 8 e)) w);
          w2 = print os (as_bytes ''  '') (print_u64 os (from_le (slice 8 16 e)) w1);
          w3 = print os (as_bytes ''  '') (print os (state_str (from_le (slice 16 24 e))) w2)
      in println os [] (print os (c_name (slice 24 40 e)) w3))"

function ps_loop :: "'w os \<Rightarrow> bytes \<Rightarrow> nat \<Rightarrow> nat \<Rightarrow> 'w \<Rightarrow> 'w run" where
  "ps_loop os bs n i w =
     (if n \<le> i then Returned w 0
      else if 32 \<le> i then panic os w
      else ps_loop os bs n (i + 1) (ps_line os (slice (40 * i) (40 * i + 40) bs) w))"
  by pat_completeness auto
termination by (relation "measure (\<lambda>(os, bs, n, i, w). n - i)") auto

declare ps_loop.simps [simp del]

definition ps_run :: "'w os \<Rightarrow> 'w \<Rightarrow> 'w run" where
  "ps_run os w =
     (case os_getprocs os 32 w of (w1, n, dat) \<Rightarrow>
        let bs = splice 0 (take (32 * 40) dat) (replicate (32 * 40) 0) in
        if n <s 0 then Returned (println os [] (print os (as_bytes ''ps: getprocs failed'') w1)) 1
        else ps_loop os bs (unat n) 0 (println os (as_bytes ''PID   PPID  STATE    NAME'') w1))"

text \<open>Decimal numbers of 32 bits with checked arithmetic.\<close>

fun parse_digits :: "u32 \<Rightarrow> bytes \<Rightarrow> u32 option" where
  "parse_digits r [] = Some r"
| "parse_digits r (b # s) =
     (if b < 48 \<or> 57 < b then None
      else if 2 ^ 32 \<le> unat r * 10 then None
      else if 2 ^ 32 \<le> unat (r * 10) + unat (b - 48) then None
      else parse_digits (r * 10 + ucast (b - 48)) s)"

definition parse_u32 :: "bytes \<Rightarrow> u32 option" where
  "parse_u32 s = (case parse_digits 0 s of None \<Rightarrow> None | Some v \<Rightarrow> if s = [] then None else Some v)"

definition parse_signum :: "bytes \<Rightarrow> u8 option" where
  "parse_signum s = map_option ucast (parse_u32 s)"

definition kill_run :: "'w os \<Rightarrow> bytes \<Rightarrow> 'w \<Rightarrow> 'w run" where
  "kill_run os arg w =
     (let (signum, pid_str) =
            (if 1 < length arg \<and> arg ! 0 = 45
             then (case parse_signum (drop 1 arg) of Some s \<Rightarrow> s | None \<Rightarrow> 9, drop 1 arg) else (9, arg))
      in case (case parse_u32 pid_str of Some p \<Rightarrow> Some p | None \<Rightarrow> parse_u32 arg) of
           None \<Rightarrow> Returned (println os (as_bytes ''kill: invalid PID'') w) 1
         | Some p \<Rightarrow>
             if p = 0 then Returned (println os (as_bytes ''kill: cannot kill PID 0 (kernel)'') w) 1
             else case os_kill os p signum w of (w1, r) \<Rightarrow>
               if r <s 0 then Returned (println os [] (print os (if utf8_valid arg then arg else as_bytes ''?'')
                                 (print os (as_bytes ''kill: failed to signal pid '') w1))) 1
               else Returned (println os (as_bytes ''kill: signal sent'') w1) 0)"

section \<open>The shell\<close>

text \<open>Starting a program: the child replaces itself, the parent waits.\<close>

definition run_external :: "'w os \<Rightarrow> bytes \<Rightarrow> 'w \<Rightarrow> 'w run" where
  "run_external os path w =
     (case os_fork os w of (w1, r) \<Rightarrow>
        if r = 0 then
          (case u_exec os path 0 w1 of (w2, e) \<Rightarrow>
             if e <s 0 then Exited (println os [] (print_i64 os e (print os (as_bytes ''exec failed: '') w2))) 127
             else Returned w2 0)
        else if 0 <s r then (case os_waitpid os r w1 of (w2, _, _) \<Rightarrow> Returned w2 0)
        else Returned (println os [] (print_i64 os r (print os (as_bytes ''fork failed: '') w1))) 0)"

text \<open>Reading a line with backspace, at most 255 characters; \<open>None\<close> in place of the line at the end
  of the input.\<close>

partial_function (option) read_line :: "'w os \<Rightarrow> bytes \<Rightarrow> 'w \<Rightarrow> ('w \<times> bytes option) option" where
  "read_line os line w =
     (case os_read os 0 1 w of (w1, r, dat) \<Rightarrow>
        let c = splice 0 (take 1 dat) [0] ! 0 in
        if r \<le>s 0 then Some (println os [] w1, None)
        else if c = 10 \<or> c = 13 then Some (println os [] w1, Some line)
        else if c = 8 \<or> c = 0x7f then
          (if line \<noteq> [] then read_line os (butlast line) (print os [8, 32, 8] w1) else read_line os line w1)
        else if length line < 255 then
          read_line os (line @ [c]) (print os (if utf8_valid [c] then [c] else as_bytes ''.'') w1)
        else read_line os line w1)"

text \<open>At most 16 tokens, separated by spaces.\<close>

lemma token_shorter: "line \<noteq> [] \<Longrightarrow> length (dropWhile (\<lambda>c. c \<noteq> k) (dropWhile (\<lambda>c. c = k) line)) < length line"
  by (induction line) (auto simp: less_Suc_eq_le intro: le_trans [OF length_dropWhile_le length_dropWhile_le] length_dropWhile_le)

function tokens :: "nat \<Rightarrow> bytes \<Rightarrow> bytes list" where
  "tokens k line =
     (if line = [] \<or> k = 0 then []
      else let rest = dropWhile (\<lambda>c. c = 32) line; t = takeWhile (\<lambda>c. c \<noteq> 32) rest; after = dropWhile (\<lambda>c. c \<noteq> 32) rest
           in if t \<noteq> [] then t # tokens (k - 1) after else tokens k after)"
  by pat_completeness auto
termination
  by (relation "measure (length \<circ> snd)") (auto simp: token_shorter)

declare tokens.simps [simp del]

datatype 'w step = Continue 'w | Stop "'w run"

definition continue :: "'w run \<Rightarrow> 'w step" where
  "continue r = (case r of Returned w _ \<Rightarrow> Continue w | Exited w e \<Rightarrow> Stop (Exited w e))"

definition unknown_command :: "'w os \<Rightarrow> bytes \<Rightarrow> 'w \<Rightarrow> 'w" where
  "unknown_command os cmd w = print os (if utf8_valid cmd then cmd else as_bytes ''?'') (print os (as_bytes ''sysutils: unknown command: '') w)"

definition shell_command :: "'w os \<Rightarrow> bytes list \<Rightarrow> 'w \<Rightarrow> 'w step option" where
  "shell_command os toks w =
     (let cmd = toks ! 0 in
      if cmd = as_bytes ''exit'' \<or> cmd = as_bytes ''quit'' then Some (Stop (Returned (println os (as_bytes ''bye'') w) 0))
      else if cmd = as_bytes ''help'' then
        Some (Continue (println os (as_bytes ''commands: ls [path], ps, cat <path>, kill <pid>, hello, forktest, help, exit'') w))
      else if cmd = as_bytes ''ls'' then
        Some (continue (ls_run os (if 1 < length toks then toks ! 1 else []) w))
      else if cmd = as_bytes ''cat'' then
        (if length toks < 2 then Some (Continue (println os (as_bytes ''cat: missing file path'') w))
         else map_option continue (cat_run os (toks ! 1) w))
      else if cmd = as_bytes ''ps'' then Some (continue (ps_run os w))
      else if cmd = as_bytes ''kill'' then
        (if length toks < 2 then Some (Continue (println os (as_bytes ''kill: missing PID'') w))
         else Some (continue (kill_run os (toks ! 1) w)))
      else if cmd = as_bytes ''hello'' then Some (continue (run_external os (as_bytes ''/bin/hello'') w))
      else if cmd = as_bytes ''forktest'' then Some (continue (run_external os (as_bytes ''/bin/forktest'') w))
      else Some (Continue (println os (as_bytes '' (try: help)'') (unknown_command os cmd w))))"

partial_function (option) shell :: "'w os \<Rightarrow> 'w \<Rightarrow> 'w run option" where
  "shell os w =
     Option.bind (read_line os [] (print os (as_bytes ''$ '') w)) (\<lambda>(w1, l).
       case l of
         None \<Rightarrow> Some (Returned w1 0)
       | Some line \<Rightarrow>
           let toks = tokens 16 line in
           if toks = [] then shell os w1
           else Option.bind (shell_command os toks w1) (\<lambda>st.
             case st of Stop r \<Rightarrow> Some r | Continue w2 \<Rightarrow> shell os w2))"

section \<open>The entry point\<close>

text \<open>The arguments at \<open>argv\<close>: up to 16 strings of at most 256 bytes, ended by a null pointer.\<close>

definition arg_len :: "(u64 \<Rightarrow> u8) \<Rightarrow> u64 \<Rightarrow> nat" where
  "arg_len m p = (case find (\<lambda>l. m (p + of_nat l) = 0 \<or> l = 256) [0..<257] of Some l \<Rightarrow> l | None \<Rightarrow> 256)"

fun collect_argv :: "(u64 \<Rightarrow> u8) \<Rightarrow> u64 \<Rightarrow> nat \<Rightarrow> nat \<Rightarrow> bytes list" where
  "collect_argv m argv i 0 = []"
| "collect_argv m argv i (Suc k) =
     (let p = from_le (peek (argv + of_nat (8 * i)) 8 m) in
      if p = 0 then [] else peek p (arg_len m p) m # collect_argv m argv (i + 1) k)"

definition aero_main :: "'w os \<Rightarrow> (u64 \<Rightarrow> u8) \<Rightarrow> u64 \<Rightarrow> u64 \<Rightarrow> 'w \<Rightarrow> 'w run option" where
  "aero_main os m argc argv w =
     (let args = (if 0 < argc \<and> argv \<noteq> 0 then collect_argv m argv 0 (min (unat argc) 16) else []) in
      if length args < 2 then shell os w
      else let cmd = args ! 1 in
        if cmd = as_bytes ''ls'' then Some (ls_run os (if 2 < length args then args ! 2 else as_bytes ''/'') w)
        else if cmd = as_bytes ''cat'' then
          (if length args < 3 then Some (Returned (println os (as_bytes ''cat: missing file path'') w) 1) else cat_run os (args ! 2) w)
        else if cmd = as_bytes ''ps'' then Some (ps_run os w)
        else if cmd = as_bytes ''kill'' then
          (if length args < 3 then Some (Returned (println os (as_bytes ''kill: missing PID'') w) 1) else Some (kill_run os (args ! 2) w))
        else Some (Returned (println os [] (unknown_command os cmd w)) 1))"

section \<open>Numbers\<close>

lemma digit_char:
  assumes "v < 10"
  shows "unat (48 + of_nat v :: u8) = 48 + v" "48 + (of_nat v :: u8) - 48 = of_nat v"
proof -
  have "unat (of_nat (48 + v) :: u8) = (48 + v) mod 256" by (simp only: unat_of_nat) simp
  then show "unat (48 + of_nat v :: u8) = 48 + v" using assms by simp
qed simp

lemma parse_digits_append:
  "parse_digits r (s @ t) = (case parse_digits r s of None \<Rightarrow> None | Some v \<Rightarrow> parse_digits v t)"
  by (induction r s rule: parse_digits.induct) auto

lemma unat_div_10: "v \<noteq> 0 \<Longrightarrow> unat ((v :: u64) div 10) < unat v"
  by (simp add: unat_div unat_gt_0)

lemma digit_bytes_append: "digit_bytes v acc = digit_bytes v [] @ acc"
proof (induction "unat v" arbitrary: v acc rule: less_induct)
  case less
  show ?case
  proof (cases "v = 0")
    case False
    have IH: "digit_bytes (v div 10) acc' = digit_bytes (v div 10) [] @ acc'" for acc' using less [OF unat_div_10 [OF False]] .
    show ?thesis using False IH [of "(48 + ucast (v mod 10)) # acc"] IH [of "[48 + ucast (v mod 10)]"]
      by (simp add: digit_bytes.simps [of v])
  qed (simp add: digit_bytes.simps)
qed

lemma ucast_as_nat: "(ucast (w :: 'a::len word) :: 'b::len word) = of_nat (unat w)"
  by (rule of_nat_unat [symmetric])

lemma digit_bytes_snoc:
  assumes "v \<noteq> 0"
  shows "digit_bytes v [] = digit_bytes (v div 10) [] @ [48 + of_nat (unat v mod 10)]"
proof -
  have "(ucast (v mod 10) :: u8) = of_nat (unat v mod 10)" unfolding ucast_as_nat unat_mod by simp
  then show ?thesis
    using digit_bytes_append [of "v div 10" "[48 + ucast (v mod 10)]"] digit_bytes.simps [of v "[]"] assms by simp
qed

lemma parse_digit:
  assumes "d < 10"
  shows "parse_digits r [48 + of_nat d] = (if unat r * 10 + d < 2 ^ 32 then Some (of_nat (unat r * 10 + d)) else None)"
proof -
  have b: "\<not> (48 + of_nat d < (48 :: u8) \<or> 57 < 48 + (of_nat d :: u8))"
    using digit_char(1) [OF assms] assms by (simp add: word_less_nat_alt)
  have d: "unat (48 + (of_nat d :: u8) - 48) = d" unfolding digit_char(2) [OF assms] using assms by (simp add: unat_of_nat)
  show ?thesis
  proof (cases "2 ^ 32 \<le> unat r * 10")
    case False
    then have m: "unat (r * 10) = unat r * 10" by (subst unat_mult_lem [THEN iffD1]) simp_all
    have "r * 10 + ucast (48 + (of_nat d :: u8) - 48) = of_nat (unat r * 10 + d)"
      unfolding ucast_as_nat d by simp
    then show ?thesis using False b d m by simp
  qed (use b in simp)
qed

lemma parse_digit_bytes: "parse_digits 0 (digit_bytes v []) = (if unat v < 2 ^ 32 then Some (of_nat (unat v)) else None)"
proof (induction "unat v" arbitrary: v rule: less_induct)
  case less
  show ?case
  proof (cases "v = 0")
    case False
    have IH: "parse_digits 0 (digit_bytes (v div 10) []) = (if unat v div 10 < 2 ^ 32 then Some (of_nat (unat v div 10)) else None)"
      using less [OF unat_div_10 [OF False]] by (simp add: unat_div)
    show ?thesis
    proof (cases "unat v div 10 < 2 ^ 32")
      case True
      then have "unat (of_nat (unat v div 10) :: u32) = unat v div 10" by (simp only: unat_of_nat) simp
      then show ?thesis using IH True parse_digit [of "unat v mod 10" "of_nat (unat v div 10)"]
        by (simp add: digit_bytes_snoc [OF False] parse_digits_append)
    next
      case big: False
      then have "\<not> unat v < 2 ^ 32" by linarith
      then show ?thesis using IH big by (simp add: digit_bytes_snoc [OF False] parse_digits_append)
    qed
  qed (simp add: digit_bytes.simps)
qed

lemma length_digit_bytes: "unat v < 10 ^ k \<Longrightarrow> length (digit_bytes v []) \<le> k"
proof (induction k arbitrary: v)
  case 0
  then have "v = 0" by (simp add: unat_eq_0)
  then show ?case by (simp add: digit_bytes.simps)
next
  case (Suc k)
  show ?case
  proof (cases "v = 0")
    case False
    have "unat (v div 10) < 10 ^ k" using Suc.prems by (simp add: unat_div less_mult_imp_div_less)
    then show ?thesis using Suc.IH by (simp add: digit_bytes_snoc [OF False])
  qed (simp add: digit_bytes.simps)
qed

text \<open>
  Numbers printed by \<open>print_u64\<close> fit its buffer of 20 digits, and \<open>parse_u32\<close> reads such a number
  back exactly when it has at most 32 bits; it rejects every larger one.\<close>

theorem decimal_roundtrip:
  "length (decimal v) \<le> 20 \<and> parse_u32 (decimal v) = (if unat v < 2 ^ 32 then Some (of_nat (unat v)) else None)"
proof
  have "unat v < 10 ^ 20" using u64_bound [of v] by (rule less_trans) simp
  then show "length (decimal v) \<le> 20" using length_digit_bytes [of v 20] by (simp add: decimal_def)
  show "parse_u32 (decimal v) = (if unat v < 2 ^ 32 then Some (of_nat (unat v)) else None)"
  proof (cases "v = 0")
    case False
    then have "digit_bytes v [] \<noteq> []" by (simp add: digit_bytes_snoc)
    then show ?thesis using False parse_digit_bytes [of v] by (simp add: parse_u32_def decimal_def)
  qed (simp add: parse_u32_def decimal_def)
qed

section \<open>Tokens\<close>

text \<open>The pieces of a line between separators, and its words: the pieces that are not empty.\<close>

fun split_on :: "u8 \<Rightarrow> bytes \<Rightarrow> bytes list" where
  "split_on k [] = [[]]"
| "split_on k (c # s) = (if c = k then [] # split_on k s else (case split_on k s of [] \<Rightarrow> [[c]] | t # ts \<Rightarrow> (c # t) # ts))"

definition words :: "bytes \<Rightarrow> bytes list" where
  "words line = filter (\<lambda>t. t \<noteq> []) (split_on 32 line)"

lemma split_on_eq:
  "split_on k l = takeWhile (\<lambda>c. c \<noteq> k) l # (case dropWhile (\<lambda>c. c \<noteq> k) l of [] \<Rightarrow> [] | _ # r \<Rightarrow> split_on k r)"
  by (induction l) (auto split: list.split)

lemma words_eq:
  "words l = (if takeWhile (\<lambda>c. c \<noteq> 32) l = [] then [] else [takeWhile (\<lambda>c. c \<noteq> 32) l]) @ words (dropWhile (\<lambda>c. c \<noteq> 32) l)"
proof -
  define d where "d = dropWhile (\<lambda>c. c \<noteq> 32) l"
  have "d = [] \<or> hd d = 32" using hd_dropWhile [of "\<lambda>c. c \<noteq> 32" l] by (auto simp: d_def)
  then have "words d = filter (\<lambda>t. t \<noteq> []) (case d of [] \<Rightarrow> [] | _ # r \<Rightarrow> split_on 32 r)"
    by (cases d) (auto simp: words_def)
  then show ?thesis unfolding words_def [of l] split_on_eq [of 32 l] d_def [symmetric] by simp
qed

lemma words_skip: "words (dropWhile (\<lambda>c. c = 32) l) = words l"
  by (induction l) (auto simp: words_def)

text \<open>
  The tokens of a command line are its first sixteen words: the maximal sequences of characters
  other than the space, in order. The tokeniser ends on every line.\<close>

theorem tokens_words: "tokens k line = take k (words line)"
proof (induction k line rule: tokens.induct)
  case (1 k line)
  show ?case
  proof (cases "line = [] \<or> k = 0")
    case True
    then show ?thesis by (auto simp: tokens.simps words_def)
  next
    case False
    let ?s = "dropWhile (\<lambda>c. c = 32) line"
    have w: "words line = (if takeWhile (\<lambda>c. c \<noteq> 32) ?s = [] then [] else [takeWhile (\<lambda>c. c \<noteq> 32) ?s]) @ words (dropWhile (\<lambda>c. c \<noteq> 32) ?s)"
      using words_eq [of ?s] by (simp add: words_skip)
    obtain n where k: "k = Suc n" using False not0_implies_Suc by blast
    show ?thesis
      using 1 False w by (cases "takeWhile (\<lambda>c. c \<noteq> 32) ?s = []") (simp_all add: k tokens.simps [of "Suc n" line] Let_def)
  qed
qed

section \<open>The kill command\<close>

text \<open>
  An option of \<^verbatim>\<open>kill\<close> is taken for the process as well: \<^verbatim>\<open>kill -n\<close> sends the signal \<open>n\<close> (modulo
  256) to the process \<open>n\<close>. The shell passes only this one argument, so the process that the user
  names after the option is never signalled.\<close>

theorem kill_option_is_pid:
  assumes "parse_u32 s = Some p" "p \<noteq> 0" "toks ! 0 = as_bytes ''kill''" "toks ! 1 = 45 # s" "2 \<le> length toks"
    and "os_kill os p (ucast p) w = (w1, r)" "\<not> r <s 0"
  shows "shell_command os toks w = Some (Continue (println os (as_bytes ''kill: signal sent'') w1))"
proof -
  have "s \<noteq> []" using assms(1) by (auto simp: parse_u32_def)
  then have "kill_run os (45 # s) w = Returned (println os (as_bytes ''kill: signal sent'') w1) 0"
    using assms(1,2,6,7) by (simp add: kill_run_def parse_signum_def)
  then show ?thesis using assms(3,4,5) by (simp add: shell_command_def continue_def as_bytes_def Let_def)
qed

text \<open>A system that records the signals.\<close>

definition demo_os :: "(u32 \<times> u8) list os" where
  "demo_os = \<lparr>os_write = \<lambda>fd b w. (w, 0), os_read = \<lambda>fd n w. (w, 0, []), os_open = \<lambda>p f w. (w, - 2), os_close = \<lambda>fd w. (w, 0),
     os_getdents = \<lambda>p n w. (w, - 2, []), os_getprocs = \<lambda>n w. (w, 0, []), os_kill = \<lambda>p s w. (w @ [(p, s)], 0),
     os_fork = \<lambda>w. (w, - 12), os_exec = \<lambda>p a w. (w, - 2), os_waitpid = \<lambda>p w. (w, - 10, 0)\<rparr>"

theorem kill_option_is_pid_witness:
  "shell_command demo_os [as_bytes ''kill'', as_bytes ''-9'', as_bytes ''5''] [] = Some (Continue [(9, 9)])"
proof -
  have p: "parse_u32 (as_bytes ''9'') = Some 9" by (simp add: parse_u32_def as_bytes_def)
  have "shell_command demo_os [as_bytes ''kill'', as_bytes ''-9'', as_bytes ''5''] [] =
      Some (Continue (println demo_os (as_bytes ''kill: signal sent'') [(9, 9)]))"
    by (rule kill_option_is_pid [OF p, where r = 0]) (simp_all add: demo_os_def as_bytes_def)
  then show ?thesis by (simp add: println_def u_write_def demo_os_def as_bytes_def)
qed

section \<open>Listing a directory\<close>

text \<open>An entry of a directory as the kernel lays it out.\<close>

definition dirent_at :: "(u64 \<Rightarrow> u8) \<Rightarrow> u64 \<Rightarrow> DirEntry \<Rightarrow> bool" where
  "dirent_at m a e \<longleftrightarrow> m a = type_byte (de_type e) \<and>
     peek (a + 1) (length (take 63 (de_name e)) + 1) m = take 63 (de_name e) @ [0]"

lemma put_dirent_entry:
  assumes "unat a + 72 \<le> 2 ^ 64"
  shows "dirent_at (put_dirent a e m) a e"
proof -
  let ?nm = "take 63 (de_name e)"
  have u: "unat (a + 1) = unat a + 1" "unat (a + 65) = unat a + 65"
    using unat_add_offset [of a 1] unat_add_offset [of a 65] assms by simp_all
  have "peek a 1 (put_dirent a e m) = peek a 1 (poke a [type_byte (de_type e)] m)"
    unfolding put_dirent_def Let_def using assms u by (simp add: peek_poke_other)
  also have "\<dots> = [type_byte (de_type e)]" using peek_poke_same [of "[type_byte (de_type e)]" a m] by simp
  finally have "put_dirent a e m a = type_byte (de_type e)" by (simp add: peek_def)
  moreover have "peek (a + 1) (length (?nm @ [0])) (put_dirent a e m) = ?nm @ [0]"
  proof -
    have "peek (a + 1) (length (?nm @ [0])) (put_dirent a e m) =
        peek (a + 1) (length (?nm @ [0])) (poke (a + 1) (?nm @ [0]) (poke a [type_byte (de_type e)] m))"
      unfolding put_dirent_def Let_def using assms u by (intro peek_poke_other) auto
    also have "\<dots> = ?nm @ [0]" by (rule peek_poke_same) simp
    finally show ?thesis .
  qed
  ultimately show ?thesis by (simp add: dirent_at_def)
qed

lemma put_dirent_other:
  assumes "unat a + 72 \<le> 2 ^ 64" "unat b + k \<le> unat a"
  shows "peek b k (put_dirent a e m) = peek b k m"
proof -
  have "unat (a + 1) = unat a + 1" "unat (a + 65) = unat a + 65"
    using unat_add_offset [of a 1] unat_add_offset [of a 65] assms by simp_all
  then show ?thesis unfolding put_dirent_def Let_def using assms by (simp add: peek_poke_other)
qed

lemma peek_eq_iff: "peek a n m = peek a n m' \<longleftrightarrow> (\<forall>i < n. m (a + of_nat i) = m' (a + of_nat i))"
  by (auto simp: peek_def)

lemma dirent_at_cong:
  assumes "\<And>i. i < 72 \<Longrightarrow> m (a + of_nat i) = m' (a + of_nat i)"
  shows "dirent_at m a e = dirent_at m' a e"
proof -
  have "m a = m' a" using assms [of 0] by simp
  moreover have "peek (a + 1) (length (take 63 (de_name e)) + 1) m = peek (a + 1) (length (take 63 (de_name e)) + 1) m'"
    unfolding peek_eq_iff
  proof (intro allI impI)
    fix i assume "i < length (take 63 (de_name e)) + 1"
    then have "i + 1 < 72" by simp
    moreover have "a + 1 + of_nat i = a + of_nat (i + 1)" by simp
    ultimately show "m (a + 1 + of_nat i) = m' (a + 1 + of_nat i)" using assms [of "i + 1"] by (simp only:)
  qed
  ultimately show ?thesis by (simp add: dirent_at_def)
qed

lemma put_dirents_spec:
  assumes "put_dirents dst count written es m = (m', n)" "unat dst + count \<le> 2 ^ 64"
  shows "\<exists>k. n = written + 72 * k \<and> k = min (length es) ((count - written) div 72) \<and>
    (\<forall>j < k. dirent_at m' (dst + of_nat (written + 72 * j)) (es ! j)) \<and> peek dst written m' = peek dst written m"
  using assms(1)
proof (induction es arbitrary: written m)
  case Nil
  then show ?case by simp
next
  case (Cons e es)
  show ?case
  proof (cases "count < written + 72")
    case True
    then show ?thesis using Cons.prems by (auto intro!: exI [of _ 0])
  next
    case False
    let ?a = "dst + of_nat written" and ?m = "put_dirent (dst + of_nat written) e m"
    have a: "unat ?a = unat dst + written" using False assms(2) by (intro unat_add_offset) simp
    have b: "unat ?a + 72 \<le> 2 ^ 64" using a False assms(2) by simp
    have "put_dirents dst count (written + 72) es ?m = (m', n)" using Cons.prems False by simp
    from Cons.IH [OF this] obtain k where k: "n = written + 72 + 72 * k" "k = min (length es) ((count - (written + 72)) div 72)"
      "\<forall>j < k. dirent_at m' (dst + of_nat (written + 72 + 72 * j)) (es ! j)" "peek dst (written + 72) m' = peek dst (written + 72) ?m" by blast
    have "(count - written) div 72 = Suc ((count - (written + 72)) div 72)" using False by (simp add: le_div_geq)
    then have n: "n = written + 72 * Suc k" "Suc k = min (length (e # es)) ((count - written) div 72)" using k(1,2) by simp_all
    have f: "m' (dst + of_nat i) = ?m (dst + of_nat i)" if "i < written + 72" for i using k(4) that unfolding peek_eq_iff by blast
    have "dirent_at m' ?a e = dirent_at ?m ?a e"
      using f [of "written + i" for i] by (intro dirent_at_cong) (simp add: add.assoc)
    then have "dirent_at m' ?a e" using put_dirent_entry [OF b] by simp
    then have "\<forall>j < Suc k. dirent_at m' (dst + of_nat (written + 72 * j)) ((e # es) ! j)"
      using k(3) by (auto simp: less_Suc_eq_0_disj add.assoc)
    moreover have "peek dst written m' = peek dst written m"
      using f put_dirent_other [OF b, of dst written e m] a by (simp add: peek_eq_iff)
    ultimately show ?thesis using n by blast
  qed
qed

text \<open>What \<^verbatim>\<open>ls\<close> prints for an entry.\<close>

definition show_entry :: "'w os \<Rightarrow> DirEntry \<Rightarrow> 'w \<Rightarrow> 'w" where
  "show_entry os e w = println os [] (print os (take 63 (de_name e)) (print os (ls_mark (type_byte (de_type e))) w))"

lemma takeWhile_c_string: "take (Suc (length nm)) xs = nm @ [0] \<Longrightarrow> 0 \<notin> set nm \<Longrightarrow> takeWhile (\<lambda>c. c \<noteq> 0) xs = (nm :: bytes)"
proof -
  assume t: "take (Suc (length nm)) xs = nm @ [0]" and z: "0 \<notin> set nm"
  have "xs = nm @ 0 # drop (Suc (length nm)) xs" using append_take_drop_id [of "Suc (length nm)" xs] t by simp
  then obtain r where "xs = nm @ 0 # r" by blast
  moreover have "\<And>c. c \<in> set nm \<Longrightarrow> c \<noteq> 0" using z by auto
  ultimately show ?thesis by (simp add: takeWhile_append2)
qed

lemma ls_loop_entries:
  assumes "length bs = 4096" "k \<le> length es" "72 * k \<le> 4096"
    and "\<And>j. j < k \<Longrightarrow> bs ! (72 * j) = type_byte (de_type (es ! j)) \<and> c_name (slice (72 * j + 1) (72 * j + 65) bs) = take 63 (de_name (es ! j))"
  shows "i \<le> k \<Longrightarrow> ls_loop os bs (72 * k) (72 * i) w = Returned (fold (show_entry os) (drop i (take k es)) w) 0"
proof (induction "k - i" arbitrary: i w)
  case 0
  then show ?case by (simp add: ls_loop.simps)
next
  case (Suc d)
  then have i: "i < k" by simp
  have "drop i (take k es) = es ! i # drop (Suc i) (take k es)" using i assms(2) by (simp add: Cons_nth_drop_Suc [symmetric])
  moreover have "ls_loop os bs (72 * k) (72 * i) w = ls_loop os bs (72 * k) (72 * Suc i) (show_entry os (es ! i) w)"
    using assms(1,3) assms(4) [OF i] i by (subst ls_loop.simps) (simp add: show_entry_def add.commute)
  moreover have "d = k - Suc i" "Suc i \<le> k" using Suc.hyps(2) i by simp_all
  ultimately show ?case using Suc.hyps(1) [of "Suc i" "show_entry os (es ! i) w"] by simp
qed

text \<open>
  C38. \<^verbatim>\<open>ls\<close> prints the directory. When the call fills the buffer of the program as \<open>sys_getdents\<close> does
  for the entries \<open>es\<close>, \<open>ls\<close> prints one line for each of the first 56 entries (what fits the
  buffer of 4096 bytes), with the letter of its type and its name, cut at 63 bytes, and returns 0; for
  an empty directory it says so.\<close>

theorem ls_prints_directory:
  assumes "put_dirents dst 4096 0 es m = (m', n)" "unat dst + 4096 \<le> 2 ^ 64" "\<forall>e \<in> set es. 0 \<notin> set (de_name e)"
    and "length path < 128" "os_getdents os (path @ [0]) 4096 w = (w1, of_nat n, peek dst n m')"
  shows "ls_run os path w = Returned
    (if es = [] then println os (as_bytes (CHR 0x27 # '' is empty'')) (print os path (print os (as_bytes (''ls: '' @ [CHR 0x27])) w1))
     else fold (show_entry os) (take 56 es) w1) 0"
proof -
  obtain k where k: "n = 72 * k" "k = min (length es) 56" "\<And>j. j < k \<Longrightarrow> dirent_at m' (dst + of_nat (72 * j)) (es ! j)"
    using put_dirents_spec [OF assms(1,2)] by auto
  let ?bs = "splice 0 (take 4096 (peek dst n m')) (replicate 4096 0)"
  have n: "n \<le> 4096" "72 * k \<le> 4096" "k \<le> length es" using k(1,2) by simp_all
  have u: "unat (of_nat n :: i64) = n" using n by (intro unat_offset) simp
  have "sint (of_nat n :: i64) = int n" using n by (simp add: signed_of_nat signed_take_bit_int_eq_self)
  then have s: "\<not> (of_nat n :: i64) <s 0" by (simp add: word_sless_alt)
  have z: "(of_nat n :: i64) = 0 \<longleftrightarrow> es = []" using u k(1,2) by (metis length_0_conv min_0L mult_is_0 of_nat_0 unat_0 min_def zero_neq_numeral)
  have nth: "?bs ! i = m' (dst + of_nat i)" if "i < n" for i using that n by (simp add: splice_def nth_append)
  have ent: "?bs ! (72 * j) = type_byte (de_type (es ! j)) \<and> c_name (slice (72 * j + 1) (72 * j + 65) ?bs) = take 63 (de_name (es ! j))"
    if j: "j < k" for j
  proof
    let ?a = "dst + of_nat (72 * j)" and ?nm = "take 63 (de_name (es ! j))"
    have e: "dirent_at m' ?a (es ! j)" using k(3) [OF j] .
    have jn: "72 * j + 72 \<le> n" using j k(1) by simp
    show "?bs ! (72 * j) = type_byte (de_type (es ! j))" using e nth [of "72 * j"] jn by (simp add: dirent_at_def)
    have "take (Suc (length ?nm)) (slice (72 * j + 1) (72 * j + 65) ?bs) = peek (?a + 1) (Suc (length ?nm)) m'"
    proof (rule nth_equalityI)
      show "length (take (Suc (length ?nm)) (slice (72 * j + 1) (72 * j + 65) ?bs)) = length (peek (?a + 1) (Suc (length ?nm)) m')"
        using n jn by (simp add: splice_def)
      fix i assume "i < length (take (Suc (length ?nm)) (slice (72 * j + 1) (72 * j + 65) ?bs))"
      then have i: "i < Suc (length ?nm)" "i < 64" by auto
      have "?a + 1 + of_nat i = dst + of_nat (72 * j + 1 + i)" by simp
      then show "take (Suc (length ?nm)) (slice (72 * j + 1) (72 * j + 65) ?bs) ! i = peek (?a + 1) (Suc (length ?nm)) m' ! i"
        using i n jn nth [of "72 * j + 1 + i"] by (simp add: nth_slice splice_def ac_simps)
    qed
    also have "\<dots> = ?nm @ [0]" using e by (simp add: dirent_at_def)
    finally show "c_name (slice (72 * j + 1) (72 * j + 65) ?bs) = ?nm"
      unfolding c_name_def using assms(3) j n(3) by (intro takeWhile_c_string) (auto dest: in_set_takeD)
  qed
  have "length ?bs = 4096" using n by (simp add: splice_def)
  from ls_loop_entries [OF this n(3,2) ent, of 0 os w1] have "ls_loop os ?bs (72 * k) 0 w1 = Returned (fold (show_entry os) (take k es) w1) 0"
    by simp
  moreover have "take k es = take 56 es" using k(2) by (simp add: min_def)
  ultimately show ?thesis using assms(4,5) s z u k(1) by (auto simp: ls_run_def u_getdents_def path_cstr_def Let_def)
qed

text \<open>A system whose state is the output; its one directory holds one file.\<close>

definition demo_ls :: "bytes os" where
  "demo_ls = \<lparr>os_write = \<lambda>fd b w. (w @ b, of_nat (length b)), os_read = \<lambda>fd n w. (w, 0, []), os_open = \<lambda>p f w. (w, - 2),
     os_close = \<lambda>fd w. (w, 0), os_getdents = \<lambda>p n w. (w, of_nat 72,
       peek 0x1000 72 (fst (put_dirents 0x1000 4096 0 [\<lparr>de_name = as_bytes ''a'', de_inode = 1, de_type = Regular\<rparr>] (\<lambda>_. 0)))),
     os_getprocs = \<lambda>n w. (w, 0, []), os_kill = \<lambda>p s w. (w, 0), os_fork = \<lambda>w. (w, - 12), os_exec = \<lambda>p a w. (w, - 2),
     os_waitpid = \<lambda>p w. (w, - 10, 0)\<rparr>"

theorem ls_prints_directory_witness: "ls_run demo_ls (as_bytes ''/'') [] = Returned (as_bytes ''f  a'' @ [10]) 0"
proof -
  let ?es = "[\<lparr>de_name = as_bytes ''a'', de_inode = 1, de_type = Regular\<rparr>]"
  let ?r = "put_dirents 0x1000 4096 0 ?es (\<lambda>_. 0)"
  have "?r = (fst ?r, 72)" by simp
  from ls_prints_directory [OF this, of "as_bytes ''/''" demo_ls "[]" "[]"]
  have "ls_run demo_ls (as_bytes ''/'') [] = Returned (fold (show_entry demo_ls) (take 56 ?es) []) 0"
    by (simp add: demo_ls_def as_bytes_def)
  then show ?thesis by (simp add: show_entry_def println_def print_def u_write_def ls_mark_def demo_ls_def as_bytes_def)
qed

end
