(* ===== verification/Abi.thy ===== *)
theory Abi
  imports Sysutils Interrupts
begin

text \<open>
  The system call interface from the side of the programs: the wrappers of
  \<^verbatim>\<open>sysutils/src/syscalls.rs\<close> over \<^verbatim>\<open>int 0x80\<close>, with the kernel of theory \<open>Sys_Process\<close> behind the
  instruction, and the copies of the call numbers, error codes and structures in
  \<^verbatim>\<open>wm/src/syscalls.rs\<close>, \<^verbatim>\<open>flutter_adapter/src/syscalls.rs\<close> and \<^verbatim>\<open>flutter_shell/src/syscalls.rs\<close>. A program
  is its registers \<open>r\<close> at the instruction; its memory is the kernel's memory in its address space.
\<close>

section \<open>The instruction\<close>

text \<open>What comes back to the program: the value in \<^verbatim>\<open>rax\<close>, or the way the call did not return.\<close>

definition syscall3 :: "env \<Rightarrow> InterruptContext \<Rightarrow> u64 \<Rightarrow> u64 \<Rightarrow> u64 \<Rightarrow> u64 \<Rightarrow> kernel \<Rightarrow> kernel \<times> (outcome + i64)" where
  "syscall3 ev r n a b c k =
     (case user_int ev 0x80 (r\<lparr>i_rax := n, i_rdi := a, i_rsi := b, i_rdx := c\<rparr>) k of
        (k', Inl out) \<Rightarrow> (k', Inl out)
      | (k', Inr r') \<Rightarrow> (k', Inr (i_rax r')))"

definition syscall2 :: "env \<Rightarrow> InterruptContext \<Rightarrow> u64 \<Rightarrow> u64 \<Rightarrow> u64 \<Rightarrow> kernel \<Rightarrow> kernel \<times> (outcome + i64)" where
  "syscall2 ev r n a b k = syscall3 ev r n a b 0 k"

definition syscall1 :: "env \<Rightarrow> InterruptContext \<Rightarrow> u64 \<Rightarrow> u64 \<Rightarrow> kernel \<Rightarrow> kernel \<times> (outcome + i64)" where
  "syscall1 ev r n a k = syscall3 ev r n a 0 0 k"

definition syscall0 :: "env \<Rightarrow> InterruptContext \<Rightarrow> u64 \<Rightarrow> kernel \<Rightarrow> kernel \<times> (outcome + i64)" where
  "syscall0 ev r n k = syscall3 ev r n 0 0 0 k"

section \<open>Numbers\<close>

definition SYS_OPEN :: u64 where "SYS_OPEN = 1"
definition SYS_READ :: u64 where "SYS_READ = 2"
definition SYS_WRITE :: u64 where "SYS_WRITE = 3"
definition SYS_NANOSLEEP :: u64 where "SYS_NANOSLEEP = 5"
definition SYS_POLL_INPUT :: u64 where "SYS_POLL_INPUT = 9"
definition SYS_KILL :: u64 where "SYS_KILL = 10"
definition SYS_EXIT :: u64 where "SYS_EXIT = 11"
definition SYS_EXEC :: u64 where "SYS_EXEC = 12"
definition SYS_GETPID :: u64 where "SYS_GETPID = 13"
definition SYS_CLOSE :: u64 where "SYS_CLOSE = 14"
definition SYS_STAT :: u64 where "SYS_STAT = 17"
definition SYS_FORK :: u64 where "SYS_FORK = 20"
definition SYS_WAITPID :: u64 where "SYS_WAITPID = 21"
definition SYS_GETDENTS :: u64 where "SYS_GETDENTS = 23"
definition SYS_GETPROCS :: u64 where "SYS_GETPROCS = 24"

lemmas call_numbers = SYS_OPEN_def SYS_READ_def SYS_WRITE_def SYS_NANOSLEEP_def SYS_POLL_INPUT_def SYS_KILL_def
  SYS_EXIT_def SYS_EXEC_def SYS_GETPID_def SYS_CLOSE_def SYS_STAT_def SYS_FORK_def SYS_WAITPID_def SYS_GETDENTS_def
  SYS_GETPROCS_def

text \<open>The numbers and error codes that the other programs repeat.\<close>

definition wm_numbers :: "(SyscallNum \<times> u64) list" where
  "wm_numbers = [(Write, 3), (Mmap, 4), (Nanosleep, 5), (GetFramebufferInfo, 7), (FbCommit, 8), (PollInput, 9)]"

definition adapter_numbers :: "(SyscallNum \<times> u64) list" where
  "adapter_numbers = [(Open, 1), (Read, 2), (Write, 3), (Mmap, 4), (Nanosleep, 5), (ClockGettime, 6), (GetFramebufferInfo, 7)]"

definition wm_errnos :: "(Errno \<times> i64) list" where
  "wm_errnos = [(enosys, - 38), (ebadf, - 9), (einval, - 22), (enomem, - 12), (efault, - 14)]"

definition adapter_errnos :: "(Errno \<times> i64) list" where
  "adapter_errnos = [(enosys, - 38), (ebadf, - 9), (einval, - 22), (enomem, - 12), (efault, - 14)]"

definition sysutils_errnos :: "(Errno \<times> i64) list" where
  "sysutils_errnos = [(enosys, - 38), (einval, - 22), (ebadf, - 9), (enoent, - 2)]"

section \<open>Wrappers\<close>

text \<open>A slice is an address and a length. \<^verbatim>\<open>fd as u64\<close> extends the sign.\<close>

definition call_write :: "env \<Rightarrow> InterruptContext \<Rightarrow> i32 \<Rightarrow> u64 \<Rightarrow> u64 \<Rightarrow> kernel \<Rightarrow> kernel \<times> (outcome + i64)" where
  "call_write ev r fd buf_ptr buf_len k =
     (if buf_len = 0 then (k, Inr 0) else syscall3 ev r SYS_WRITE (scast fd) buf_ptr buf_len k)"

definition call_read :: "env \<Rightarrow> InterruptContext \<Rightarrow> i32 \<Rightarrow> u64 \<Rightarrow> u64 \<Rightarrow> kernel \<Rightarrow> kernel \<times> (outcome + i64)" where
  "call_read ev r fd buf_ptr buf_len k = syscall3 ev r SYS_READ (scast fd) buf_ptr buf_len k"

text \<open>The 128 bytes at \<open>scratch\<close> on the stack of the program, zero before the path is copied in.\<close>

definition with_path :: "u64 \<Rightarrow> bytes \<Rightarrow> (kernel \<Rightarrow> kernel \<times> (outcome + i64)) \<Rightarrow> kernel \<Rightarrow> kernel \<times> (outcome + i64)" where
  "with_path scratch path f k =
     (let k1 = set_mem (poke scratch (replicate 128 0) (memory_of k)) k in
      case path_cstr path of
        None \<Rightarrow> (k1, Inr (- 28))
      | Some p \<Rightarrow> f (set_mem (poke scratch p (memory_of k1)) k1))"

definition call_open :: "env \<Rightarrow> InterruptContext \<Rightarrow> u64 \<Rightarrow> bytes \<Rightarrow> u32 \<Rightarrow> kernel \<Rightarrow> kernel \<times> (outcome + i64)" where
  "call_open ev r scratch path flags = with_path scratch path (syscall3 ev r SYS_OPEN scratch (ucast flags) 0)"

definition call_close :: "env \<Rightarrow> InterruptContext \<Rightarrow> i32 \<Rightarrow> kernel \<Rightarrow> kernel \<times> (outcome + i64)" where
  "call_close ev r fd k = syscall1 ev r SYS_CLOSE (scast fd) k"

definition call_getdents :: "env \<Rightarrow> InterruptContext \<Rightarrow> u64 \<Rightarrow> bytes \<Rightarrow> u64 \<Rightarrow> u64 \<Rightarrow> kernel \<Rightarrow> kernel \<times> (outcome + i64)" where
  "call_getdents ev r scratch path dst count = with_path scratch path (syscall3 ev r SYS_GETDENTS scratch dst count)"

definition call_getprocs :: "env \<Rightarrow> InterruptContext \<Rightarrow> u64 \<Rightarrow> u64 \<Rightarrow> kernel \<Rightarrow> kernel \<times> (outcome + i64)" where
  "call_getprocs ev r dst count k = syscall3 ev r SYS_GETPROCS dst count 0 k"

definition call_stat :: "env \<Rightarrow> InterruptContext \<Rightarrow> u64 \<Rightarrow> bytes \<Rightarrow> u64 \<Rightarrow> kernel \<Rightarrow> kernel \<times> (outcome + i64)" where
  "call_stat ev r scratch path st = with_path scratch path (syscall3 ev r SYS_STAT scratch st 0)"

definition call_kill :: "env \<Rightarrow> InterruptContext \<Rightarrow> u32 \<Rightarrow> u8 \<Rightarrow> kernel \<Rightarrow> kernel \<times> (outcome + i64)" where
  "call_kill ev r k_pid signum k = syscall3 ev r SYS_KILL (ucast k_pid) (ucast signum) 0 k"

definition call_getpid :: "env \<Rightarrow> InterruptContext \<Rightarrow> kernel \<Rightarrow> kernel \<times> (outcome + i64)" where
  "call_getpid ev r k = syscall0 ev r SYS_GETPID k"

definition call_nanosleep :: "env \<Rightarrow> InterruptContext \<Rightarrow> u64 \<Rightarrow> kernel \<Rightarrow> kernel \<times> (outcome + i64)" where
  "call_nanosleep ev r ticks k = syscall1 ev r SYS_NANOSLEEP ticks k"

definition call_fork :: "env \<Rightarrow> InterruptContext \<Rightarrow> kernel \<Rightarrow> kernel \<times> (outcome + i64)" where
  "call_fork ev r k = syscall0 ev r SYS_FORK k"

definition call_exec :: "env \<Rightarrow> InterruptContext \<Rightarrow> u64 \<Rightarrow> bytes \<Rightarrow> u64 \<Rightarrow> kernel \<Rightarrow> kernel \<times> (outcome + i64)" where
  "call_exec ev r scratch path argv = with_path scratch path (syscall3 ev r SYS_EXEC scratch argv 0)"

definition call_waitpid :: "env \<Rightarrow> InterruptContext \<Rightarrow> i64 \<Rightarrow> u64 \<Rightarrow> kernel \<Rightarrow> kernel \<times> (outcome + i64)" where
  "call_waitpid ev r child status k = syscall3 ev r SYS_WAITPID child status 0 k"

text \<open>\<^verbatim>\<open>exit\<close>: if the call came back, \<^verbatim>\<open>hlt\<close> in user mode would be a general protection fault.\<close>

definition call_exit :: "env \<Rightarrow> InterruptContext \<Rightarrow> i32 \<Rightarrow> kernel \<Rightarrow> kernel \<times> outcome" where
  "call_exit ev r status k =
     (case syscall1 ev r SYS_EXIT (scast status) k of
        (k', Inl out) \<Rightarrow> (k', out)
      | (k', Inr _) \<Rightarrow> raise_exception 13 True k')"

section \<open>Structures in memory\<close>

text \<open>Offsets and size of a \<^verbatim>\<open>repr(C)\<close> structure with fields of the given sizes, each aligned to its
  own size; and of a packed one.\<close>

definition round_up :: "nat \<Rightarrow> nat \<Rightarrow> nat" where
  "round_up a n = (n + a - 1) div a * a"

fun repr_c_offsets :: "nat list \<Rightarrow> nat \<Rightarrow> nat list" where
  "repr_c_offsets [] n = []"
| "repr_c_offsets (s # ss) n = (let o1 = round_up s n in o1 # repr_c_offsets ss (o1 + s))"

definition repr_c_size :: "nat list \<Rightarrow> nat" where
  "repr_c_size ss = (if ss = [] then 0 else round_up (Max (set ss)) (last (repr_c_offsets ss 0) + last ss))"

text \<open>\<^verbatim>\<open>FramebufferInfo\<close> of the window manager and of the shell, and of the adapter; \<^verbatim>\<open>Stat\<close> and
  \<^verbatim>\<open>ProcInfo\<close> of sysutils (the name as 16 single bytes).\<close>

definition wm_fb_info :: "nat list" where "wm_fb_info = [8, 4, 4, 4, 4, 4, 8]"
definition shell_fb_info :: "nat list" where "shell_fb_info = [8, 4, 4, 4, 4, 4, 8]"
definition adapter_fb_info :: "nat list" where "adapter_fb_info = [8, 4, 4, 4, 4, 4]"
definition stat_fields :: "nat list" where "stat_fields = [8, 4]"
definition proc_info_fields :: "nat list" where "proc_info_fields = [8, 8, 8] @ replicate 16 1"

text \<open>The packed \<^verbatim>\<open>InputEvent\<close> of the window manager and of the shell.\<close>

definition wm_input_event :: "nat list" where "wm_input_event = [4, 4, 4, 1, 1, 2, 2]"
definition shell_input_event :: "nat list" where "shell_input_event = [4, 4, 4, 1, 1, 2, 2]"

section \<open>Lemmas\<close>

text \<open>How a result of the dispatcher reaches the program.\<close>

definition answers :: "kernel \<times> outcome \<Rightarrow> kernel \<times> (outcome + i64)" where
  "answers res = (case res of (k, Ret v) \<Rightarrow> (k, Inr v) | (k, out) \<Rightarrow> (k, Inl out))"

lemma syscall3_dispatch:
  "syscall3 ev r n a b c k =
     answers (dispatch_syscall ev n a b c (i_r10 r) (i_r8 r) (Some (r\<lparr>i_rax := n, i_rdi := a, i_rsi := b, i_rdx := c\<rparr>)) k)"
proof -
  have "\<exists>g. IDT 0x80 = Some g \<and> ring3 g" using user_gate by blast
  then show ?thesis
    by (auto simp: syscall3_def user_int_def syscall_dispatch_def answers_def split: prod.splits outcome.splits)
qed

lemma from_u64_simps:
  "from_u64 SYS_OPEN = Some Open" "from_u64 SYS_READ = Some Read" "from_u64 SYS_WRITE = Some Write"
  "from_u64 SYS_NANOSLEEP = Some Nanosleep" "from_u64 SYS_POLL_INPUT = Some PollInput" "from_u64 SYS_KILL = Some Kill"
  "from_u64 SYS_EXIT = Some Exit" "from_u64 SYS_EXEC = Some Exec" "from_u64 SYS_GETPID = Some Getpid"
  "from_u64 SYS_CLOSE = Some Close" "from_u64 SYS_STAT = Some Stat" "from_u64 SYS_FORK = Some Fork"
  "from_u64 SYS_WAITPID = Some Waitpid" "from_u64 SYS_GETDENTS = Some Getdents" "from_u64 SYS_GETPROCS = Some Getprocs"
  by (simp_all add: from_u64_def call_numbers)

text \<open>A call without a permission runs its operation; one with a permission may be refused.\<close>

lemma syscall3_free:
  "from_u64 n = Some call \<Longrightarrow> perm_resource call = None \<Longrightarrow>
   syscall3 ev r n a b c k = answers (perform ev call a b c (i_r10 r) (i_r8 r) (Some (r\<lparr>i_rax := n, i_rdi := a, i_rsi := b, i_rdx := c\<rparr>)) k)"
  by (simp add: syscall3_dispatch dispatch_syscall_def)

lemma syscall3_guarded:
  "from_u64 n = Some call \<Longrightarrow> perm_resource call = Some res \<Longrightarrow>
   syscall3 ev r n a b c k = (if check_perm res k
     then answers (perform ev call a b c (i_r10 r) (i_r8 r) (Some (r\<lparr>i_rax := n, i_rdi := a, i_rsi := b, i_rdx := c\<rparr>)) k)
     else (k, Inr EPERM))"
  by (simp add: syscall3_dispatch dispatch_syscall_def answers_def)

lemma ucast_scast_fd: "ucast (scast fd :: u64) = (fd :: i32)"
  by (rule bit_word_eqI) (simp add: bit_unsigned_iff bit_signed_iff not_le)

lemma ucast_ucast_back: "ucast (ucast x :: u64) = (x :: u32)" "ucast (ucast y :: u64) = (y :: u8)"
  by (auto intro!: bit_word_eqI simp: bit_unsigned_iff)

text \<open>The memory in which a call finds its path.\<close>

definition path_memory :: "u64 \<Rightarrow> bytes \<Rightarrow> kernel \<Rightarrow> kernel" where
  "path_memory scratch path k =
     set_mem (poke scratch (path @ [0]) (poke scratch (replicate 128 0) (memory_of k))) k"

lemma with_path_placed:
  "length path < 128 \<Longrightarrow> with_path scratch path f k = f (path_memory scratch path k)"
  by (simp add: with_path_def path_cstr_def path_memory_def set_mem_def)

lemma with_path_long: "128 \<le> length path \<Longrightarrow> snd (with_path scratch path f k) = Inr (- 28)"
  by (simp add: with_path_def path_cstr_def)

lemma path_memory_outside:
  "length path < 128 \<Longrightarrow> 128 \<le> unat (a - scratch) \<Longrightarrow> memory_of (path_memory scratch path k) a = memory_of k a"
  by (simp add: path_memory_def set_mem_def poke_outside)

lemma path_memory_read:
  assumes "length path < 128" "0 \<notin> set path" "utf8_valid path" "scratch \<noteq> 0"
  shows "read_path scratch (path_memory scratch path k) = Inr path"
proof -
  have "peek scratch (length (path @ [0])) (memory_of (path_memory scratch path k)) = path @ [0]"
    using peek_poke_same [of "path @ [0]" scratch "poke scratch (replicate 128 0) (memory_of k)"] assms(1)
    by (simp add: path_memory_def set_mem_def)
  then have "c_string 256 scratch (memory_of (path_memory scratch path k)) = Some path"
    using assms(1,2) by (intro c_string_eq) simp_all
  with assms(3,4) show ?thesis by (simp add: read_path_def)
qed

lemma check_perm_path [simp]: "check_perm res (path_memory scratch path k) = check_perm res k"
  by (simp add: check_perm_def path_memory_def set_mem_def)

section \<open>Properties\<close>


text \<open>
  Paths across the system call. A path of fewer than 128 bytes, valid UTF-8 and without a
  zero byte, is what the kernel reads at the address that it is given: \<open>open\<close>, \<open>getdents\<close>, \<open>stat\<close>
  and \<open>exec\<close> run the kernel's operation in a memory that differs from the program's only in the
  128 bytes of the wrapper's buffer; a longer path is an error before any call.
\<close>

theorem path_calls:
  assumes "0 \<notin> set path" "utf8_valid path" "scratch \<noteq> 0"
  shows "(length path < 128 \<longrightarrow>
     (let k1 = path_memory scratch path k in
        read_path scratch k1 = Inr path \<and> (\<forall>a. 128 \<le> unat (a - scratch) \<longrightarrow> memory_of k1 a = memory_of k a) \<and>
        call_open ev r scratch path flags k = answers (sys_open scratch flags k1) \<and>
        call_getdents ev r scratch path dst count k = answers (sys_getdents scratch dst count k1) \<and>
        call_stat ev r scratch path st k = answers (sys_stat scratch st k1) \<and>
        call_exec ev r scratch path argv k = (if check_perm RExec k
          then answers (sys_exec (e_map_to ev) (e_trampoline ev) scratch argv k1) else (k1, Inr EPERM)))) \<and>
   (128 \<le> length path \<longrightarrow> snd (call_open ev r scratch path flags k) = Inr (- 28) \<and>
      snd (call_getdents ev r scratch path dst count k) = Inr (- 28) \<and>
      snd (call_stat ev r scratch path st k) = Inr (- 28) \<and> snd (call_exec ev r scratch path argv k) = Inr (- 28))"
  using assms
  by (auto simp: Let_def path_memory_read path_memory_outside call_open_def call_getdents_def call_stat_def call_exec_def
      with_path_placed with_path_long syscall3_free [OF from_u64_simps(1)] syscall3_free [OF from_u64_simps(14)]
      syscall3_free [OF from_u64_simps(11)] syscall3_guarded [OF from_u64_simps(8)] ucast_ucast_back)

theorem path_calls_witness:
  "read_path 0x5000 (path_memory 0x5000 (as_bytes ''/README'') demo_kernel) = Inr (as_bytes ''/README'') \<and>
   (\<forall>ev r. call_open ev r 0x5000 (as_bytes ''/README'') 0 demo_kernel =
      answers (sys_open 0x5000 0 (path_memory 0x5000 (as_bytes ''/README'') demo_kernel)))"
proof -
  have p: "0 \<notin> set (as_bytes ''/README'')" "utf8_valid (as_bytes ''/README'')" "(0x5000 :: u64) \<noteq> 0"
    "length (as_bytes ''/README'') < 128"
    by code_simp+
  with path_calls [OF p(1-3), of demo_kernel _ _ 0] show ?thesis unfolding Let_def by blast
qed

text \<open>The other programs use the same numbers and codes.\<close>

lemma copied_numbers:
  "\<forall>(call, n) \<in> set (wm_numbers @ adapter_numbers). from_u64 n = Some call"
  "\<forall>(e, v) \<in> set (wm_errnos @ adapter_errnos @ sysutils_errnos). as_i64 e = v"
  by (simp_all add: wm_numbers_def adapter_numbers_def from_u64_def wm_errnos_def adapter_errnos_def sysutils_errnos_def)

text \<open>The structures that agree with the kernel's.\<close>

lemma structures_agree:
  "repr_c_offsets stat_fields 0 = [0, 8]"
  "take 4 (repr_c_offsets proc_info_fields 0) = [0, 8, 16, 24]" "repr_c_size proc_info_fields = 40"
  "length (event_bytes e) = sum_list wm_input_event" "length (event_bytes e) = sum_list shell_input_event"
proof -
  show "repr_c_offsets stat_fields 0 = [0, 8]" by code_simp
  show "take 4 (repr_c_offsets proc_info_fields 0) = [0, 8, 16, 24]" by code_simp
  show "repr_c_size proc_info_fields = 40" by code_simp
qed (simp_all add: wm_input_event_def shell_input_event_def event_bytes_def)

text \<open>
  The structure for the framebuffer does not fit. The window manager, the shell and the
  adapter reserve 40, 40 and 32 bytes; the kernel writes seven words of 8 bytes at the address it is
  given, the length of the framebuffer into the last, 48 bytes behind the start.
\<close>

theorem fb_info_overflows:
  assumes "get_fb_state (k_graphics k) = Some (fb_addr, fb_len, w, h, stride, bpp, format)" "p \<noteq> 0"
  shows "repr_c_size wm_fb_info = 40 \<and> repr_c_size shell_fb_info = 40 \<and> repr_c_size adapter_fb_info = 32 \<and>
    (\<exists>k'. sys_get_framebuffer_info p k = (k', Ret 0) \<and> rd64 (memory_of k') (p + 48) = fb_len \<and>
       rd64 (memory_of k') (p + 40) = ucast format)"
proof -
  have "rd64 (wr64 (p + 48) a (wr64 (p + 40) b m)) (p + 40) = b" for a b m
    by (subst rd64_wr64_other) (simp_all add: rd64_wr64_same)
  then show ?thesis using assms
    by (simp add: sys_get_framebuffer_info_def set_mem_def rd64_wr64_same wm_fb_info_def shell_fb_info_def
        adapter_fb_info_def repr_c_size_def round_up_def Let_def)
qed

theorem fb_info_overflows_witness:
  "\<exists>k k'. sys_get_framebuffer_info 0x5000 k = (k', Ret 0) \<and> rd64 (memory_of k') 0x5030 = 0x12C000"
proof -
  define k where "k = demo_kernel\<lparr>k_graphics := \<lparr>g_info = Some \<lparr>fi_width = 640, fi_height = 480, fi_stride = 640,
    fi_bpp = 4, fi_format = Rgb\<rparr>, g_buffer = 0x100000, g_len = 0x12C000\<rparr>\<rparr>"
  have "get_fb_state (k_graphics k) \<noteq> None" by (simp add: k_def get_fb_state_def)
  then obtain a l w h st b f where g: "get_fb_state (k_graphics k) = Some (a, l, w, h, st, b, f)" by auto
  then have "l = 0x12C000" by (simp add: k_def get_fb_state_def)
  with fb_info_overflows [OF g, of "0x5000"] show ?thesis by auto
qed

end
