(* ===== verification/Run_User.thy ===== *)
theory Run_User
  imports Boot_Main Abi
begin

text \<open>
  The built-in programs in user mode: an interpreter for the eight kinds of instructions that the
  programs of \<^verbatim>\<open>kernel/src/fs/initramfs.rs\<close>, \<^verbatim>\<open>build.rs\<close> and \<^verbatim>\<open>kernel/src/lib.rs\<close> consist of, with the kernel behind
  \<^verbatim>\<open>int 0x80\<close>. The properties: what \<^verbatim>\<open>hello\<close> and the Ring3 test print, byte for byte.
\<close>

unbundle bit_operations_syntax

section \<open>Instructions\<close>

text \<open>The general registers by their number in an instruction.\<close>

definition get_reg :: "u8 \<Rightarrow> InterruptContext \<Rightarrow> u64" where
  "get_reg n r =
     (if n = 0 then i_rax r else if n = 1 then i_rcx r else if n = 2 then i_rdx r else if n = 3 then i_rbx r
      else if n = 4 then i_rsp r else if n = 5 then i_rbp r else if n = 6 then i_rsi r else i_rdi r)"

definition set_reg :: "u8 \<Rightarrow> u64 \<Rightarrow> InterruptContext \<Rightarrow> InterruptContext" where
  "set_reg n v r =
     (if n = 0 then r\<lparr>i_rax := v\<rparr> else if n = 1 then r\<lparr>i_rcx := v\<rparr> else if n = 2 then r\<lparr>i_rdx := v\<rparr> else if n = 3 then r\<lparr>i_rbx := v\<rparr>
      else if n = 4 then r\<lparr>i_rsp := v\<rparr> else if n = 5 then r\<lparr>i_rbp := v\<rparr> else if n = 6 then r\<lparr>i_rsi := v\<rparr> else r\<lparr>i_rdi := v\<rparr>)"

text \<open>The zero flag after a result.\<close>

definition set_zf :: "u64 \<Rightarrow> InterruptContext \<Rightarrow> InterruptContext" where
  "set_zf v r = r\<lparr>i_rflags := (if v = 0 then i_rflags r OR 0x40 else i_rflags r AND NOT 0x40)\<rparr>"

text \<open>Bytes at an address, and a 32-bit operand with its sign extended.\<close>

definition operand :: "u64 \<Rightarrow> (u64 \<Rightarrow> u8) \<Rightarrow> u64" where
  "operand a m = scast (from_le (peek a 4 m) :: i32)"

text \<open>A step ends in user mode, in the kernel, or at an instruction that the programs do not use.\<close>

datatype user_state = In_user InterruptContext kernel | In_kernel kernel outcome | Undecoded

text \<open>\<^verbatim>\<open>mov r, imm32\<close>; \<^verbatim>\<open>mov r, r\<close>; \<^verbatim>\<open>xor r, r\<close>; \<^verbatim>\<open>test r, r\<close>; \<^verbatim>\<open>lea r, [rip + d32]\<close>; \<^verbatim>\<open>jne rel8\<close>; \<^verbatim>\<open>int imm8\<close>; \<^verbatim>\<open>hlt\<close>.\<close>

definition user_instr :: "env \<Rightarrow> InterruptContext \<Rightarrow> kernel \<Rightarrow> user_state" where
  "user_instr ev r k =
     (let m = memory_of k; a = i_rip r; b0 = m a; b1 = m (a + 1); b2 = m (a + 2);
          dst = b2 AND 7; src = drop_bit 3 b2 AND 7; next3 = r\<lparr>i_rip := a + 3\<rparr>; next7 = r\<lparr>i_rip := a + 7\<rparr>
      in if b0 = 0x48 \<and> b1 = 0xC7 \<and> b2 AND 0xF8 = 0xC0 then In_user (set_reg dst (operand (a + 3) m) next7) k
         else if b0 = 0x48 \<and> b1 = 0x89 \<and> b2 AND 0xC0 = 0xC0 then In_user (set_reg dst (get_reg src r) next3) k
         else if b0 = 0x48 \<and> b1 = 0x31 \<and> b2 AND 0xC0 = 0xC0 then
           (let v = get_reg dst r XOR get_reg src r in In_user (set_zf v (set_reg dst v next3)) k)
         else if b0 = 0x48 \<and> b1 = 0x85 \<and> b2 AND 0xC0 = 0xC0 then In_user (set_zf (get_reg dst r AND get_reg src r) next3) k
         else if b0 = 0x48 \<and> b1 = 0x8D \<and> b2 AND 0xC7 = 0x05 then In_user (set_reg src (a + 7 + operand (a + 3) m) next7) k
         else if b0 = 0x75 then
           In_user (r\<lparr>i_rip := (if i_rflags r AND 0x40 = 0 then a + 2 + scast b1 else a + 2)\<rparr>) k
         else if b0 = 0xCD then
           (case user_int ev b1 (r\<lparr>i_rip := a + 2\<rparr>) k of
              (k', Inr r') \<Rightarrow> In_user r' k'
            | (k', Inl out) \<Rightarrow> In_kernel k' out)
         else if b0 = 0xF4 then (case raise_exception 13 True k of (k', out) \<Rightarrow> In_kernel k' out)
         else Undecoded)"

fun user_run :: "env \<Rightarrow> nat \<Rightarrow> InterruptContext \<Rightarrow> kernel \<Rightarrow> user_state" where
  "user_run ev 0 r k = In_user r k"
| "user_run ev (Suc n) r k =
     (case user_instr ev r k of In_user r' k' \<Rightarrow> user_run ev n r' k' | other \<Rightarrow> other)"

section \<open>Code in memory\<close>

lemma peek_slice:
  "peek a n m = b \<Longrightarrow> i + j \<le> n \<Longrightarrow> peek (a + of_nat i) j m = slice i (i + j) b"
  by (auto simp: slice_def peek_def take_map drop_map intro!: nth_equalityI) (simp add: algebra_simps)

text \<open>The instructions, one lemma for each kind; the code bytes are the hypothesis.\<close>

lemma fetch2:
  assumes "peek a n m = x # y # zs"
  shows "m a = x \<and> m (a + 1) = y"
proof -
  have "n = length zs + 2" using arg_cong [OF assms, of length] by simp
  moreover have "m (a + of_nat i) = (x # y # zs) ! i" if "i < n" for i using that assms by (metis nth_peek)
  from this [of 0] this [of 1] calculation show ?thesis by simp
qed

lemma fetch3:
  assumes "peek a n m = x # y # z # zs"
  shows "m a = x \<and> m (a + 1) = y \<and> m (a + 2) = z"
proof -
  have "n = length zs + 3" using arg_cong [OF assms, of length] by simp
  moreover have "m (a + of_nat i) = (x # y # z # zs) ! i" if "i < n" for i using that assms by (metis nth_peek)
  from this [of 2] calculation fetch2 [OF assms] show ?thesis by simp
qed

lemma fetch_operand: "peek a 7 m = [x, y, z, c0, c1, c2, c3] \<Longrightarrow> operand (a + 3) m = scast (from_le [c0, c1, c2, c3] :: i32)"
  using peek_slice [of a 7 m "[x, y, z, c0, c1, c2, c3]" 3 4] by (simp add: operand_def slice_def)

lemma instr_mov_imm:
  assumes "peek (i_rip r) 7 (memory_of k) = [0x48, 0xC7, b2, c0, c1, c2, c3]" "b2 AND 0xF8 = 0xC0"
  shows "user_instr ev r k = In_user (set_reg (b2 AND 7) (scast (from_le [c0, c1, c2, c3] :: i32)) (r\<lparr>i_rip := i_rip r + 7\<rparr>)) k"
  using fetch3 [OF assms(1)] fetch_operand [OF assms(1)] assms(2) by (simp add: user_instr_def Let_def)

lemma instr_lea:
  assumes "peek (i_rip r) 7 (memory_of k) = [0x48, 0x8D, b2, c0, c1, c2, c3]" "b2 AND 0xC7 = 0x05"
  shows "user_instr ev r k =
    In_user (set_reg (drop_bit 3 b2 AND 7) (i_rip r + 7 + scast (from_le [c0, c1, c2, c3] :: i32)) (r\<lparr>i_rip := i_rip r + 7\<rparr>)) k"
  using fetch3 [OF assms(1)] fetch_operand [OF assms(1)] assms(2) by (simp add: user_instr_def Let_def)

lemma instr_xor_same:
  assumes "peek (i_rip r) 3 (memory_of k) = [0x48, 0x31, b2]" "b2 AND 0xC0 = 0xC0" "b2 AND 7 = drop_bit 3 b2 AND 7"
  shows "user_instr ev r k = In_user (set_zf 0 (set_reg (b2 AND 7) 0 (r\<lparr>i_rip := i_rip r + 3\<rparr>))) k"
  using fetch3 [OF assms(1)] assms(2,3) by (simp add: user_instr_def Let_def)

lemma instr_int:
  assumes "peek (i_rip r) 2 (memory_of k) = [0xCD, v]"
  shows "user_instr ev r k = (case user_int ev v (r\<lparr>i_rip := i_rip r + 2\<rparr>) k of
    (k', Inr r') \<Rightarrow> In_user r' k' | (k', Inl out) \<Rightarrow> In_kernel k' out)"
  using fetch2 [OF assms] by (simp add: user_instr_def Let_def)

text \<open>The system calls of the programs: a write to the screen, and the end.\<close>

lemma user_write:
  assumes "i_rax r = 3" "i_rdi r = 1" "i_rsi r \<noteq> 0"
  shows "user_int ev 0x80 r k =
    (let b = printable (peek (i_rsi r) (unat (i_rdx r)) (memory_of k)); k1 = serial_print b k
     in (k1\<lparr>k_console := vga_print b (k_console k1)\<rparr>, Inr (r\<lparr>i_rax := i_rdx r\<rparr>)))"
proof -
  have "\<exists>g. IDT 0x80 = Some g \<and> ring3 g" using user_gate by blast
  moreover have "from_u64 3 = Some Write" by (simp add: from_u64_def)
  ultimately show ?thesis using assms
    by (auto simp: user_int_def syscall_dispatch_def dispatch_syscall_def sys_write_def Let_def)
qed

lemma user_exit:
  assumes "i_rax r = 11" "i_rdi r = 0"
  shows "user_int ev 0x80 r k = (case sys_exit 0 k of (k', out) \<Rightarrow> (k', Inl out))"
proof -
  have "\<exists>g. IDT 0x80 = Some g \<and> ring3 g" using user_gate by blast
  moreover have "from_u64 11 = Some Exit" by (simp add: from_u64_def)
  moreover have "\<exists>k' out. sys_exit 0 k = (k', out) \<and> (\<forall>v. out \<noteq> Ret v)"
    by (auto simp: sys_exit_def Let_def split: option.split)
  ultimately show ?thesis using assms
    by (auto simp: user_int_def syscall_dispatch_def dispatch_syscall_def split: outcome.splits)
qed

section \<open>The two programs\<close>

text \<open>The registers after the trampoline has entered user mode.\<close>

abbreviation user_start :: "u64 \<Rightarrow> InterruptContext" where
  "user_start entry \<equiv> enter_usermode 0x33 0x2B entry USER_STACK_TOP"

lemma run_split: "user_instr ev r k = In_user r' k' \<Longrightarrow> user_run ev (Suc n) r k = user_run ev n r' k'"
  by simp

lemma code_at: "peek a n m = b \<Longrightarrow> i + j \<le> n \<Longrightarrow> slice i (i + j) b = c \<Longrightarrow> peek (a + of_nat i) j m = c"
  using peek_slice by metis

lemma hello_slices:
  "slice 0x78 (0x78 + 7) HELLO_ELF = [0x48, 0xC7, 0xC0, 3, 0, 0, 0]" "slice 0x7F (0x7F + 7) HELLO_ELF = [0x48, 0xC7, 0xC7, 1, 0, 0, 0]"
  "slice 0x86 (0x86 + 7) HELLO_ELF = [0x48, 0x8D, 0x35, 0x15, 0, 0, 0]" "slice 0x8D (0x8D + 7) HELLO_ELF = [0x48, 0xC7, 0xC2, 0x16, 0, 0, 0]"
  "slice 0x94 (0x94 + 2) HELLO_ELF = [0xCD, 0x80]" "slice 0x96 (0x96 + 7) HELLO_ELF = [0x48, 0xC7, 0xC0, 0x0B, 0, 0, 0]"
  "slice 0x9D (0x9D + 3) HELLO_ELF = [0x48, 0x31, 0xFF]" "slice 0xA0 (0xA0 + 2) HELLO_ELF = [0xCD, 0x80]"
  "slice 0xA2 (0xA2 + 22) HELLO_ELF = as_bytes ''Hello from /bin/hello!''" "length HELLO_ELF = 185"
  by code_simp+

lemma imm_values:
  "scast (from_le [3, 0, 0, 0] :: i32) = (3 :: u64)" "scast (from_le [1, 0, 0, 0] :: i32) = (1 :: u64)"
  "scast (from_le [0x15, 0, 0, 0] :: i32) = (0x15 :: u64)" "scast (from_le [0x16, 0, 0, 0] :: i32) = (0x16 :: u64)"
  "scast (from_le [0x0B, 0, 0, 0] :: i32) = (0x0B :: u64)" "scast (from_le [0x19, 0, 0, 0] :: i32) = (0x19 :: u64)"
  "scast (from_le [0x13, 0, 0, 0] :: i32) = (0x13 :: u64)" "scast (from_le [0, 0, 0, 0] :: i32) = (0 :: u64)"
  by code_simp+

lemma reg_bits:
  "(0xC0 :: u8) AND 0xF8 = 0xC0" "(0xC7 :: u8) AND 0xF8 = 0xC0" "(0xC2 :: u8) AND 0xF8 = 0xC0" "(0xC0 :: u8) AND 7 = 0" "(0xC7 :: u8) AND 7 = 7"
  "(0xC2 :: u8) AND 7 = 2" "(0x35 :: u8) AND 0xC7 = 5" "drop_bit 3 (0x35 :: u8) AND 7 = 6" "(0xFF :: u8) AND 0xC0 = 0xC0"
  "(0xFF :: u8) AND 7 = 7" "drop_bit 3 (0xFF :: u8) AND 7 = 7"
  by code_simp+

text \<open>Both programs have the same shape: load the registers, write, load the registers, exit. \<open>code\<close>
  is where the program begins.\<close>

definition on_screen :: "bytes \<Rightarrow> kernel \<Rightarrow> kernel" where
  "on_screen b k = (serial_print b k)\<lparr>k_console := vga_print b (k_console k)\<rparr>"

lemma on_screen_memory [simp]: "memory_of (on_screen b k) = memory_of k"
  by (simp add: on_screen_def serial_print_def)

lemma user_write_screen:
  "i_rax r = 3 \<Longrightarrow> i_rdi r = 1 \<Longrightarrow> i_rsi r \<noteq> 0 \<Longrightarrow>
   user_int ev 0x80 r k = (on_screen (printable (peek (i_rsi r) (unat (i_rdx r)) (memory_of k))) k, Inr (r\<lparr>i_rax := i_rdx r\<rparr>))"
  by (simp add: user_write on_screen_def serial_print_def Let_def)

lemma write_and_exit:
  assumes c: "peek code 7 (memory_of k) = [0x48, 0xC7, 0xC0, 3, 0, 0, 0]"
      "peek (code + 7) 7 (memory_of k) = [0x48, 0xC7, 0xC7, 1, 0, 0, 0]"
      "peek (code + 14) 7 (memory_of k) = [0x48, 0x8D, 0x35, d, 0, 0, 0]"
      "peek (code + 21) 7 (memory_of k) = [0x48, 0xC7, 0xC2, n, 0, 0, 0]"
      "peek (code + 28) 2 (memory_of k) = [0xCD, 0x80]"
      "peek (code + 30) 7 (memory_of k) = [0x48, 0xC7, 0xC0, 0x0B, 0, 0, 0]"
    and v: "scast (from_le [d, 0, 0, 0] :: i32) = (dv :: u64)" "scast (from_le [n, 0, 0, 0] :: i32) = (nv :: u64)"
    and z: "code + 21 + dv \<noteq> 0" "i_rip r = code"
  defines "msg \<equiv> printable (peek (code + 21 + dv) (unat nv) (memory_of k))"
  shows "user_run ev (Suc (Suc (Suc (Suc (Suc (Suc m)))))) r k =
    user_run ev m (r\<lparr>i_rax := 11, i_rdi := 1, i_rsi := code + 21 + dv, i_rdx := nv, i_rip := code + 37\<rparr>) (on_screen msg k)"
proof -
  define r1 where "r1 = r\<lparr>i_rax := 3, i_rip := code + 7\<rparr>"
  define r2 where "r2 = r1\<lparr>i_rdi := 1, i_rip := code + 14\<rparr>"
  define r3 where "r3 = r2\<lparr>i_rsi := code + 21 + dv, i_rip := code + 21\<rparr>"
  define r4 where "r4 = r3\<lparr>i_rdx := nv, i_rip := code + 28\<rparr>"
  define r5 where "r5 = r4\<lparr>i_rax := nv, i_rip := code + 30\<rparr>"
  define r6 where "r6 = r5\<lparr>i_rax := 11, i_rip := code + 37\<rparr>"
  note rs = r1_def r2_def r3_def r4_def r5_def r6_def set_reg_def
  have ip: "i_rip r1 = code + 7" "i_rip r2 = code + 14" "i_rip r3 = code + 21" "i_rip r4 = code + 28" "i_rip r5 = code + 30"
    by (simp_all add: rs)
  note v' = reg_bits imm_values v
  have 1: "user_instr ev r k = In_user r1 k"
    by (subst instr_mov_imm [of r k, unfolded z(2), OF c(1)]) (simp_all add: rs v' del: from_le.simps)
  have 2: "user_instr ev r1 k = In_user r2 k"
    by (subst instr_mov_imm [of r1 k, unfolded ip, OF c(2)]) (simp_all add: rs v' del: from_le.simps)
  have 3: "user_instr ev r2 k = In_user r3 k"
    by (subst instr_lea [of r2 k, unfolded ip, OF c(3)]) (simp_all add: rs v' del: from_le.simps)
  have 4: "user_instr ev r3 k = In_user r4 k"
    by (subst instr_mov_imm [of r3 k, unfolded ip, OF c(4)]) (simp_all add: rs v' del: from_le.simps)
  have 5: "user_instr ev r4 k = In_user r5 (on_screen msg k)"
    by (subst instr_int [of r4 k, unfolded ip, OF c(5)]) (use z(1) in \<open>simp add: rs user_write_screen msg_def\<close>)
  have 6: "user_instr ev r5 (on_screen msg k) = In_user r6 (on_screen msg k)"
    by (subst instr_mov_imm [of r5 "on_screen msg k", unfolded ip on_screen_memory, OF c(6)]) (simp_all add: rs v' del: from_le.simps)
  have "r6 = r\<lparr>i_rax := 11, i_rdi := 1, i_rsi := code + 21 + dv, i_rdx := nv, i_rip := code + 37\<rparr>" by (simp add: rs)
  then show ?thesis by (simp add: 1 2 3 4 5 6)
qed

lemma peek_Suc: "peek a (Suc n) m = peek a n m @ [m (a + of_nat n)]"
  by (simp add: peek_def)

lemma ring3_slices:
  "slice 0 (0 + 7) RING3_TEST_CODE = [0x48, 0xC7, 0xC0, 3, 0, 0, 0]" "slice 7 (7 + 7) RING3_TEST_CODE = [0x48, 0xC7, 0xC7, 1, 0, 0, 0]"
  "slice 14 (14 + 7) RING3_TEST_CODE = [0x48, 0x8D, 0x35, 0x19, 0, 0, 0]" "slice 21 (21 + 7) RING3_TEST_CODE = [0x48, 0xC7, 0xC2, 0x13, 0, 0, 0]"
  "slice 28 (28 + 2) RING3_TEST_CODE = [0xCD, 0x80]" "slice 30 (30 + 7) RING3_TEST_CODE = [0x48, 0xC7, 0xC0, 0x0B, 0, 0, 0]"
  "slice 37 (37 + 7) RING3_TEST_CODE = [0x48, 0xC7, 0xC7, 0, 0, 0, 0]" "slice 44 (44 + 2) RING3_TEST_CODE = [0xCD, 0x80]"
  "slice 46 (46 + 18) RING3_TEST_CODE = as_bytes ''Hello from Ring3!'' @ [10]" "length RING3_TEST_CODE = 64"
  by code_simp+

lemma run_exit:
  assumes "user_instr ev r k = In_user r1 k" "peek (i_rip r1) 2 (memory_of k) = [0xCD, 0x80]" "i_rax r1 = 11" "i_rdi r1 = 0"
  shows "user_run ev (Suc (Suc n)) r k = (case sys_exit 0 k of (k', out) \<Rightarrow> In_kernel k' out)"
  using assms(1,3,4) by (simp add: instr_int [OF assms(2)] user_exit split: prod.split)

section \<open>Properties\<close>

text \<open>
  C12. What \<^verbatim>\<open>hello\<close> does. Entered with the file in place, the program runs eight instructions: it
  prints \<^verbatim>\<open>Hello from /bin/hello!\<close> on the serial port and the screen, without the newline of its message, and
  then leaves through \<open>sys_exit\<close> with status 0.
\<close>

theorem hello_runs:
  assumes "peek 0x400000 (length HELLO_ELF) (memory_of k) = HELLO_ELF"
  shows "user_run ev 8 (user_start 0x400078) k =
    (case sys_exit 0 (on_screen (as_bytes ''Hello from /bin/hello!'') k) of (k', out) \<Rightarrow> In_kernel k' out)"
proof -
  have n: "length HELLO_ELF = 185" by (rule hello_slices)
  note c = code_at [OF assms [unfolded n] _ hello_slices(1)] code_at [OF assms [unfolded n] _ hello_slices(2)]
    code_at [OF assms [unfolded n] _ hello_slices(3)] code_at [OF assms [unfolded n] _ hello_slices(4)]
    code_at [OF assms [unfolded n] _ hello_slices(5)] code_at [OF assms [unfolded n] _ hello_slices(6)]
    code_at [OF assms [unfolded n] _ hello_slices(7)] code_at [OF assms [unfolded n] _ hello_slices(8)]
    code_at [OF assms [unfolded n] _ hello_slices(9)]
  have p: "printable (as_bytes ''Hello from /bin/hello!'') = as_bytes ''Hello from /bin/hello!''" by code_simp
  let ?k = "on_screen (as_bytes ''Hello from /bin/hello!'') k"
  let ?r = "(user_start 0x400078)\<lparr>i_rax := 11, i_rdi := 1, i_rsi := 0x4000A2, i_rdx := 0x16, i_rip := 0x40009D\<rparr>"
  have "user_run ev (Suc (Suc (Suc (Suc (Suc (Suc 2)))))) (user_start 0x400078) k = user_run ev 2 ?r ?k"
    using write_and_exit [of "0x400078" k "0x15" "0x16" "0x15" "0x16" "user_start 0x400078" ev 2] c p imm_values
    by (simp add: enter_usermode_def del: user_run.simps from_le.simps)
  moreover have "user_run ev (Suc (Suc 0)) ?r ?k = (case sys_exit 0 ?k of (k', out) \<Rightarrow> In_kernel k' out)"
  proof (rule run_exit)
    show "user_instr ev ?r ?k = In_user (set_zf 0 (set_reg 7 0 (?r\<lparr>i_rip := 0x4000A0\<rparr>))) ?k"
      using c(7) by (subst instr_xor_same [of ?r ?k "0xFF"]) (simp_all add: reg_bits)
  qed (use c(8) in \<open>simp_all add: set_zf_def set_reg_def\<close>)
  ultimately show ?thesis by (simp add: numeral_eq_Suc del: user_run.simps)
qed

theorem hello_runs_witness:
  "\<forall>ev. let k = set_mem (poke 0x400000 HELLO_ELF (\<lambda>_. 0)) demo_kernel in
     user_run ev 8 (user_start 0x400078) k =
       (case sys_exit 0 (on_screen (as_bytes ''Hello from /bin/hello!'') k) of (k', out) \<Rightarrow> In_kernel k' out)"
proof -
  have "peek 0x400000 (length HELLO_ELF) (memory_of (set_mem (poke 0x400000 HELLO_ELF (\<lambda>_. 0)) demo_kernel)) = HELLO_ELF"
    using peek_poke_same [of HELLO_ELF "0x400000" "\<lambda>_. 0"] by (simp add: set_mem_def hello_slices(10))
  from hello_runs [OF this] show ?thesis by (simp add: Let_def)
qed

text \<open>
  What the Ring3 test does. The program prints its message with the newline and one more byte,
  whatever stands behind the program in memory, and then leaves through \<open>sys_exit\<close>.
\<close>

theorem ring3_test_runs:
  assumes "peek 0x400000 (length RING3_TEST_CODE) (memory_of k) = RING3_TEST_CODE"
  shows "user_run ev 8 (enter_usermode cs ds 0x400000 0x70000000) k =
    (case sys_exit 0 (on_screen (printable (as_bytes ''Hello from Ring3!'' @ [10, memory_of k 0x400040])) k) of (k', out) \<Rightarrow> In_kernel k' out)"
proof -
  have n: "length RING3_TEST_CODE = 64" by (rule ring3_slices)
  note c = code_at [OF assms [unfolded n] _ ring3_slices(1)] code_at [OF assms [unfolded n] _ ring3_slices(2)]
    code_at [OF assms [unfolded n] _ ring3_slices(3)] code_at [OF assms [unfolded n] _ ring3_slices(4)]
    code_at [OF assms [unfolded n] _ ring3_slices(5)] code_at [OF assms [unfolded n] _ ring3_slices(6)]
    code_at [OF assms [unfolded n] _ ring3_slices(7)] code_at [OF assms [unfolded n] _ ring3_slices(8)]
    code_at [OF assms [unfolded n] _ ring3_slices(9)]
  let ?m = "printable (as_bytes ''Hello from Ring3!'' @ [10, memory_of k 0x400040])"
  have m: "peek 0x40002E 19 (memory_of k) = as_bytes ''Hello from Ring3!'' @ [10, memory_of k 0x400040]"
    using c(9) peek_Suc [of "0x40002E" 18 "memory_of k"] by simp
  let ?k = "on_screen ?m k"
  let ?r = "(enter_usermode cs ds 0x400000 0x70000000)\<lparr>i_rax := 11, i_rdi := 1, i_rsi := 0x40002E, i_rdx := 0x13, i_rip := 0x400025\<rparr>"
  have "user_run ev (Suc (Suc (Suc (Suc (Suc (Suc 2)))))) (enter_usermode cs ds 0x400000 0x70000000) k = user_run ev 2 ?r ?k"
    using write_and_exit [of "0x400000" k "0x19" "0x13" "0x19" "0x13" "enter_usermode cs ds 0x400000 0x70000000" ev 2] c m imm_values
    by (simp add: enter_usermode_def del: user_run.simps from_le.simps)
  moreover have "user_run ev (Suc (Suc 0)) ?r ?k = (case sys_exit 0 ?k of (k', out) \<Rightarrow> In_kernel k' out)"
  proof (rule run_exit)
    have "i_rip ?r = 0x400025" by simp
    then show "user_instr ev ?r ?k = In_user (set_reg 7 0 (?r\<lparr>i_rip := 0x40002C\<rparr>)) ?k"
      using c(7) by (subst instr_mov_imm [of ?r ?k "0xC7" 0 0 0 0]) (simp_all add: reg_bits imm_values del: from_le.simps)
  qed (use c(8) in \<open>simp_all add: set_reg_def\<close>)
  ultimately show ?thesis by (simp add: numeral_eq_Suc del: user_run.simps)
qed

theorem ring3_test_runs_witness:
  "\<forall>ev. let k = set_mem (poke 0x400000 RING3_TEST_CODE (\<lambda>_. 0x21)) demo_kernel in
     user_run ev 8 (enter_usermode 0x33 0x2B 0x400000 0x70000000) k =
       (case sys_exit 0 (on_screen (printable (as_bytes ''Hello from Ring3!'' @ [10, 0x21])) k) of (k', out) \<Rightarrow> In_kernel k' out)"
proof -
  let ?k = "set_mem (poke 0x400000 RING3_TEST_CODE (\<lambda>_. 0x21)) demo_kernel"
  have "peek 0x400000 (length RING3_TEST_CODE) (memory_of ?k) = RING3_TEST_CODE"
    using peek_poke_same [of RING3_TEST_CODE "0x400000" "\<lambda>_. 0x21"] by (simp add: set_mem_def ring3_slices(10))
  moreover have "memory_of ?k 0x400040 = 0x21" by (simp add: set_mem_def poke_def ring3_slices(10))
  ultimately show ?thesis using ring3_test_runs [of ?k _ "0x33" "0x2B"] by (simp add: Let_def)
qed

end
