(* ===== verification/Mem.thy ===== *)
theory Mem
  imports Frames
begin

text \<open>
  The memory functions of \<^verbatim>\<open>kernel/src/mem.rs\<close> that the compiler calls: byte loops over
  memory, in the order in which the code runs them.
\<close>

definition copy_byte :: "u64 \<Rightarrow> u64 \<Rightarrow> nat \<Rightarrow> ram \<Rightarrow> ram" where
  "copy_byte dest src i r = r(dest + of_nat i := r (src + of_nat i))"

definition memcpy :: "u64 \<Rightarrow> u64 \<Rightarrow> nat \<Rightarrow> ram \<Rightarrow> ram" where
  "memcpy dest src n r = fold (copy_byte dest src) [0..<n] r"

definition memmove :: "u64 \<Rightarrow> u64 \<Rightarrow> nat \<Rightarrow> ram \<Rightarrow> ram" where
  "memmove dest src n r =
     (if dest < src then fold (copy_byte dest src) [0..<n] r
      else fold (copy_byte dest src) (rev [0..<n]) r)"

definition memset :: "u64 \<Rightarrow> i32 \<Rightarrow> nat \<Rightarrow> ram \<Rightarrow> ram" where
  "memset s c n r = (let byte = ucast c in fold (\<lambda>i r. r(s + of_nat i := byte)) [0..<n] r)"

definition memcmp :: "u64 \<Rightarrow> u64 \<Rightarrow> nat \<Rightarrow> ram \<Rightarrow> i32" where
  "memcmp s1 s2 n r =
     (case find (\<lambda>i. r (s1 + of_nat i) \<noteq> r (s2 + of_nat i)) [0..<n] of
        Some i \<Rightarrow> ucast (r (s1 + of_nat i)) - ucast (r (s2 + of_nat i))
      | None \<Rightarrow> 0)"

text \<open>The loop of \<^verbatim>\<open>strlen\<close> ends only at a zero byte.\<close>

partial_function (option) strlen_from :: "ram \<Rightarrow> u64 \<Rightarrow> nat \<Rightarrow> nat option" where
  "strlen_from r s len = (if r (s + of_nat len) \<noteq> 0 then strlen_from r s (len + 1) else Some len)"

definition strlen :: "u64 \<Rightarrow> ram \<Rightarrow> nat option" where
  "strlen s r = strlen_from r s 0"

section \<open>Lemmas\<close>

text \<open>A region that does not wrap around the end of the address space.\<close>

definition region_in :: "u64 \<Rightarrow> nat \<Rightarrow> bool" where
  "region_in a n \<longleftrightarrow> unat a + n < 2 ^ 64"

definition in_region :: "u64 \<Rightarrow> nat \<Rightarrow> u64 \<Rightarrow> bool" where
  "in_region a n x \<longleftrightarrow> unat a \<le> unat x \<and> unat x < unat a + n"

lemma unat_add_nat: "region_in a n \<Longrightarrow> i \<le> n \<Longrightarrow> unat (a + of_nat i) = unat a + i"
proof -
  assume "region_in a n" "i \<le> n"
  then have i: "unat a + i < 2 ^ 64" by (simp add: region_in_def)
  then have "unat (of_nat i :: u64) = i" by (intro of_nat_inverse [OF refl]) simp
  then show ?thesis using i unat_add_lem [of a "of_nat i"] by simp
qed

lemma region_in_mono: "region_in a n \<Longrightarrow> k \<le> n \<Longrightarrow> region_in a k"
  by (simp add: region_in_def)

lemma in_region_Suc:
  "region_in a (Suc n) \<Longrightarrow> in_region a (Suc n) x \<longleftrightarrow> in_region a n x \<or> x = a + of_nat n"
  using unat_add_nat [of a "Suc n" n] by (auto simp: in_region_def word_unat_eq_iff)

lemma in_region_offset: "in_region a n x \<Longrightarrow> x = a + of_nat (unat x - unat a)"
  by (simp add: in_region_def of_nat_diff)

text \<open>What a copy leaves: the old bytes of the source in the destination.\<close>

definition copied :: "u64 \<Rightarrow> u64 \<Rightarrow> nat \<Rightarrow> ram \<Rightarrow> ram" where
  "copied dest src n r = (\<lambda>a. if in_region dest n a then r (src + (a - dest)) else r a)"

lemma copy_forward:
  assumes "region_in dest n" "region_in src n" "dest < src \<or> (\<forall>i<n. \<forall>j<n. dest + of_nat i \<noteq> src + of_nat j)" "k \<le> n"
  shows "fold (copy_byte dest src) [0..<k] r = copied dest src k r"
  using assms(4)
proof (induction k)
  case 0
  then show ?case by (auto simp: copied_def in_region_def fun_eq_iff)
next
  case (Suc k)
  have "\<not> in_region dest k (src + of_nat k)"
  proof
    assume i: "in_region dest k (src + of_nat k)"
    have u: "unat (src + of_nat k) = unat src + k" using assms(2) Suc.prems by (simp add: unat_add_nat)
    show False using assms(3)
    proof
      assume "dest < src" then show False using i u by (simp add: in_region_def word_less_nat_alt)
    next
      assume "\<forall>i<n. \<forall>j<n. dest + of_nat i \<noteq> src + of_nat j"
      moreover have "src + of_nat k = dest + of_nat (unat (src + of_nat k) - unat dest)"
        by (rule in_region_offset [OF i])
      moreover have "unat (src + of_nat k) - unat dest < n" using i Suc.prems by (auto simp: in_region_def)
      ultimately show False using Suc.prems by (metis Suc_le_lessD)
    qed
  qed
  then have "copied dest src k r (src + of_nat k) = r (src + of_nat k)" by (simp add: copied_def)
  then show ?case
    using Suc in_region_Suc [of dest k] region_in_mono [OF assms(1) Suc.prems]
    by (auto simp: copied_def copy_byte_def fun_eq_iff)
qed

lemma copy_backward:
  assumes "region_in dest n" "region_in src n" "src \<le> dest" "k \<le> n"
  shows "fold (copy_byte dest src) (rev [k..<n]) r =
    (\<lambda>a. if in_region dest n a \<and> unat dest + k \<le> unat a then r (src + (a - dest)) else r a)"
  using assms(4)
proof (induction "n - k" arbitrary: k)
  case 0
  then show ?case by (auto simp: in_region_def fun_eq_iff)
next
  case (Suc m)
  then have kn: "k < n" "m = n - Suc k" by simp_all
  have IH: "fold (copy_byte dest src) (rev [Suc k..<n]) r =
      (\<lambda>a. if in_region dest n a \<and> unat dest + Suc k \<le> unat a then r (src + (a - dest)) else r a)"
    using Suc.hyps(1) [of "Suc k"] kn by simp
  have ud: "unat (dest + of_nat k) = unat dest + k" and us: "unat (src + of_nat k) = unat src + k"
    using assms kn by (simp_all add: unat_add_nat)
  have le: "unat src \<le> unat dest" using assms(3) by (simp add: word_le_nat_alt)
  have "rev [k..<n] = rev [Suc k..<n] @ [k]" using kn by (simp add: upt_conv_Cons)
  then have "fold (copy_byte dest src) (rev [k..<n]) r =
      copy_byte dest src k (fold (copy_byte dest src) (rev [Suc k..<n]) r)" by simp
  also have "\<dots> = (\<lambda>a. if in_region dest n a \<and> unat dest + k \<le> unat a then r (src + (a - dest)) else r a)"
  proof (rule ext)
    fix a
    have eq: "a = dest + of_nat k \<longleftrightarrow> unat a = unat dest + k" using ud by (auto simp: word_unat_eq_iff)
    show "copy_byte dest src k (fold (copy_byte dest src) (rev [Suc k..<n]) r) a =
      (if in_region dest n a \<and> unat dest + k \<le> unat a then r (src + (a - dest)) else r a)"
      using us le ud kn eq by (cases "a = dest + of_nat k") (auto simp: IH copy_byte_def in_region_def)
  qed
  finally show ?case .
qed

lemma strlen_from_finds:
  assumes "r (s + of_nat k) = 0" "\<forall>i. len \<le> i \<and> i < k \<longrightarrow> r (s + of_nat i) \<noteq> 0" "len \<le> k"
  shows "strlen_from r s len = Some k"
  using assms
proof (induction "k - len" arbitrary: len)
  case 0
  then show ?case by (subst strlen_from.simps) simp
next
  case (Suc m)
  then have "r (s + of_nat len) \<noteq> 0" "strlen_from r s (len + 1) = Some k" by auto
  then show ?case by (subst strlen_from.simps) simp
qed

lemma strlen_finds:
  "r (s + of_nat k) = 0 \<Longrightarrow> \<forall>i<k. r (s + of_nat i) \<noteq> 0 \<Longrightarrow> strlen s r = Some k"
  unfolding strlen_def by (rule strlen_from_finds) auto

section \<open>Properties\<close>

text \<open>
  \<open>memmove\<close> copies regions correctly however they overlap, \<open>memcpy\<close> when they do not:
  afterwards the destination holds the bytes the source held before, and no other byte has
  changed.
\<close>

theorem memmove_correct:
  assumes "region_in dest n" and "region_in src n"
  shows "memmove dest src n r = copied dest src n r \<and>
    ((\<forall>i<n. \<forall>j<n. dest + of_nat i \<noteq> src + of_nat j) \<longrightarrow> memcpy dest src n r = copied dest src n r)"
proof (intro conjI impI)
  show "memmove dest src n r = copied dest src n r"
  proof (cases "dest < src")
    case True
    then show ?thesis using copy_forward [OF assms, of n r] by (simp add: memmove_def)
  next
    case False
    then show ?thesis using copy_backward [OF assms, of 0 r]
      by (auto simp: memmove_def copied_def in_region_def fun_eq_iff not_less)
  qed
  assume "\<forall>i<n. \<forall>j<n. dest + of_nat i \<noteq> src + of_nat j"
  then show "memcpy dest src n r = copied dest src n r"
    using copy_forward [OF assms, of n r] by (simp add: memcpy_def)
qed

theorem memmove_correct_witness: "memmove 0x101 0x100 4 (\<lambda>a. ucast a) 0x103 = 2"
proof -
  have "memmove 0x101 0x100 4 (\<lambda>a. ucast a) = copied 0x101 0x100 4 (\<lambda>a. ucast a)"
    using memmove_correct [of "0x101" 4 "0x100" "\<lambda>a. ucast a"] by (simp add: region_in_def)
  then show ?thesis by (simp add: copied_def in_region_def)
qed

end
