(* ===== verification/Shims.thy ===== *)
theory Shims
  imports Mem Abi
begin

text \<open>
  The lowest layer of \<^verbatim>\<open>sysutils/src/main.rs\<close>: the memory functions that the compiler calls, as the
  counting loops of the source, and the entry point \<^verbatim>\<open>_start\<close>. The properties: the memory functions agree with
  those of the kernel (theory \<open>Mem\<close>) on every input, and the entry point hands the status to \<open>sys_exit\<close>.
\<close>

section \<open>Memory functions\<close>

function su_copy_up :: "u64 \<Rightarrow> u64 \<Rightarrow> nat \<Rightarrow> nat \<Rightarrow> ram \<Rightarrow> ram" where
  "su_copy_up dst src n i m =
     (if i < n then su_copy_up dst src n (i + 1) (m(dst + of_nat i := m (src + of_nat i))) else m)"
  by pat_completeness auto
termination by (relation "measure (\<lambda>(dst, src, n, i, m). n - i)") auto

declare su_copy_up.simps [simp del]

fun su_copy_down :: "u64 \<Rightarrow> u64 \<Rightarrow> nat \<Rightarrow> ram \<Rightarrow> ram" where
  "su_copy_down dst src 0 m = m"
| "su_copy_down dst src (Suc i) m = su_copy_down dst src i (m(dst + of_nat i := m (src + of_nat i)))"

definition su_memcpy :: "u64 \<Rightarrow> u64 \<Rightarrow> nat \<Rightarrow> ram \<Rightarrow> ram" where
  "su_memcpy dst src n m = su_copy_up dst src n 0 m"

definition su_memmove :: "u64 \<Rightarrow> u64 \<Rightarrow> nat \<Rightarrow> ram \<Rightarrow> ram" where
  "su_memmove dst src n m = (if dst < src then su_copy_up dst src n 0 m else su_copy_down dst src n m)"

function su_fill :: "u64 \<Rightarrow> i32 \<Rightarrow> nat \<Rightarrow> nat \<Rightarrow> ram \<Rightarrow> ram" where
  "su_fill s c n i m = (if i < n then su_fill s c n (i + 1) (m(s + of_nat i := ucast c)) else m)"
  by pat_completeness auto
termination by (relation "measure (\<lambda>(s, c, n, i, m). n - i)") auto

declare su_fill.simps [simp del]

definition su_memset :: "u64 \<Rightarrow> i32 \<Rightarrow> nat \<Rightarrow> ram \<Rightarrow> ram" where
  "su_memset s c n m = su_fill s c n 0 m"

function su_compare :: "u64 \<Rightarrow> u64 \<Rightarrow> nat \<Rightarrow> nat \<Rightarrow> ram \<Rightarrow> i32" where
  "su_compare a b n i m =
     (if i < n then
        let x = m (a + of_nat i); y = m (b + of_nat i) in
        if x \<noteq> y then ucast x - ucast y else su_compare a b n (i + 1) m
      else 0)"
  by pat_completeness auto
termination by (relation "measure (\<lambda>(a, b, n, i, m). n - i)") auto

declare su_compare.simps [simp del]

definition su_memcmp :: "u64 \<Rightarrow> u64 \<Rightarrow> nat \<Rightarrow> ram \<Rightarrow> i32" where
  "su_memcmp a b n m = su_compare a b n 0 m"

section \<open>The entry point\<close>

text \<open>The body, \<^verbatim>\<open>aero_main\<close>, gets the number of arguments and the address of the pointers from the stack; its
  result is what it leaves in \<^verbatim>\<open>rax\<close>.\<close>

definition su_start :: "env \<Rightarrow> (u64 \<Rightarrow> u64 \<Rightarrow> kernel \<Rightarrow> kernel \<times> u64) \<Rightarrow> InterruptContext \<Rightarrow> kernel \<Rightarrow> kernel \<times> outcome" where
  "su_start ev body r k =
     (let argc = rd64 (memory_of k) (i_rsp r); argv = i_rsp r + 8 in
      case body argc argv k of (k1, result) \<Rightarrow>
        (case user_int ev 0x80 (r\<lparr>i_rdi := result, i_rax := 11\<rparr>) k1 of
           (k2, Inl out) \<Rightarrow> (k2, out)
         | (k2, Inr _) \<Rightarrow> raise_exception 13 True k2))"

section \<open>Loops and folds\<close>

text \<open>A counting loop is a fold over the indices that are left.\<close>

lemma upt_step: "i < n \<Longrightarrow> [i..<n] = i # [Suc i..<n]"
  by (rule upt_conv_Cons)

lemma su_copy_up_fold: "su_copy_up dst src n i m = fold (copy_byte dst src) [i..<n] m"
proof (induction dst src n i m rule: su_copy_up.induct)
  case (1 dst src n i m)
  then show ?case by (cases "i < n") (simp_all add: su_copy_up.simps [of dst src n i] upt_step copy_byte_def fun_upd_def)
qed

lemma su_copy_down_fold: "su_copy_down dst src n m = fold (copy_byte dst src) (rev [0..<n]) m"
  by (induction n arbitrary: m) (simp_all add: copy_byte_def)

lemma su_fill_fold: "su_fill s c n i m = fold (\<lambda>i r. r(s + of_nat i := ucast c)) [i..<n] m"
proof (induction s c n i m rule: su_fill.induct)
  case (1 s c n i m)
  then show ?case by (cases "i < n") (simp_all add: su_fill.simps [of s c n i] upt_step fun_upd_def)
qed

lemma su_compare_find:
  "su_compare a b n i m = (case find (\<lambda>i. m (a + of_nat i) \<noteq> m (b + of_nat i)) [i..<n] of
     Some i \<Rightarrow> ucast (m (a + of_nat i)) - ucast (m (b + of_nat i)) | None \<Rightarrow> 0)"
proof (induction a b n i m rule: su_compare.induct)
  case (1 a b n i m)
  then show ?case by (cases "i < n") (simp_all add: su_compare.simps [of a b n i] upt_step Let_def)
qed

section \<open>Properties\<close>

text \<open>
  The memory functions of the user program and of the kernel agree: on every address, length
  and memory, overlapping and wrapping regions included, they leave the same memory and give the same answer.
\<close>

theorem shims_agree:
  "su_memcpy dst src n m = memcpy dst src n m \<and> su_memmove dst src n m = memmove dst src n m \<and>
   su_memset s c n m = memset s c n m \<and> su_memcmp a b n m = memcmp a b n m"
  by (simp add: su_memcpy_def su_memmove_def su_memset_def su_memcmp_def memcpy_def memmove_def memset_def memcmp_def
      su_copy_up_fold su_copy_down_fold su_fill_fold su_compare_find)

lemma su_start_exits:
  "su_start ev body r k =
     (case body (rd64 (memory_of k) (i_rsp r)) (i_rsp r + 8) k of (k1, result) \<Rightarrow> sys_exit (ucast result) k1)"
proof -
  have "\<exists>g. IDT 0x80 = Some g \<and> ring3 g" using user_gate by blast
  moreover have "from_u64 11 = Some Exit" by (simp add: from_u64_def)
  ultimately show ?thesis
    by (auto simp: su_start_def user_int_def syscall_dispatch_def dispatch_syscall_def sys_exit_def Let_def
        split: prod.split option.split)
qed

end
