(* ===== verification/Ata_Ports.thy ===== *)
theory Ata_Ports
  imports Ata
begin

text \<open>
  The disk driver \<^verbatim>\<open>kernel/src/ata.rs\<close> at the level of its port accesses: every status poll, register write and
  data word, with the bound of the waiting loops. Theory \<open>Ata\<close> models the same functions over a drive
  that answers whole commands; here a drive is a state machine behind the ports that may be busy
  for a while after each step. The properties: over such a drive both models agree.
\<close>

section \<open>Ports and registers\<close>

record 'd ata_io =
  ata_in8 :: "u16 \<Rightarrow> 'd \<Rightarrow> 'd \<times> u8"
  ata_in16 :: "u16 \<Rightarrow> 'd \<Rightarrow> 'd \<times> u16"
  ata_out8 :: "u16 \<Rightarrow> u8 \<Rightarrow> 'd \<Rightarrow> 'd"
  ata_out16 :: "u16 \<Rightarrow> u16 \<Rightarrow> 'd \<Rightarrow> 'd"

definition PORT_DATA :: u16 where "PORT_DATA = 0x1F0"
definition PORT_ERR :: u16 where "PORT_ERR = 0x1F1"
definition PORT_SEC_COUNT :: u16 where "PORT_SEC_COUNT = 0x1F2"
definition PORT_LBA_LO :: u16 where "PORT_LBA_LO = 0x1F3"
definition PORT_LBA_MID :: u16 where "PORT_LBA_MID = 0x1F4"
definition PORT_LBA_HI :: u16 where "PORT_LBA_HI = 0x1F5"
definition PORT_DRIVE :: u16 where "PORT_DRIVE = 0x1F6"
definition PORT_STATUS :: u16 where "PORT_STATUS = 0x1F7"

definition STATUS_BSY :: u8 where "STATUS_BSY = 0x80"
definition STATUS_DRQ :: u8 where "STATUS_DRQ = 0x08"
definition STATUS_ERR :: u8 where "STATUS_ERR = 0x01"

definition CMD_READ_SECTORS :: u8 where "CMD_READ_SECTORS = 0x20"
definition CMD_WRITE_SECTORS :: u8 where "CMD_WRITE_SECTORS = 0x30"
definition CMD_IDENTIFY :: u8 where "CMD_IDENTIFY = 0xEC"

section \<open>The driver\<close>

text \<open>The number is how many rounds are left.\<close>

fun poll_not_busy :: "'d ata_io \<Rightarrow> nat \<Rightarrow> 'd \<Rightarrow> 'd \<times> bool" where
  "poll_not_busy io 0 d = (d, False)"
| "poll_not_busy io (Suc n) d =
     (case ata_in8 io PORT_STATUS d of (d1, s) \<Rightarrow>
        if s AND STATUS_BSY = 0 then (d1, True) else poll_not_busy io n d1)"

fun poll_drq :: "'d ata_io \<Rightarrow> nat \<Rightarrow> 'd \<Rightarrow> 'd \<times> bool" where
  "poll_drq io 0 d = (d, False)"
| "poll_drq io (Suc n) d =
     (case ata_in8 io PORT_STATUS d of (d1, s) \<Rightarrow>
        if s AND STATUS_BSY = 0 then
          (if s AND STATUS_DRQ \<noteq> 0 then (d1, True)
           else if s AND STATUS_ERR \<noteq> 0 then (d1, False) else poll_drq io n d1)
        else poll_drq io n d1)"

definition POLL_ROUNDS :: nat where "POLL_ROUNDS = 100000"

definition wait_not_busy :: "'d ata_io \<Rightarrow> 'd \<Rightarrow> 'd \<times> bool" where
  "wait_not_busy io = poll_not_busy io POLL_ROUNDS"

definition wait_drq :: "'d ata_io \<Rightarrow> 'd \<Rightarrow> 'd \<times> bool" where
  "wait_drq io = poll_drq io POLL_ROUNDS"

definition program_registers :: "'d ata_io \<Rightarrow> u64 \<Rightarrow> nat \<Rightarrow> 'd \<Rightarrow> 'd" where
  "program_registers io lba sectors d =
     (case lba_registers lba of (lo, mid, hi, drv) \<Rightarrow>
        ata_out8 io PORT_DRIVE drv (ata_out8 io PORT_LBA_HI hi (ata_out8 io PORT_LBA_MID mid
          (ata_out8 io PORT_LBA_LO lo (ata_out8 io PORT_SEC_COUNT (count_register sectors) d)))))"

fun read_words :: "'d ata_io \<Rightarrow> nat \<Rightarrow> 'd \<Rightarrow> 'd \<times> u16 list" where
  "read_words io 0 d = (d, [])"
| "read_words io (Suc n) d =
     (case ata_in16 io PORT_DATA d of (d1, w) \<Rightarrow> case read_words io n d1 of (d2, ws) \<Rightarrow> (d2, w # ws))"

fun read_sector_loop :: "'d ata_io \<Rightarrow> nat \<Rightarrow> 'd \<Rightarrow> 'd \<times> bytes option" where
  "read_sector_loop io 0 d = (d, Some [])"
| "read_sector_loop io (Suc n) d =
     (case wait_drq io d of
        (d1, False) \<Rightarrow> (d1, None)
      | (d1, True) \<Rightarrow>
          (case read_words io 256 d1 of (d2, ws) \<Rightarrow>
           case read_sector_loop io n d2 of (d3, r) \<Rightarrow> (d3, map_option (\<lambda>b. words_to_bytes ws @ b) r)))"

definition read_command_io :: "'d ata_io \<Rightarrow> u64 \<Rightarrow> nat \<Rightarrow> 'd \<Rightarrow> 'd \<times> bytes option" where
  "read_command_io io lba sectors d =
     (case wait_not_busy io d of
        (d1, False) \<Rightarrow> (d1, None)
      | (d1, True) \<Rightarrow> read_sector_loop io sectors (ata_out8 io PORT_STATUS CMD_READ_SECTORS (program_registers io lba sectors d1)))"

text \<open>The sectors that are still to be written, by their number in the buffer.\<close>

fun write_sector_loop :: "'d ata_io \<Rightarrow> bytes \<Rightarrow> nat list \<Rightarrow> 'd \<Rightarrow> 'd \<times> bool" where
  "write_sector_loop io b [] d = (d, True)"
| "write_sector_loop io b (s # ss) d =
     (case wait_drq io d of
        (d1, False) \<Rightarrow> (d1, False)
      | (d1, True) \<Rightarrow>
          write_sector_loop io b ss (fold (ata_out16 io PORT_DATA) (bytes_to_words (slice (s * 512) (s * 512 + 512) b)) d1))"

definition write_command_io :: "'d ata_io \<Rightarrow> u64 \<Rightarrow> bytes \<Rightarrow> 'd \<Rightarrow> 'd \<times> bool" where
  "write_command_io io lba b d =
     (case wait_not_busy io d of
        (d1, False) \<Rightarrow> (d1, False)
      | (d1, True) \<Rightarrow>
          let sectors = length b div 512 in
          (case write_sector_loop io b [0..<sectors] (ata_out8 io PORT_STATUS CMD_WRITE_SECTORS (program_registers io lba sectors d1)) of
             (d2, False) \<Rightarrow> (d2, False)
           | (d2, True) \<Rightarrow>
               (case wait_not_busy io d2 of
                  (d3, False) \<Rightarrow> (d3, False)
                | (d3, True) \<Rightarrow> (fst (wait_not_busy io (ata_out8 io PORT_STATUS 0xE7 d3)), True))))"

definition detect_io :: "'d ata_io \<Rightarrow> 'd \<Rightarrow> 'd \<times> DiskInfo option" where
  "detect_io io d =
     (case ata_in8 io PORT_STATUS d of (d1, s) \<Rightarrow>
        if s = 0xFF then (d1, None)
        else
          let d2 = fst (wait_not_busy io (ata_out8 io PORT_DRIVE 0xA0 d1)) in
          (case wait_not_busy io (ata_out8 io PORT_STATUS CMD_IDENTIFY d2) of
             (d4, False) \<Rightarrow> (d4, None)
           | (d4, True) \<Rightarrow>
               (case ata_in8 io PORT_ERR d4 of (d5, e) \<Rightarrow>
                  if e \<noteq> 0 then (d5, None)
                  else (case wait_drq io d5 of
                          (d6, False) \<Rightarrow> (d6, None)
                        | (d6, True) \<Rightarrow> (case read_words io 256 d6 of (d7, ident) \<Rightarrow> (d7, detect s True e True ident))))))"

section \<open>A drive behind the ports\<close>

text \<open>Between commands, after an error, or with a number of sectors still to transfer from an
  address on and the words of the current sector.\<close>

datatype phase = Waiting | Fault | Sending u64 nat "u16 list" | Receiving u64 nat "u16 list"

text \<open>\<open>dr_wait\<close> is the number of status reads that still find the drive busy; every step starts it
  again at \<open>dr_lag\<close>.\<close>

record drive =
  dr_disk :: disk
  dr_count :: u8
  dr_lba :: "u8 \<times> u8 \<times> u8 \<times> u8"
  dr_phase :: phase
  dr_wait :: nat
  dr_lag :: nat

definition start_sending :: "u64 \<Rightarrow> nat \<Rightarrow> drive \<Rightarrow> drive" where
  "start_sending l n dr =
     dr\<lparr>dr_wait := dr_lag dr,
        dr_phase := (if n = 0 then Waiting else if faulty (dr_disk dr) l then Fault else Sending l n (drive_words (image (dr_disk dr) l)))\<rparr>"

definition start_receiving :: "u64 \<Rightarrow> nat \<Rightarrow> drive \<Rightarrow> drive" where
  "start_receiving l n dr =
     dr\<lparr>dr_wait := dr_lag dr,
        dr_phase := (if n = 0 then Waiting else if faulty (dr_disk dr) l then Fault else Receiving l n [])\<rparr>"

definition status_byte :: "drive \<Rightarrow> u8" where
  "status_byte dr =
     (if busy (dr_disk dr) \<or> 0 < dr_wait dr then 0x80
      else case dr_phase dr of Waiting \<Rightarrow> 0x40 | Fault \<Rightarrow> 0x41 | Sending _ _ _ \<Rightarrow> 0x48 | Receiving _ _ _ \<Rightarrow> 0x48)"

definition drive_in8 :: "u16 \<Rightarrow> drive \<Rightarrow> drive \<times> u8" where
  "drive_in8 p dr =
     (if p = PORT_STATUS then (dr\<lparr>dr_wait := dr_wait dr - 1\<rparr>, status_byte dr)
      else if p = PORT_ERR then (dr, if dr_phase dr = Fault then 0x10 else 0) else (dr, 0))"

definition drive_in16 :: "u16 \<Rightarrow> drive \<Rightarrow> drive \<times> u16" where
  "drive_in16 p dr =
     (case dr_phase dr of
        Sending l n (w # ws) \<Rightarrow> (if ws = [] then start_sending (l + 1) (n - 1) dr else dr\<lparr>dr_phase := Sending l n ws\<rparr>, w)
      | _ \<Rightarrow> (dr, 0xFFFF))"

definition drive_out8 :: "u16 \<Rightarrow> u8 \<Rightarrow> drive \<Rightarrow> drive" where
  "drive_out8 p v dr =
     (case dr_lba dr of (lo, mid, hi, drv) \<Rightarrow>
        if p = PORT_SEC_COUNT then dr\<lparr>dr_count := v\<rparr>
        else if p = PORT_LBA_LO then dr\<lparr>dr_lba := (v, mid, hi, drv)\<rparr>
        else if p = PORT_LBA_MID then dr\<lparr>dr_lba := (lo, v, hi, drv)\<rparr>
        else if p = PORT_LBA_HI then dr\<lparr>dr_lba := (lo, mid, v, drv)\<rparr>
        else if p = PORT_DRIVE then dr\<lparr>dr_lba := (lo, mid, hi, v)\<rparr>
        else if p = PORT_STATUS then
          (if v = CMD_READ_SECTORS then start_sending (drive_lba (dr_lba dr)) (drive_count (dr_count dr)) dr
           else if v = CMD_WRITE_SECTORS then start_receiving (drive_lba (dr_lba dr)) (drive_count (dr_count dr)) dr
           else dr\<lparr>dr_phase := Waiting, dr_wait := dr_lag dr\<rparr>)
        else dr)"

definition drive_out16 :: "u16 \<Rightarrow> u16 \<Rightarrow> drive \<Rightarrow> drive" where
  "drive_out16 p v dr =
     (case dr_phase dr of
        Receiving l n ws \<Rightarrow>
          if length ws = 255
          then start_receiving (l + 1) (n - 1) (dr\<lparr>dr_disk := (dr_disk dr)\<lparr>image := (image (dr_disk dr))(l := drive_bytes (ws @ [v]))\<rparr>\<rparr>)
          else dr\<lparr>dr_phase := Receiving l n (ws @ [v])\<rparr>
      | _ \<Rightarrow> dr)"

definition drive_io :: "drive ata_io" where
  "drive_io = \<lparr>ata_in8 = drive_in8, ata_in16 = drive_in16, ata_out8 = drive_out8, ata_out16 = drive_out16\<rparr>"

section \<open>The waiting loops over the drive\<close>

definition transferring :: "phase \<Rightarrow> bool" where
  "transferring ph = (case ph of Waiting \<Rightarrow> False | Fault \<Rightarrow> False | Sending _ _ _ \<Rightarrow> True | Receiving _ _ _ \<Rightarrow> True)"

text \<open>A drive that is not stuck and gets ready within the rounds of a waiting loop after every step.\<close>

definition responsive :: "drive \<Rightarrow> bool" where
  "responsive dr \<longleftrightarrow> \<not> busy (dr_disk dr) \<and> dr_wait dr \<le> dr_lag dr \<and> dr_lag dr < POLL_ROUNDS"

lemma drive_ports [simp]:
  "ata_in8 drive_io = drive_in8" "ata_in16 drive_io = drive_in16"
  "ata_out8 drive_io = drive_out8" "ata_out16 drive_io = drive_out16"
  by (simp_all add: drive_io_def)

lemma read_status: "drive_in8 PORT_STATUS dr = (dr\<lparr>dr_wait := dr_wait dr - 1\<rparr>, status_byte dr)"
  by (simp add: drive_in8_def)

lemma poll_not_busy_drive:
  "\<not> busy (dr_disk dr) \<Longrightarrow> dr_wait dr < n \<Longrightarrow> poll_not_busy drive_io n dr = (dr\<lparr>dr_wait := 0\<rparr>, True)"
proof (induction n arbitrary: dr)
  case (Suc n)
  show ?case
  proof (cases "dr_wait dr")
    case 0
    then show ?thesis using Suc.prems(1)
      by (auto simp: read_status status_byte_def STATUS_BSY_def split: phase.split)
  next
    case (Suc k)
    then show ?thesis using Suc.IH [of "dr\<lparr>dr_wait := k\<rparr>"] Suc.prems
      by (simp add: read_status status_byte_def STATUS_BSY_def)
  qed
qed simp

lemma poll_not_busy_stuck:
  "busy (dr_disk dr) \<Longrightarrow> \<exists>w. poll_not_busy drive_io n dr = (dr\<lparr>dr_wait := w\<rparr>, False)"
proof (induction n arbitrary: dr)
  case 0
  then show ?case by (auto intro: exI [of _ "dr_wait dr"])
next
  case (Suc n)
  show ?case using Suc.IH [of "dr\<lparr>dr_wait := dr_wait dr - 1\<rparr>"] Suc.prems
    by (auto simp: read_status status_byte_def STATUS_BSY_def)
qed

lemma poll_drq_drive:
  "\<not> busy (dr_disk dr) \<Longrightarrow> dr_wait dr < n \<Longrightarrow>
   poll_drq drive_io n dr = (dr\<lparr>dr_wait := 0\<rparr>, transferring (dr_phase dr))"
proof (induction n arbitrary: dr)
  case (Suc n)
  note bits = read_status status_byte_def STATUS_BSY_def STATUS_DRQ_def STATUS_ERR_def transferring_def
  show ?case
  proof (cases "dr_wait dr")
    case 0
    show ?thesis
    proof (cases "dr_phase dr = Waiting")
      case True
      then show ?thesis using Suc.IH [of dr] Suc.prems 0
        by (cases n) (simp_all add: bits)
    next
      case False
      then show ?thesis using 0 Suc.prems(1)
        by (auto simp: bits split: phase.split)
    qed
  next
    case (Suc k)
    then show ?thesis using Suc.IH [of "dr\<lparr>dr_wait := k\<rparr>"] Suc.prems
      by (simp add: bits)
  qed
qed simp

lemma wait_drive:
  assumes "responsive dr"
  shows "wait_not_busy drive_io dr = (dr\<lparr>dr_wait := 0\<rparr>, True)"
    and "wait_drq drive_io dr = (dr\<lparr>dr_wait := 0\<rparr>, transferring (dr_phase dr))"
  using assms poll_not_busy_drive [of dr POLL_ROUNDS] poll_drq_drive [of dr POLL_ROUNDS]
  by (simp_all add: wait_not_busy_def wait_drq_def responsive_def)

section \<open>Transfers\<close>

lemma started_fields [simp]:
  "dr_disk (start_sending l n dr) = dr_disk dr" "dr_disk (start_receiving l n dr) = dr_disk dr"
  "dr_wait (start_sending l n dr) = dr_lag dr" "dr_wait (start_receiving l n dr) = dr_lag dr"
  "dr_lag (start_sending l n dr) = dr_lag dr" "dr_lag (start_receiving l n dr) = dr_lag dr"
  by (simp_all add: start_sending_def start_receiving_def)

lemma started_responsive:
  "responsive dr \<Longrightarrow> responsive (start_sending l n dr)" "responsive dr \<Longrightarrow> responsive (start_receiving l n dr)"
  by (simp_all add: responsive_def)

lemma settled_responsive: "responsive dr \<Longrightarrow> responsive (dr\<lparr>dr_wait := 0\<rparr>)"
  by (simp add: responsive_def)

lemma started_transferring:
  "transferring (dr_phase (start_sending l n dr)) \<longleftrightarrow> n \<noteq> 0 \<and> \<not> faulty (dr_disk dr) l"
  "transferring (dr_phase (start_receiving l n dr)) \<longleftrightarrow> n \<noteq> 0 \<and> \<not> faulty (dr_disk dr) l"
  by (simp_all add: start_sending_def start_receiving_def transferring_def)

lemma restart:
  "start_sending l n (dr\<lparr>dr_phase := ph, dr_wait := w\<rparr>) = start_sending l n dr"
  "start_sending l n (dr\<lparr>dr_phase := ph\<rparr>) = start_sending l n dr"
  "start_receiving l n (dr\<lparr>dr_phase := ph\<rparr>) = start_receiving l n dr"
  "start_sending l n (dr\<lparr>dr_wait := w\<rparr>) = start_sending l n dr"
  "start_receiving l n (dr\<lparr>dr_wait := w\<rparr>) = start_receiving l n dr"
  by (simp_all add: start_sending_def start_receiving_def)

lemma restarted: "start_sending l n (start_sending l' n' dr) = start_sending l n dr"
  by (simp add: start_sending_def)

lemma read_words_drive:
  "dr_phase dr = Sending l n ws \<Longrightarrow> ws \<noteq> [] \<Longrightarrow>
   read_words drive_io (length ws) dr = (start_sending (l + 1) (n - 1) dr, ws)"
proof (induction ws arbitrary: dr)
  case (Cons w ws)
  show ?case
  proof (cases "ws = []")
    case True
    then show ?thesis using Cons.prems by (simp add: drive_in16_def)
  next
    case False
    then show ?thesis using Cons.prems Cons.IH [of "dr\<lparr>dr_phase := Sending l n ws\<rparr>"]
      by (simp add: drive_in16_def restart)
  qed
qed simp

lemma drive_words_length: "length (drive_words s) = 256"
  by (simp add: drive_words_def)

text \<open>One sector: the wait succeeds when the drive has data, and the 256 words take it to the next sector.\<close>

lemma read_one_sector:
  assumes "responsive dr"
  shows "read_sector_loop drive_io (Suc n) (start_sending l c dr) =
    (if c = 0 \<or> faulty (dr_disk dr) l then ((start_sending l c dr)\<lparr>dr_wait := 0\<rparr>, None)
     else case read_sector_loop drive_io n (start_sending (l + 1) (c - 1) dr) of
       (d, r) \<Rightarrow> (d, map_option (\<lambda>b. words_to_bytes (drive_words (image (dr_disk dr) l)) @ b) r))"
proof (cases "c = 0 \<or> faulty (dr_disk dr) l")
  case True
  then show ?thesis
    by (auto simp: wait_drive started_responsive assms started_transferring)
next
  case False
  define dr' where "dr' = (start_sending l c dr)\<lparr>dr_wait := 0\<rparr>"
  have ph: "dr_phase dr' = Sending l c (drive_words (image (dr_disk dr) l))"
    using False by (simp add: dr'_def start_sending_def)
  have ws: "drive_words (image (dr_disk dr) l) \<noteq> []"
    using drive_words_length [of "image (dr_disk dr) l"] by (metis list.size(3) zero_neq_numeral)
  have "read_words drive_io 256 dr' =
      (start_sending (l + 1) (c - 1) dr, drive_words (image (dr_disk dr) l))"
    using read_words_drive [OF ph ws] unfolding drive_words_length by (simp add: dr'_def restart restarted)
  moreover have "wait_drq drive_io (start_sending l c dr) = (dr', True)"
    using False by (simp add: wait_drive started_responsive assms started_transferring dr'_def)
  ultimately show ?thesis using False by (auto split: prod.split)
qed

lemma head_sector:
  "(\<exists>s \<in> set [0..<Suc n]. c \<le> s \<or> f (l + of_nat s)) \<longleftrightarrow>
   c = 0 \<or> f (l :: u64) \<or> (\<exists>s \<in> set [0..<n]. c - 1 \<le> s \<or> f (l + 1 + of_nat s))"
proof -
  have b: "(\<exists>s \<in> set [0..<m]. P s) \<longleftrightarrow> (\<exists>s<m. P s)" for m :: nat and P by auto
  show ?thesis
    unfolding b Ex_less_Suc2 by (auto simp: add.assoc le_diff_conv)
qed

lemma read_sectors_drive:
  "responsive dr \<Longrightarrow> (case read_sector_loop drive_io n (start_sending l c dr) of (dr', r) \<Rightarrow>
     dr_disk dr' = dr_disk dr \<and>
     r = (if \<exists>s \<in> set [0..<n]. c \<le> s \<or> faulty (dr_disk dr) (l + of_nat s) then None
          else Some (concat (map (\<lambda>s. words_to_bytes (drive_words (image (dr_disk dr) (l + of_nat s)))) [0..<n]))))"
proof (induction n arbitrary: l c)
  case (Suc n)
  show ?case
    unfolding read_one_sector [OF Suc.prems] head_sector
    using Suc.IH [OF Suc.prems, where l = "l + 1" and c = "c - 1"]
    unfolding upt_conv_Cons [OF zero_less_Suc] map_Suc_upt [symmetric]
    by (auto simp: comp_def add.assoc split: prod.splits)
qed simp

abbreviation store_sector :: "u64 \<Rightarrow> bytes \<Rightarrow> drive \<Rightarrow> drive" where
  "store_sector l s dr \<equiv> dr\<lparr>dr_disk := (dr_disk dr)\<lparr>image := (image (dr_disk dr))(l := s)\<rparr>\<rparr>"

lemma write_words_drive:
  "dr_phase dr = Receiving l n acc \<Longrightarrow> ws \<noteq> [] \<Longrightarrow> length acc + length ws = 256 \<Longrightarrow>
   fold (drive_out16 PORT_DATA) ws dr = start_receiving (l + 1) (n - 1) (store_sector l (drive_bytes (acc @ ws)) dr)"
proof (induction ws arbitrary: dr acc)
  case (Cons w ws)
  show ?case
  proof (cases "ws = []")
    case True
    then show ?thesis using Cons.prems by (simp add: drive_out16_def fun_upd_def)
  next
    case False
    then show ?thesis using Cons.prems Cons.IH [of "dr\<lparr>dr_phase := Receiving l n (acc @ [w])\<rparr>" "acc @ [w]"]
      by (cases ws) (simp_all add: drive_out16_def start_receiving_def)
  qed
qed simp

lemma bytes_to_words_length: "length (bytes_to_words s) = 256"
  by (simp add: bytes_to_words_def)

lemma restored: "start_receiving l n (store_sector k s ((start_receiving l' n' dr)\<lparr>dr_wait := w\<rparr>)) =
    start_receiving l n (store_sector k s dr)"
  by (simp add: start_receiving_def)

lemma store_responsive: "responsive dr \<Longrightarrow> responsive (store_sector l s dr)"
  by (simp add: responsive_def)

lemma write_one_sector:
  assumes "responsive dr"
  shows "write_sector_loop drive_io b (s # ss) (start_receiving l c dr) =
    (if c = 0 \<or> faulty (dr_disk dr) l then ((start_receiving l c dr)\<lparr>dr_wait := 0\<rparr>, False)
     else write_sector_loop drive_io b ss (start_receiving (l + 1) (c - 1)
       (store_sector l (drive_bytes (bytes_to_words (slice (s * 512) (s * 512 + 512) b))) dr)))"
proof (cases "c = 0 \<or> faulty (dr_disk dr) l")
  case True
  then show ?thesis
    by (auto simp: wait_drive started_responsive assms started_transferring)
next
  case False
  define dr' where "dr' = (start_receiving l c dr)\<lparr>dr_wait := 0\<rparr>"
  define ws where "ws = bytes_to_words (slice (s * 512) (s * 512 + 512) b)"
  have ph: "dr_phase dr' = Receiving l c []"
    using False by (simp add: dr'_def start_receiving_def)
  have ws: "ws \<noteq> []" "length [] + length ws = 256"
    using bytes_to_words_length [of "slice (s * 512) (s * 512 + 512) b"] by (auto simp: ws_def)
  have "fold (drive_out16 PORT_DATA) ws dr' =
      start_receiving (l + 1) (c - 1) (store_sector l (drive_bytes ws) dr)"
    using write_words_drive [OF ph ws] unfolding dr'_def restored by simp
  moreover have "wait_drq drive_io (start_receiving l c dr) = (dr', True)"
    using False by (simp add: wait_drive started_responsive assms started_transferring dr'_def)
  ultimately show ?thesis using False by (simp add: ws_def)
qed

lemma write_sectors_drive:
  "responsive dr \<Longrightarrow> (case write_sector_loop drive_io b [m..<m + n] (start_receiving (l + of_nat m) (c - m) dr) of
     (dr', ok) \<Rightarrow> (dr_disk dr', ok) = write_loop l c [m..<m + n] b (dr_disk dr) \<and> responsive dr')"
proof (induction n arbitrary: m dr)
  case 0
  then show ?case by (simp add: started_responsive)
next
  case (Suc n)
  have u: "[m..<m + Suc n] = m # [Suc m..<Suc m + n]" by (simp add: upt_conv_Cons)
  have n: "l + of_nat m + 1 = l + of_nat (Suc m)" "c - m - 1 = c - Suc m" by simp_all
  let ?d = "store_sector (l + of_nat m) (drive_bytes (bytes_to_words (slice (m * 512) (m * 512 + 512) b))) dr"
  show ?case
    unfolding u write_one_sector [OF Suc.prems] n
    using Suc.IH [OF store_responsive [OF Suc.prems], of "Suc m" "l + of_nat m"
        "drive_bytes (bytes_to_words (slice (m * 512) (m * 512 + 512) b))"] Suc.prems
    by (auto simp: settled_responsive started_responsive split: prod.splits)
qed

section \<open>The registers\<close>

lemma program_registers_drive:
  "program_registers drive_io lba n dr = dr\<lparr>dr_count := count_register n, dr_lba := lba_registers lba\<rparr>"
  by (simp add: program_registers_def drive_out8_def PORT_DRIVE_def PORT_LBA_HI_def PORT_LBA_MID_def PORT_LBA_LO_def
      PORT_SEC_COUNT_def split: prod.split)

lemma command_drive:
  "drive_out8 PORT_STATUS CMD_READ_SECTORS (dr\<lparr>dr_count := count_register n, dr_lba := a\<rparr>) =
   start_sending (drive_lba a) (drive_count (count_register n)) (dr\<lparr>dr_count := count_register n, dr_lba := a\<rparr>)"
  "drive_out8 PORT_STATUS CMD_WRITE_SECTORS (dr\<lparr>dr_count := count_register n, dr_lba := a\<rparr>) =
   start_receiving (drive_lba a) (drive_count (count_register n)) (dr\<lparr>dr_count := count_register n, dr_lba := a\<rparr>)"
  "dr_disk (drive_out8 PORT_STATUS 0xE7 dr) = dr_disk dr"
  by (simp_all add: drive_out8_def PORT_DRIVE_def PORT_LBA_HI_def PORT_LBA_MID_def PORT_LBA_LO_def
      PORT_SEC_COUNT_def PORT_STATUS_def CMD_READ_SECTORS_def CMD_WRITE_SECTORS_def split: prod.split)

text \<open>A drive that is stuck busy fails every command after the rounds of the first wait, unchanged.\<close>

lemma stuck_drive:
  assumes "busy (dr_disk dr)"
  shows "dr_disk (fst (wait_not_busy drive_io dr)) = dr_disk dr" "\<not> snd (wait_not_busy drive_io dr)"
  using poll_not_busy_stuck [OF assms, of POLL_ROUNDS] by (auto simp: wait_not_busy_def)

section \<open>The properties\<close>

lemma read_ports_agree:
  assumes "dr_wait dr \<le> dr_lag dr" "dr_lag dr < POLL_ROUNDS"
  shows "case read_command_io drive_io lba n dr of (dr', r) \<Rightarrow>
      dr_disk dr' = dr_disk dr \<and> r = read_command lba n (dr_disk dr)"
proof (cases "busy (dr_disk dr)")
  case True
  then show ?thesis using stuck_drive [OF True]
    by (auto simp: read_command_io_def read_command_def split: prod.split bool.split)
next
  case False
  then have r: "responsive dr" using assms by (simp add: responsive_def)
  have r': "responsive (dr\<lparr>dr_wait := 0, dr_count := count_register n, dr_lba := lba_registers lba\<rparr>)"
    using r by (simp add: responsive_def)
  show ?thesis
    using read_sectors_drive [OF r', where n = n and l = "drive_lba (lba_registers lba)" and c = "drive_count (count_register n)"] False
    by (simp add: read_command_io_def read_command_def Let_def wait_drive [OF r] program_registers_drive command_drive
        split: prod.splits)
qed

lemma write_ports_agree:
  assumes "dr_wait dr \<le> dr_lag dr" "dr_lag dr < POLL_ROUNDS"
  shows "case write_command_io drive_io lba b dr of (dr', ok) \<Rightarrow> (dr_disk dr', ok) = write_command lba b (dr_disk dr)"
proof (cases "busy (dr_disk dr)")
  case True
  then show ?thesis using stuck_drive [OF True]
    by (auto simp: write_command_io_def write_command_def split: prod.split bool.split)
next
  case False
  then have r: "responsive dr" using assms by (simp add: responsive_def)
  define n where "n = length b div 512"
  define dr0 where "dr0 = dr\<lparr>dr_wait := 0, dr_count := count_register n, dr_lba := lba_registers lba\<rparr>"
  have r': "responsive dr0" using r by (simp add: responsive_def dr0_def)
  define l where "l = drive_lba (lba_registers lba)"
  define c where "c = drive_count (count_register n)"
  obtain d2 ok where w: "write_sector_loop drive_io b [0..<n] (start_receiving l c dr0) = (d2, ok)" by fastforce
  have d2: "(dr_disk d2, ok) = write_loop l c [0..<n] b (dr_disk dr)" "responsive d2"
    using write_sectors_drive [OF r', where b = b and m = 0 and n = n and l = l and c = c] w by (simp_all add: dr0_def)
  have s: "drive_out8 PORT_STATUS CMD_WRITE_SECTORS (program_registers drive_io lba n (dr\<lparr>dr_wait := 0\<rparr>)) =
      start_receiving l c dr0"
    by (simp add: program_registers_drive command_drive l_def c_def dr0_def)
  have flush: "dr_disk (fst (wait_not_busy drive_io (drive_out8 PORT_STATUS 0xE7 (d2\<lparr>dr_wait := 0\<rparr>)))) = dr_disk d2"
  proof -
    have "responsive (drive_out8 PORT_STATUS 0xE7 (d2\<lparr>dr_wait := 0\<rparr>))"
      using d2(2) by (auto simp: responsive_def drive_out8_def split: prod.split)
    then show ?thesis by (simp add: wait_drive command_drive)
  qed
  have io: "write_command_io drive_io lba b dr =
      (case write_sector_loop drive_io b [0..<n] (start_receiving l c dr0) of
         (d2, False) \<Rightarrow> (d2, False)
       | (d2, True) \<Rightarrow>
           (case wait_not_busy drive_io d2 of
              (d3, False) \<Rightarrow> (d3, False)
            | (d3, True) \<Rightarrow> (fst (wait_not_busy drive_io (drive_out8 PORT_STATUS 0xE7 d3)), True)))"
    unfolding write_command_io_def wait_drive(1) [OF r] Let_def n_def [symmetric]
    by (simp add: s)
  have "write_command lba b (dr_disk dr) = write_loop l c [0..<n] b (dr_disk dr)"
    using False by (simp add: write_command_def Let_def n_def l_def c_def)
  then show ?thesis
    unfolding io w using d2 flush by (cases ok) (simp_all add: wait_drive(1) [OF d2(2)])
qed

text \<open>C25. Over a drive that gets ready within the rounds of the waiting loops after every command and
  sector, or is stuck busy for ever, the port by port driver reads what the driver of whole commands
  reads, and writes the same sectors with the same outcome: for every address, every number of sectors
  and every set of sectors the drive reports an error for.\<close>

theorem ata_ports_refine:
  assumes "dr_wait dr \<le> dr_lag dr" "dr_lag dr < POLL_ROUNDS"
  shows "(case read_command_io drive_io lba n dr of (dr', r) \<Rightarrow>
      dr_disk dr' = dr_disk dr \<and> r = read_command lba n (dr_disk dr)) \<and>
    (case write_command_io drive_io lba b dr of (dr', ok) \<Rightarrow> (dr_disk dr', ok) = write_command lba b (dr_disk dr))"
  using read_ports_agree [OF assms] write_ports_agree [OF assms] by simp

theorem ata_ports_refine_witness:
  "let dr = \<lparr>dr_disk = \<lparr>disk_present = True, busy = False, image = (\<lambda>l. replicate 512 (ucast l)), faulty = (\<lambda>l. l = 9),
       total_sectors = 64\<rparr>, dr_count = 0, dr_lba = (0, 0, 0, 0), dr_phase = Waiting, dr_wait = 3, dr_lag = 20\<rparr> in
   snd (read_command_io drive_io 4 2 dr) = read_command 4 2 (dr_disk dr) \<and>
   snd (read_command_io drive_io 4 2 dr) \<noteq> None \<and> snd (read_command_io drive_io 8 2 dr) = None"
proof -
  define dr where "dr = \<lparr>dr_disk = \<lparr>disk_present = True, busy = False, image = (\<lambda>l. replicate 512 (ucast l)), faulty = (\<lambda>l. l = 9),
       total_sectors = 64\<rparr>, dr_count = 0, dr_lba = (0, 0, 0, 0), dr_phase = Waiting, dr_wait = 3, dr_lag = 20\<rparr>"
  have l: "drive_lba (lba_registers 4) = 4" "drive_lba (lba_registers 8) = 8"
    by (simp_all add: drive_lba_registers)
  have two: "[0..<2] = [0, 1]" by code_simp
  have "dr_wait dr \<le> dr_lag dr" "dr_lag dr < POLL_ROUNDS" by (simp_all add: dr_def POLL_ROUNDS_def)
  note r = ata_ports_refine [OF this, of 4 2 "[]"] ata_ports_refine [OF this, of 8 2 "[]"]
  have "read_command 4 2 (dr_disk dr) \<noteq> None" "read_command 8 2 (dr_disk dr) = None"
    by (simp_all add: read_command_def l drive_count_register two dr_def)
  then show ?thesis using r by (auto simp: Let_def dr_def [symmetric] split: prod.splits)
qed

end
