(* ===== verification/Adapter.thy ===== *)
theory Adapter
  imports Raster
begin

text \<open>
  The adaptation layer for the Flutter engine (\<^verbatim>\<open>flutter_adapter/src\<close>): the canvas over the mapped
  framebuffer (\<^verbatim>\<open>framebuffer.rs\<close>), keyboard events (\<^verbatim>\<open>input.rs\<close>), the stubs of the system calls and of
  the engine (\<^verbatim>\<open>syscalls.rs\<close>, \<^verbatim>\<open>embedder.rs\<close>) and the start-up (\<^verbatim>\<open>lib.rs\<close>). The system calls that the
  polling uses are parameters; the pointer position, a floating-point number that only changes by
  steps of 5 and is therefore exact, is an integer.
\<close>

section \<open>The canvas\<close>

record AdColor =
  ad_r :: u8
  ad_g :: u8
  ad_b :: u8

datatype AdFormat = AdRgb | AdBgr | AdUnknown

record FramebufferCanvas =
  fc_buffer :: u64
  fc_len :: u64
  fc_width :: u32
  fc_height :: u32
  fc_stride :: u32
  fc_bpp :: u32
  fc_format :: AdFormat

definition color_bytes :: "AdFormat \<Rightarrow> AdColor \<Rightarrow> bytes" where
  "color_bytes f col = (case f of
     AdRgb \<Rightarrow> [ad_r col, ad_g col, ad_b col]
   | AdBgr \<Rightarrow> [ad_b col, ad_g col, ad_r col]
   | AdUnknown \<Rightarrow> [ad_r col, ad_g col, ad_b col])"

text \<open>The offset is computed with 32 bits.\<close>

definition fc_put_pixel :: "FramebufferCanvas \<Rightarrow> u32 \<Rightarrow> u32 \<Rightarrow> AdColor \<Rightarrow> (u64 \<Rightarrow> u8) \<Rightarrow> (u64 \<Rightarrow> u8)" where
  "fc_put_pixel c x y col m =
     (if fc_width c \<le> x \<or> fc_height c \<le> y then m
      else let offset = ucast ((y * fc_stride c + x) * fc_bpp c) :: u64 in
        if fc_len c < offset + ucast (fc_bpp c) then m
        else poke (fc_buffer c + offset) (color_bytes (fc_format c) col) m)"

definition fc_fill_rect :: "FramebufferCanvas \<Rightarrow> u32 \<Rightarrow> u32 \<Rightarrow> u32 \<Rightarrow> u32 \<Rightarrow> AdColor \<Rightarrow> (u64 \<Rightarrow> u8) \<Rightarrow> (u64 \<Rightarrow> u8)" where
  "fc_fill_rect c x y w h col m =
     fold (\<lambda>j m. fold (\<lambda>i m. fc_put_pixel c (x + of_nat i) (y + of_nat j) col m) [0..<unat w] m) [0..<unat h] m"

definition fc_clear :: "FramebufferCanvas \<Rightarrow> AdColor \<Rightarrow> (u64 \<Rightarrow> u8) \<Rightarrow> (u64 \<Rightarrow> u8)" where
  "fc_clear c col m = fc_fill_rect c 0 0 (fc_width c) (fc_height c) col m"

text \<open>Copying an image. A row ends at the right border; the whole copy ends when the source is
  used up (\<open>True\<close>). Reading the third byte of a pixel panics when a pixel has fewer.\<close>

fun fc_blit_row :: "FramebufferCanvas \<Rightarrow> bytes \<Rightarrow> u32 \<Rightarrow> u32 \<Rightarrow> u32 \<Rightarrow> u32 \<Rightarrow> nat list \<Rightarrow> (u64 \<Rightarrow> u8) \<Rightarrow> ((u64 \<Rightarrow> u8) \<times> bool) result" where
  "fc_blit_row c src sw dest_x fb_y y [] m = Inr (m, False)"
| "fc_blit_row c src sw dest_x fb_y y (x # xs) m =
     (let fb_x = dest_x + of_nat x in
      if fc_width c \<le> fb_x then Inr (m, False)
      else let off = ucast ((y * sw + of_nat x) * fc_bpp c) :: u64 in
        if of_nat (length src) < off + ucast (fc_bpp c) then Inr (m, True)
        else if length src < unat off + 3 then Inl ''index out of bounds''
        else fc_blit_row c src sw dest_x fb_y y xs
          (fc_put_pixel c fb_x fb_y \<lparr>ad_r = src ! unat off, ad_g = src ! (unat off + 1), ad_b = src ! (unat off + 2)\<rparr> m))"

fun fc_blit_rows :: "FramebufferCanvas \<Rightarrow> bytes \<Rightarrow> u32 \<Rightarrow> u32 \<Rightarrow> u32 \<Rightarrow> nat list \<Rightarrow> (u64 \<Rightarrow> u8) \<Rightarrow> (u64 \<Rightarrow> u8) result" where
  "fc_blit_rows c src sw dest_x dest_y [] m = Inr m"
| "fc_blit_rows c src sw dest_x dest_y (y # ys) m =
     (let fb_y = dest_y + of_nat y in
      if fc_height c \<le> fb_y then Inr m
      else case fc_blit_row c src sw dest_x fb_y (of_nat y) [0..<unat sw] m of
        Inl e \<Rightarrow> Inl e
      | Inr (m', done) \<Rightarrow> if done then Inr m' else fc_blit_rows c src sw dest_x dest_y ys m')"

definition fc_blit :: "FramebufferCanvas \<Rightarrow> bytes \<Rightarrow> u32 \<Rightarrow> u32 \<Rightarrow> u32 \<Rightarrow> u32 \<Rightarrow> (u64 \<Rightarrow> u8) \<Rightarrow> (u64 \<Rightarrow> u8) result" where
  "fc_blit c src sw sh dest_x dest_y m = fc_blit_rows c src sw dest_x dest_y [0..<unat sh] m"

section \<open>Keyboard events\<close>

datatype PointerPhase = PhCancel | PhAdd | PhHover | PhDown | PhUp | PhRemove
datatype KeyPhase = KeyDown | KeyUp | KeyRepeat

datatype AdEvent =
    Pointer PointerPhase int int u64
  | Key KeyPhase u32 u32 u64

definition MAX_EVENTS :: nat where "MAX_EVENTS = 32"

text \<open>The list of events: the used part of the array.\<close>

definition el_push :: "AdEvent \<Rightarrow> AdEvent list \<Rightarrow> AdEvent list" where
  "el_push e es = (if length es < MAX_EVENTS then es @ [e] else es)"

record InputAdapter =
  cursor_x :: int
  cursor_y :: int
  scancode_buf :: bytes

definition adapter_new :: InputAdapter where
  "adapter_new = \<lparr>cursor_x = 0, cursor_y = 0, scancode_buf = replicate 64 0\<rparr>"

definition scancode_to_char :: "u8 \<Rightarrow> u32 option" where
  "scancode_to_char sc = map_of
     [(0x02, 49), (0x03, 50), (0x04, 51), (0x05, 52), (0x06, 53), (0x07, 54), (0x08, 55), (0x09, 56), 
      (0x0a, 57), (0x0b, 48), (0x0c, 45), (0x0d, 61), (0x10, 113), (0x11, 119), (0x12, 101), (0x13, 114), 
      (0x14, 116), (0x15, 121), (0x16, 117), (0x17, 105), (0x18, 111), (0x19, 112), (0x1a, 91), (0x1b, 93), 
      (0x1e, 97), (0x1f, 115), (0x20, 100), (0x21, 102), (0x22, 103), (0x23, 104), (0x24, 106), (0x25, 107), 
      (0x26, 108), (0x27, 59), (0x28, 39), (0x29, 96), (0x2b, 92), (0x2c, 122), (0x2d, 120), (0x2e, 99), 
      (0x2f, 118), (0x30, 98), (0x31, 110), (0x32, 109), (0x33, 44), (0x34, 46), (0x35, 47), (0x39, 32), 
      (0x1c, 10)] sc"

text \<open>The result of the clock call: the return value, seconds and nanoseconds.\<close>

definition get_timestamp :: "i64 \<times> i64 \<times> i64 \<Rightarrow> u64" where
  "get_timestamp = (\<lambda>(ret, sec, nsec). if ret <s 0 then 0 else sec * 1000000 + nsec div 1000)"

definition pointer_event :: "u8 \<Rightarrow> u64 \<Rightarrow> InputAdapter \<Rightarrow> InputAdapter \<times> AdEvent option" where
  "pointer_event scancode ts a =
     (if scancode = 0x4b then let a = a\<lparr>cursor_x := max (cursor_x a - 5) 0\<rparr> in (a, Some (Pointer PhHover (cursor_x a) (cursor_y a) ts))
      else if scancode = 0x4d then let a = a\<lparr>cursor_x := cursor_x a + 5\<rparr> in (a, Some (Pointer PhHover (cursor_x a) (cursor_y a) ts))
      else if scancode = 0x48 then let a = a\<lparr>cursor_y := max (cursor_y a - 5) 0\<rparr> in (a, Some (Pointer PhHover (cursor_x a) (cursor_y a) ts))
      else if scancode = 0x50 then let a = a\<lparr>cursor_y := cursor_y a + 5\<rparr> in (a, Some (Pointer PhHover (cursor_x a) (cursor_y a) ts))
      else if scancode = 0x1c then (a, Some (Pointer PhDown (cursor_x a) (cursor_y a) ts))
      else (a, None))"

definition poll_code :: "u64 \<Rightarrow> u8 \<Rightarrow> InputAdapter \<times> AdEvent list \<Rightarrow> InputAdapter \<times> AdEvent list" where
  "poll_code ts sc = (\<lambda>(a, es).
     let is_release = (sc AND 0x80 \<noteq> 0); scancode = sc AND 0x7f in
     if sc = 0xe0 \<or> sc = 0xe1 then (a, es)
     else let keychar = (case scancode_to_char scancode of Some c \<Rightarrow> c | None \<Rightarrow> 0);
              es1 = el_push (Key (if is_release then KeyUp else KeyDown) (ucast scancode) keychar ts) es
          in if is_release then (a, es1)
             else case pointer_event scancode ts a of (a', None) \<Rightarrow> (a', es1) | (a', Some e) \<Rightarrow> (a', el_push e es1))"

text \<open>\<open>rd\<close> is the read call on the buffer of 64 bytes, \<open>clk i\<close> the clock at the \<open>i\<close>-th code. More codes
  than the buffer holds make the loop panic.\<close>

definition poll :: "(bytes \<Rightarrow> bytes \<times> i64) \<Rightarrow> (nat \<Rightarrow> i64 \<times> i64 \<times> i64) \<Rightarrow> InputAdapter \<Rightarrow> (InputAdapter \<times> AdEvent list) result" where
  "poll rd clk a =
     (case rd (scancode_buf a) of (bs, n) \<Rightarrow>
        let a1 = a\<lparr>scancode_buf := bs\<rparr> in
        if n \<le>s 0 then Inr (a1, [])
        else if length bs < unat n then Inl ''index out of bounds''
        else Inr (fold (\<lambda>i. poll_code (get_timestamp (clk i)) (bs ! i)) [0..<unat n] (a1, [])))"

section \<open>Start-up\<close>

text \<open>The stubs of the system calls and of the engine.\<close>

definition AD_ENOSYS :: i64 where "AD_ENOSYS = - 38"

record AdFbInfo =
  ai_address :: u64
  ai_width :: u32
  ai_height :: u32
  ai_stride :: u32
  ai_bpp :: u32
  ai_format :: u32

definition ad_clock_gettime :: "u64 \<Rightarrow> i64 \<times> i64 \<times> i64" where "ad_clock_gettime clk = (AD_ENOSYS, 0, 0)"
definition ad_read :: "bytes \<Rightarrow> bytes \<times> i64" where "ad_read bs = (bs, AD_ENOSYS)"
definition ad_mmap :: "u64 \<Rightarrow> u64 \<Rightarrow> u32 \<Rightarrow> i64" where "ad_mmap addr len prot = AD_ENOSYS"
definition ad_get_framebuffer_info :: "AdFbInfo \<Rightarrow> AdFbInfo \<times> i64" where "ad_get_framebuffer_info i = (i, AD_ENOSYS)"

definition syscalls_init :: "(u64 \<Rightarrow> i64 \<times> i64 \<times> i64) \<Rightarrow> i32 + unit" where
  "syscalls_init clk = (case clk 1 of (ret, _, _) \<Rightarrow> if ret <s 0 then Inl (ucast ret) else Inr ())"

definition framebuffer_init :: "(u64 \<Rightarrow> u64 \<Rightarrow> u32 \<Rightarrow> i64) \<Rightarrow> bool \<Rightarrow> i32 + FramebufferCanvas" where
  "framebuffer_init mm skeleton =
     (case ad_get_framebuffer_info \<lparr>ai_address = 0, ai_width = 0, ai_height = 0, ai_stride = 0, ai_bpp = 0, ai_format = 0\<rparr> of (info, ret) \<Rightarrow>
        if ret <s 0 \<and> \<not> skeleton then Inl (ucast ret)
        else let info = (if ret <s 0 then \<lparr>ai_address = 0xFD000000, ai_width = 1280, ai_height = 720, ai_stride = 1280, ai_bpp = 4, ai_format = 1\<rparr> else info);
                 fb_len = ucast (ai_stride info * ai_height info * ai_bpp info) :: u64;
                 p = mm (ai_address info) fb_len 7
             in if p <s 0 then Inl (ucast p)
                else Inr \<lparr>fc_buffer = p, fc_len = fb_len, fc_width = ai_width info, fc_height = ai_height info, fc_stride = ai_stride info,
                       fc_bpp = ai_bpp info, fc_format = (if ai_format info = 0 then AdRgb else if ai_format info = 1 then AdBgr else AdUnknown)\<rparr>)"

definition input_init :: "(bytes \<Rightarrow> bytes \<times> i64) \<Rightarrow> i32 + unit" where
  "input_init rd = (case rd [0] of (_, ret) \<Rightarrow> if ret <s 0 \<and> ret \<noteq> AD_ENOSYS then Inl (ucast ret) else Inr ())"

definition embedder_init :: "i32 + unit" where "embedder_init = Inl (ucast AD_ENOSYS)"

definition adapter_init ::
  "(u64 \<Rightarrow> i64 \<times> i64 \<times> i64) \<Rightarrow> (u64 \<Rightarrow> u64 \<Rightarrow> u32 \<Rightarrow> i64) \<Rightarrow> (bytes \<Rightarrow> bytes \<times> i64) \<Rightarrow> bool \<Rightarrow> FramebufferCanvas option \<times> (i32 + unit)" where
  "adapter_init clk mm rd skeleton =
     (case syscalls_init clk of Inl e \<Rightarrow> (None, Inl e)
      | Inr _ \<Rightarrow> case framebuffer_init mm skeleton of Inl e \<Rightarrow> (None, Inl e)
      | Inr c \<Rightarrow> case input_init rd of Inl e \<Rightarrow> (Some c, Inl e)
      | Inr _ \<Rightarrow> (Some c, embedder_init))"

section \<open>Memory safety of drawing\<close>

definition inside_mapping :: "FramebufferCanvas \<Rightarrow> (u64 \<Rightarrow> u8) \<Rightarrow> (u64 \<Rightarrow> u8) \<Rightarrow> bool" where
  "inside_mapping c m m' \<longleftrightarrow> (\<forall>a. fc_len c \<le> a - fc_buffer c \<longrightarrow> m' a = m a)"

lemma inside_mapping_trans [trans]: "inside_mapping c m m1 \<Longrightarrow> inside_mapping c m1 m2 \<Longrightarrow> inside_mapping c m m2"
  by (simp add: inside_mapping_def)

lemma inside_mapping_refl [simp]: "inside_mapping c m m"
  by (simp add: inside_mapping_def)

lemma ucast_bound: "unat (ucast (w :: u32) :: u64) < 2 ^ 32"
  using unsigned_less [of w] by (simp add: unat_ucast_up)

lemma put_pixel_inside:
  assumes "3 \<le> fc_bpp c"
  shows "inside_mapping c m (fc_put_pixel c x y col m)"
proof -
  define off :: u64 where "off = ucast ((y * fc_stride c + x) * fc_bpp c)"
  have b: "unat off < 2 ^ 32" "unat (ucast (fc_bpp c) :: u64) < 2 ^ 32" unfolding off_def by (rule ucast_bound)+
  have three: "3 \<le> unat (ucast (fc_bpp c) :: u64)" using assms by (simp add: word_le_nat_alt unat_ucast_up)
  have "poke (fc_buffer c + off) (color_bytes (fc_format c) col) m a = m a"
    if fit: "\<not> fc_len c < off + ucast (fc_bpp c)" and a: "fc_len c \<le> a - fc_buffer c" for a
  proof (rule poke_outside)
    have "unat (off + ucast (fc_bpp c)) = unat off + unat (ucast (fc_bpp c) :: u64)" using b by (intro unat_add_lem [THEN iffD1]) simp
    then have "unat off + 3 \<le> unat (fc_len c)" using fit three by (simp add: word_less_nat_alt)
    then have "unat off + 3 \<le> unat (a - fc_buffer c)" using a by (simp add: word_le_nat_alt)
    moreover have "unat (a - fc_buffer c - off) = unat (a - fc_buffer c) - unat off"
      using calculation by (intro unat_sub) (simp add: word_le_nat_alt)
    moreover have "length (color_bytes (fc_format c) col) = 3" by (simp add: color_bytes_def split: AdFormat.split)
    ultimately show "length (color_bytes (fc_format c) col) \<le> unat (a - (fc_buffer c + off))"
      unfolding diff_diff_eq [symmetric] by linarith
  qed
  then show ?thesis by (auto simp: fc_put_pixel_def inside_mapping_def Let_def off_def [symmetric])
qed

lemma fold_inside:
  assumes "\<And>x m. inside_mapping c m (f x m)"
  shows "inside_mapping c m (fold f xs m)"
proof (induction xs arbitrary: m)
  case (Cons x xs)
  from assms [of m x] Cons.IH [of "f x m"] show ?case by (simp add: inside_mapping_trans)
qed simp

lemma blit_row_inside:
  assumes "3 \<le> fc_bpp c" "length src < 2 ^ 63"
  shows "\<exists>m' d. fc_blit_row c src sw dest_x fb_y y xs m = Inr (m', d) \<and> inside_mapping c m m'"
proof (induction xs arbitrary: m)
  case (Cons x xs)
  define off :: u64 where "off = ucast ((y * sw + of_nat x) * fc_bpp c)"
  have b: "unat off < 2 ^ 32" "unat (ucast (fc_bpp c) :: u64) < 2 ^ 32" unfolding off_def by (rule ucast_bound)+
  have three: "3 \<le> unat (ucast (fc_bpp c) :: u64)" using assms(1) by (simp add: word_le_nat_alt unat_ucast_up)
  have s: "unat (off + ucast (fc_bpp c)) = unat off + unat (ucast (fc_bpp c) :: u64)" using b by (intro unat_add_lem [THEN iffD1]) simp
  have l: "unat (of_nat (length src) :: u64) = length src" using assms(2) by (intro unat_offset) simp
  have fit: "unat off + 3 \<le> length src" if "\<not> of_nat (length src) < off + ucast (fc_bpp c)"
    using that s l three by (simp add: word_less_nat_alt)
  let ?m = "fc_put_pixel c (dest_x + of_nat x) fb_y \<lparr>ad_r = src ! unat off, ad_g = src ! (unat off + 1), ad_b = src ! (unat off + 2)\<rparr> m"
  obtain m' d where "fc_blit_row c src sw dest_x fb_y y xs ?m = Inr (m', d)" "inside_mapping c ?m m'" using Cons.IH by blast
  moreover have "inside_mapping c m ?m" by (rule put_pixel_inside [OF assms(1)])
  ultimately show ?case using fit
    by (auto simp: Let_def off_def [symmetric] intro: inside_mapping_trans)
qed auto

lemma blit_rows_inside:
  assumes "3 \<le> fc_bpp c" "length src < 2 ^ 63"
  shows "\<exists>m'. fc_blit_rows c src sw dest_x dest_y ys m = Inr m' \<and> inside_mapping c m m'"
proof (induction ys arbitrary: m)
  case (Cons y ys)
  obtain m' d where r: "fc_blit_row c src sw dest_x (dest_y + of_nat y) (of_nat y) [0..<unat sw] m = Inr (m', d)" "inside_mapping c m m'"
    using blit_row_inside [OF assms] by blast
  obtain m'' where "fc_blit_rows c src sw dest_x dest_y ys m' = Inr m''" "inside_mapping c m' m''" using Cons.IH by blast
  with r show ?case by (auto simp: Let_def intro: inside_mapping_trans)
qed simp


definition demo_canvas :: FramebufferCanvas where
  "demo_canvas = \<lparr>fc_buffer = 0x1000, fc_len = 64, fc_width = 4, fc_height = 4, fc_stride = 4, fc_bpp = 4, fc_format = AdBgr\<rparr>"


section \<open>The events of a poll\<close>

text \<open>All events that a sequence of codes gives, without a limit.\<close>

definition code_events :: "u64 \<Rightarrow> u8 \<Rightarrow> InputAdapter \<Rightarrow> InputAdapter \<times> AdEvent list" where
  "code_events ts sc a =
     (let scancode = sc AND 0x7f; keychar = (case scancode_to_char scancode of Some c \<Rightarrow> c | None \<Rightarrow> 0) in
      if sc = 0xe0 \<or> sc = 0xe1 then (a, [])
      else if sc AND 0x80 \<noteq> 0 then (a, [Key KeyUp (ucast scancode) keychar ts])
      else case pointer_event scancode ts a of
        (a', None) \<Rightarrow> (a', [Key KeyDown (ucast scancode) keychar ts])
      | (a', Some e) \<Rightarrow> (a', [Key KeyDown (ucast scancode) keychar ts, e]))"

fun all_events :: "(nat \<Rightarrow> i64 \<times> i64 \<times> i64) \<Rightarrow> nat \<Rightarrow> bytes \<Rightarrow> InputAdapter \<Rightarrow> InputAdapter \<times> AdEvent list" where
  "all_events clk i [] a = (a, [])"
| "all_events clk i (sc # scs) a =
     (case code_events (get_timestamp (clk i)) sc a of (a1, es) \<Rightarrow>
        case all_events clk (i + 1) scs a1 of (a2, es') \<Rightarrow> (a2, es @ es'))"

lemma el_push_take: "el_push e (take MAX_EVENTS es) = take MAX_EVENTS (es @ [e])"
  by (auto simp: el_push_def min_def)

lemma poll_code_events:
  assumes "code_events ts sc a = (a', new)"
  shows "poll_code ts sc (a, take MAX_EVENTS es) = (a', take MAX_EVENTS (es @ new))"
  using assms el_push_take [of _ es] el_push_take [of _ "es @ [k]" for k]
  by (auto simp: poll_code_def code_events_def Let_def split: if_splits prod.splits option.splits)

lemma poll_all_events:
  assumes "all_events clk i (map (\<lambda>k. bs ! k) [i..<i + n]) a = (a', new)"
  shows "fold (\<lambda>i. poll_code (get_timestamp (clk i)) (bs ! i)) [i..<i + n] (a, take MAX_EVENTS es) = (a', take MAX_EVENTS (es @ new))"
  using assms
proof (induction n arbitrary: i a es new)
  case (Suc n)
  have u: "[i..<i + Suc n] = i # [Suc i..<Suc i + n]" by (simp add: upt_conv_Cons)
  obtain a1 es1 where 1: "code_events (get_timestamp (clk i)) (bs ! i) a = (a1, es1)" by fastforce
  obtain new' where 2: "all_events clk (Suc i) (map (\<lambda>k. bs ! k) [Suc i..<Suc i + n]) a1 = (a', new')" "new = es1 @ new'"
    using Suc.prems unfolding u by (auto simp: 1 split: prod.splits)
  show ?case using Suc.IH [OF 2(1), of "es @ es1"] poll_code_events [OF 1, of es] 2(2) unfolding u by simp
qed simp

text \<open>
  Polling the keyboard. After a successful read of \<open>n\<close> codes the poll returns the events of
  all of them in order, cut at 32: for every code except the two prefixes a key event, and for the
  arrows and Enter also a pointer event at the position that the arrows so far give. The position
  follows all codes, also those whose events no longer fit.\<close>

theorem poll_first_events:
  assumes "rd (scancode_buf a) = (bs, n)" "0 <s n" "unat n \<le> length bs"
  shows "poll rd clk a = Inr (map_prod id (take MAX_EVENTS) (all_events clk 0 (take (unat n) bs) (a\<lparr>scancode_buf := bs\<rparr>)))"
proof -
  have "map (\<lambda>k. bs ! k) [0..<0 + unat n] = take (unat n) bs" using assms(3) by (simp add: list_eq_iff_nth_eq)
  moreover obtain a' new where e: "all_events clk 0 (take (unat n) bs) (a\<lparr>scancode_buf := bs\<rparr>) = (a', new)" by fastforce
  ultimately have "fold (\<lambda>i. poll_code (get_timestamp (clk i)) (bs ! i)) [0..<unat n] (a\<lparr>scancode_buf := bs\<rparr>, []) = (a', take MAX_EVENTS new)"
    using poll_all_events [of clk 0 bs "unat n" "a\<lparr>scancode_buf := bs\<rparr>" a' new "[]"] by simp
  moreover have "\<not> n \<le>s 0" using assms(2) by (simp add: word_sless_alt word_sle_eq)
  ultimately show ?thesis using assms(1,3) e by (simp add: poll_def Let_def)
qed

theorem poll_first_events_witness:
  "poll (\<lambda>bs. ([0x1e, 0xe0, 0x4d], 3)) (\<lambda>_. (0, 1, 0)) adapter_new =
     Inr (\<lparr>cursor_x = 5, cursor_y = 0, scancode_buf = [0x1e, 0xe0, 0x4d]\<rparr>,
       [Key KeyDown 0x1e 97 1000000, Key KeyDown 0x4d 0 1000000, Pointer PhHover 5 0 1000000])"
  by (subst poll_first_events [where bs = "[0x1e, 0xe0, 0x4d]" and n = 3])
    (simp_all add: word_sless_alt code_events_def pointer_event_def scancode_to_char_def get_timestamp_def adapter_new_def MAX_EVENTS_def Let_def)

end
