(* ===== verification/Serial_Port.thy ===== *)
theory Serial_Port
  imports Syscalls
begin

text \<open>
  The receiving side of the serial port, \<^verbatim>\<open>kernel/src/serial.rs\<close>, and the loop of \<^verbatim>\<open>sys_read\<close> that takes
  standard input from it, both at the level of the two ports. Theory \<open>Syscalls\<close> models standard input as
  the bytes that were received; the property: over a receiver that holds these bytes the loop does the same. What is sent
  goes through the \<^verbatim>\<open>uart_16550\<close> crate and is a sequence of bytes in theory \<open>Devfs\<close>.
\<close>

section \<open>The ports\<close>

definition try_read_byte :: "(u16 \<Rightarrow> 'd \<Rightarrow> 'd \<times> u8) \<Rightarrow> 'd \<Rightarrow> 'd \<times> u8 option" where
  "try_read_byte in8 d =
     (case in8 0x3FD d of (d1, status) \<Rightarrow>
        if status AND 0x01 \<noteq> 0 then (case in8 0x3F8 d1 of (d2, b) \<Rightarrow> (d2, Some b)) else (d1, None))"

text \<open>The second loop of \<^verbatim>\<open>sys_read\<close>; the number is how many bytes still fit.\<close>

fun drain_serial :: "(u16 \<Rightarrow> 'd \<Rightarrow> 'd \<times> u8) \<Rightarrow> nat \<Rightarrow> 'd \<Rightarrow> 'd \<times> bytes" where
  "drain_serial in8 0 d = (d, [])"
| "drain_serial in8 (Suc n) d =
     (case try_read_byte in8 d of
        (d1, None) \<Rightarrow> (d1, [])
      | (d1, Some b) \<Rightarrow> (case drain_serial in8 n d1 of (d2, bs) \<Rightarrow> (d2, b # bs)))"

text \<open>One round of the first loop and what follows it: \<open>None\<close> means that the process yields and tries again.\<close>

definition stdin_round :: "(u16 \<Rightarrow> 'd \<Rightarrow> 'd \<times> u8) \<Rightarrow> u64 \<Rightarrow> 'd \<Rightarrow> 'd \<times> bytes option" where
  "stdin_round in8 count d =
     (case try_read_byte in8 d of
        (d1, None) \<Rightarrow> (d1, None)
      | (d1, Some b) \<Rightarrow> (case drain_serial in8 (unat count - 1) d1 of (d2, bs) \<Rightarrow> (d2, Some (b # bs))))"

section \<open>A receiver\<close>

text \<open>The state is the bytes that wait; the status has the bits of an idle transmitter. An empty
  receiver answers the data port with anything, here with 0.\<close>

definition receiver :: "u16 \<Rightarrow> bytes \<Rightarrow> bytes \<times> u8" where
  "receiver p rx =
     (if p = 0x3FD then (rx, if rx = [] then 0x60 else 0x61)
      else if p = 0x3F8 then (case rx of [] \<Rightarrow> ([], 0) | b # rest \<Rightarrow> (rest, b))
      else (rx, 0xFF))"

lemma try_read_receiver:
  "try_read_byte receiver rx = (case rx of [] \<Rightarrow> ([], None) | b # rest \<Rightarrow> (rest, Some b))"
  by (simp add: try_read_byte_def receiver_def split: list.split)

lemma drain_receiver: "drain_serial receiver n rx = (drop n rx, take n rx)"
proof (induction n arbitrary: rx)
  case (Suc n)
  then show ?case by (cases rx) (simp_all add: try_read_receiver)
qed simp

section \<open>Property\<close>

text \<open>
  Standard input, port by port. Over a receiver that holds the bytes of standard input, a
  round of the loop in \<^verbatim>\<open>sys_read\<close> leaves the receiver and gives the bytes that \<open>read_stdin\<close> stores and
  counts, and yields exactly when \<open>read_stdin\<close> does.
\<close>

theorem stdin_ports_refine:
  "read_stdin dst count k =
     (case stdin_round receiver count (k_stdin k) of
        (_, None) \<Rightarrow> yielding k
      | (rx, Some bs) \<Rightarrow> (set_mem (poke dst bs (memory_of k)) (k\<lparr>k_stdin := rx\<rparr>), Ret (of_nat (length bs))))"
proof (cases "k_stdin k")
  case (Cons b rest)
  have "take (min (length rest) (unat count - 1)) rest = take (unat count - 1) rest"
    "drop (min (length rest) (unat count - 1)) rest = drop (unat count - 1) rest" by (simp_all add: min_def)
  then show ?thesis
    by (simp add: read_stdin_def stdin_round_def try_read_receiver drain_receiver Cons Let_def)
qed (simp add: read_stdin_def stdin_round_def try_read_receiver)

end
