(* ===== verification/Adapter_Run.thy ===== *)
theory Adapter_Run
  imports Adapter Serial_Port Sys_Process
begin

text \<open>
  The running adapter, \<^verbatim>\<open>flutter_adapter/src/lib.rs\<close>: the rounds of its endless loop, and what \<^verbatim>\<open>embedder.rs\<close>
  has in place of an engine. The properties: no round panics as long as the read call keeps to its buffer; the
  start-up never succeeds; and what is typed on the kernel's standard input does not
  reach the adapter as characters, since the kernel delivers characters where the adapter expects
  scan codes.
\<close>

section \<open>The engine\<close>

datatype FlutterEngineResult = EngineSuccess | InvalidArgs | OutOfMemory | EngineFailure

datatype FlutterRendererType = Software | OpenGL | Metal | Vulkan

record FlutterSoftwareBackingStore =
  bs_buffer :: u64
  bs_buffer_size :: u64
  bs_width :: u32
  bs_height :: u32
  bs_stride :: u32
  bs_format :: u32

text \<open>The paths are pointers to strings that end in a zero byte; here they are the strings.\<close>

record FlutterEngineConfig =
  icu_data_path :: bytes
  assets_path :: bytes
  aot_library_path :: bytes
  renderer_type :: FlutterRendererType
  ec_width :: u32
  ec_height :: u32

definition engine_config_default :: FlutterEngineConfig where
  "engine_config_default =
     \<lparr>icu_data_path = as_bytes ''/sys/icudtl.dat'' @ [0], assets_path = as_bytes ''/sys/flutter_assets/'' @ [0],
      aot_library_path = as_bytes ''/sys/app.so'' @ [0], renderer_type = Software, ec_width = 1280, ec_height = 720\<rparr>"

definition on_acquire_backing_store :: "FlutterSoftwareBackingStore \<Rightarrow> FlutterSoftwareBackingStore \<times> FlutterEngineResult" where
  "on_acquire_backing_store bs = (bs, EngineFailure)"

definition on_present_backing_store :: "FlutterSoftwareBackingStore \<Rightarrow> FlutterEngineResult" where
  "on_present_backing_store bs = EngineFailure"

section \<open>The loop\<close>

definition ad_nanosleep :: "u64 \<Rightarrow> i64" where "ad_nanosleep ticks = AD_ENOSYS"

text \<open>One round: the events are looked at one by one without any effect, the result of the sleep
  is dropped. \<open>rd\<close> and \<open>clk\<close> are the calls that the polling makes in this round.\<close>

definition adapter_round :: "(bytes \<Rightarrow> bytes \<times> i64) \<Rightarrow> (nat \<Rightarrow> i64 \<times> i64 \<times> i64) \<Rightarrow> InputAdapter \<Rightarrow> InputAdapter result" where
  "adapter_round rd clk a =
     (case poll rd clk a of
        Inl e \<Rightarrow> Inl e
      | Inr (a1, events) \<Rightarrow> Inr (case (fold (\<lambda>event a. a) events a1, ad_nanosleep 1) of (a2, _) \<Rightarrow> a2))"

text \<open>The rounds of a list of calls, one entry for each round.\<close>

fun adapter_run :: "((bytes \<Rightarrow> bytes \<times> i64) \<times> (nat \<Rightarrow> i64 \<times> i64 \<times> i64)) list \<Rightarrow> InputAdapter \<Rightarrow> InputAdapter result" where
  "adapter_run [] a = Inr a"
| "adapter_run ((rd, clk) # rest) a =
     (case adapter_round rd clk a of Inl e \<Rightarrow> Inl e | Inr a1 \<Rightarrow> adapter_run rest a1)"

section \<open>Lemmas\<close>

text \<open>What a read call promises: it fills at most the buffer.\<close>

definition keeps_buffer :: "(bytes \<Rightarrow> bytes \<times> i64) \<Rightarrow> bool" where
  "keeps_buffer rd \<longleftrightarrow> (\<forall>b. length (fst (rd b)) = length b \<and> (0 <s snd (rd b) \<longrightarrow> unat (snd (rd b)) \<le> length b))"

definition adapter_ok :: "InputAdapter \<Rightarrow> bool" where
  "adapter_ok a \<longleftrightarrow> length (scancode_buf a) = 64 \<and> 0 \<le> cursor_x a \<and> 0 \<le> cursor_y a"

lemma pointer_event_ok:
  "adapter_ok a \<Longrightarrow> adapter_ok (fst (pointer_event c ts a))"
  by (simp add: adapter_ok_def pointer_event_def Let_def)

lemma poll_code_ok: "adapter_ok (fst s) \<Longrightarrow> adapter_ok (fst (poll_code ts sc s))"
  using pointer_event_ok [of "fst s" "sc AND 0x7f" ts]
  by (auto simp: poll_code_def Let_def split: prod.splits option.splits)

lemma poll_codes_ok: "adapter_ok (fst s) \<Longrightarrow> adapter_ok (fst (fold (\<lambda>i. poll_code (f i) (g i)) is s))"
  by (induction "is" arbitrary: s) (simp_all add: poll_code_ok)

lemma fold_nothing: "fold (\<lambda>_ a. a) es a = a"
  by (induction es) simp_all

lemma adapter_round_ok:
  assumes "adapter_ok a" "keeps_buffer rd"
  shows "\<exists>a'. adapter_round rd clk a = Inr a' \<and> adapter_ok a'"
proof -
  obtain b n where r: "rd (scancode_buf a) = (b, n)" by fastforce
  have b: "length b = 64" "0 <s n \<longrightarrow> unat n \<le> 64"
    using assms r by (auto simp: keeps_buffer_def adapter_ok_def dest!: spec [of _ "scancode_buf a"])
  have ok: "adapter_ok (a\<lparr>scancode_buf := b\<rparr>)" using assms(1) b(1) by (simp add: adapter_ok_def)
  show ?thesis
  proof (cases "n \<le>s 0")
    case True
    then show ?thesis using ok by (simp add: adapter_round_def poll_def r Let_def)
  next
    case False
    then have "0 <s n" by (simp add: word_sless_alt word_sle_eq)
    then have "unat n \<le> length b" using b by simp
    then show ?thesis
      using False poll_codes_ok [of "(a\<lparr>scancode_buf := b\<rparr>, [])" "\<lambda>i. get_timestamp (clk i)" "\<lambda>i. b ! i" "[0..<unat n]"] ok
      by (auto simp: adapter_round_def poll_def r Let_def fold_nothing split: prod.splits)
  qed
qed

section \<open>Properties\<close>

text \<open>
  The loop of the adapter. With read calls that never fill more than the buffer, no round
  panics, whatever codes arrive, and the pointer stays at non-negative positions.
\<close>

theorem adapter_runs:
  assumes "\<forall>(rd, clk) \<in> set calls. keeps_buffer rd" "adapter_ok a"
  shows "\<exists>a'. adapter_run calls a = Inr a' \<and> adapter_ok a'"
  using assms
proof (induction calls arbitrary: a)
  case (Cons c calls)
  obtain rd clk where c: "c = (rd, clk)" by fastforce
  obtain a1 where "adapter_round rd clk a = Inr a1" "adapter_ok a1"
    using adapter_round_ok [of a rd clk] Cons.prems c by auto
  then show ?case using Cons.IH [of a1] Cons.prems(1) c by simp
qed simp

theorem adapter_runs_witness:
  "\<exists>a'. adapter_run [(ad_read, \<lambda>_. ad_clock_gettime 1), (\<lambda>b. (b[0 := 0x4d], if b = [] then 0 else 1), \<lambda>_. (0, 1, 0))] adapter_new = Inr a'"
proof -
  have "keeps_buffer ad_read" "keeps_buffer (\<lambda>b. (b[0 := 0x4d], if b = [] then 0 else 1))"
    by (simp_all add: keeps_buffer_def ad_read_def AD_ENOSYS_def word_sless_alt Suc_le_eq)
  moreover have "adapter_ok adapter_new" by (simp add: adapter_ok_def adapter_new_def)
  ultimately show ?thesis
    using adapter_runs [of "[(ad_read, \<lambda>_. ad_clock_gettime 1), (\<lambda>b. (b[0 := 0x4d], if b = [] then 0 else 1), \<lambda>_. (0, 1, 0))]" adapter_new]
    by auto
qed

text \<open>The start-up always reports an error: at the latest, there is no engine.\<close>

lemma adapter_never_starts: "\<exists>e. snd (adapter_init clk mm rd skeleton) = Inl e"
  by (auto simp: adapter_init_def embedder_init_def split: sum.split)

text \<open>The codes of letters are scan codes of no printable key and of no arrow.\<close>

lemma letter_codes:
  assumes "0x61 \<le> b" "b \<le> (0x7a :: u8)"
  shows "b AND 0x80 = 0" "b AND 0x7f = b" "scancode_to_char b = None" "b \<notin> {0xe0, 0xe1, 0x4b, 0x4d, 0x48, 0x50, 0x1c}"
proof -
  have "\<forall>c \<in> set (map of_nat [97..<123]). c AND 0x80 = (0 :: u8) \<and> c AND 0x7f = c \<and> scancode_to_char c = None \<and>
      c \<notin> {0xe0, 0xe1, 0x4b, 0x4d, 0x48, 0x50, 0x1c}" by code_simp
  moreover have "unat b \<in> set [97..<123]" unfolding set_upt using assms by (simp only: word_le_nat_alt atLeastLessThan_iff) simp
  then have "of_nat (unat b) \<in> set (map of_nat [97..<123] :: u8 list)" unfolding set_map by (rule imageI)
  moreover have "of_nat (unat b) = b" by simp
  ultimately show "b AND 0x80 = 0" "b AND 0x7f = b" "scancode_to_char b = None" "b \<notin> {0xe0, 0xe1, 0x4b, 0x4d, 0x48, 0x50, 0x1c}"
    by metis+
qed

lemma letters_events:
  "\<forall>b \<in> set bs. 0x61 \<le> b \<and> b \<le> 0x7a \<Longrightarrow>
   all_events clk i bs a = (a, map (\<lambda>(j, b). Key KeyDown (ucast b) 0 (get_timestamp (clk j))) (enumerate i bs))"
proof (induction bs arbitrary: i)
  case (Cons b bs)
  then have "code_events (get_timestamp (clk i)) b a = (a, [Key KeyDown (ucast b) 0 (get_timestamp (clk i))])"
    using letter_codes [of b] by (simp add: code_events_def pointer_event_def Let_def)
  then show ?case using Cons by simp
qed simp

text \<open>
  C39. What is typed. Lower-case letters that wait on the kernel's standard input are read by
  \<^verbatim>\<open>sys_read\<close> into the buffer of the adapter and polled there: each becomes the press of a key that has no
  character, because the adapter takes the letter's code for a scan code.
\<close>

theorem typed_letters_unknown:
  assumes "k_stdin k = typed" "typed \<noteq> []" "length typed \<le> 64" "\<forall>b \<in> set typed. 0x61 \<le> b \<and> b \<le> 0x7a"
    and "dst \<noteq> 0" "sys_read 0 dst 64 k = (k', Ret n)"
  shows "poll (\<lambda>_. (peek dst 64 (memory_of k'), n)) clk a =
    Inr (a\<lparr>scancode_buf := peek dst 64 (memory_of k')\<rparr>,
      take 32 (map (\<lambda>(i, b). Key KeyDown (ucast b) 0 (get_timestamp (clk i))) (enumerate 0 typed)))"
proof -
  obtain c cs where c: "typed = c # cs" using assms(2) by (cases typed) auto
  have len: "min (length cs) 63 = length cs" using assms(3) c by simp
  have r: "k' = set_mem (poke dst typed (memory_of k)) (k\<lparr>k_stdin := []\<rparr>)" "n = of_nat (length typed)"
    using assms(1,5,6) by (simp_all add: sys_read_def read_stdin_def c len Let_def)
  have un: "unat n = length typed" unfolding r(2) using assms(3) by (intro of_nat_inverse [OF refl]) simp
  have "\<forall>m \<in> set [1..<65]. 0 <s (of_nat m :: i64)" by code_simp
  moreover have "length typed \<in> set [1..<65]" unfolding set_upt using assms(3) c by auto
  ultimately have pos: "0 <s n" unfolding r(2) by (rule bspec)
  have t: "take (unat n) (peek dst 64 (memory_of k')) = typed"
  proof -
    have "peek dst (length typed) (memory_of k') = typed"
      unfolding r(1) using assms(3) by (simp add: set_mem_def peek_poke_same)
    moreover have "take (unat n) (peek dst 64 (memory_of k')) = peek dst (length typed) (memory_of k')"
      using assms(3) by (simp add: un peek_def take_map)
    ultimately show ?thesis by simp
  qed
  have "poll (\<lambda>_. (peek dst 64 (memory_of k'), n)) clk a =
      Inr (map_prod id (take MAX_EVENTS) (all_events clk 0 typed (a\<lparr>scancode_buf := peek dst 64 (memory_of k')\<rparr>)))"
    by (subst poll_first_events [where rd = "\<lambda>_. (peek dst 64 (memory_of k'), n)", OF refl pos]) (use un assms(3) t in simp_all)
  then show ?thesis by (simp add: letters_events [OF assms(4)] MAX_EVENTS_def)
qed

theorem typed_letters_unknown_witness:
  "\<exists>k' n. sys_read 0 0x5000 64 (demo_kernel\<lparr>k_stdin := as_bytes ''hi''\<rparr>) = (k', Ret n) \<and>
     map_sum id snd (poll (\<lambda>_. (peek 0x5000 64 (memory_of k'), n)) (\<lambda>_. (0, 1, 0)) adapter_new) =
       Inr [Key KeyDown 0x68 0 1000000, Key KeyDown 0x69 0 1000000]"
proof -
  let ?k = "demo_kernel\<lparr>k_stdin := as_bytes ''hi''\<rparr>"
  have hi: "as_bytes ''hi'' = [0x68, 0x69]" by code_simp
  obtain k' n where r: "sys_read 0 0x5000 64 ?k = (k', Ret n)" by (auto simp: sys_read_def read_stdin_def hi Let_def)
  have t: "get_timestamp (0, 1, 0) = 1000000" by code_simp
  from typed_letters_unknown [of ?k "[0x68, 0x69]", OF _ _ _ _ _ r] r
  show ?thesis by (auto simp: hi t)
qed

end
