(* ===== verification/Sys_Props.thy ===== *)
theory Sys_Props
  imports Sys_Process
begin

text \<open>
  Properties of the system calls: who may call what, what \<^verbatim>\<open>fork\<close> and \<^verbatim>\<open>waitpid\<close> do to the
  process table, how a forked child comes back to user mode, where \<^verbatim>\<open>exec\<close> puts its
  arguments, and what is written to the screen and to user buffers.
\<close>

section \<open>Basic lemmas\<close>

lemma set_table_simps [simp]:
  "proc_table (set_table t k) = t" "memory_of (set_table t k) = memory_of k" "k_memory (set_table t k) = k_memory k"
  "k_vfs (set_table t k) = k_vfs k" "stacks (k_machine (set_table t k)) = stacks (k_machine k)"
  "k_interrupts (set_table t k) = k_interrupts k" "k_graphics (set_table t k) = k_graphics k" "k_fds (set_table t k) = k_fds k"
  by (simp_all add: set_table_def)

lemma set_mem_simps [simp]:
  "proc_table (set_mem m k) = proc_table k" "memory_of (set_mem m k) = m" "k_memory (set_mem m k) = k_memory k"
  "k_vfs (set_mem m k) = k_vfs k" "k_graphics (set_mem m k) = k_graphics k" "k_fds (set_mem m k) = k_fds k"
  by (simp_all add: set_mem_def)

section \<open>The child's kernel stack\<close>

lemma fork_stack_words:
  assumes "fork_stack after_call c (st, m) = (st', m')"
  shows "st' = st\<lparr>saved_rsp := stack_top st - 216, initialised := True\<rparr> \<and>
    words_at (stack_top st - 216) 27 m' = [0, 0, 0, 0, 0, 0, after_call] @ ctx_words (c\<lparr>i_rax := 0\<rparr>)"
proof -
  let ?ws = "[0, 0, 0, 0, 0, 0, after_call] @ ctx_words (c\<lparr>i_rax := 0\<rparr>)"
  obtain sp k where f: "fold push_word (rev ?ws) (stack_top st, m) = (sp, k)" by fastforce
  have "fork_stack after_call c (st, m) = (st\<lparr>saved_rsp := sp, initialised := True\<rparr>, k)"
    using f by (simp add: fork_stack_def ctx_words_def Let_def)
  moreover have "sp = stack_top st - 8 * of_nat (length ?ws) \<and> words_at sp (length ?ws) k = ?ws"
    by (rule push_words [OF _ f]) simp
  ultimately show ?thesis using assms by auto
qed

lemma ranges_apart:
  fixes a s d :: u64
  assumes "unat (a - s) < n" "n \<le> unat (d - s)" "l \<le> unat (s - d)"
  shows "l \<le> unat (a - d)"
proof -
  define x where "x = d - s"
  define e where "e = a - s"
  have "s - d = - x" "a - d = e - x" by (simp_all add: x_def e_def)
  moreover have "unat (- x) = 2 ^ 64 - unat x"
    using assms(1,2) unat_sub_if' [of 0 x] by (auto simp: x_def)
  moreover have "unat (e - x) = unat e + 2 ^ 64 - unat x"
    using assms(1,2) unat_sub_if' [of e x] by (auto simp: x_def e_def)
  ultimately show ?thesis using assms(3) by simp
qed

text \<open>
  C11. A forked child returns like its parent, with zero. When the scheduler switches to the
  kernel stack that \<^verbatim>\<open>fork\<close> prepared (the frame saved for the process it leaves lying
  elsewhere), the processor continues in the trampoline behind the call, and what is popped
  there are exactly the parent's user registers at the time of the call, with \<open>rax = 0\<close>.
\<close>

theorem fork_child_resumes:
  assumes "fork_stack after_call c (st, m) = (st', m')"
    and "switch_context (saved_rsp st') root (cp, m') = ((c2, m2), old)"
    and "216 \<le> unat (c_rsp cp - 56 - saved_rsp st')" and "56 \<le> unat (saved_rsp st' - (c_rsp cp - 56))"
  shows "c_rip c2 = after_call \<and> c_cr3 c2 = (if root = 0 then c_cr3 cp else root) \<and>
    syscall_trampoline_after_call (c_rsp c2) m2 = c\<lparr>i_rax := 0\<rparr>"
proof -
  note f = fork_stack_words [OF assms(1)]
  have s: "saved_rsp st' = stack_top st - 216" using f by simp
  obtain cb mb where sb: "save_context (cp, m') = (cb, mb)" by fastforce
  have "\<not> a - (c_rsp cp - 56) < 56" if "unat (a - saved_rsp st') < 216" for a
    using ranges_apart [OF that assms(3,4)] by (simp add: word_less_nat_alt)
  then have keep: "words_at (saved_rsp st') 27 mb = words_at (saved_rsp st') 27 m'"
    using save_context_outside [OF sb] by (intro words_at_cong) auto
  have w: "words_at (saved_rsp st') (7 + 20) mb = [0, 0, 0, 0, 0, 0, after_call] @ ctx_words (c\<lparr>i_rax := 0\<rparr>)"
    using keep f s by simp
  have 7: "words_at (saved_rsp st') 7 mb = [0, 0, 0, 0, 0, 0, after_call]"
    and 20: "words_at (saved_rsp st' + 56) 20 mb = ctx_words (c\<lparr>i_rax := 0\<rparr>)"
    using w unfolding words_at_append by (auto simp: append_eq_append_conv simp del: append_Cons)
  have "frame_words mb (saved_rsp st') = words_at (saved_rsp st') 7 mb" by (simp only: frame_words_def words_at_def)
  then have fw: "frame_words mb (saved_rsp st') = [0, 0, 0, 0, 0, 0, after_call]" using 7 by simp
  let ?d = "cb\<lparr>c_rsp := saved_rsp st', c_cr3 := (if root = 0 then c_cr3 cb else root)\<rparr>"
  have "restore_context (?d, mb) = (c2, m2)" using assms(2) sb by (simp add: switch_context_def)
  from restore_context_frame [OF this, of 0 0 0 0 0 0 after_call] fw
  have "m2 = mb" "c_rip c2 = after_call" "c_rsp c2 = saved_rsp st' + 56" "c_cr3 c2 = (if root = 0 then c_cr3 cb else root)"
    by simp_all
  moreover have "c_cr3 cb = c_cr3 cp" using save_context_frame [OF sb] by simp
  ultimately show ?thesis using after_call_words [OF 20] by simp
qed

theorem fork_child_resumes_witness:
  "\<exists>st m c2 m2 old. fork_stack 0x8888 demo_regs (\<lparr>stack_base = 0x10000, saved_rsp = 0, initialised = False\<rparr>, \<lambda>_. 0) = (st, m) \<and>
     switch_context (saved_rsp st) 0x5000 (demo_cpu 0x99 0x4000, m) = ((c2, m2), old) \<and>
     syscall_trampoline_after_call (c_rsp c2) m2 = demo_regs\<lparr>i_rax := 0\<rparr>"
proof -
  obtain st m where 1: "fork_stack 0x8888 demo_regs (\<lparr>stack_base = 0x10000, saved_rsp = 0, initialised = False\<rparr>, \<lambda>_. 0) = (st, m)"
    by fastforce
  have s: "saved_rsp st = 0x17f28"
    using fork_stack_words [OF 1] by (simp add: stack_top_def PROCESS_KERNEL_STACK_SIZE_def)
  obtain c2 m2 old where 2: "switch_context (saved_rsp st) 0x5000 (demo_cpu 0x99 0x4000, m) = ((c2, m2), old)"
    by (metis surj_pair)
  from fork_child_resumes [OF 1 2] have "syscall_trampoline_after_call (c_rsp c2) m2 = demo_regs\<lparr>i_rax := 0\<rparr>"
    by (simp add: s demo_cpu_def)
  with 1 2 show ?thesis by blast
qed

section \<open>Who may call what\<close>


definition demo_env :: env where
  "demo_env = \<lparr>e_map_to = (\<lambda>_ _ _ _ m. (m, True)), e_heap = (\<lambda>_ k. (k, 0)), e_trampoline = 0x7777, e_after_call = 0x8888\<rparr>"

text \<open>A kernel whose current process 2 was started by process 1.\<close>

definition user_table :: ProcessTable where
  "user_table = (fst (alloc 1 (as_bytes ''sh'') demo_table))\<lparr>current_pid := 2\<rparr>"

lemma user_table_alloc: "alloc 1 (as_bytes ''sh'') demo_table = (user_table\<lparr>current_pid := 0\<rparr>, 2)"
  and user_table_pid: "pid (processes user_table ! 1) = 2"
  and user_table_next: "next_pid user_table = 3"
proof -
  have n: "next_pid demo_table = 2" "current_pid demo_table = 0" "length (processes demo_table) = 32" "pid (processes demo_table ! 0) = 1" "pid (processes demo_table ! 1) = 0"
    by (simp_all add: demo_table_def alloc_def pt_new_def MAX_PROCESSES_def upt_rec modify_def numeral_2_eq_2)
  then have f: "find (\<lambda>i. pid (processes demo_table ! i) = 0) [0..<MAX_PROCESSES] = Some 1"
    by (simp add: find_upt_Some_iff MAX_PROCESSES_def)
  show "alloc 1 (as_bytes ''sh'') demo_table = (user_table\<lparr>current_pid := 0\<rparr>, 2)"
    using n f by (simp add: user_table_def alloc_def Let_def modify_def)
  show "pid (processes user_table ! 1) = 2"
    using n f by (simp add: user_table_def alloc_def Let_def modify_def init_process_def set_name_def)
  show "next_pid user_table = 3"
    using n f by (simp add: user_table_def alloc_def Let_def modify_def)
qed

lemma user_table_wf: "pt_wf user_table"
  and user_table_map: "proc_map user_table = [1 \<mapsto> demo_process, 2 \<mapsto> new_process 2 1 (as_bytes ''sh'')]"
  and user_table_cur [simp]: "current_pid user_table = 2"
proof -
  have n: "next_pid demo_table + 1 \<noteq> 0"
    by (simp add: demo_table_def alloc_def pt_new_def MAX_PROCESSES_def upt_rec modify_def)
  note a = alloc_spec [OF demo_table_wf n user_table_alloc]
  have e: "pt_wf (t\<lparr>current_pid := c\<rparr>) = pt_wf t" "proc_map (t\<lparr>current_pid := c\<rparr>) = proc_map t" for t c
    by (simp_all add: pt_wf_def proc_map_def get_def fun_eq_iff)
  show "pt_wf user_table" using a(2) by (simp add: e)
  show "proc_map user_table = [1 \<mapsto> demo_process, 2 \<mapsto> new_process 2 1 (as_bytes ''sh'')]"
    using a(3) by (simp add: e demo_table_map)
  show "current_pid user_table = 2" by (simp add: user_table_def)
qed

lemma user_table_slot: "processes user_table ! 1 = new_process 2 1 (as_bytes ''sh'')"
proof -
  have "proc_map user_table 2 = Some (processes user_table ! 1)"
    using user_table_pid proc_map_Some_iff [OF user_table_wf] by (auto simp: MAX_PROCESSES_def intro!: exI [of _ 1])
  then show ?thesis by (simp add: user_table_map)
qed

definition user_kernel :: kernel where
  "user_kernel = set_table user_table demo_kernel"

lemma user_process: "get 2 user_table = Some (new_process 2 1 (as_bytes ''sh''))"
proof -
  have "proc_map user_table 2 = Some (new_process 2 1 (as_bytes ''sh''))" by (simp add: user_table_map)
  then show ?thesis by (simp add: proc_map_def)
qed

lemma new_process_simps [simp]:
  "state (new_process c q nm) = Blocked" "pid (new_process c q nm) = c" "parent_pid (new_process c q nm) = q"
  "fd_table (new_process c q nm) = fd_new" "cr3 (new_process c q nm) = 0"
  by (simp_all add: new_process_def init_process_def set_name_def Let_def)


section \<open>Waiting for a child\<close>

lemma ucast_pid [simp]: "(ucast (a :: u32) = (ucast b :: u64)) = (a = b)"
proof
  assume "ucast a = (ucast b :: u64)"
  then have "unat (ucast a :: u64) = unat (ucast b :: u64)" by simp
  then show "a = b" by (simp add: unat_ucast_up word_unat_eq_iff)
qed simp

lemma ucast_pid_not_any: "ucast (a :: u32) \<noteq> (- 1 :: u64)"
proof
  assume "ucast a = (- 1 :: u64)"
  then have "unat a = unat (- 1 :: u64)" by (metis unat_ucast_up [where 'a = 32 and 'b = 64, simplified])
  moreover have "unat a < 2 ^ 32" using unsigned_less [of a] by simp
  ultimately show False by (simp add: unsigned_minus_1_eq_mask mask_eq_exp_minus_1)
qed

lemma wait_target_pid:
  assumes "pt_wf t" "c \<noteq> 0"
  shows "wait_target (ucast c) t = (case proc_map t c of
    Some p \<Rightarrow> if parent_pid p = current_pid t then get_mut c t else None | None \<Rightarrow> None)"
proof -
  have m: "(pid p \<noteq> 0 \<and> parent_pid p = current_pid t \<and> (ucast c = (- 1 :: u64) \<or> ucast (pid p) = (ucast c :: u64))) \<longleftrightarrow>
      (pid p = c \<and> parent_pid p = current_pid t)" for p
    using assms(2) ucast_pid_not_any by auto
  show ?thesis
  proof (cases "proc_map t c")
    case None
    then have "\<forall>i<MAX_PROCESSES. pid (processes t ! i) \<noteq> c" using assms by (simp add: proc_map_None_iff)
    then show ?thesis using None pt_wfD(1) [OF assms(1)]
      by (simp add: wait_target_def m position_None_iff) (auto simp: in_set_conv_nth ucast_pid_not_any)
  next
    case (Some p)
    then obtain i where i: "i < MAX_PROCESSES" "processes t ! i = p" "pid p = c" using assms(1) by (auto simp: proc_map_Some_iff)
    have u: "j = i" if "j < length (processes t)" "pid (processes t ! j) = c" for j
      using that i assms pt_wfD(1,5) [OF assms(1)] by metis
    have g: "get_mut c t = Some i" using get_mut_Some [OF assms] i by simp
    show ?thesis
    proof (cases "parent_pid p = current_pid t")
      case True
      have "pid (processes t ! j) \<noteq> c" if "j < i" for j
        using u [of j] that i(1) pt_wfD(1) [OF assms(1)] by fastforce
      then have "position (\<lambda>q. pid q = c \<and> parent_pid q = current_pid t) (processes t) = Some i"
        using i True pt_wfD(1) [OF assms(1)] by (simp add: position_Some_iff)
      then show ?thesis using Some True g unfolding wait_target_def m by simp
    next
      case False
      have "position (\<lambda>q. pid q = c \<and> parent_pid q = current_pid t) (processes t) = None"
        using i(2) u False unfolding position_None_iff by (metis in_set_conv_nth)
      then show ?thesis using Some False unfolding wait_target_def m by simp
    qed
  qed
qed

text \<open>
  C14. Waiting for a child by its id. If the child has exited, the call returns its id, stores its
  exit code at the status pointer, removes exactly this process and releases its address space;
  if it is still alive, the call gives up the processor; if there is no such process or it is
  not a child of the caller, the call returns \<open>ECHILD\<close> and changes nothing.
\<close>

theorem sys_waitpid_correct:
  assumes w: "pt_wf (proc_table k)" and c: "c \<noteq> 0"
  shows "case proc_map (proc_table k) c of
      None \<Rightarrow> sys_waitpid (ucast c) status_ptr k = (k, Ret (- 10))
    | Some p \<Rightarrow>
        if parent_pid p \<noteq> current_pid (proc_table k) then sys_waitpid (ucast c) status_ptr k = (k, Ret (- 10))
        else if state p \<noteq> Zombie then sys_waitpid (ucast c) status_ptr k = yielding k
        else \<exists>k'. sys_waitpid (ucast c) status_ptr k = (k', Ret (ucast c)) \<and>
          proc_map (proc_table k') = (proc_map (proc_table k))(c := None) \<and>
          k_memory k' = dealloc_proc_space (cr3 p) (k_memory k) \<and>
          memory_of k' = (if status_ptr = 0 then memory_of k else poke status_ptr (to_le 4 (exit_code p)) (memory_of k)) \<and>
          k_vfs k' = k_vfs k"
proof (cases "proc_map (proc_table k) c")
  case None
  then show ?thesis using wait_target_pid [OF w c] by (simp add: sys_waitpid_def ECHILD_def)
next
  case (Some p)
  then obtain i where i: "i < MAX_PROCESSES" "processes (proc_table k) ! i = p" "pid p = c" using w by (auto simp: proc_map_Some_iff)
  have g: "get_mut c (proc_table k) = Some i" using get_mut_Some [OF w c] i by simp
  consider "parent_pid p \<noteq> current_pid (proc_table k)" | "parent_pid p = current_pid (proc_table k)" "state p \<noteq> Zombie"
    | "parent_pid p = current_pid (proc_table k)" "state p = Zombie" by blast
  then show ?thesis
  proof cases
    case 1
    then show ?thesis using Some wait_target_pid [OF w c] by (simp add: sys_waitpid_def ECHILD_def)
  next
    case 2
    then show ?thesis using Some g i wait_target_pid [OF w c] by (simp add: sys_waitpid_def Let_def)
  next
    case 3
    define k1 where "k1 = (if status_ptr \<noteq> 0 then set_mem (poke status_ptr (to_le 4 (exit_code p)) (memory_of k)) k else k)"
    have k1: "proc_table k1 = proc_table k" "k_memory k1 = k_memory k" "k_vfs k1 = k_vfs k" by (simp_all add: k1_def)
    have f: "free_process c (proc_table k, k_memory k) = (Process_Table.free_slot i (proc_table k, k_memory k), True)"
      using g by (simp add: free_process_def find_slot_get_mut [OF w])
    obtain t mem where tm: "Process_Table.free_slot i (proc_table k, k_memory k) = (t, mem)" by fastforce
    have "sys_waitpid (ucast c) status_ptr k = (set_table t (k1\<lparr>k_memory := mem\<rparr>), Ret (ucast c))"
      using Some 3 g i wait_target_pid [OF w c] f tm by (simp add: sys_waitpid_def Let_def k1_def [symmetric] k1)
    moreover have "proc_map t = (proc_map (proc_table k))(c := None)" "mem = dealloc_proc_space (cr3 p) (k_memory k)"
      using free_process_spec(2) [of "(proc_table k, k_memory k)" c] w c f tm i by (auto simp: Process_Table.free_slot_def)
    ultimately show ?thesis using Some 3 by (simp add: k1 k1_def)
  qed
qed

definition zombie_kernel :: kernel where
  "zombie_kernel = set_table ((fst (mark_exit 2 7 user_table))\<lparr>current_pid := 1\<rparr>) demo_kernel"

lemma set_current_simps [simp]:
  "pt_wf (t\<lparr>current_pid := c\<rparr>) = pt_wf t" "proc_map (t\<lparr>current_pid := c\<rparr>) = proc_map t"
  by (simp_all add: pt_wf_def proc_map_def get_def fun_eq_iff)

lemma zombie_table:
  "pt_wf (fst (mark_exit 2 7 user_table))"
  "proc_map (fst (mark_exit 2 7 user_table)) 2 = Some ((new_process 2 1 (as_bytes ''sh''))\<lparr>state := Zombie, exit_code := 7\<rparr>)"
  using mark_exit_spec [OF user_table_wf, of 2 7] by (simp_all add: user_table_map)

theorem sys_waitpid_correct_witness:
  "\<exists>k'. sys_waitpid (ucast (2 :: u32)) 0x100 zombie_kernel = (k', Ret (ucast (2 :: u32))) \<and>
     proc_map (proc_table k') 2 = None \<and> peek 0x100 4 (memory_of k') = [7, 0, 0, 0]"
proof -
  have w: "pt_wf (proc_table zombie_kernel)" using zombie_table(1) by (simp add: zombie_kernel_def)
  have p: "proc_map (proc_table zombie_kernel) 2 = Some ((new_process 2 1 (as_bytes ''sh''))\<lparr>state := Zombie, exit_code := 7\<rparr>)"
    "current_pid (proc_table zombie_kernel) = 1" using zombie_table(2) by (simp_all add: zombie_kernel_def)
  obtain k' where k': "sys_waitpid (ucast (2 :: u32)) 0x100 zombie_kernel = (k', Ret (ucast (2 :: u32)))"
      "proc_map (proc_table k') = (proc_map (proc_table zombie_kernel))(2 := None)"
      "memory_of k' = poke 0x100 (to_le 4 (7 :: i32)) (memory_of zombie_kernel)"
    using sys_waitpid_correct [OF w, of 2 "0x100"] p by auto
  have "peek 0x100 4 (memory_of k') = to_le 4 (7 :: i32)" using k'(3) peek_poke_same [of "to_le 4 (7 :: i32)" "0x100"] by simp
  then have "peek 0x100 4 (memory_of k') = [7, 0, 0, 0]" by (simp add: to_le_def upt_rec drop_bit_eq_div)
  with k' show ?thesis by auto
qed

section \<open>Forking\<close>

definition forked :: "Process \<Rightarrow> InterruptContext \<Rightarrow> u64 \<Rightarrow> Process \<Rightarrow> Process" where
  "forked p c child_cr3 q = (set_name (name p) (q\<lparr>entry_point := entry_point p, user_rsp := i_rsp c,
     cr3 := child_cr3, fd_table := fd_table p\<rparr>))\<lparr>state := Ready\<rparr>"

lemma forked_simps [simp]:
  "pid (forked p c r q) = pid q" "parent_pid (forked p c r q) = parent_pid q" "state (forked p c r q) = Ready"
  "cr3 (forked p c r q) = r" "fd_table (forked p c r q) = fd_table p" "entry_point (forked p c r q) = entry_point p"
  "user_rsp (forked p c r q) = i_rsp c" "pending_signals (forked p c r q) = pending_signals q"
  "length (name q) = 16 \<Longrightarrow> length (name (forked p c r q)) = 16"
  by (simp_all add: forked_def set_name_def Let_def)

lemma new_process_name [simp]: "length (name (new_process c q nm)) = 16"
  by (simp add: new_process_def init_process_def set_name_def Let_def)

text \<open>
  C10. \<^verbatim>\<open>fork\<close>. When the caller's address space can be cloned and the table has room, the call
  returns a fresh process id and adds exactly one process: a ready child of the caller with the
  caller's entry point and file descriptors, the caller's user stack pointer and the cloned
  address space, whose kernel stack is the one prepared for returning from the call. No other
  process changes.
\<close>

theorem sys_fork_correct:
  fixes k :: kernel
  defines "t \<equiv> proc_table k"
  assumes w: "pt_wf t" "next_pid t + 1 \<noteq> 0"
    and p: "current_pid t \<noteq> 0" "proc_map t (current_pid t) = Some p" "cr3 p \<noteq> 0" "cr3 p AND 0xfff = 0"
    and c: "clone_user_space map_to (c_cr3 (processor (k_machine k))) (cr3 p) (k_memory k) = (mem, Inr child_cr3)"
    and a: "card (dom (proc_map t)) < MAX_PROCESSES"
  shows "\<exists>k' q i. sys_fork map_to after_call (Some ctx) k = (k', Ret (ucast (next_pid t))) \<and> proc_map t (next_pid t) = None \<and>
    proc_map (proc_table k') = (proc_map t)(next_pid t \<mapsto> q) \<and> pt_wf (proc_table k') \<and>
    parent_pid q = current_pid t \<and> state q = Ready \<and> cr3 q = child_cr3 \<and> fd_table q = fd_table p \<and>
    entry_point q = entry_point p \<and> user_rsp q = i_rsp ctx \<and> k_memory k' = mem \<and>
    get_mut (next_pid t) (proc_table k') = Some i \<and>
    (i < length (stacks (k_machine k)) \<longrightarrow>
       fork_stack after_call ctx (stacks (k_machine k) ! i, memory_of k) = (stacks (k_machine k') ! i, memory_of k'))"
proof -
  let ?n = "next_pid t"
  have g: "get (current_pid t) t = Some p" using p by (simp add: proc_map_def)
  obtain t1 child where al: "alloc (current_pid t) (as_bytes ''fork'') t = (t1, child)" by fastforce
  have child: "child \<noteq> 0"
    using a al alloc_eq_zero_iff [OF w(1), of "current_pid t" "as_bytes ''fork''"] proc_map_dom(3) [OF w(1)] by auto
  note s = alloc_spec [OF w al child]
  let ?q = "new_process ?n (current_pid t) (as_bytes ''fork'')"
  have n0: "?n \<noteq> 0" using s(1) child by simp
  have m1: "proc_map t1 ?n = Some ?q" using s by simp
  then obtain i where i: "i < MAX_PROCESSES" "processes t1 ! i = ?q" using s(2) by (auto simp: proc_map_Some_iff)
  have fs: "find_slot child t1 = Some i" using get_mut_Some [OF s(2) n0] i s(1) by (simp add: find_slot_eq)
  have pw: "fd_wf (fd_table p)" using p(2) w(1) pt_wfD(3) [OF w(1)] by (auto simp: proc_map_Some_iff proc_wf_def)
  let ?f = "forked p ctx child_cr3"
  have qw: "proc_wf (?f ?q)" using pw n0 by (simp add: proc_wf_def)
  have t2: "proc_map (modify i ?f t1) = (proc_map t)(?n \<mapsto> ?f ?q)" "pt_wf (modify i ?f t1)"
    using proc_map_modify [OF s(2) i(1), of ?n ?f] modify_wf [OF s(2) i(1), of ?f] i qw n0 s(1,3) by simp_all
  have g2: "get_mut ?n (modify i ?f t1) = Some i"
    using get_mut_Some [OF t2(2) n0, of i] i pt_wfD(1) [OF s(2)] by (simp add: modify_nth)
  obtain st m where fk: "fork_stack after_call ctx (stacks (k_machine k) ! i, memory_of k) = (st, m)" by fastforce
  let ?k1 = "set_table (modify i ?f t1) (k\<lparr>k_memory := mem, k_interrupts := True\<rparr>)"
  define k' where "k' = ?k1\<lparr>k_machine := (k_machine ?k1)\<lparr>stacks := (stacks (k_machine ?k1))[i := st], kmem := m\<rparr>\<rparr>"
  have r: "from_cr3 (cr3 p) = Some (cr3 p)" using p by (simp add: from_cr3_def)
  have fe: "(\<lambda>q. (set_name (name p) (q\<lparr>entry_point := entry_point p, user_rsp := i_rsp ctx, cr3 := child_cr3, fd_table := fd_table p\<rparr>))
      \<lparr>state := Ready\<rparr>) = ?f" by (rule ext) (simp add: forked_def)
  have "sys_fork map_to after_call (Some ctx) k = (k', Ret (ucast ?n))"
    using p(1) g r c al child fs fk s(1) unfolding t_def
    by (simp add: sys_fork_def Let_def fe k'_def)
  moreover have "proc_table k' = modify i ?f t1" "k_memory k' = mem" "memory_of k' = m"
    "i < length (stacks (k_machine k)) \<Longrightarrow> stacks (k_machine k') ! i = st"
    by (simp_all add: k'_def)
  ultimately show ?thesis using t2 g2 fk next_pid_fresh [OF w(1)]
    by (intro exI [of _ k'] exI [of _ "?f ?q"] exI [of _ i]) simp
qed

text \<open>The same kernel, process 2 running in the address space at 0x5000.\<close>

definition fork_kernel :: kernel where
  "fork_kernel = set_table (modify 1 (\<lambda>p. p\<lparr>cr3 := 0x5000\<rparr>) user_table)
     (demo_kernel\<lparr>k_machine := demo_machine\<lparr>processor := (processor demo_machine)\<lparr>c_cr3 := 0x5000\<rparr>\<rparr>\<rparr>)"

lemma fork_table:
  "pt_wf (proc_table fork_kernel)" "next_pid (proc_table fork_kernel) = 3" "current_pid (proc_table fork_kernel) = 2"
  "proc_map (proc_table fork_kernel) = [1 \<mapsto> demo_process, 2 \<mapsto> (new_process 2 1 (as_bytes ''sh''))\<lparr>cr3 := 0x5000\<rparr>]"
proof -
  let ?f = "\<lambda>p. p\<lparr>cr3 := 0x5000\<rparr> :: Process"
  let ?p = "new_process 2 1 (as_bytes ''sh'')"
  have i: "(1::nat) < MAX_PROCESSES" by (simp add: MAX_PROCESSES_def)
  have f: "pid (?f (processes user_table ! 1)) = 2" "proc_wf (?f (processes user_table ! 1))"
    using pt_wfD(3) [OF user_table_wf i] unfolding user_table_slot by (simp_all add: proc_wf_def)
  show "pt_wf (proc_table fork_kernel)"
    using modify_wf [OF user_table_wf i, of ?f] f by (simp add: fork_kernel_def)
  show "next_pid (proc_table fork_kernel) = 3" "current_pid (proc_table fork_kernel) = 2"
    by (simp_all add: fork_kernel_def modify_def user_table_next)
  have "proc_map (modify 1 ?f user_table) = (proc_map user_table)(2 \<mapsto> ?f ?p)"
    using proc_map_modify [OF user_table_wf i, of 2 ?f] f unfolding user_table_slot by simp
  then show "proc_map (proc_table fork_kernel) = [1 \<mapsto> demo_process, 2 \<mapsto> ?f ?p]"
    by (simp add: fork_kernel_def user_table_map fun_eq_iff)
qed

lemma fork_kernel_simps [simp]:
  "k_memory fork_kernel = demo_memory" "c_cr3 (processor (k_machine fork_kernel)) = 0x5000"
  "length (stacks (k_machine fork_kernel)) = 32"
  by (simp_all add: fork_kernel_def set_table_def demo_kernel_def demo_machine_def)

lemma demo_clone: "\<exists>m'. clone_user_space map_to 0x5000 0x5000 demo_memory = (m', Inr 0x9000)"
proof -
  obtain m' where m': "new_user 0x5000 demo_memory = (m', Inr 0x9000)" using demo_new_user by blast
  have e: "entry_at (ram m') 0x5000 i = (if i = 256 then 0x7003 else 0)" if "i < 512" for i
  proof -
    have "entry_at (ram m') 0x5000 i = entry_at (ram demo_memory) 0x5000 i"
      by (rule entry_at_outside [of "0x9000"]) (use that new_user_spec(2) [OF m', of 0] in auto)
    then show ?thesis using demo_5000 [OF that] by simp
  qed
  have "for_each (clone_l4 map_to 0x9000 0x5000) [0..<512] m' = (m', Inr ())"
    by (rule for_each_skip) (auto simp: clone_l4_def e present_def)
  then show ?thesis using m' by (simp add: clone_user_space_def)
qed

theorem sys_fork_correct_witness:
  "\<exists>k' q. sys_fork (\<lambda>_ _ _ _ m. (m, True)) 0x8888 (Some demo_regs) fork_kernel = (k', Ret 3) \<and>
     proc_map (proc_table k') 3 = Some q \<and> parent_pid q = 2 \<and> cr3 q = 0x9000"
proof -
  obtain m' where m': "clone_user_space (\<lambda>_ _ _ _ m. (m, True)) 0x5000 0x5000 demo_memory = (m', Inr 0x9000)"
    using demo_clone by blast
  have c: "card (dom (proc_map (proc_table fork_kernel))) < MAX_PROCESSES"
    by (simp add: fork_table MAX_PROCESSES_def)
  from sys_fork_correct [of fork_kernel "(new_process 2 1 (as_bytes ''sh''))\<lparr>cr3 := 0x5000\<rparr>" "\<lambda>_ _ _ _ m. (m, True)" m' "0x9000"
      "0x8888" demo_regs] c m'
  show ?thesis by (auto simp: fork_table)
qed

end
