(* ===== verification/Exec_Args.thy ===== *)
theory Exec_Args
  imports Sys_Process
begin

text \<open>
  Where \<^verbatim>\<open>exec\<close> puts the arguments of the new program: the layout that its pushes build below
  an address, and the physical frame that the address lies in.
\<close>

section \<open>Writing downwards from an address\<close>

text \<open>The addresses more than \<open>d\<close> and at most \<open>e\<close> bytes below \<open>t\<close>.\<close>

definition below :: "u64 \<Rightarrow> nat \<Rightarrow> nat \<Rightarrow> u64 set" where
  "below t d e = {x. d < unat (t - x) \<and> unat (t - x) \<le> e}"

lemma below_mono: "d' \<le> d \<Longrightarrow> e \<le> e' \<Longrightarrow> x \<in> below t d e \<Longrightarrow> x \<in> below t d' e'"
  by (simp add: below_def)

lemma wr64_poke: "wr64 a v = poke a (to_le 8 v)"
  by (auto simp: wr64_def poke_def word_less_nat_alt fun_eq_iff)

lemma poke_below:
  assumes "x \<notin> below t d (d + length b)" "d + length b < 2 ^ 64"
  shows "poke (t - of_nat (d + length b)) b m x = m x"
proof (rule poke_outside, rule ccontr)
  define e where "e = t - x"
  define D where "D = d + length b"
  have "x - (t - of_nat D) = of_nat D - e" by (simp add: e_def)
  moreover assume "\<not> length b \<le> unat (x - (t - of_nat (d + length b)))"
  ultimately have l: "unat (of_nat D - e) < length b" by (simp only: D_def [symmetric] not_le)
  have D: "unat (of_nat D :: u64) = D" using assms(2) unfolding D_def by (rule unat_offset)
  have "unat (of_nat D - e) = (if unat e \<le> D then D - unat e else D + 2 ^ 64 - unat e)"
    using unat_sub_if' [of "of_nat D" e] D by simp
  then have "d < unat e \<and> unat e \<le> D" using l u64_bound [of e] by (auto simp: D_def split: if_splits)
  then show False using assms(1) by (simp add: below_def e_def D_def)
qed

lemma peek_below_cong:
  assumes "\<And>x. x \<in> below t d (d + n) \<Longrightarrow> m' x = m x" "d + n < 2 ^ 64"
  shows "peek (t - of_nat (d + n)) n m' = peek (t - of_nat (d + n)) n m"
proof (rule peek_cong)
  fix i assume "i < n"
  then have "t - (t - of_nat (d + n) + of_nat i) = of_nat (d + n - i)" by (simp add: of_nat_diff)
  moreover have "unat (of_nat (d + n - i) :: u64) = d + n - i" by (rule unat_offset) (use assms(2) in simp)
  ultimately have "unat (t - (t - of_nat (d + n) + of_nat i)) = d + n - i" by (simp only:)
  then show "m' (t - of_nat (d + n) + of_nat i) = m (t - of_nat (d + n) + of_nat i)"
    using \<open>i < n\<close> unfolding below_def by (intro assms(1)) (simp only: below_def mem_Collect_eq, linarith)
qed

lemma push_word_apply: "push_word v (sp, k) = (sp - 8, wr64 (sp - 8) v k)"
  by (simp add: push_word_def)

lemma push_words_ptr: "fold push_word (rev ws) (sp, k) = (sp', k') \<Longrightarrow> sp' = sp - 8 * of_nat (length ws)"
  by (induction ws arbitrary: sp' k') (auto simp: push_word_def algebra_simps split: prod.splits)

lemma push_words_outside:
  assumes "x \<notin> below t d (d + 8 * length ws)" "d + 8 * length ws < 2 ^ 64"
    "fold push_word (rev ws) (t - of_nat d, k) = (sp', k')"
  shows "k' x = k x"
  using assms
proof (induction ws arbitrary: sp' k')
  case (Cons w ws)
  obtain s1 k1 where 1: "fold push_word (rev ws) (t - of_nat d, k) = (s1, k1)" by fastforce
  have s1: "s1 = t - of_nat d - 8 * of_nat (length ws)" using push_words_ptr [OF 1] .
  have k': "k' = poke (s1 - 8) (to_le 8 w) k1" using Cons.prems(3) 1 by (auto simp: push_word_apply wr64_poke)
  have "k1 x = k x"
    using Cons.IH [OF _ _ 1] Cons.prems(1,2) by (auto simp: below_def)
  moreover have "poke (t - of_nat (d + 8 * length ws + length (to_le 8 w))) (to_le 8 w) k1 x = k1 x"
    by (rule poke_below) (use Cons.prems(1,2) in \<open>auto simp: below_def\<close>)
  moreover have "t - of_nat (d + 8 * length ws + length (to_le 8 w)) = s1 - 8" by (simp add: s1 algebra_simps)
  ultimately show ?case unfolding k' by metis
qed simp

section \<open>The strings\<close>

definition arg_bytes :: "bytes list \<Rightarrow> nat" where
  "arg_bytes args = sum_list (map (\<lambda>a. length a + 1) args)"

lemma arg_bytes_simps [simp]: "arg_bytes [] = 0" "arg_bytes (a # as) = arg_bytes as + (length a + 1)"
  by (simp_all add: arg_bytes_def)

lemma push_string_apply:
  "push_string base p a (sp, m, ptrs) =
     (sp - of_nat (length a + 1), poke (sp - of_nat (length a + 1)) (a @ [0]) m, (base + (sp - of_nat (length a + 1) - p)) # ptrs)"
  by (simp add: push_string_def Let_def)

lemma push_strings:
  assumes "fold (push_string base p) (rev args) (t, m, []) = (sp, m', ptrs)" "arg_bytes args < 2 ^ 64"
  shows "sp = t - of_nat (arg_bytes args) \<and> length ptrs = length args \<and>
    (\<forall>x. x \<notin> below t 0 (arg_bytes args) \<longrightarrow> m' x = m x) \<and>
    (\<forall>i < length args. peek (p + (ptrs ! i - base)) (length (args ! i) + 1) m' = args ! i @ [0] \<and>
       p + (ptrs ! i - base) = t - of_nat (arg_bytes (drop i args)))"
  using assms
proof (induction args arbitrary: sp m' ptrs)
  case (Cons a as)
  obtain s1 m1 q where 1: "fold (push_string base p) (rev as) (t, m, []) = (s1, m1, q)" by (metis prod_cases3)
  let ?d = "arg_bytes as" let ?b = "a @ [0]"
  have ih: "s1 = t - of_nat ?d" "length q = length as" "\<And>x. x \<notin> below t 0 ?d \<Longrightarrow> m1 x = m x"
    "\<And>i. i < length as \<Longrightarrow> peek (p + (q ! i - base)) (length (as ! i) + 1) m1 = as ! i @ [0] \<and>
       p + (q ! i - base) = t - of_nat (arg_bytes (drop i as))"
    using Cons.IH [OF 1] Cons.prems(2) by auto
  have e: "sp = s1 - of_nat (length a + 1)" "m' = poke sp ?b m1" "ptrs = (base + (sp - p)) # q"
    using Cons.prems(1) 1 by (auto simp: push_string_apply)
  have sp: "sp = t - of_nat (?d + length ?b)" by (simp add: e ih(1) algebra_simps)
  have o: "m' x = m1 x" if "x \<notin> below t ?d (?d + length ?b)" for x
    unfolding e(2) sp by (rule poke_below [OF that]) (use Cons.prems(2) in simp)
  have "m' x = m x" if "x \<notin> below t 0 (arg_bytes (a # as))" for x
    using that o [of x] ih(3) [of x] by (auto simp: below_def)
  moreover have "peek (p + (ptrs ! i - base)) (length ((a # as) ! i) + 1) m' = (a # as) ! i @ [0] \<and>
      p + (ptrs ! i - base) = t - of_nat (arg_bytes (drop i (a # as)))" if "i < length (a # as)" for i
  proof (cases i)
    case 0
    have "p + (ptrs ! 0 - base) = sp" by (simp add: e(3))
    moreover have "peek sp (length ?b) m' = ?b"
      unfolding e(2) by (rule peek_poke_same) (use Cons.prems(2) in simp)
    ultimately show ?thesis using 0 sp by simp
  next
    case (Suc j)
    then have j: "j < length as" using that by simp
    let ?n = "length (as ! j) + 1" let ?r = "arg_bytes (drop (Suc j) as)"
    have r: "arg_bytes (drop j as) = ?r + ?n" by (simp add: Cons_nth_drop_Suc [OF j, symmetric])
    have le: "arg_bytes (drop j as) \<le> ?d"
      using append_take_drop_id [of j as] by (metis arg_bytes_def le_add2 map_append sum_list_append)
    have "peek (t - of_nat (?r + ?n)) ?n m' = peek (t - of_nat (?r + ?n)) ?n m1"
    proof (rule peek_below_cong)
      fix x assume "x \<in> below t ?r (?r + ?n)"
      then show "m' x = m1 x" using le r by (intro o) (auto simp: below_def)
    qed (use le r Cons.prems(2) in simp)
    then have "peek (p + (q ! j - base)) ?n m' = as ! j @ [0]" using ih(4) [OF j] r by (metis (no_types, lifting))
    with ih(4) [OF j] show ?thesis by (simp add: Suc e(3))
  qed
  moreover have "sp = t - of_nat (arg_bytes (a # as))" using sp by simp
  ultimately show ?case using e(3) ih(2) by (metis length_Cons)
qed simp

section \<open>The whole layout\<close>

lemma align_down:
  fixes t :: u64
  shows "\<exists>e. d \<le> e \<and> e \<le> d + 7 \<and> (t - of_nat d) AND NOT 7 = t - of_nat e"
proof -
  define s where "s = t - of_nat d"
  have 7: "(7 :: u64) = mask 3" by (simp add: mask_eq_exp_minus_1)
  have a: "s AND NOT 7 = s - (s AND 7)"
    by (simp add: 7 and_not_mask_eq take_bit_eq_mask [symmetric])
  have "unat (s AND 7) \<le> 7" using word_and_le1 [of s 7] by (simp add: word_le_nat_alt)
  moreover have "s - (s AND 7) = t - of_nat (d + unat (s AND 7))" by (simp add: s_def)
  ultimately show ?thesis using a by (intro exI [of _ "d + unat (s AND 7)"]) (simp add: s_def)
qed

lemma push_args_layout:
  assumes "push_args p args r = (new_rsp, r')" "length args \<le> 16" "arg_bytes args \<le> 512"
  defines "base \<equiv> USER_STACK_TOP - 4096"
  shows "\<exists>e ptrs. new_rsp = USER_STACK_TOP - of_nat e \<and> 16 \<le> e \<and> e \<le> 663 \<and> length ptrs = length args \<and>
    words_at (p + (new_rsp - base)) (length args + 2) r' = of_nat (length args) # 0 # ptrs \<and>
    (\<forall>i < length args. peek (p + (ptrs ! i - base)) (length (args ! i) + 1) r' = args ! i @ [0]) \<and>
    (\<forall>x. x \<notin> below (p + 4096) 0 663 \<longrightarrow> r' x = r x)"
proof -
  let ?t = "p + 4096" and ?n = "length args" and ?L = "arg_bytes args"
  obtain sp1 m1 ptrs where f: "fold (push_string base p) (rev args) (?t, r, []) = (sp1, m1, ptrs)" by (metis prod_cases3)
  have s: "sp1 = ?t - of_nat ?L" "length ptrs = ?n" "\<And>x. x \<notin> below ?t 0 ?L \<Longrightarrow> m1 x = r x"
    "\<And>i. i < ?n \<Longrightarrow> peek (p + (ptrs ! i - base)) (length (args ! i) + 1) m1 = args ! i @ [0] \<and>
       p + (ptrs ! i - base) = ?t - of_nat (arg_bytes (drop i args))"
    using push_strings [OF f] assms(3) by auto
  obtain d where d: "?L \<le> d" "d \<le> ?L + 7" "sp1 AND NOT 7 = ?t - of_nat d" using align_down [of ?L ?t] s(1) by auto
  let ?ws = "of_nat ?n # 0 # ptrs"
  obtain sp m2 where w: "fold push_word (rev ?ws) (?t - of_nat d, m1) = (sp, m2)" by fastforce
  have r: "new_rsp = base + (sp - p)" "r' = m2"
    using assms(1) f d(3) w by (auto simp: push_args_def Let_def base_def)
  let ?e = "d + 8 * (?n + 2)"
  have sp: "sp = ?t - of_nat ?e" "words_at sp (?n + 2) m2 = ?ws"
    using push_words [OF _ w] s(2) assms(2) by (simp_all add: algebra_simps)
  have o: "m2 x = m1 x" if "x \<notin> below ?t d ?e" for x
    using push_words_outside [OF _ _ w, of x] that s(2) assms(2,3) d(2) by (simp add: algebra_simps)
  have "peek (p + (ptrs ! i - base)) (length (args ! i) + 1) m2 = args ! i @ [0]" if i: "i < ?n" for i
  proof -
    let ?k = "length (args ! i) + 1" and ?q = "arg_bytes (drop (Suc i) args)"
    have q: "arg_bytes (drop i args) = ?q + ?k" by (simp add: Cons_nth_drop_Suc [OF i, symmetric])
    have le: "arg_bytes (drop i args) \<le> ?L"
      using append_take_drop_id [of i args] by (metis arg_bytes_def le_add2 map_append sum_list_append)
    have "peek (?t - of_nat (?q + ?k)) ?k m2 = peek (?t - of_nat (?q + ?k)) ?k m1"
      by (rule peek_below_cong) (use le q d(1) assms(3) in \<open>auto simp: below_def intro!: o\<close>)
    then show ?thesis using s(4) [OF i] q by (metis (no_types, lifting))
  qed
  moreover have "m2 x = r x" if "x \<notin> below ?t 0 663" for x
    using that o [of x] s(3) [of x] d assms(2,3) by (auto simp: below_def)
  moreover have "new_rsp = USER_STACK_TOP - of_nat ?e" "p + (new_rsp - base) = sp" by (simp_all add: r sp(1) base_def)
  ultimately show ?thesis using s(2) sp(2) d assms(2,3) r(2) by (intro exI [of _ ?e] exI [of _ ptrs]) auto
qed

lemma collect_args_bounds:
  "used + arg_bytes (collect_args argv m used is) \<le> max used 512 \<and> length (collect_args argv m used is) \<le> length is"
  by (induction argv m used "is" rule: collect_args.induct) (auto simp: Let_def max_def add.assoc add.commute split: if_splits)

section \<open>The stack of the new program\<close>

lemma stack_page_frame:
  assumes "translate r pml4 (USER_STACK_TOP - 1) = Some p" "v AND NOT 0xfff = USER_STACK_TOP - 4096"
  shows "\<exists>a k. translate r pml4 v = Some a \<and> k \<le> 0xfff \<and> a = p - of_nat k"
proof -
  let ?page = "\<lambda>a :: u64. a AND NOT 0xfff"
  have "?page (USER_STACK_TOP - 1) = USER_STACK_TOP - 4096" by (simp add: USER_STACK_TOP_def)
  then have "translate r pml4 (USER_STACK_TOP - 4096) = Some (?page p)"
    using translate_pagewise [of r pml4 "USER_STACK_TOP - 1"] assms(1) by simp
  then obtain a where a: "translate r pml4 v = Some a" "?page a = ?page p"
    using translate_pagewise [of r pml4 v] assms(2) by (cases "translate r pml4 v") auto
  have p: "p AND 0xfff = 0xfff" using translate_offset [OF assms(1)] by (simp add: USER_STACK_TOP_def)
  define k where "k = unat (0xfff - (a AND 0xfff))"
  have le: "a AND 0xfff \<le> 0xfff" by (rule word_and_le1)
  then have "k \<le> 0xfff" by (simp add: k_def unat_sub)
  moreover have "a = p - of_nat k"
  proof -
    have "a - (a AND 0xfff) = p - 0xfff" using a(2) p unfolding not_fff fff_take_bit by simp
    then show ?thesis by (simp add: k_def algebra_simps)
  qed
  ultimately show ?thesis using a(1) by blast
qed

text \<open>
  C21. The arguments of \<^verbatim>\<open>exec\<close> do not reach the program. The initial stack pointer lies in the
  top page of the user stack, and the argument count, a null pointer, the argument pointers and
  the strings are laid out as if the page began at the physical address \<open>p\<close> of the stack's
  last byte. So the count is found at \<open>p\<close> plus the stack pointer's offset in the page,
  0xfff bytes too high: in the physical frame after the stack's, while no byte of the frame
  that the program sees as its stack page changes.
\<close>

theorem exec_args_outside_stack:
  assumes "translate r pml4 (USER_STACK_TOP - 1) = Some p"
    and "push_args p (collect_args argv m 0 [0..<16]) r = (new_rsp, r')"
  shows "new_rsp AND NOT 0xfff = USER_STACK_TOP - 4096 \<and>
    rd64 r' (p + (new_rsp AND 0xfff)) = of_nat (length (collect_args argv m 0 [0..<16])) \<and>
    (\<forall>v. v AND NOT 0xfff = USER_STACK_TOP - 4096 \<longrightarrow> (\<exists>a. translate r pml4 v = Some a \<and> r' a = r a))"
proof -
  let ?args = "collect_args argv m 0 [0..<16]" and ?base = "USER_STACK_TOP - 4096"
  have b: "length ?args \<le> 16" "arg_bytes ?args \<le> 512" using collect_args_bounds [of 0 argv m "[0..<16]"] by auto
  from push_args_layout [OF assms(2) b] obtain e ptrs where
    e: "new_rsp = USER_STACK_TOP - of_nat e" "16 \<le> e" "e \<le> 663"
    and w: "words_at (p + (new_rsp - ?base)) (length ?args + 2) r' = of_nat (length ?args) # 0 # ptrs"
    and o: "\<And>x. x \<notin> below (p + 4096) 0 663 \<Longrightarrow> r' x = r x" by blast
  have o12: "take_bit 12 new_rsp = new_rsp - ?base"
  proof -
    have x: "new_rsp - ?base = of_nat (4096 - e)" using e by (simp add: of_nat_diff)
    have "aligned ?base" by (simp add: aligned_def USER_STACK_TOP_def)
    moreover have "new_rsp = ?base + of_nat (4096 - e)" using x by (simp add: algebra_simps)
    ultimately have "take_bit 12 new_rsp = take_bit 12 (of_nat (4096 - e))" using take_bit_12_add by metis
    also have "\<dots> = of_nat (take_bit 12 (4096 - e))" by (simp add: take_bit_of_nat)
    also have "\<dots> = of_nat (4096 - e)" using e by (simp add: take_bit_eq_mod)
    finally show ?thesis using x by simp
  qed
  have "words_at (p + (new_rsp - ?base)) (length ?args + 2) r' ! 0 = of_nat (length ?args)" by (simp only: w nth_Cons_0)
  then have "rd64 r' (p + (new_rsp - ?base)) = of_nat (length ?args)" by simp
  moreover have "\<exists>a. translate r pml4 v = Some a \<and> r' a = r a" if pg: "v AND NOT 0xfff = ?base" for v
  proof -
    obtain a k where a: "translate r pml4 v = Some a" "k \<le> 0xfff" "a = p - of_nat k"
      using stack_page_frame [OF assms(1) pg] by blast
    have "p + 4096 - a = of_nat (4096 + k)" by (simp add: a(3))
    then have "unat (p + 4096 - a) = 4096 + k" using a(2) unat_offset [of "4096 + k"] by (simp only:) simp
    then have "r' a = r a" by (intro o) (simp add: below_def)
    with a(1) show ?thesis by blast
  qed
  ultimately show ?thesis using o12 unfolding not_fff fff_take_bit by simp
qed

text \<open>A program with the single argument \<^verbatim>\<open>a\<close>, its stack in a 1 GiB page at physical address 0.\<close>

definition arg_memory :: "u64 \<Rightarrow> u8" where
  "arg_memory = poke 0x200 [0x61] (wr64 0x100 0x200 (\<lambda>_. 0))"

definition stack_ram :: ram where
  "stack_ram = set_entry 0x5000 255 0x7003 (set_entry 0x7000 507 0x83 (\<lambda>_. 0))"

lemma arg_memory_args: "collect_args 0x100 arg_memory 0 [0..<16] = [[0x61]]"
proof -
  have r: "rd64 arg_memory 0x100 = 0x200" "rd64 arg_memory 0x108 = 0"
    unfolding arg_memory_def by (simp_all add: rd64_def poke_def wr64_def to_le_def upt_rec)
  have l: "arg_length 0x200 arg_memory = 1"
    by (simp add: arg_length_def upt_rec arg_memory_def poke_def wr64_def)
  have u: "[0..<16] = 0 # 1 # [2..<16::nat]" by (simp add: upt_rec)
  have "arg_memory 0x200 = 0x61" by (simp add: arg_memory_def poke_def)
  then have "peek 0x200 1 arg_memory = [0x61]" by (simp add: peek_def)
  then show ?thesis unfolding u collect_args.simps by (simp add: r l)
qed

lemma stack_ram_translate: "translate stack_ram 0x5000 (USER_STACK_TOP - 1) = Some 0x3fffffff"
proof -
  have "entry_at stack_ram 0x5000 255 = 0x7003" "entry_at stack_ram 0x7000 507 = 0x83"
    by (simp_all add: stack_ram_def entry_at_set_entry_same entry_at_set_entry_table)
  then show ?thesis by (simp add: translate_def Let_def USER_STACK_TOP_def)
qed

theorem exec_args_outside_stack_witness:
  "\<exists>new_rsp r'. push_args 0x3fffffff (collect_args 0x100 arg_memory 0 [0..<16]) stack_ram = (new_rsp, r') \<and>
     rd64 r' (0x3fffffff + (new_rsp AND 0xfff)) = 1"
proof -
  obtain new_rsp r' where e: "push_args 0x3fffffff (collect_args 0x100 arg_memory 0 [0..<16]) stack_ram = (new_rsp, r')"
    by fastforce
  from exec_args_outside_stack [OF stack_ram_translate e] show ?thesis using e by (auto simp: arg_memory_args)
qed

end
