(* ===== verification/Sys_Screen.thy ===== *)
theory Sys_Screen
  imports Sys_Process
begin

text \<open>
  Properties of the system calls for the screen and the clock: what \<^verbatim>\<open>fb_commit\<close> copies, and
  when \<^verbatim>\<open>nanosleep\<close> returns.
\<close>

section \<open>Copying a rectangle to the framebuffer\<close>

lemma poke_at_offset:
  fixes base :: u64
  assumes "d + length b \<le> 2 ^ 64"
  shows "poke (base + of_nat d) b m a =
    (if d \<le> unat (a - base) \<and> unat (a - base) < d + length b then b ! (unat (a - base) - d) else m a)"
proof (cases "b = []")
  case False
  define k where "k = a - base"
  have d: "unat (of_nat d :: u64) = d" using assms False by (intro unat_offset) (cases b, auto)
  have e: "a - (base + of_nat d) = k - of_nat d" by (simp add: k_def)
  have u: "unat (k - of_nat d) = (if d \<le> unat k then unat k - d else unat k + 2 ^ 64 - d)"
    using unat_sub_if' [of k "of_nat d"] d by simp
  show ?thesis
  proof (cases "d \<le> unat k")
    case True
    then show ?thesis using u by (auto simp: poke_def e k_def [symmetric])
  next
    case F: False
    then have "length b \<le> unat (k - of_nat d)" using u assms by simp
    then show ?thesis using F by (simp add: poke_def e k_def [symmetric])
  qed
qed auto

text \<open>The offset of a row of the rectangle in the framebuffer, in bytes.\<close>

abbreviation row_start :: "u64 \<Rightarrow> u64 \<Rightarrow> nat \<Rightarrow> nat \<Rightarrow> nat \<Rightarrow> nat" where
  "row_start x y stride bpp row \<equiv> ((unat y + row) * stride + unat x) * bpp"

text \<open>Reading from a buffer that a copy does not touch.\<close>

lemma peek_disjoint:
  fixes src dst :: u64
  assumes "\<And>a. unat (a - dst) < len \<Longrightarrow> \<not> unat (a - src) < total_len" "i + n \<le> total_len" "total_len \<le> 2 ^ 64"
    and "\<And>a. \<not> unat (a - dst) < len \<Longrightarrow> m' a = m a"
  shows "peek (src + of_nat i) n m' = peek (src + of_nat i) n m"
proof (rule peek_cong)
  fix j assume j: "j < n"
  then have "unat (of_nat (i + j) :: u64) = i + j" using assms(2,3) by (intro unat_offset) simp
  moreover have "src + of_nat i + of_nat j - src = of_nat (i + j)" by simp
  ultimately have "unat (src + of_nat i + of_nat j - src) < total_len" using assms(2) j by (simp only:)
  then show "m' (src + of_nat i + of_nat j) = m (src + of_nat i + of_nat j)" using assms(1,4) by blast
qed

definition copy_row :: "u64 \<Rightarrow> u64 \<Rightarrow> (nat \<Rightarrow> nat) \<Rightarrow> nat \<Rightarrow> nat \<Rightarrow> (u64 \<Rightarrow> u8) \<Rightarrow> u64 \<Rightarrow> u8" where
  "copy_row src dst st rb row m = poke (dst + of_nat (st row)) (peek (src + of_nat (row * rb)) rb m) m"

lemma commit_rows_fold:
  assumes "\<And>r. r \<in> set rows \<Longrightarrow> row_start x y (unat stride) (unat bpp) r + unat row_bytes \<le> unat fb_len"
  shows "commit_rows src dst fb_len x y stride bpp row_bytes rows m =
    fold (copy_row src dst (row_start x y (unat stride) (unat bpp)) (unat row_bytes)) rows m"
  using assms
proof (induction rows arbitrary: m)
  case (Cons r rows)
  let ?st = "row_start x y (unat stride) (unat bpp)"
  have d: "((y + of_nat r) * stride + x) * bpp = of_nat (?st r)" by (simp add: of_nat_mult of_nat_add)
  have l: "?st r + unat row_bytes \<le> unat fb_len" using Cons.prems by simp
  then have "?st r + unat row_bytes < 2 ^ 64" using u64_bound [of fb_len] by simp
  then have "unat (row_bytes + of_nat (?st r)) = unat row_bytes + ?st r" by (intro unat_add_offset) simp
  then have "\<not> fb_len < of_nat (?st r) + row_bytes" using l by (simp add: word_less_nat_alt add.commute)
  moreover have "of_nat r * row_bytes = of_nat (r * unat row_bytes)" by simp
  ultimately show ?case using Cons.IH [OF Cons.prems] unfolding commit_rows.simps Let_def d by (simp add: copy_row_def)
qed simp

lemma copy_rows_correct:
  fixes src dst :: u64 and m :: "u64 \<Rightarrow> u8"
  assumes fit: "\<And>r. r < n \<Longrightarrow> st r + rb \<le> len" "len \<le> 2 ^ 64" "n * rb \<le> 2 ^ 64"
    and rows: "\<And>r s. r < s \<Longrightarrow> st r + rb \<le> st s"
    and apart: "\<And>a. unat (a - dst) < len \<Longrightarrow> \<not> unat (a - src) < n * rb"
    and k: "k \<le> n"
  defines "m' \<equiv> fold (copy_row src dst st rb) [0..<k] m"
  shows "(\<forall>r<k. \<forall>c<rb. m' (dst + of_nat (st r + c)) = m (src + of_nat (r * rb + c))) \<and>
    (\<forall>a. (\<forall>r<k. \<not> (st r \<le> unat (a - dst) \<and> unat (a - dst) < st r + rb)) \<longrightarrow> m' a = m a)"
  using k unfolding m'_def
proof (induction k)
  case (Suc k)
  let ?m = "fold (copy_row src dst st rb) [0..<k] m"
  have ih: "\<And>r c. r < k \<Longrightarrow> c < rb \<Longrightarrow> ?m (dst + of_nat (st r + c)) = m (src + of_nat (r * rb + c))"
    "\<And>a. (\<And>r. r < k \<Longrightarrow> \<not> (st r \<le> unat (a - dst) \<and> unat (a - dst) < st r + rb)) \<Longrightarrow> ?m a = m a"
    using Suc by auto
  have kn: "k < n" using Suc.prems by simp
  have u: "unat (dst + of_nat (st r + c) - dst) = st r + c" if "r < n" "c < rb" for r c
    using unat_offset [of "st r + c"] fit(1) [OF that(1)] fit(2) that(2) by simp
  have "peek (src + of_nat (k * rb)) rb ?m = peek (src + of_nat (k * rb)) rb m"
  proof (rule peek_disjoint [OF apart _ fit(3)])
    show "k * rb + rb \<le> n * rb" using kn by (metis Suc_leI add.commute mult_Suc mult_le_mono1)
    fix a assume "\<not> unat (a - dst) < len"
    then show "?m a = m a" using fit(1) kn by (intro ih(2)) (meson less_le_trans order.strict_trans)
  qed
  then have step: "fold (copy_row src dst st rb) [0..<Suc k] m a = (if st k \<le> unat (a - dst) \<and> unat (a - dst) < st k + rb
      then m (src + of_nat (k * rb + (unat (a - dst) - st k))) else ?m a)" for a
    using poke_at_offset [of "st k" "peek (src + of_nat (k * rb)) rb m" dst ?m a] fit(1) [OF kn] fit(2)
    by (auto simp: copy_row_def algebra_simps)
  have "fold (copy_row src dst st rb) [0..<Suc k] m (dst + of_nat (st r + c)) = m (src + of_nat (r * rb + c))"
    if "r < Suc k" "c < rb" for r c
  proof (cases "r = k")
    case True
    then show ?thesis using step [of "dst + of_nat (st r + c)"] u [of r c] that kn by simp
  next
    case False
    then have "r < k" using that by simp
    then show ?thesis using step [of "dst + of_nat (st r + c)"] u [of r c] that kn rows [of r k] ih(1) [of r c] by simp
  qed
  moreover have "fold (copy_row src dst st rb) [0..<Suc k] m a = m a"
    if "\<forall>r<Suc k. \<not> (st r \<le> unat (a - dst) \<and> unat (a - dst) < st r + rb)" for a
    using step [of a] ih(2) [of a] that by auto
  ultimately show ?case by blast
qed simp

lemma rect_rows:
  assumes "x + w \<le> (fw :: nat)" "y + h \<le> fh" "fw \<le> stride" "fh * stride * bpp \<le> len"
  shows "r < h \<Longrightarrow> ((y + r) * stride + x) * bpp + w * bpp \<le> len"
    and "r < s \<Longrightarrow> ((y + r) * stride + x) * bpp + w * bpp \<le> ((y + s) * stride + x) * bpp"
    and "h * (w * bpp) \<le> len"
proof -
  assume "r < h"
  then have "(y + r) * stride + (x + w) \<le> (y + r) * stride + stride" "y + r + 1 \<le> fh" using assms by simp_all
  moreover have "(y + r) * stride + stride = (y + r + 1) * stride" by simp
  moreover have "(y + r + 1) * stride \<le> fh * stride" using calculation(2) by (intro mult_le_mono1)
  ultimately have "((y + r) * stride + (x + w)) * bpp \<le> fh * stride * bpp" by (intro mult_le_mono1) linarith
  then show "((y + r) * stride + x) * bpp + w * bpp \<le> len" using assms(4) by (simp add: algebra_simps)
next
  assume "r < s"
  then have "(y + r) * stride + stride \<le> (y + s) * stride"
    by (metis Suc_leI add_Suc_right add.commute mult_Suc mult_le_mono1 nat_add_left_cancel_le)
  then have "(y + r) * stride + x + w \<le> (y + s) * stride + x" using assms(1,3) by simp
  then have "((y + r) * stride + x + w) * bpp \<le> ((y + s) * stride + x) * bpp" by (rule mult_le_mono1)
  then show "((y + r) * stride + x) * bpp + w * bpp \<le> ((y + s) * stride + x) * bpp" by (simp add: algebra_simps)
next
  have "h * w \<le> fh * stride" using assms by (intro mult_le_mono) simp_all
  then have "h * w * bpp \<le> fh * stride * bpp" by (rule mult_le_mono1)
  then show "h * (w * bpp) \<le> len" using assms(4) unfolding mult.assoc [of h w] by (rule order_trans)
qed

text \<open>
  C22. \<^verbatim>\<open>fb_commit\<close> with a rectangle inside the screen and a buffer apart from the framebuffer
  returns 0; afterwards every byte of every row of the rectangle is the corresponding byte of
  the packed buffer, and no other byte of memory has changed.
\<close>

theorem fb_commit_correct:
  assumes "fb_wf (k_graphics k)" "g_info (k_graphics k) = Some i"
    and small: "fi_width i < 0x100000000" "fi_height i < 0x100000000" "fi_stride i < 0x100000000" "fi_bpp i < 0x100000000"
    and args: "buf_ptr \<noteq> 0" "0 < w" "0 < h" "unat x + unat w \<le> unat (fi_width i)" "unat y + unat h \<le> unat (fi_height i)"
    and apart: "\<And>a. unat (a - g_buffer (k_graphics k)) < unat (g_len (k_graphics k)) \<Longrightarrow>
      \<not> unat (a - buf_ptr) < unat h * (unat w * unat (fi_bpp i))"
  shows "\<exists>m. sys_fb_commit buf_ptr x y w h k = (set_mem m k, Ret 0) \<and>
    (\<forall>r < unat h. \<forall>c < unat w * unat (fi_bpp i).
       m (g_buffer (k_graphics k) + of_nat (((unat y + r) * unat (fi_stride i) + unat x) * unat (fi_bpp i) + c)) =
       memory_of k (buf_ptr + of_nat (r * (unat w * unat (fi_bpp i)) + c))) \<and>
    (\<forall>a. (\<forall>r < unat h. \<not> (((unat y + r) * unat (fi_stride i) + unat x) * unat (fi_bpp i) \<le> unat (a - g_buffer (k_graphics k)) \<and>
         unat (a - g_buffer (k_graphics k)) < ((unat y + r) * unat (fi_stride i) + unat x) * unat (fi_bpp i) + unat w * unat (fi_bpp i)))
       \<longrightarrow> m a = memory_of k a)"
proof -
  let ?g = "k_graphics k"
  let ?st = "row_start x y (unat (fi_stride i)) (unat (fi_bpp i))"
  let ?rb = "unat w * unat (fi_bpp i)"
  let ?m = "commit_rows buf_ptr (g_buffer ?g) (g_len ?g) x y (fi_stride i) (fi_bpp i) (w * fi_bpp i) [0..<unat h] (memory_of k)"
  have wf: "unat (fi_width i) \<le> unat (fi_stride i)" "unat (fi_height i) * unat (fi_stride i) * unat (fi_bpp i) \<le> unat (g_len ?g)"
    using assms(1,2) by (auto simp: fb_wf_def)
  note r = rect_rows [OF args(4,5) wf]
  have h: "1 \<le> unat h" using args(3) by (simp add: word_less_nat_alt)
  have "?rb \<le> unat (g_len ?g)" using r(1) [of 0] h by linarith
  then have "?rb < 2 ^ 64" using u64_bound [of "g_len ?g"] by simp
  then have rb: "unat (w * fi_bpp i) = ?rb" using unat_mult_lem [of w "fi_bpp i"] by simp
  have u: "ucast (ucast v :: u32) = v" if "v < 0x100000000" for v :: u64
    using that by (simp add: word_unat_eq_iff unsigned_ucast_eq take_bit_eq_mod word_less_nat_alt unat_mod_distrib)
  have add: "unat (x + w) = unat x + unat w" "unat (y + h) = unat y + unat h"
    using args(4,5) u64_bound [of "fi_width i"] u64_bound [of "fi_height i"] unat_add_lem [of x w] unat_add_lem [of y h] by simp_all
  have "\<not> (fi_width i \<le> x \<or> fi_height i \<le> y)" "\<not> x + w < x" "\<not> y + h < y" "\<not> (fi_width i < x + w \<or> fi_height i < y + h)"
    using add args by (simp_all add: word_le_nat_alt word_less_nat_alt)
  then have "sys_fb_commit buf_ptr x y w h k = (set_mem ?m k, Ret 0)"
    using args assms(2) by (simp add: sys_fb_commit_def get_fb_state_def u small Let_def word_gt_0)
  moreover have "?m = fold (copy_row buf_ptr (g_buffer ?g) ?st ?rb) [0..<unat h] (memory_of k)"
    unfolding rb [symmetric] by (rule commit_rows_fold) (simp add: rb r(1))
  moreover note copy_rows_correct [of "unat h" ?st ?rb "unat (g_len ?g)" "g_buffer ?g" buf_ptr "unat h" "memory_of k"]
  ultimately show ?thesis using r apart u64_bound [of "g_len ?g"] by (intro exI [of _ ?m]) auto
qed

definition screen_kernel :: kernel where
  "screen_kernel = demo_kernel\<lparr>k_graphics := demo_fb\<rparr>"

theorem fb_commit_correct_witness:
  "\<exists>m. sys_fb_commit 0x2000 1 1 2 1 screen_kernel = (set_mem m screen_kernel, Ret 0) \<and>
     m 0x1018 = memory_of screen_kernel 0x2000 \<and> m 0x1017 = memory_of screen_kernel 0x1017"
proof -
  let ?k = screen_kernel
  let ?i = "\<lparr>fi_width = 4, fi_height = 3, fi_stride = 5, fi_bpp = 4, fi_format = Bgr\<rparr>"
  have wf: "fb_wf (k_graphics ?k)" by (simp add: screen_kernel_def demo_fb_def fb_wf_def)
  have ap: "\<not> unat (a - 0x2000) < unat (1 :: u64) * (unat (2 :: u64) * unat (fi_bpp ?i))"
    if "unat (a - g_buffer (k_graphics ?k)) < unat (g_len (k_graphics ?k))" for a :: u64
  proof -
    define d where "d = a - 0x1000"
    have "unat d < 60" using that by (simp add: screen_kernel_def demo_fb_def d_def)
    moreover have "a - 0x2000 = d - 0x1000" by (simp add: d_def)
    moreover have "unat (d - 0x1000) = unat d + 2 ^ 64 - 0x1000" using calculation(1) unat_sub_if' [of d "0x1000"] by simp
    ultimately show ?thesis by simp
  qed
  obtain m where m: "sys_fb_commit 0x2000 1 1 2 1 ?k = (set_mem m ?k, Ret 0)"
    "\<forall>r < unat (1 :: u64). \<forall>c < unat (2 :: u64) * unat (fi_bpp ?i).
       m (g_buffer (k_graphics ?k) + of_nat (((unat (1 :: u64) + r) * unat (fi_stride ?i) + unat (1 :: u64)) * unat (fi_bpp ?i) + c)) =
       memory_of ?k (0x2000 + of_nat (r * (unat (2 :: u64) * unat (fi_bpp ?i)) + c))"
    "\<forall>a. (\<forall>r < unat (1 :: u64). \<not> (((unat (1 :: u64) + r) * unat (fi_stride ?i) + unat (1 :: u64)) * unat (fi_bpp ?i) \<le> unat (a - g_buffer (k_graphics ?k)) \<and>
         unat (a - g_buffer (k_graphics ?k)) < ((unat (1 :: u64) + r) * unat (fi_stride ?i) + unat (1 :: u64)) * unat (fi_bpp ?i) + unat (2 :: u64) * unat (fi_bpp ?i)))
       \<longrightarrow> m a = memory_of ?k a"
    using fb_commit_correct [OF wf, of ?i "0x2000" 2 1 1 1] ap by (auto simp: screen_kernel_def demo_fb_def)
  have "m 0x1018 = memory_of screen_kernel 0x2000" using m(2) [rule_format, of 0 0] by (simp add: screen_kernel_def demo_fb_def)
  moreover have "m 0x1017 = memory_of screen_kernel 0x1017" using m(3) [rule_format, of "0x1017"] by (simp add: screen_kernel_def demo_fb_def)
  ultimately show ?thesis using m(1) by blast
qed

section \<open>Sleeping\<close>

lemma sleep_until_eq: "sleep_until target ticks = max target ticks"
proof (induction target ticks rule: sleep_until.induct)
  case (1 target ticks)
  show ?case
  proof (cases "ticks < target")
    case True
    then have "unat (ticks + 1) \<le> unat target" using u64_bound [of target] unat_add_offset [of ticks 1] by (simp add: word_less_nat_alt)
    then have "time_tick ticks \<le> target" by (simp add: time_tick_def word_le_nat_alt)
    with True 1 show ?thesis by (subst sleep_until.simps) (simp add: max_def not_le [symmetric])
  next
    case False
    then show ?thesis by (subst sleep_until.simps) (auto simp: max_def not_less)
  qed
qed

text \<open>
  \<^verbatim>\<open>nanosleep\<close> returns exactly when it does not have to wait or the timer interrupt can come.
  With interrupts enabled it returns 0 once the clock reads the requested number of ticks later;
  with interrupts disabled, as they are in the system call's interrupt gate, a call that has
  to wait never returns. A sum that passes the end of the clock ends the sleep at once.
\<close>

theorem nanosleep_returns:
  "sys_nanosleep req_ticks k =
     (if req_ticks = 0 \<or> 2 ^ 64 \<le> unat (k_ticks k) + unat req_ticks then (k, Ret 0)
      else if k_interrupts k then (k\<lparr>k_ticks := k_ticks k + req_ticks\<rparr>, Ret 0)
      else (k, Stuck))"
proof -
  let ?t = "k_ticks k"
  have "unat (?t + req_ticks) = (if unat ?t + unat req_ticks < 2 ^ 64 then unat ?t + unat req_ticks
      else unat ?t + unat req_ticks - 2 ^ 64)" using unat_plus_if' [of ?t req_ticks] by simp
  then have l: "?t < ?t + req_ticks \<longleftrightarrow> \<not> (req_ticks = 0 \<or> 2 ^ 64 \<le> unat ?t + unat req_ticks)"
    using u64_bound [of req_ticks] by (auto simp: word_less_nat_alt unat_eq_0 [symmetric] simp del: unat_eq_0)
  have same: "k\<lparr>k_ticks := k_ticks k\<rparr> = k" by simp
  show ?thesis using l by (auto simp: sys_nanosleep_def sleep_until_eq Let_def max_def same less_imp_le not_less)
qed

end
