(* ===== verification/Windows.thy ===== *)
theory Windows
  imports Interfaces
begin

text \<open>
  The window list of the window manager, \<^verbatim>\<open>wm/src/window.rs\<close>: the windows and their bounds, the
  fixed table of sixteen slots, creation, removal, focus, the stacking order and the hit test.
  Coordinates are signed 32-bit words. The table is a \<open>handle_table\<close>.
\<close>

section \<open>Windows\<close>

definition MAX_WINDOWS :: nat where "MAX_WINDOWS = 16"
definition TITLE_BAR_HEIGHT :: u32 where "TITLE_BAR_HEIGHT = 24"
definition BORDER_WIDTH :: u32 where "BORDER_WIDTH = 2"

record Window =
  win_id :: u32
  win_x :: i32
  win_y :: i32
  win_width :: u32
  win_height :: u32
  z_order :: u32
  visible :: bool
  focused :: bool
  draggable :: bool
  content_buf :: u64
  content_len :: u64
  title :: bytes

definition win_empty :: Window where
  "win_empty = \<lparr>win_id = 0, win_x = 0, win_y = 0, win_width = 0, win_height = 0, z_order = 0, visible = False,
     focused = False, draggable = True, content_buf = 0, content_len = 0, title = replicate 32 0\<rparr>"

definition full_width :: "Window \<Rightarrow> u32" where
  "full_width w = win_width w + 2 * BORDER_WIDTH"

definition full_height :: "Window \<Rightarrow> u32" where
  "full_height w = win_height w + TITLE_BAR_HEIGHT + 2 * BORDER_WIDTH"

definition contains_point :: "i32 \<Rightarrow> i32 \<Rightarrow> Window \<Rightarrow> bool" where
  "contains_point px py w \<longleftrightarrow>
     win_x w \<le>s px \<and> px <s win_x w + full_width w \<and> win_y w \<le>s py \<and> py <s win_y w + full_height w"

definition is_in_title_bar :: "i32 \<Rightarrow> i32 \<Rightarrow> Window \<Rightarrow> bool" where
  "is_in_title_bar px py w \<longleftrightarrow>
     win_x w \<le>s px \<and> px <s win_x w + full_width w \<and> win_y w \<le>s py \<and> py <s win_y w + TITLE_BAR_HEIGHT"

definition set_title :: "bytes \<Rightarrow> Window \<Rightarrow> Window" where
  "set_title t w = (let len = min (length t) 31 in w\<lparr>title := (splice 0 (take len t) (title w))[len := 0]\<rparr>)"

definition title_bytes :: "Window \<Rightarrow> bytes" where
  "title_bytes w = take (case position (\<lambda>b. b = 0) (title w) of Some i \<Rightarrow> i | None \<Rightarrow> 32) (title w)"

section \<open>The window list\<close>

record WindowList =
  windows :: "Window list"
  wl_count :: u64
  next_id :: u32
  next_z :: u32

definition wl_new :: WindowList where
  "wl_new = \<lparr>windows = replicate MAX_WINDOWS win_empty, wl_count = 0, next_id = 1, next_z = 1\<rparr>"

text \<open>The first slot with an id; for id 0 the first empty one.\<close>

definition slot_of_id :: "u32 \<Rightarrow> WindowList \<Rightarrow> nat option" where
  "slot_of_id i l = find (\<lambda>k. win_id (windows l ! k) = i) [0..<MAX_WINDOWS]"

definition create :: "i32 \<Rightarrow> i32 \<Rightarrow> u32 \<Rightarrow> u32 \<Rightarrow> bytes \<Rightarrow> u64 \<Rightarrow> u64 \<Rightarrow> WindowList \<Rightarrow> WindowList \<times> u32" where
  "create x y w h t buf len l =
     (if of_nat MAX_WINDOWS \<le> wl_count l then (l, 0)
      else case slot_of_id 0 l of
        None \<Rightarrow> (l, 0)
      | Some k \<Rightarrow>
          let win = \<lparr>win_id = next_id l, win_x = x, win_y = y, win_width = w, win_height = h, z_order = next_z l,
                visible = True, focused = False, draggable = True, content_buf = buf, content_len = len,
                title = replicate 32 0\<rparr>
          in (l\<lparr>windows := (windows l)[k := set_title t win], wl_count := wl_count l + 1,
                next_id := next_id l + 1, next_z := next_z l + 1\<rparr>, next_id l))"

definition destroy :: "u32 \<Rightarrow> WindowList \<Rightarrow> WindowList \<times> bool" where
  "destroy i l =
     (case slot_of_id i l of
        None \<Rightarrow> (l, False)
      | Some k \<Rightarrow> (l\<lparr>windows := (windows l)[k := win_empty], wl_count := wl_count l - 1\<rparr>, True))"

definition update_window :: "nat \<Rightarrow> (Window \<Rightarrow> Window) \<Rightarrow> WindowList \<Rightarrow> WindowList" where
  "update_window k f l = l\<lparr>windows := (windows l)[k := f (windows l ! k)]\<rparr>"

definition move_window :: "u32 \<Rightarrow> i32 \<Rightarrow> i32 \<Rightarrow> WindowList \<Rightarrow> WindowList \<times> bool" where
  "move_window i x y l =
     (case slot_of_id i l of
        None \<Rightarrow> (l, False)
      | Some k \<Rightarrow> (update_window k (\<lambda>w. w\<lparr>win_x := x, win_y := y\<rparr>) l, True))"

definition raise_to_top :: "u32 \<Rightarrow> WindowList \<Rightarrow> WindowList \<times> bool" where
  "raise_to_top i l =
     (case slot_of_id i l of
        None \<Rightarrow> (l, False)
      | Some k \<Rightarrow> ((update_window k (\<lambda>w. w\<lparr>z_order := next_z l\<rparr>) l)\<lparr>next_z := next_z l + 1\<rparr>, True))"

definition set_focus :: "u32 \<Rightarrow> WindowList \<Rightarrow> WindowList" where
  "set_focus i l = fold (\<lambda>k. update_window k (\<lambda>w. w\<lparr>focused := (win_id w = i)\<rparr>)) [0..<MAX_WINDOWS] l"

definition focused_id :: "WindowList \<Rightarrow> u32" where
  "focused_id l =
     (case find (\<lambda>k. win_id (windows l ! k) \<noteq> 0 \<and> focused (windows l ! k)) [0..<MAX_WINDOWS] of
        Some k \<Rightarrow> win_id (windows l ! k) | None \<Rightarrow> 0)"

definition shown :: "Window \<Rightarrow> bool" where
  "shown w \<longleftrightarrow> win_id w \<noteq> 0 \<and> visible w"

definition hit_test :: "i32 \<Rightarrow> i32 \<Rightarrow> WindowList \<Rightarrow> u32" where
  "hit_test px py l =
     snd (fold (\<lambda>k (top_z, hit_id).
       let w = windows l ! k in
       if \<not> shown w then (top_z, hit_id)
       else if contains_point px py w \<and> top_z \<le> z_order w then (z_order w, win_id w) else (top_z, hit_id))
       [0..<MAX_WINDOWS] (0, 0))"

definition win_get :: "u32 \<Rightarrow> WindowList \<Rightarrow> Window option" where
  "win_get i l = map_option (\<lambda>k. windows l ! k) (slot_of_id i l)"

text \<open>The iterator in stacking order: the indices of the visible windows, sorted in place.\<close>

definition collect_visible :: "WindowList \<Rightarrow> nat list \<times> nat" where
  "collect_visible l =
     fold (\<lambda>i (indices, n). if shown (windows l ! i) then (indices[n := i], n + 1) else (indices, n))
       [0..<MAX_WINDOWS] (replicate MAX_WINDOWS 0, 0)"

fun sift :: "(nat \<Rightarrow> u32) \<Rightarrow> nat \<Rightarrow> nat \<Rightarrow> nat list \<Rightarrow> nat list" where
  "sift z key 0 indices = indices[0 := key]"
| "sift z key (Suc j) indices =
     (if z key < z (indices ! j) then sift z key j (indices[Suc j := indices ! j]) else indices[Suc j := key])"

definition insertion_sort :: "(nat \<Rightarrow> u32) \<Rightarrow> nat \<Rightarrow> nat list \<Rightarrow> nat list" where
  "insertion_sort z n indices = fold (\<lambda>i ix. sift z (ix ! i) i ix) [1..<n] indices"

definition iter_z_order :: "WindowList \<Rightarrow> Window list" where
  "iter_z_order l =
     (case collect_visible l of (indices, n) \<Rightarrow>
        map (\<lambda>i. windows l ! i) (take n (insertion_sort (\<lambda>i. z_order (windows l ! i)) n indices)))"

section \<open>The sort\<close>

fun ins :: "('a \<Rightarrow> 'b::linorder) \<Rightarrow> 'a \<Rightarrow> 'a list \<Rightarrow> 'a list" where
  "ins f x [] = [x]"
| "ins f x (y # ys) = (if f y \<le> f x then y # ins f x ys else x # y # ys)"

lemma ins_insort: "insort_key f a (ins f x ys) = ins f x (insort_key f a ys)"
  by (induction ys) auto

lemma ins_foldr: "foldr (insort_key f) xs (ins f x ys) = ins f x (foldr (insort_key f) xs ys)"
  by (induction xs) (simp_all add: ins_insort)

lemma sort_key_snoc: "sort_key f (xs @ [x]) = ins f x (sort_key f xs)"
  using ins_foldr [of f xs x "[]"] by (simp add: sort_key_def)

lemma ins_snoc:
  "f b > f x \<Longrightarrow> ins f x (ys @ [b]) = ins f x ys @ [b]"
  "(\<And>y. y \<in> set ys \<Longrightarrow> f y \<le> f x) \<Longrightarrow> ins f x ys = ys @ [x]"
  by (induction ys) auto

lemma sift_ins:
  assumes "sorted (map z (take j ix))" "j < length ix"
  shows "sift z key j ix = ins z key (take j ix) @ drop (Suc j) ix"
  using assms
proof (induction z key j ix rule: sift.induct)
  case (1 z key ix)
  then show ?case by (cases ix) simp_all
next
  case (2 z key j ix)
  let ?ix = "ix[Suc j := ix ! j]"
  have t: "take (Suc j) ix = take j ix @ [ix ! j]" using 2 by (simp add: take_Suc_conv_app_nth)
  have s: "sorted (map z (take j ix))" and le: "\<And>y. y \<in> set (take j ix) \<Longrightarrow> z y \<le> z (ix ! j)"
    using 2(2) by (auto simp: t sorted_append)
  show ?case
  proof (cases "z key < z (ix ! j)")
    case True
    have "drop (Suc j) ?ix = ix ! j # drop (Suc (Suc j)) ix"
      using 2(3) by (simp add: drop_update_swap Cons_nth_drop_Suc [symmetric])
    then show ?thesis using 2(1) [OF True] s 2(3) True by (simp add: t ins_snoc(1))
  next
    case False
    have "ins z key (take (Suc j) ix) = take (Suc j) ix @ [key]"
      by (rule ins_snoc(2)) (use le False in \<open>fastforce simp: t not_less\<close>)
    then show ?thesis using False 2(3) by (simp add: upd_conv_take_nth_drop)
  qed
qed

lemma insertion_sort_correct:
  assumes "n \<le> length ix"
  shows "take n (insertion_sort z n ix) = sort_key z (take n ix)"
proof -
  have "\<forall>k. 1 \<le> k \<longrightarrow> k \<le> n \<longrightarrow> (let r = fold (\<lambda>i ix. sift z (ix ! i) i ix) [1..<k] ix in
    take k r = sort_key z (take k ix) \<and> drop k r = drop k ix \<and> length r = length ix)"
  proof (intro allI impI)
    fix k assume "1 \<le> k" "k \<le> n"
    then show "let r = fold (\<lambda>i ix. sift z (ix ! i) i ix) [1..<k] ix in
      take k r = sort_key z (take k ix) \<and> drop k r = drop k ix \<and> length r = length ix"
    proof (induction k rule: nat_induct_at_least)
      case base
      then have "ix \<noteq> []" using assms by auto
      then show ?case by (cases ix) simp_all
    next
      case (Suc k)
      define r where "r = fold (\<lambda>i ix. sift z (ix ! i) i ix) [1..<k] ix"
      have ih: "take k r = sort_key z (take k ix)" "drop k r = drop k ix" "length r = length ix"
        using Suc by (simp_all add: r_def Let_def)
      have k: "k < length r" using Suc.prems assms ih(3) by simp
      have key: "r ! k = ix ! k" using ih(2,3) k by (metis hd_drop_conv_nth)
      have "sift z (r ! k) k r = ins z (ix ! k) (sort_key z (take k ix)) @ drop (Suc k) r"
        using sift_ins [of z k r "r ! k"] k ih(1) key by (simp add: sorted_sort_key)
      also have "ins z (ix ! k) (sort_key z (take k ix)) = sort_key z (take (Suc k) ix)"
        using k ih(3) by (simp add: take_Suc_conv_app_nth sort_key_snoc)
      finally have s: "sift z (r ! k) k r = sort_key z (take (Suc k) ix) @ drop (Suc k) r" .
      have "drop (Suc k) r = drop (Suc k) ix" using ih(2) by (metis drop_Suc tl_drop)
      then have "sift z (r ! k) k r = sort_key z (take (Suc k) ix) @ drop (Suc k) ix" using s by simp
      moreover have "length (sort_key z (take (Suc k) ix)) = Suc k" using k ih(3) by simp
      moreover have "fold (\<lambda>i ix. sift z (ix ! i) i ix) [1..<Suc k] ix = sift z (r ! k) k r"
        using Suc.hyps by (simp add: r_def)
      ultimately show ?case using k ih(3) by (simp add: Let_def)
    qed
  qed
  then show ?thesis by (cases n) (auto simp: insertion_sort_def Let_def)
qed

section \<open>Stacking order and hit test\<close>

lemma collect_visible_eq:
  "k \<le> MAX_WINDOWS \<Longrightarrow>
   fold (\<lambda>i (indices, n). if shown (windows l ! i) then (indices[n := i], n + 1) else (indices, n)) [0..<k] (replicate MAX_WINDOWS 0, 0) =
     (let vs = filter (\<lambda>i. shown (windows l ! i)) [0..<k] in (vs @ replicate (MAX_WINDOWS - length vs) 0, length vs))"
proof (induction k)
  case (Suc k)
  let ?vs = "filter (\<lambda>i. shown (windows l ! i)) [0..<k]"
  have "length ?vs < MAX_WINDOWS" using length_filter_le [of "\<lambda>i. shown (windows l ! i)" "[0..<k]"] Suc.prems by simp
  then obtain m where m: "MAX_WINDOWS - length ?vs = Suc m" by (metis Suc_diff_Suc)
  then have "MAX_WINDOWS - Suc (length ?vs) = m" by simp
  with Suc m show ?case by (simp add: Let_def list_update_append)
qed simp

definition visible_windows :: "WindowList \<Rightarrow> Window list" where
  "visible_windows l = filter shown (take MAX_WINDOWS (windows l))"

lemma visible_windows_eq:
  "length (windows l) = MAX_WINDOWS \<Longrightarrow>
   visible_windows l = map (\<lambda>i. windows l ! i) (filter (\<lambda>i. shown (windows l ! i)) [0..<MAX_WINDOWS])"
proof -
  assume a: "length (windows l) = MAX_WINDOWS"
  have "map (\<lambda>i. windows l ! i) [0..<MAX_WINDOWS] = windows l" using a map_nth [of "windows l"] by simp
  then have "filter shown (windows l) = filter shown (map (\<lambda>i. windows l ! i) [0..<MAX_WINDOWS])" by simp
  then show ?thesis using a by (simp add: visible_windows_def filter_map comp_def)
qed

lemma sort_key_map: "sort_key f (map g xs) = map g (sort_key (\<lambda>x. f (g x)) xs)"
proof (induction xs rule: rev_induct)
  case (snoc x xs)
  have "ins f (g x) (map g ys) = map g (ins (\<lambda>x. f (g x)) x ys)" for ys by (induction ys) auto
  with snoc show ?case by (simp add: sort_key_snoc)
qed simp

lemma iter_z_order_sorted:
  assumes "length (windows l) = MAX_WINDOWS"
  shows "iter_z_order l = sort_key z_order (visible_windows l)"
proof -
  let ?vs = "filter (\<lambda>i. shown (windows l ! i)) [0..<MAX_WINDOWS]"
  have "collect_visible l = (?vs @ replicate (MAX_WINDOWS - length ?vs) 0, length ?vs)"
    using collect_visible_eq [of MAX_WINDOWS l] by (simp add: collect_visible_def Let_def)
  then have "iter_z_order l = map (\<lambda>i. windows l ! i) (sort_key (\<lambda>i. z_order (windows l ! i)) ?vs)"
    by (simp add: iter_z_order_def insertion_sort_correct)
  then show ?thesis using visible_windows_eq [OF assms] by (simp add: sort_key_map)
qed

text \<open>The running maximum that keeps the later of equal keys is the last one of the stable sort.\<close>

lemma last_ins:
  "last (ins f x ys) = (if ys = [] \<or> f (last ys) \<le> f x then x else last ys)" if "sorted (map f ys)"
  using that
proof (induction ys)
  case (Cons y ys)
  have e: "ins f x ys \<noteq> []" by (cases ys) auto
  show ?case
  proof (cases "ys = []")
    case False
    then have "f y \<le> f (last ys)" using Cons.prems by simp
    then have "f x < f (last ys)" if "\<not> f y \<le> f x" using that by (meson not_le order.strict_trans1 order.strict_trans2)
    then show ?thesis using Cons e False by (auto simp: not_le)
  qed simp
qed simp

lemma top_of_sorted:
  fixes f :: "'a \<Rightarrow> u32"
  shows "fold (\<lambda>w (z, h). if z \<le> f w then (f w, g w) else (z, h)) ws (0, 0) =
    (if ws = [] then (0, 0) else let w = last (sort_key f ws) in (f w, g w))"
proof (induction ws rule: rev_induct)
  case (snoc w ws)
  show ?case
  proof (cases "ws = []")
    case False
    then have "sort_key f ws \<noteq> []" by (metis length_0_conv length_sort)
    with False snoc show ?thesis by (simp add: sort_key_snoc last_ins Let_def)
  qed (simp add: sort_key_def)
qed simp

lemma hit_test_eq:
  assumes "length (windows l) = MAX_WINDOWS"
  shows "hit_test px py l = (let ws = filter (contains_point px py) (iter_z_order l) in if ws = [] then 0 else win_id (last ws))"
proof -
  let ?c = "contains_point px py"
  let ?step = "\<lambda>w (z, h). if z \<le> z_order w then (z_order w, win_id w) else (z, h)"
  have f: "fold (\<lambda>w (z, h). if \<not> shown w then (z, h) else if ?c w \<and> z \<le> z_order w then (z_order w, win_id w) else (z, h)) ws s =
      fold ?step (filter ?c (filter shown ws)) s" for ws s
    by (induction ws arbitrary: s) (auto simp: Let_def)
  have "hit_test px py l = snd (fold (\<lambda>w (z, h). if \<not> shown w then (z, h) else
      if ?c w \<and> z \<le> z_order w then (z_order w, win_id w) else (z, h)) (map (\<lambda>i. windows l ! i) [0..<MAX_WINDOWS]) (0, 0))"
    by (simp add: hit_test_def fold_map comp_def Let_def)
  also have "map (\<lambda>i. windows l ! i) [0..<MAX_WINDOWS] = windows l" using assms map_nth [of "windows l"] by simp
  finally have h: "hit_test px py l = snd (fold ?step (filter ?c (visible_windows l)) (0, 0))"
    using assms by (simp add: f visible_windows_def)
  have "filter ?c (iter_z_order l) = sort_key z_order (filter ?c (visible_windows l))"
    by (simp add: iter_z_order_sorted [OF assms] filter_sort)
  moreover have "sort_key z_order ws = [] \<longleftrightarrow> ws = []" for ws :: "Window list" by (metis length_0_conv length_sort)
  ultimately show ?thesis unfolding h top_of_sorted by (simp add: Let_def)
qed

section \<open>The table of windows\<close>

definition used_slots :: "WindowList \<Rightarrow> nat set" where
  "used_slots l = {k. k < MAX_WINDOWS \<and> win_id (windows l ! k) \<noteq> 0}"

definition wl_wf :: "WindowList \<Rightarrow> bool" where
  "wl_wf l \<longleftrightarrow> length (windows l) = MAX_WINDOWS \<and> next_id l \<noteq> 0 \<and> wl_count l = of_nat (card (used_slots l)) \<and>
     (\<forall>k<MAX_WINDOWS. win_id (windows l ! k) < next_id l \<and> length (title (windows l ! k)) = 32) \<and>
     (\<forall>j<MAX_WINDOWS. \<forall>k<MAX_WINDOWS. win_id (windows l ! j) = win_id (windows l ! k) \<longrightarrow> win_id (windows l ! j) \<noteq> 0 \<longrightarrow> j = k)"

definition win_map :: "WindowList \<Rightarrow> u32 \<Rightarrow> Window option" where
  "win_map l i = (if i = 0 then None else win_get i l)"

lemma wl_wfD:
  assumes "wl_wf l"
  shows "length (windows l) = MAX_WINDOWS" "next_id l \<noteq> 0" "wl_count l = of_nat (card (used_slots l))"
    "\<And>k. k < MAX_WINDOWS \<Longrightarrow> win_id (windows l ! k) < next_id l" "\<And>k. k < MAX_WINDOWS \<Longrightarrow> length (title (windows l ! k)) = 32"
    "\<And>j k. j < MAX_WINDOWS \<Longrightarrow> k < MAX_WINDOWS \<Longrightarrow> win_id (windows l ! j) = win_id (windows l ! k) \<Longrightarrow> win_id (windows l ! j) \<noteq> 0 \<Longrightarrow> j = k"
  using assms by (auto simp: wl_wf_def)

lemma used_slots_finite [simp]: "finite (used_slots l)" "card (used_slots l) \<le> MAX_WINDOWS"
proof -
  have "used_slots l \<subseteq> {..<MAX_WINDOWS}" by (auto simp: used_slots_def)
  then show "finite (used_slots l)" "card (used_slots l) \<le> MAX_WINDOWS"
    using finite_subset card_mono [of "{..<MAX_WINDOWS}" "used_slots l"] by auto
qed

lemma slot_of_id_Some:
  "wl_wf l \<Longrightarrow> i \<noteq> 0 \<Longrightarrow> slot_of_id i l = Some k \<longleftrightarrow> k < MAX_WINDOWS \<and> win_id (windows l ! k) = i"
  using wl_wfD(6) [of l] by (auto simp: slot_of_id_def find_upt_Some_iff) (metis less_imp_not_less less_trans nat_neq_iff)

lemma slot_of_id_None: "slot_of_id i l = None \<longleftrightarrow> (\<forall>k<MAX_WINDOWS. win_id (windows l ! k) \<noteq> i)"
  by (auto simp: slot_of_id_def find_upt_None_iff)

lemma win_map_Some:
  "wl_wf l \<Longrightarrow> win_map l i = Some w \<longleftrightarrow> i \<noteq> 0 \<and> win_id w = i \<and> (\<exists>k<MAX_WINDOWS. windows l ! k = w)"
  by (auto simp: win_map_def win_get_def slot_of_id_Some)

lemma win_map_dom: "wl_wf l \<Longrightarrow> dom (win_map l) = (\<lambda>k. win_id (windows l ! k)) ` used_slots l"
  by (auto simp: dom_def win_map_Some used_slots_def)

lemma win_map_card:
  assumes "wl_wf l"
  shows "finite (dom (win_map l))" "card (dom (win_map l)) = card (used_slots l)"
proof -
  have "inj_on (\<lambda>k. win_id (windows l ! k)) (used_slots l)"
    using wl_wfD(6) [OF assms] by (auto simp: inj_on_def used_slots_def)
  then show "finite (dom (win_map l))" "card (dom (win_map l)) = card (used_slots l)"
    using win_map_dom [OF assms] by (simp_all add: card_image)
qed

text \<open>A window list is determined, as a map, by its slots.\<close>

lemma win_map_update:
  assumes w: "wl_wf l" and w': "wl_wf l'" and k: "k < MAX_WINDOWS" and l': "windows l' = (windows l)[k := v]"
  shows "win_map l' = (\<lambda>i. if i \<noteq> 0 \<and> i = win_id v then Some v else if i = win_id (windows l ! k) then None else win_map l i)"
proof (rule ext)
  fix i
  have nth: "windows l' ! j = (if j = k then v else windows l ! j)" if "j < MAX_WINDOWS" for j
    using that k wl_wfD(1) [OF w] by (simp add: l')
  show "win_map l' i = (if i \<noteq> 0 \<and> i = win_id v then Some v else if i = win_id (windows l ! k) then None else win_map l i)"
  proof (cases "i \<noteq> 0 \<and> i = win_id v")
    case True
    then show ?thesis using win_map_Some [OF w', of i v] nth [OF k] k by auto
  next
    case False
    have "win_map l' i = Some u \<longleftrightarrow> i \<noteq> win_id (windows l ! k) \<and> win_map l i = Some u" for u
      using win_map_Some [OF w', of i u] win_map_Some [OF w, of i u] nth k False wl_wfD(6) [OF w, of _ k] by (metis (no_types, lifting))
    then show ?thesis using False by (metis not_None_eq)
  qed
qed

lemma used_slots_update:
  assumes "length (windows l) = MAX_WINDOWS" "k < MAX_WINDOWS" "windows l' = (windows l)[k := v]"
  shows "used_slots l' = (if win_id v = 0 then used_slots l - {k} else insert k (used_slots l))"
  using assms by (auto simp: used_slots_def nth_list_update split: if_splits)

lemma wl_wf_update:
  assumes w: "wl_wf l" and k: "k < MAX_WINDOWS" and l': "windows l' = (windows l)[k := v]"
    and n: "next_id l \<le> next_id l'" "win_id v < next_id l'" and t: "length (title v) = 32"
    and d: "\<And>j. j < MAX_WINDOWS \<Longrightarrow> j \<noteq> k \<Longrightarrow> win_id (windows l ! j) = win_id v \<Longrightarrow> win_id v = 0"
    and c: "wl_count l' = of_nat (card (used_slots l'))"
  shows "wl_wf l'"
proof -
  note w = wl_wfD [OF w]
  have nth: "windows l' ! j = (if j = k then v else windows l ! j)" if "j < MAX_WINDOWS" for j
    using that k w(1) by (simp add: l')
  have "win_id (windows l' ! j) < next_id l'" if "j < MAX_WINDOWS" for j
    using that nth [OF that] w(4) [OF that] n by (auto intro: order.strict_trans2)
  moreover have "next_id l' \<noteq> 0" using n(2) by auto
  moreover have "i = j" if "i < MAX_WINDOWS" "j < MAX_WINDOWS" "win_id (windows l' ! i) = win_id (windows l' ! j)" "win_id (windows l' ! i) \<noteq> 0" for i j
    using that nth [OF that(1)] nth [OF that(2)] w(6) [of i j] d [of i] d [of j] by (auto split: if_splits)
  moreover have "length (title (windows l' ! j)) = 32" if "j < MAX_WINDOWS" for j
    using nth [OF that] w(5) [OF that] t by simp
  moreover have "length (windows l') = MAX_WINDOWS" using w(1) by (simp add: l')
  ultimately show ?thesis unfolding wl_wf_def using c by blast
qed

lemma count_small: "wl_wf l \<Longrightarrow> unat (wl_count l) = card (used_slots l)"
proof -
  assume "wl_wf l"
  moreover have "card (used_slots l) < 2 ^ 64" using used_slots_finite(2) [of l] by (simp add: MAX_WINDOWS_def)
  ultimately show ?thesis using of_nat_inverse [of "card (used_slots l)" "wl_count l"] wl_wfD(3) by simp
qed

lemma create_full:
  assumes "wl_wf l"
  shows "of_nat MAX_WINDOWS \<le> wl_count l \<longleftrightarrow> card (used_slots l) = MAX_WINDOWS"
    and "slot_of_id 0 l = None \<longleftrightarrow> card (used_slots l) = MAX_WINDOWS"
proof -
  show "of_nat MAX_WINDOWS \<le> wl_count l \<longleftrightarrow> card (used_slots l) = MAX_WINDOWS"
    using count_small [OF assms] used_slots_finite(2) [of l] by (simp add: word_le_nat_alt MAX_WINDOWS_def)
  have sub: "used_slots l \<subseteq> {..<MAX_WINDOWS}" by (auto simp: used_slots_def)
  have "card (used_slots l) = MAX_WINDOWS \<longleftrightarrow> used_slots l = {..<MAX_WINDOWS}"
    by (metis card_lessThan card_subset_eq finite_lessThan sub)
  also have "\<dots> \<longleftrightarrow> (\<forall>k<MAX_WINDOWS. win_id (windows l ! k) \<noteq> 0)"
    unfolding used_slots_def set_eq_iff by (simp only: mem_Collect_eq lessThan_iff) blast
  finally show "slot_of_id 0 l = None \<longleftrightarrow> card (used_slots l) = MAX_WINDOWS" by (simp only: slot_of_id_None)
qed

definition new_window :: "u32 \<Rightarrow> u32 \<Rightarrow> i32 \<Rightarrow> i32 \<Rightarrow> u32 \<Rightarrow> u32 \<Rightarrow> bytes \<Rightarrow> u64 \<Rightarrow> u64 \<Rightarrow> Window" where
  "new_window i z x y w h t buf len = set_title t \<lparr>win_id = i, win_x = x, win_y = y, win_width = w, win_height = h,
     z_order = z, visible = True, focused = False, draggable = True, content_buf = buf, content_len = len, title = replicate 32 0\<rparr>"

lemma new_window_simps [simp]:
  "win_id (new_window i z x y w h t buf len) = i" "length (title (new_window i z x y w h t buf len)) = 32"
  "z_order (new_window i z x y w h t buf len) = z" "visible (new_window i z x y w h t buf len)"
  by (simp_all add: new_window_def set_title_def Let_def)

lemma win_empty_simps [simp]: "win_id win_empty = 0" "length (title win_empty) = 32"
  by (simp_all add: win_empty_def)

lemma create_spec:
  assumes w: "wl_wf l" and room: "next_id l + 1 \<noteq> 0" and c: "create x y wd ht t buf len l = (l', i)" "i \<noteq> 0"
  shows "i = next_id l \<and> wl_wf l' \<and> win_map l i = None \<and> win_map l' = (win_map l)(i \<mapsto> new_window i (next_z l) x y wd ht t buf len)"
proof -
  let ?v = "new_window (next_id l) (next_z l) x y wd ht t buf len"
  obtain k where k: "slot_of_id 0 l = Some k" using c by (cases "slot_of_id 0 l") (auto simp: create_def split: if_splits)
  have l': "l' = l\<lparr>windows := (windows l)[k := ?v], wl_count := wl_count l + 1, next_id := next_id l + 1, next_z := next_z l + 1\<rparr>" "i = next_id l"
    using c k by (auto simp: create_def Let_def new_window_def split: if_splits)
  have kk: "k < MAX_WINDOWS" "win_id (windows l ! k) = 0" using k by (auto simp: slot_of_id_def find_upt_Some_iff)
  have ws: "windows l' = (windows l)[k := ?v]" by (simp add: l')
  have lt: "next_id l < next_id l + 1" using room by (simp add: word_less_succ)
  have u: "used_slots l' = insert k (used_slots l)" "k \<notin> used_slots l"
    using used_slots_update [OF wl_wfD(1) [OF w] kk(1) ws] wl_wfD(2) [OF w] kk(2) by (auto simp: used_slots_def)
  have wf: "wl_wf l'"
  proof (rule wl_wf_update [OF w kk(1) ws])
    show "wl_count l' = of_nat (card (used_slots l'))" using u wl_wfD(3) [OF w] by (simp add: l')
    show "win_id ?v = 0" if "j < MAX_WINDOWS" "win_id (windows l ! j) = win_id ?v" for j
      using wl_wfD(4) [OF w that(1)] that(2) by simp
  qed (use lt in \<open>simp_all add: l'\<close>)
  have none: "win_map l (next_id l) = None" 
  proof (rule ccontr)
    assume "win_map l (next_id l) \<noteq> None"
    then obtain v j where "j < MAX_WINDOWS" "win_id (windows l ! j) = next_id l" using win_map_Some [OF w] by auto
    then show False using wl_wfD(4) [OF w, of j] by simp
  qed
  have "win_map l' = (win_map l)(next_id l \<mapsto> ?v)"
    using win_map_update [OF w wf kk(1) ws] wl_wfD(2) [OF w] kk(2) by (auto simp: fun_eq_iff win_map_def)
  with wf none l'(2) show ?thesis by simp
qed

lemma create_zero:
  "wl_wf l \<Longrightarrow> create x y wd ht t buf len l = (l', 0) \<Longrightarrow> l' = l"
  using wl_wfD(2) by (auto simp: create_def Let_def split: if_splits option.splits)

lemma create_fails:
  "wl_wf l \<Longrightarrow> snd (create x y wd ht t buf len l) = 0 \<longleftrightarrow> card (dom (win_map l)) = MAX_WINDOWS"
  using create_full [of l] wl_wfD(2) [of l] by (auto simp: create_def Let_def win_map_card split: option.splits)

lemma destroy_spec:
  assumes w: "wl_wf l" "i \<noteq> 0" "destroy i l = (l', b)"
  shows "wl_wf l' \<and> (b \<longleftrightarrow> win_map l i \<noteq> None) \<and> win_map l' = (win_map l)(i := None) \<and> (\<not> b \<longrightarrow> l' = l)"
proof (cases "slot_of_id i l")
  case None
  then have "win_map l i = None" by (simp add: win_map_def win_get_def)
  then show ?thesis using None assms by (auto simp: destroy_def)
next
  case (Some k)
  then have k: "k < MAX_WINDOWS" "win_id (windows l ! k) = i" using slot_of_id_Some [OF w(1,2)] by auto
  have l': "l' = l\<lparr>windows := (windows l)[k := win_empty], wl_count := wl_count l - 1\<rparr>" b using w(3) Some by (auto simp: destroy_def)
  have ws: "windows l' = (windows l)[k := win_empty]" by (simp add: l')
  have u: "used_slots l' = used_slots l - {k}" "k \<in> used_slots l"
    using used_slots_update [OF wl_wfD(1) [OF w(1)] k(1) ws] k w(2) by (auto simp: used_slots_def)
  then have "card (used_slots l) = Suc (card (used_slots l'))" using card_Suc_Diff1 [of "used_slots l" k] by simp
  then have "wl_count l' = of_nat (card (used_slots l'))" using wl_wfD(3) [OF w(1)] l'(1) by (metis (no_types, lifting) WindowList.select_convs(2) WindowList.surjective WindowList.update_convs(1,2) add_diff_cancel_left' of_nat_Suc)
  then have wf: "wl_wf l'"
    using wl_wfD(2) [OF w(1)] by (intro wl_wf_update [OF w(1) k(1) ws]) (simp_all add: l' word_gt_0)
  moreover have "win_map l' = (win_map l)(i := None)"
    using win_map_update [OF w(1) wf k(1) ws] k(2) by (auto simp: fun_eq_iff)
  moreover have "win_map l i \<noteq> None" using Some w(2) by (simp add: win_map_def win_get_def)
  ultimately show ?thesis using l'(2) by simp
qed

text \<open>The window list as a table that hands out ids.\<close>

type_synonym window_args = "i32 \<times> i32 \<times> u32 \<times> u32 \<times> bytes \<times> u64 \<times> u64"

fun create_entry :: "window_args \<Rightarrow> WindowList \<Rightarrow> WindowList \<times> u32 option" where
  "create_entry (x, y, w, h, t, buf, len) l =
     (case create x y w h t buf len l of (l', i) \<Rightarrow> (l', if i = 0 then None else Some i))"

fun window_entry :: "WindowList \<Rightarrow> window_args \<Rightarrow> Window" where
  "window_entry l (x, y, w, h, t, buf, len) = new_window (next_id l) (next_z l) x y w h t buf len"

interpretation wins: handle_table wl_wf "\<lambda>l. next_id l + 1 \<noteq> 0" "\<lambda>i. i \<noteq> 0" "\<lambda>_. True" win_map
  create_entry window_entry destroy MAX_WINDOWS
proof (unfold_locales, goal_cases)
  case (1 l a l' i)
  obtain x y w h t buf len where a: "a = (x, y, w, h, t, buf, len)" by (metis surj_pair)
  with 1(4) have "create x y w h t buf len l = (l', i)" "i \<noteq> 0" by (auto split: prod.splits if_splits)
  from create_spec [OF 1(1,2) this] this(2) show ?case by (auto simp: a)
next
  case (2 l a l')
  obtain x y w h t buf len where "a = (x, y, w, h, t, buf, len)" by (metis surj_pair)
  with 2 create_zero [OF 2(1)] show ?case by (auto split: prod.splits if_splits)
next
  case (3 l a)
  obtain x y w h t buf len where "a = (x, y, w, h, t, buf, len)" by (metis surj_pair)
  with create_fails [OF 3, of x y w h t buf len] show ?case by (auto split: prod.splits)
next
  case (4 l i l')
  from destroy_spec [OF 4] show ?case by simp
next
  case (5 l i l')
  from destroy_spec [OF 5] show ?case by simp
next
  case (6 l)
  then show ?case by (simp add: win_map_card)
qed

lemma wl_new_wf: "wl_wf wl_new" and wl_new_map: "win_map wl_new = Map.empty"
proof -
  have "used_slots wl_new = {}" by (auto simp: used_slots_def wl_new_def)
  then show w: "wl_wf wl_new" by (auto simp: wl_wf_def wl_new_def)
  show "win_map wl_new = Map.empty"
  proof (rule ext, rule ccontr)
    fix i assume "win_map wl_new i \<noteq> None"
    then obtain v j where "i \<noteq> 0" "win_id v = i" "j < MAX_WINDOWS" "windows wl_new ! j = v" using win_map_Some [OF w] by auto
    then show False by (auto simp: wl_new_def)
  qed
qed

section \<open>Moving, raising and focusing\<close>

lemma update_window_spec:
  assumes w: "wl_wf l" and k: "k < MAX_WINDOWS" and f: "win_id (f (windows l ! k)) = win_id (windows l ! k)"
      "length (title (f (windows l ! k))) = 32"
  shows "wl_wf (update_window k f l)"
    and "win_map (update_window k f l) = (if win_id (windows l ! k) = 0 then win_map l
      else (win_map l)(win_id (windows l ! k) \<mapsto> f (windows l ! k)))"
proof -
  let ?l = "update_window k f l"
  have ws: "windows ?l = (windows l)[k := f (windows l ! k)]" by (simp add: update_window_def)
  have "used_slots ?l = used_slots l"
    using used_slots_update [OF wl_wfD(1) [OF w] k ws] f(1) k by (auto simp: used_slots_def)
  then have "wl_count ?l = of_nat (card (used_slots ?l))" using wl_wfD(3) [OF w] by (simp add: update_window_def)
  then show wf: "wl_wf ?l"
    using wl_wfD(4,6) [OF w] k f by (intro wl_wf_update [OF w k ws]) (auto simp: update_window_def)
  show "win_map ?l = (if win_id (windows l ! k) = 0 then win_map l
      else (win_map l)(win_id (windows l ! k) \<mapsto> f (windows l ! k)))"
    using win_map_update [OF w wf k ws] f(1) by (auto simp: fun_eq_iff win_map_def)
qed

lemma wl_next_z [simp]: "wl_wf (l\<lparr>next_z := z\<rparr>) = wl_wf l" "win_map (l\<lparr>next_z := z\<rparr>) = win_map l"
  by (simp_all add: wl_wf_def used_slots_def win_map_def win_get_def slot_of_id_def fun_eq_iff)

lemma slot_title: "wl_wf l \<Longrightarrow> slot_of_id i l = Some k \<Longrightarrow> k < MAX_WINDOWS \<and> win_id (windows l ! k) = i \<and> length (title (windows l ! k)) = 32"
  using wl_wfD(5) [of l] by (auto simp: slot_of_id_def find_upt_Some_iff)

lemma slot_map: "i \<noteq> 0 \<Longrightarrow> slot_of_id i l = Some k \<Longrightarrow> win_map l i = Some (windows l ! k)"
  by (simp add: win_map_def win_get_def)

lemma move_window_spec:
  assumes "wl_wf l" "move_window i x y l = (l', b)"
  shows "wl_wf l' \<and> (i \<noteq> 0 \<longrightarrow> win_map l' = (case win_map l i of None \<Rightarrow> win_map l
      | Some w \<Rightarrow> (win_map l)(i \<mapsto> w\<lparr>win_x := x, win_y := y\<rparr>)))"
proof (cases "slot_of_id i l")
  case None
  then show ?thesis using assms by (auto simp: move_window_def win_map_def win_get_def)
next
  case (Some k)
  note k = slot_title [OF assms(1) Some]
  let ?f = "\<lambda>w :: Window. w\<lparr>win_x := x, win_y := y\<rparr>"
  have "l' = update_window k ?f l" using assms(2) Some by (simp add: move_window_def)
  then show ?thesis using update_window_spec [OF assms(1), of k ?f] k slot_map [OF _ Some] by simp
qed

lemma raise_to_top_spec:
  assumes "wl_wf l" "raise_to_top i l = (l', b)"
  shows "wl_wf l' \<and> (i \<noteq> 0 \<longrightarrow> win_map l' = (case win_map l i of None \<Rightarrow> win_map l
      | Some w \<Rightarrow> (win_map l)(i \<mapsto> w\<lparr>z_order := next_z l\<rparr>)))"
proof (cases "slot_of_id i l")
  case None
  then show ?thesis using assms by (auto simp: raise_to_top_def win_map_def win_get_def)
next
  case (Some k)
  note k = slot_title [OF assms(1) Some]
  let ?f = "\<lambda>w :: Window. w\<lparr>z_order := next_z l\<rparr>"
  have "l' = (update_window k ?f l)\<lparr>next_z := next_z l + 1\<rparr>" using assms(2) Some by (simp add: raise_to_top_def)
  then show ?thesis using update_window_spec [OF assms(1), of k ?f] k slot_map [OF _ Some] by simp
qed

lemma set_focus_windows:
  assumes "length (windows l) = MAX_WINDOWS"
  shows "windows (set_focus i l) = map (\<lambda>w. w\<lparr>focused := (win_id w = i)\<rparr>) (windows l)"
    and "wl_count (set_focus i l) = wl_count l" "next_id (set_focus i l) = next_id l" "next_z (set_focus i l) = next_z l"
proof -
  let ?f = "\<lambda>w :: Window. w\<lparr>focused := (win_id w = i)\<rparr>"
  let ?fold = "\<lambda>n. fold (\<lambda>k. update_window k ?f) [0..<n] l"
  have i: "windows (?fold n) = map ?f (take n (windows l)) @ drop n (windows l) \<and> wl_count (?fold n) = wl_count l \<and>
      next_id (?fold n) = next_id l \<and> next_z (?fold n) = next_z l" if "n \<le> MAX_WINDOWS" for n
    using that
  proof (induction n)
    case (Suc n)
    then have n: "n < length (windows l)" using assms by simp
    then have "drop n (windows l) = windows l ! n # drop (Suc n) (windows l)" by (simp add: Cons_nth_drop_Suc)
    with Suc n show ?case by (simp add: update_window_def nth_append list_update_append take_Suc_conv_app_nth)
  qed simp
  show "windows (set_focus i l) = map ?f (windows l)" "wl_count (set_focus i l) = wl_count l"
    "next_id (set_focus i l) = next_id l" "next_z (set_focus i l) = next_z l"
    using i [of MAX_WINDOWS] assms by (simp_all add: set_focus_def)
qed

lemma set_focus_spec:
  assumes w: "wl_wf l"
  shows "wl_wf (set_focus i l)" "win_map (set_focus i l) = (\<lambda>j. map_option (\<lambda>v. v\<lparr>focused := (j = i)\<rparr>) (win_map l j))"
    "next_z (set_focus i l) = next_z l"
proof -
  note f = set_focus_windows [OF wl_wfD(1) [OF w], of i]
  have nth: "windows (set_focus i l) ! k = (windows l ! k)\<lparr>focused := (win_id (windows l ! k) = i)\<rparr>" if "k < MAX_WINDOWS" for k
    using that wl_wfD(1) [OF w] by (simp add: f(1))
  have u: "used_slots (set_focus i l) = used_slots l" by (auto simp: used_slots_def nth)
  show wf: "wl_wf (set_focus i l)"
    using wl_wfD [OF w] by (auto simp: wl_wf_def f(2,3) u nth) (simp add: f(1))
  show "win_map (set_focus i l) = (\<lambda>j. map_option (\<lambda>v. v\<lparr>focused := (j = i)\<rparr>) (win_map l j))"
  proof (rule ext)
    fix j
    have "slot_of_id j (set_focus i l) = slot_of_id j l"
      unfolding slot_of_id_def by (rule find_upt_cong) (simp add: nth)
    then show "win_map (set_focus i l) j = map_option (\<lambda>v. v\<lparr>focused := (j = i)\<rparr>) (win_map l j)"
      using nth slot_title [OF w, of j] by (cases "slot_of_id j l") (auto simp: win_map_def win_get_def)
  qed
  show "next_z (set_focus i l) = next_z l" by (rule f(4))
qed

text \<open>At most the window with the given id has the focus.\<close>

definition focus_only :: "u32 \<Rightarrow> WindowList \<Rightarrow> bool" where
  "focus_only i l \<longleftrightarrow> (\<forall>j w. win_map l j = Some w \<longrightarrow> (focused w \<longleftrightarrow> j = i))"

lemma focused_id_eq:
  assumes w: "wl_wf l" and f: "focus_only i l"
  shows "focused_id l = (if win_map l i = None then 0 else i)"
proof -
  let ?P = "\<lambda>k. win_id (windows l ! k) \<noteq> 0 \<and> focused (windows l ! k)"
  have P: "?P k \<longleftrightarrow> win_id (windows l ! k) \<noteq> 0 \<and> win_id (windows l ! k) = i" if "k < MAX_WINDOWS" for k
    using f win_map_Some [OF w, of "win_id (windows l ! k)" "windows l ! k"] that unfolding focus_only_def by blast
  show ?thesis
  proof (cases "find ?P [0..<MAX_WINDOWS]")
    case None
    then have "\<And>k. k < MAX_WINDOWS \<Longrightarrow> \<not> ?P k" by (simp add: find_upt_None_iff)
    then have "win_map l i = None" using P win_map_Some [OF w, of i] by (metis (mono_tags, lifting) not_None_eq)
    then show ?thesis using None by (simp add: focused_id_def)
  next
    case (Some k)
    then have k: "k < MAX_WINDOWS" "?P k" by (auto simp: find_upt_Some_iff)
    then have "win_map l i = Some (windows l ! k)" using P [OF k(1)] win_map_Some [OF w, of i "windows l ! k"] by auto
    then show ?thesis using Some k P [OF k(1)] by (simp add: focused_id_def)
  qed
qed

section \<open>What is on top\<close>

lemma visible_windows_set: "wl_wf l \<Longrightarrow> w \<in> set (visible_windows l) \<longleftrightarrow> visible w \<and> win_map l (win_id w) = Some w"
  using wl_wfD(1) [of l] win_map_Some [of l "win_id w" w]
  by (auto simp: visible_windows_def shown_def in_set_conv_nth)

lemma sorted_last_ge: "sorted (map f ws) \<Longrightarrow> u \<in> set ws \<Longrightarrow> f u \<le> f (last ws)"
  by (induction ws) auto

lemma hit_test_window:
  assumes w: "wl_wf l" and h: "hit_test px py l = i" "i \<noteq> 0"
  shows "\<exists>v. win_map l i = Some v \<and> visible v \<and> contains_point px py v \<and>
    (\<forall>j u. win_map l j = Some u \<longrightarrow> visible u \<longrightarrow> contains_point px py u \<longrightarrow> z_order u \<le> z_order v)"
proof -
  let ?ws = "filter (contains_point px py) (iter_z_order l)"
  have s: "iter_z_order l = sort_key z_order (visible_windows l)" by (rule iter_z_order_sorted [OF wl_wfD(1) [OF w]])
  have ne: "?ws \<noteq> []" "i = win_id (last ?ws)"
    using h hit_test_eq [OF wl_wfD(1) [OF w], of px py] by (auto simp: Let_def split: if_splits)
  let ?v = "last ?ws"
  have v: "?v \<in> set ?ws" using ne(1) by (rule last_in_set)
  have m: "u \<in> set ?ws \<longleftrightarrow> visible u \<and> win_map l (win_id u) = Some u \<and> contains_point px py u" for u
    using visible_windows_set [OF w, of u] by (auto simp: s)
  have so: "sorted (map z_order ?ws)" by (simp add: s filter_sort sorted_sort_key)
  have top: "z_order u \<le> z_order ?v" if "u \<in> set ?ws" for u
    by (rule sorted_last_ge [OF so that])
  have "z_order u \<le> z_order ?v" if "win_map l j = Some u" "visible u" "contains_point px py u" for j u
    using that win_map_Some [OF w, of j u] by (intro top) (subst m, auto)
  then show ?thesis using v m [of ?v] ne(2) by metis
qed

lemma hit_test_none:
  assumes w: "wl_wf l"
  shows "hit_test px py l = 0 \<longleftrightarrow> (\<forall>j u. win_map l j = Some u \<longrightarrow> visible u \<longrightarrow> \<not> contains_point px py u)"
proof -
  let ?ws = "filter (contains_point px py) (iter_z_order l)"
  have m: "u \<in> set ?ws \<longleftrightarrow> visible u \<and> win_map l (win_id u) = Some u \<and> contains_point px py u" for u
    using visible_windows_set [OF w, of u] by (auto simp: iter_z_order_sorted [OF wl_wfD(1) [OF w]])
  have "?ws = [] \<longleftrightarrow> (\<forall>j u. win_map l j = Some u \<longrightarrow> visible u \<longrightarrow> \<not> contains_point px py u)"
  proof
    assume e: "?ws = []"
    show "\<forall>j u. win_map l j = Some u \<longrightarrow> visible u \<longrightarrow> \<not> contains_point px py u"
    proof (intro allI impI notI)
      fix j u assume u: "win_map l j = Some u" "visible u" "contains_point px py u"
      then have "win_id u = j" using win_map_Some [OF w, of j u] by simp
      then have "u \<in> set ?ws" using u by (subst m) simp
      then show False by (simp only: e list.set(1) empty_iff)
    qed
  next
    assume n: "\<forall>j u. win_map l j = Some u \<longrightarrow> visible u \<longrightarrow> \<not> contains_point px py u"
    have "u \<notin> set ?ws" for u using n unfolding m by blast
    then show "?ws = []" by (metis last_in_set)
  qed
  moreover have "win_id (last ?ws) \<noteq> 0" if "?ws \<noteq> []"
    using m [of "last ?ws"] last_in_set [OF that] win_map_Some [OF w] by blast
  ultimately show ?thesis using hit_test_eq [OF wl_wfD(1) [OF w], of px py] by (auto simp: Let_def)
qed

section \<open>Properties\<close>

text \<open>
  C34. The stacking order. The iterator's in-place insertion sort yields exactly the visible
  windows of the table, sorted by stacking value from bottom to top, windows of equal value in
  the order of their slots; and the hit test, which scans the slots in one pass, answers with
  the last window of that order that contains the point, 0 when there is none.
\<close>

theorem hit_test_topmost:
  assumes "wl_wf l"
  shows "iter_z_order l = sort_key z_order (filter (\<lambda>w. win_id w \<noteq> 0 \<and> visible w) (windows l)) \<and>
    hit_test px py l = (case rev (filter (contains_point px py) (iter_z_order l)) of [] \<Rightarrow> 0 | w # _ \<Rightarrow> win_id w)"
proof
  have n: "length (windows l) = MAX_WINDOWS" by (rule wl_wfD(1) [OF assms])
  show "iter_z_order l = sort_key z_order (filter (\<lambda>w. win_id w \<noteq> 0 \<and> visible w) (windows l))"
    using iter_z_order_sorted [OF n] n by (simp add: visible_windows_def shown_def [abs_def])
  let ?ws = "filter (contains_point px py) (iter_z_order l)"
  show "hit_test px py l = (case rev ?ws of [] \<Rightarrow> 0 | w # _ \<Rightarrow> win_id w)"
  proof (cases "rev ?ws")
    case Nil
    then show ?thesis using hit_test_eq [OF n, of px py] by (simp add: Let_def)
  next
    case (Cons w us)
    then have "?ws = rev us @ [w]" by (metis rev.simps(2) rev_rev_ident)
    then show ?thesis using hit_test_eq [OF n, of px py] by (simp add: Let_def)
  qed
qed

definition demo_windows :: WindowList where
  "demo_windows = fst (create 5 5 10 10 [] 0 0 (fst (create 0 0 20 20 [] 0 0 wl_new)))"

lemma slot_free: "slot_of_id 0 wl_new = Some 0"
  by (auto simp: slot_of_id_def find_upt_Some_iff wl_new_def MAX_WINDOWS_def win_empty_def)

lemma replicate_demo: "replicate 16 x = x # replicate 15 x" "replicate 15 x = x # replicate 14 x"
  by (simp_all add: numeral_eq_Suc)

lemma demo_create:
  "create 0 0 20 20 [] 0 0 wl_new =
     (wl_new\<lparr>windows := new_window 1 1 0 0 20 20 [] 0 0 # replicate 15 win_empty, wl_count := 1, next_id := 2, next_z := 2\<rparr>, 1)"
  using slot_free by (simp add: create_def Let_def new_window_def wl_new_def MAX_WINDOWS_def replicate_demo(1))

lemma demo_windows_eq:
  "demo_windows = \<lparr>windows = new_window 1 1 0 0 20 20 [] 0 0 # new_window 2 2 5 5 10 10 [] 0 0 # replicate 14 win_empty,
     wl_count = 2, next_id = 3, next_z = 3\<rparr>"
proof -
  let ?l = "wl_new\<lparr>windows := new_window 1 1 0 0 20 20 [] 0 0 # replicate 15 win_empty, wl_count := 1, next_id := 2, next_z := 2\<rparr>"
  have "slot_of_id 0 ?l = Some 1"
    by (auto simp: slot_of_id_def find_upt_Some_iff MAX_WINDOWS_def nth_Cons' less_Suc_eq)
  then have "create 5 5 10 10 [] 0 0 ?l = (\<lparr>windows = new_window 1 1 0 0 20 20 [] 0 0 # new_window 2 2 5 5 10 10 [] 0 0 # replicate 14 win_empty,
     wl_count = 2, next_id = 3, next_z = 3\<rparr>, 2)"
    by (simp add: create_def Let_def new_window_def wl_new_def MAX_WINDOWS_def replicate_demo(2) word_le_nat_alt)
  then show ?thesis by (simp add: demo_windows_def demo_create)
qed

lemma demo_windows_wf: "wl_wf demo_windows"
  and demo_map: "win_map demo_windows = [1 \<mapsto> new_window 1 1 0 0 20 20 [] 0 0, 2 \<mapsto> new_window 2 2 5 5 10 10 [] 0 0]"
proof -
  have r: "next_id wl_new + 1 \<noteq> 0" by (simp add: wl_new_def)
  obtain l i where c1: "create 0 0 20 20 [] 0 0 wl_new = (l, i)" by fastforce
  then have l: "i = 1" "next_id l = 2" "next_z l = 2" using demo_create by auto
  have w: "wl_wf l" "win_map l = [1 \<mapsto> new_window 1 1 0 0 20 20 [] 0 0]"
    using create_spec [OF wl_new_wf r c1] l(1) by (simp_all add: wl_new_map) (simp add: wl_new_def)
  obtain l' j where c2: "create 5 5 10 10 [] 0 0 l = (l', j)" by fastforce
  have "card (dom (win_map l)) \<noteq> MAX_WINDOWS" by (simp add: w(2) MAX_WINDOWS_def)
  then have "j \<noteq> 0" using create_fails [OF w(1), of 5 5 10 10 "[]" 0 0] c2 by simp
  from create_spec [OF w(1) _ c2 this] l
  have "wl_wf l'" "win_map l' = [1 \<mapsto> new_window 1 1 0 0 20 20 [] 0 0, 2 \<mapsto> new_window 2 2 5 5 10 10 [] 0 0]"
    by (simp_all add: w(2))
  then show "wl_wf demo_windows" "win_map demo_windows = [1 \<mapsto> new_window 1 1 0 0 20 20 [] 0 0, 2 \<mapsto> new_window 2 2 5 5 10 10 [] 0 0]"
    using c1 c2 by (simp_all add: demo_windows_def)
qed

lemma demo_order: "iter_z_order demo_windows = [new_window 1 1 0 0 20 20 [] 0 0, new_window 2 2 5 5 10 10 [] 0 0]"
  using iter_z_order_sorted [of demo_windows]
  by (simp add: visible_windows_def shown_def demo_windows_eq MAX_WINDOWS_def sort_key_def)

lemma demo_contains [simp]:
  "contains_point 6 6 (new_window 1 1 0 0 20 20 [] 0 0)" "contains_point 6 6 (new_window 2 2 5 5 10 10 [] 0 0)"
  "contains_point 1 1 (new_window 1 1 0 0 20 20 [] 0 0)" "\<not> contains_point 1 1 (new_window 2 2 5 5 10 10 [] 0 0)"
  by (simp_all add: contains_point_def full_width_def full_height_def new_window_def set_title_def Let_def
      BORDER_WIDTH_def TITLE_BAR_HEIGHT_def word_sle_eq word_sless_alt)

theorem hit_test_topmost_witness: "hit_test 6 6 demo_windows = 2 \<and> hit_test 1 1 demo_windows = 1"
  using hit_test_topmost [OF demo_windows_wf, THEN conjunct2, of 6 6] hit_test_topmost [OF demo_windows_wf, THEN conjunct2, of 1 1]
  by (simp add: demo_order)

text \<open>
  Window ids. Through any sequence of creations and removals a window that is not removed
  keeps its id, its place and its contents; a creation fails exactly when sixteen windows exist
  (before the ids run out).
\<close>

theorem window_ids_stable:
  assumes "wins.session l D l'" "wl_wf l" "win_map l i = Some w" "i \<notin> D"
  shows "win_map l' i = Some w \<and> wl_wf l' \<and>
    (snd (create x y wd ht t buf len l') = 0 \<longleftrightarrow> card (dom (win_map l')) = MAX_WINDOWS)"
proof -
  have "wl_wf l'" using wins.session_inv [OF assms(1,2)] .
  then show ?thesis using wins.session_stable [OF assms(1-4)] create_fails by blast
qed

theorem window_ids_stable_witness:
  "\<exists>l'. wins.session demo_windows {1} l' \<and> wl_wf l' \<and> win_map l' 2 = win_map demo_windows 2"
proof -
  obtain l' b where d: "destroy 1 demo_windows = (l', b)" by fastforce
  have s: "wins.session demo_windows {1} l'"
    using wins.session.session_del [OF wins.session.session_start [of demo_windows] _ d] by simp
  have "win_map demo_windows 2 = Some (new_window 2 2 5 5 10 10 [] 0 0)"
    using win_map_Some [OF demo_windows_wf, of 2] by (auto simp: demo_windows_eq MAX_WINDOWS_def intro!: exI [of _ 1])
  then show ?thesis using window_ids_stable [OF s demo_windows_wf, of 2] s by auto
qed

text \<open>
  Removing window 0. The id 0 marks the empty slots, and \<^verbatim>\<open>destroy(0)\<close> finds the first of
  them: it reports success and takes one off the count of windows. On a list without windows
  the count wraps round to the largest number, and from then on every creation fails
  although all sixteen slots are empty.
\<close>

theorem destroy_zero_blocks_create:
  "\<exists>l. destroy 0 wl_new = (l, True) \<and> windows l = windows wl_new \<and> wl_count l = - 1 \<and>
     create x y w h t buf len l = (l, 0)"
proof -
  have "(windows wl_new)[0 := win_empty] = windows wl_new" by (simp add: wl_new_def MAX_WINDOWS_def numeral_eq_Suc)
  then have "destroy 0 wl_new = (wl_new\<lparr>wl_count := - 1\<rparr>, True)" using slot_free by (simp add: destroy_def) (simp add: wl_new_def)
  then show ?thesis by (simp add: create_def MAX_WINDOWS_def)
qed

end
