(* ===== verification/Wm_Input.thy ===== *)
theory Wm_Input
  imports Windows Input
begin

text \<open>
  The window manager's pointer and the routing of input events: \<^verbatim>\<open>wm/src/cursor.rs\<close> (position and
  buttons) and \<^verbatim>\<open>wm/src/input_router.rs\<close>. Events have the layout of the kernel's
  \<^verbatim>\<open>InputEvent\<close>. The properties are about sequences of events: where the pointer can be, what
  a click does, and what a drag keeps.
\<close>

section \<open>The pointer\<close>

record Cursor =
  cur_x :: i32
  cur_y :: i32
  cur_buttons :: u8
  cur_visible :: bool

definition cursor_new :: Cursor where
  "cursor_new = \<lparr>cur_x = 0, cur_y = 0, cur_buttons = 0, cur_visible = True\<rparr>"

text \<open>\<^verbatim>\<open>i32::max\<close> and \<^verbatim>\<open>i32::min\<close>.\<close>

definition smax :: "i32 \<Rightarrow> i32 \<Rightarrow> i32" where "smax a b = (if a \<le>s b then b else a)"
definition smin :: "i32 \<Rightarrow> i32 \<Rightarrow> i32" where "smin a b = (if a \<le>s b then a else b)"

definition apply_delta :: "i16 \<Rightarrow> i16 \<Rightarrow> u8 \<Rightarrow> u32 \<Rightarrow> u32 \<Rightarrow> Cursor \<Rightarrow> Cursor" where
  "apply_delta delta_x delta_y b fb_width fb_height c =
     c\<lparr>cur_x := smin (smax (cur_x c + scast delta_x) 0) (fb_width - 1),
       cur_y := smin (smax (cur_y c + scast delta_y) 0) (fb_height - 1),
       cur_buttons := b\<rparr>"

definition set_position :: "i32 \<Rightarrow> i32 \<Rightarrow> Cursor \<Rightarrow> Cursor" where
  "set_position x y c = c\<lparr>cur_x := x, cur_y := y\<rparr>"

definition left_button :: "Cursor \<Rightarrow> bool" where "left_button c \<longleftrightarrow> cur_buttons c AND 1 \<noteq> 0"
definition right_button :: "Cursor \<Rightarrow> bool" where "right_button c \<longleftrightarrow> cur_buttons c AND 2 \<noteq> 0"

section \<open>The router\<close>

record DragState =
  drag_window :: u32
  offset_x :: i32
  offset_y :: i32

definition drag_new :: DragState where
  "drag_new = \<lparr>drag_window = 0, offset_x = 0, offset_y = 0\<rparr>"

definition is_dragging :: "DragState \<Rightarrow> bool" where "is_dragging d \<longleftrightarrow> drag_window d \<noteq> 0"

definition drag_start :: "u32 \<Rightarrow> i32 \<Rightarrow> i32 \<Rightarrow> i32 \<Rightarrow> i32 \<Rightarrow> DragState \<Rightarrow> DragState" where
  "drag_start i mouse_x mouse_y x y d = d\<lparr>drag_window := i, offset_x := mouse_x - x, offset_y := mouse_y - y\<rparr>"

definition drag_stop :: "DragState \<Rightarrow> DragState" where "drag_stop d = d\<lparr>drag_window := 0\<rparr>"

text \<open>What an event can change.\<close>

record wm_input =
  drag :: DragState
  cursor :: Cursor
  wlist :: WindowList


definition press :: "wm_input \<Rightarrow> wm_input \<times> u32" where
  "press s =
     (let c = cursor s; hit = hit_test (cur_x c) (cur_y c) (wlist s) in
      if hit = 0 then (s\<lparr>wlist := set_focus 0 (wlist s)\<rparr>, 0)
      else
        let l = fst (raise_to_top hit (set_focus hit (wlist s)));
            d = (case win_get hit l of
                   None \<Rightarrow> drag s
                 | Some w \<Rightarrow> if draggable w \<and> is_in_title_bar (cur_x c) (cur_y c) w
                             then drag_start hit (cur_x c) (cur_y c) (win_x w) (win_y w) (drag s) else drag s)
        in (s\<lparr>wlist := l, drag := d\<rparr>, hit))"

definition process_mouse :: "InputEvent \<Rightarrow> u32 \<Rightarrow> u32 \<Rightarrow> wm_input \<Rightarrow> wm_input \<times> u32" where
  "process_mouse ev fb_width fb_height s0 =
     (let prev_left = left_button (cursor s0);
          c = apply_delta (mouse_dx ev) (mouse_dy ev) (mouse_buttons ev) fb_width fb_height (cursor s0);
          s = s0\<lparr>cursor := c\<rparr>;
          left_down = (left_button c \<and> \<not> prev_left)
      in if is_dragging (drag s) then
           (if \<not> left_button c then (s\<lparr>drag := drag_stop (drag s)\<rparr>, 0)
            else (s\<lparr>wlist := fst (move_window (drag_window (drag s)) (cur_x c - offset_x (drag s)) (cur_y c - offset_y (drag s)) (wlist s))\<rparr>,
                  drag_window (drag s)))
         else if left_down then press s
         else (s, hit_test (cur_x c) (cur_y c) (wlist s)))"

definition process_keyboard :: "wm_input \<Rightarrow> wm_input \<times> u32" where
  "process_keyboard s = (s, focused_id (wlist s))"

definition process_event :: "InputEvent \<Rightarrow> u32 \<Rightarrow> u32 \<Rightarrow> wm_input \<Rightarrow> wm_input \<times> u32" where
  "process_event ev fb_width fb_height s =
     (if event_type ev = EVENT_MOUSE then process_mouse ev fb_width fb_height s
      else if event_type ev = EVENT_KEYBOARD then process_keyboard s
      else (s, 0))"

definition process_events :: "u32 \<Rightarrow> u32 \<Rightarrow> InputEvent list \<Rightarrow> wm_input \<Rightarrow> wm_input" where
  "process_events fb_width fb_height evs s = fold (\<lambda>ev s. fst (process_event ev fb_width fb_height s)) evs s"

section \<open>The pointer stays on the screen\<close>

definition on_screen :: "u32 \<Rightarrow> u32 \<Rightarrow> Cursor \<Rightarrow> bool" where
  "on_screen w h c \<longleftrightarrow> 0 \<le> sint (cur_x c) \<and> sint (cur_x c) < uint w \<and> 0 \<le> sint (cur_y c) \<and> sint (cur_y c) < uint h"

lemma sint_pos: "uint (w :: u32) < 2 ^ 31 \<Longrightarrow> sint w = uint w"
  using signed_take_bit_int_eq_self [of 31 "uint w"] uint_ge_0 [of w] by (simp add: sint_uint)

lemma clamp_range:
  assumes "0 < w" "uint (w :: u32) < 2 ^ 31"
  shows "0 \<le> sint (smin (smax x 0) (w - 1)) \<and> sint (smin (smax x 0) (w - 1)) < uint w"
proof -
  have "unat (w - 1) = unat w - 1" using assms(1) by (intro unat_minus_one) (simp add: word_gt_0)
  moreover have "0 < unat w" using assms(1) by (simp add: word_less_nat_alt)
  ultimately have "int (unat (w - 1)) = int (unat w) - 1" by linarith
  then have "uint (w - 1) = uint w - 1" by (simp only: uint_nat)
  then have "sint (w - 1) = uint w - 1" using assms(2) by (intro trans [OF sint_pos]) simp_all
  moreover have "0 < uint w" using assms(1) by (simp add: word_less_def)
  ultimately show ?thesis by (auto simp: smin_def smax_def word_sle_eq)
qed

lemma apply_delta_on_screen:
  "0 < w \<Longrightarrow> 0 < h \<Longrightarrow> uint w < 2 ^ 31 \<Longrightarrow> uint h < 2 ^ 31 \<Longrightarrow> on_screen w h (apply_delta delta_x delta_y b w h c)"
  using clamp_range by (simp add: on_screen_def apply_delta_def)

lemma cursor_press [simp]: "cursor (fst (press s)) = cursor s"
  by (simp add: press_def Let_def)

lemma cursor_mouse:
  "cursor (fst (process_mouse ev w h s)) = apply_delta (mouse_dx ev) (mouse_dy ev) (mouse_buttons ev) w h (cursor s)"
  by (simp add: process_mouse_def Let_def)

lemma process_event_on_screen:
  assumes "0 < w" "0 < h" "uint w < 2 ^ 31" "uint h < 2 ^ 31" "on_screen w h (cursor s)"
  shows "on_screen w h (cursor (fst (process_event ev w h s)))"
  using assms apply_delta_on_screen by (simp add: process_event_def process_keyboard_def cursor_mouse)

text \<open>
  The pointer stays on the screen. Whatever events arrive, with whatever movements
  (also ones that overflow the 32-bit sum), a pointer that is on the screen stays on it,
  and every mouse event brings it there from anywhere.
\<close>

theorem cursor_stays_on_screen:
  assumes "0 < w" "0 < h" "uint w < 2 ^ 31" "uint h < 2 ^ 31"
    and "on_screen w h (cursor s) \<or> (\<exists>ev \<in> set evs. event_type ev = EVENT_MOUSE)"
  shows "on_screen w h (cursor (process_events w h evs s))"
  using assms(5)
proof (induction evs arbitrary: s)
  case Nil
  then show ?case by (simp add: process_events_def)
next
  case (Cons ev evs)
  let ?s = "fst (process_event ev w h s)"
  have "on_screen w h (cursor ?s) \<or> (\<exists>ev \<in> set evs. event_type ev = EVENT_MOUSE)"
  proof (cases "event_type ev = EVENT_MOUSE")
    case True
    then show ?thesis using apply_delta_on_screen [OF assms(1-4)] by (simp add: process_event_def cursor_mouse)
  next
    case False
    then show ?thesis using Cons.prems process_event_on_screen [OF assms(1-4)] by auto
  qed
  from Cons.IH [OF this] show ?case by (simp add: process_events_def)
qed

definition mouse_event :: "i16 \<Rightarrow> i16 \<Rightarrow> u8 \<Rightarrow> InputEvent" where
  "mouse_event delta_x delta_y b = \<lparr>event_type = EVENT_MOUSE, keycode = 0, key_char = 0, key_pressed = 0,
     mouse_buttons = b, mouse_dx = delta_x, mouse_dy = delta_y\<rparr>"

definition demo_input :: wm_input where
  "demo_input = \<lparr>drag = drag_new, cursor = cursor_new, wlist = demo_windows\<rparr>"

theorem cursor_stays_on_screen_witness:
  "on_screen 1280 720 (cursor (process_events 1280 720 [mouse_event (- 5) 900 0, mouse_event 3 (- 1) 1] demo_input))"
  by (rule cursor_stays_on_screen) (simp_all add: demo_input_def cursor_new_def on_screen_def)

section \<open>Clicking\<close>

lemma set_focus_only: "wl_wf l \<Longrightarrow> focus_only i (set_focus i l)"
  by (auto simp: focus_only_def set_focus_spec)

lemma press_hit:
  assumes w: "wl_wf (wlist s)" and hit: "hit_test (cur_x (cursor s)) (cur_y (cursor s)) (wlist s) = i" "i \<noteq> 0"
    and v: "win_map (wlist s) i = Some v" and p: "press s = (s', r)"
  shows "r = i \<and> wl_wf (wlist s') \<and>
    win_map (wlist s') = (\<lambda>j. map_option (\<lambda>u. u\<lparr>focused := (j = i)\<rparr>) (win_map (wlist s) j))(i \<mapsto> v\<lparr>focused := True, z_order := next_z (wlist s)\<rparr>) \<and>
    cursor s' = cursor s \<and>
    drag s' = (if draggable v \<and> is_in_title_bar (cur_x (cursor s)) (cur_y (cursor s)) v
      then drag_start i (cur_x (cursor s)) (cur_y (cursor s)) (win_x v) (win_y v) (drag s) else drag s)"
proof -
  let ?l = "set_focus i (wlist s)"
  note f = set_focus_spec [OF w, of i]
  obtain l b where r: "raise_to_top i ?l = (l, b)" by fastforce
  have m: "wl_wf l" "win_map l = (win_map ?l)(i \<mapsto> v\<lparr>focused := True, z_order := next_z (wlist s)\<rparr>)"
    using raise_to_top_spec [OF f(1) r] hit(2) v f by simp_all
  have g: "win_get i l = Some (v\<lparr>focused := True, z_order := next_z (wlist s)\<rparr>)"
    using m(2) hit(2) by (metis fun_upd_same win_map_def)
  have t: "is_in_title_bar x y (v\<lparr>focused := True, z_order := z\<rparr>) = is_in_title_bar x y v" for x y z
    by (simp add: is_in_title_bar_def full_width_def)
  show ?thesis using p hit m f(2) g r t by (auto simp: press_def Let_def)
qed

text \<open>Stacking values below the next one to be given out.\<close>

definition z_fresh :: "WindowList \<Rightarrow> bool" where
  "z_fresh l \<longleftrightarrow> (\<forall>j u. win_map l j = Some u \<longrightarrow> z_order u < next_z l)"

lemma process_key: "event_type ev = EVENT_KEYBOARD \<Longrightarrow> process_event ev w h s = (s, focused_id (wlist s))"
  by (simp add: process_event_def process_keyboard_def EVENT_KEYBOARD_def EVENT_MOUSE_def)

lemma contains_focused [simp]:
  "contains_point x y (u\<lparr>focused := b\<rparr>) = contains_point x y u" "contains_point x y (u\<lparr>z_order := z\<rparr>) = contains_point x y u"
  by (simp_all add: contains_point_def full_width_def full_height_def)


lemma demo_press:
  "\<exists>s'. process_event (mouse_event 6 6 1) 1280 720 demo_input = (s', 2) \<and> cur_x (cursor s') = 6 \<and> cur_y (cursor s') = 6"
proof -
  obtain s' i where p: "process_event (mouse_event 6 6 1) 1280 720 demo_input = (s', i)" by fastforce
  have c: "cursor s' = \<lparr>cur_x = 6, cur_y = 6, cur_buttons = 1, cur_visible = True\<rparr>"
    using p cursor_mouse [of "mouse_event 6 6 1" 1280 720 demo_input]
    by (simp add: process_event_def mouse_event_def apply_delta_def demo_input_def cursor_new_def smin_def smax_def word_sle_eq)
  have "hit_test 6 6 demo_windows = 2"
    using hit_test_eq [OF wl_wfD(1) [OF demo_windows_wf], of 6 6] by (simp add: demo_order)
  then have "i = 2"
    using p by (auto simp: process_event_def process_mouse_def press_def Let_def mouse_event_def demo_input_def is_dragging_def drag_new_def
        left_button_def cursor_new_def apply_delta_def smin_def smax_def word_sle_eq)
  with p c show ?thesis by simp
qed

lemma demo_input_simps:
  "\<not> is_dragging (drag demo_input)" "\<not> left_button (cursor demo_input)" "wlist demo_input = demo_windows"
  "mouse_buttons (mouse_event x y b) = b" "event_type (mouse_event x y b) = EVENT_MOUSE"
  by (simp_all add: demo_input_def is_dragging_def drag_new_def left_button_def cursor_new_def mouse_event_def)


section \<open>Dragging\<close>

definition grabbed :: "u32 \<Rightarrow> wm_input \<Rightarrow> bool" where
  "grabbed i s \<longleftrightarrow> wl_wf (wlist s) \<and> i \<noteq> 0 \<and> drag_window (drag s) = i \<and>
     (\<exists>v. win_map (wlist s) i = Some v \<and> win_x v = cur_x (cursor s) - offset_x (drag s) \<and> win_y v = cur_y (cursor s) - offset_y (drag s))"

lemma grabbed_move:
  assumes g: "grabbed i s" and e: "event_type ev = EVENT_MOUSE" "mouse_buttons ev AND 1 \<noteq> 0"
    and p: "process_event ev w h s = (s', r)"
  shows "r = i \<and> grabbed i s' \<and> drag s' = drag s \<and> (\<forall>j. j \<noteq> i \<longrightarrow> win_map (wlist s') j = win_map (wlist s) j)"
proof -
  let ?c = "apply_delta (mouse_dx ev) (mouse_dy ev) (mouse_buttons ev) w h (cursor s)"
  let ?d = "drag s"
  obtain l b where m: "move_window i (cur_x ?c - offset_x ?d) (cur_y ?c - offset_y ?d) (wlist s) = (l, b)" by fastforce
  have "left_button ?c" using e(2) by (simp add: left_button_def apply_delta_def)
  then have s': "s' = s\<lparr>cursor := ?c, wlist := l\<rparr>" "r = i"
    using p e(1) g m by (auto simp: process_event_def process_mouse_def Let_def grabbed_def is_dragging_def)
  obtain v where v: "win_map (wlist s) i = Some v" using g by (auto simp: grabbed_def)
  then have "wl_wf l" "win_map l = (win_map (wlist s))(i \<mapsto> v\<lparr>win_x := cur_x ?c - offset_x ?d, win_y := cur_y ?c - offset_y ?d\<rparr>)"
    using move_window_spec [OF _ m] g by (simp_all add: grabbed_def)
  then show ?thesis using g by (simp add: s' grabbed_def)
qed

lemma grabbed_moves:
  assumes "grabbed i s" "\<forall>ev \<in> set evs. event_type ev = EVENT_MOUSE \<and> mouse_buttons ev AND 1 \<noteq> 0"
  shows "grabbed i (process_events w h evs s) \<and> drag (process_events w h evs s) = drag s \<and>
    (\<forall>j. j \<noteq> i \<longrightarrow> win_map (wlist (process_events w h evs s)) j = win_map (wlist s) j)"
  using assms
proof (induction evs arbitrary: s)
  case (Cons ev evs)
  obtain s' r where p: "process_event ev w h s = (s', r)" by fastforce
  from grabbed_move [OF Cons.prems(1) _ _ p] Cons.prems(2)
  have g: "grabbed i s'" "drag s' = drag s" "\<forall>j. j \<noteq> i \<longrightarrow> win_map (wlist s') j = win_map (wlist s) j" by auto
  from Cons.IH [OF g(1)] Cons.prems(2) g p show ?case by (simp add: process_events_def)
qed (simp add: process_events_def)

text \<open>
  Dragging. Pressing the left button on the title bar of the topmost window starts a drag;
  while the button is held the window follows the pointer, whatever the movements, so that
  the pointer stays at the same place of the window, and all other windows stay as they are.
  Releasing the button ends the drag and leaves the windows where they are.
\<close>

theorem drag_keeps_grab_point:
  assumes w: "wl_wf (wlist s)" and d: "\<not> is_dragging (drag s)"
    and b: "\<not> left_button (cursor s)" "mouse_buttons ev AND 1 \<noteq> 0" "event_type ev = EVENT_MOUSE"
    and p: "process_event ev fb_width fb_height s = (s1, i)" "i \<noteq> 0"
    and v: "win_map (wlist s) i = Some v" "draggable v" "is_in_title_bar (cur_x (cursor s1)) (cur_y (cursor s1)) v"
    and held: "\<forall>e \<in> set evs. event_type e = EVENT_MOUSE \<and> mouse_buttons e AND 1 \<noteq> 0"
    and rel: "event_type up = EVENT_MOUSE" "mouse_buttons up AND 1 = 0"
  shows "\<exists>s2 s3 u. process_events fb_width fb_height evs s1 = s2 \<and> win_map (wlist s2) i = Some u \<and>
    cur_x (cursor s2) - win_x u = cur_x (cursor s1) - win_x v \<and> cur_y (cursor s2) - win_y u = cur_y (cursor s1) - win_y v \<and>
    (\<forall>j. j \<noteq> i \<longrightarrow> win_map (wlist s2) j = win_map (wlist s1) j) \<and>
    process_event up fb_width fb_height s2 = (s3, 0) \<and> \<not> is_dragging (drag s3) \<and> wlist s3 = wlist s2"
proof -
  let ?c = "apply_delta (mouse_dx ev) (mouse_dy ev) (mouse_buttons ev) fb_width fb_height (cursor s)"
  let ?s = "s\<lparr>cursor := ?c\<rparr>"
  have lb: "left_button ?c" using b(2) by (simp add: left_button_def apply_delta_def)
  have pr: "press ?s = (s1, i)" using p(1) b d lb by (simp add: process_event_def process_mouse_def Let_def)
  have c: "cursor s1 = ?c" using cursor_press [of ?s] pr by simp
  have hit: "hit_test (cur_x (cursor ?s)) (cur_y (cursor ?s)) (wlist ?s) = i"
    using pr p(2) by (auto simp: press_def Let_def split: if_splits)
  have 1: "wl_wf (wlist s1)" "win_map (wlist s1) i = Some (v\<lparr>focused := True, z_order := next_z (wlist s)\<rparr>)"
    "drag s1 = drag_start i (cur_x ?c) (cur_y ?c) (win_x v) (win_y v) (drag s)"
    using press_hit [OF _ hit p(2) _ pr] w v c by simp_all
  then have g: "grabbed i s1" using p(2) c by (simp add: grabbed_def drag_start_def)
  let ?s2 = "process_events fb_width fb_height evs s1"
  have 2: "grabbed i ?s2" "drag ?s2 = drag s1" "\<forall>j. j \<noteq> i \<longrightarrow> win_map (wlist ?s2) j = win_map (wlist s1) j"
    using grabbed_moves [OF g held] by auto
  obtain u where u: "win_map (wlist ?s2) i = Some u" "win_x u = cur_x (cursor ?s2) - (cur_x ?c - win_x v)"
      "win_y u = cur_y (cursor ?s2) - (cur_y ?c - win_y v)"
    using 2(1,2) 1(3) by (auto simp: grabbed_def drag_start_def)
  let ?c3 = "apply_delta (mouse_dx up) (mouse_dy up) (mouse_buttons up) fb_width fb_height (cursor ?s2)"
  have "\<not> left_button ?c3" using rel(2) by (simp add: left_button_def apply_delta_def)
  moreover have "is_dragging (drag ?s2)" using 2(1) by (simp add: grabbed_def is_dragging_def)
  ultimately have "process_event up fb_width fb_height ?s2 = (?s2\<lparr>cursor := ?c3, drag := drag_stop (drag ?s2)\<rparr>, 0)"
    using rel(1) by (simp add: process_event_def process_mouse_def Let_def)
  then show ?thesis using u 2(3) c by (intro exI [of _ ?s2] exI [of _ "?s2\<lparr>cursor := ?c3, drag := drag_stop (drag ?s2)\<rparr>"] exI [of _ u])
      (simp add: is_dragging_def drag_stop_def)
qed

theorem drag_keeps_grab_point_witness:
  "\<exists>s1 u. process_event (mouse_event 6 6 1) 1280 720 demo_input = (s1, 2) \<and>
     win_map (wlist (process_events 1280 720 [mouse_event 10 0 1] s1)) 2 = Some u \<and>
     cur_x (cursor (process_events 1280 720 [mouse_event 10 0 1] s1)) - win_x u = 1"
proof -
  obtain s1 where p: "process_event (mouse_event 6 6 1) 1280 720 demo_input = (s1, 2)"
    and c: "cur_x (cursor s1) = 6" "cur_y (cursor s1) = 6" using demo_press by blast
  let ?v = "new_window 2 2 5 5 10 10 [] 0 0"
  have v: "win_map (wlist demo_input) 2 = Some ?v" by (simp add: demo_input_simps demo_map)
  have "draggable ?v" "is_in_title_bar 6 6 ?v" "win_x ?v = 5"
    by (simp_all add: new_window_def set_title_def Let_def is_in_title_bar_def full_width_def BORDER_WIDTH_def
        TITLE_BAR_HEIGHT_def word_sle_eq word_sless_alt)
  then show ?thesis
    using drag_keeps_grab_point [OF _ _ _ _ _ p _ v, of "[mouse_event 10 0 1]" "mouse_event 0 0 0"] c p demo_windows_wf
    by (auto simp: demo_input_simps)
qed

end
