(* ===== verification/Canvas.thy ===== *)
theory Canvas
  imports Raster
begin

text \<open>
  Off-screen pixel buffers: rows of four-byte pixels in one byte array, as the window manager's
  compositor, the shell's renderer and application surfaces keep them. Writing a pixel is an
  instance of the \<open>raster\<close> contract, with points as pairs of integers; what a sequence of
  drawing operations leaves at a point is the last value painted there.
\<close>

type_synonym px = "u8 \<times> u8 \<times> u8 \<times> u8"
type_synonym point = "int \<times> int"

text \<open>A canvas: its width, its height and the bytes of the buffer.\<close>

type_synonym canvas = "int \<times> int \<times> bytes"

fun px_bytes :: "px \<Rightarrow> bytes" where
  "px_bytes (a, b, c, d) = [a, b, c, d]"

definition px_offset :: "int \<Rightarrow> point \<Rightarrow> nat" where
  "px_offset w p = nat (snd p * w + fst p) * 4"

definition inside :: "int \<Rightarrow> int \<Rightarrow> point \<Rightarrow> bool" where
  "inside w h p \<longleftrightarrow> 0 \<le> fst p \<and> fst p < w \<and> 0 \<le> snd p \<and> snd p < h"

fun canvas_put :: "point \<Rightarrow> px \<Rightarrow> canvas \<Rightarrow> canvas" where
  "canvas_put p v (w, h, buf) = (w, h, if inside w h p then splice (px_offset w p) (px_bytes v) buf else buf)"

fun canvas_px :: "canvas \<Rightarrow> point \<Rightarrow> px" where
  "canvas_px (w, h, buf) p = (let i = px_offset w p in (buf ! i, buf ! (i + 1), buf ! (i + 2), buf ! (i + 3)))"

fun canvas_ok :: "canvas \<Rightarrow> bool" where
  "canvas_ok (w, h, buf) \<longleftrightarrow> 0 \<le> w \<and> 0 \<le> h \<and> nat w * nat h * 4 \<le> length buf"

fun canvas_shown :: "canvas \<Rightarrow> point \<Rightarrow> bool" where
  "canvas_shown (w, h, buf) p = inside w h p"

text \<open>What drawing leaves alone: the geometry and the bytes behind the last row.\<close>

fun canvas_rest :: "canvas \<Rightarrow> int \<times> int \<times> nat \<times> bytes" where
  "canvas_rest (w, h, buf) = (w, h, length buf, drop (nat w * nat h * 4) buf)"

lemma length_px_bytes [simp]: "length (px_bytes v) = 4"
  by (cases v) simp

lemma px_offset_nat: "inside w h p \<Longrightarrow> px_offset w p = (nat (snd p) * nat w + nat (fst p)) * 4"
  by (simp add: px_offset_def inside_def nat_add_distrib nat_mult_distrib)

lemma px_offset_bound:
  assumes "inside w h p"
  shows "px_offset w p + 4 \<le> nat w * nat h * 4"
  using offset_bound [of "nat (fst p)" "nat w" "nat (snd p)" "nat h" 4] assms
  by (simp add: px_offset_nat [OF assms] inside_def mult.commute)

lemma px_offset_apart:
  assumes "inside w h p" "inside w h q" "p \<noteq> q"
  shows "px_offset w p + 4 \<le> px_offset w q \<or> px_offset w q + 4 \<le> px_offset w p"
proof -
  have "(nat (fst p), nat (snd p)) \<noteq> (nat (fst q), nat (snd q))"
    using assms by (auto simp: inside_def prod_eq_iff)
  from offset_apart [OF _ _ this, of "nat w" 4] assms show ?thesis
    unfolding px_offset_nat [OF assms(1)] px_offset_nat [OF assms(2)] by (simp add: inside_def)
qed

lemma canvas_put_px:
  assumes "canvas_ok (w, h, buf)" "inside w h q"
  shows "canvas_px (canvas_put p v (w, h, buf)) q = (if q = p then v else canvas_px (w, h, buf) q)"
proof (cases "inside w h p")
  case True
  have l: "px_offset w p + length (px_bytes v) \<le> length buf" "px_offset w q + 4 \<le> length buf"
    using assms px_offset_bound [OF True] px_offset_bound [OF assms(2)] by simp_all
  have n: "splice (px_offset w p) (px_bytes v) buf ! (px_offset w q + k) =
      (if q = p then px_bytes v ! k else buf ! (px_offset w q + k))" if "k < 4" for k
    using that l px_offset_apart [OF True assms(2)] nth_splice [OF l(1), of "px_offset w q + k"] by (cases "q = p") auto
  obtain a b c d where v: "v = (a, b, c, d)" by (metis prod_cases4)
  show ?thesis using n [of 0] n [of 1] n [of 2] n [of 3] True by (simp add: Let_def v)
qed (use assms in auto)

lemma canvas_put_keeps:
  assumes "canvas_ok s"
  shows "canvas_ok (canvas_put p v s)" "canvas_shown (canvas_put p v s) = canvas_shown s" "canvas_rest (canvas_put p v s) = canvas_rest s"
proof -
  obtain w h buf where s: "s = (w, h, buf)" by (metis prod_cases3)
  have l: "px_offset w p + 4 \<le> nat w * nat h * 4" if "inside w h p" using px_offset_bound [OF that] .
  show "canvas_ok (canvas_put p v s)" using assms l by (auto simp: s)
  show "canvas_shown (canvas_put p v s) = canvas_shown s" by (simp add: s fun_eq_iff)
  show "canvas_rest (canvas_put p v s) = canvas_rest s"
    using assms l by (auto simp: s splice_def)
qed

interpretation cv: raster canvas_ok canvas_shown canvas_px canvas_rest canvas_put
proof (unfold_locales, goal_cases)
  case (4 s q p c)
  obtain w h buf where "s = (w, h, buf)" by (metis prod_cases3)
  with 4 canvas_put_px [of w h buf q p c] show ?case by simp
qed (simp_all add: canvas_put_keeps)

section \<open>The value painted at a point\<close>

text \<open>The last value that a list of painted points gives to a point.\<close>

definition painted :: "(point \<times> px) list \<Rightarrow> point \<Rightarrow> px option" where
  "painted ps q = map_of (rev ps) q"

definition area :: "point list \<Rightarrow> px \<Rightarrow> (point \<times> px) list" where
  "area ps v = map (\<lambda>p. (p, v)) ps"

lemma painted_Nil [simp]: "painted [] q = None"
  by (simp add: painted_def)

lemma painted_append [simp]:
  "painted (ps @ qs) q = (case painted qs q of Some v \<Rightarrow> Some v | None \<Rightarrow> painted ps q)"
  by (simp add: painted_def map_add_def split: option.splits)

lemma painted_area [simp]: "painted (area ps v) q = (if q \<in> set ps then Some v else None)"
  unfolding area_def painted_def by (induction ps rule: rev_induct) simp_all

lemma painted_fun:
  assumes "\<And>p v. (p, v) \<in> set ps \<Longrightarrow> v = g p"
  shows "painted ps q = (if q \<in> fst ` set ps then Some (g q) else None)"
proof (cases "map_of (rev ps) q")
  case None
  then have "q \<notin> fst ` set (rev ps)" by (simp add: map_of_eq_None_iff)
  then show ?thesis using None by (simp add: painted_def)
next
  case (Some v)
  then have m: "(q, v) \<in> set ps" using map_of_SomeD by fastforce
  then have "q \<in> fst ` set ps" by (rule rev_image_eqI) simp
  moreover have "v = g q" using assms [OF m] .
  ultimately show ?thesis using Some by (simp add: painted_def)
qed

lemma paint_px: "canvas_ok s \<Longrightarrow> canvas_shown s q \<Longrightarrow> canvas_px (cv.paint ps s) q = (case painted ps q of Some v \<Rightarrow> v | None \<Rightarrow> canvas_px s q)"
  by (simp add: cv.paint_pixel painted_def)

text \<open>The points with \<open>a \<le> x < b\<close> and \<open>c \<le> y < d\<close>, row by row.\<close>

definition rect :: "int \<Rightarrow> int \<Rightarrow> int \<Rightarrow> int \<Rightarrow> point list" where
  "rect a b c d = grid [a..b - 1] [c..d - 1]"

lemma set_rect [simp]: "(x, y) \<in> set (rect a b c d) \<longleftrightarrow> a \<le> x \<and> x < b \<and> c \<le> y \<and> y < d"
  by (auto simp: rect_def)

section \<open>Drawing steps\<close>

text \<open>A drawing step on buffers of one geometry, in terms of the pixels it leaves: it keeps the
  invariant, gives the points in the domain of \<open>g\<close> their value and leaves the other ones.\<close>

definition draws :: "(bytes \<Rightarrow> bool) \<Rightarrow> int \<Rightarrow> int \<Rightarrow> (bytes \<Rightarrow> bytes) \<Rightarrow> (point \<Rightarrow> px option) \<Rightarrow> bool" where
  "draws ok w h f g \<longleftrightarrow> (\<forall>bs. ok bs \<longrightarrow> ok (f bs) \<and>
     (\<forall>q. inside w h q \<longrightarrow> canvas_px (w, h, f bs) q = (case g q of Some v \<Rightarrow> v | None \<Rightarrow> canvas_px (w, h, bs) q)))"

lemma drawsI:
  assumes "\<And>bs. ok bs \<Longrightarrow> ok (f bs)" "\<And>bs. ok bs \<Longrightarrow> canvas_ok (w, h, bs)"
    "\<And>bs. ok bs \<Longrightarrow> (w, h, f bs) = cv.paint ps (w, h, bs)"
    "\<And>bs q. ok bs \<Longrightarrow> inside w h q \<Longrightarrow> painted ps q = g q"
  shows "draws ok w h f g"
  unfolding draws_def
proof (intro allI impI conjI)
  fix bs q assume ok: "ok bs"
  show "ok (f bs)" by (rule assms(1) [OF ok])
  assume q: "inside w h q"
  then have "canvas_shown (w, h, bs) q" by simp
  from paint_px [OF assms(2) [OF ok] this, of ps] show "canvas_px (w, h, f bs) q = (case g q of Some v \<Rightarrow> v | None \<Rightarrow> canvas_px (w, h, bs) q)"
    unfolding assms(3) [OF ok] assms(4) [OF ok q] .
qed

lemma drawsD:
  "draws ok w h f g \<Longrightarrow> ok bs \<Longrightarrow> inside w h q \<Longrightarrow>
     canvas_px (w, h, f bs) q = (case g q of Some v \<Rightarrow> v | None \<Rightarrow> canvas_px (w, h, bs) q)"
  "draws ok w h f g \<Longrightarrow> ok bs \<Longrightarrow> ok (f bs)"
  unfolding draws_def by blast+

lemma draws_comp:
  assumes "draws ok w h f1 g1" "draws ok w h f2 g2"
  shows "draws ok w h (\<lambda>bs. f2 (f1 bs)) (\<lambda>q. case g2 q of Some v \<Rightarrow> Some v | None \<Rightarrow> g1 q)"
  using assms unfolding draws_def by (auto split: option.splits)

lemma draws_eq:
  assumes "draws ok w h f g" "\<And>bs. f' bs = f bs" "\<And>q. g' q = g q"
  shows "draws ok w h f' g'"
proof -
  have "f' = f" "g' = g" using assms(2,3) by auto
  then show ?thesis using assms(1) by simp
qed

lemma draws_keep: "draws ok w h (\<lambda>bs. bs) (\<lambda>q. None)"
  by (simp add: draws_def)

text \<open>A loop of drawing steps: the last step that draws at a point decides.\<close>

lemma draws_fold:
  assumes "\<And>i. i \<in> set is \<Longrightarrow> draws ok w h (f i) (g i)"
  shows "draws ok w h (fold f is) (\<lambda>q. case find (\<lambda>i. g i q \<noteq> None) (rev is) of None \<Rightarrow> None | Some i \<Rightarrow> g i q)"
  using assms
proof (induction "is" rule: rev_induct)
  case Nil
  then show ?case using draws_keep by (simp add: id_def)
next
  case (snoc i "is")
  have "draws ok w h (fold f is) (\<lambda>q. case find (\<lambda>i. g i q \<noteq> None) (rev is) of None \<Rightarrow> None | Some i \<Rightarrow> g i q)" "draws ok w h (f i) (g i)"
    using snoc by simp_all
  from draws_comp [OF this] show ?case by (rule draws_eq) (auto split: option.splits)
qed

end
