(* ===== verification/Compositor.thy ===== *)
theory Compositor
  imports Wm_Input Canvas User_Memory
begin

text \<open>
  The window manager's compositor (\<^verbatim>\<open>wm/src/compositor.rs\<close>), the drawing of the pointer
  (\<^verbatim>\<open>wm/src/cursor.rs\<close>), the surfaces of applications (\<^verbatim>\<open>wm/src/flutter_api.rs\<close>) and the manager's
  start and frame (\<^verbatim>\<open>wm/src/lib.rs\<close>). The off-screen buffer is a list of bytes; window contents
  are read from memory. The main property says which window each pixel of a composed
  screen shows.
\<close>

section \<open>Colours and geometry\<close>

record WmColor =
  cr :: u8
  cg :: u8
  cb :: u8

definition COLOR_DARK_BG :: WmColor where "COLOR_DARK_BG = \<lparr>cr = 0x0f, cg = 0x17, cb = 0x24\<rparr>"
definition COLOR_TITLE_BAR :: WmColor where "COLOR_TITLE_BAR = \<lparr>cr = 0x1e, cg = 0x29, cb = 0x3b\<rparr>"
definition COLOR_TITLE_BAR_ACTIVE :: WmColor where "COLOR_TITLE_BAR_ACTIVE = \<lparr>cr = 0x2d, cg = 0x5a, cb = 0x9e\<rparr>"
definition COLOR_BORDER :: WmColor where "COLOR_BORDER = \<lparr>cr = 0x33, cg = 0x44, cb = 0x55\<rparr>"
definition COLOR_DESKTOP :: WmColor where "COLOR_DESKTOP = \<lparr>cr = 0x0b, cg = 0x12, cb = 0x2a\<rparr>"
definition COLOR_BLACK :: WmColor where "COLOR_BLACK = \<lparr>cr = 0, cg = 0, cb = 0\<rparr>"
definition COLOR_WHITE :: WmColor where "COLOR_WHITE = \<lparr>cr = 0xff, cg = 0xff, cb = 0xff\<rparr>"

record FramebufferInfo =
  fb_address :: u64
  fb_width :: u32
  fb_height :: u32
  fb_stride :: u32
  fb_bpp :: u32
  fb_format :: u32
  fb_len :: u64

record Compositor =
  fb_info :: FramebufferInfo
  comp_initialised :: bool

definition OFFSCREEN_LEN :: nat where "OFFSCREEN_LEN = 1280 * 720 * 4"

definition compositor_new :: Compositor where
  "compositor_new = \<lparr>fb_info = \<lparr>fb_address = 0, fb_width = 0, fb_height = 0, fb_stride = 0, fb_bpp = 0, fb_format = 0, fb_len = 0\<rparr>,
     comp_initialised = False\<rparr>"

text \<open>The system calls of the skeleton; the feature of the same name is on by default.\<close>

definition ENOSYS :: i64 where "ENOSYS = - 38"
definition wm_get_framebuffer_info :: "FramebufferInfo \<Rightarrow> FramebufferInfo \<times> i64" where
  "wm_get_framebuffer_info info = (info, ENOSYS)"
definition wm_fb_commit :: "bytes \<Rightarrow> u32 \<Rightarrow> u32 \<Rightarrow> u32 \<Rightarrow> u32 \<Rightarrow> i64" where
  "wm_fb_commit bs x y w h = ENOSYS"

definition compositor_init :: "bool \<Rightarrow> Compositor \<Rightarrow> Compositor \<times> (i32 + unit)" where
  "compositor_init skeleton c =
     (case wm_get_framebuffer_info (fb_info c) of (info, ret) \<Rightarrow>
        if ret <s 0 then
          (if skeleton then (c\<lparr>fb_info := \<lparr>fb_address = 0xFD000000, fb_width = 1280, fb_height = 720, fb_stride = 1280,
                 fb_bpp = 4, fb_format = 1, fb_len = 1280 * 720 * 4\<rparr>, comp_initialised := True\<rparr>, Inr ())
           else (c\<lparr>fb_info := info\<rparr>, Inl (ucast ret)))
        else (c\<lparr>fb_info := info, comp_initialised := True\<rparr>, Inr ()))"

section \<open>Drawing\<close>

definition put_pixel :: "Compositor \<Rightarrow> i32 \<Rightarrow> i32 \<Rightarrow> WmColor \<Rightarrow> bytes \<Rightarrow> bytes" where
  "put_pixel c x y col bs =
     (if x <s 0 \<or> y <s 0 then bs
      else let x' = scast x :: u64; y' = scast y :: u64;
               w = ucast (fb_width (fb_info c)) :: u64; h = ucast (fb_height (fb_info c)) :: u64
           in if w \<le> x' \<or> h \<le> y' then bs
              else let offset = (y' * w + x') * 4 in
                if of_nat (length bs) < offset + 4 then bs
                else splice (unat offset) [cb col, cg col, cr col, 0] bs)"

text \<open>\<^verbatim>\<open>i32::saturating_add\<close> and the range \<^verbatim>\<open>a..b\<close> of signed numbers.\<close>

definition sat_add :: "i32 \<Rightarrow> i32 \<Rightarrow> i32" where
  "sat_add a b = word_of_int (max (- 2147483648) (min 2147483647 (sint a + sint b)))"

definition i32_range :: "i32 \<Rightarrow> i32 \<Rightarrow> i32 list" where
  "i32_range a b = map word_of_int [sint a..sint b - 1]"

definition wm_fill_rect :: "Compositor \<Rightarrow> i32 \<Rightarrow> i32 \<Rightarrow> u32 \<Rightarrow> u32 \<Rightarrow> WmColor \<Rightarrow> bytes \<Rightarrow> bytes" where
  "wm_fill_rect c x y w h col bs =
     (let x_end = sat_add x w; y_end = sat_add y h in
      fold (\<lambda>py bs. fold (\<lambda>px bs. put_pixel c px py col bs) (i32_range x x_end) bs) (i32_range y y_end) bs)"

definition draw_rect_outline :: "Compositor \<Rightarrow> i32 \<Rightarrow> i32 \<Rightarrow> u32 \<Rightarrow> u32 \<Rightarrow> WmColor \<Rightarrow> bytes \<Rightarrow> bytes" where
  "draw_rect_outline c x y w h col bs =
     wm_fill_rect c (x + w - 1) y 1 h col (wm_fill_rect c x y 1 h col
       (wm_fill_rect c x (y + h - 1) w 1 col (wm_fill_rect c x y w 1 col bs)))"

definition draw_title_text :: "Compositor \<Rightarrow> Window \<Rightarrow> bytes \<Rightarrow> bytes" where
  "draw_title_text c win bs =
     (let logo_color = (if focused win then \<lparr>cr = 0xff, cg = 0xbf, cb = 0x00\<rparr> else \<lparr>cr = 0x80, cg = 0x80, cb = 0x80\<rparr>)
      in wm_fill_rect c (win_x win + 4) (win_y win + 6) 12 12 logo_color bs)"

text \<open>One row of the content: columns off the screen are skipped, the row ends where the
  content does.\<close>

fun blit_row :: "Compositor \<Rightarrow> Window \<Rightarrow> bytes \<Rightarrow> i32 \<Rightarrow> i32 \<Rightarrow> i32 list \<Rightarrow> bytes \<Rightarrow> bytes" where
  "blit_row c win content row py [] bs = bs"
| "blit_row c win content row py (col # cols) bs =
     (let px = win_x win + BORDER_WIDTH + col; fb_w = fb_width (fb_info c) in
      if px <s 0 \<or> fb_w \<le>s px then blit_row c win content row py cols bs
      else let src_off = ((scast row :: u64) * ucast (win_width win) + scast col) * 4 in
        if of_nat (length content) < src_off + 4 then bs
        else let dst_off = ((scast py :: u64) * scast fb_w + scast px) * 4 in
          blit_row c win content row py cols
            (if dst_off + 4 \<le> of_nat (length bs)
             then splice (unat dst_off) (slice (unat src_off) (unat src_off + 4) content) bs else bs))"

definition blit_content :: "Compositor \<Rightarrow> Window \<Rightarrow> bytes \<Rightarrow> bytes \<Rightarrow> bytes" where
  "blit_content c win content bs =
     fold (\<lambda>row bs.
       let py = win_y win + TITLE_BAR_HEIGHT + row in
       if py <s 0 \<or> fb_height (fb_info c) \<le>s py then bs
       else blit_row c win content row py (i32_range 0 (win_width win)) bs) (i32_range 0 (win_height win)) bs"

definition composite_window :: "Compositor \<Rightarrow> (u64 \<Rightarrow> u8) \<Rightarrow> Window \<Rightarrow> bytes \<Rightarrow> bytes" where
  "composite_window c m win buf0 =
     (if \<not> visible win then buf0
      else
        let border_color = (if focused win then COLOR_BORDER else \<lparr>cr = 0x22, cg = 0x2a, cb = 0x35\<rparr>);
            buf1 = draw_rect_outline c (win_x win) (win_y win) (full_width win) (full_height win) border_color buf0;
            title_color = (if focused win then COLOR_TITLE_BAR_ACTIVE else COLOR_TITLE_BAR);
            buf2 = wm_fill_rect c (win_x win + 1) (win_y win + 1) (full_width win - 2) TITLE_BAR_HEIGHT title_color buf1;
            buf3 = draw_title_text c win buf2
        in if content_buf win = 0 \<or> content_len win = 0
           then wm_fill_rect c (win_x win + BORDER_WIDTH) (win_y win + TITLE_BAR_HEIGHT) (win_width win) (win_height win) COLOR_DARK_BG buf3
           else blit_content c win (peek (content_buf win) (unat (content_len win)) m) buf3)"

definition composite :: "Compositor \<Rightarrow> (u64 \<Rightarrow> u8) \<Rightarrow> WindowList \<Rightarrow> bytes \<Rightarrow> bytes" where
  "composite c m l bs =
     fold (composite_window c m) (iter_z_order l)
       (wm_fill_rect c 0 0 (fb_width (fb_info c)) (fb_height (fb_info c)) COLOR_DESKTOP bs)"

definition commit :: "Compositor \<Rightarrow> bytes \<Rightarrow> i64" where
  "commit c bs = wm_fb_commit bs 0 0 (fb_width (fb_info c)) (fb_height (fb_info c))"

section \<open>The pointer on the screen\<close>

definition CURSOR_WIDTH :: nat where "CURSOR_WIDTH = 11"
definition CURSOR_HEIGHT :: nat where "CURSOR_HEIGHT = 16"

definition CURSOR_BITMAP :: "u8 list list" where
  "CURSOR_BITMAP =
    [[1, 0, 0, 0, 0, 0, 0, 0, 0, 0, 0],
     [1, 1, 0, 0, 0, 0, 0, 0, 0, 0, 0],
     [1, 0, 1, 0, 0, 0, 0, 0, 0, 0, 0],
     [1, 0, 0, 1, 0, 0, 0, 0, 0, 0, 0],
     [1, 0, 0, 0, 1, 0, 0, 0, 0, 0, 0],
     [1, 0, 0, 0, 0, 1, 0, 0, 0, 0, 0],
     [1, 0, 0, 0, 0, 0, 1, 0, 0, 0, 0],
     [1, 0, 0, 0, 0, 0, 0, 1, 0, 0, 0],
     [1, 0, 0, 0, 0, 0, 0, 0, 1, 0, 0],
     [1, 0, 0, 0, 0, 0, 0, 0, 0, 1, 0],
     [1, 0, 0, 0, 0, 0, 0, 0, 0, 0, 1],
     [1, 0, 0, 0, 0, 0, 1, 1, 1, 1, 0],
     [1, 0, 0, 1, 1, 0, 0, 0, 0, 0, 0],
     [1, 0, 1, 1, 0, 0, 0, 0, 0, 0, 0],
     [1, 1, 0, 0, 0, 0, 0, 0, 0, 0, 0],
     [1, 0, 0, 0, 0, 0, 0, 0, 0, 0, 0]]"

definition cursor_color :: "nat \<Rightarrow> nat \<Rightarrow> WmColor" where
  "cursor_color row col =
     (if row = 0 \<or> col = 0 \<or> row = CURSOR_HEIGHT - 1 \<or> col = CURSOR_WIDTH - 1 then COLOR_BLACK else COLOR_WHITE)"

definition cursor_draw :: "Cursor \<Rightarrow> Compositor \<Rightarrow> bytes \<Rightarrow> bytes" where
  "cursor_draw cur c bs =
     (if \<not> cur_visible cur then bs
      else put_pixel c (cur_x cur) (cur_y cur) \<lparr>cr = 0xff, cg = 0, cb = 0xff\<rparr>
        (fold (\<lambda>row bs. fold (\<lambda>col bs.
           if CURSOR_BITMAP ! row ! col = 1
           then put_pixel c (cur_x cur + of_nat col) (cur_y cur + of_nat row) (cursor_color row col) bs
           else bs) [0..<CURSOR_WIDTH] bs) [0..<CURSOR_HEIGHT] bs))"

section \<open>Application surfaces\<close>

record FlutterSurface =
  surface_buffer :: u64
  surface_len :: u64
  surface_width :: u32
  surface_height :: u32
  surface_dirty :: bool

definition surface_empty :: FlutterSurface where
  "surface_empty = \<lparr>surface_buffer = 0, surface_len = 0, surface_width = 0, surface_height = 0, surface_dirty = False\<rparr>"

definition register :: "i32 \<Rightarrow> i32 \<Rightarrow> FlutterSurface \<Rightarrow> bytes \<Rightarrow> WindowList \<Rightarrow> WindowList \<times> u32" where
  "register x y sf t l = create x y (surface_width sf) (surface_height sf) t (surface_buffer sf) (surface_len sf) l"

definition mark_dirty :: "FlutterSurface \<Rightarrow> FlutterSurface" where "mark_dirty sf = sf\<lparr>surface_dirty := True\<rparr>"
definition clear_dirty :: "FlutterSurface \<Rightarrow> FlutterSurface" where "clear_dirty sf = sf\<lparr>surface_dirty := False\<rparr>"

definition fill_test_content :: "u32 \<Rightarrow> u32 \<Rightarrow> WmColor \<Rightarrow> bytes \<Rightarrow> bytes" where
  "fill_test_content w h col bs =
     fold (\<lambda>y bs. fold (\<lambda>x bs.
       let row_bytes = ucast w * 4 :: u64; offset = of_nat y * row_bytes + of_nat x * 4 in
       if offset + 4 \<le> of_nat (length bs) then splice (unat offset) [cb col, cg col, cr col, 0] bs else bs)
       [0..<unat w] bs) [0..<unat h] bs"

section \<open>The window manager\<close>

record WmState = wm_input +
  compositor :: Compositor
  running :: bool
  offscreen :: bytes

definition wm_start :: WmState where
  "wm_start = \<lparr>drag = drag_new, cursor = cursor_new, wlist = wl_new, compositor = compositor_new, running = False,
     offscreen = replicate OFFSCREEN_LEN 0\<rparr>"

text \<open>\<^verbatim>\<open>i32\<close> division by two rounds towards zero.\<close>

definition half :: "i32 \<Rightarrow> i32" where
  "half v = word_of_int (if sint v < 0 then - (- sint v div 2) else sint v div 2)"

definition wm_init :: "bool \<Rightarrow> WmState \<Rightarrow> WmState \<times> (i32 + unit)" where
  "wm_init skeleton s =
     (case compositor_init skeleton (compositor s) of
        (c, Inl e) \<Rightarrow> (s\<lparr>compositor := c\<rparr>, Inl e)
      | (c, Inr _) \<Rightarrow>
          let w = fb_width (fb_info c); h = fb_height (fb_info c);
              l = fst (create (half (w - 320)) (half (h - 200)) 320 200 (as_bytes ''AeroOS WM'') 0 0 (wlist s))
          in (s\<lparr>compositor := c, cursor := (cursor s)\<lparr>cur_x := half w, cur_y := half h\<rparr>, wlist := l, running := True\<rparr>, Inr ()))"

text \<open>One round of the event loop: the pending events, then the picture. The screen size is
  read before the loop.\<close>

definition wm_frame :: "(u64 \<Rightarrow> u8) \<Rightarrow> InputEvent list \<Rightarrow> WmState \<Rightarrow> WmState \<times> i64" where
  "wm_frame m evs s =
     (let c = compositor s;
          i = process_events (fb_width (fb_info c)) (fb_height (fb_info c)) evs (wm_input.truncate s);
          bs = cursor_draw (cursor i) c (composite c m (wlist i) (offscreen s))
      in (s\<lparr>drag := drag i, cursor := cursor i, wlist := wlist i, offscreen := bs\<rparr>, commit c bs))"

section \<open>Drawing as painting\<close>

definition comp_ok :: "Compositor \<Rightarrow> bytes \<Rightarrow> bool" where
  "comp_ok c bs \<longleftrightarrow> uint (fb_width (fb_info c)) < 2 ^ 31 \<and> uint (fb_height (fb_info c)) < 2 ^ 31 \<and>
     unat (fb_width (fb_info c)) * unat (fb_height (fb_info c)) * 4 \<le> length bs \<and> length bs < 2 ^ 63"

definition screen :: "Compositor \<Rightarrow> bytes \<Rightarrow> canvas" where
  "screen c bs = (uint (fb_width (fb_info c)), uint (fb_height (fb_info c)), bs)"

definition color_px :: "WmColor \<Rightarrow> px" where
  "color_px col = (cb col, cg col, cr col, 0)"

lemma screen_ok: "comp_ok c bs \<Longrightarrow> canvas_ok (screen c bs)"
  by (simp add: comp_ok_def screen_def)

lemma screen_length: "canvas_ok (screen c bs) \<Longrightarrow> screen c bs' = cv.paint ps (screen c bs) \<Longrightarrow> length bs' = length bs"
proof -
  assume "canvas_ok (screen c bs)" "screen c bs' = cv.paint ps (screen c bs)"
  then have "canvas_rest (screen c bs') = canvas_rest (screen c bs)" using cv.paint_keeps by simp
  then show ?thesis by (simp add: screen_def)
qed

lemma screen_comp_ok:
  assumes "comp_ok c bs" "screen c bs' = cv.paint ps (screen c bs)"
  shows "comp_ok c bs'"
  using assms(1) screen_length [OF screen_ok [OF assms(1)] assms(2)] by (simp add: comp_ok_def)

text \<open>Non-negative signed numbers as 64-bit ones.\<close>

lemma uint_scast:
  assumes "0 \<le> sint (x :: i32)"
  shows "uint (scast x :: u64) = sint x" "unat (scast x :: u64) = nat (sint x)"
proof -
  have "sint x < 2 ^ 31" using sint_lt [of x] by simp
  then have "take_bit 64 (sint x) = sint x" using assms by (simp add: take_bit_int_eq_self)
  moreover have "(scast x :: u64) = of_int (sint x)" by simp
  ultimately show u: "uint (scast x :: u64) = sint x" using assms by (simp only: unsigned_of_int) simp
  show "unat (scast x :: u64) = nat (sint x)" using u by (simp add: unat_eq_nat_uint)
qed

lemma offset_word:
  assumes "inside (uint (w :: u32)) (uint (h :: u32)) (sint (x :: i32), sint (y :: i32))" "unat w * unat h * 4 < 2 ^ 63"
  shows "unat ((scast y * ucast w + scast x) * 4 :: u64) = px_offset (uint w) (sint x, sint y)"
    "unat ((scast y * ucast w + scast x) * 4 + 4 :: u64) = px_offset (uint w) (sint x, sint y) + 4"
proof -
  let ?o = "px_offset (uint w) (sint x, sint y)"
  have p: "0 \<le> sint x" "0 \<le> sint y" using assms(1) by (auto simp: inside_def)
  have b: "?o + 4 \<le> unat w * unat h * 4" using px_offset_bound [OF assms(1)] by simp
  have "?o = (nat (sint y) * unat w + nat (sint x)) * 4"
    using px_offset_nat [OF assms(1)] by simp
  moreover have "of_nat (nat (sint x)) = (scast x :: u64)" "of_nat (nat (sint y)) = (scast y :: u64)"
    using uint_scast(2) [OF p(1)] uint_scast(2) [OF p(2)] by (metis of_nat_unat ucast_id)+
  ultimately have e: "(scast y * ucast w + scast x) * 4 = (of_nat ?o :: u64)" by simp
  have lt: "?o + 4 < 2 ^ 64" by (rule le_less_trans [OF b less_trans [OF assms(2)]]) simp
  show "unat ((scast y * ucast w + scast x) * 4 :: u64) = ?o" unfolding e by (rule unat_offset) (use lt in linarith)
  have "(scast y * ucast w + scast x) * 4 + 4 = (of_nat (?o + 4) :: u64)" unfolding e by simp
  then show "unat ((scast y * ucast w + scast x) * 4 + 4 :: u64) = ?o + 4"
    by (simp only:) (rule unat_offset [OF lt])
qed

lemma put_pixel_canvas:
  assumes "comp_ok c bs"
  shows "screen c (put_pixel c x y col bs) = canvas_put (sint x, sint y) (color_px col) (screen c bs)"
proof -
  let ?w = "fb_width (fb_info c)" and ?h = "fb_height (fb_info c)"
  show ?thesis
  proof (cases "inside (uint ?w) (uint ?h) (sint x, sint y)")
    case True
    have le: "unat ?w * unat ?h * 4 \<le> length bs" "length bs < 2 ^ 63" using assms by (simp_all add: comp_ok_def)
    note o = offset_word [OF True order.strict_trans1 [OF le]]
    have p: "0 \<le> sint x" "0 \<le> sint y" "sint x < uint ?w" "sint y < uint ?h" using True by (auto simp: inside_def)
    have "\<not> (x <s 0 \<or> y <s 0)" using p by (simp add: word_sless_alt)
    moreover have "\<not> (ucast ?w \<le> (scast x :: u64) \<or> ucast ?h \<le> (scast y :: u64))"
      using p uint_scast(1) [OF p(1)] uint_scast(1) [OF p(2)] by (simp add: word_le_def uint_up_ucast is_up)
    moreover have "\<not> of_nat (length bs) < (scast y * ucast ?w + scast x) * 4 + (4 :: u64)"
    proof -
      have "unat (of_nat (length bs) :: u64) = length bs" using le(2) by (intro unat_offset) simp
      then show ?thesis using o(2) px_offset_bound [OF True] le(1) by (simp add: word_less_nat_alt)
    qed
    ultimately have "put_pixel c x y col bs = splice (px_offset (uint ?w) (sint x, sint y)) [cb col, cg col, cr col, 0] bs"
      unfolding put_pixel_def Let_def o(1) by (simp only: if_False)
    then show ?thesis using True by (simp add: screen_def color_px_def)
  next
    case False
    have "put_pixel c x y col bs = bs"
    proof (cases "x <s 0 \<or> y <s 0")
      case n: False
      then have p: "0 \<le> sint x" "0 \<le> sint y" by (simp_all add: word_sless_alt)
      then have "ucast ?w \<le> (scast x :: u64) \<or> ucast ?h \<le> (scast y :: u64)"
        using False uint_scast(1) [OF p(1)] uint_scast(1) [OF p(2)] by (auto simp: word_le_def uint_up_ucast is_up inside_def)
      then show ?thesis using n by (simp add: put_pixel_def Let_def)
    qed (auto simp: put_pixel_def)
    then show ?thesis using False by (simp add: screen_def)
  qed
qed

lemma fold_put_pixel:
  assumes "comp_ok c bs"
  shows "screen c (fold (\<lambda>k bs. put_pixel c (x k) (y k) (col k) bs) ks bs) =
    cv.paint (map (\<lambda>k. ((sint (x k), sint (y k)), color_px (col k))) ks) (screen c bs)"
  using assms
proof (induction ks arbitrary: bs)
  case Nil
  then show ?case by (simp add: cv.paint_def)
next
  case (Cons k ks)
  have 1: "screen c (put_pixel c (x k) (y k) (col k) bs) = cv.paint [((sint (x k), sint (y k)), color_px (col k))] (screen c bs)"
    using put_pixel_canvas [OF Cons.prems] by (simp add: cv.paint_def)
  from Cons.IH [OF screen_comp_ok [OF Cons.prems 1]] show ?case by (simp add: 1 cv.paint_append [symmetric])
qed

lemma sint_range: "map sint (i32_range a b) = [sint a..sint b - 1]"
proof -
  have "sint (word_of_int k :: i32) = k" if "k \<in> set [sint a..sint b - 1]" for k
  proof -
    have "- (2 ^ 31) \<le> k" "k < 2 ^ 31" using that sint_ge [of a] sint_lt [of b] by auto
    then have "signed_take_bit 31 k = k" by (intro signed_take_bit_int_eq_self) simp_all
    then show ?thesis by (simp add: sint_sbintrunc')
  qed
  then show ?thesis unfolding i32_range_def map_map comp_def by (rule map_idI)
qed

section \<open>Rectangles\<close>

text \<open>The columns and rows of a filled rectangle, cut off at the largest coordinate.\<close>

definition fill_area :: "i32 \<Rightarrow> i32 \<Rightarrow> u32 \<Rightarrow> u32 \<Rightarrow> point list" where
  "fill_area x y w h = rect (sint x) (sint (sat_add x w)) (sint y) (sint (sat_add y h))"

lemma wm_fill_paint:
  assumes "comp_ok c bs"
  shows "screen c (wm_fill_rect c x y w h col bs) = cv.paint (area (fill_area x y w h) (color_px col)) (screen c bs)"
proof -
  let ?xs = "i32_range x (sat_add x w)" and ?ys = "i32_range y (sat_add y h)"
  have "wm_fill_rect c x y w h col bs = fold (\<lambda>k bs. put_pixel c (fst k) (snd k) col bs) (grid ?xs ?ys) bs"
    by (simp add: wm_fill_rect_def Let_def fold_nested case_prod_unfold)
  moreover have "map (\<lambda>k. ((sint (fst k), sint (snd k)), color_px col)) (grid ?xs ?ys) = area (fill_area x y w h) (color_px col)"
    unfolding area_def fill_area_def rect_def sint_range [symmetric] grid_map by (simp add: case_prod_unfold)
  ultimately show ?thesis using fold_put_pixel [OF assms, of fst snd "\<lambda>_. col" "grid ?xs ?ys"] by simp
qed

lemma paint_step:
  assumes "comp_ok c bs" "screen c bs1 = cv.paint ps (screen c bs)" "comp_ok c bs1 \<Longrightarrow> screen c bs2 = cv.paint qs (screen c bs1)"
  shows "screen c bs2 = cv.paint (ps @ qs) (screen c bs)"
  using assms(3) [OF screen_comp_ok [OF assms(1,2)]] assms(2) by (simp add: cv.paint_append)

definition outline_area :: "i32 \<Rightarrow> i32 \<Rightarrow> u32 \<Rightarrow> u32 \<Rightarrow> point list" where
  "outline_area x y w h = fill_area x y w 1 @ fill_area x (y + h - 1) w 1 @ fill_area x y 1 h @ fill_area (x + w - 1) y 1 h"

lemma area_append: "area (ps @ qs) v = area ps v @ area qs v"
  by (simp add: area_def)

lemma outline_paint:
  assumes "comp_ok c bs"
  shows "screen c (draw_rect_outline c x y w h col bs) = cv.paint (area (outline_area x y w h) (color_px col)) (screen c bs)"
  unfolding outline_area_def draw_rect_outline_def area_append append_assoc [symmetric]
  by (rule paint_step [OF assms _ wm_fill_paint])+ (rule wm_fill_paint [OF assms])

section \<open>Window contents\<close>

text \<open>The content pixel that belongs to a point: its column and row are the differences of the
  coordinates, as machine numbers.\<close>

definition content_col :: "Window \<Rightarrow> int \<Rightarrow> i32" where
  "content_col win x = word_of_int x - (win_x win + BORDER_WIDTH)"

definition content_row :: "Window \<Rightarrow> int \<Rightarrow> i32" where
  "content_row win y = word_of_int y - (win_y win + TITLE_BAR_HEIGHT)"

definition content_offset :: "Window \<Rightarrow> int \<Rightarrow> int \<Rightarrow> nat" where
  "content_offset win col row = nat (row * uint (win_width win) + col) * 4"

definition content_at :: "bytes \<Rightarrow> nat \<Rightarrow> px" where
  "content_at content i = (content ! i, content ! (i + 1), content ! (i + 2), content ! (i + 3))"

definition content_px :: "Window \<Rightarrow> bytes \<Rightarrow> point \<Rightarrow> px option" where
  "content_px win content q =
     (let col = sint (content_col win (fst q)); row = sint (content_row win (snd q)); i = content_offset win col row in
      if 0 \<le> col \<and> col < sint (win_width win) \<and> 0 \<le> row \<and> row < sint (win_height win) \<and> i + 4 \<le> length content
      then Some (content_at content i) else None)"

lemma slice_content: "i + 4 \<le> length content \<Longrightarrow> slice i (i + 4) content = px_bytes (content_at content i)"
  by (rule nth_equalityI) (auto simp: nth_slice content_at_def less_Suc_eq numeral_eq_Suc)

lemma scast_small: "uint (w :: u32) < 2 ^ 31 \<Longrightarrow> (scast w :: u64) = ucast w"
  using uint_scast(1) [of w] sint_pos [of w] by (simp add: word_uint_eq_iff uint_up_ucast is_up)

lemma uint_nonneg: "0 \<le> sint (w :: i32) \<Longrightarrow> uint w = sint w"
  using sint_lt [of w] by (simp add: uint_sint take_bit_int_eq_self)

lemma content_word:
  fixes row col :: i32
  assumes "0 \<le> sint row" "0 \<le> sint col" "sint col < sint (win_width win)"
  shows "unat ((scast row * ucast (win_width win) + scast col) * 4 :: u64) = content_offset win (sint col) (sint row)"
    "unat ((scast row * ucast (win_width win) + scast col) * 4 + 4 :: u64) = content_offset win (sint col) (sint row) + 4"
proof -
  let ?w = "win_width win" and ?o = "content_offset win (sint col) (sint row)"
  have w: "uint ?w = sint ?w" "sint ?w < 2 ^ 31" using uint_nonneg [of ?w] assms sint_lt [of ?w] by simp_all
  have o: "?o = (nat (sint row) * unat ?w + nat (sint col)) * 4"
    using assms by (simp add: content_offset_def nat_add_distrib nat_mult_distrib)
  moreover have "of_nat (nat (sint row)) = (scast row :: u64)" "of_nat (nat (sint col)) = (scast col :: u64)"
    using uint_scast(2) [OF assms(1)] uint_scast(2) [OF assms(2)] by (metis of_nat_unat ucast_id)+
  ultimately have e: "(scast row * ucast ?w + scast col) * 4 = (of_nat ?o :: u64)" by simp
  have "nat (sint row) \<le> 2147483647" "nat (sint col) < unat ?w" "unat ?w \<le> 2147483647"
    using sint_lt [of row] assms w by (simp_all add: unat_eq_nat_uint)
  moreover from this have "nat (sint row) * unat ?w \<le> 2147483647 * 2147483647" by (intro mult_le_mono)
  ultimately have lt: "?o + 4 < 2 ^ 64" unfolding o by simp
  show "unat ((scast row * ucast ?w + scast col) * 4 :: u64) = ?o" unfolding e by (rule unat_offset) (use lt in linarith)
  have "(scast row * ucast ?w + scast col) * 4 + 4 = (of_nat (?o + 4) :: u64)" unfolding e by simp
  then show "unat ((scast row * ucast ?w + scast col) * 4 + 4 :: u64) = ?o + 4" by (simp only:) (rule unat_offset [OF lt])
qed

lemma length_word: "n < 2 ^ 64 \<Longrightarrow> (of_nat n < (w :: u64)) = (n < unat w)" "n < 2 ^ 64 \<Longrightarrow> (w \<le> of_nat n) = (unat w \<le> n)"
  using unat_offset [of n] by (simp_all add: word_less_nat_alt word_le_nat_alt)

text \<open>Which columns of a content row are drawn, and where.\<close>

definition row_drawn :: "Compositor \<Rightarrow> Window \<Rightarrow> bytes \<Rightarrow> i32 \<Rightarrow> i32 \<Rightarrow> i32 \<Rightarrow> bool" where
  "row_drawn c win content row py col \<longleftrightarrow>
     inside (uint (fb_width (fb_info c))) (uint (fb_height (fb_info c))) (sint (win_x win + BORDER_WIDTH + col), sint py) \<and>
     content_offset win (sint col) (sint row) + 4 \<le> length content"

definition row_points :: "Window \<Rightarrow> bytes \<Rightarrow> i32 \<Rightarrow> i32 \<Rightarrow> i32 list \<Rightarrow> (point \<times> px) list" where
  "row_points win content row py cols =
     map (\<lambda>col. ((sint (win_x win + BORDER_WIDTH + col), sint py), content_at content (content_offset win (sint col) (sint row)))) cols"

lemma blit_row_paint:
  assumes "comp_ok c bs" "0 \<le> sint row" "0 \<le> sint py" "sint py < uint (fb_height (fb_info c))" "length content < 2 ^ 64"
    and "sorted (map sint cols)" "\<And>col. col \<in> set cols \<Longrightarrow> 0 \<le> sint col \<and> sint col < sint (win_width win)"
  shows "screen c (blit_row c win content row py cols bs) =
    cv.paint (row_points win content row py (filter (row_drawn c win content row py) cols)) (screen c bs)"
  using assms(1,6,7)
proof (induction cols arbitrary: bs)
  case Nil
  then show ?case by (simp add: row_points_def cv.paint_def)
next
  case (Cons col cols)
  let ?px = "win_x win + BORDER_WIDTH + col" and ?w = "fb_width (fb_info c)" and ?h = "fb_height (fb_info c)"
  let ?o = "content_offset win (sint col) (sint row)"
  have col: "0 \<le> sint col" "sint col < sint (win_width win)" using Cons.prems(3) by auto
  have ok: "uint ?w < 2 ^ 31" "unat ?w * unat ?h * 4 \<le> length bs" "length bs < 2 ^ 63" using Cons.prems(1) by (simp_all add: comp_ok_def)
  have on: "\<not> (?px <s 0 \<or> ?w \<le>s ?px) \<longleftrightarrow> inside (uint ?w) (uint ?h) (sint ?px, sint py)"
    using assms(3,4) sint_pos [OF ok(1)] by (auto simp: inside_def word_sless_alt word_sle_eq)
  note src = content_word [OF assms(2) col]
  have fit: "of_nat (length content) < (scast row * ucast (win_width win) + scast col) * 4 + (4 :: u64) \<longleftrightarrow> \<not> ?o + 4 \<le> length content"
    by (simp only: length_word(1) [OF assms(5)] src(2) not_le)
  have IH: "screen c (blit_row c win content row py cols bs') =
      cv.paint (row_points win content row py (filter (row_drawn c win content row py) cols)) (screen c bs')" if "comp_ok c bs'" for bs'
    using Cons.IH [OF that] Cons.prems(2,3) by simp
  consider "\<not> inside (uint ?w) (uint ?h) (sint ?px, sint py)"
    | "inside (uint ?w) (uint ?h) (sint ?px, sint py)" "\<not> ?o + 4 \<le> length content"
    | "inside (uint ?w) (uint ?h) (sint ?px, sint py)" "?o + 4 \<le> length content" by blast
  then show ?case
  proof cases
    case 1
    then have "blit_row c win content row py (col # cols) bs = blit_row c win content row py cols bs"
      using on by (simp add: Let_def)
    moreover have "\<not> row_drawn c win content row py col" using 1 by (simp add: row_drawn_def)
    ultimately show ?thesis using IH [OF Cons.prems(1)] by (simp del: blit_row.simps)
  next
    case 2
    have "blit_row c win content row py (col # cols) bs = bs"
      using 2 on fit unfolding blit_row.simps Let_def by simp
    moreover have "\<not> row_drawn c win content row py k" if "k \<in> set (col # cols)" for k
    proof -
      have "sint col \<le> sint k" using that Cons.prems(2) by auto
      then have "?o \<le> content_offset win (sint k) (sint row)" by (simp add: content_offset_def nat_mono)
      then show ?thesis using 2(2) by (simp add: row_drawn_def)
    qed
    then have "filter (row_drawn c win content row py) (col # cols) = []" by (simp only: filter_empty_conv) blast
    ultimately show ?thesis by (simp add: row_points_def cv.paint_def)
  next
    case 3
    note o = offset_word [OF 3(1) order.strict_trans1 [OF ok(2,3)]]
    let ?bs = "splice (px_offset (uint ?w) (sint ?px, sint py)) (px_bytes (content_at content ?o)) bs"
    let ?dst = "(scast py * scast ?w + scast ?px) * 4 :: u64"
    have dst: "unat ?dst = px_offset (uint ?w) (sint ?px, sint py)" "?dst + 4 \<le> of_nat (length bs)"
      using o px_offset_bound [OF 3(1)] ok(2,3) length_word(2) [of "length bs"] scast_small [OF ok(1)] by simp_all
    have "blit_row c win content row py (col # cols) bs = blit_row c win content row py cols ?bs"
      using 3 on fit dst src(1) slice_content [OF 3(2)] unfolding blit_row.simps Let_def by simp
    moreover have p: "screen c ?bs = cv.paint [((sint ?px, sint py), content_at content ?o)] (screen c bs)"
      using 3(1) by (simp add: cv.paint_def screen_def)
    moreover have "row_drawn c win content row py col" using 3 by (simp add: row_drawn_def)
    ultimately show ?thesis using IH [OF screen_comp_ok [OF Cons.prems(1) p]]
      by (simp add: row_points_def cv.paint_append [symmetric])
  qed
qed

lemma range_sint:
  "sorted (map sint (i32_range a b))" "col \<in> set (i32_range a b) \<longleftrightarrow> sint a \<le> sint col \<and> sint col < sint b"
proof -
  show "sorted (map sint (i32_range a b))" unfolding sint_range by simp
  have "sint ` set (i32_range a b) = {sint a..sint b - 1}" using arg_cong [OF sint_range [of a b], of set] by simp
  then have "sint col \<in> sint ` set (i32_range a b) \<longleftrightarrow> sint a \<le> sint col \<and> sint col < sint b" by auto
  moreover have "sint col \<in> sint ` set (i32_range a b) \<longleftrightarrow> col \<in> set (i32_range a b)"
    by (auto simp: image_iff) (metis signed_word_eqI)
  ultimately show "col \<in> set (i32_range a b) \<longleftrightarrow> sint a \<le> sint col \<and> sint col < sint b" by blast
qed

definition content_points :: "Compositor \<Rightarrow> Window \<Rightarrow> bytes \<Rightarrow> (point \<times> px) list" where
  "content_points c win content = concat (map (\<lambda>row. let py = win_y win + TITLE_BAR_HEIGHT + row in
     row_points win content row py (filter (row_drawn c win content row py) (i32_range 0 (win_width win)))) (i32_range 0 (win_height win)))"

lemma blit_content_paint:
  assumes "comp_ok c bs" "length content < 2 ^ 64"
  shows "screen c (blit_content c win content bs) = cv.paint (content_points c win content) (screen c bs)"
proof -
  let ?h = "fb_height (fb_info c)"
  let ?py = "\<lambda>row. win_y win + TITLE_BAR_HEIGHT + row"
  let ?pts = "\<lambda>row. row_points win content row (?py row) (filter (row_drawn c win content row (?py row)) (i32_range 0 (win_width win)))"
  let ?step = "\<lambda>row bs. let py = ?py row in if py <s 0 \<or> ?h \<le>s py then bs
    else blit_row c win content row py (i32_range 0 (win_width win)) bs"
  have step: "screen c (?step row bs) = cv.paint (?pts row) (screen c bs)" if "comp_ok c bs" "0 \<le> sint row" for row bs
  proof -
    have h: "sint ?h = uint ?h" using that(1) by (intro sint_pos) (simp add: comp_ok_def)
    show ?thesis
    proof (cases "?py row <s 0 \<or> ?h \<le>s ?py row")
      case True
      then have "\<not> row_drawn c win content row (?py row) col" for col
        using h by (auto simp: row_drawn_def inside_def word_sless_alt word_sle_eq)
      then have "?pts row = []" by (simp add: row_points_def)
      then show ?thesis using True by (simp add: Let_def cv.paint_def)
    next
      case False
      then have "0 \<le> sint (?py row)" "sint (?py row) < uint ?h" using h by (auto simp: word_sless_alt word_sle_eq)
      from blit_row_paint [OF that this assms(2) range_sint(1), of 0 "win_width win" win] False
      show ?thesis by (simp add: Let_def range_sint(2))
    qed
  qed
  have "screen c (fold ?step rows bs) = cv.paint (concat (map ?pts rows)) (screen c bs)"
    if "comp_ok c bs" "\<And>row. row \<in> set rows \<Longrightarrow> 0 \<le> sint row" for rows bs
    using that
  proof (induction rows arbitrary: bs)
    case (Cons row rows)
    note p = step [OF Cons.prems(1), of row]
    have "screen c (fold ?step rows (?step row bs)) = cv.paint (concat (map ?pts rows)) (screen c (?step row bs))"
      using Cons.IH [OF screen_comp_ok [OF Cons.prems(1) p]] Cons.prems(2) by simp
    then show ?case using p Cons.prems(2) by (simp add: cv.paint_append)
  qed (simp add: cv.paint_def)
  from this [OF assms(1), of "i32_range 0 (win_height win)"] show ?thesis
    by (simp add: blit_content_def content_points_def range_sint(2) Let_def)
qed

lemma sint_small: "- (2 ^ 31) \<le> k \<Longrightarrow> k < 2 ^ 31 \<Longrightarrow> sint (word_of_int k :: i32) = k"
  by (simp add: sint_sbintrunc' signed_take_bit_int_eq_self)

lemma painted_content:
  assumes "inside (uint (fb_width (fb_info c))) (uint (fb_height (fb_info c))) q"
    "uint (fb_width (fb_info c)) < 2 ^ 31" "uint (fb_height (fb_info c)) < 2 ^ 31"
  shows "painted (content_points c win content) q = content_px win content q"
proof -
  let ?g = "\<lambda>q. content_at content (content_offset win (sint (content_col win (fst q))) (sint (content_row win (snd q))))"
  have c1: "content_col win (sint (win_x win + BORDER_WIDTH + col)) = col" for col
    by (simp add: content_col_def)
  have r1: "content_row win (sint (win_y win + TITLE_BAR_HEIGHT + row)) = row" for row
    by (simp add: content_row_def)
  have f: "v = ?g p" if "(p, v) \<in> set (content_points c win content)" for p v
    using that by (auto simp: content_points_def row_points_def Let_def c1 r1)
  have x1: "sint (win_x win + BORDER_WIDTH + content_col win (fst q)) = fst q" "sint (win_y win + TITLE_BAR_HEIGHT + content_row win (snd q)) = snd q"
    using assms by (simp_all add: content_col_def content_row_def inside_def sint_small)
  have "q \<in> fst ` set (content_points c win content) \<longleftrightarrow>
      (\<exists>row \<in> set (i32_range 0 (win_height win)). \<exists>col \<in> set (i32_range 0 (win_width win)).
         row_drawn c win content row (win_y win + TITLE_BAR_HEIGHT + row) col \<and>
         q = (sint (win_x win + BORDER_WIDTH + col), sint (win_y win + TITLE_BAR_HEIGHT + row)))"
    by (auto simp: content_points_def row_points_def Let_def image_iff)
  also have "\<dots> \<longleftrightarrow> content_px win content q \<noteq> None" (is "?L \<longleftrightarrow> ?R")
  proof
    assume ?L
    then show ?R by (auto simp: content_px_def content_at_def Let_def c1 r1 range_sint(2) row_drawn_def)
  next
    assume ?R
    then have "content_row win (snd q) \<in> set (i32_range 0 (win_height win))" "content_col win (fst q) \<in> set (i32_range 0 (win_width win))"
      "row_drawn c win content (content_row win (snd q)) (win_y win + TITLE_BAR_HEIGHT + content_row win (snd q)) (content_col win (fst q))"
      using assms(1) by (simp_all add: content_px_def Let_def range_sint(2) row_drawn_def x1 split: if_splits)
    then show ?L using x1 by (metis prod.collapse)
  qed
  finally have m: "q \<in> fst ` set (content_points c win content) \<longleftrightarrow> content_px win content q \<noteq> None" .
  have "painted (content_points c win content) q = (if q \<in> fst ` set (content_points c win content) then Some (?g q) else None)"
    by (rule painted_fun) (rule f)
  then show ?thesis using m by (auto simp: content_px_def content_at_def Let_def split: if_splits)
qed

section \<open>What a frame shows\<close>

definition in_rect :: "i32 \<Rightarrow> i32 \<Rightarrow> u32 \<Rightarrow> u32 \<Rightarrow> point \<Rightarrow> bool" where
  "in_rect x y w h q \<longleftrightarrow> sint x \<le> fst q \<and> fst q < sint x + sint w \<and> sint y \<le> snd q \<and> snd q < sint y + sint h"

definition on_outline :: "i32 \<Rightarrow> i32 \<Rightarrow> u32 \<Rightarrow> u32 \<Rightarrow> point \<Rightarrow> bool" where
  "on_outline x y w h q \<longleftrightarrow> in_rect x y w 1 q \<or> in_rect x (y + h - 1) w 1 q \<or> in_rect x y 1 h q \<or> in_rect (x + w - 1) y 1 h q"

text \<open>What a window puts at a point: its content, else the logo, the title bar or the outline.\<close>

definition content_or_background :: "(u64 \<Rightarrow> u8) \<Rightarrow> Window \<Rightarrow> point \<Rightarrow> px option" where
  "content_or_background m win q =
     (if content_buf win = 0 \<or> content_len win = 0
      then (if in_rect (win_x win + BORDER_WIDTH) (win_y win + TITLE_BAR_HEIGHT) (win_width win) (win_height win) q
            then Some (color_px COLOR_DARK_BG) else None)
      else content_px win (peek (content_buf win) (unat (content_len win)) m) q)"

definition window_px :: "(u64 \<Rightarrow> u8) \<Rightarrow> Window \<Rightarrow> point \<Rightarrow> px option" where
  "window_px m win q =
     (if \<not> visible win then None
      else case content_or_background m win q of Some v \<Rightarrow> Some v
      | None \<Rightarrow>
          if in_rect (win_x win + 4) (win_y win + 6) 12 12 q
          then Some (if focused win then (0x00, 0xbf, 0xff, 0) else (0x80, 0x80, 0x80, 0))
          else if in_rect (win_x win + 1) (win_y win + 1) (full_width win - 2) TITLE_BAR_HEIGHT q
          then Some (color_px (if focused win then COLOR_TITLE_BAR_ACTIVE else COLOR_TITLE_BAR))
          else if on_outline (win_x win) (win_y win) (full_width win) (full_height win) q
          then Some (if focused win then color_px COLOR_BORDER else (0x35, 0x2a, 0x22, 0))
          else None)"

text \<open>The topmost window that draws at a point, from the windows in drawing order.\<close>

definition top_px :: "(u64 \<Rightarrow> u8) \<Rightarrow> Window list \<Rightarrow> point \<Rightarrow> px option" where
  "top_px m ws q = (case find (\<lambda>win. window_px m win q \<noteq> None) (rev ws) of None \<Rightarrow> None | Some win \<Rightarrow> window_px m win q)"

definition desktop_px :: "(u64 \<Rightarrow> u8) \<Rightarrow> Window list \<Rightarrow> point \<Rightarrow> px" where
  "desktop_px m ws q = (case top_px m ws q of None \<Rightarrow> color_px COLOR_DESKTOP | Some v \<Rightarrow> v)"

lemma sint_sat_add: "sint (sat_add a b) = max (- 2147483648) (min 2147483647 (sint a + sint b))"
  unfolding sat_add_def by (rule sint_small) auto

lemma in_fill_area:
  assumes "inside w h q" "w < 2 ^ 31" "h < 2 ^ 31"
  shows "q \<in> set (fill_area x y u v) \<longleftrightarrow> in_rect x y u v q"
  using assms by (cases q) (auto simp: fill_area_def in_rect_def sint_sat_add inside_def)

lemma in_outline_area:
  assumes "inside w h q" "w < 2 ^ 31" "h < 2 ^ 31"
  shows "q \<in> set (outline_area x y u v) \<longleftrightarrow> on_outline x y u v q"
  by (simp add: outline_area_def on_outline_def in_fill_area [OF assms])

abbreviation wm_draws :: "Compositor \<Rightarrow> (bytes \<Rightarrow> bytes) \<Rightarrow> (point \<Rightarrow> px option) \<Rightarrow> bool" where
  "wm_draws c \<equiv> draws (comp_ok c) (uint (fb_width (fb_info c))) (uint (fb_height (fb_info c)))"

lemma wm_drawsI:
  assumes "\<And>bs. comp_ok c bs \<Longrightarrow> screen c (f bs) = cv.paint ps (screen c bs)"
    "\<And>q. inside (uint (fb_width (fb_info c))) (uint (fb_height (fb_info c))) q \<Longrightarrow>
       uint (fb_width (fb_info c)) < 2 ^ 31 \<Longrightarrow> uint (fb_height (fb_info c)) < 2 ^ 31 \<Longrightarrow> painted ps q = g q"
  shows "wm_draws c f g"
proof (rule drawsI)
  fix bs q assume ok: "comp_ok c bs"
  note p = assms(1) [OF ok]
  show "comp_ok c (f bs)" by (rule screen_comp_ok [OF ok p])
  show "canvas_ok (uint (fb_width (fb_info c)), uint (fb_height (fb_info c)), bs)" using screen_ok [OF ok] by (simp add: screen_def)
  show "(uint (fb_width (fb_info c)), uint (fb_height (fb_info c)), f bs) =
      cv.paint ps (uint (fb_width (fb_info c)), uint (fb_height (fb_info c)), bs)" using p by (simp add: screen_def)
  assume "inside (uint (fb_width (fb_info c))) (uint (fb_height (fb_info c))) q"
  then show "painted ps q = g q" using ok assms(2) by (simp add: comp_ok_def)
qed

lemma draws_fill: "wm_draws c (wm_fill_rect c x y w h col) (\<lambda>q. if in_rect x y w h q then Some (color_px col) else None)"
  by (rule wm_drawsI [OF wm_fill_paint]) (simp_all add: in_fill_area)

lemma draws_outline: "wm_draws c (draw_rect_outline c x y w h col) (\<lambda>q. if on_outline x y w h q then Some (color_px col) else None)"
  by (rule wm_drawsI [OF outline_paint]) (simp_all add: in_outline_area)

lemma draws_content: "length content < 2 ^ 64 \<Longrightarrow> wm_draws c (blit_content c win content) (content_px win content)"
  by (rule wm_drawsI [OF blit_content_paint]) (simp_all add: painted_content)

lemma draws_window: "wm_draws c (composite_window c m win) (window_px m win)"
proof (cases "visible win")
  case False
  then show ?thesis using draws_keep by (simp add: composite_window_def [abs_def] window_px_def [abs_def])
next
  case True
  let ?frame = "\<lambda>bs. draw_rect_outline c (win_x win) (win_y win) (full_width win) (full_height win)
    (if focused win then COLOR_BORDER else \<lparr>cr = 0x22, cg = 0x2a, cb = 0x35\<rparr>) bs"
  let ?title = "\<lambda>bs. wm_fill_rect c (win_x win + 1) (win_y win + 1) (full_width win - 2) TITLE_BAR_HEIGHT
    (if focused win then COLOR_TITLE_BAR_ACTIVE else COLOR_TITLE_BAR) (?frame bs)"
  let ?bar = "\<lambda>bs. draw_title_text c win (?title bs)"
  have "wm_draws c ?bar (\<lambda>q. if in_rect (win_x win + 4) (win_y win + 6) 12 12 q
          then Some (if focused win then (0x00, 0xbf, 0xff, 0) else (0x80, 0x80, 0x80, 0))
          else if in_rect (win_x win + 1) (win_y win + 1) (full_width win - 2) TITLE_BAR_HEIGHT q
          then Some (color_px (if focused win then COLOR_TITLE_BAR_ACTIVE else COLOR_TITLE_BAR))
          else if on_outline (win_x win) (win_y win) (full_width win) (full_height win) q
          then Some (if focused win then color_px COLOR_BORDER else (0x35, 0x2a, 0x22, 0))
          else None)" (is "wm_draws c _ ?g")
    by (rule draws_eq [OF draws_comp [OF draws_comp [OF draws_outline draws_fill] draws_fill]])
      (auto simp: draw_title_text_def color_px_def)
  moreover have "wm_draws c (\<lambda>bs. if content_buf win = 0 \<or> content_len win = 0
           then wm_fill_rect c (win_x win + BORDER_WIDTH) (win_y win + TITLE_BAR_HEIGHT) (win_width win) (win_height win) COLOR_DARK_BG bs
           else blit_content c win (peek (content_buf win) (unat (content_len win)) m) bs) (content_or_background m win)"
  proof (cases "content_buf win = 0 \<or> content_len win = 0")
    case True
    then show ?thesis using draws_fill by (simp add: content_or_background_def [abs_def])
  next
    case False
    have "length (peek (content_buf win) (unat (content_len win)) m) < 2 ^ 64"
      using u64_bound [of "content_len win"] by (simp add: peek_def)
    from draws_content [OF this] False show ?thesis by (simp add: content_or_background_def [abs_def])
  qed
  ultimately have "wm_draws c (\<lambda>bs. if content_buf win = 0 \<or> content_len win = 0
           then wm_fill_rect c (win_x win + BORDER_WIDTH) (win_y win + TITLE_BAR_HEIGHT) (win_width win) (win_height win) COLOR_DARK_BG (?bar bs)
           else blit_content c win (peek (content_buf win) (unat (content_len win)) m) (?bar bs))
       (\<lambda>q. case content_or_background m win q of Some v \<Rightarrow> Some v | None \<Rightarrow> ?g q)"
    by (rule draws_comp)
  then show ?thesis using True
    by (simp add: composite_window_def [abs_def] window_px_def [abs_def] Let_def)
qed

lemma draws_windows: "wm_draws c (fold (composite_window c m) ws) (top_px m ws)"
  unfolding top_px_def [abs_def] by (rule draws_fold) (rule draws_window)

lemma draws_composite:
  "wm_draws c (composite c m l) (\<lambda>q. case top_px m (iter_z_order l) q of Some v \<Rightarrow> Some v
     | None \<Rightarrow> if in_rect 0 0 (fb_width (fb_info c)) (fb_height (fb_info c)) q then Some (color_px COLOR_DESKTOP) else None)"
  by (rule draws_eq [OF draws_comp [OF draws_fill draws_windows]]) (simp_all add: composite_def)

text \<open>The pointer: the marker at its position, else the bitmap.\<close>

definition cursor_px :: "Cursor \<Rightarrow> point \<Rightarrow> px option" where
  "cursor_px cur q =
     (let col = unat (word_of_int (fst q) - cur_x cur); row = unat (word_of_int (snd q) - cur_y cur) in
      if \<not> cur_visible cur then None
      else if col = 0 \<and> row = 0 then Some (0xff, 0, 0xff, 0)
      else if col < CURSOR_WIDTH \<and> row < CURSOR_HEIGHT \<and> CURSOR_BITMAP ! row ! col = 1 then Some (color_px (cursor_color row col))
      else None)"

definition bitmap_points :: "(nat \<times> nat) list" where
  "bitmap_points = filter (\<lambda>k. CURSOR_BITMAP ! snd k ! fst k = 1) (grid [0..<CURSOR_WIDTH] [0..<CURSOR_HEIGHT])"

definition cursor_points :: "Cursor \<Rightarrow> (point \<times> px) list" where
  "cursor_points cur =
     map (\<lambda>k. ((sint (cur_x cur + of_nat (fst k)), sint (cur_y cur + of_nat (snd k))), color_px (cursor_color (snd k) (fst k)))) bitmap_points @
     [((sint (cur_x cur), sint (cur_y cur)), (0xff, 0, 0xff, 0))]"

lemma fold_filter_put: "fold (\<lambda>k bs. if P k then f k bs else bs) ks bs = fold f (filter P ks) bs"
  by (induction ks arbitrary: bs) auto

lemma cursor_paint:
  assumes "comp_ok c bs" "cur_visible cur"
  shows "screen c (cursor_draw cur c bs) = cv.paint (cursor_points cur) (screen c bs)"
proof -
  let ?f = "\<lambda>k. put_pixel c (cur_x cur + of_nat (fst k)) (cur_y cur + of_nat (snd k)) (cursor_color (snd k) (fst k))"
  have "cursor_draw cur c bs = put_pixel c (cur_x cur) (cur_y cur) \<lparr>cr = 0xff, cg = 0, cb = 0xff\<rparr> (fold ?f bitmap_points bs)"
    using assms(2) unfolding cursor_draw_def fold_nested bitmap_points_def fold_filter_put [symmetric] by (simp add: case_prod_unfold)
  then show ?thesis unfolding cursor_points_def
    by (intro paint_step [OF assms(1) fold_put_pixel [OF assms(1)]]) (simp add: put_pixel_canvas cv.paint_def color_px_def)
qed

lemma sint_plus_iff:
  assumes "0 \<le> k" "k < 2 ^ 31" "n < 16"
  shows "k = sint (a + of_nat n :: i32) \<longleftrightarrow> unat (word_of_int k - a) = n"
proof -
  have k: "sint (word_of_int k :: i32) = k" using assms by (intro sint_small) simp_all
  have n: "unat (of_nat n :: i32) = n" using assms(3) by (simp add: unat_of_nat)
  have "k = sint (a + of_nat n :: i32) \<longleftrightarrow> (word_of_int k :: i32) = a + of_nat n"
    using k by (metis signed_word_eqI)
  also have "\<dots> \<longleftrightarrow> word_of_int k - a = (of_nat n :: i32)" by (simp add: diff_eq_eq add.commute)
  also have "\<dots> \<longleftrightarrow> unat (word_of_int k - a) = n" using n by (metis unsigned_word_eqI)
  finally show ?thesis .
qed

lemma painted_cursor:
  assumes "inside w h q" "w < 2 ^ 31" "h < 2 ^ 31" "cur_visible cur"
  shows "painted (cursor_points cur) q = cursor_px cur q"
proof -
  let ?col = "\<lambda>q. unat (word_of_int (fst q) - cur_x cur)" and ?row = "\<lambda>q. unat (word_of_int (snd q) - cur_y cur)"
  let ?pt = "\<lambda>k. (sint (cur_x cur + of_nat (fst k)), sint (cur_y cur + of_nat (snd k)))"
  let ?A = "map (\<lambda>k. (?pt k, color_px (cursor_color (snd k) (fst k)))) bitmap_points"
  have q: "0 \<le> fst q" "fst q < 2 ^ 31" "0 \<le> snd q" "snd q < 2 ^ 31" using assms by (auto simp: inside_def)
  have small: "fst k < 16 \<and> snd k < 16" if "k \<in> set bitmap_points" for k
    using that by (auto simp: bitmap_points_def CURSOR_WIDTH_def CURSOR_HEIGHT_def)
  have pt: "q = ?pt k \<longleftrightarrow> k = (?col q, ?row q)" if "fst k < 16" "snd k < 16" for k
    using sint_plus_iff [OF q(1,2) that(1), of "cur_x cur"] sint_plus_iff [OF q(3,4) that(2), of "cur_y cur"]
    unfolding prod_eq_iff fst_conv snd_conv by metis
  have "painted ?A q = (if q \<in> fst ` set ?A then Some (color_px (cursor_color (?row q) (?col q))) else None)"
  proof (rule painted_fun)
    fix p v assume "(p, v) \<in> set ?A"
    then obtain k where k: "k \<in> set bitmap_points" "p = ?pt k" "v = color_px (cursor_color (snd k) (fst k))" by auto
    then show "v = color_px (cursor_color (?row p) (?col p))" using small [OF k(1)] by (simp add: unat_of_nat)
  qed
  moreover have "q \<in> fst ` set ?A \<longleftrightarrow> (?col q, ?row q) \<in> set bitmap_points"
  proof -
    have "q \<in> fst ` set ?A \<longleftrightarrow> (\<exists>k \<in> set bitmap_points. q = ?pt k)" by (auto simp: image_iff)
    also have "\<dots> \<longleftrightarrow> (\<exists>k \<in> set bitmap_points. k = (?col q, ?row q))" using pt small by blast
    finally show ?thesis by blast
  qed
  moreover have "(?col q, ?row q) \<in> set bitmap_points \<longleftrightarrow>
      ?col q < CURSOR_WIDTH \<and> ?row q < CURSOR_HEIGHT \<and> CURSOR_BITMAP ! ?row q ! ?col q = 1"
    by (auto simp: bitmap_points_def)
  moreover have "q = (sint (cur_x cur), sint (cur_y cur)) \<longleftrightarrow> ?col q = 0 \<and> ?row q = 0" using pt [of "(0, 0)"] by simp
  moreover have "painted (cursor_points cur) q = (if q = (sint (cur_x cur), sint (cur_y cur)) then Some (0xff, 0, 0xff, 0) else painted ?A q)"
    unfolding cursor_points_def by (simp add: painted_def)
  ultimately show ?thesis using assms(4) unfolding cursor_px_def Let_def by (cases "?col q = 0 \<and> ?row q = 0") presburger+
qed

lemma draws_cursor: "wm_draws c (cursor_draw cur c) (cursor_px cur)"
proof (cases "cur_visible cur")
  case True
  show ?thesis by (rule wm_drawsI [OF cursor_paint [OF _ True]]) (simp_all add: painted_cursor True)
next
  case False
  then show ?thesis using draws_keep by (simp add: cursor_draw_def [abs_def] cursor_px_def [abs_def] Let_def)
qed

text \<open>C33. After a round of the event loop each pixel of the off-screen buffer shows the pointer
  where the pointer is drawn, and elsewhere the topmost window that draws there: its content, the
  logo of its title bar, the title bar or its outline, with the colours of a focused or an
  unfocused window; where no window draws, it shows the desktop. Nothing of the previous frame
  remains, so the pointer needs no erasing.\<close>

theorem wm_frame_shows:
  assumes "comp_ok (compositor s) (offscreen s)" "s' = fst (wm_frame m evs s)"
    and "inside (uint (fb_width (fb_info (compositor s)))) (uint (fb_height (fb_info (compositor s)))) q"
  shows "canvas_px (screen (compositor s) (offscreen s')) q =
    (case cursor_px (cursor s') q of Some v \<Rightarrow> v | None \<Rightarrow> desktop_px m (iter_z_order (wlist s')) q)"
proof -
  let ?c = "compositor s" and ?i = "process_events (fb_width (fb_info (compositor s))) (fb_height (fb_info (compositor s))) evs (wm_input.truncate s)"
  have s': "cursor s' = cursor ?i" "wlist s' = wlist ?i"
    "offscreen s' = cursor_draw (cursor ?i) ?c (composite ?c m (wlist ?i) (offscreen s))"
    using assms(2) by (simp_all add: wm_frame_def Let_def)
  have "sint (fb_width (fb_info ?c)) = uint (fb_width (fb_info ?c))" "sint (fb_height (fb_info ?c)) = uint (fb_height (fb_info ?c))"
    using assms(1) by (auto simp: comp_ok_def intro!: sint_pos)
  then have r: "in_rect 0 0 (fb_width (fb_info ?c)) (fb_height (fb_info ?c)) q"
    using assms(3) by (simp add: in_rect_def inside_def)
  have "canvas_px (screen ?c (composite ?c m l (offscreen s))) q = desktop_px m (iter_z_order l) q" for l
    unfolding screen_def using drawsD(1) [OF draws_composite assms(1,3)] r by (simp add: desktop_px_def split: option.split)
  moreover have "comp_ok ?c (composite ?c m l (offscreen s))" for l
    using draws_composite [of ?c m l] assms(1) by (simp add: draws_def)
  ultimately show ?thesis unfolding s' screen_def by (simp only: drawsD(1) [OF draws_cursor _ assms(3)])
qed

text \<open>Two overlapping windows on the screen of the skeleton, with the pointer beside the point.\<close>

definition demo_wm :: WmState where
  "demo_wm = \<lparr>drag = drag_new, cursor = cursor_new, wlist = demo_windows,
     compositor = fst (compositor_init True compositor_new), running = True, offscreen = replicate OFFSCREEN_LEN 0\<rparr>"

lemma demo_wm_geometry: "fb_width (fb_info (compositor demo_wm)) = 1280" "fb_height (fb_info (compositor demo_wm)) = 720"
  by (simp_all add: demo_wm_def compositor_init_def wm_get_framebuffer_info_def ENOSYS_def word_sless_alt)

theorem wm_frame_shows_witness:
  "canvas_px (screen (compositor demo_wm) (offscreen (fst (wm_frame (\<lambda>_. 0) [] demo_wm)))) (8, 7) = (0x3b, 0x29, 0x1e, 0)"
proof -
  let ?s' = "fst (wm_frame (\<lambda>_. 0) [] demo_wm)"
  have ok: "comp_ok (compositor demo_wm) (offscreen demo_wm)"
    by (simp add: comp_ok_def demo_wm_geometry) (simp add: demo_wm_def OFFSCREEN_LEN_def)
  have q: "inside (uint (fb_width (fb_info (compositor demo_wm)))) (uint (fb_height (fb_info (compositor demo_wm)))) (8, 7)"
    by (simp add: inside_def demo_wm_geometry)
  have s': "cursor ?s' = cursor_new" "wlist ?s' = demo_windows"
    by (simp_all add: wm_frame_def Let_def process_events_def demo_wm_def wm_input.defs)
  have "cursor_px cursor_new (8, 7) = None"
    by (simp add: cursor_px_def cursor_new_def CURSOR_BITMAP_def Let_def)
  moreover have "window_px (\<lambda>_. 0) (new_window 2 2 5 5 10 10 [] 0 0) (8, 7) = Some (0x3b, 0x29, 0x1e, 0)"
    by (simp add: window_px_def content_or_background_def new_window_def set_title_def Let_def in_rect_def full_width_def BORDER_WIDTH_def
        TITLE_BAR_HEIGHT_def color_px_def COLOR_TITLE_BAR_def)
  then have "desktop_px (\<lambda>_. 0) (iter_z_order demo_windows) (8, 7) = (0x3b, 0x29, 0x1e, 0)"
    by (simp add: demo_order desktop_px_def top_px_def)
  ultimately show ?thesis unfolding wm_frame_shows [OF ok refl q] s' by simp
qed

end
