(* ===== verification/Shell.thy ===== *)
theory Shell
  imports Input Canvas "HOL-Library.Monad_Syntax"
begin

text \<open>
  The desktop shell (\<^verbatim>\<open>flutter_shell/src\<close>): the software renderer with Bresenham lines
  (\<^verbatim>\<open>render.rs\<close>), the task bar, the launcher and the clock (\<^verbatim>\<open>widgets.rs\<close>), start and frames of the
  shell (\<^verbatim>\<open>lib.rs\<close>) and the stubs of its system calls (\<^verbatim>\<open>syscalls.rs\<close>). A loop that need not end
  gives \<open>None\<close>; panics are \<open>Inl\<close>. The properties: a line is drawn in finitely many steps and follows the
  ideal line, and each pixel of a frame shows the topmost part of the desktop.
\<close>

section \<open>The renderer\<close>

record ShellColor =
  sh_r :: u8
  sh_g :: u8
  sh_b :: u8

abbreviation rgb :: "u8 \<Rightarrow> u8 \<Rightarrow> u8 \<Rightarrow> ShellColor" where
  "rgb a b c \<equiv> \<lparr>sh_r = a, sh_g = b, sh_b = c\<rparr>"

definition SHELL_OFFSCREEN_LEN :: nat where "SHELL_OFFSCREEN_LEN = 1280 * 720 * 4"

record Renderer =
  r_width :: u32
  r_height :: u32

definition renderer_new :: "u32 \<Rightarrow> u32 \<Rightarrow> Renderer" where
  "renderer_new w h = \<lparr>r_width = w, r_height = h\<rparr>"

definition rend_put_pixel :: "Renderer \<Rightarrow> u32 \<Rightarrow> u32 \<Rightarrow> ShellColor \<Rightarrow> bytes \<Rightarrow> bytes" where
  "rend_put_pixel r x y col bs =
     (if r_width r \<le> x \<or> r_height r \<le> y then bs
      else let offset = ((ucast y :: u64) * ucast (r_width r) + ucast x) * 4 in
        if of_nat (length bs) < offset + 4 then bs
        else splice (unat offset) [sh_b col, sh_g col, sh_r col, 0] bs)"

text \<open>The range \<^verbatim>\<open>a..b\<close> of unsigned numbers.\<close>

definition u32_range :: "u32 \<Rightarrow> u32 \<Rightarrow> u32 list" where
  "u32_range a b = map of_nat [unat a..<unat b]"

definition rend_fill_rect :: "Renderer \<Rightarrow> u32 \<Rightarrow> u32 \<Rightarrow> u32 \<Rightarrow> u32 \<Rightarrow> ShellColor \<Rightarrow> bytes \<Rightarrow> bytes" where
  "rend_fill_rect r x y w h col bs =
     (let x_end = min (x + w) (r_width r); y_end = min (y + h) (r_height r) in
      fold (\<lambda>py bs. fold (\<lambda>px bs. rend_put_pixel r px py col bs) (u32_range x x_end) bs) (u32_range y y_end) bs)"

definition rend_draw_rect_outline :: "Renderer \<Rightarrow> u32 \<Rightarrow> u32 \<Rightarrow> u32 \<Rightarrow> u32 \<Rightarrow> ShellColor \<Rightarrow> bytes \<Rightarrow> bytes" where
  "rend_draw_rect_outline r x y w h col bs =
     rend_fill_rect r (x + w - 1) y 1 h col (rend_fill_rect r x y 1 h col
       (rend_fill_rect r x (y + h - 1) w 1 col (rend_fill_rect r x y w 1 col bs)))"

text \<open>Lines. The 64-bit numbers of the code stay below \<open>2 ^ 34\<close> in size (shown below), so they
  are unbounded here.\<close>

definition line_step :: "int \<Rightarrow> int \<Rightarrow> int \<Rightarrow> int \<Rightarrow> int \<times> int \<times> int \<Rightarrow> int \<times> int \<times> int" where
  "line_step adx ady sx sy = (\<lambda>(err, cx, cy).
     let e2 = 2 * err;
         (err, cx) = (if e2 > - ady then (err - ady, cx + sx) else (err, cx));
         (err, cy) = (if e2 < adx then (err + adx, cy + sy) else (err, cy))
     in (err, cx, cy))"

partial_function (option) line_loop ::
  "Renderer \<Rightarrow> int \<Rightarrow> int \<Rightarrow> int \<Rightarrow> int \<Rightarrow> int \<Rightarrow> int \<Rightarrow> ShellColor \<Rightarrow> int \<times> int \<times> int \<Rightarrow> bytes \<Rightarrow> bytes option" where
  "line_loop r x1 y1 adx ady sx sy col st bs =
     (let (err, cx, cy) = st;
          bs' = rend_put_pixel r (word_of_int cx) (word_of_int cy) col bs
      in if cx = x1 \<and> cy = y1 then Some bs'
         else line_loop r x1 y1 adx ady sx sy col (line_step adx ady sx sy st) bs')"

definition draw_line :: "Renderer \<Rightarrow> u32 \<Rightarrow> u32 \<Rightarrow> u32 \<Rightarrow> u32 \<Rightarrow> ShellColor \<Rightarrow> bytes \<Rightarrow> bytes option" where
  "draw_line r x0 y0 x1 y1 col bs =
     (let adx = \<bar>uint x1 - uint x0\<bar>; ady = \<bar>uint y1 - uint y0\<bar>;
          sx = (if x0 < x1 then 1 else - 1); sy = (if y0 < y1 then 1 else - 1)
      in line_loop r (uint x1) (uint y1) adx ady sx sy col (adx - ady, uint x0, uint y0) bs)"

definition rend_clear :: "Renderer \<Rightarrow> ShellColor \<Rightarrow> bytes \<Rightarrow> bytes" where
  "rend_clear r col bs = rend_fill_rect r 0 0 (r_width r) (r_height r) col bs"

definition SHELL_ENOSYS :: i64 where "SHELL_ENOSYS = - 38"
definition shell_fb_commit :: "bytes \<Rightarrow> u32 \<Rightarrow> u32 \<Rightarrow> u32 \<Rightarrow> u32 \<Rightarrow> i64" where
  "shell_fb_commit bs x y w h = SHELL_ENOSYS"

definition rend_commit :: "Renderer \<Rightarrow> bytes \<Rightarrow> i64 result" where
  "rend_commit r bs =
     (let buf_len = (ucast (r_width r) :: u64) * ucast (r_height r) * 4 in
      if length bs < unat buf_len then Inl ''slice index out of range''
      else Inr (shell_fb_commit (take (unat buf_len) bs) 0 0 (r_width r) (r_height r)))"

section \<open>Widgets\<close>

definition PRIMARY :: ShellColor where "PRIMARY = rgb 0x6f 0x45 0xe8"
definition SURFACE :: ShellColor where "SURFACE = rgb 0x1c 0x1b 0x1f"
definition SURFACE_VARIANT :: ShellColor where "SURFACE_VARIANT = rgb 0x2d 0x2d 0x30"
definition ON_SURFACE :: ShellColor where "ON_SURFACE = rgb 0xe6 0xe1 0xe9"
definition OUTLINE :: ShellColor where "OUTLINE = rgb 0x7a 0x76 0x80"
definition BACKGROUND :: ShellColor where "BACKGROUND = rgb 0x14 0x13 0x16"

definition sat_sub :: "u32 \<Rightarrow> u32 \<Rightarrow> u32" where
  "sat_sub a b = (if b \<le> a then a - b else 0)"

record TaskBar =
  tb_x :: u32
  tb_y :: u32
  tb_width :: u32
  tb_height :: u32
  clock_text :: bytes
  clock_len :: nat

definition taskbar_new :: "u32 \<Rightarrow> u32 \<Rightarrow> TaskBar" where
  "taskbar_new w h = \<lparr>tb_x = 0, tb_y = sat_sub h 48, tb_width = w, tb_height = 48, clock_text = replicate 8 0, clock_len = 0\<rparr>"

definition set_clock :: "bytes \<Rightarrow> TaskBar \<Rightarrow> TaskBar" where
  "set_clock t tb = (let len = min (length t) 7 in tb\<lparr>clock_text := splice 0 (take len t) (clock_text tb), clock_len := len\<rparr>)"

definition taskbar_draw :: "TaskBar \<Rightarrow> Renderer \<Rightarrow> bytes \<Rightarrow> bytes option" where
  "taskbar_draw tb r bs = do {
     let bs = rend_fill_rect r (tb_x tb) (tb_y tb) (tb_width tb) (tb_height tb) SURFACE_VARIANT bs;
     bs \<leftarrow> draw_line r (tb_x tb) (tb_y tb) (tb_x tb + tb_width tb) (tb_y tb) OUTLINE bs;
     let bs = rend_fill_rect r (tb_x tb + tb_width tb - 100) (tb_y tb + 8) 80 32 SURFACE bs;
     Some (rend_fill_rect r (tb_x tb + 8) (tb_y tb + 8) 32 32 PRIMARY bs)
   }"

record AppEntry =
  app_name :: bytes
  name_len :: nat
  icon_color :: ShellColor

record AppLauncher =
  al_visible :: bool
  al_x :: u32
  al_y :: u32
  al_width :: u32
  al_height :: u32
  apps :: "AppEntry list"
  app_count :: nat

definition launcher_new :: "u32 \<Rightarrow> u32 \<Rightarrow> AppLauncher" where
  "launcher_new w h = \<lparr>al_visible = False, al_x = w div 4, al_y = h div 4, al_width = w div 2, al_height = h div 2,
     apps = replicate 8 \<lparr>app_name = replicate 16 0, name_len = 0, icon_color = rgb 0 0 0\<rparr>, app_count = 0\<rparr>"

definition add_app :: "bytes \<Rightarrow> ShellColor \<Rightarrow> AppLauncher \<Rightarrow> AppLauncher" where
  "add_app nm col al =
     (if 8 \<le> app_count al then al
      else let len = min (length nm) 15; e = apps al ! app_count al in
        al\<lparr>apps := (apps al)[app_count al := e\<lparr>app_name := splice 0 (take len nm) (app_name e), name_len := len, icon_color := col\<rparr>],
           app_count := app_count al + 1\<rparr>)"

definition icon_x :: "AppLauncher \<Rightarrow> nat \<Rightarrow> u32" where
  "icon_x al i = (let cols = max (al_width al div (48 + 16)) 1 in al_x al + 16 + (of_nat i mod cols) * (48 + 16))"

definition icon_y :: "AppLauncher \<Rightarrow> nat \<Rightarrow> u32" where
  "icon_y al i = (let cols = max (al_width al div (48 + 16)) 1 in al_y al + 16 + (of_nat i div cols) * (48 + 16))"

definition launcher_draw :: "AppLauncher \<Rightarrow> Renderer \<Rightarrow> bytes \<Rightarrow> bytes" where
  "launcher_draw al r bs =
     (if \<not> al_visible al then bs
      else
        let bs = rend_fill_rect r (al_x al) (al_y al) (al_width al) (al_height al) SURFACE bs;
            bs = rend_draw_rect_outline r (al_x al) (al_y al) (al_width al) (al_height al) OUTLINE bs
        in fold (\<lambda>i bs. rend_fill_rect r (icon_x al i) (icon_y al i) 48 48 (icon_color (apps al ! i)) bs) [0..<app_count al] bs)"

record ClockDisplay =
  cd_x :: u32
  cd_y :: u32
  hour :: u32
  minute :: u32
  second :: u32

definition clock_new :: "u32 \<Rightarrow> ClockDisplay" where
  "clock_new w = \<lparr>cd_x = sat_sub w 80, cd_y = 8, hour = 0, minute = 0, second = 0\<rparr>"

definition set_time :: "u32 \<Rightarrow> u32 \<Rightarrow> u32 \<Rightarrow> ClockDisplay \<Rightarrow> ClockDisplay" where
  "set_time h m s cd = cd\<lparr>hour := h, minute := m, second := s\<rparr>"

definition clock_draw :: "ClockDisplay \<Rightarrow> Renderer \<Rightarrow> bytes \<Rightarrow> bytes" where
  "clock_draw cd r bs =
     (let bs = rend_fill_rect r (cd_x cd) (cd_y cd) 72 24 SURFACE bs;
          bs = rend_draw_rect_outline r (cd_x cd) (cd_y cd) 72 24 OUTLINE bs;
          cx = cd_x cd + 4;
          bs = rend_fill_rect r cx (cd_y cd + 4) (hour cd * 28 div 24) 16 ON_SURFACE bs;
          cx = cx + (28 + 2);
          bs = rend_fill_rect r cx (cd_y cd + 4) (minute cd * 28 div 60) 16 ON_SURFACE bs;
          cx = cx + (28 + 2)
      in rend_fill_rect r cx (cd_y cd + 4) (second cd * 4 div 60) 16 PRIMARY bs)"

section \<open>The shell\<close>

record ShellState =
  renderer :: "Renderer option"
  taskbar :: "TaskBar option"
  launcher :: "AppLauncher option"
  clock :: "ClockDisplay option"
  tick_count :: u64
  shell_offscreen :: bytes

definition shell_start :: ShellState where
  "shell_start = \<lparr>renderer = None, taskbar = None, launcher = None, clock = None, tick_count = 0,
     shell_offscreen = replicate SHELL_OFFSCREEN_LEN 0\<rparr>"

text \<open>The system call gives \<^verbatim>\<open>ENOSYS\<close> and leaves the structure at zero; with the feature \<^verbatim>\<open>skeleton\<close>
  the geometry is fixed.\<close>

definition shell_init :: "bool \<Rightarrow> ShellState \<Rightarrow> ShellState \<times> (i32 + unit)" where
  "shell_init skeleton s =
     (let (w, h, ret) = (0 :: u32, 0 :: u32, SHELL_ENOSYS) in
      if ret <s 0 \<and> \<not> skeleton then (s, Inl (ucast ret))
      else let (w, h) = (if ret <s 0 then (1280, 720) else (w, h));
               al = launcher_new w h;
               al = add_app (as_bytes ''Terminal'') PRIMARY al;
               al = add_app (as_bytes ''Files'') (rgb 0x40 0xc4 0xff) al;
               al = add_app (as_bytes ''Settings'') (rgb 0x66 0x66 0x66) al
           in (s\<lparr>renderer := Some (renderer_new w h), taskbar := Some (taskbar_new w h), launcher := Some al,
                 clock := Some (clock_new w)\<rparr>, Inr ()))"

definition shell_event :: "InputEvent \<Rightarrow> ShellState \<Rightarrow> ShellState" where
  "shell_event ev s =
     (if event_type ev = EVENT_KEYBOARD \<and> key_pressed ev \<noteq> 0 \<and> key_char ev = 108
      then s\<lparr>launcher := map_option (\<lambda>al. al\<lparr>al_visible := \<not> al_visible al\<rparr>) (launcher s)\<rparr> else s)"

definition clock_time :: "u64 \<Rightarrow> ClockDisplay \<Rightarrow> ClockDisplay" where
  "clock_time t cd = set_time (ucast ((t div 216000 + 10) mod 24)) (ucast (t div 3600 mod 60)) (ucast (t div 60 mod 60)) cd"

definition render_desktop :: "Renderer \<Rightarrow> ShellState \<Rightarrow> ShellState result option" where
  "render_desktop r s = do {
     let bs = rend_clear r BACKGROUND (shell_offscreen s);
     bs \<leftarrow> (case taskbar s of None \<Rightarrow> Some bs | Some tb \<Rightarrow> taskbar_draw tb r bs);
     let cd = map_option (clock_time (tick_count s)) (clock s);
     let bs = (case cd of None \<Rightarrow> bs | Some cd \<Rightarrow> clock_draw cd r bs);
     let bs = (case launcher s of None \<Rightarrow> bs | Some al \<Rightarrow> launcher_draw al r bs);
     Some (case rend_commit r bs of Inl e \<Rightarrow> Inl e | Inr _ \<Rightarrow> Inr (s\<lparr>clock := cd, shell_offscreen := bs\<rparr>))
   }"

text \<open>One round of the event loop: the pending events, the desktop, the tick counter.\<close>

definition shell_frame :: "InputEvent list \<Rightarrow> ShellState \<Rightarrow> ShellState result option" where
  "shell_frame evs s = do {
     let s = fold shell_event evs s;
     t \<leftarrow> (case renderer s of None \<Rightarrow> Some (Inr s) | Some r \<Rightarrow> render_desktop r s);
     Some (case t of Inl e \<Rightarrow> Inl e | Inr s \<Rightarrow> Inr (s\<lparr>tick_count := tick_count s + 1\<rparr>))
   }"

section \<open>Drawing as painting\<close>

definition rend_ok :: "Renderer \<Rightarrow> bytes \<Rightarrow> bool" where
  "rend_ok r bs \<longleftrightarrow> unat (r_width r) * unat (r_height r) * 4 \<le> length bs \<and> length bs < 2 ^ 63"

definition shell_px :: "ShellColor \<Rightarrow> px" where
  "shell_px col = (sh_b col, sh_g col, sh_r col, 0)"

abbreviation rend_canvas :: "Renderer \<Rightarrow> bytes \<Rightarrow> canvas" where
  "rend_canvas r bs \<equiv> (uint (r_width r), uint (r_height r), bs)"

lemma rend_canvas_ok: "rend_ok r bs \<Longrightarrow> canvas_ok (rend_canvas r bs)"
  by (simp add: rend_ok_def)

lemma paint_rend_ok:
  assumes "rend_ok r bs" "rend_canvas r bs' = cv.paint ps (rend_canvas r bs)"
  shows "rend_ok r bs'"
proof -
  have "canvas_rest (rend_canvas r bs') = canvas_rest (rend_canvas r bs)"
    using assms(2) cv.paint_keeps [OF rend_canvas_ok [OF assms(1)], of ps] by simp
  then show ?thesis using assms(1) by (simp add: rend_ok_def)
qed

lemma rend_offset:
  assumes "inside (uint (w :: u32)) (uint (h :: u32)) (uint (x :: u32), uint (y :: u32))" "unat w * unat h * 4 < 2 ^ 63"
  shows "unat ((ucast y * ucast w + ucast x) * 4 :: u64) = px_offset (uint w) (uint x, uint y)"
    "unat ((ucast y * ucast w + ucast x) * 4 + 4 :: u64) = px_offset (uint w) (uint x, uint y) + 4"
proof -
  let ?o = "px_offset (uint w) (uint x, uint y)"
  have b: "?o + 4 \<le> unat w * unat h * 4" using px_offset_bound [OF assms(1)] by simp
  have "?o = (unat y * unat w + unat x) * 4"
    using px_offset_nat [OF assms(1)] by simp
  then have e: "(ucast y * ucast w + ucast x) * 4 = (of_nat ?o :: u64)" by simp
  have lt: "?o + 4 < 2 ^ 64" by (rule le_less_trans [OF b less_trans [OF assms(2)]]) simp
  show "unat ((ucast y * ucast w + ucast x) * 4 :: u64) = ?o" unfolding e by (rule unat_offset) (use lt in linarith)
  have "(ucast y * ucast w + ucast x) * 4 + 4 = (of_nat (?o + 4) :: u64)" unfolding e by simp
  then show "unat ((ucast y * ucast w + ucast x) * 4 + 4 :: u64) = ?o + 4"
    by (simp only:) (rule unat_offset [OF lt])
qed

lemma rend_put_canvas:
  assumes "rend_ok r bs"
  shows "rend_canvas r (rend_put_pixel r x y col bs) = canvas_put (uint x, uint y) (shell_px col) (rend_canvas r bs)"
proof (cases "inside (uint (r_width r)) (uint (r_height r)) (uint x, uint y)")
  case True
  have le: "unat (r_width r) * unat (r_height r) * 4 \<le> length bs" "length bs < 2 ^ 63" using assms by (simp_all add: rend_ok_def)
  note o = rend_offset [OF True order.strict_trans1 [OF le]]
  have "unat (of_nat (length bs) :: u64) = length bs" using le(2) by (intro unat_offset) simp
  then have "\<not> of_nat (length bs) < (ucast y * ucast (r_width r) + ucast x) * 4 + (4 :: u64)"
    using o(2) px_offset_bound [OF True] le(1) by (simp add: word_less_nat_alt)
  moreover have "\<not> (r_width r \<le> x \<or> r_height r \<le> y)" using True by (simp add: inside_def word_le_def)
  ultimately have "rend_put_pixel r x y col bs = splice (px_offset (uint (r_width r)) (uint x, uint y)) [sh_b col, sh_g col, sh_r col, 0] bs"
    unfolding rend_put_pixel_def Let_def o(1) by (simp only: if_False)
  then show ?thesis using True by (simp add: shell_px_def)
next
  case False
  then have "r_width r \<le> x \<or> r_height r \<le> y" by (auto simp: inside_def word_le_def)
  then have "rend_put_pixel r x y col bs = bs" by (auto simp: rend_put_pixel_def)
  then show ?thesis using False by simp
qed

lemma fold_rend_put:
  assumes "rend_ok r bs"
  shows "rend_canvas r (fold (\<lambda>k bs. rend_put_pixel r (x k) (y k) col bs) ks bs) =
    cv.paint (area (map (\<lambda>k. (uint (x k), uint (y k))) ks) (shell_px col)) (rend_canvas r bs)"
  using assms
proof (induction ks arbitrary: bs)
  case Nil
  then show ?case by (simp add: cv.paint_def area_def)
next
  case (Cons k ks)
  have 1: "rend_canvas r (rend_put_pixel r (x k) (y k) col bs) = cv.paint [((uint (x k), uint (y k)), shell_px col)] (rend_canvas r bs)"
    using rend_put_canvas [OF Cons.prems] by (simp only: cv.paint_def fold_simps case_prod_conv comp_id id_apply)
  from Cons.IH [OF paint_rend_ok [OF Cons.prems 1]] show ?case unfolding 1 by (simp add: area_def cv.paint_append [symmetric])
qed

section \<open>Lines\<close>

text \<open>The state of the loop after \<open>i\<close> steps along x and \<open>j\<close> steps along y, and the distance of
  this point to the ideal line: at most half a pixel along the shorter axis.\<close>

definition line_at :: "int \<Rightarrow> int \<Rightarrow> int \<Rightarrow> int \<Rightarrow> int \<Rightarrow> int \<Rightarrow> int \<times> int \<Rightarrow> int \<times> int \<times> int" where
  "line_at adx ady sx sy x0 y0 k = ((snd k + 1) * adx - (fst k + 1) * ady, x0 + sx * fst k, y0 + sy * snd k)"

definition on_line :: "int \<Rightarrow> int \<Rightarrow> int \<times> int \<Rightarrow> bool" where
  "on_line adx ady k \<longleftrightarrow> 0 \<le> fst k \<and> fst k \<le> adx \<and> 0 \<le> snd k \<and> snd k \<le> ady \<and>
     2 * \<bar>snd k * adx - fst k * ady\<bar> \<le> max adx ady"

definition next_to :: "int \<times> int \<Rightarrow> int \<times> int \<Rightarrow> bool" where
  "next_to k k' \<longleftrightarrow> k' \<noteq> k \<and> fst k' - fst k \<in> {0, 1} \<and> snd k' - snd k \<in> {0, 1}"

lemma line_step_at:
  assumes "on_line adx ady k" "k \<noteq> (adx, ady)"
  obtains k' where "line_step adx ady sx sy (line_at adx ady sx sy x0 y0 k) = line_at adx ady sx sy x0 y0 k'"
    "on_line adx ady k'" "next_to k k'"
proof -
  obtain i j where k: "k = (i, j)" by fastforce
  define D where "D = j * adx - i * ady"
  have b: "0 \<le> i" "i \<le> adx" "0 \<le> j" "j \<le> ady" "2 * \<bar>D\<bar> \<le> max adx ady" and ne: "i \<noteq> adx \<or> j \<noteq> ady"
    using assms by (auto simp: on_line_def k D_def)
  have x: "2 * D + 2 * adx \<le> 0" if "i = adx" "j < ady"
  proof -
    have "D = adx * (j - ady)" using that by (simp add: D_def algebra_simps)
    moreover have "adx * (j - ady) \<le> adx * (- 1)" using that b by (intro mult_left_mono) simp_all
    ultimately show ?thesis by simp
  qed
  have y: "2 * ady \<le> 2 * D" if "j = ady" "i < adx"
  proof -
    have "D = ady * (adx - i)" using that by (simp add: D_def algebra_simps)
    moreover have "ady * 1 \<le> ady * (adx - i)" using that b by (intro mult_left_mono) simp_all
    ultimately show ?thesis by simp
  qed
  let ?X = "2 * D + 2 * adx > ady" and ?Y = "2 * D + adx < 2 * ady"
  let ?k = "(if ?X then i + 1 else i, if ?Y then j + 1 else j)"
  have e: "2 * ((j + 1) * adx - (i + 1) * ady) = 2 * D + 2 * adx - 2 * ady" by (simp add: D_def algebra_simps)
  have "line_step adx ady sx sy (line_at adx ady sx sy x0 y0 k) = line_at adx ady sx sy x0 y0 ?k"
    unfolding line_step_def line_at_def k fst_conv snd_conv case_prod_conv Let_def e by (auto simp: algebra_simps)
  moreover have "?X \<or> ?Y" using b ne by linarith
  moreover have "on_line adx ady ?k"
  proof -
    have "(if ?Y then j + 1 else j) * adx - (if ?X then i + 1 else i) * ady = D + (if ?Y then adx else 0) - (if ?X then ady else 0)"
      by (simp add: D_def algebra_simps)
    moreover have "(if ?X then i + 1 else i) \<le> adx" using x b(1-4) ne by (cases "i = adx") auto
    moreover have "(if ?Y then j + 1 else j) \<le> ady" using y b(1-4) ne by (cases "j = ady") auto
    moreover have "2 * \<bar>D + (if ?Y then adx else 0) - (if ?X then ady else 0)\<bar> \<le> max adx ady"
      using b unfolding max_def abs_if by (auto split: if_splits)
    ultimately show ?thesis using b by (simp add: on_line_def)
  qed
  ultimately show thesis using that [of ?k] by (auto simp: next_to_def k)
qed

text \<open>The numbers of the loop fit into 64 bits with room to spare.\<close>

lemma line_fits:
  assumes "on_line adx ady k" "adx < 2 ^ 32" "ady < 2 ^ 32"
  shows "\<bar>2 * fst (line_at adx ady sx sy x0 y0 k)\<bar> < 2 ^ 34"
proof -
  have "2 * fst (line_at adx ady sx sy x0 y0 k) = 2 * (snd k * adx - fst k * ady) + 2 * adx - 2 * ady"
    by (simp add: line_at_def algebra_simps)
  then show ?thesis using assms by (simp add: on_line_def max_def abs_if split: if_splits)
qed

text \<open>The loop ends, after at most \<open>adx + ady\<close> steps.\<close>

lemma line_loop_ends:
  assumes "on_line adx ady k" "sx \<in> {1, - 1}" "sy \<in> {1, - 1}"
  shows "\<exists>ks. ks \<noteq> [] \<and> hd ks = k \<and> last ks = (adx, ady) \<and> successively next_to ks \<and> (\<forall>k' \<in> set ks. on_line adx ady k') \<and>
    int (length ks) \<le> (adx - fst k) + (ady - snd k) + 1 \<and>
    line_loop r (x0 + sx * adx) (y0 + sy * ady) adx ady sx sy col (line_at adx ady sx sy x0 y0 k) bs =
      Some (fold (\<lambda>k bs. rend_put_pixel r (word_of_int (x0 + sx * fst k)) (word_of_int (y0 + sy * snd k)) col bs) ks bs)"
  using assms(1)
proof (induction "nat ((adx - fst k) + (ady - snd k))" arbitrary: k bs rule: less_induct)
  case less
  let ?put = "\<lambda>k bs. rend_put_pixel r (word_of_int (x0 + sx * fst k)) (word_of_int (y0 + sy * snd k)) col bs"
  have s: "sx \<noteq> 0" "sy \<noteq> 0" using assms(2,3) by auto
  show ?case
  proof (cases "k = (adx, ady)")
    case True
    then show ?thesis using less.prems
      by (intro exI [of _ "[k]"]) (simp add: line_loop.simps line_at_def)
  next
    case False
    obtain k' where k': "line_step adx ady sx sy (line_at adx ady sx sy x0 y0 k) = line_at adx ady sx sy x0 y0 k'"
      "on_line adx ady k'" "next_to k k'" using line_step_at [OF less.prems False] by metis
    have m: "nat ((adx - fst k') + (ady - snd k')) < nat ((adx - fst k) + (ady - snd k))"
      "(adx - fst k') + (ady - snd k') + 1 \<le> (adx - fst k) + (ady - snd k)"
      using k'(2,3) by (auto simp: next_to_def on_line_def prod_eq_iff)
    from less.hyps [OF m(1) k'(2), of "?put k bs"] obtain ks where
      ks: "ks \<noteq> []" "hd ks = k'" "last ks = (adx, ady)" "successively next_to ks" "\<forall>k' \<in> set ks. on_line adx ady k'"
      "int (length ks) \<le> (adx - fst k') + (ady - snd k') + 1"
      "line_loop r (x0 + sx * adx) (y0 + sy * ady) adx ady sx sy col (line_at adx ady sx sy x0 y0 k') (?put k bs) = Some (fold ?put ks (?put k bs))"
      by blast
    have "\<not> (x0 + sx * fst k = x0 + sx * adx \<and> y0 + sy * snd k = y0 + sy * ady)" using False s by (auto simp: prod_eq_iff)
    then have "line_loop r (x0 + sx * adx) (y0 + sy * ady) adx ady sx sy col (line_at adx ady sx sy x0 y0 k) bs =
        line_loop r (x0 + sx * adx) (y0 + sy * ady) adx ady sx sy col (line_at adx ady sx sy x0 y0 k') (?put k bs)"
      unfolding k'(1) [symmetric] by (subst line_loop.simps) (auto simp: line_at_def Let_def)
    with ks less.prems m(2) k'(3) show ?thesis
      by (intro exI [of _ "k # ks"]) (auto simp: successively_Cons)
  qed
qed

text \<open>The steps from one end point to the other, and the points drawn.\<close>

definition line_point :: "u32 \<Rightarrow> u32 \<Rightarrow> u32 \<Rightarrow> u32 \<Rightarrow> int \<times> int \<Rightarrow> point" where
  "line_point x0 y0 x1 y1 k = (uint x0 + (if x0 < x1 then 1 else - 1) * fst k, uint y0 + (if y0 < y1 then 1 else - 1) * snd k)"

definition is_line :: "u32 \<Rightarrow> u32 \<Rightarrow> u32 \<Rightarrow> u32 \<Rightarrow> (int \<times> int) list \<Rightarrow> bool" where
  "is_line x0 y0 x1 y1 ks \<longleftrightarrow> ks \<noteq> [] \<and> hd ks = (0, 0) \<and> last ks = (\<bar>uint x1 - uint x0\<bar>, \<bar>uint y1 - uint y0\<bar>) \<and>
     successively next_to ks \<and> (\<forall>k \<in> set ks. on_line \<bar>uint x1 - uint x0\<bar> \<bar>uint y1 - uint y0\<bar> k)"

lemma uint_small_u32: "0 \<le> n \<and> n < 2 ^ 32 \<Longrightarrow> uint (word_of_int n :: u32) = n"
  by (simp add: unsigned_of_int take_bit_int_eq_self)

lemma line_between:
  "0 \<le> i \<Longrightarrow> i \<le> \<bar>b - a\<bar> \<Longrightarrow> 0 \<le> a \<Longrightarrow> a < n \<Longrightarrow> 0 \<le> b \<Longrightarrow> b < n \<Longrightarrow>
     0 \<le> a + (if a < b then 1 else - 1) * i \<and> a + (if a < b then 1 else - 1) * i < (n :: int)"
  by (auto simp: abs_if split: if_splits)

lemma draw_line_paint:
  assumes "rend_ok r bs"
  shows "\<exists>ks bs'. draw_line r x0 y0 x1 y1 col bs = Some bs' \<and> is_line x0 y0 x1 y1 ks \<and>
    rend_canvas r bs' = cv.paint (area (map (line_point x0 y0 x1 y1) ks) (shell_px col)) (rend_canvas r bs)"
proof -
  let ?dx = "\<bar>uint x1 - uint x0\<bar>" and ?dy = "\<bar>uint y1 - uint y0\<bar>"
  let ?sx = "if x0 < x1 then 1 else - 1 :: int" and ?sy = "if y0 < y1 then 1 else - 1 :: int"
  let ?x = "\<lambda>k. word_of_int (uint x0 + ?sx * fst k) :: u32" and ?y = "\<lambda>k. word_of_int (uint y0 + ?sy * snd k) :: u32"
  have e: "uint x0 + ?sx * ?dx = uint x1" "uint y0 + ?sy * ?dy = uint y1" by (auto simp: word_less_def)
  have "on_line ?dx ?dy (0, 0)" by (simp add: on_line_def)
  moreover have "?sx \<in> {1, - 1}" "?sy \<in> {1, - 1}" by simp_all
  ultimately obtain ks where
    ks: "is_line x0 y0 x1 y1 ks"
      "line_loop r (uint x1) (uint y1) ?dx ?dy ?sx ?sy col (line_at ?dx ?dy ?sx ?sy (uint x0) (uint y0) (0, 0)) bs =
        Some (fold (\<lambda>k bs. rend_put_pixel r (?x k) (?y k) col bs) ks bs)"
    using line_loop_ends [of ?dx ?dy "(0, 0)" ?sx ?sy r "uint x0" "uint y0" col bs] unfolding e is_line_def by blast
  have "(uint (?x k), uint (?y k)) = line_point x0 y0 x1 y1 k" if "k \<in> set ks" for k
  proof -
    have k: "on_line ?dx ?dy k" using ks(1) that by (simp add: is_line_def)
    have "0 \<le> uint x0 + ?sx * fst k \<and> uint x0 + ?sx * fst k < 2 ^ 32" "0 \<le> uint y0 + ?sy * snd k \<and> uint y0 + ?sy * snd k < 2 ^ 32"
      using line_between [of "fst k" "uint x1" "uint x0"] line_between [of "snd k" "uint y1" "uint y0"] k
        uint_lt2p [of x0] uint_lt2p [of x1] uint_lt2p [of y0] uint_lt2p [of y1] by (simp_all add: on_line_def word_less_def)
    then show ?thesis unfolding line_point_def by (simp only: uint_small_u32)
  qed
  then have m: "map (\<lambda>k. (uint (?x k), uint (?y k))) ks = map (line_point x0 y0 x1 y1) ks" by (rule map_cong [OF refl])
  have "line_at ?dx ?dy ?sx ?sy (uint x0) (uint y0) (0, 0) = (?dx - ?dy, uint x0, uint y0)" by (simp add: line_at_def)
  with ks(2) have "draw_line r x0 y0 x1 y1 col bs = Some (fold (\<lambda>k bs. rend_put_pixel r (?x k) (?y k) col bs) ks bs)"
    by (simp only: draw_line_def Let_def)
  with ks(1) fold_rend_put [OF assms, of ?x ?y col ks] show ?thesis unfolding m by blast
qed

text \<open>
  C36. Lines. \<open>draw_line\<close> always returns. The points it draws form a connected path from one end
  point to the other that moves at most one pixel along each axis and never away from the end
  point; every point is at most half a pixel from the ideal line, measured along the shorter axis.
  The pixels of the path that are on the screen get the colour, all other pixels stay.\<close>

theorem draw_line_correct:
  assumes "rend_ok r bs"
  shows "\<exists>ks bs'. draw_line r x0 y0 x1 y1 col bs = Some bs' \<and> is_line x0 y0 x1 y1 ks \<and>
    (\<forall>q. inside (uint (r_width r)) (uint (r_height r)) q \<longrightarrow>
       canvas_px (rend_canvas r bs') q = (if q \<in> set (map (line_point x0 y0 x1 y1) ks) then shell_px col else canvas_px (rend_canvas r bs) q))"
proof -
  obtain ks bs' where k: "draw_line r x0 y0 x1 y1 col bs = Some bs'" "is_line x0 y0 x1 y1 ks"
    "rend_canvas r bs' = cv.paint (area (map (line_point x0 y0 x1 y1) ks) (shell_px col)) (rend_canvas r bs)"
    using draw_line_paint [OF assms] by blast
  have "canvas_px (rend_canvas r bs') q = (if q \<in> set (map (line_point x0 y0 x1 y1) ks) then shell_px col else canvas_px (rend_canvas r bs) q)"
    if "inside (uint (r_width r)) (uint (r_height r)) q" for q
  proof -
    have "canvas_shown (rend_canvas r bs) q" using that by simp
    from paint_px [OF rend_canvas_ok [OF assms] this] show ?thesis unfolding k(3) painted_area by (simp del: set_map canvas_px.simps)
  qed
  with k show ?thesis by blast
qed

theorem draw_line_correct_witness:
  "\<exists>bs'. draw_line (renderer_new 8 8) 1 1 5 3 PRIMARY (replicate 256 0) = Some bs' \<and>
     canvas_px (rend_canvas (renderer_new 8 8) bs') (5, 3) = shell_px PRIMARY"
proof -
  let ?r = "renderer_new 8 8"
  have "rend_ok ?r (replicate 256 0)" by (simp add: rend_ok_def renderer_new_def)
  from draw_line_correct [OF this, of 1 1 5 3 PRIMARY] obtain ks bs' where
    k: "draw_line ?r 1 1 5 3 PRIMARY (replicate 256 0) = Some bs'" "is_line 1 1 5 3 ks"
    "\<forall>q. inside (uint (r_width ?r)) (uint (r_height ?r)) q \<longrightarrow> canvas_px (rend_canvas ?r bs') q =
       (if q \<in> set (map (line_point 1 1 5 3) ks) then shell_px PRIMARY else canvas_px (rend_canvas ?r (replicate 256 0)) q)" by blast
  have "line_point 1 1 5 3 (last ks) = (5, 3)" "last ks \<in> set ks"
    using k(2) last_in_set [of ks] by (auto simp: is_line_def line_point_def)
  then have "(5, 3) \<in> set (map (line_point 1 1 5 3) ks)" by force
  moreover have "inside (uint (r_width ?r)) (uint (r_height ?r)) (5, 3)" by (simp add: inside_def renderer_new_def)
  ultimately have "canvas_px (rend_canvas ?r bs') (5, 3) = shell_px PRIMARY" using k(3) by presburger
  then show ?thesis using k(1) by blast
qed

section \<open>What a frame shows\<close>

abbreviation rend_draws :: "Renderer \<Rightarrow> (bytes \<Rightarrow> bytes) \<Rightarrow> (point \<Rightarrow> px option) \<Rightarrow> bool" where
  "rend_draws r \<equiv> draws (rend_ok r) (uint (r_width r)) (uint (r_height r))"

definition in_box :: "u32 \<Rightarrow> u32 \<Rightarrow> u32 \<Rightarrow> u32 \<Rightarrow> point \<Rightarrow> bool" where
  "in_box x y w h q \<longleftrightarrow> uint x \<le> fst q \<and> fst q < uint (x + w) \<and> uint y \<le> snd q \<and> snd q < uint (y + h)"

definition box_px :: "u32 \<Rightarrow> u32 \<Rightarrow> u32 \<Rightarrow> u32 \<Rightarrow> ShellColor \<Rightarrow> point \<Rightarrow> px option" where
  "box_px x y w h col q = (if in_box x y w h q then Some (shell_px col) else None)"

definition on_border :: "u32 \<Rightarrow> u32 \<Rightarrow> u32 \<Rightarrow> u32 \<Rightarrow> point \<Rightarrow> bool" where
  "on_border x y w h q \<longleftrightarrow> in_box x y w 1 q \<or> in_box x (y + h - 1) w 1 q \<or> in_box x y 1 h q \<or> in_box (x + w - 1) y 1 h q"

lemma uint_u32_range: "map uint (u32_range a b) = [uint a..uint b - 1]"
proof (rule nth_equalityI)
  show "length (map uint (u32_range a b)) = length [uint a..uint b - 1]"
  proof -
    have "unat b - unat a = nat (uint b - uint a)"
      unfolding unat_eq_nat_uint by (rule nat_diff_distrib' [symmetric]) simp_all
    then show ?thesis by (simp add: u32_range_def)
  qed
  fix i assume "i < length (map uint (u32_range a b))"
  then have i: "unat a + i < unat b" by (simp add: u32_range_def)
  have "unat b < 2 ^ 32" using unsigned_less [of b] by simp
  then have "unat (of_nat (unat a + i) :: u32) = unat a + i" using i by (simp only: unat_of_nat) simp
  then have u: "uint (of_nat (unat a + i) :: u32) = uint a + int i" by (metis of_nat_add uint_nat)
  have "int (unat a) + int i \<le> int (unat b) - 1" using i by linarith
  then have "uint a + int i \<le> uint b - 1" by (simp only: uint_nat)
  then show "map uint (u32_range a b) ! i = [uint a..uint b - 1] ! i"
    using u i by (simp add: u32_range_def)
qed

lemma draws_box: "rend_draws r (rend_fill_rect r x y w h col) (box_px x y w h col)"
proof -
  let ?xs = "u32_range x (min (x + w) (r_width r))" and ?ys = "u32_range y (min (y + h) (r_height r))"
  let ?ps = "rect (uint x) (uint (min (x + w) (r_width r))) (uint y) (uint (min (y + h) (r_height r)))"
  have p: "rend_canvas r (rend_fill_rect r x y w h col bs) = cv.paint (area ?ps (shell_px col)) (rend_canvas r bs)" if "rend_ok r bs" for bs
  proof -
    have "rend_fill_rect r x y w h col bs = fold (\<lambda>k bs. rend_put_pixel r (fst k) (snd k) col bs) (grid ?xs ?ys) bs"
      by (simp add: rend_fill_rect_def Let_def fold_nested case_prod_unfold)
    moreover have "map (\<lambda>k. (uint (fst k), uint (snd k))) (grid ?xs ?ys) = ?ps"
      unfolding rect_def uint_u32_range [symmetric] grid_map by (simp add: case_prod_unfold)
    ultimately show ?thesis using fold_rend_put [OF that, of fst snd col "grid ?xs ?ys"] by simp
  qed
  show ?thesis
  proof (rule drawsI [OF paint_rend_ok rend_canvas_ok p])
    fix q assume "inside (uint (r_width r)) (uint (r_height r)) q"
    then show "painted (area ?ps (shell_px col)) q = box_px x y w h col q"
      by (cases q) (auto simp: box_px_def in_box_def inside_def min_def word_le_def)
  qed (use p in simp_all)
qed

lemma draws_border: "rend_draws r (rend_draw_rect_outline r x y w h col) (\<lambda>q. if on_border x y w h q then Some (shell_px col) else None)"
  by (rule draws_eq [OF draws_comp [OF draws_comp [OF draws_comp [OF draws_box draws_box] draws_box] draws_box]])
    (auto simp: rend_draw_rect_outline_def on_border_def box_px_def)

text \<open>The horizontal line above the task bar.\<close>

lemma flat_line:
  assumes "successively next_to ks" "ks \<noteq> []" "\<forall>k \<in> set ks. snd k = 0"
  shows "set ks = (\<lambda>i. (i, 0)) ` {fst (hd ks)..fst (last ks)}"
  using assms
proof (induction ks)
  case (Cons k ks)
  show ?case
  proof (cases "ks = []")
    case True
    then show ?thesis using Cons.prems by (auto simp: prod_eq_iff)
  next
    case False
    have IH: "set ks = (\<lambda>i. (i, 0)) ` {fst (hd ks)..fst (last ks)}"
      using Cons.IH Cons.prems False by (auto simp: successively_Cons)
    have "next_to k (hd ks)" "snd k = 0" "snd (hd ks) = 0" using Cons.prems False by (auto simp: successively_Cons)
    then have k: "k = (fst k, 0)" "fst (hd ks) = fst k + 1" by (auto simp: next_to_def prod_eq_iff)
    have "hd ks \<in> set ks" using False by simp
    then have "fst (hd ks) \<le> fst (last ks)" unfolding IH by auto
    then have "{fst k..fst (last ks)} = insert (fst k) {fst (hd ks)..fst (last ks)}" using k(2) by auto
    then show ?thesis using IH k(1) False by (metis image_insert last_ConsR list.sel(1) list.simps(15))
  qed
qed simp

definition on_hline :: "u32 \<Rightarrow> u32 \<Rightarrow> u32 \<Rightarrow> point \<Rightarrow> bool" where
  "on_hline x0 x1 y q \<longleftrightarrow> snd q = uint y \<and> min (uint x0) (uint x1) \<le> fst q \<and> fst q \<le> max (uint x0) (uint x1)"

definition hline_px :: "u32 \<Rightarrow> u32 \<Rightarrow> u32 \<Rightarrow> ShellColor \<Rightarrow> point \<Rightarrow> px option" where
  "hline_px x0 x1 y col q = (if on_hline x0 x1 y q then Some (shell_px col) else None)"

lemma walk_interval:
  fixes a b u :: int
  shows "(\<exists>i. 0 \<le> i \<and> i \<le> \<bar>b - a\<bar> \<and> u = a + (if a < b then 1 else - 1) * i) \<longleftrightarrow> min a b \<le> u \<and> u \<le> max a b"
  by (cases "a < b") (simp_all, presburger+)

lemma hline_points:
  assumes "is_line x0 y x1 y ks"
  shows "q \<in> set (map (line_point x0 y x1 y) ks) \<longleftrightarrow> on_hline x0 x1 y q"
proof -
  have z: "\<forall>k \<in> set ks. snd k = 0" using assms by (auto simp: is_line_def on_line_def)
  then have "set ks = (\<lambda>i. (i, 0)) ` {0..\<bar>uint x1 - uint x0\<bar>}"
    using flat_line [OF _ _ z] assms by (simp add: is_line_def)
  then have "q \<in> set (map (line_point x0 y x1 y) ks) \<longleftrightarrow>
      snd q = uint y \<and> (\<exists>i. 0 \<le> i \<and> i \<le> \<bar>uint x1 - uint x0\<bar> \<and> fst q = uint x0 + (if uint x0 < uint x1 then 1 else - 1) * i)"
    by (auto simp: image_image line_point_def image_iff prod_eq_iff word_less_def)
  then show ?thesis unfolding walk_interval on_hline_def .
qed

lemma draws_hline:
  "rend_draws r (\<lambda>bs. the (draw_line r x0 y x1 y col bs)) (hline_px x0 x1 y col)"
  "rend_ok r bs \<Longrightarrow> draw_line r x0 y x1 y col bs \<noteq> None"
proof -
  show "rend_ok r bs \<Longrightarrow> draw_line r x0 y x1 y col bs \<noteq> None" using draw_line_paint by blast
  show "rend_draws r (\<lambda>bs. the (draw_line r x0 y x1 y col bs)) (hline_px x0 x1 y col)"
    unfolding draws_def
  proof (intro allI impI conjI)
    fix bs q assume ok: "rend_ok r bs"
    obtain ks bs' where k: "draw_line r x0 y x1 y col bs = Some bs'" "is_line x0 y x1 y ks"
      "rend_canvas r bs' = cv.paint (area (map (line_point x0 y x1 y) ks) (shell_px col)) (rend_canvas r bs)"
      using draw_line_paint [OF ok] by blast
    show "rend_ok r (the (draw_line r x0 y x1 y col bs))" using paint_rend_ok [OF ok k(3)] k(1) by simp
    assume "inside (uint (r_width r)) (uint (r_height r)) q"
    then have "canvas_shown (rend_canvas r bs) q" by simp
    from paint_px [OF rend_canvas_ok [OF ok] this, of "area (map (line_point x0 y x1 y) ks) (shell_px col)"]
    show "canvas_px (rend_canvas r (the (draw_line r x0 y x1 y col bs))) q =
        (case hline_px x0 x1 y col q of Some v \<Rightarrow> v | None \<Rightarrow> canvas_px (rend_canvas r bs) q)"
      unfolding k(3) [symmetric] painted_area hline_points [OF k(2)] by (simp add: k(1) hline_px_def del: canvas_px.simps)
  qed
qed

text \<open>Layers, the uppermost first: a point shows the first layer that has a value there.\<close>

fun layers :: "(point \<Rightarrow> px option) list \<Rightarrow> point \<Rightarrow> px option" where
  "layers [] q = None"
| "layers (g # gs) q = (case g q of Some v \<Rightarrow> Some v | None \<Rightarrow> layers gs q)"

definition border_px :: "u32 \<Rightarrow> u32 \<Rightarrow> u32 \<Rightarrow> u32 \<Rightarrow> ShellColor \<Rightarrow> point \<Rightarrow> px option" where
  "border_px x y w h col q = (if on_border x y w h q then Some (shell_px col) else None)"

definition taskbar_px :: "TaskBar \<Rightarrow> point \<Rightarrow> px option" where
  "taskbar_px tb = layers
     [box_px (tb_x tb + 8) (tb_y tb + 8) 32 32 PRIMARY,
      box_px (tb_x tb + tb_width tb - 100) (tb_y tb + 8) 80 32 SURFACE,
      hline_px (tb_x tb) (tb_x tb + tb_width tb) (tb_y tb) OUTLINE,
      box_px (tb_x tb) (tb_y tb) (tb_width tb) (tb_height tb) SURFACE_VARIANT]"

definition clock_px :: "ClockDisplay \<Rightarrow> point \<Rightarrow> px option" where
  "clock_px cd = layers
     [box_px (cd_x cd + 64) (cd_y cd + 4) (second cd * 4 div 60) 16 PRIMARY,
      box_px (cd_x cd + 34) (cd_y cd + 4) (minute cd * 28 div 60) 16 ON_SURFACE,
      box_px (cd_x cd + 4) (cd_y cd + 4) (hour cd * 28 div 24) 16 ON_SURFACE,
      border_px (cd_x cd) (cd_y cd) 72 24 OUTLINE,
      box_px (cd_x cd) (cd_y cd) 72 24 SURFACE]"

definition icon_px :: "AppLauncher \<Rightarrow> nat \<Rightarrow> point \<Rightarrow> px option" where
  "icon_px al i = box_px (icon_x al i) (icon_y al i) 48 48 (icon_color (apps al ! i))"

definition icons_px :: "AppLauncher \<Rightarrow> point \<Rightarrow> px option" where
  "icons_px al q = (case find (\<lambda>i. icon_px al i q \<noteq> None) (rev [0..<app_count al]) of None \<Rightarrow> None | Some i \<Rightarrow> icon_px al i q)"

definition launcher_px :: "AppLauncher \<Rightarrow> point \<Rightarrow> px option" where
  "launcher_px al = (if al_visible al then layers
     [icons_px al,
      border_px (al_x al) (al_y al) (al_width al) (al_height al) OUTLINE,
      box_px (al_x al) (al_y al) (al_width al) (al_height al) SURFACE] else layers [])"

definition shell_desktop_px :: "ShellState \<Rightarrow> point \<Rightarrow> px" where
  "shell_desktop_px s q =
     (case layers [case launcher s of Some al \<Rightarrow> launcher_px al | None \<Rightarrow> layers [],
                   case clock s of Some cd \<Rightarrow> clock_px cd | None \<Rightarrow> layers [],
                   case taskbar s of Some tb \<Rightarrow> taskbar_px tb | None \<Rightarrow> layers []] q of
        Some v \<Rightarrow> v | None \<Rightarrow> shell_px BACKGROUND)"

lemma draws_layer:
  assumes "draws ok w h f1 (layers gs)" "draws ok w h f2 g"
  shows "draws ok w h (\<lambda>bs. f2 (f1 bs)) (layers (g # gs))"
  by (rule draws_eq [OF draws_comp [OF assms]]) simp_all

lemma draws_layer1: "draws ok w h f g \<Longrightarrow> draws ok w h f (layers [g])"
  by (erule draws_eq) (simp_all split: option.split)

lemma draws_border_px: "rend_draws r (rend_draw_rect_outline r x y w h col) (border_px x y w h col)"
  by (rule draws_eq [OF draws_border]) (simp_all add: border_px_def)

lemma draws_none: "draws ok w h (\<lambda>bs. bs) (layers [])"
  by (rule draws_eq [OF draws_keep]) simp_all

lemmas draws_simple = draws_layer draws_layer1 draws_box draws_border_px draws_hline(1)

lemma draws_clock: "rend_draws r (clock_draw cd r) (clock_px cd)"
proof -
  have "rend_draws r (\<lambda>bs. rend_fill_rect r (cd_x cd + 64) (cd_y cd + 4) (second cd * 4 div 60) 16 PRIMARY
     (rend_fill_rect r (cd_x cd + 34) (cd_y cd + 4) (minute cd * 28 div 60) 16 ON_SURFACE
     (rend_fill_rect r (cd_x cd + 4) (cd_y cd + 4) (hour cd * 28 div 24) 16 ON_SURFACE
     (rend_draw_rect_outline r (cd_x cd) (cd_y cd) 72 24 OUTLINE (rend_fill_rect r (cd_x cd) (cd_y cd) 72 24 SURFACE bs))))) (clock_px cd)"
    unfolding clock_px_def by (intro draws_simple)
  then show ?thesis by (rule draws_eq) (simp_all add: clock_draw_def Let_def add.assoc)
qed

lemma draws_launcher: "rend_draws r (launcher_draw al r) (launcher_px al)"
proof (cases "al_visible al")
  case True
  have "rend_draws r (fold (\<lambda>i bs. rend_fill_rect r (icon_x al i) (icon_y al i) 48 48 (icon_color (apps al ! i)) bs) [0..<app_count al]) (icons_px al)"
    unfolding icons_px_def [abs_def] by (rule draws_fold) (simp add: icon_px_def draws_box)
  then have "rend_draws r (\<lambda>bs. fold (\<lambda>i bs. rend_fill_rect r (icon_x al i) (icon_y al i) 48 48 (icon_color (apps al ! i)) bs) [0..<app_count al]
     (rend_draw_rect_outline r (al_x al) (al_y al) (al_width al) (al_height al) OUTLINE
       (rend_fill_rect r (al_x al) (al_y al) (al_width al) (al_height al) SURFACE bs))) (launcher_px al)"
    using True unfolding launcher_px_def if_P [OF True] by (intro draws_simple)
  then show ?thesis by (rule draws_eq) (simp_all add: launcher_draw_def True Let_def)
next
  case False
  then show ?thesis by (intro draws_eq [OF draws_none]) (simp_all add: launcher_draw_def launcher_px_def)
qed

lemma draws_taskbar:
  "rend_draws r (\<lambda>bs. the (taskbar_draw tb r bs)) (taskbar_px tb)"
  "rend_ok r bs \<Longrightarrow> taskbar_draw tb r bs \<noteq> None"
proof -
  let ?f = "rend_fill_rect r (tb_x tb) (tb_y tb) (tb_width tb) (tb_height tb) SURFACE_VARIANT"
  have line: "\<exists>bs'. draw_line r (tb_x tb) (tb_y tb) (tb_x tb + tb_width tb) (tb_y tb) OUTLINE (?f bs) = Some bs'" if "rend_ok r bs" for bs
    using draws_hline(2) [OF drawsD(2) [OF draws_box that]] by blast
  show "taskbar_draw tb r bs \<noteq> None" if "rend_ok r bs" using line [OF that] by (auto simp: taskbar_draw_def Let_def)
  have "rend_draws r (\<lambda>bs. rend_fill_rect r (tb_x tb + 8) (tb_y tb + 8) 32 32 PRIMARY
     (rend_fill_rect r (tb_x tb + tb_width tb - 100) (tb_y tb + 8) 80 32 SURFACE
       (the (draw_line r (tb_x tb) (tb_y tb) (tb_x tb + tb_width tb) (tb_y tb) OUTLINE (?f bs))))) (taskbar_px tb)" (is "rend_draws r ?g _")
    unfolding taskbar_px_def by (intro draws_simple)
  moreover have "the (taskbar_draw tb r bs) = ?g bs" if "rend_ok r bs" for bs
    using line [OF that] by (auto simp: taskbar_draw_def Let_def)
  ultimately show "rend_draws r (\<lambda>bs. the (taskbar_draw tb r bs)) (taskbar_px tb)" by (simp add: draws_def del: canvas_px.simps split_paired_All)
qed

lemma shell_events:
  "renderer (fold shell_event evs s) = renderer s" "taskbar (fold shell_event evs s) = taskbar s" "clock (fold shell_event evs s) = clock s"
  "tick_count (fold shell_event evs s) = tick_count s" "shell_offscreen (fold shell_event evs s) = shell_offscreen s"
  by (induction evs arbitrary: s) (simp_all add: shell_event_def)

lemma commit_fits:
  assumes "rend_ok r bs"
  shows "rend_commit r bs = Inr SHELL_ENOSYS"
proof -
  let ?n = "unat (r_width r) * unat (r_height r) * 4"
  have n1: "?n \<le> length bs" and l: "length bs < 2 ^ 63" using assms unfolding rend_ok_def by blast+
  have n2: "?n < 2 ^ 64" by (rule le_less_trans [OF n1 less_trans [OF l]]) simp
  have "(ucast (r_width r) :: u64) * ucast (r_height r) * 4 = of_nat ?n" by simp
  then have "unat ((ucast (r_width r) :: u64) * ucast (r_height r) * 4) = ?n" by (simp only:) (rule unat_offset [OF n2])
  then show ?thesis using n1 by (simp add: rend_commit_def Let_def shell_fb_commit_def)
qed

lemma render_desktop_px:
  assumes ok: "rend_ok r (shell_offscreen s)"
  shows "\<exists>bs. render_desktop r s = Some (Inr (s\<lparr>clock := map_option (clock_time (tick_count s)) (clock s), shell_offscreen := bs\<rparr>)) \<and> rend_ok r bs \<and>
    (\<forall>q. inside (uint (r_width r)) (uint (r_height r)) q \<longrightarrow> canvas_px (rend_canvas r bs) q =
      shell_desktop_px (s\<lparr>clock := map_option (clock_time (tick_count s)) (clock s), shell_offscreen := bs\<rparr>) q)"
proof -
  let ?cd = "map_option (clock_time (tick_count s)) (clock s)"
  let ?tb = "\<lambda>bs. case taskbar s of None \<Rightarrow> bs | Some tb \<Rightarrow> the (taskbar_draw tb r bs)"
  let ?cl = "\<lambda>bs. case ?cd of None \<Rightarrow> bs | Some cd \<Rightarrow> clock_draw cd r bs"
  let ?al = "\<lambda>bs. case launcher s of None \<Rightarrow> bs | Some al \<Rightarrow> launcher_draw al r bs"
  let ?bs = "?al (?cl (?tb (rend_clear r BACKGROUND (shell_offscreen s))))"
  have bg: "rend_draws r (rend_clear r BACKGROUND) (box_px 0 0 (r_width r) (r_height r) BACKGROUND)"
    by (rule draws_eq [OF draws_box]) (simp_all add: rend_clear_def)
  have tb: "rend_draws r ?tb (case taskbar s of Some tb \<Rightarrow> taskbar_px tb | None \<Rightarrow> layers [])"
    by (cases "taskbar s") (simp_all add: draws_none draws_taskbar(1))
  have cl: "rend_draws r ?cl (case ?cd of Some cd \<Rightarrow> clock_px cd | None \<Rightarrow> layers [])"
    by (cases "clock s") (simp_all add: draws_none draws_clock)
  have al: "rend_draws r ?al (case launcher s of Some al \<Rightarrow> launcher_px al | None \<Rightarrow> layers [])"
    by (cases "launcher s") (simp_all add: draws_none draws_launcher)
  have all: "rend_draws r (\<lambda>bs. ?al (?cl (?tb (rend_clear r BACKGROUND bs))))
     (layers [case launcher s of Some al \<Rightarrow> launcher_px al | None \<Rightarrow> layers [], case ?cd of Some cd \<Rightarrow> clock_px cd | None \<Rightarrow> layers [],
        case taskbar s of Some tb \<Rightarrow> taskbar_px tb | None \<Rightarrow> layers [], box_px 0 0 (r_width r) (r_height r) BACKGROUND])"
    by (intro draws_layer draws_layer1 bg tb cl al)
  have "(case taskbar s of None \<Rightarrow> Some bs | Some tb \<Rightarrow> taskbar_draw tb r bs) = Some (?tb bs)" if "rend_ok r bs" for bs
    using draws_taskbar(2) [OF that] by (cases "taskbar s") auto
  then have "render_desktop r s = Some (Inr (s\<lparr>clock := ?cd, shell_offscreen := ?bs\<rparr>))"
    using drawsD(2) [OF bg ok] commit_fits [OF drawsD(2) [OF all ok]] by (simp add: render_desktop_def Let_def)
  moreover have "canvas_px (rend_canvas r ?bs) q = shell_desktop_px (s\<lparr>clock := ?cd, shell_offscreen := ?bs\<rparr>) q"
    if q: "inside (uint (r_width r)) (uint (r_height r)) q" for q
  proof -
    have "box_px 0 0 (r_width r) (r_height r) BACKGROUND q = Some (shell_px BACKGROUND)" using q by (simp add: box_px_def in_box_def inside_def)
    then show ?thesis unfolding drawsD(1) [OF all ok q] shell_desktop_px_def by (simp split: option.split)
  qed
  ultimately show ?thesis using drawsD(2) [OF all ok] by blast
qed

text \<open>
  C37. A frame of the shell. One round of the event loop returns. Every pixel of the buffer then
  shows the topmost part of the desktop: the launcher with its icons when it is open, the clock with
  the time of the tick counter, the task bar with its line and buttons, or the background. Only the
  key l opens and closes the launcher; the tick counter is one higher and the geometry is the same.\<close>

theorem shell_frame_shows:
  assumes "renderer s = Some r" "rend_ok r (shell_offscreen s)"
  shows "\<exists>s'. shell_frame evs s = Some (Inr s') \<and> tick_count s' = tick_count s + 1 \<and> renderer s' = Some r \<and>
    rend_ok r (shell_offscreen s') \<and> taskbar s' = taskbar s \<and> launcher s' = launcher (fold shell_event evs s) \<and>
    clock s' = map_option (clock_time (tick_count s)) (clock s) \<and>
    (\<forall>q. inside (uint (r_width r)) (uint (r_height r)) q \<longrightarrow>
       canvas_px (rend_canvas r (shell_offscreen s')) q = shell_desktop_px s' q)"
proof -
  let ?s = "fold shell_event evs s"
  have "rend_ok r (shell_offscreen ?s)" using assms(2) by (simp add: shell_events)
  from render_desktop_px [OF this] obtain bs where
    bs: "render_desktop r ?s = Some (Inr (?s\<lparr>clock := map_option (clock_time (tick_count ?s)) (clock ?s), shell_offscreen := bs\<rparr>))" "rend_ok r bs"
    "\<forall>q. inside (uint (r_width r)) (uint (r_height r)) q \<longrightarrow> canvas_px (rend_canvas r bs) q =
      shell_desktop_px (?s\<lparr>clock := map_option (clock_time (tick_count ?s)) (clock ?s), shell_offscreen := bs\<rparr>) q" by blast
  let ?s' = "?s\<lparr>clock := map_option (clock_time (tick_count ?s)) (clock ?s), shell_offscreen := bs, tick_count := tick_count s + 1\<rparr>"
  have "shell_frame evs s = Some (Inr ?s')"
    using assms(1) bs(1) by (simp add: shell_frame_def Let_def shell_events)
  moreover have "shell_desktop_px ?s' q = shell_desktop_px (?s\<lparr>clock := map_option (clock_time (tick_count ?s)) (clock ?s), shell_offscreen := bs\<rparr>) q" for q
    by (simp add: shell_desktop_px_def)
  ultimately show ?thesis using bs(2,3) assms(1) by (intro exI [of _ ?s']) (simp add: shell_events)
qed

theorem shell_frame_shows_witness:
  "\<exists>s'. shell_frame [] (fst (shell_init True shell_start)) = Some (Inr s') \<and> tick_count s' = 1 \<and>
     canvas_px (rend_canvas (renderer_new 1280 720) (shell_offscreen s')) (640, 360) = shell_px BACKGROUND"
proof -
  let ?s = "fst (shell_init True shell_start)" and ?r = "renderer_new 1280 720"
  have s: "renderer ?s = Some ?r" "taskbar ?s = Some (taskbar_new 1280 720)" "clock ?s = Some (clock_new 1280)"
      "\<exists>al. launcher ?s = Some al \<and> \<not> al_visible al" "tick_count ?s = 0" "shell_offscreen ?s = replicate SHELL_OFFSCREEN_LEN 0"
    by (simp_all add: shell_init_def shell_start_def SHELL_ENOSYS_def word_sless_alt Let_def add_app_def launcher_new_def)
  have "rend_ok ?r (shell_offscreen ?s)" unfolding s(6) by (simp add: rend_ok_def renderer_new_def SHELL_OFFSCREEN_LEN_def)
  from shell_frame_shows [OF s(1) this, of "[]"] obtain s' where
    s': "shell_frame [] ?s = Some (Inr s')" "tick_count s' = tick_count ?s + 1" "taskbar s' = taskbar ?s" "launcher s' = launcher ?s"
      "clock s' = map_option (clock_time (tick_count ?s)) (clock ?s)"
      "\<forall>q. inside 1280 720 q \<longrightarrow> canvas_px (rend_canvas ?r (shell_offscreen s')) q = shell_desktop_px s' q"
    by (auto simp: renderer_new_def simp del: canvas_px.simps)
  obtain al where al: "launcher s' = Some al" "\<not> al_visible al" using s(4) s'(4) by auto
  have "taskbar_px (taskbar_new 1280 720) (640, 360) = None"
    by (simp add: taskbar_px_def taskbar_new_def sat_sub_def box_px_def in_box_def hline_px_def on_hline_def)
  moreover have "clock_px (clock_time 0 (clock_new 1280)) (640, 360) = None"
    by (simp add: clock_px_def clock_time_def set_time_def clock_new_def sat_sub_def box_px_def in_box_def border_px_def on_border_def)
  ultimately have "shell_desktop_px s' (640, 360) = shell_px BACKGROUND"
    unfolding shell_desktop_px_def al(1) s'(3,5) s(2,3,5) using al(2) by (simp add: launcher_px_def)
  moreover have "inside 1280 720 (640, 360)" by (simp add: inside_def)
  ultimately show ?thesis using s'(1,2,6) s(5) by auto
qed

end
