(* ===== verification/Aero.thy ===== *)
theory Aero
  imports Prelude
begin

text \<open>
  Application packages (\<^verbatim>\<open>kernel/src/aero_format.rs\<close>): parsing the header, the program inside and the
  name. The properties: a package built in the layout of the parser is loaded back, and the parser
  never reads past the buffer.
\<close>

definition AERO_MAGIC :: bytes where "AERO_MAGIC = as_bytes ''AERO''"
definition AERO_VERSION :: u16 where "AERO_VERSION = 1"

record AeroHeader =
  ah_magic :: bytes
  ah_version :: u16
  ah_name_len :: u8
  ah_icon_color :: u32
  ah_elf_len :: u32
  ah_resource_count :: u16

definition parse_header :: "bytes \<Rightarrow> (AeroHeader \<times> nat) option" where
  "parse_header bs =
     (if length bs < 4 + 2 + 1 then None
      else if slice 0 4 bs \<noteq> AERO_MAGIC then None
      else
        let version = from_le [bs ! 4, bs ! 5];
            name_len = bs ! 6;
            name_start = 7;
            name_end = name_start + unat name_len
        in if length bs < name_end + 4 + 4 + 2 then None
           else Some (\<lparr>ah_magic = AERO_MAGIC, ah_version = version, ah_name_len = name_len,
               ah_icon_color = from_le (slice name_end (name_end + 4) bs),
               ah_elf_len = from_le (slice (name_end + 4) (name_end + 8) bs),
               ah_resource_count = from_le [bs ! (name_end + 8), bs ! (name_end + 9)]\<rparr>, name_start))"

definition elf_offset :: "AeroHeader \<Rightarrow> nat \<times> nat" where
  "elf_offset hdr = (7 + unat (ah_name_len hdr) + 4 + 4 + 2, unat (ah_elf_len hdr))"

definition extract_name :: "bytes \<Rightarrow> AeroHeader \<Rightarrow> bytes" where
  "extract_name bs hdr = (if length bs < 7 + unat (ah_name_len hdr) then [] else slice 7 (7 + unat (ah_name_len hdr)) bs)"

text \<open>The line on the serial port is left out.\<close>

definition load_aero :: "bytes \<Rightarrow> bytes result" where
  "load_aero bs =
     (case parse_header bs of
        None \<Rightarrow> Inl ''invalid .aero header''
      | Some (hdr, _) \<Rightarrow>
          if ah_version hdr \<noteq> AERO_VERSION then Inl ''unsupported .aero version''
          else case elf_offset hdr of (off, len) \<Rightarrow>
            if length bs < off + len then Inl ''ELF section truncated''
            else Inr (slice off (off + len) bs))"

section \<open>Building packages\<close>

text \<open>A package in the layout that the parser expects, followed by resources.\<close>

definition build_aero :: "u16 \<Rightarrow> bytes \<Rightarrow> u32 \<Rightarrow> bytes \<Rightarrow> u16 \<Rightarrow> bytes \<Rightarrow> bytes" where
  "build_aero version nm icon elf rc res =
     AERO_MAGIC @ to_le 2 version @ [of_nat (length nm)] @ nm @ to_le 4 icon @ to_le 4 (of_nat (length elf) :: u32) @ to_le 2 rc @ elf @ res"

lemma length_magic: "length AERO_MAGIC = 4"
  by (simp add: AERO_MAGIC_def)

lemma slice_at: "n = length a \<Longrightarrow> k = length a + length b \<Longrightarrow> slice n k (a @ b @ c) = b"
  by (simp add: slice_def)

lemma list_of_2: "length xs = 2 \<Longrightarrow> [xs ! 0, xs ! 1] = xs"
  by (cases xs) (auto simp: length_Suc_conv numeral_2_eq_2)

lemma parse_build:
  assumes "length nm < 256" "length elf < 2 ^ 32"
  shows "parse_header (build_aero version nm icon elf rc res) =
    Some (\<lparr>ah_magic = AERO_MAGIC, ah_version = version, ah_name_len = of_nat (length nm), ah_icon_color = icon,
      ah_elf_len = of_nat (length elf), ah_resource_count = rc\<rparr>, 7)"
proof -
  let ?b = "build_aero version nm icon elf rc res"
  have n: "unat (of_nat (length nm) :: u8) = length nm" using assms(1) by (simp add: unat_of_nat)
  have nth: "(a @ b @ c) ! (length a + i) = b ! i" if "i < length b" for a b c :: bytes and i
    using that by (simp add: nth_append)
  have v: "[?b ! 4, ?b ! 5] = to_le 2 version"
    using nth [of 0 "to_le 2 version" AERO_MAGIC] nth [of 1 "to_le 2 version" AERO_MAGIC] list_of_2 [of "to_le 2 version"]
    by (simp add: build_aero_def length_magic)
  have l: "?b ! 6 = of_nat (length nm)"
    using nth [of 0 "[of_nat (length nm)]" "AERO_MAGIC @ to_le 2 version"] by (simp add: build_aero_def length_magic)
  let ?e = "7 + length nm"
  have r: "[?b ! (?e + 8), ?b ! (?e + 9)] = to_le 2 rc"
    using nth [of 0 "to_le 2 rc" "AERO_MAGIC @ to_le 2 version @ [of_nat (length nm)] @ nm @ to_le 4 icon @ to_le 4 (of_nat (length elf) :: u32)"]
      nth [of 1 "to_le 2 rc" "AERO_MAGIC @ to_le 2 version @ [of_nat (length nm)] @ nm @ to_le 4 icon @ to_le 4 (of_nat (length elf) :: u32)"]
      list_of_2 [of "to_le 2 rc"] by (simp add: build_aero_def length_magic add.commute add.left_commute)
  have i: "slice ?e (?e + 4) ?b = to_le 4 icon"
    using slice_at [of ?e "AERO_MAGIC @ to_le 2 version @ [of_nat (length nm)] @ nm" "?e + 4" "to_le 4 icon"]
    by (simp add: build_aero_def length_magic)
  have f: "slice (?e + 4) (?e + 8) ?b = to_le 4 (of_nat (length elf) :: u32)"
    using slice_at [of "?e + 4" "AERO_MAGIC @ to_le 2 version @ [of_nat (length nm)] @ nm @ to_le 4 icon" "?e + 8" "to_le 4 (of_nat (length elf) :: u32)"]
    by (simp add: build_aero_def length_magic)
  have m: "slice 0 4 ?b = AERO_MAGIC" using slice_at [of 0 "[]" 4 AERO_MAGIC] by (simp add: build_aero_def length_magic)
  have len: "length ?b = 17 + length nm + length elf + length res" by (simp add: build_aero_def length_magic)
  show ?thesis unfolding parse_header_def Let_def l n v i f r m
    using len by (simp add: from_le_to_le)
qed

text \<open>
  Packages. A package of the current version with a name of at most 255 bytes, a program below
  4 GiB and any resources is loaded as exactly this program, and the name is extracted unchanged.\<close>

theorem aero_roundtrip:
  assumes "length nm < 256" "length elf < 2 ^ 32"
  shows "load_aero (build_aero AERO_VERSION nm icon elf rc res) = Inr elf \<and>
    (\<exists>hdr. parse_header (build_aero AERO_VERSION nm icon elf rc res) = Some (hdr, 7) \<and>
       extract_name (build_aero AERO_VERSION nm icon elf rc res) hdr = nm)"
proof
  let ?b = "build_aero AERO_VERSION nm icon elf rc res"
  note p = parse_build [OF assms, of AERO_VERSION icon rc res]
  have n: "unat (of_nat (length nm) :: u8) = length nm" using assms(1) by (simp add: unat_of_nat)
  have e: "unat (of_nat (length elf) :: u32) = length elf" using assms(2) by (simp add: unat_of_nat)
  have len: "length ?b = 17 + length nm + length elf + length res" by (simp add: build_aero_def length_magic)
  have "slice (17 + length nm) (17 + length nm + length elf) ?b = elf"
    using slice_at [of "17 + length nm" "AERO_MAGIC @ to_le 2 AERO_VERSION @ [of_nat (length nm)] @ nm @ to_le 4 icon @ to_le 4 (of_nat (length elf) :: u32) @ to_le 2 rc"
        "17 + length nm + length elf" elf res]
    by (simp add: build_aero_def length_magic)
  then show "load_aero ?b = Inr elf" using len by (simp add: load_aero_def p elf_offset_def n e)
  have "slice 7 (7 + length nm) ?b = nm"
    using slice_at [of 7 "AERO_MAGIC @ to_le 2 AERO_VERSION @ [of_nat (length nm)]" "7 + length nm" nm] by (simp add: build_aero_def length_magic)
  then show "\<exists>hdr. parse_header ?b = Some (hdr, 7) \<and> extract_name ?b hdr = nm" using len by (simp add: p extract_name_def n)
qed

theorem aero_roundtrip_witness: "load_aero (build_aero AERO_VERSION (as_bytes ''app'') 0xff0000 [1, 2, 3] 0 []) = Inr [1, 2, 3]"
  using aero_roundtrip [of "as_bytes ''app''" "[1, 2, 3]" "0xff0000" 0 "[]"] by simp

end
