(* ===== verification/Spec2Isabelle.thy ===== *)
theory Spec2Isabelle
  imports Run_User Shims Ata_Ports Adapter_Run Mem Sys_Props Exec_Args Sys_Screen Compositor Shell Sysutils Adapter Boot Aero Uhci Ps2 User_Programs
begin

text \<open>
  Verification of AeroOS (flutter-os), a hobby operating system for x86-64 in Rust: a kernel with
  preemptive processes, paging, a virtual file system and system calls, a window manager, a
  desktop shell, an adapter for the Flutter engine, a user program with the usual commands, and
  the build script that makes the disk image.

  \<^bold>\<open>How the program fits together.\<close> The build script appends a FAT32 partition with the user programs to
  the boot image. The kernel takes its frames from the memory map, mounts the in-memory file
  system, the device files and the partition, reserves process slots for window manager and shell,
  loads the first programs and starts the scheduler. The timer interrupt switches between
  processes; a program enters the kernel with \<^verbatim>\<open>int 0x80\<close>, the trampoline saves its registers and the
  dispatcher calls one of 24 system calls, which work on the process table, the address spaces, the
  descriptor table and the file systems. Window manager and shell draw into off-screen buffers
  and commit them to the framebuffer.

  \<^bold>\<open>Conventions.\<close>
  \<^item> Machine integers are words of their width and wrap around, as in the release profile; \<^verbatim>\<open>usize\<close> is
    \<open>nat\<close> where it is a length or an index that cannot wrap, else a 64-bit word.
  \<^item> \<^verbatim>\<open>Result\<close> is the sum type \<open>'a result\<close> with the message on the left; a panic is the message
    \<open>panic\<close> or \<open>None\<close>. A kernel that no longer runs (a lock taken twice, a halt without
    interrupts) is a value of its own: \<open>None\<close>, \<open>Halted\<close> or \<open>Stuck\<close>.
  \<^item> State is passed explicitly. The kernel's statics are the record \<open>kernel\<close>, with \<open>machine\<close> (process table, scheduler,
    kernel stacks, registers), \<open>memory\<close> (frames and the allocator) and \<open>Vfs\<close> (mounts and devices) as
    parts; a component takes the part it uses. Raw pointers are addresses into a byte memory.
  \<^item> Strings and paths are byte lists.
  \<^item> Code of other crates is an argument: the page mapper of \<^verbatim>\<open>x86_64\<close>, the heap allocator, the
    bootloader's image and framebuffer description. Hardware is a record (the disk drive) or a
    pair of functions on a device state (USB and PS/2 controllers).
  \<^item> Messages on the console and the serial port are left out, except where they are the effect of a call.

  \<^bold>\<open>Foundations.\<close>
  \<^item> \<open>Prelude\<close>: machine types, byte order, slices, loops that may fail; \<open>User_Memory\<close>: bytes and strings at
    addresses.
  \<^item> \<open>Interfaces\<close>: the contracts \<open>handle_table\<close> (interpreted by the descriptor, process and window tables),
    \<open>bounded_queue\<close> (the scan-code ring), \<open>resource_pool\<close> (the frame allocator); \<open>File_Ops\<close>: the contract
    \<open>file_store\<close> (the in-memory file system); \<open>Raster\<close>: the contract \<open>raster\<close> of pixel surfaces (the kernel's
    framebuffer and the off-screen buffers of \<open>Canvas\<close>).

  \<^bold>\<open>Memory and processes\<close> (\<^verbatim>\<open>kernel/src\<close>).
  \<^item> \<open>Frames\<close> (\<^verbatim>\<open>memory/frame_allocator.rs\<close>): allocation gives distinct, zeroed frames. \<open>Paging\<close>
    (\<^verbatim>\<open>memory/page_table.rs\<close>): new address spaces share only kernel entries; release frees exactly the tree
    below entry 0. \<open>Mem\<close> (\<^verbatim>\<open>mem.rs\<close>): the byte loops behind the compiler's memory functions.
  \<^item> \<open>Fd_Table\<close> (\<^verbatim>\<open>syscalls/fd.rs\<close>), \<open>Process_Table\<close> (\<^verbatim>\<open>process.rs\<close>), \<open>Signals\<close> (\<^verbatim>\<open>signal.rs\<close>, \<^verbatim>\<open>perm.rs\<close>, \<^verbatim>\<open>oom.rs\<close>): the tables
    as finite maps, stable ids, every branch of \<^verbatim>\<open>kill\<close>.
  \<^item> \<open>Sched\<close> (\<^verbatim>\<open>scheduler.rs\<close>): context switch and timer tick as a step relation; one running process,
    fairness of the round robin, no deadlock on held locks.
  \<^item> \<open>Elf\<close> (\<^verbatim>\<open>exec.rs\<close>, \<^verbatim>\<open>userproc.rs\<close>), \<open>User_Programs\<close> (\<^verbatim>\<open>fs/initramfs.rs\<close>), \<open>Trampoline\<close>
    (\<^verbatim>\<open>syscall_trampoline.rs\<close>): loading programs, entering and leaving the kernel.
  \<^item> \<open>Interrupts\<close> (\<^verbatim>\<open>interrupts/gdt.rs\<close>, \<^verbatim>\<open>interrupts/idt.rs\<close>, \<^verbatim>\<open>interrupts/mod.rs\<close>): segments, gates, the exceptions, and
    the hardware interrupts with their end-of-interrupt messages as a step relation: which of them are lost
    when a handler switches processes, and that the controllers are then silent for ever.
  \<^item> \<open>Syscalls\<close>, \<open>Sys_Process\<close> (\<^verbatim>\<open>syscalls/mod.rs\<close>, \<^verbatim>\<open>interrupts/idt.rs\<close>): all system calls and the handlers;
    their properties are in \<open>Sys_Props\<close> (permissions, \<^verbatim>\<open>fork\<close>, \<^verbatim>\<open>waitpid\<close>), \<open>Exec_Args\<close> (where \<^verbatim>\<open>exec\<close> puts the
    arguments) and \<open>Sys_Screen\<close> (\<^verbatim>\<open>fb_commit\<close>, \<^verbatim>\<open>nanosleep\<close>).

  \<^bold>\<open>The boot.\<close>
  \<^item> \<open>Boot\<close> (\<^verbatim>\<open>boot_service.rs\<close>, \<^verbatim>\<open>shell_host.rs\<close>, the end of \<^verbatim>\<open>lib.rs\<close>): the first processes. \<open>Boot_Files\<close>: the file
    system as the boot leaves it. \<open>Boot_Main\<close> (\<^verbatim>\<open>lib.rs\<close>, \<^verbatim>\<open>memory/mod.rs\<close>): \<^verbatim>\<open>kernel_main\<close> as one sequence over the
    components, its end, and the first five timer ticks; its witness boots from the image of \<open>Disk_Image\<close>.
  \<^item> \<open>Run_User\<close>: the instructions of the embedded program and of the built-in test program, run through the
    trampoline into the system calls. The little interpreter of instructions is environment, not code
    of the repository.

  \<^bold>\<open>Files.\<close>
  \<^item> \<open>Tmpfs\<close>, \<open>Devfs\<close>, \<open>Vfs\<close> (\<^verbatim>\<open>fs/tmpfs.rs\<close>, \<^verbatim>\<open>fs/devfs.rs\<close>, \<^verbatim>\<open>fs/mod.rs\<close>): mounts, path resolution, creating and
    reading back by path.
  \<^item> \<open>Ata\<close> (\<^verbatim>\<open>ata.rs\<close>), \<open>Fat_Table\<close>, \<open>Fat_Dir\<close>, \<open>Fat32\<close> (\<^verbatim>\<open>fs/fat32.rs\<close>): the volume from sectors up to file
    operations; reading refines the chain of clusters, creation refines the directory. \<open>Ata_Ports\<close>: the disk
    driver port by port, which implements the driver of \<open>Ata\<close> over a drive that answers in time.
  \<^item> \<open>Disk_Image\<close> (\<^verbatim>\<open>build.rs\<close>): the image that the build script makes is one that the driver mounts, and every
    file comes back. \<open>Aero\<close> (\<^verbatim>\<open>aero_format.rs\<close>): application packages.

  \<^bold>\<open>Devices and graphics.\<close>
  \<^item> \<open>Input\<close>, \<open>Ps2\<close>, \<open>Uhci\<close> (\<^verbatim>\<open>interrupts\<close>, \<^verbatim>\<open>usb\<close>, \<^verbatim>\<open>syscalls/input.rs\<close>, \<^verbatim>\<open>syscalls/time.rs\<close>): the scan-code ring, mouse
    packets, key maps; the setups of mouse and USB controller end whatever the device answers.
  \<^item> \<open>Graphics\<close> (\<^verbatim>\<open>graphics/mod.rs\<close>), \<open>Console\<close> (\<^verbatim>\<open>vga_buffer.rs\<close>): what is drawn, and that nothing else changes.

  \<^bold>\<open>User side.\<close>
  \<^item> \<open>Windows\<close>, \<open>Wm_Input\<close>, \<open>Compositor\<close> (\<^verbatim>\<open>wm/src\<close>): window list, focus and dragging, and the picture of a frame
    against a specification that names the topmost object of each pixel.
  \<^item> \<open>Shell\<close> (\<^verbatim>\<open>flutter_shell/src\<close>): lines within half a pixel of the ideal one, widgets, frames. \<open>Adapter\<close>
    (\<^verbatim>\<open>flutter_adapter/src\<close>): the canvas writes only into the mapped framebuffer. \<open>Serial_Port\<close> (\<^verbatim>\<open>kernel/src/serial.rs\<close>):
    standard input port by port. \<open>Adapter_Run\<close>: the rounds of the adapter's loop and the stubs of the engine; its input, the kernel's
    standard input, delivers characters where the adapter expects scan codes.
  \<^item> \<open>Sysutils\<close> (\<^verbatim>\<open>sysutils/src\<close>): commands and the interactive shell over the system calls; \<^verbatim>\<open>ls\<close> is connected
    with the kernel's directory records. \<open>Abi\<close> (the \<^verbatim>\<open>syscalls.rs\<close> of all user crates): the wrappers down to
    \<^verbatim>\<open>int 0x80\<close>, and the numbers and structures that the crates copy from the kernel. \<open>Shims\<close>: the memory functions
    and the entry point of \<^verbatim>\<open>sysutils\<close>.

  \<^bold>\<open>Bounds.\<close> Loops are structural or have a termination proof. \<open>CHAIN_LIMIT\<close>, \<open>WAIT_ROUNDS\<close> and \<open>POLL_ROUNDS\<close> are limits of the
  source. \<open>user_run\<close> is given the number of instructions, eight for both programs, and its theorems show that
  they are enough to reach the exit. The only other fuel is that of \<open>update_size_recursive\<close>, one more than the number of clusters:
  deeper recursion visits a directory inside itself, which the code does until its stack
  overflows. Loops that depend on data or input are partial functions (\<^verbatim>\<open>strlen\<close>, the line loop of the shell, reading
  lines and files in \<^verbatim>\<open>sysutils\<close>); the line loop is proved to return. \<^verbatim>\<open>nanosleep\<close> returns exactly when
  interrupts are enabled or no wait is needed.

  \<^bold>\<open>Not modelled.\<close> The sending side of the serial port, which is another crate; the allocator behind the kernel heap; the functions of
  \<^verbatim>\<open>flutter_adapter/src/embedder.rs\<close> with empty bodies; the host program that copies the image (\<^verbatim>\<open>src/main.rs\<close>) and the build steps
  that call the bootloader crate; console messages other than the markers of the boot; interrupts that arrive
  while \<^verbatim>\<open>kernel_main\<close> still runs. What is left of the sources are accessors, constants without a use, and
  comments.
\<close>

end
